(* ===== verification/Dnp_Base.thy ===== *)
theory Dnp_Base
  imports Main "HOL-Library.Word"
begin

text \<open>
  The prelude of the development: the machine types of the Go code, the result type that
  stands for a Go \<open>(value, error)\<close> pair, the little-endian integer codecs of the standard
  library package \<open>encoding/binary\<close>, and the generic facts on bytes and lists that the
  components share.
  \<^item> \<open>uint8\<close>, \<open>uint16\<close>, \<open>uint32\<close> and \<open>uint64\<close> are words of that width, so
    conversions truncate and additions wrap as they do in Go.
  \<^item> A byte slice is a list of bytes. The code never tells a nil slice from an empty one,
    except where the result of reassembly is compared with nil; there the model returns an
    option.
  \<^item> A function that returns a value or an error returns \<open>'e + 'a\<close>, \<open>Inl\<close> the error.
\<close>

unbundle bit_operations_syntax

type_synonym byte = "8 word"
type_synonym u16 = "16 word"
type_synonym u32 = "32 word"
type_synonym u64 = "64 word"
type_synonym bytes = "byte list"

named_theorems ctrl_bits \<open>single-bit masks of a byte as bit tests\<close>

section \<open>Results\<close>

abbreviation is_ok :: "'e + 'a \<Rightarrow> bool" where
  "is_ok r \<equiv> (case r of Inl _ \<Rightarrow> False | Inr _ \<Rightarrow> True)"

section \<open>Bytes as eight bits\<close>

lemma byte_eqI:
  fixes x y :: byte
  assumes "\<And>n. n < 8 \<Longrightarrow> bit x n = bit y n"
  shows "x = y"
  by (rule bit_word_eqI) (simp add: assms)

lemma all_less_8: "(\<forall>n<8. P n) \<longleftrightarrow> P 0 \<and> P 1 \<and> P 2 \<and> P 3 \<and> P 4 \<and> P 5 \<and> P 6 \<and> P (7::nat)"
  by (simp add: eval_nat_numeral All_less_Suc) blast

lemma byte_eq_iff:
  fixes x y :: byte
  shows "x = y \<longleftrightarrow> bit x 0 = bit y 0 \<and> bit x 1 = bit y 1 \<and> bit x 2 = bit y 2 \<and> bit x 3 = bit y 3
    \<and> bit x 4 = bit y 4 \<and> bit x 5 = bit y 5 \<and> bit x 6 = bit y 6 \<and> bit x 7 = bit y 7"
proof -
  have "x = y \<longleftrightarrow> (\<forall>n<8. bit x n = bit y n)"
    using byte_eqI [of x y] by blast
  then show ?thesis by (simp add: all_less_8)
qed

lemma and_mask_bit: "x AND 2 ^ n = 0 \<longleftrightarrow> \<not> bit x n" for x :: "'a::len word"
  by (rule and_exp_eq_0_iff_not_bit)

lemma mask_bit [ctrl_bits]:
  fixes x :: byte
  shows "x AND 0x01 = 0 \<longleftrightarrow> \<not> bit x 0" and "x AND 0x02 = 0 \<longleftrightarrow> \<not> bit x 1"
    and "x AND 0x04 = 0 \<longleftrightarrow> \<not> bit x 2" and "x AND 0x08 = 0 \<longleftrightarrow> \<not> bit x 3"
    and "x AND 0x10 = 0 \<longleftrightarrow> \<not> bit x 4" and "x AND 0x20 = 0 \<longleftrightarrow> \<not> bit x 5"
    and "x AND 0x40 = 0 \<longleftrightarrow> \<not> bit x 6" and "x AND 0x80 = 0 \<longleftrightarrow> \<not> bit x 7"
  using and_mask_bit [of x 0] and_mask_bit [of x 1] and_mask_bit [of x 2] and_mask_bit [of x 3]
    and_mask_bit [of x 4] and_mask_bit [of x 5] and_mask_bit [of x 6] and_mask_bit [of x 7]
  by simp_all

lemma and_low_nibble_bit:
  fixes x :: byte
  shows "x AND 0x0F = y \<longleftrightarrow>
    bit x 0 = bit y 0 \<and> bit x 1 = bit y 1 \<and> bit x 2 = bit y 2 \<and> bit x 3 = bit y 3
    \<and> \<not> bit y 4 \<and> \<not> bit y 5 \<and> \<not> bit y 6 \<and> \<not> bit y 7"
  by (auto simp: byte_eq_iff bit_simps)

lemma le_15_nibble: "(x :: byte) \<le> 0x0F \<Longrightarrow> x AND 0x0F = x"
proof -
  assume "x \<le> 0x0F"
  then have "unat x < 2 ^ 4" by (simp add: word_le_nat_alt)
  then have "unat (take_bit 4 x) = unat x"
    by (simp add: unsigned_take_bit_eq take_bit_nat_eq_self)
  then have "take_bit 4 x = x" by (simp only: word_unat_eq_iff)
  then show ?thesis by (simp add: take_bit_eq_mask mask_eq_exp_minus_1)
qed

lemma xor_cancel_left: "c XOR a = c XOR b \<longleftrightarrow> a = b" for a b c :: "'a::len word"
proof
  assume "c XOR a = c XOR b"
  then have "c XOR (c XOR a) = c XOR (c XOR b)" by simp
  then show "a = b" by (simp flip: xor.assoc)
qed simp

lemma xor_cancel_right: "a XOR c = b XOR c \<longleftrightarrow> a = b" for a b c :: "'a::len word"
  using xor_cancel_left [of c a b] by (simp add: xor.commute)

lemma xor_eq_0: "a XOR b = 0 \<longleftrightarrow> a = b" for a b :: "'a::len word"
  using xor_cancel_right [of a b b] by simp

lemma unat_lt_256 [simp]: "unat (b :: byte) < 256"
  using unsigned_less [of b] by simp

lemma word_of_nat_unat: "(of_nat (unat w) :: 'b::len word) = ucast w" for w :: "'a::len word"
  by (rule of_nat_unat)

section \<open>Little-endian integers\<close>

text \<open>
  \<open>put_le n w\<close> is what \<open>binary.LittleEndian.PutUint16\<close>, \<open>PutUint32\<close> and \<open>PutUint64\<close>
  write (for \<open>n\<close> = 2, 4, 8), and also the explicit \<open>byte(v), byte(v>>8), \<dots>\<close> of the code;
  \<open>get_le\<close> is \<open>Uint16\<close>, \<open>Uint32\<close> and \<open>Uint64\<close>.
\<close>

fun put_le :: "nat \<Rightarrow> 'a::len word \<Rightarrow> bytes" where
  "put_le 0 w = []"
| "put_le (Suc n) w = ucast w # put_le n (drop_bit 8 w)"

fun get_le :: "bytes \<Rightarrow> 'a::len word" where
  "get_le [] = 0"
| "get_le (b # bs) = ucast b OR push_bit 8 (get_le bs)"

lemma length_put_le [simp]: "length (put_le n w) = n"
  by (induction n arbitrary: w) auto

lemma put_le_numeral:
  "put_le (numeral k) w = ucast w # put_le (pred_numeral k) (drop_bit 8 w)"
  by (simp add: numeral_eq_Suc)

lemma get_put_le: "get_le (put_le n w) = take_bit (8 * n) w"
proof (induction n arbitrary: w)
  case 0
  show ?case by simp
next
  case (Suc n)
  show ?case
    by (rule bit_word_eqI) (auto simp: Suc bit_simps)
qed

lemma get_put_le_full:
  fixes w :: "'a::len word"
  assumes "LENGTH('a) \<le> 8 * n"
  shows "get_le (put_le n w) = w"
  using assms by (auto simp: get_put_le intro!: bit_word_eqI simp: bit_simps)

lemma put_get_le:
  assumes "8 * length bs \<le> LENGTH('a::len)"
  shows "put_le (length bs) (get_le bs :: 'a word) = bs"
  using assms
proof (induction bs)
  case Nil
  show ?case by simp
next
  case (Cons b bs)
  have "ucast (get_le (b # bs) :: 'a word) = b"
    using Cons.prems by (intro byte_eqI) (auto simp: bit_simps)
  moreover have "drop_bit 8 (get_le (b # bs) :: 'a word) = get_le bs"
  proof (rule bit_word_eqI)
    fix n
    assume n: "n < LENGTH('a)"
    show "bit (drop_bit 8 (get_le (b # bs) :: 'a word)) n = bit (get_le bs :: 'a word) n"
    proof (cases "n + 8 < LENGTH('a)")
      case True
      then show ?thesis by (auto simp: bit_simps dest: bit_imp_le_length)
    next
      case False
      have "put_le (length bs) (get_le bs :: 'a word) = bs"
        using Cons by simp
      have "\<not> bit (get_le bs :: 'a word) n"
      proof
        assume "bit (get_le bs :: 'a word) n"
        moreover have "get_le bs = (take_bit (8 * length bs) (get_le bs) :: 'a word)"
          using \<open>put_le (length bs) (get_le bs :: 'a word) = bs\<close> get_put_le
          by metis
        ultimately have "n < 8 * length bs"
          by (metis bit_take_bit_iff)
        then show False using Cons.prems False by simp
      qed
      then show ?thesis using False by (auto simp: bit_simps dest: bit_imp_le_length)
    qed
  qed
  ultimately show ?case using Cons by simp
qed

lemma get_le_iff:
  assumes "length bs = n" and "8 * n = LENGTH('a::len)"
  shows "get_le bs = (w :: 'a word) \<longleftrightarrow> bs = put_le n w"
  using put_get_le [where bs = bs and 'a = 'a] get_put_le_full [of n w] assms by auto

lemma get_put_fits:
  fixes w :: u32
  shows "w \<le> 255 \<Longrightarrow> get_le (put_le 1 w) = w" and "w \<le> 65535 \<Longrightarrow> get_le (put_le 2 w) = w"
    and "get_le (put_le 4 w) = w"
proof -
  have le: "take_bit n w = w" if "unat w < 2 ^ n" for n
    using that by (simp add: word_unat_eq_iff unsigned_take_bit_eq take_bit_nat_eq_self)
  show "get_le (put_le 1 w) = w" if "w \<le> 255"
    using that le [of 8] by (simp add: get_put_le word_le_nat_alt del: put_le.simps One_nat_def)
  show "get_le (put_le 2 w) = w" if "w \<le> 65535"
    using that le [of 16] by (simp add: get_put_le word_le_nat_alt)
  show "get_le (put_le 4 w) = w"
    by (simp add: get_put_le_full)
qed

section \<open>Lists\<close>

lemma snoc2_exhaust:
  assumes "2 \<le> length w"
  obtains d a b where "w = d @ [a, b]"
proof -
  obtain v b where w: "w = v @ [b]" using assms by (cases w rule: rev_cases) auto
  then obtain d a where "v = d @ [a]" using assms by (cases v rule: rev_cases) auto
  with w that show thesis by simp
qed

end
