(* ===== verification/Link_Constants.thy ===== *)
theory Link_Constants
  imports Dnp_Base
begin

text \<open>
  \<open>pkg/link/constants.go\<close>: the start bytes, frame sizes, function codes, control bits,
  link states and sentinel errors of the link layer. Constants are definitions that the
  simplifier unfolds (\<open>link_consts\<close>). \<open>Direction\<close> and \<open>IsPrimary\<close> are named booleans in
  the code and booleans here.
\<close>

unbundle bit_operations_syntax

named_theorems link_consts \<open>values of the link-layer constants\<close>

section \<open>Start bytes and sizes\<close>

definition StartByte1 :: byte where [link_consts, simp]: "StartByte1 = 0x05"
definition StartByte2 :: byte where [link_consts, simp]: "StartByte2 = 0x64"
definition MinFrameSize :: nat where [link_consts, simp]: "MinFrameSize = 10"
definition MaxFrameSize :: nat where [link_consts, simp]: "MaxFrameSize = 292"
definition HeaderSize :: nat where [link_consts, simp]: "HeaderSize = 10"
definition MaxDataSize :: nat where [link_consts, simp]: "MaxDataSize = 250"
definition BlockSize :: nat where [link_consts, simp]: "BlockSize = 16"

section \<open>Function codes and control bits\<close>

type_synonym FunctionCode = byte

definition FuncResetLink :: FunctionCode where [link_consts, simp]: "FuncResetLink = 0x00"
definition FuncResetUserProcess :: FunctionCode where
  [link_consts, simp]: "FuncResetUserProcess = 0x01"
definition FuncTestLinkStates :: FunctionCode where
  [link_consts, simp]: "FuncTestLinkStates = 0x02"
definition FuncUserDataConfirmed :: FunctionCode where
  [link_consts, simp]: "FuncUserDataConfirmed = 0x03"
definition FuncUserDataUnconfirmed :: FunctionCode where
  [link_consts, simp]: "FuncUserDataUnconfirmed = 0x04"
definition FuncRequestLinkStatus :: FunctionCode where
  [link_consts, simp]: "FuncRequestLinkStatus = 0x09"
definition FuncAck :: FunctionCode where [link_consts, simp]: "FuncAck = 0x00"
definition FuncNack :: FunctionCode where [link_consts, simp]: "FuncNack = 0x01"
definition FuncLinkStatusResponse :: FunctionCode where
  [link_consts, simp]: "FuncLinkStatusResponse = 0x0B"
definition FuncLinkNotFunctioning :: FunctionCode where
  [link_consts, simp]: "FuncLinkNotFunctioning = 0x0E"
definition FuncLinkNotUsed :: FunctionCode where [link_consts, simp]: "FuncLinkNotUsed = 0x0F"

definition CtrlDIR :: byte where [link_consts, simp]: "CtrlDIR = 0x80"
definition CtrlPRM :: byte where [link_consts, simp]: "CtrlPRM = 0x40"
definition CtrlFCB :: byte where [link_consts, simp]: "CtrlFCB = 0x20"
definition CtrlFCV :: byte where [link_consts, simp]: "CtrlFCV = 0x10"
definition CtrlDFC :: byte where [link_consts, simp]: "CtrlDFC = 0x10"
definition CtrlFuncMask :: byte where [link_consts, simp]: "CtrlFuncMask = 0x0F"

section \<open>States, directions and errors\<close>

datatype LinkState =
    LinkStateIdle
  | LinkStateWaitACK
  | LinkStateResetPending
  | LinkStateTestPending
  | LinkStateProcessing
  | LinkStateError

type_synonym Direction = bool

definition DirectionMasterToOutstation :: Direction where
  [link_consts, simp]: "DirectionMasterToOutstation = True"
definition DirectionOutstationToMaster :: Direction where
  [link_consts, simp]: "DirectionOutstationToMaster = False"
definition PrimaryFrame :: bool where [link_consts, simp]: "PrimaryFrame = True"
definition SecondaryFrame :: bool where [link_consts, simp]: "SecondaryFrame = False"

text \<open>The sentinel errors of the package, one constructor each.\<close>

datatype link_err =
    ErrInvalidStartBytes
  | ErrInvalidLength
  | ErrInvalidCRC
  | ErrFrameTooShort
  | ErrFrameTooLong
  | ErrInvalidDirection
  | ErrInvalidAddress
  | ErrTimeout
  | ErrMaxRetriesExceeded
  | ErrLinkNotReady
  | ErrInvalidState
  | ErrFCBMismatch

end
