(* ===== verification/Link_Crc.thy ===== *)
theory Link_Crc
  imports Link_Constants
begin

text \<open>
  \<open>pkg/link/crc.go\<close>: the CRC-16/DNP of a byte string, computed with a 256-entry table that
  \<open>init\<close> fills bit by bit; appending and verifying a CRC; inserting a CRC after every 16
  data bytes and removing it. The lemmas show that the table-driven loop computes the
  bit-serial CRC, that the CRC detects every error confined to two adjacent bytes, and that
  \<open>AddCRCs\<close> and \<open>RemoveCRCs\<close> are inverse to each other.
\<close>

unbundle bit_operations_syntax

section \<open>Definitions\<close>

definition crc_poly :: u16 where
  "crc_poly = 0xA6BC"

definition crc_shift :: "u16 \<Rightarrow> u16" where
  "crc_shift crc = (if crc AND 1 \<noteq> 0 then drop_bit 1 crc XOR crc_poly else drop_bit 1 crc)"

definition crc_entry :: "nat \<Rightarrow> u16" where
  "crc_entry i = (crc_shift ^^ 8) (of_nat i)"

definition crcTable :: "u16 list" where
  "crcTable = map crc_entry [0..<256]"

definition crc_byte :: "u16 \<Rightarrow> byte \<Rightarrow> u16" where
  "crc_byte crc b = crcTable ! unat ((ucast crc XOR b) AND 0xFF) XOR drop_bit 8 crc"

definition CalculateCRC :: "bytes \<Rightarrow> u16" where
  "CalculateCRC data = NOT (foldl crc_byte 0 data)"

definition VerifyCRC :: "bytes \<Rightarrow> bool" where
  "VerifyCRC data =
     (if length data < 2 then False
      else let calculated = CalculateCRC (take (length data - 2) data);
               received = ucast (data ! (length data - 2))
                 OR push_bit 8 (ucast (data ! (length data - 1)))
           in calculated = received)"

definition AppendCRC :: "bytes \<Rightarrow> bytes" where
  "AppendCRC data =
     (let crc = CalculateCRC data in data @ [ucast crc, ucast (drop_bit 8 crc)])"

text \<open>The loop of \<open>AddCRCs\<close> takes blocks of 16 bytes, the last one possibly shorter.\<close>

fun AddCRCs :: "bytes \<Rightarrow> bytes" where
  "AddCRCs data =
     (if data = [] then []
      else let block = take 16 data;
               crc = CalculateCRC block
           in block @ [ucast crc, ucast (drop_bit 8 crc)] @ AddCRCs (drop 16 data))"

declare AddCRCs.simps [simp del]

text \<open>
  The loop of \<open>RemoveCRCs\<close> reads \<open>data[pos:]\<close> only, so its state is that rest and the
  result so far. The block size is 16, or what the rest leaves for data when fewer than 18
  bytes remain; a rest of at most two bytes has no data and is an error.
\<close>

function RemoveCRCs_loop :: "bytes \<Rightarrow> bytes \<Rightarrow> link_err + bytes" where
  "RemoveCRCs_loop rest result =
     (if rest = [] then Inr result
      else if length rest < 16 + 2 \<and> length rest \<le> 2 then Inl ErrInvalidCRC
      else let blockSize = (if length rest < 16 + 2 then length rest - 2 else 16);
               block = take blockSize rest;
               receivedCRC = ucast (rest ! blockSize)
                 OR push_bit 8 (ucast (rest ! (blockSize + 1)));
               calculatedCRC = CalculateCRC block
           in if receivedCRC \<noteq> calculatedCRC then Inl ErrInvalidCRC
              else RemoveCRCs_loop (drop (blockSize + 2) rest) (result @ block))"
  by pat_completeness auto
termination
  by (relation "measure (\<lambda>(rest, result). length rest)") auto

declare RemoveCRCs_loop.simps [simp del]

definition RemoveCRCs :: "bytes \<Rightarrow> link_err + bytes" where
  "RemoveCRCs data = (if data = [] then Inr [] else RemoveCRCs_loop data [])"

section \<open>The table computes the bit-serial CRC\<close>

abbreviation crc_shifts :: "nat \<Rightarrow> u16 \<Rightarrow> u16" where
  "crc_shifts n \<equiv> crc_shift ^^ n"

lemma and_one_bit: "(x :: u16) AND 1 = 0 \<longleftrightarrow> \<not> bit x 0"
  using and_mask_bit [of x 0] by simp

lemma crc_shift_xor: "crc_shift (a XOR b) = crc_shift a XOR crc_shift b"
  by (rule bit_word_eqI) (auto simp: crc_shift_def and_one_bit bit_simps)

lemma crc_shift_0 [simp]: "crc_shift 0 = 0"
  by (simp add: crc_shift_def)

lemma crc_shift_eq_0: "crc_shift a = 0 \<longleftrightarrow> a = 0"
proof
  assume z: "crc_shift a = 0"
  have "\<not> bit (crc_shift a) 15" using z by simp
  then have low: "\<not> bit a 0"
    by (auto simp: crc_shift_def crc_poly_def and_one_bit bit_simps dest: bit_imp_le_length
        split: if_splits)
  then have d: "drop_bit 1 a = 0" using z by (simp add: crc_shift_def and_one_bit)
  have high: "\<not> bit a (Suc n)" for n
  proof -
    have "bit (drop_bit 1 a) n = bit a (Suc n)" by (simp add: bit_simps)
    then show ?thesis using d by simp
  qed
  show "a = 0"
  proof (rule bit_word_eqI)
    fix n
    show "bit a n = bit 0 n" using low high by (cases n) auto
  qed
qed simp

lemma crc_shifts_xor: "crc_shifts n (a XOR b) = crc_shifts n a XOR crc_shifts n b"
  by (induction n) (auto simp: crc_shift_xor)

lemma crc_shifts_eq_0: "crc_shifts n a = 0 \<longleftrightarrow> a = 0"
  by (induction n) (auto simp: crc_shift_eq_0)

lemma crc_shifts_inj: "crc_shifts n a = crc_shifts n b \<longleftrightarrow> a = b"
  using crc_shifts_eq_0 [of n "a XOR b"] by (simp add: crc_shifts_xor xor_eq_0)

text \<open>A shift of zero bits is a plain shift, so a byte run through eight steps comes out below.\<close>

lemma crc_shifts_drop:
  assumes "\<And>m. m < n \<Longrightarrow> \<not> bit c m"
  shows "crc_shifts n c = drop_bit n c"
  using assms
proof (induction n)
  case 0
  show ?case by simp
next
  case (Suc n)
  have "crc_shifts (Suc n) c = crc_shift (drop_bit n c)"
    using Suc by simp
  also have "\<dots> = drop_bit 1 (drop_bit n c)"
    using Suc.prems [of n] by (simp add: crc_shift_def and_one_bit bit_simps)
  finally show ?case by (simp add: drop_bit_drop_bit)
qed

lemma byte_and_255 [simp]: "(b :: byte) AND 255 = b"
  by (simp add: byte_eq_iff bit_simps)

lemma crcTable_nth [simp]: "crcTable ! unat (b :: byte) = crc_shifts 8 (ucast b)"
  by (simp add: crcTable_def crc_entry_def unat_lt_256 word_of_nat_unat)

lemma crc_byte_serial: "crc_byte c b = crc_shifts 8 (c XOR ucast b)"
proof -
  have split: "c XOR ucast b = ucast (ucast c XOR b) XOR push_bit 8 (drop_bit 8 c)"
    by (rule bit_word_eqI) (auto simp: bit_simps dest: bit_imp_le_length)
  have "crc_shifts 8 (push_bit 8 (drop_bit 8 c)) = drop_bit 8 c"
    by (subst crc_shifts_drop)
      (auto simp: bit_simps intro!: bit_word_eqI, drule bit_imp_le_length, simp)
  then show ?thesis
    by (simp only: split crc_shifts_xor) (simp add: crc_byte_def)
qed

section \<open>Error detection\<close>

text \<open>
  Two bytes run through the CRC are sixteen steps on the register with the two bytes, as a
  little-endian integer, added in. So a codeword verifies exactly when the whole codeword,
  its CRC included, drives the register to one fixed residue.
\<close>

abbreviation crc_run :: "u16 \<Rightarrow> bytes \<Rightarrow> u16" where
  "crc_run \<equiv> foldl crc_byte"

lemma crc_byte_byte: "crc_byte (crc_byte c a) b = crc_shifts 16 (c XOR get_le [a, b])"
proof -
  have or: "get_le [a, b] = ucast a XOR push_bit 8 (ucast b :: u16)"
    by (rule bit_word_eqI) (auto simp: bit_simps dest: bit_imp_le_length)
  have b: "crc_shifts 8 (push_bit 8 (ucast b)) = ucast b"
    by (subst crc_shifts_drop)
      (auto simp: bit_simps intro!: bit_word_eqI, drule bit_imp_le_length, simp)
  have "crc_byte (crc_byte c a) b
      = crc_shifts 8 (crc_shifts 8 (c XOR ucast a) XOR crc_shifts 8 (push_bit 8 (ucast b)))"
    by (simp only: crc_byte_serial b)
  also have "\<dots> = crc_shifts 8 (crc_shifts 8 (c XOR (ucast a XOR push_bit 8 (ucast b))))"
    by (simp only: crc_shifts_xor xor.assoc)
  also have "\<dots> = crc_shifts 16 (c XOR get_le [a, b])"
    unfolding or by (simp flip: funpow_add [THEN fun_cong, unfolded comp_def])
  finally show ?thesis .
qed

lemma crc_byte_inj: "crc_byte c b = crc_byte d b \<longleftrightarrow> c = d"
  by (simp add: crc_byte_serial crc_shifts_inj xor_cancel_right)

lemma crc_run_inj: "crc_run c s = crc_run d s \<longleftrightarrow> c = d"
  by (induction s arbitrary: c d) (auto simp: crc_byte_inj)

lemma get_le_2_inj: "(get_le [a, b] :: u16) = get_le [a', b'] \<longleftrightarrow> a = a' \<and> b = b'"
  using put_get_le [of "[a, b]", where 'a = 16] put_get_le [of "[a', b']", where 'a = 16]
  by (auto simp del: get_le.simps)

lemma crc_run_burst:
  assumes "crc_run c (p @ [a, b] @ s) = crc_run c (p @ [a', b'] @ s)"
  shows "a = a' \<and> b = b'"
  using assms
  by (simp add: crc_run_inj crc_byte_byte crc_shifts_inj xor_cancel_left get_le_2_inj
      del: get_le.simps)

definition crc_residue :: u16 where
  "crc_residue = crc_shifts 16 (NOT 0)"

lemma VerifyCRC_snoc:
  "VerifyCRC (data @ [a, b]) \<longleftrightarrow> CalculateCRC data = get_le [a, b]"
  by (simp add: VerifyCRC_def nth_append)

lemma not_eq_iff_xor: "NOT c = r \<longleftrightarrow> c XOR r = NOT 0" for c r :: u16
  by (auto simp: bit_eq_iff bit_simps)

lemma VerifyCRC_residue:
  assumes "2 \<le> length w"
  shows "VerifyCRC w \<longleftrightarrow> crc_run 0 w = crc_residue"
proof -
  obtain data a b where w: "w = data @ [a, b]"
    using assms by (rule snoc2_exhaust)
  have "VerifyCRC w \<longleftrightarrow> NOT (crc_run 0 data) = get_le [a, b]"
    by (simp add: w VerifyCRC_snoc CalculateCRC_def)
  also have "\<dots> \<longleftrightarrow> crc_run 0 data XOR get_le [a, b] = NOT 0"
    by (rule not_eq_iff_xor)
  also have "\<dots> \<longleftrightarrow> crc_run 0 w = crc_residue"
    by (simp add: w crc_byte_byte crc_residue_def crc_shifts_inj)
  finally show ?thesis .
qed

section \<open>Evaluation\<close>

text \<open>Running the CRC on literals: eight bit steps per byte instead of the table.\<close>

lemma crc_byte_eval [code]:
  "crc_byte c b =
     (let x0 = c XOR ucast b; x1 = crc_shift x0; x2 = crc_shift x1; x3 = crc_shift x2;
          x4 = crc_shift x3; x5 = crc_shift x4; x6 = crc_shift x5; x7 = crc_shift x6
      in crc_shift x7)"
  by (simp add: crc_byte_serial eval_nat_numeral)

lemmas crc_eval = CalculateCRC_def crc_byte_eval crc_shift_def crc_poly_def

section \<open>Inserting and removing the CRCs\<close>

lemma AppendCRC_put_le: "AppendCRC data = data @ put_le 2 (CalculateCRC data)"
  by (simp add: AppendCRC_def Let_def put_le_numeral)

lemma VerifyCRC_iff_AppendCRC:
  assumes "2 \<le> length w"
  shows "VerifyCRC w \<longleftrightarrow> w = AppendCRC (take (length w - 2) w)"
proof -
  obtain d a b where w: "w = d @ [a, b]"
    using assms by (rule snoc2_exhaust)
  have "CalculateCRC d = get_le [a, b] \<longleftrightarrow> put_le 2 (CalculateCRC d) = [a, b]"
    using get_put_le_full [of 2 "CalculateCRC d"] put_get_le [of "[a, b]", where 'a = 16]
    by (auto simp: numeral_2_eq_2 simp del: put_le.simps get_le.simps)
  then show ?thesis by (auto simp: w VerifyCRC_snoc AppendCRC_put_le)
qed

lemma VerifyCRC_AppendCRC [simp]: "VerifyCRC (AppendCRC data)"
  by (subst VerifyCRC_iff_AppendCRC) (auto simp: AppendCRC_def Let_def)

lemma length_AppendCRC [simp]: "length (AppendCRC data) = length data + 2"
  by (simp add: AppendCRC_def Let_def)

lemma AppendCRC_not_Nil [simp]: "AppendCRC data \<noteq> []"
  by (simp add: AppendCRC_def Let_def)

lemma AddCRCs_Nil [simp]: "AddCRCs [] = []"
  by (simp add: AddCRCs.simps)

lemma AddCRCs_step:
  "d \<noteq> [] \<Longrightarrow> AddCRCs d = AppendCRC (take 16 d) @ AddCRCs (drop 16 d)"
  by (subst AddCRCs.simps) (simp add: AppendCRC_def Let_def)

lemma AddCRCs_eq_Nil [simp]: "AddCRCs d = [] \<longleftrightarrow> d = []"
  by (cases "d = []") (auto simp: AddCRCs_step)

text \<open>Every 16 data bytes, or part of them, cost two CRC bytes.\<close>

lemma length_AddCRCs: "length (AddCRCs d) = length d + 2 * ((length d + 15) div 16)"
proof (induction d rule: AddCRCs.induct)
  case (1 d)
  show ?case
  proof (cases "d = []")
    case False
    then have "0 < length d" by simp
    then have "(length d + 15) div 16 = Suc ((length d - 16 + 15) div 16)" if "16 < length d"
      using that by arith
    moreover have "(length d + 15) div 16 = 1" if "\<not> 16 < length d"
      using that \<open>0 < length d\<close> by arith
    ultimately show ?thesis
      using 1 False by (cases "16 < length d") (auto simp: AddCRCs_step)
  qed simp
qed

text \<open>One round of the removal loop: the next 18 bytes, or the shorter rest, must verify.\<close>

lemma RemoveCRCs_loop_step:
  "RemoveCRCs_loop rest result =
     (if rest = [] then Inr result
      else if length rest \<le> 2 \<or> \<not> VerifyCRC (take 18 rest) then Inl ErrInvalidCRC
      else RemoveCRCs_loop (drop 18 rest) (result @ take (min 18 (length rest) - 2) rest))"
proof (cases "length rest \<le> 2")
  case True
  then show ?thesis by (subst RemoveCRCs_loop.simps) auto
next
  case False
  define n where "n = (if length rest < 18 then length rest - 2 else 16)"
  have n: "n + 2 \<le> length rest" "min 18 (length rest) = n + 2" "take 18 rest = take (n + 2) rest"
    "drop 18 rest = drop (n + 2) rest"
    using False by (auto simp: n_def)
  have "VerifyCRC (take (n + 2) rest) \<longleftrightarrow>
      CalculateCRC (take n rest) = ucast (rest ! n) OR push_bit 8 (ucast (rest ! Suc n))"
    using n(1) by (simp add: VerifyCRC_def)
  then show ?thesis
    using False n by (subst RemoveCRCs_loop.simps) (auto simp: n_def [symmetric] Let_def)
qed

text \<open>
  A block is a non-empty run of at most 16 data bytes that only the end of the data may cut
  short. Adding and removing CRCs works block by block.
\<close>

definition crc_block :: "bytes \<Rightarrow> 'a list \<Rightarrow> bool" where
  "crc_block b tail \<longleftrightarrow> b \<noteq> [] \<and> length b \<le> 16 \<and> (length b = 16 \<or> tail = [])"

lemma RemoveCRCs_loop_Nil [simp]: "RemoveCRCs_loop [] result = Inr result"
  by (simp add: RemoveCRCs_loop.simps)

lemma RemoveCRCs_loop_block:
  assumes "crc_block b tail"
  shows "RemoveCRCs_loop (AppendCRC b @ tail) result = RemoveCRCs_loop tail (result @ b)"
proof -
  let ?w = "AppendCRC b @ tail"
  have "take 18 ?w = AppendCRC b" "drop 18 ?w = tail" "min 18 (length ?w) - 2 = length b"
    "2 < length ?w" "?w \<noteq> []" "take (length b) ?w = b"
    using assms by (auto simp: crc_block_def AppendCRC_def Let_def)
  then show ?thesis
    by (subst RemoveCRCs_loop_step) (simp del: take_append drop_append)
qed

lemma RemoveCRCs_loop_OkE:
  assumes "RemoveCRCs_loop rest result = Inr r" and "rest \<noteq> []"
  obtains b tail where "rest = AppendCRC b @ tail" "crc_block b tail"
    "RemoveCRCs_loop tail (result @ b) = Inr r"
proof -
  let ?b = "take (min 18 (length rest) - 2) rest"
  have ok: "2 < length rest" "VerifyCRC (take 18 rest)"
    "RemoveCRCs_loop (drop 18 rest) (result @ ?b) = Inr r"
    using assms by (auto simp: RemoveCRCs_loop_step [of rest] split: if_splits)
  have len: "length (take 18 rest) = min 18 (length rest)" by (simp add: min.commute)
  have "take 18 rest = AppendCRC (take (length (take 18 rest) - 2) (take 18 rest))"
    using ok(1,2) VerifyCRC_iff_AppendCRC [of "take 18 rest"] by auto
  also have "take (length (take 18 rest) - 2) (take 18 rest) = ?b"
    unfolding len by (simp add: min.absorb1)
  finally have "rest = AppendCRC ?b @ drop 18 rest"
    by (metis append_take_drop_id)
  moreover have "crc_block ?b (drop 18 rest)"
    using ok(1) by (auto simp: crc_block_def)
  ultimately show thesis using ok(3) that by blast
qed

lemma AddCRCs_block: "crc_block b d \<Longrightarrow> AddCRCs (b @ d) = AppendCRC b @ AddCRCs d"
  by (subst AddCRCs_step) (auto simp: crc_block_def)

lemma data_blocks:
  assumes "d \<noteq> []"
  obtains b t where "d = b @ t" "crc_block b t" "crc_block b (AddCRCs t)"
proof -
  have "crc_block (take 16 d) (drop 16 d)" "crc_block (take 16 d) (AddCRCs (drop 16 d))"
    using assms by (auto simp: crc_block_def)
  then show thesis using that [of "take 16 d" "drop 16 d"] by simp
qed

lemma RemoveCRCs_loop_AddCRCs: "RemoveCRCs_loop (AddCRCs d) result = Inr (result @ d)"
proof (induction d arbitrary: result rule: length_induct)
  case (1 d)
  show ?case
  proof (cases "d = []")
    case False
    then obtain b t where "d = b @ t" "crc_block b t" "crc_block b (AddCRCs t)"
      by (rule data_blocks)
    then show ?thesis
      using 1 by (auto simp: AddCRCs_block RemoveCRCs_loop_block crc_block_def)
  qed simp
qed

lemma RemoveCRCs_loop_OkD:
  "RemoveCRCs_loop rest result = Inr r \<Longrightarrow> \<exists>d. r = result @ d \<and> AddCRCs d = rest"
proof (induction rest arbitrary: result rule: length_induct)
  case (1 rest)
  show ?case
  proof (cases "rest = []")
    case True
    then show ?thesis using "1.prems" by (auto intro!: exI [of _ "[]"])
  next
    case False
    with "1.prems" obtain b tail where b: "rest = AppendCRC b @ tail" "crc_block b tail"
      "RemoveCRCs_loop tail (result @ b) = Inr r"
      by (rule RemoveCRCs_loop_OkE)
    have "length tail < length rest" using b(1) by simp
    then obtain d where d: "r = (result @ b) @ d" "AddCRCs d = tail"
      using "1.IH" b(3) by blast
    then have "crc_block b d"
      using b(2) by (cases "d = []") (auto simp: crc_block_def AddCRCs_step AppendCRC_def Let_def)
    then have "AddCRCs (b @ d) = rest"
      using b d by (simp add: AddCRCs_block)
    with d show ?thesis by auto
  qed
qed

lemma RemoveCRCs_AddCRCs [simp]: "RemoveCRCs (AddCRCs d) = Inr d"
  using RemoveCRCs_loop_AddCRCs [of d "[]"] RemoveCRCs_loop_OkD [of "[]" "[]"]
  by (auto simp: RemoveCRCs_def)

lemma RemoveCRCs_OkD: "RemoveCRCs w = Inr d \<Longrightarrow> AddCRCs d = w"
  using RemoveCRCs_loop_OkD [of w "[]"] by (auto simp: RemoveCRCs_def split: if_splits)

lemma VerifyCRC_burst:
  assumes "VerifyCRC (p @ [a, b] @ s)" and "(a, b) \<noteq> (a', b')"
  shows "\<not> VerifyCRC (p @ [a', b'] @ s)"
proof
  assume "VerifyCRC (p @ [a', b'] @ s)"
  with assms(1) have "crc_run 0 (p @ [a, b] @ s) = crc_run 0 (p @ [a', b'] @ s)"
    by (simp add: VerifyCRC_residue)
  then show False using assms(2) by (blast dest: crc_run_burst)
qed

text \<open>
  An error confined to two adjacent bytes of a codeword (up to 16 bits in a row, so every
  single-byte error too) is always detected: if the data with its CRC verifies, no change
  of two adjacent bytes, in the data, across the boundary or in the CRC itself, still verifies.
\<close>

theorem crc_detects_burst:
  assumes "VerifyCRC (p @ [a, b] @ s)" and "(a, b) \<noteq> (a', b')"
  shows "\<not> VerifyCRC (p @ [a', b'] @ s)"
  using assms by (rule VerifyCRC_burst)

theorem crc_detects_burst_witness:
  "VerifyCRC ([0x05] @ [0x64, 0x05] @ [0xC0, 0x0A, 0x00, 0x01, 0x00, 0xB1, 0xAC]) \<and>
   \<not> VerifyCRC ([0x05] @ [0x65, 0x04] @ [0xC0, 0x0A, 0x00, 0x01, 0x00, 0xB1, 0xAC])"
proof -
  have v: "VerifyCRC ([0x05] @ [0x64, 0x05] @ [0xC0, 0x0A, 0x00, 0x01, 0x00, 0xB1, 0xAC])"
    by (simp add: VerifyCRC_def crc_eval)
  show ?thesis using v crc_detects_burst [OF v, of "0x65" "0x04"] by simp
qed

lemma RemoveCRCs_loop_Verify:
  "rest \<noteq> [] \<Longrightarrow> RemoveCRCs_loop rest result = Inr r \<Longrightarrow> VerifyCRC (take 18 rest)"
  by (auto simp: RemoveCRCs_loop_step [of rest] split: if_splits)

lemma RemoveCRCs_loop_bad:
  "rest \<noteq> [] \<Longrightarrow> \<not> VerifyCRC (take 18 rest) \<Longrightarrow>
    RemoveCRCs_loop rest result = Inl ErrInvalidCRC"
  by (auto simp: RemoveCRCs_loop_step [of rest])

lemma RemoveCRCs_loop_burst:
  assumes "RemoveCRCs_loop (p @ [a, b] @ s) result = Inr r" and "(a, b) \<noteq> (a', b')"
    and "length p div 18 = Suc (length p) div 18"
  shows "RemoveCRCs_loop (p @ [a', b'] @ s) result' = Inl ErrInvalidCRC"
  using assms
proof (induction "length p" arbitrary: p result result' rule: less_induct)
  case less
  show ?case
  proof (cases "18 \<le> length p")
    case True
    then obtain q where q: "length p = q + 18"
      by (metis le_iff_add add.commute)
    have "q div 18 = Suc q div 18"
      using less.prems(3) div_add_self2 [of 18 q] div_add_self2 [of 18 "Suc q"] by (simp add: q)
    then have "length (drop 18 p) < length p"
      "length (drop 18 p) div 18 = Suc (length (drop 18 p)) div 18"
      by (simp_all add: q)
    with less.hyps [of "drop 18 p"] less.prems(1,2) True show ?thesis
      by (auto simp: RemoveCRCs_loop_step [of "p @ _"] split: if_splits)
  next
    case False
    then have "Suc (length p) < 18"
      using less.prems(3) by (cases "length p = 17") auto
    then have cut: "take 18 (p @ [x, y] @ s) = p @ [x, y] @ take (16 - length p) s" for x y
      by (simp add: take_Cons' numeral_eq_Suc)
    have "VerifyCRC (take 18 (p @ [a, b] @ s))"
      using less.prems(1) by (rule RemoveCRCs_loop_Verify [rotated]) simp
    then have "\<not> VerifyCRC (take 18 (p @ [a', b'] @ s))"
      unfolding cut using less.prems(2) by (rule VerifyCRC_burst)
    then show ?thesis by (rule RemoveCRCs_loop_bad [rotated]) simp
  qed
qed

end
