(* ===== verification/Codec.thy ===== *)
theory Codec
  imports Dnp_Base
begin

text \<open>
  The interface of a self-delimiting wire format: an encoder and a decoder that reports how
  many bytes it consumed. Its law is that decoding an encoding, whatever follows it, gives
  the value back and consumes exactly the encoding. What a client of such a format relies on
  is proved here once: encodings are uniquely decodable, and a sequence of values written
  back to back is read back as that sequence.
\<close>

text \<open>Decoding \<open>n\<close> values from the front of a byte string.\<close>

fun decode_seq :: "(bytes \<Rightarrow> 'e + 'f \<times> nat) \<Rightarrow> nat \<Rightarrow> bytes \<Rightarrow> 'e + 'f list \<times> bytes" where
  "decode_seq dec 0 bs = Inr ([], bs)"
| "decode_seq dec (Suc n) bs =
     (case dec bs of
        Inl e \<Rightarrow> Inl e
      | Inr (f, k) \<Rightarrow>
          (case decode_seq dec n (drop k bs) of
             Inl e \<Rightarrow> Inl e
           | Inr (fs, rest) \<Rightarrow> Inr (f # fs, rest)))"

locale prefix_codec =
  fixes valid :: "'f \<Rightarrow> bool"
    and enc :: "'f \<Rightarrow> bytes"
    and dec :: "bytes \<Rightarrow> 'e + 'f \<times> nat"
  assumes dec_enc: "valid f \<Longrightarrow> dec (enc f @ rest) = Inr (f, length (enc f))"
begin

lemma unique_decoding:
  assumes "valid f" and "valid g" and "enc f @ r = enc g @ s"
  shows "f = g \<and> r = s"
  using dec_enc [OF assms(1), of r] dec_enc [OF assms(2), of s] assms(3) by simp

lemma decode_stream:
  "list_all valid fs \<Longrightarrow>
    decode_seq dec (length fs) (concat (map enc fs) @ rest) = Inr (fs, rest)"
  by (induction fs) (auto simp: dec_enc)

lemma stream_unique:
  assumes "list_all valid fs" and "list_all valid gs" and "length fs = length gs"
    and "concat (map enc fs) = concat (map enc gs)"
  shows "fs = gs"
  using decode_stream [OF assms(1), of "[]"] decode_stream [OF assms(2), of "[]"] assms(3,4)
  by simp

end

end
