(* ===== verification/Link_Frame.thy ===== *)
theory Link_Frame
  imports Link_Crc Codec
begin

text \<open>
  \<open>pkg/link/frame.go\<close>: the link frame, its control byte, its wire format and its parser.
  A frame carries the control byte and, beside it, the fields derived from it;
  \<open>wf_frame\<close> says that the derived fields are those \<open>parseControl\<close> reads from the
  control byte, which every constructor of the file establishes. Serializing and parsing
  are shown to be inverse to each other, on a stream with further bytes behind the frame,
  and the parser is shown to reject every frame with an error in two adjacent bytes of one
  CRC-protected block.
\<close>

unbundle bit_operations_syntax

section \<open>Frames and their control byte\<close>

record Frame =
  fControl :: byte
  fDestination :: u16
  fSource :: u16
  fDir :: Direction
  fIsPrimary :: bool
  fFCB :: bool
  fFCV :: bool
  fFunctionCode :: FunctionCode
  fUserData :: bytes

definition buildControl :: "Frame \<Rightarrow> Frame" where
  "buildControl f =
     (let c0 = fFunctionCode f AND CtrlFuncMask;
          c1 = (if fDir f = DirectionMasterToOutstation then c0 OR CtrlDIR else c0);
          c2 = (if fIsPrimary f = PrimaryFrame
                then let p = c1 OR CtrlPRM
                     in (if fFCV f
                         then let v = p OR CtrlFCV in (if fFCB f then v OR CtrlFCB else v)
                         else p)
                else c1)
      in f\<lparr>fControl := c2\<rparr>)"

definition parseControl :: "Frame \<Rightarrow> Frame" where
  "parseControl f =
     (let f1 = f\<lparr>fFunctionCode := fControl f AND CtrlFuncMask,
                 fDir := (fControl f AND CtrlDIR \<noteq> 0),
                 fIsPrimary := (fControl f AND CtrlPRM \<noteq> 0)\<rparr>
      in (if fIsPrimary f1 = PrimaryFrame
          then f1\<lparr>fFCV := (fControl f AND CtrlFCV \<noteq> 0), fFCB := (fControl f AND CtrlFCB \<noteq> 0)\<rparr>
          else f1))"

definition SetFCB :: "Frame \<Rightarrow> bool \<Rightarrow> Frame" where
  "SetFCB f fcb = buildControl (f\<lparr>fFCB := fcb, fFCV := True\<rparr>)"

definition NewFrame ::
  "Direction \<Rightarrow> bool \<Rightarrow> FunctionCode \<Rightarrow> u16 \<Rightarrow> u16 \<Rightarrow> bytes \<Rightarrow> Frame" where
  "NewFrame dir isPrimary fc dst src data =
     buildControl
       \<lparr>fControl = 0, fDestination = dst, fSource = src, fDir = dir, fIsPrimary = isPrimary,
        fFCB = False, fFCV = False, fFunctionCode = fc, fUserData = data\<rparr>"

text \<open>\<open>Clone\<close> copies every field and the user data into a fresh slice.\<close>

definition Clone :: "Frame \<Rightarrow> Frame" where
  "Clone f =
     \<lparr>fControl = fControl f, fDestination = fDestination f, fSource = fSource f, fDir = fDir f,
      fIsPrimary = fIsPrimary f, fFCB = fFCB f, fFCV = fFCV f, fFunctionCode = fFunctionCode f,
      fUserData = fUserData f\<rparr>"

section \<open>Wire format\<close>

definition frame_header :: "Frame \<Rightarrow> bytes" where
  "frame_header f =
     [StartByte1, StartByte2, of_nat (length (fUserData f) + 5), fControl f,
      ucast (fDestination f), ucast (drop_bit 8 (fDestination f)),
      ucast (fSource f), ucast (drop_bit 8 (fSource f))]"

definition Serialize :: "Frame \<Rightarrow> link_err + bytes" where
  "Serialize f =
     (let dataLen = length (fUserData f) in
      if dataLen > MaxDataSize then Inl ErrFrameTooLong
      else let header = frame_header f;
               headerCRC = CalculateCRC header;
               header' = header @ [ucast headerCRC, ucast (drop_bit 8 headerCRC)]
           in if dataLen = 0 then Inr header' else Inr (header' @ AddCRCs (fUserData f)))"

text \<open>
  \<open>Parse\<close> returns the frame and the number of bytes consumed, or the error with the
  count the code returns beside it (the number of bytes received for a short header, else 0).
\<close>

definition Parse :: "bytes \<Rightarrow> link_err \<times> nat + Frame \<times> nat" where
  "Parse data =
     (if length data < MinFrameSize then Inl (ErrFrameTooShort, length data)
      else if data ! 0 \<noteq> StartByte1 \<or> data ! 1 \<noteq> StartByte2 then Inl (ErrInvalidStartBytes, 0)
      else let len = unat (data ! 2) in
      if len < 5 then Inl (ErrInvalidLength, 0)
      else let dataLen = len - 5;
               numBlocks = (dataLen + 15) div 16;
               expectedSize = 10 + dataLen + numBlocks * 2
           in
      if length data < expectedSize then Inl (ErrFrameTooShort, 0)
      else if \<not> VerifyCRC (take 10 data) then Inl (ErrInvalidCRC, 0)
      else let frame = parseControl
                 \<lparr>fControl = data ! 3,
                  fDestination = ucast (data ! 4) OR push_bit 8 (ucast (data ! 5)),
                  fSource = ucast (data ! 6) OR push_bit 8 (ucast (data ! 7)),
                  fDir = False, fIsPrimary = False, fFCB = False, fFCV = False,
                  fFunctionCode = 0, fUserData = []\<rparr>
           in
      if dataLen > 0
      then (case RemoveCRCs (take (expectedSize - 10) (drop 10 data)) of
              Inl e \<Rightarrow> Inl (e, 0)
            | Inr userData \<Rightarrow> Inr (frame\<lparr>fUserData := userData\<rparr>, expectedSize))
      else Inr (frame, expectedSize))"

section \<open>Constructors of the common frames\<close>

definition NewResetLinkFrame :: "u16 \<Rightarrow> u16 \<Rightarrow> Frame" where
  "NewResetLinkFrame dst src =
     NewFrame DirectionMasterToOutstation PrimaryFrame FuncResetLink dst src []"

definition NewResetUserProcessFrame :: "u16 \<Rightarrow> u16 \<Rightarrow> Frame" where
  "NewResetUserProcessFrame dst src =
     NewFrame DirectionMasterToOutstation PrimaryFrame FuncResetUserProcess dst src []"

definition NewTestLinkFrame :: "u16 \<Rightarrow> u16 \<Rightarrow> Frame" where
  "NewTestLinkFrame dst src =
     NewFrame DirectionMasterToOutstation PrimaryFrame FuncTestLinkStates dst src []"

definition NewConfirmedUserDataFrame :: "u16 \<Rightarrow> u16 \<Rightarrow> bytes \<Rightarrow> bool \<Rightarrow> Frame" where
  "NewConfirmedUserDataFrame dst src data fcb =
     SetFCB (NewFrame DirectionMasterToOutstation PrimaryFrame FuncUserDataConfirmed dst src data)
       fcb"

definition NewUnconfirmedUserDataFrame :: "u16 \<Rightarrow> u16 \<Rightarrow> bytes \<Rightarrow> Frame" where
  "NewUnconfirmedUserDataFrame dst src data =
     NewFrame DirectionMasterToOutstation PrimaryFrame FuncUserDataUnconfirmed dst src data"

definition NewRequestLinkStatusFrame :: "u16 \<Rightarrow> u16 \<Rightarrow> Frame" where
  "NewRequestLinkStatusFrame dst src =
     NewFrame DirectionMasterToOutstation PrimaryFrame FuncRequestLinkStatus dst src []"

definition NewACKFrame :: "u16 \<Rightarrow> u16 \<Rightarrow> Frame" where
  "NewACKFrame dst src = NewFrame DirectionOutstationToMaster SecondaryFrame FuncAck dst src []"

definition NewNACKFrame :: "u16 \<Rightarrow> u16 \<Rightarrow> Frame" where
  "NewNACKFrame dst src = NewFrame DirectionOutstationToMaster SecondaryFrame FuncNack dst src []"

definition NewLinkStatusFrame :: "u16 \<Rightarrow> u16 \<Rightarrow> Frame" where
  "NewLinkStatusFrame dst src =
     NewFrame DirectionOutstationToMaster SecondaryFrame FuncLinkStatusResponse dst src []"

definition NewUnsolicitedFrame :: "u16 \<Rightarrow> u16 \<Rightarrow> bytes \<Rightarrow> Frame" where
  "NewUnsolicitedFrame dst src data =
     NewFrame DirectionOutstationToMaster SecondaryFrame FuncUserDataUnconfirmed dst src data"

definition NewLinkNotFunctioningFrame :: "u16 \<Rightarrow> u16 \<Rightarrow> Frame" where
  "NewLinkNotFunctioningFrame dst src =
     NewFrame DirectionOutstationToMaster SecondaryFrame FuncLinkNotFunctioning dst src []"

definition NewLinkNotUsedFrame :: "u16 \<Rightarrow> u16 \<Rightarrow> Frame" where
  "NewLinkNotUsedFrame dst src =
     NewFrame DirectionOutstationToMaster SecondaryFrame FuncLinkNotUsed dst src []"

section \<open>The control byte determines the derived fields\<close>

definition wf_frame :: "Frame \<Rightarrow> bool" where
  "wf_frame f \<longleftrightarrow> parseControl (f\<lparr>fFCB := False, fFCV := False\<rparr>) = f"

lemma wf_frame_iff:
  "wf_frame f \<longleftrightarrow> fFunctionCode f = fControl f AND 0x0F
    \<and> fDir f = bit (fControl f) 7 \<and> fIsPrimary f = bit (fControl f) 6
    \<and> fFCV f = (bit (fControl f) 6 \<and> bit (fControl f) 4)
    \<and> fFCB f = (bit (fControl f) 6 \<and> bit (fControl f) 5)"
  by (cases f) (auto simp: wf_frame_def parseControl_def ctrl_bits Let_def)

lemma wf_parseControl [simp]:
  "\<not> fFCB f \<Longrightarrow> \<not> fFCV f \<Longrightarrow> wf_frame (parseControl f)"
  by (auto simp: wf_frame_iff parseControl_def ctrl_bits Let_def)

lemma wf_UserData [simp]: "wf_frame (f\<lparr>fUserData := d\<rparr>) = wf_frame f"
  by (simp add: wf_frame_iff)

lemma nibble_eq_iff:
  "(x :: byte) AND 0x0F = x \<longleftrightarrow> \<not> bit x 4 \<and> \<not> bit x 5 \<and> \<not> bit x 6 \<and> \<not> bit x 7"
  by (auto simp: byte_eq_iff bit_simps)

lemma wf_NewFrame [simp]:
  "fc AND 0x0F = fc \<Longrightarrow> wf_frame (NewFrame dir prim fc dst src d)"
  by (auto simp: wf_frame_iff NewFrame_def buildControl_def Let_def byte_eq_iff bit_simps)

lemma wf_SetFCB [simp]: "wf_frame f \<Longrightarrow> fIsPrimary f \<Longrightarrow> wf_frame (SetFCB f b)"
  by (auto simp: wf_frame_iff SetFCB_def buildControl_def Let_def byte_eq_iff bit_simps)

section \<open>Serializing, then parsing\<close>

lemma length_frame_header [simp]: "length (frame_header f) = 8"
  by (simp add: frame_header_def)

lemma Serialize_Ok_iff:
  "Serialize f = Inr w \<longleftrightarrow> length (fUserData f) \<le> 250
    \<and> w = AppendCRC (frame_header f) @ AddCRCs (fUserData f)"
  by (auto simp: Serialize_def AppendCRC_def Let_def)

lemma u16_bytes: "ucast (ucast x :: byte) OR push_bit 8 (ucast (ucast (drop_bit 8 x) :: byte)) = (x :: u16)"
  using get_put_le_full [of 2 x] by (simp add: put_le_numeral)

lemma parseControl_UserData [simp]:
  "(parseControl g)\<lparr>fUserData := d\<rparr> = parseControl (g\<lparr>fUserData := d\<rparr>)"
  by (simp add: parseControl_def Let_def)

lemma parsed_frame:
  assumes "wf_frame f"
  shows "parseControl
      \<lparr>fControl = fControl f, fDestination = fDestination f, fSource = fSource f,
       fDir = False, fIsPrimary = False, fFCB = False, fFCV = False,
       fFunctionCode = 0, fUserData = fUserData f\<rparr> = f"
  using assms
  by (cases f) (auto simp: wf_frame_iff parseControl_def ctrl_bits Let_def)

lemma Parse_Serialize:
  assumes "Serialize f = Inr w" and "wf_frame f"
  shows "Parse (w @ rest) = Inr (f, length w)"
proof -
  let ?h = "frame_header f" and ?d = "fUserData f"
  define D where "D = w @ rest"
  have len: "length ?d \<le> 250" and w: "w = AppendCRC ?h @ AddCRCs ?d"
    using assms(1) by (auto simp: Serialize_Ok_iff)
  have size: "length w = 10 + length ?d + (length ?d + 15) div 16 * 2" and le: "length w \<le> length D"
    by (simp_all add: w D_def length_AddCRCs)
  have crc: "take 10 D = AppendCRC ?h"
    and body: "RemoveCRCs (take (length w - 10) (drop 10 D)) = Inr ?d"
    by (simp_all add: w D_def)
  have nth: "D ! i = ?h ! i" if "i < 8" for i
    using that by (simp add: w D_def AppendCRC_def Let_def nth_append)
  have n: "unat (D ! 2) = length ?d + 5"
    using len by (simp add: nth frame_header_def unat_of_nat del: of_nat_add)
  have hdr: "D ! 0 = 0x05" "D ! Suc 0 = 0x64" "D ! 3 = fControl f"
    "ucast (D ! 4) OR push_bit 8 (ucast (D ! 5)) = fDestination f"
    "ucast (D ! 6) OR push_bit 8 (ucast (D ! 7)) = fSource f"
    by (simp_all add: nth frame_header_def u16_bytes)
  have "Parse D = Inr (f, length w)"
  proof (cases "?d = []")
    case True
    then show ?thesis
      using parsed_frame [OF assms(2)] le
      by (simp add: Parse_def hdr n crc size)
  next
    case False
    then show ?thesis
      using parsed_frame [OF assms(2)] le body
      by (simp add: Parse_def hdr n crc size Let_def)
  qed
  then show ?thesis by (simp add: D_def)
qed

section \<open>Parsing, then serializing\<close>

lemma crc_length_inj:
  "a + (a + 15) div 16 * 2 = b + (b + 15) div 16 * 2 \<Longrightarrow> a = (b::nat)"
proof (induction a b rule: linorder_wlog)
  case (le a b)
  then have "(a + 15) div 16 \<le> (b + 15) div 16" by (simp add: div_le_mono)
  with le show ?case by simp
next
  case (sym a b)
  then show ?case by simp
qed

lemma take_8_list:
  "8 \<le> length w \<Longrightarrow> take 8 w = [w ! 0, w ! 1, w ! 2, w ! 3, w ! 4, w ! 5, w ! 6, w ! 7]"
  by (rule nth_equalityI) (auto simp: less_Suc_eq numeral_eq_Suc)

lemma byte_halves:
  "ucast (ucast a OR push_bit 8 (ucast b) :: u16) = (a :: byte)"
  "ucast (drop_bit 8 (ucast a OR push_bit 8 (ucast b) :: u16)) = (b :: byte)"
  "ucast (drop_bit 8 (ucast a) OR drop_bit 8 (push_bit 8 (ucast b)) :: u16) = (b :: byte)"
  using put_get_le [of "[a, b]", where 'a = 16] by (simp_all add: put_le_numeral numeral_2_eq_2)

lemma Parse_OkD:
  assumes "Parse w = Inr (f, n)"
  shows "n \<le> length w" "10 \<le> n" "wf_frame f" "Serialize f = Inr (take n w)"
proof -
  define k where "k = unat (w ! 2) - 5"
  define g where "g = parseControl
      \<lparr>fControl = w ! 3, fDestination = ucast (w ! 4) OR push_bit 8 (ucast (w ! 5)),
       fSource = ucast (w ! 6) OR push_bit 8 (ucast (w ! 7)),
       fDir = False, fIsPrimary = False, fFCB = False, fFCV = False,
       fFunctionCode = 0, fUserData = []\<rparr>"
  have len: "10 \<le> length w" "w ! 0 = 0x05" "w ! 1 = 0x64" "5 \<le> unat (w ! 2)"
    and size: "10 + k + (k + 15) div 16 * 2 \<le> length w" "n = 10 + k + (k + 15) div 16 * 2"
    and crc: "VerifyCRC (take 10 w)"
    and data: "if k = 0 then f = g
      else \<exists>d. RemoveCRCs (take (n - 10) (drop 10 w)) = Inr d \<and> f = g\<lparr>fUserData := d\<rparr>"
    using assms
    by (auto simp: Parse_def Let_def k_def g_def split: if_splits sum.splits)
  show "n \<le> length w" "10 \<le> n" using size by simp_all
  have "wf_frame g" by (simp add: g_def)
  then show "wf_frame f" using data by (auto split: if_splits)
  have body: "AddCRCs (fUserData f) = take (n - 10) (drop 10 w) \<and> f = g\<lparr>fUserData := fUserData f\<rparr>"
    using data size by (cases "k = 0") (auto simp: g_def parseControl_def Let_def dest: RemoveCRCs_OkD)
  then have "length (AddCRCs (fUserData f)) = k + (k + 15) div 16 * 2"
    using size by simp
  then have k: "length (fUserData f) = k"
    by (subst (asm) length_AddCRCs, subst (asm) mult.commute) (rule crc_length_inj)
  have k250: "k \<le> 250" using unat_lt_256 [of "w ! 2"] unfolding k_def by linarith
  have "word_of_nat (k + 5) = w ! 2"
    using len(4) by (simp add: k_def del: of_nat_add)
  moreover have "fControl f = w ! 3"
    "fDestination f = ucast (w ! 4) OR push_bit 8 (ucast (w ! 5))"
    "fSource f = ucast (w ! 6) OR push_bit 8 (ucast (w ! 7))"
    by (subst body [THEN conjunct2], simp add: g_def parseControl_def Let_def)+
  ultimately have "frame_header f = take 8 w"
    using len by (simp add: frame_header_def take_8_list k byte_halves del: of_nat_add)
  moreover have "take 10 w = AppendCRC (take 8 w)"
    using crc len(1) VerifyCRC_iff_AppendCRC [of "take 10 w"] by (simp add: min.absorb2)
  moreover have "take n w = take 10 w @ take (n - 10) (drop 10 w)"
    using \<open>10 \<le> n\<close> by (metis le_add_diff_inverse take_add)
  ultimately show "Serialize f = Inr (take n w)"
    using body k k250 by (simp add: Serialize_Ok_iff)
qed

lemma Parse_size:
  assumes "Parse w = Inr (f, n)"
  shows "n \<le> 292"
proof -
  let ?d = "fUserData f"
  have d: "length ?d \<le> 250" and w: "take n w = AppendCRC (frame_header f) @ AddCRCs ?d"
    using Parse_OkD(4) [OF assms] by (auto simp: Serialize_Ok_iff)
  have "n = length (take n w)" using Parse_OkD(1) [OF assms] by simp
  also have "\<dots> = 10 + (length ?d + 2 * ((length ?d + 15) div 16))"
    unfolding w by (simp add: length_AddCRCs)
  finally have n: "n = 10 + (length ?d + 2 * ((length ?d + 15) div 16))" .
  have "(length ?d + 15) div 16 \<le> 265 div 16"
    using d by (intro div_le_mono) simp
  with n d show ?thesis by simp
qed

section \<open>Corrupted frames\<close>

lemma Parse_body:
  assumes "Parse w = Inr (f, n)"
  shows "RemoveCRCs (take (n - 10) (drop 10 w)) = Inr (fUserData f)"
proof -
  have "take n w = AppendCRC (frame_header f) @ AddCRCs (fUserData f)"
    using Parse_OkD(4) [OF assms] by (simp add: Serialize_Ok_iff)
  then have "drop 10 (take n w) = AddCRCs (fUserData f)" by simp
  then show ?thesis by (simp add: drop_take)
qed

lemma Parse_bad_header:
  assumes "10 \<le> length w" and "\<not> VerifyCRC (take 10 w)"
  shows "\<exists>e m. Parse w = Inl (e, m)"
  using assms by (auto simp: Parse_def Let_def)

lemma Parse_bad_body:
  assumes "Parse w = Inr (f, n)" and "take 10 w' = take 10 w" and "length w' = length w"
    and "RemoveCRCs (take (n - 10) (drop 10 w')) = Inl e" and "10 < n"
  shows "Parse w' = Inl (e, 0)"
proof -
  have "10 \<le> length w" using Parse_OkD [OF assms(1)] by simp
  then have nth: "w' ! i = w ! i" if "i < 10" for i
    using assms(2) that by (metis nth_take)
  show ?thesis
    using assms(1,2,4,5) nth assms(3)
    by (auto simp: Parse_def Let_def split: if_splits sum.splits)
qed

lemma Parse_burst:
  assumes ok: "Parse (p @ [a, b] @ s) = Inr (f, n)" and neq: "(a, b) \<noteq> (a', b')"
    and pos: "Suc (length p) < 10
      \<or> 10 \<le> length p \<and> Suc (length p) < n
        \<and> (length p - 10) div 18 = Suc (length p - 10) div 18"
  shows "\<exists>e m. Parse (p @ [a', b'] @ s) = Inl (e, m)"
proof (cases "Suc (length p) < 10")
  case True
  let ?t = "take (8 - length p) s"
  have cut: "take 10 (p @ [x, y] @ s) = p @ [x, y] @ ?t" for x y
    using True by (simp add: take_Cons' numeral_eq_Suc)
  have "VerifyCRC (p @ [a, b] @ ?t)"
    using ok unfolding cut [symmetric] by (auto simp: Parse_def Let_def split: if_splits)
  then have "\<not> VerifyCRC (take 10 (p @ [a', b'] @ s))"
    unfolding cut using neq by (rule VerifyCRC_burst)
  moreover have "10 \<le> length (p @ [a', b'] @ s)"
    using Parse_OkD(1,2) [OF ok] by simp
  ultimately show ?thesis by (intro Parse_bad_header)
next
  case False
  let ?q = "drop 10 p" and ?t = "take (n - 12 - (length p - 10)) s"
  have p: "10 \<le> length p" "Suc (length p) < n" using pos False by auto
  have cut: "take (n - 10) (drop 10 (p @ [x, y] @ s)) = ?q @ [x, y] @ ?t" for x y
    using p by (simp add: take_Cons' numeral_eq_Suc)
  have "RemoveCRCs (?q @ [a, b] @ ?t) = Inr (fUserData f)"
    using Parse_body [OF ok] unfolding cut .
  then have "RemoveCRCs_loop (?q @ [a, b] @ ?t) [] = Inr (fUserData f)"
    by (simp add: RemoveCRCs_def)
  then have "RemoveCRCs_loop (?q @ [a', b'] @ ?t) [] = Inl ErrInvalidCRC"
    using neq by (rule RemoveCRCs_loop_burst) (use pos False in auto)
  then have "RemoveCRCs (take (n - 10) (drop 10 (p @ [a', b'] @ s))) = Inl ErrInvalidCRC"
    unfolding cut by (simp add: RemoveCRCs_def)
  moreover have "take 10 (p @ [a', b'] @ s) = take 10 (p @ [a, b] @ s)" using p by simp
  ultimately show ?thesis
    using Parse_bad_body [OF ok] p by auto
qed

section \<open>The frame format as a self-delimiting codec\<close>

text \<open>The bytes of a frame that fits, as the encoder of the codec interface.\<close>

definition frame_valid :: "Frame \<Rightarrow> bool" where
  "frame_valid f \<longleftrightarrow> wf_frame f \<and> length (fUserData f) \<le> MaxDataSize"

definition frame_bytes :: "Frame \<Rightarrow> bytes" where
  "frame_bytes f = (case Serialize f of Inl e \<Rightarrow> [] | Inr w \<Rightarrow> w)"

lemma Serialize_valid: "frame_valid f \<Longrightarrow> Serialize f = Inr (frame_bytes f)"
  by (auto simp: frame_valid_def frame_bytes_def Serialize_def Let_def)

interpretation frame_codec: prefix_codec frame_valid frame_bytes Parse
  by unfold_locales
    (rule Parse_Serialize [OF Serialize_valid], auto simp: frame_valid_def)

section \<open>Properties\<close>

text \<open>
  C8: every frame whose derived fields agree with its control byte and whose data fits
  serializes, and parsing the result, with any bytes behind it, gives the frame back and
  consumes exactly its bytes.
\<close>

theorem frame_roundtrip:
  assumes "wf_frame f" and "length (fUserData f) \<le> MaxDataSize"
  shows "\<exists>w. Serialize f = Inr w \<and> Parse (w @ rest) = Inr (f, length w)"
  using assms Serialize_valid [of f] by (auto simp: frame_valid_def intro: Parse_Serialize)

theorem frame_roundtrip_witness:
  "\<exists>w. Serialize (NewConfirmedUserDataFrame 10 1 [1, 2, 3] True) = Inr w \<and>
    Parse (w @ [0xFF]) = Inr (NewConfirmedUserDataFrame 10 1 [1, 2, 3] True, length w)"
proof -
  let ?f = "NewConfirmedUserDataFrame 10 1 [1, 2, 3] True"
  have "wf_frame ?f" "length (fUserData ?f) \<le> MaxDataSize"
    by (simp_all add: NewConfirmedUserDataFrame_def NewFrame_def SetFCB_def buildControl_def
        wf_frame_def parseControl_def Let_def)
  then show ?thesis by (rule frame_roundtrip)
qed

text \<open>
  C9: whatever \<open>Parse\<close> accepts is the serialization of the frame it returns: the bytes
  consumed are at least a header and at most the input, the derived fields agree with the
  control byte, and serializing the frame gives exactly the bytes consumed.
\<close>

theorem frame_parse_sound:
  assumes "Parse w = Inr (f, n)"
  shows "MinFrameSize \<le> n \<and> n \<le> length w \<and> n \<le> MaxFrameSize \<and> wf_frame f
    \<and> Serialize f = Inr (take n w)"
  using Parse_OkD [OF assms] Parse_size [OF assms] by simp

lemma Parse_published:
  "Parse [0x05, 0x64, 0x05, 0xC0, 0x0A, 0x00, 0x01, 0x00, 0xB1, 0xAC, 0xFF]
    = Inr (NewResetLinkFrame 10 1, 10)"
  by code_simp

theorem frame_parse_sound_witness:
  "Serialize (NewResetLinkFrame 10 1)
    = Inr [0x05, 0x64, 0x05, 0xC0, 0x0A, 0x00, 0x01, 0x00, 0xB1, 0xAC]"
  using frame_parse_sound [OF Parse_published] by simp

text \<open>
  C36: a frame that parses no longer parses after an error in two adjacent bytes of one
  CRC-protected block, whatever the two bytes are, the start bytes, the length and the CRCs
  themselves included: the receiver gets an error, never a different frame.
\<close>

theorem frame_detects_burst:
  assumes "Parse (p @ [a, b] @ s) = Inr (f, n)" and "(a, b) \<noteq> (a', b')"
    and "Suc (length p) < HeaderSize
      \<or> HeaderSize \<le> length p \<and> Suc (length p) < n
        \<and> (length p - HeaderSize) div (BlockSize + 2)
          = Suc (length p - HeaderSize) div (BlockSize + 2)"
  shows "\<exists>e m. Parse (p @ [a', b'] @ s) = Inl (e, m)"
  using assms by (intro Parse_burst) auto

theorem frame_detects_burst_witness:
  "\<exists>e m. Parse ([0x05, 0x64, 0x05] @ [0x80, 0x0B] @ [0x00, 0x01, 0x00, 0xB1, 0xAC, 0xFF]) = Inl (e, m)"
  by (rule frame_detects_burst [of _ "0xC0" "0x0A" _ "NewResetLinkFrame 10 1" 10])
    (use Parse_published in simp_all)

text \<open>
  Frames written back to back are read back as the same frames in the same order, and
  the bytes behind the last one are left over: parsing needs no separator between frames.
\<close>

theorem frame_stream_roundtrip:
  assumes "list_all frame_valid fs"
  shows "decode_seq Parse (length fs) (concat (map frame_bytes fs) @ rest) = Inr (fs, rest)"
  using assms by (rule frame_codec.decode_stream)

theorem frame_stream_roundtrip_witness:
  "decode_seq Parse 2 (frame_bytes (NewACKFrame 1 10) @ frame_bytes (NewResetLinkFrame 10 1) @ [7])
    = Inr ([NewACKFrame 1 10, NewResetLinkFrame 10 1], [7])"
  using frame_stream_roundtrip [of "[NewACKFrame 1 10, NewResetLinkFrame 10 1]" "[7]"]
  by (simp add: frame_valid_def NewACKFrame_def NewResetLinkFrame_def numeral_2_eq_2)
    (simp add: NewFrame_def buildControl_def Let_def)

end
