(* ===== verification/Link_Strict_Codec.thy ===== *)
theory Link_Strict_Codec
  imports Link_Frame
begin

text \<open>
  \<open>pkg/link/strict.go\<close>: the strict link codec. A strict frame is the exact wire content; the
  codec validates the whole control byte, accepts exactly one frame, and reads a frame from
  a fragmented stream. A stream is the sequence of what successive calls of its \<open>Read\<close>
  return, so that every fragmentation and every failure of the connection is one such
  sequence. Encoding and decoding are shown to be inverse bijections, and reading to
  depend on the bytes only, not on how they are cut into reads.
\<close>

unbundle bit_operations_syntax

section \<open>Streams\<close>

text \<open>
  What a call of \<open>Read\<close> on the connection does: some bytes arrive (the call takes as many as
  it has room for and leaves the rest to the next call), or the call fails. The end of the
  sequence is the end of the stream. \<open>read_full\<close> is the standard library's \<open>io.ReadFull\<close>:
  it reads until the buffer is full; an end of file in the middle becomes
  \<open>ErrUnexpectedEOF\<close>.
\<close>

datatype io_err = EOF | UnexpectedEOF | IOTimeout | ShortWrite | IOFailure nat

datatype read_event = Arrives bytes | ReadFails io_err

fun read_full :: "nat \<Rightarrow> bytes \<Rightarrow> read_event list \<Rightarrow> (io_err + bytes) \<times> read_event list" where
  "read_full n got [] =
     (if n \<le> length got then (Inr got, [])
      else (Inl (if got = [] then EOF else UnexpectedEOF), []))"
| "read_full n got (Arrives bs # evs) =
     (if n \<le> length got then (Inr got, Arrives bs # evs)
      else if length bs \<le> n - length got then read_full n (got @ bs) evs
      else (Inr (got @ take (n - length got) bs), Arrives (drop (n - length got) bs) # evs))"
| "read_full n got (ReadFails e # evs) =
     (if n \<le> length got then (Inr got, ReadFails e # evs)
      else (Inl (if e = EOF \<and> got \<noteq> [] then UnexpectedEOF else e), evs))"

section \<open>Frames and errors\<close>

record StrictFrame =
  sfControl :: byte
  sfDestination :: u16
  sfSource :: u16
  sfUserData :: bytes

text \<open>
  The errors of the strict link code, one constructor per \<open>errors.New\<close> or \<open>fmt.Errorf\<close> of
  \<open>strict.go\<close> and \<open>strict_state.go\<close>, with the formatted values and the wrapped error.
\<close>

datatype strict_err =
    LinkErr link_err
  | TrailingBytes
  | InvalidPrimaryControl byte
  | ReservedSecondaryBit byte
  | InvalidSecondaryFunction byte
  | ReaderRequired
  | ReadErr io_err
  | InvalidLinkHeader
  | ReadingLinkData io_err
  | ErrStrictRequestPending
  | LinkNotReset
  | ConfirmedEmpty
  | UnconfirmedEmpty
  | NoPendingRequest
  | AddressMismatch
  | DirectionMismatch
  | ResetHasData
  | TestHasData
  | ConfirmedFrameEmpty
  | UnconfirmedFrameEmpty
  | StatusRequestHasData
  | SecondaryHasData
  | UnexpectedResponse
  | AckMismatch byte
  | StatusMismatch byte
  | UnsupportedSecondary byte

text \<open>\<open>None\<close> is the nil error.\<close>

definition validateStrictControl :: "byte \<Rightarrow> strict_err option" where
  "validateStrictControl control =
     (let primary = (control AND CtrlPRM \<noteq> 0);
          func = control AND CtrlFuncMask
      in if primary
         then (let fcb = (control AND CtrlFCB \<noteq> 0);
                   fcv = (control AND CtrlFCV \<noteq> 0);
                   requiresFCV = (func = FuncTestLinkStates \<or> func = FuncUserDataConfirmed);
                   validFunction = (func = FuncResetLink \<or> requiresFCV
                     \<or> func = FuncUserDataUnconfirmed \<or> func = FuncRequestLinkStatus)
               in if \<not> validFunction \<or> fcv \<noteq> requiresFCV \<or> fcb \<and> \<not> fcv
                  then Some (InvalidPrimaryControl control)
                  else None)
         else if control AND CtrlFCB \<noteq> 0 then Some (ReservedSecondaryBit control)
         else if func \<noteq> FuncAck \<and> func \<noteq> FuncNack
           \<and> func \<noteq> FuncLinkStatusResponse \<and> func \<noteq> FuncLinkNotUsed
         then Some (InvalidSecondaryFunction func)
         else None)"

definition ValidateStrictControl :: "byte \<Rightarrow> strict_err option" where
  "ValidateStrictControl control = validateStrictControl control"

definition EncodeStrictFrame :: "StrictFrame \<Rightarrow> strict_err + bytes" where
  "EncodeStrictFrame frame =
     (case validateStrictControl (sfControl frame) of
        Some err \<Rightarrow> Inl err
      | None \<Rightarrow>
          if length (sfUserData frame) > MaxDataSize then Inl (LinkErr ErrFrameTooLong)
          else (case Serialize
                  \<lparr>fControl = sfControl frame, fDestination = sfDestination frame,
                   fSource = sfSource frame, fDir = False, fIsPrimary = False, fFCB = False,
                   fFCV = False, fFunctionCode = 0, fUserData = sfUserData frame\<rparr> of
                  Inl err \<Rightarrow> Inl (LinkErr err)
                | Inr wire \<Rightarrow> Inr wire))"

definition DecodeStrictFrame :: "bytes \<Rightarrow> strict_err + StrictFrame" where
  "DecodeStrictFrame data =
     (case Parse data of
        Inl (err, _) \<Rightarrow> Inl (LinkErr err)
      | Inr (frame, consumed) \<Rightarrow>
          if consumed \<noteq> length data then Inl TrailingBytes
          else (case validateStrictControl (fControl frame) of
                  Some err \<Rightarrow> Inl err
                | None \<Rightarrow> Inr \<lparr>sfControl = fControl frame, sfDestination = fDestination frame,
                            sfSource = fSource frame, sfUserData = fUserData frame\<rparr>))"

text \<open>\<open>None\<close> as the reader is the nil interface.\<close>

definition read_strict_frame ::
  "read_event list \<Rightarrow> (strict_err + StrictFrame) \<times> read_event list" where
  "read_strict_frame evs =
     (case read_full HeaderSize [] evs of
        (Inl err, evs1) \<Rightarrow> (Inl (ReadErr err), evs1)
      | (Inr header, evs1) \<Rightarrow>
          if header ! 0 \<noteq> StartByte1 \<or> header ! 1 \<noteq> StartByte2 \<or> unat (header ! 2) < 5
          then (Inl InvalidLinkHeader, evs1)
          else let payloadLength = unat (header ! 2) - 5;
                   wirePayloadLength =
                     payloadLength + 2 * ((payloadLength + BlockSize - 1) div BlockSize)
               in case read_full wirePayloadLength [] evs1 of
                    (Inl err, evs2) \<Rightarrow> (Inl (ReadingLinkData err), evs2)
                  | (Inr rest, evs2) \<Rightarrow> (DecodeStrictFrame (header @ rest), evs2))"

definition ReadStrictFrame ::
  "read_event list option \<Rightarrow> (strict_err + StrictFrame) \<times> read_event list option" where
  "ReadStrictFrame reader =
     (case reader of
        None \<Rightarrow> (Inl ReaderRequired, None)
      | Some evs \<Rightarrow> (case read_strict_frame evs of (r, evs') \<Rightarrow> (r, Some evs')))"

section \<open>Encoding and decoding\<close>

text \<open>The frame of the lax code with the same wire content and agreeing derived fields.\<close>

definition lax_frame :: "StrictFrame \<Rightarrow> Frame" where
  "lax_frame f = parseControl
     \<lparr>fControl = sfControl f, fDestination = sfDestination f, fSource = sfSource f,
      fDir = False, fIsPrimary = False, fFCB = False, fFCV = False, fFunctionCode = 0,
      fUserData = sfUserData f\<rparr>"

definition strict_frame :: "Frame \<Rightarrow> StrictFrame" where
  "strict_frame f = \<lparr>sfControl = fControl f, sfDestination = fDestination f,
     sfSource = fSource f, sfUserData = fUserData f\<rparr>"

lemma wf_lax_frame [simp]: "wf_frame (lax_frame f)"
  by (simp add: lax_frame_def)

lemma strict_lax_frame [simp]: "strict_frame (lax_frame f) = f"
  by (simp add: strict_frame_def lax_frame_def parseControl_def Let_def)

lemma lax_frame_sel [simp]:
  "fControl (lax_frame f) = sfControl f" "fUserData (lax_frame f) = sfUserData f"
  "fDestination (lax_frame f) = sfDestination f" "fSource (lax_frame f) = sfSource f"
  by (simp_all add: lax_frame_def parseControl_def Let_def)

text \<open>Serializing looks at the control byte, the addresses and the data only.\<close>

lemma Serialize_cong:
  "fControl f = fControl g \<Longrightarrow> fDestination f = fDestination g \<Longrightarrow> fSource f = fSource g
    \<Longrightarrow> fUserData f = fUserData g \<Longrightarrow> Serialize f = Serialize g"
  by (simp add: Serialize_def frame_header_def Let_def)

lemma Serialize_lax:
  "Serialize \<lparr>fControl = sfControl f, fDestination = sfDestination f, fSource = sfSource f,
     fDir = False, fIsPrimary = False, fFCB = False, fFCV = False, fFunctionCode = 0,
     fUserData = sfUserData f\<rparr> = Serialize (lax_frame f)"
  by (rule Serialize_cong) (simp_all add: lax_frame_def parseControl_def Let_def)

lemma EncodeStrictFrame_iff:
  "EncodeStrictFrame f = Inr w \<longleftrightarrow>
    validateStrictControl (sfControl f) = None \<and> Serialize (lax_frame f) = Inr w"
proof (cases "250 < length (sfUserData f)")
  case True
  then show ?thesis
    by (auto simp: EncodeStrictFrame_def Serialize_Ok_iff split: option.splits)
next
  case False
  then show ?thesis
    by (auto simp: EncodeStrictFrame_def Serialize_lax split: option.splits sum.splits)
qed

lemma EncodeStrictFrame_ok:
  "validateStrictControl (sfControl f) = None \<Longrightarrow> length (sfUserData f) \<le> 250
    \<Longrightarrow> \<exists>w. EncodeStrictFrame f = Inr w"
  by (auto simp: EncodeStrictFrame_iff Serialize_def Let_def)

lemma wf_frame_control_eqI:
  "wf_frame f \<Longrightarrow> wf_frame g \<Longrightarrow> strict_frame f = strict_frame g \<Longrightarrow> f = g"
  by (cases f; cases g) (simp add: wf_frame_iff strict_frame_def)

lemma DecodeStrictFrame_iff:
  "DecodeStrictFrame w = Inr f \<longleftrightarrow>
    validateStrictControl (sfControl f) = None \<and> Parse w = Inr (lax_frame f, length w)"
proof
  assume "DecodeStrictFrame w = Inr f"
  then obtain g where g: "Parse w = Inr (g, length w)" "f = strict_frame g"
    "validateStrictControl (sfControl f) = None"
    by (auto simp: DecodeStrictFrame_def strict_frame_def split: sum.splits if_splits option.splits)
  have "strict_frame g = strict_frame (lax_frame f)" using g(2) by simp
  then have "g = lax_frame f"
    by (rule wf_frame_control_eqI [OF Parse_OkD(3) [OF g(1)] wf_lax_frame])
  then show "validateStrictControl (sfControl f) = None \<and> Parse w = Inr (lax_frame f, length w)"
    using g(1,3) by blast
next
  assume "validateStrictControl (sfControl f) = None \<and> Parse w = Inr (lax_frame f, length w)"
  then show "DecodeStrictFrame w = Inr f"
    by (simp add: DecodeStrictFrame_def)
qed

lemma Encode_iff_Decode: "EncodeStrictFrame f = Inr w \<longleftrightarrow> DecodeStrictFrame w = Inr f"
proof
  assume "EncodeStrictFrame f = Inr w"
  then show "DecodeStrictFrame w = Inr f"
    using Parse_Serialize [of "lax_frame f" w "[]"]
    by (simp add: EncodeStrictFrame_iff DecodeStrictFrame_iff)
next
  assume "DecodeStrictFrame w = Inr f"
  then show "EncodeStrictFrame f = Inr w"
    using Parse_OkD(4) [of w "lax_frame f" "length w"]
    by (simp add: EncodeStrictFrame_iff DecodeStrictFrame_iff)
qed

section \<open>Reading a frame from a stream\<close>

text \<open>A stream that only delivers bytes, and all it delivers.\<close>

definition delivers :: "read_event list \<Rightarrow> bool" where
  "delivers evs \<longleftrightarrow> list_all (\<lambda>e. case e of Arrives _ \<Rightarrow> True | ReadFails _ \<Rightarrow> False) evs"

definition stream_bytes :: "read_event list \<Rightarrow> bytes" where
  "stream_bytes evs = concat (map (\<lambda>e. case e of Arrives bs \<Rightarrow> bs | ReadFails _ \<Rightarrow> []) evs)"

lemma delivers_simps [simp]:
  "delivers []" "delivers (Arrives bs # evs) = delivers evs" "\<not> delivers (ReadFails e # evs)"
  by (simp_all add: delivers_def)

lemma stream_bytes_simps [simp]:
  "stream_bytes [] = []" "stream_bytes (Arrives bs # evs) = bs @ stream_bytes evs"
  "stream_bytes (ReadFails e # evs) = stream_bytes evs"
  by (simp_all add: stream_bytes_def)

lemma read_full_enough:
  assumes "delivers evs" and "stream_bytes evs = w @ after" and "n = length got + length w"
  shows "\<exists>evs'. read_full n got evs = (Inr (got @ w), evs') \<and> delivers evs'
    \<and> stream_bytes evs' = after"
  using assms
proof (induction n got evs arbitrary: w rule: read_full.induct)
  case (1 n got)
  then show ?case by auto
next
  case (2 n got bs evs)
  show ?case
  proof (cases "w = []")
    case True
    with 2 show ?thesis by auto
  next
    case False
    then have n: "\<not> n \<le> length got" using 2 by simp
    show ?thesis
    proof (cases "length bs \<le> n - length got")
      case True
      then obtain v where "w = bs @ v"
        using "2.prems" by (auto simp: append_eq_append_conv2)
      with 2 True n show ?thesis by auto
    next
      case False
      then have "bs = w @ drop (length w) bs" "drop (length w) bs @ stream_bytes evs = after"
        using "2.prems" by (auto simp: append_eq_append_conv2)
      moreover from this(1) have "take (length w) bs = w" by (metis append_eq_conv_conj)
      ultimately show ?thesis using 2 n False by auto
    qed
  qed
next
  case (3 n got e evs)
  then show ?case by auto
qed

lemma read_strict_frame_any_cut:
  assumes "EncodeStrictFrame f = Inr w" and "delivers evs" and "stream_bytes evs = w @ after"
  shows "\<exists>evs'. read_strict_frame evs = (Inr f, evs') \<and> delivers evs' \<and> stream_bytes evs' = after"
proof -
  let ?d = "sfUserData f"
  have dec: "DecodeStrictFrame w = Inr f" using assms(1) by (simp add: Encode_iff_Decode)
  have len: "length ?d \<le> 250" and w: "w = AppendCRC (frame_header (lax_frame f)) @ AddCRCs ?d"
    using assms(1) by (auto simp: EncodeStrictFrame_iff Serialize_Ok_iff)
  let ?h = "AppendCRC (frame_header (lax_frame f))"
  have hdr: "?h ! 0 = 0x05" "?h ! Suc 0 = 0x64" "unat (?h ! 2) = length ?d + 5"
    using len by (simp_all add: AppendCRC_def Let_def frame_header_def unat_of_nat del: of_nat_add)
  obtain evs1 where 1: "read_full 10 [] evs = (Inr ?h, evs1)" "delivers evs1"
    "stream_bytes evs1 = AddCRCs ?d @ after"
    using read_full_enough [OF assms(2), of ?h "AddCRCs ?d @ after" 10 "[]"] assms(3)
    by (auto simp: w)
  obtain evs2 where 2: "read_full (length (AddCRCs ?d)) [] evs1 = (Inr (AddCRCs ?d), evs2)"
    "delivers evs2" "stream_bytes evs2 = after"
    using read_full_enough [OF 1(2,3), of _ "[]"] by auto
  have "length (AddCRCs ?d) = length ?d + 2 * ((length ?d + 16 - 1) div 16)"
    by (simp add: length_AddCRCs)
  then have "read_strict_frame evs = (Inr f, evs2)"
    using 1(1) 2(1) dec by (simp add: read_strict_frame_def hdr w)
  with 2 show ?thesis by blast
qed

section \<open>Properties\<close>

text \<open>
  C19: encoding and decoding strict frames are inverse bijections between the frames the
  encoder accepts and the byte strings the decoder accepts: a frame encodes to exactly the
  bytes that decode to it.
\<close>

theorem strict_encode_iff_decode: "EncodeStrictFrame f = Inr w \<longleftrightarrow> DecodeStrictFrame w = Inr f"
  by (rule Encode_iff_Decode)

text \<open>
  The control bytes the strict link code accepts are exactly these 30: for each
  direction, the primary functions reset, unconfirmed data and link status without a valid
  frame count bit, test and confirmed data with one, and the secondary functions ACK, NACK,
  link status and not used, with either value of the flow control bit.
\<close>

theorem strict_control_bytes:
  "filter (\<lambda>c. validateStrictControl c = None) (map of_nat [0..<256]) =
    [0x00, 0x01, 0x0B, 0x0F, 0x10, 0x11, 0x1B, 0x1F,
     0x40, 0x44, 0x49, 0x52, 0x53, 0x72, 0x73,
     0x80, 0x81, 0x8B, 0x8F, 0x90, 0x91, 0x9B, 0x9F,
     0xC0, 0xC4, 0xC9, 0xD2, 0xD3, 0xF2, 0xF3]"
  by code_simp

text \<open>
  Reading a frame depends on the bytes of the stream only: however a valid frame is cut
  into reads, and whatever follows it, \<open>ReadStrictFrame\<close> returns that frame and leaves
  exactly the bytes behind it to the next read.
\<close>

theorem strict_read_any_fragmentation:
  assumes "EncodeStrictFrame f = Inr w" and "delivers evs" and "stream_bytes evs = w @ after"
  shows "\<exists>evs'. ReadStrictFrame (Some evs) = (Inr f, Some evs') \<and> delivers evs'
    \<and> stream_bytes evs' = after"
  using read_strict_frame_any_cut [OF assms] by (auto simp: ReadStrictFrame_def)

lemma Encode_published:
  "EncodeStrictFrame \<lparr>sfControl = 0xC0, sfDestination = 10, sfSource = 1, sfUserData = []\<rparr>
    = Inr [0x05, 0x64, 0x05, 0xC0, 0x0A, 0x00, 0x01, 0x00, 0xB1, 0xAC]"
  by code_simp

theorem strict_read_any_fragmentation_witness:
  "\<exists>evs'. ReadStrictFrame (Some [Arrives [0x05, 0x64, 0x05], Arrives [], Arrives [0xC0, 0x0A, 0x00],
      Arrives [0x01, 0x00, 0xB1, 0xAC, 0x05]])
    = (Inr \<lparr>sfControl = 0xC0, sfDestination = 10, sfSource = 1, sfUserData = []\<rparr>, Some evs')
      \<and> delivers evs' \<and> stream_bytes evs' = [0x05]"
  by (rule strict_read_any_fragmentation [OF Encode_published]) simp_all

text \<open>
  The data frames of the lax outstation are not strict frames: \<open>NewUnsolicitedFrame\<close>
  marks user data as a secondary frame with function 4, and the strict decoder refuses
  every such frame as an invalid secondary function.
\<close>

theorem strict_rejects_unsolicited:
  assumes "Serialize (NewUnsolicitedFrame dst src d) = Inr w"
  shows "DecodeStrictFrame w = Inl (InvalidSecondaryFunction 4)"
proof -
  have "Parse w = Inr (NewUnsolicitedFrame dst src d, length w)"
    using Parse_Serialize [OF assms, of "[]"] by (simp add: NewUnsolicitedFrame_def)
  moreover have "fControl (NewUnsolicitedFrame dst src d) = 4"
    by (simp add: NewUnsolicitedFrame_def NewFrame_def buildControl_def)
  ultimately show ?thesis
    by (simp add: DecodeStrictFrame_def validateStrictControl_def)
qed

theorem strict_rejects_unsolicited_witness:
  "DecodeStrictFrame (frame_bytes (NewUnsolicitedFrame 1 10 [0xC0, 0x81]))
    = Inl (InvalidSecondaryFunction 4)"
  by (rule strict_rejects_unsolicited, rule Serialize_valid)
    (simp add: frame_valid_def NewUnsolicitedFrame_def, simp add: NewFrame_def buildControl_def Let_def)

end
