(* ===== verification/Fcb_Receiver.thy ===== *)
theory Fcb_Receiver
  imports Dnp_Base
begin

text \<open>
  The interface of duplicate detection by a frame count bit: a receiver that says of each
  confirmed frame whether it is new. Its laws are that in step with the sender it takes the
  next bit as new, and that until the bit changes it takes every repetition as a duplicate.
  What the link layers rely on is proved here once: a sender that alternates the bit from
  message to message and repeats each message any number of times has each message
  delivered exactly once, in order.
\<close>

text \<open>The transmissions of a sender: message \<open>d\<close> is sent \<open>Suc n\<close> times with one bit.\<close>

fun transmissions :: "bool \<Rightarrow> ('d \<times> nat) list \<Rightarrow> (bool \<times> 'd) list" where
  "transmissions b [] = []"
| "transmissions b ((d, n) # ms) = replicate (Suc n) (b, d) @ transmissions (\<not> b) ms"

fun fcb_receive :: "('s \<Rightarrow> bool \<Rightarrow> bool \<times> 's) \<Rightarrow> 's \<Rightarrow> (bool \<times> 'd) list \<Rightarrow> 'd list \<times> 's" where
  "fcb_receive acc s [] = ([], s)"
| "fcb_receive acc s ((b, d) # fs) =
     (case acc s b of (new, s') \<Rightarrow>
        (case fcb_receive acc s' fs of (ds, t) \<Rightarrow> (if new then d # ds else ds, t)))"

locale fcb_receiver =
  fixes acc :: "'s \<Rightarrow> bool \<Rightarrow> bool \<times> 's"
    and synced :: "'s \<Rightarrow> bool \<Rightarrow> bool"
    and took :: "'s \<Rightarrow> bool \<Rightarrow> bool"
  assumes new_frame: "synced s b \<Longrightarrow> fst (acc s b) \<and> took (snd (acc s b)) b"
    and dup_frame: "took s b \<Longrightarrow> acc s b = (False, s)"
    and next_frame: "took s b \<Longrightarrow> synced s (\<not> b)"
begin

lemma repeats:
  "took s b \<Longrightarrow> fcb_receive acc s (replicate n (b, d) @ fs) = fcb_receive acc s fs"
  by (induction n) (auto simp: dup_frame split: prod.split)

lemma exactly_once:
  "synced s b \<Longrightarrow> fst (fcb_receive acc s (transmissions b ms)) = map fst ms"
proof (induction b ms arbitrary: s rule: transmissions.induct)
  case (1 b)
  then show ?case by simp
next
  case (2 b d n ms)
  obtain s' where s': "acc s b = (True, s')" "took s' b"
    using new_frame [OF 2(2)] by (cases "acc s b") auto
  then have "fst (fcb_receive acc s' (transmissions (\<not> b) ms)) = map fst ms"
    using 2(1) next_frame by blast
  then show ?case
    using s' repeats [OF s'(2), of n d "transmissions (\<not> b) ms"] by (auto split: prod.split)
qed

end

end
