(* ===== verification/Link_Strict_State.thy ===== *)
theory Link_Strict_State
  imports Link_Strict_Codec Fcb_Receiver
begin

text \<open>
  \<open>pkg/link/strict_state.go\<close>: the primary/secondary state machine of the strict link layer.
  An operation takes the state and returns its result together with the state after it, so
  that what an error path leaves behind is explicit. The invariant \<open>ss_inv\<close> ties the pending
  request to the flags the code keeps beside it; every operation preserves it, every frame
  an operation emits is one the strict codec encodes, and an operation that fails leaves
  the state as it was.
\<close>

unbundle bit_operations_syntax

section \<open>State and actions\<close>

record StrictAction =
  saResponse :: "StrictFrame option"
  saUserData :: bytes
  saReset :: bool
  saDuplicate :: bool
  saAcknowledged :: bool
  saNegativeAcknowledgement :: bool
  saLinkStatus :: bool
  saNotSupported :: bool
  saDataFlowControl :: bool

definition no_action :: StrictAction where
  "no_action =
     \<lparr>saResponse = None, saUserData = [], saReset = False, saDuplicate = False,
      saAcknowledged = False, saNegativeAcknowledgement = False, saLinkStatus = False,
      saNotSupported = False, saDataFlowControl = False\<rparr>"

record StrictState =
  localAddress :: u16
  remoteAddress :: u16
  localIsMaster :: bool
  ready :: bool
  nextSendFCB :: bool
  expectedFCB :: bool
  pending :: "StrictFrame option"
  pendingFn :: byte

definition NewStrictState :: "u16 \<Rightarrow> u16 \<Rightarrow> bool \<Rightarrow> StrictState" where
  "NewStrictState local remote isMaster =
     \<lparr>localAddress = local, remoteAddress = remote, localIsMaster = isMaster, ready = False,
      nextSendFCB = True, expectedFCB = True, pending = None, pendingFn = 0\<rparr>"

section \<open>Starting transactions\<close>

definition MarkReset :: "StrictState \<Rightarrow> StrictState" where
  "MarkReset s =
     s\<lparr>ready := True, nextSendFCB := True, expectedFCB := True, pending := None, pendingFn := 0\<rparr>"

definition primaryControl :: "StrictState \<Rightarrow> byte \<Rightarrow> bool \<Rightarrow> bool \<Rightarrow> byte" where
  "primaryControl s func fcb fcv =
     (let c0 = CtrlPRM OR func;
          c1 = (if localIsMaster s then c0 OR CtrlDIR else c0);
          c2 = (if fcb then c1 OR CtrlFCB else c1)
      in if fcv then c2 OR CtrlFCV else c2)"

definition secondaryFrame :: "StrictState \<Rightarrow> byte \<Rightarrow> bool \<Rightarrow> StrictFrame" where
  "secondaryFrame s func dfc =
     (let c1 = (if localIsMaster s then func OR CtrlDIR else func);
          c2 = (if dfc then c1 OR CtrlFCV else c1)
      in \<lparr>sfControl = c2, sfDestination = remoteAddress s, sfSource = localAddress s,
          sfUserData = []\<rparr>)"

definition startPending ::
  "StrictState \<Rightarrow> byte \<Rightarrow> bool \<Rightarrow> bytes \<Rightarrow> (strict_err + StrictFrame) \<times> StrictState" where
  "startPending s func fcb userData =
     (if pending s \<noteq> None then (Inl ErrStrictRequestPending, s)
      else if length userData > MaxDataSize then (Inl (LinkErr ErrFrameTooLong), s)
      else let frame =
                 \<lparr>sfControl = primaryControl s func fcb (func = 2 \<or> func = 3),
                  sfDestination = remoteAddress s, sfSource = localAddress s,
                  sfUserData = userData\<rparr>
           in (Inr frame, s\<lparr>pending := Some frame, pendingFn := func\<rparr>))"

definition StartReset :: "StrictState \<Rightarrow> (strict_err + StrictFrame) \<times> StrictState" where
  "StartReset s =
     (if pending s \<noteq> None then (Inl ErrStrictRequestPending, s)
      else startPending (s\<lparr>ready := False, nextSendFCB := True\<rparr>) 0 False [])"

definition StartConfirmed ::
  "StrictState \<Rightarrow> bytes \<Rightarrow> (strict_err + StrictFrame) \<times> StrictState" where
  "StartConfirmed s userData =
     (if \<not> ready s then (Inl LinkNotReset, s)
      else if length userData = 0 then (Inl ConfirmedEmpty, s)
      else startPending s 3 (nextSendFCB s) userData)"

definition StartLinkStatus :: "StrictState \<Rightarrow> (strict_err + StrictFrame) \<times> StrictState" where
  "StartLinkStatus s = startPending s 9 False []"

definition Unconfirmed :: "StrictState \<Rightarrow> bytes \<Rightarrow> strict_err + StrictFrame" where
  "Unconfirmed s userData =
     (if length userData = 0 then Inl UnconfirmedEmpty
      else if length userData > MaxDataSize then Inl (LinkErr ErrFrameTooLong)
      else Inr \<lparr>sfControl = primaryControl s 4 False False, sfDestination = remoteAddress s,
                sfSource = localAddress s, sfUserData = userData\<rparr>)"

definition Retransmission :: "StrictState \<Rightarrow> strict_err + StrictFrame" where
  "Retransmission s =
     (case pending s of None \<Rightarrow> Inl NoPendingRequest | Some frame \<Rightarrow> Inr frame)"

section \<open>Handling an inbound frame\<close>

definition handleConfirmedPrimary ::
  "StrictState \<Rightarrow> byte \<Rightarrow> bytes \<Rightarrow> bool \<Rightarrow> (strict_err + StrictAction) \<times> StrictState" where
  "handleConfirmedPrimary s control userData deliver =
     (if \<not> ready s
      then (Inr (no_action\<lparr>saResponse := Some (secondaryFrame s 1 False),
                           saNegativeAcknowledgement := True\<rparr>), s)
      else let response = secondaryFrame s 0 False;
               fcb = (control AND CtrlFCB \<noteq> 0)
           in if fcb \<noteq> expectedFCB s
              then (Inr (no_action\<lparr>saResponse := Some response, saDuplicate := True\<rparr>), s)
              else (Inr (no_action\<lparr>saResponse := Some response,
                                   saUserData := (if deliver then userData else [])\<rparr>),
                    s\<lparr>expectedFCB := \<not> expectedFCB s\<rparr>))"

definition handlePrimary ::
  "StrictState \<Rightarrow> StrictFrame \<Rightarrow> (strict_err + StrictAction) \<times> StrictState" where
  "handlePrimary s frame =
     (let func = sfControl frame AND CtrlFuncMask in
      if func = 0
      then (if length (sfUserData frame) \<noteq> 0 then (Inl ResetHasData, s)
            else let s' = MarkReset s
                 in (Inr (no_action\<lparr>saResponse := Some (secondaryFrame s' 0 False),
                                    saReset := True\<rparr>), s'))
      else if func = 2
      then (if length (sfUserData frame) \<noteq> 0 then (Inl TestHasData, s)
            else handleConfirmedPrimary s (sfControl frame) [] False)
      else if func = 3
      then (if length (sfUserData frame) = 0 then (Inl ConfirmedFrameEmpty, s)
            else handleConfirmedPrimary s (sfControl frame) (sfUserData frame) True)
      else if func = 4
      then (if length (sfUserData frame) = 0 then (Inl UnconfirmedFrameEmpty, s)
            else (Inr (no_action\<lparr>saUserData := sfUserData frame\<rparr>), s))
      else if func = 9
      then (if length (sfUserData frame) \<noteq> 0 then (Inl StatusRequestHasData, s)
            else (Inr (no_action\<lparr>saResponse := Some (secondaryFrame s 11 False),
                                 saLinkStatus := True\<rparr>), s))
      else (Inr (no_action\<lparr>saResponse := Some (secondaryFrame s 15 False),
                           saNotSupported := True\<rparr>), s))"

definition handleSecondary ::
  "StrictState \<Rightarrow> StrictFrame \<Rightarrow> (strict_err + StrictAction) \<times> StrictState" where
  "handleSecondary s frame =
     (if length (sfUserData frame) \<noteq> 0 then (Inl SecondaryHasData, s)
      else if pending s = None then (Inl UnexpectedResponse, s)
      else let func = sfControl frame AND CtrlFuncMask;
               action = no_action\<lparr>saDataFlowControl := (sfControl frame AND CtrlFCV \<noteq> 0)\<rparr>;
               done = s\<lparr>pending := None, pendingFn := 0\<rparr>
           in
      if func = 0
      then (if pendingFn s \<noteq> 0 \<and> pendingFn s \<noteq> 2 \<and> pendingFn s \<noteq> 3
            then (Inl (AckMismatch (pendingFn s)), s)
            else (Inr (action\<lparr>saAcknowledged := True\<rparr>),
                  if pendingFn s = 0 then done\<lparr>ready := True, nextSendFCB := True\<rparr>
                  else if pendingFn s = 3 then done\<lparr>nextSendFCB := \<not> nextSendFCB s\<rparr>
                  else done))
      else if func = 1 then (Inr (action\<lparr>saNegativeAcknowledgement := True\<rparr>), s)
      else if func = 11
      then (if pendingFn s \<noteq> 9 then (Inl (StatusMismatch (pendingFn s)), s)
            else (Inr (action\<lparr>saLinkStatus := True\<rparr>), done))
      else if func = 15 then (Inr (action\<lparr>saNotSupported := True\<rparr>), done)
      else (Inl (UnsupportedSecondary func), s))"

definition Handle ::
  "StrictState \<Rightarrow> StrictFrame \<Rightarrow> (strict_err + StrictAction) \<times> StrictState" where
  "Handle s frame =
     (if sfDestination frame \<noteq> localAddress s \<or> sfSource frame \<noteq> remoteAddress s
      then (Inl AddressMismatch, s)
      else (case validateStrictControl (sfControl frame) of
              Some err \<Rightarrow> (Inl err, s)
            | None \<Rightarrow>
                let remoteIsMaster = (sfControl frame AND CtrlDIR \<noteq> 0) in
                if remoteIsMaster = localIsMaster s then (Inl DirectionMismatch, s)
                else if sfControl frame AND CtrlPRM \<noteq> 0 then handlePrimary s frame
                else handleSecondary s frame))"

lemmas handle_defs = Handle_def handlePrimary_def handleConfirmedPrimary_def handleSecondary_def

lemmas start_defs = StartReset_def StartConfirmed_def StartLinkStatus_def startPending_def
  Unconfirmed_def Retransmission_def

section \<open>Frames a state sends\<close>

text \<open>
  A frame of \<open>s\<close>: addressed from the local to the remote station, carrying the local role
  in its direction bit, and encodable.
\<close>

definition sendable :: "StrictState \<Rightarrow> StrictFrame \<Rightarrow> bool" where
  "sendable s f \<longleftrightarrow> sfDestination f = remoteAddress s \<and> sfSource f = localAddress s
    \<and> (sfControl f AND CtrlDIR \<noteq> 0) = localIsMaster s
    \<and> validateStrictControl (sfControl f) = None \<and> length (sfUserData f) \<le> MaxDataSize"

definition resp_ok :: "StrictState \<Rightarrow> StrictAction \<Rightarrow> bool" where
  "resp_ok s a \<longleftrightarrow> (case saResponse a of None \<Rightarrow> True | Some f \<Rightarrow> sendable s f)"

lemma primaryControl_funcs:
  "primaryControl s 0 False False = (if localIsMaster s then 0xC0 else 0x40)"
  "primaryControl s 3 b True = (if localIsMaster s then (if b then 0xF3 else 0xD3)
     else (if b then 0x73 else 0x53))"
  "primaryControl s 4 False False = (if localIsMaster s then 0xC4 else 0x44)"
  "primaryControl s 9 False False = (if localIsMaster s then 0xC9 else 0x49)"
  by (simp_all add: primaryControl_def)

lemma secondaryFrame_funcs:
  "sfControl (secondaryFrame s 0 False) = (if localIsMaster s then 0x80 else 0x00)"
  "sfControl (secondaryFrame s 1 False) = (if localIsMaster s then 0x81 else 0x01)"
  "sfControl (secondaryFrame s 11 False) = (if localIsMaster s then 0x8B else 0x0B)"
  "sfControl (secondaryFrame s 15 False) = (if localIsMaster s then 0x8F else 0x0F)"
  by (simp_all add: secondaryFrame_def)

lemma secondaryFrame_sel [simp]:
  "sfDestination (secondaryFrame s func dfc) = remoteAddress s"
  "sfSource (secondaryFrame s func dfc) = localAddress s"
  "sfUserData (secondaryFrame s func dfc) = []"
  by (simp_all add: secondaryFrame_def Let_def)

lemma sendable_secondary [simp]:
  "sendable s (secondaryFrame s 0 False)" "sendable s (secondaryFrame s 1 False)"
  "sendable s (secondaryFrame s 11 False)" "sendable s (secondaryFrame s 15 False)"
  by (simp_all add: sendable_def secondaryFrame_funcs validateStrictControl_def)

lemma sendable_primary:
  assumes "sfDestination f = remoteAddress s" and "sfSource f = localAddress s"
    and "length (sfUserData f) \<le> 250"
    and "sfControl f = primaryControl s 0 False False \<or> sfControl f = primaryControl s 3 b True
      \<or> sfControl f = primaryControl s 4 False False \<or> sfControl f = primaryControl s 9 False False"
  shows "sendable s f"
  using assms
  by (auto simp: sendable_def primaryControl_funcs validateStrictControl_def split: if_splits)

lemma sendable_encodes: "sendable s f \<Longrightarrow> \<exists>w. EncodeStrictFrame f = Inr w"
  by (rule EncodeStrictFrame_ok) (auto simp: sendable_def)

lemma resp_ok_simps [simp]:
  "resp_ok s no_action"
  "resp_ok s (a\<lparr>saResponse := r\<rparr>) = (case r of None \<Rightarrow> True | Some f \<Rightarrow> sendable s f)"
  "resp_ok s (a\<lparr>saUserData := d\<rparr>) = resp_ok s a"
  "resp_ok s (a\<lparr>saReset := b\<rparr>) = resp_ok s a"
  "resp_ok s (a\<lparr>saDuplicate := b\<rparr>) = resp_ok s a"
  "resp_ok s (a\<lparr>saAcknowledged := b\<rparr>) = resp_ok s a"
  "resp_ok s (a\<lparr>saNegativeAcknowledgement := b\<rparr>) = resp_ok s a"
  "resp_ok s (a\<lparr>saLinkStatus := b\<rparr>) = resp_ok s a"
  "resp_ok s (a\<lparr>saNotSupported := b\<rparr>) = resp_ok s a"
  "resp_ok s (a\<lparr>saDataFlowControl := b\<rparr>) = resp_ok s a"
  by (simp_all add: resp_ok_def no_action_def)

section \<open>The invariant\<close>

text \<open>
  Without a pending request \<open>pendingFn\<close> is 0. A pending request is a reset (the link is then
  not ready, and the next frame count bit is set), confirmed data with the frame count bit of
  \<open>nextSendFCB\<close> (the link is then ready), or a link status request.
\<close>

definition pending_frame :: "StrictState \<Rightarrow> byte \<Rightarrow> StrictFrame \<Rightarrow> bool" where
  "pending_frame s control f \<longleftrightarrow> sfControl f = control \<and> sfDestination f = remoteAddress s
     \<and> sfSource f = localAddress s"

definition ss_inv :: "StrictState \<Rightarrow> bool" where
  "ss_inv s \<longleftrightarrow>
     (case pending s of
        None \<Rightarrow> pendingFn s = 0
      | Some f \<Rightarrow>
          pendingFn s = 0 \<and> \<not> ready s \<and> nextSendFCB s
            \<and> pending_frame s (primaryControl s 0 False False) f \<and> sfUserData f = []
          \<or> pendingFn s = 3 \<and> ready s \<and> sfUserData f \<noteq> [] \<and> length (sfUserData f) \<le> MaxDataSize
            \<and> pending_frame s (primaryControl s 3 (nextSendFCB s) True) f
          \<or> pendingFn s = 9 \<and> pending_frame s (primaryControl s 9 False False) f
            \<and> sfUserData f = [])"

lemma primaryControl_cong [simp]:
  "primaryControl (s\<lparr>ready := a\<rparr>) = primaryControl s"
  "primaryControl (s\<lparr>nextSendFCB := a\<rparr>) = primaryControl s"
  "primaryControl (s\<lparr>expectedFCB := a\<rparr>) = primaryControl s"
  "primaryControl (s\<lparr>pending := p\<rparr>) = primaryControl s"
  "primaryControl (s\<lparr>pendingFn := n\<rparr>) = primaryControl s"
  by (auto simp: primaryControl_def fun_eq_iff)

lemma secondaryFrame_MarkReset [simp]: "secondaryFrame (MarkReset s) = secondaryFrame s"
  by (auto simp: secondaryFrame_def MarkReset_def fun_eq_iff)

lemma ss_inv_New: "ss_inv (NewStrictState local remote m)"
  by (simp add: ss_inv_def NewStrictState_def)

lemma ss_inv_MarkReset: "ss_inv (MarkReset s)"
  by (simp add: ss_inv_def MarkReset_def)

lemma ss_inv_None: "pending s = None \<Longrightarrow> pendingFn s = 0 \<Longrightarrow> ss_inv s"
  by (simp add: ss_inv_def)

lemma ss_inv_expected [simp]: "ss_inv (s\<lparr>expectedFCB := b\<rparr>) = ss_inv s"
  by (simp add: ss_inv_def pending_frame_def split: option.split)

lemma ss_inv_StartReset: "ss_inv s \<Longrightarrow> ss_inv (snd (StartReset s))"
  by (auto simp: StartReset_def startPending_def Let_def)
    (simp add: ss_inv_def pending_frame_def)

lemma ss_inv_StartConfirmed: "ss_inv s \<Longrightarrow> ss_inv (snd (StartConfirmed s d))"
  by (auto simp: StartConfirmed_def startPending_def Let_def)
    (simp add: ss_inv_def pending_frame_def)

lemma ss_inv_StartLinkStatus: "ss_inv s \<Longrightarrow> ss_inv (snd (StartLinkStatus s))"
  by (auto simp: StartLinkStatus_def startPending_def Let_def)
    (simp add: ss_inv_def pending_frame_def)

lemma ss_inv_handlePrimary: "ss_inv s \<Longrightarrow> ss_inv (snd (handlePrimary s f))"
  by (simp add: handlePrimary_def handleConfirmedPrimary_def Let_def ss_inv_MarkReset)

lemma ss_inv_handleSecondary: "ss_inv s \<Longrightarrow> ss_inv (snd (handleSecondary s f))"
  by (simp add: handleSecondary_def Let_def ss_inv_None)

lemma ss_inv_Handle: "ss_inv s \<Longrightarrow> ss_inv (snd (Handle s f))"
  by (simp add: Handle_def Let_def ss_inv_handlePrimary ss_inv_handleSecondary split: option.splits)

lemmas ss_inv_intros = ss_inv_New ss_inv_MarkReset ss_inv_StartReset ss_inv_StartConfirmed
  ss_inv_StartLinkStatus ss_inv_Handle

section \<open>What an operation sends\<close>

lemma start_sendable:
  "StartReset s = (Inr f, s') \<Longrightarrow> sendable s f"
  "StartConfirmed s d = (Inr f, s') \<Longrightarrow> sendable s f"
  "StartLinkStatus s = (Inr f, s') \<Longrightarrow> sendable s f"
  "Unconfirmed s d = Inr f \<Longrightarrow> sendable s f"
  by (auto simp: start_defs Let_def split: if_splits intro!: sendable_primary)

lemma ss_inv_sendable: "ss_inv s \<Longrightarrow> pending s = Some f \<Longrightarrow> sendable s f"
  by (rule sendable_primary) (auto simp: ss_inv_def pending_frame_def)

lemma Retransmission_sendable: "ss_inv s \<Longrightarrow> Retransmission s = Inr f \<Longrightarrow> sendable s f"
  by (auto simp: Retransmission_def split: option.splits dest: ss_inv_sendable)

lemma Handle_resp_ok: "Handle s f = (Inr a, s') \<Longrightarrow> resp_ok s a"
  by (auto simp: handle_defs Let_def split: if_splits option.splits)

section \<open>Errors\<close>

lemma Handle_error: "Handle s f = (Inl e, s') \<Longrightarrow> s' = s"
  by (auto simp: handle_defs Let_def split: if_splits option.splits)

lemma start_error:
  "StartReset s = (Inl e, s') \<Longrightarrow> s' = s"
  "StartConfirmed s d = (Inl e, s') \<Longrightarrow> s' = s"
  "StartLinkStatus s = (Inl e, s') \<Longrightarrow> s' = s"
  by (auto simp: start_defs Let_def split: if_splits)

text \<open>No operation touches the addresses and the role.\<close>

definition same_link :: "StrictState \<Rightarrow> StrictState \<Rightarrow> bool" where
  "same_link s s' \<longleftrightarrow> localAddress s' = localAddress s \<and> remoteAddress s' = remoteAddress s
    \<and> localIsMaster s' = localIsMaster s"

lemma same_link_ops:
  "same_link s (MarkReset s)" "same_link s (snd (StartReset s))"
  "same_link s (snd (StartConfirmed s d))" "same_link s (snd (StartLinkStatus s))"
  "same_link s (snd (Handle s f))"
  by (auto simp: same_link_def MarkReset_def start_defs handle_defs Let_def split: option.splits)

text \<open>Two ends of one link.\<close>

definition peers :: "StrictState \<Rightarrow> StrictState \<Rightarrow> bool" where
  "peers s p \<longleftrightarrow> localAddress p = remoteAddress s \<and> remoteAddress p = localAddress s
    \<and> localIsMaster p = (\<not> localIsMaster s)"

lemma Handle_sendable:
  assumes "peers s p" and "sendable s f"
  shows "Handle p f = (if sfControl f AND CtrlPRM \<noteq> 0 then handlePrimary p f else handleSecondary p f)"
  using assms by (auto simp: Handle_def peers_def sendable_def Let_def)

section \<open>The responder as a receiver of confirmed frames\<close>

text \<open>A confirmed frame is new if it is neither refused nor taken for a duplicate.\<close>

definition strict_new :: "StrictState \<Rightarrow> bool \<Rightarrow> bool \<times> StrictState" where
  "strict_new s b =
     (case handleConfirmedPrimary s (primaryControl s 3 b True) [] True of
        (Inl _, s') \<Rightarrow> (False, s')
      | (Inr act, s') \<Rightarrow> (\<not> saDuplicate act \<and> \<not> saNegativeAcknowledgement act, s'))"

definition strict_synced :: "StrictState \<Rightarrow> bool \<Rightarrow> bool" where
  "strict_synced s b \<longleftrightarrow> ready s \<and> expectedFCB s = b"

definition strict_took :: "StrictState \<Rightarrow> bool \<Rightarrow> bool" where
  "strict_took s b \<longleftrightarrow> ready s \<and> expectedFCB s = (\<not> b)"

lemma primaryControl_FCB: "primaryControl s 3 b True AND 0x20 = 0 \<longleftrightarrow> \<not> b"
  by (simp add: primaryControl_funcs)

interpretation strict_fcb: fcb_receiver strict_new strict_synced strict_took
  by unfold_locales
    (auto simp: strict_new_def strict_synced_def strict_took_def handleConfirmedPrimary_def
      no_action_def primaryControl_FCB Let_def)

lemma MarkReset_synced: "strict_synced (MarkReset s) True"
  by (simp add: strict_synced_def MarkReset_def)

text \<open>After a reset the messages of an alternating sender are taken once each.\<close>

lemma strict_reset_exactly_once:
  "fst (fcb_receive strict_new (MarkReset s) (transmissions True ms)) = map fst ms"
  by (rule strict_fcb.exactly_once [OF MarkReset_synced])

section \<open>Runs of one station\<close>

text \<open>
  A run of one station: any sequence of operations, with whatever frames the other side
  sends, and the frames the station puts on the wire.
\<close>

inductive strict_run :: "StrictState \<Rightarrow> StrictFrame list \<Rightarrow> StrictState \<Rightarrow> bool" where
  run_refl: "strict_run s [] s"
| run_reset: "strict_run s out t \<Longrightarrow> StartReset t = (Inr f, u) \<Longrightarrow> strict_run s (out @ [f]) u"
| run_confirmed:
    "strict_run s out t \<Longrightarrow> StartConfirmed t d = (Inr f, u) \<Longrightarrow> strict_run s (out @ [f]) u"
| run_status: "strict_run s out t \<Longrightarrow> StartLinkStatus t = (Inr f, u) \<Longrightarrow> strict_run s (out @ [f]) u"
| run_unconfirmed: "strict_run s out t \<Longrightarrow> Unconfirmed t d = Inr f \<Longrightarrow> strict_run s (out @ [f]) t"
| run_again: "strict_run s out t \<Longrightarrow> Retransmission t = Inr f \<Longrightarrow> strict_run s (out @ [f]) t"
| run_mark: "strict_run s out t \<Longrightarrow> strict_run s out (MarkReset t)"
| run_handle:
    "strict_run s out t \<Longrightarrow> Handle t g = (Inr a, u) \<Longrightarrow>
      strict_run s (out @ (case saResponse a of None \<Rightarrow> [] | Some f \<Rightarrow> [f])) u"

lemma same_link_trans: "same_link s t \<Longrightarrow> same_link t u \<Longrightarrow> same_link s u"
  by (simp add: same_link_def)

lemma sendable_same_link: "same_link s t \<Longrightarrow> sendable t f = sendable s f"
  by (simp add: same_link_def sendable_def)

lemma resp_ok_same_link: "same_link s t \<Longrightarrow> resp_ok t a = resp_ok s a"
  by (simp add: resp_ok_def sendable_same_link split: option.split)

lemma strict_run_inv:
  assumes "strict_run s out t" and "ss_inv s"
  shows "ss_inv t \<and> same_link s t \<and> list_all (sendable s) out"
  using assms
proof (induction rule: strict_run.induct)
  case (run_refl s)
  then show ?case by (simp add: same_link_def)
next
  case (run_reset s out t f u)
  then show ?case
    using ss_inv_StartReset [of t] same_link_ops(2) [of t] start_sendable(1) [of t f u]
    by (auto simp: sendable_same_link intro: same_link_trans)
next
  case (run_confirmed s out t d f u)
  then show ?case
    using ss_inv_StartConfirmed [of t d] same_link_ops(3) [of t d] start_sendable(2) [of t d f u]
    by (auto simp: sendable_same_link intro: same_link_trans)
next
  case (run_status s out t f u)
  then show ?case
    using ss_inv_StartLinkStatus [of t] same_link_ops(4) [of t] start_sendable(3) [of t f u]
    by (auto simp: sendable_same_link intro: same_link_trans)
next
  case (run_unconfirmed s out t d f)
  then show ?case using start_sendable(4) [of t d f] by (auto simp: sendable_same_link)
next
  case (run_again s out t f)
  then show ?case using Retransmission_sendable [of t f] by (auto simp: sendable_same_link)
next
  case (run_mark s out t)
  then show ?case using same_link_ops(1) [of t] by (auto simp: ss_inv_MarkReset intro: same_link_trans)
next
  case (run_handle s out t g a u)
  then show ?case
    using ss_inv_Handle [of t g] same_link_ops(5) [of t g] Handle_resp_ok [of t g a u]
    by (auto simp: resp_ok_same_link [of s t] resp_ok_def [of s a] intro: same_link_trans
        split: option.splits)
qed

section \<open>Properties\<close>

text \<open>
  C32: whatever the operations and the frames received, a link state that started fresh
  keeps its pending request consistent with its flags and never changes its addresses or
  role, and every frame it ever sends carries its addresses and direction and is encoded by
  the strict codec without an error.
\<close>

theorem strict_state_sound:
  assumes "strict_run (NewStrictState local remote m) out s"
  shows "ss_inv s \<and> same_link (NewStrictState local remote m) s
    \<and> (\<forall>f\<in>set out. sendable s f \<and> is_ok (EncodeStrictFrame f))"
proof -
  let ?s = "NewStrictState local remote m"
  have inv: "ss_inv s" "same_link ?s s" "list_all (sendable ?s) out"
    using strict_run_inv [OF assms ss_inv_New] by auto
  have "sendable s f \<and> is_ok (EncodeStrictFrame f)" if "f \<in> set out" for f
  proof -
    have "sendable s f" using that inv(2,3) by (auto simp: list_all_iff sendable_same_link)
    moreover from this obtain w where "EncodeStrictFrame f = Inr w"
      using sendable_encodes by blast
    ultimately show ?thesis by simp
  qed
  with inv show ?thesis by blast
qed

theorem strict_state_sound_witness:
  "\<exists>f s. StartReset (NewStrictState 1 10 True) = (Inr f, s) \<and> ss_inv s \<and> sendable s f
    \<and> is_ok (EncodeStrictFrame f)"
proof -
  let ?n = "NewStrictState 1 10 True"
  obtain f s where s: "StartReset ?n = (Inr f, s)"
    by (simp add: StartReset_def startPending_def NewStrictState_def Let_def)
  have "strict_run ?n ([] @ [f]) s" by (rule run_reset [OF run_refl s])
  from strict_state_sound [OF this] s show ?thesis by auto
qed

text \<open>
  An operation that returns an error leaves the link state exactly as it was.
\<close>

theorem strict_error_no_change:
  "(case Handle s f of (Inl e, s') \<Rightarrow> s' = s | _ \<Rightarrow> True)
    \<and> (case StartReset s of (Inl e, s') \<Rightarrow> s' = s | _ \<Rightarrow> True)
    \<and> (case StartConfirmed s d of (Inl e, s') \<Rightarrow> s' = s | _ \<Rightarrow> True)
    \<and> (case StartLinkStatus s of (Inl e, s') \<Rightarrow> s' = s | _ \<Rightarrow> True)"
  by (auto split: prod.split sum.split dest: Handle_error start_error)

lemma Handle_duplicate:
  assumes "Handle s f = (Inr a, s')" and "sfControl f AND 0x4F = 0x43" and "ready s"
  shows "\<exists>b. Handle s' f = (Inr b, s') \<and> saDuplicate b \<and> saUserData b = []
    \<and> saResponse b = saResponse a \<and> saResponse a = Some (secondaryFrame s 0 False)"
proof -
  have bits: "sfControl f AND 0x0F = 3" "sfControl f AND 0x40 \<noteq> 0"
    using assms(2) by (auto simp: byte_eq_iff bit_simps)
  have ok: "sfDestination f = localAddress s" "sfSource f = remoteAddress s"
    "validateStrictControl (sfControl f) = None"
    "(sfControl f AND 0x80 \<noteq> 0) \<noteq> localIsMaster s" "sfUserData f \<noteq> []"
    using assms(1) by (auto simp: Handle_def handlePrimary_def bits Let_def
        split: if_splits option.splits)
  have eq: "Handle t f = handleConfirmedPrimary t (sfControl f) (sfUserData f) True"
    if "same_link s t" for t
    using that ok(1-3,5) bits ok(4)
    by (simp add: Handle_def handlePrimary_def same_link_def Let_def)
  have a: "handleConfirmedPrimary s (sfControl f) (sfUserData f) True = (Inr a, s')"
    using assms(1) eq [of s] by (simp add: same_link_def)
  have sec: "secondaryFrame (s\<lparr>expectedFCB := e\<rparr>) = secondaryFrame s" for e
    by (auto simp: secondaryFrame_def fun_eq_iff)
  show ?thesis
  proof (cases "(sfControl f AND 0x20 \<noteq> 0) = expectedFCB s")
    case True
    then have s': "s' = s\<lparr>expectedFCB := \<not> expectedFCB s\<rparr>"
      "saResponse a = Some (secondaryFrame s 0 False)"
      using a assms(3) by (auto simp: handleConfirmedPrimary_def Let_def)
    then have "Handle s' f = handleConfirmedPrimary s' (sfControl f) (sfUserData f) True"
      by (intro eq) (simp add: same_link_def)
    then show ?thesis
      using True assms(3) s' by (simp add: handleConfirmedPrimary_def sec no_action_def)
  next
    case False
    then have s': "s' = s" "saResponse a = Some (secondaryFrame s 0 False)" "saDuplicate a"
      "saUserData a = []"
      using a assms(3) by (auto simp: handleConfirmedPrimary_def no_action_def Let_def)
    with assms(1) show ?thesis by auto
  qed
qed

text \<open>
  A confirmed data frame is delivered once however often it arrives. If a ready state
  hands the data of a frame to the user, the next arrival of the same frame is acknowledged
  again as a duplicate, delivers nothing and changes nothing.
\<close>

theorem strict_duplicate_filtered:
  assumes "Handle s f = (Inr a, s')" and "sfControl f AND 0x4F = 0x43" and "ready s"
  shows "\<exists>b. Handle s' f = (Inr b, s') \<and> saDuplicate b \<and> saUserData b = []
    \<and> saResponse b = saResponse a \<and> saResponse a = Some (secondaryFrame s 0 False)"
  using assms by (rule Handle_duplicate)

abbreviation sample_ready :: StrictState where
  "sample_ready \<equiv> MarkReset (NewStrictState 10 1 False)"

abbreviation sample_confirmed :: StrictFrame where
  "sample_confirmed \<equiv>
     \<lparr>sfControl = 0xF3, sfDestination = 10, sfSource = 1, sfUserData = [0xC0, 0x01]\<rparr>"

lemma Handle_sample:
  "Handle sample_ready sample_confirmed =
    (Inr (no_action\<lparr>saResponse := Some (secondaryFrame sample_ready 0 False),
                    saUserData := [0xC0, 0x01]\<rparr>), sample_ready\<lparr>expectedFCB := False\<rparr>)"
  by (simp add: handle_defs validateStrictControl_def MarkReset_def NewStrictState_def Let_def)

theorem strict_duplicate_filtered_witness:
  "\<exists>b. Handle (sample_ready\<lparr>expectedFCB := False\<rparr>) sample_confirmed
      = (Inr b, sample_ready\<lparr>expectedFCB := False\<rparr>)
    \<and> saDuplicate b \<and> saUserData b = []"
  using strict_duplicate_filtered [OF Handle_sample] by (auto simp: MarkReset_def)

text \<open>
  A pending request blocks the primary side. While a request is pending, whatever its
  age, none of the three requests can be started, and only a matching response, a received
  reset or \<open>MarkReset\<close> clears it: \<open>Handle\<close> leaves it pending after a negative
  acknowledgement, and there is no operation that gives it up.
\<close>

theorem strict_pending_blocks:
  assumes "pending s \<noteq> None"
  shows "StartReset s = (Inl ErrStrictRequestPending, s)
    \<and> StartLinkStatus s = (Inl ErrStrictRequestPending, s)
    \<and> is_ok (fst (StartConfirmed s d)) = False \<and> snd (StartConfirmed s d) = s
    \<and> (Handle s f = (Inr a, s') \<and> sfControl f AND 0x4F = 0x01 \<longrightarrow> s' = s)"
proof -
  have "s' = s" if "Handle s f = (Inr a, s')" "sfControl f AND 0x4F = 0x01"
  proof -
    have bits: "sfControl f AND 0x0F = 1" "sfControl f AND 0x40 = 0"
      using that(2) by (auto simp: byte_eq_iff bit_simps)
    show ?thesis
      using that(1) by (auto simp: Handle_def handleSecondary_def bits Let_def
          split: if_splits option.splits)
  qed
  then show ?thesis using assms by (simp add: start_defs)
qed

theorem strict_pending_blocks_witness:
  "StartReset (snd (StartReset (NewStrictState 1 10 True)))
    = (Inl ErrStrictRequestPending, snd (StartReset (NewStrictState 1 10 True)))"
proof -
  have "pending (snd (StartReset (NewStrictState 1 10 True))) \<noteq> None"
    by (simp add: StartReset_def startPending_def NewStrictState_def Let_def)
  from strict_pending_blocks [OF this] show ?thesis by blast
qed

end
