(* ===== verification/Link_Strict_Pair.thy ===== *)
theory Link_Strict_Pair
  imports Link_Strict_State
begin

text \<open>
  Two link states of \<open>pkg/link/strict_state.go\<close> at the ends of one connection: one station
  starts transactions, retransmits and handles responses, the other handles its frames and
  answers. The connection is a FIFO in each direction (the strict channel runs on one
  stream); responses may be lost, and every interleaving of the steps is allowed. The
  station's user data is delivered in order and exactly once, although requests are
  retransmitted at any time and responses are not matched to requests by any number.
\<close>

unbundle bit_operations_syntax

section \<open>What the peer does with a request\<close>

definition request :: "StrictState \<Rightarrow> StrictFrame \<Rightarrow> bool" where
  "request a f \<longleftrightarrow> sfDestination f = remoteAddress a \<and> sfSource f = localAddress a
    \<and> (sfControl f = primaryControl a 0 False False \<and> sfUserData f = []
      \<or> (\<exists>b. sfControl f = primaryControl a 3 b True) \<and> sfUserData f \<noteq> []
      \<or> sfControl f = primaryControl a 4 False False \<and> sfUserData f \<noteq> []
      \<or> sfControl f = primaryControl a 9 False False \<and> sfUserData f = [])"

lemma Handle_reset:
  assumes "peers a b" and "pending_frame a (primaryControl a 0 False False) f" and "sfUserData f = []"
  shows "Handle b f = (Inr (no_action\<lparr>saResponse := Some (secondaryFrame b 0 False),
    saReset := True\<rparr>), MarkReset b)"
  using assms
  by (auto simp: Handle_def handlePrimary_def peers_def pending_frame_def primaryControl_funcs
      validateStrictControl_def split: if_splits)

lemma Handle_confirmed:
  assumes "peers a b" and "pending_frame a (primaryControl a 3 fcb True) f" and "sfUserData f \<noteq> []"
  shows "Handle b f = handleConfirmedPrimary b (sfControl f) (sfUserData f) True"
    and "(sfControl f AND 0x20 \<noteq> 0) = fcb"
  using assms
  by (auto simp: Handle_def handlePrimary_def peers_def pending_frame_def primaryControl_funcs
      validateStrictControl_def split: if_splits)

lemma Handle_unconfirmed:
  assumes "peers a b" and "pending_frame a (primaryControl a 4 False False) f"
    and "sfUserData f \<noteq> []"
  shows "Handle b f = (Inr (no_action\<lparr>saUserData := sfUserData f\<rparr>), b)"
  using assms
  by (auto simp: Handle_def handlePrimary_def peers_def pending_frame_def primaryControl_funcs
      validateStrictControl_def split: if_splits)

lemma Handle_status:
  assumes "peers a b" and "pending_frame a (primaryControl a 9 False False) f" and "sfUserData f = []"
  shows "Handle b f = (Inr (no_action\<lparr>saResponse := Some (secondaryFrame b 11 False),
    saLinkStatus := True\<rparr>), b)"
  using assms
  by (auto simp: Handle_def handlePrimary_def peers_def pending_frame_def primaryControl_funcs
      validateStrictControl_def split: if_splits)

lemma request_cases:
  assumes "request a f"
  obtains "pending_frame a (primaryControl a 0 False False) f" "sfUserData f = []"
  | fcb where "pending_frame a (primaryControl a 3 fcb True) f" "sfUserData f \<noteq> []"
  | "pending_frame a (primaryControl a 4 False False) f" "sfUserData f \<noteq> []"
  | "pending_frame a (primaryControl a 9 False False) f" "sfUserData f = []"
  using assms by (auto simp: request_def pending_frame_def)

text \<open>A response is an ACK, a NACK or a link status.\<close>

definition response :: "StrictFrame \<Rightarrow> bool" where
  "response f \<longleftrightarrow> sfControl f AND 0x4F = 0x00 \<or> sfControl f AND 0x4F = 0x01
    \<or> sfControl f AND 0x4F = 0x0B"

lemma response_secondary [simp]:
  "response (secondaryFrame s 0 False)" "response (secondaryFrame s 1 False)"
  "response (secondaryFrame s 11 False)"
  by (simp_all add: response_def secondaryFrame_funcs)

lemma same_link_expected [simp]: "same_link b (b\<lparr>expectedFCB := e\<rparr>)" "same_link b b"
  by (simp_all add: same_link_def)

lemma Handle_request:
  assumes "peers a b" and "request a f"
  shows "\<exists>act b'. Handle b f = (Inr act, b') \<and> same_link b b'
    \<and> (case saResponse act of None \<Rightarrow> True | Some r \<Rightarrow> response r)"
  using assms(2)
proof (cases rule: request_cases)
  case 1
  then show ?thesis using Handle_reset [OF assms(1)] same_link_ops(1) by (simp add: no_action_def)
next
  case (2 fcb)
  then show ?thesis
    using Handle_confirmed [OF assms(1)]
    by (simp add: handleConfirmedPrimary_def no_action_def Let_def)
next
  case 3
  then show ?thesis using Handle_unconfirmed [OF assms(1)] by (simp add: no_action_def)
next
  case 4
  then show ?thesis using Handle_status [OF assms(1)] by (simp add: no_action_def)
qed

section \<open>The pair\<close>

record link_pair =
  initiator :: StrictState
  responder :: StrictState
  requests :: "StrictFrame list"
  responses :: "StrictFrame list"
  submitted :: "bytes list"
  delivered :: "bytes list"

definition user_data :: "StrictAction \<Rightarrow> bytes list" where
  "user_data act = (if saUserData act = [] then [] else [saUserData act])"

definition response_frames :: "StrictAction \<Rightarrow> StrictFrame list" where
  "response_frames act = (case saResponse act of None \<Rightarrow> [] | Some f \<Rightarrow> [f])"

inductive pair_step :: "link_pair \<Rightarrow> link_pair \<Rightarrow> bool" where
  step_reset: "StartReset (initiator p) = (Inr f, a) \<Longrightarrow>
    pair_step p (p\<lparr>initiator := a, requests := requests p @ [f]\<rparr>)"
| step_confirmed: "StartConfirmed (initiator p) d = (Inr f, a) \<Longrightarrow>
    pair_step p (p\<lparr>initiator := a, requests := requests p @ [f], submitted := submitted p @ [d]\<rparr>)"
| step_unconfirmed: "Unconfirmed (initiator p) d = Inr f \<Longrightarrow>
    pair_step p (p\<lparr>requests := requests p @ [f], submitted := submitted p @ [d]\<rparr>)"
| step_status: "StartLinkStatus (initiator p) = (Inr f, a) \<Longrightarrow>
    pair_step p (p\<lparr>initiator := a, requests := requests p @ [f]\<rparr>)"
| step_again: "Retransmission (initiator p) = Inr f \<Longrightarrow>
    pair_step p (p\<lparr>requests := requests p @ [f]\<rparr>)"
| step_respond: "requests p = f # fs \<Longrightarrow> Handle (responder p) f = (Inr act, b) \<Longrightarrow>
    pair_step p (p\<lparr>responder := b, requests := fs, responses := responses p @ response_frames act,
      delivered := delivered p @ user_data act\<rparr>)"
| step_accept: "responses p = f # fs \<Longrightarrow> Handle (initiator p) f = (Inr act, a) \<Longrightarrow>
    pair_step p (p\<lparr>initiator := a, responses := fs\<rparr>)"
| step_lose: "responses p = f # fs \<Longrightarrow> pair_step p (p\<lparr>responses := fs\<rparr>)"

definition new_pair :: "u16 \<Rightarrow> u16 \<Rightarrow> bool \<Rightarrow> link_pair" where
  "new_pair local remote m =
     \<lparr>initiator = NewStrictState local remote m, responder = NewStrictState remote local (\<not> m),
      requests = [], responses = [], submitted = [], delivered = []\<rparr>"

section \<open>The invariant\<close>

text \<open>
  \<open>drain b fs\<close> is what the responder would still deliver from the requests under way, and
  the state it would end in. Delivered data together with what is under way is what was
  submitted, and the state after the last request under way expects the frame count bit
  the initiator will send next.
\<close>

fun drain :: "StrictState \<Rightarrow> StrictFrame list \<Rightarrow> bytes list \<times> StrictState" where
  "drain b [] = ([], b)"
| "drain b (f # fs) =
     (case Handle b f of
        (Inl e, b') \<Rightarrow> drain b' fs
      | (Inr act, b') \<Rightarrow> (case drain b' fs of (ds, c) \<Rightarrow> (user_data act @ ds, c)))"

definition in_step :: "StrictState \<Rightarrow> StrictState \<Rightarrow> bool" where
  "in_step a b \<longleftrightarrow>
     (if pending a \<noteq> None \<and> pendingFn a = 0 then ready b \<and> expectedFCB b
      else if pending a \<noteq> None \<and> pendingFn a = 3
        then ready b \<and> expectedFCB b = (\<not> nextSendFCB a)
      else ready a \<longrightarrow> ready b \<and> expectedFCB b = nextSendFCB a)"

definition pair_inv :: "link_pair \<Rightarrow> bool" where
  "pair_inv p \<longleftrightarrow> ss_inv (initiator p) \<and> peers (initiator p) (responder p)
    \<and> list_all (request (initiator p)) (requests p) \<and> list_all response (responses p)
    \<and> (case drain (responder p) (requests p) of (ds, c) \<Rightarrow>
         delivered p @ ds = submitted p \<and> in_step (initiator p) c)"

lemma peers_same_link: "peers a b \<Longrightarrow> same_link a a' \<Longrightarrow> same_link b b' \<Longrightarrow> peers a' b'"
  by (auto simp: peers_def same_link_def)

lemma request_same_link: "same_link a a' \<Longrightarrow> request a' = request a"
  by (simp add: request_def same_link_def primaryControl_def fun_eq_iff)

lemma drain_snoc:
  "drain b (fs @ [f]) = (case drain b fs of (ds, c) \<Rightarrow>
     (case Handle c f of (Inl e, c') \<Rightarrow> (ds, c') | (Inr act, c') \<Rightarrow> (ds @ user_data act, c')))"
  by (induction b fs rule: drain.induct) (auto split: prod.split sum.split)

lemma drain_same_link: "same_link b (snd (drain b fs))"
proof (induction b fs rule: drain.induct)
  case (1 b)
  then show ?case by simp
next
  case (2 b f fs)
  then show ?case
    using same_link_ops(5) [of b f]
    by (auto split: prod.split sum.split intro: same_link_trans)
qed

text \<open>A request that the initiator adds moves the state behind the last request in step.\<close>

lemma start_request:
  "StartReset a = (Inr f, a') \<Longrightarrow> request a f \<and> pending_frame a (primaryControl a 0 False False) f
     \<and> sfUserData f = [] \<and> pending a' = Some f \<and> pendingFn a' = 0"
  "StartConfirmed a d = (Inr f, a') \<Longrightarrow> request a f
     \<and> pending_frame a (primaryControl a 3 (nextSendFCB a) True) f \<and> sfUserData f = d \<and> d \<noteq> []
     \<and> ready a \<and> pending a = None \<and> a' = a\<lparr>pending := Some f, pendingFn := 3\<rparr>"
  "StartLinkStatus a = (Inr f, a') \<Longrightarrow> request a f
     \<and> pending_frame a (primaryControl a 9 False False) f
     \<and> sfUserData f = [] \<and> pending a = None \<and> a' = a\<lparr>pending := Some f, pendingFn := 9\<rparr>"
  "Unconfirmed a d = Inr f \<Longrightarrow> request a f \<and> pending_frame a (primaryControl a 4 False False) f
     \<and> sfUserData f = d \<and> d \<noteq> []"
  by (auto simp: start_defs request_def pending_frame_def Let_def split: if_splits)

lemma in_step_reset: "pending a' = Some f \<Longrightarrow> pendingFn a' = 0 \<Longrightarrow> in_step a' (MarkReset b)"
  by (simp add: in_step_def MarkReset_def)

lemma user_data_simps [simp]:
  "user_data no_action = []" "user_data (a\<lparr>saResponse := r\<rparr>) = user_data a"
  "user_data (a\<lparr>saReset := b\<rparr>) = user_data a" "user_data (a\<lparr>saDuplicate := b\<rparr>) = user_data a"
  "user_data (a\<lparr>saLinkStatus := b\<rparr>) = user_data a"
  "user_data (a\<lparr>saUserData := d\<rparr>) = (if d = [] then [] else [d])"
  by (simp_all add: user_data_def no_action_def)

lemma drain_add:
  assumes "peers a b" and "drain b fs = (ds, c)"
  shows "pending_frame a (primaryControl a 0 False False) f \<Longrightarrow> sfUserData f = [] \<Longrightarrow>
      drain b (fs @ [f]) = (ds, MarkReset c)"
    and "pending_frame a (primaryControl a 3 fcb True) f \<Longrightarrow> sfUserData f \<noteq> [] \<Longrightarrow> ready c \<Longrightarrow>
      drain b (fs @ [f]) = (if fcb = expectedFCB c
        then (ds @ [sfUserData f], c\<lparr>expectedFCB := \<not> fcb\<rparr>) else (ds, c))"
    and "pending_frame a (primaryControl a 4 False False) f \<Longrightarrow> sfUserData f \<noteq> [] \<Longrightarrow>
      drain b (fs @ [f]) = (ds @ [sfUserData f], c)"
    and "pending_frame a (primaryControl a 9 False False) f \<Longrightarrow> sfUserData f = [] \<Longrightarrow>
      drain b (fs @ [f]) = (ds, c)"
proof -
  have c: "peers a c"
    using drain_same_link [of b fs] assms by (auto simp: peers_def same_link_def)
  show "pending_frame a (primaryControl a 0 False False) f \<Longrightarrow> sfUserData f = [] \<Longrightarrow>
      drain b (fs @ [f]) = (ds, MarkReset c)"
    by (simp add: drain_snoc assms(2) Handle_reset [OF c])
  show "pending_frame a (primaryControl a 4 False False) f \<Longrightarrow> sfUserData f \<noteq> [] \<Longrightarrow>
      drain b (fs @ [f]) = (ds @ [sfUserData f], c)"
    by (simp add: drain_snoc assms(2) Handle_unconfirmed [OF c])
  show "pending_frame a (primaryControl a 9 False False) f \<Longrightarrow> sfUserData f = [] \<Longrightarrow>
      drain b (fs @ [f]) = (ds, c)"
    by (simp add: drain_snoc assms(2) Handle_status [OF c])
  show "pending_frame a (primaryControl a 3 fcb True) f \<Longrightarrow> sfUserData f \<noteq> [] \<Longrightarrow> ready c \<Longrightarrow>
      drain b (fs @ [f]) = (if fcb = expectedFCB c
        then (ds @ [sfUserData f], c\<lparr>expectedFCB := \<not> fcb\<rparr>) else (ds, c))"
    using Handle_confirmed [OF c, of fcb f]
    by (auto simp: drain_snoc assms(2) handleConfirmedPrimary_def Let_def)
qed

lemma Handle_ack:
  assumes "peers b a" and "pending a \<noteq> None"
  shows "pendingFn a = 0 \<Longrightarrow> Handle a (secondaryFrame b 0 False)
      = (Inr (no_action\<lparr>saAcknowledged := True\<rparr>),
         a\<lparr>pending := None, pendingFn := 0, ready := True, nextSendFCB := True\<rparr>)"
    and "pendingFn a = 3 \<Longrightarrow> Handle a (secondaryFrame b 0 False)
      = (Inr (no_action\<lparr>saAcknowledged := True\<rparr>),
         a\<lparr>pending := None, pendingFn := 0, nextSendFCB := \<not> nextSendFCB a\<rparr>)"
  using assms
  by (simp_all add: Handle_def handleSecondary_def peers_def secondaryFrame_funcs
      validateStrictControl_def no_action_def)

section \<open>The invariant is preserved\<close>

lemma in_step_response:
  assumes "Handle a f = (Inr act, a')" and "response f" and "ss_inv a" and "in_step a c"
  shows "in_step a' c"
proof -
  have prm: "sfControl f AND 0x40 = 0"
    and func: "sfControl f AND 0x0F = 0 \<or> sfControl f AND 0x0F = 1 \<or> sfControl f AND 0x0F = 11"
    using assms(2) by (auto simp: response_def byte_eq_iff bit_simps)
  have h: "handleSecondary a f = (Inr act, a')"
    using assms(1) prm by (auto simp: Handle_def Let_def split: if_splits option.splits)
  have p: "pending a \<noteq> None" "pendingFn a = 0 \<or> pendingFn a = 3 \<or> pendingFn a = 9"
    "pendingFn a = 3 \<Longrightarrow> ready a"
    using h assms(3) by (auto simp: handleSecondary_def ss_inv_def split: if_splits option.splits)
  from func show ?thesis
  proof (elim disjE)
    assume "sfControl f AND 0x0F = 0"
    then show ?thesis using h p assms(4)
      by (auto simp: handleSecondary_def in_step_def Let_def split: if_splits)
  next
    assume "sfControl f AND 0x0F = 1"
    then show ?thesis using h assms(4)
      by (auto simp: handleSecondary_def Let_def split: if_splits)
  next
    assume "sfControl f AND 0x0F = 11"
    then show ?thesis using h p assms(4)
      by (auto simp: handleSecondary_def in_step_def Let_def split: if_splits)
  qed
qed

lemma pair_inv_new: "pair_inv (new_pair local remote m)"
  by (simp add: pair_inv_def new_pair_def ss_inv_New in_step_def)
    (simp add: peers_def NewStrictState_def)

lemma pair_inv_send:
  assumes inv: "pair_inv p" and "same_link (initiator p) a" and "ss_inv a"
    and "request (initiator p) f"
    and "\<And>ds c. drain (responder p) (requests p) = (ds, c) \<Longrightarrow> in_step (initiator p) c \<Longrightarrow>
      \<exists>c'. drain (responder p) (requests p @ [f]) = (ds @ new, c') \<and> in_step a c'"
  shows "pair_inv (p\<lparr>initiator := a, requests := requests p @ [f], submitted := submitted p @ new\<rparr>)"
proof -
  have peers: "peers a (responder p)"
    using inv assms(2) by (auto simp: pair_inv_def intro: peers_same_link)
  have req: "list_all (request a) (requests p @ [f])"
    using inv assms(2,4) by (simp add: pair_inv_def request_same_link)
  obtain ds c where "drain (responder p) (requests p) = (ds, c)" by fastforce
  with inv assms(5) [of ds c] show ?thesis
    using assms(3) peers req by (auto simp: pair_inv_def)
qed

lemma pair_upd_id [simp]: "p\<lparr>submitted := submitted p\<rparr> = p" "p\<lparr>initiator := initiator p\<rparr> = p"
  for p :: link_pair
  by simp_all

lemma pair_inv_respond:
  assumes inv: "pair_inv p" and "requests p = f # fs" and "Handle (responder p) f = (Inr act, b)"
  shows "pair_inv (p\<lparr>responder := b, requests := fs, responses := responses p @ response_frames act,
      delivered := delivered p @ user_data act\<rparr>)"
proof -
  have "peers (initiator p) (responder p)" "request (initiator p) f"
    using inv assms(2) by (auto simp: pair_inv_def)
  from Handle_request [OF this] have "same_link (responder p) b"
    "list_all response (response_frames act)"
    using assms(3) by (auto simp: response_frames_def split: option.split)
  moreover have "same_link (initiator p) (initiator p)" by simp
  ultimately show ?thesis
    using inv assms(2,3)
    by (auto simp: pair_inv_def intro: peers_same_link split: prod.splits)
qed

lemma pair_inv_accept:
  assumes inv: "pair_inv p" and "responses p = f # fs" and "Handle (initiator p) f = (Inr act, a)"
  shows "pair_inv (p\<lparr>initiator := a, responses := fs\<rparr>)"
proof -
  have "same_link (initiator p) a" "ss_inv a"
    using same_link_ops(5) [of "initiator p" f] ss_inv_Handle [of "initiator p" f] assms
    by (auto simp: pair_inv_def)
  moreover have "in_step a c" if "in_step (initiator p) c" for c
    using in_step_response [OF assms(3)] that inv assms(2) by (simp add: pair_inv_def)
  ultimately show ?thesis
    using inv assms(2) peers_same_link [of "initiator p" "responder p" a "responder p"]
    by (auto simp: pair_inv_def request_same_link list_all_iff)
qed

lemma pair_inv_step: "pair_step p q \<Longrightarrow> pair_inv p \<Longrightarrow> pair_inv q"
proof (induction rule: pair_step.induct)
  case (step_reset p f a)
  note f = start_request(1) [OF step_reset(1)]
  have "pair_inv (p\<lparr>initiator := a, requests := requests p @ [f], submitted := submitted p @ []\<rparr>)"
  proof (rule pair_inv_send)
    show "same_link (initiator p) a" "ss_inv a"
      using same_link_ops(2) [of "initiator p"] ss_inv_StartReset [of "initiator p"] step_reset
      by (auto simp: pair_inv_def)
  next
    fix ds c
    assume "drain (responder p) (requests p) = (ds, c)"
    then have "drain (responder p) (requests p @ [f]) = (ds, MarkReset c)"
      using drain_add(1) step_reset(2) f by (auto simp: pair_inv_def)
    then show "\<exists>c'. drain (responder p) (requests p @ [f]) = (ds @ [], c') \<and> in_step a c'"
      using in_step_reset f by auto
  qed (use step_reset f in auto)
  then show ?case by simp
next
  case (step_confirmed p d f a)
  note f = start_request(2) [OF step_confirmed(1)]
  show ?case
  proof (rule pair_inv_send)
    show "same_link (initiator p) a" "ss_inv a"
      using same_link_ops(3) [of "initiator p" d] ss_inv_StartConfirmed [of "initiator p" d]
        step_confirmed by (auto simp: pair_inv_def)
  next
    fix ds c
    assume c: "drain (responder p) (requests p) = (ds, c)" "in_step (initiator p) c"
    then have "ready c" "expectedFCB c = nextSendFCB (initiator p)"
      using f by (auto simp: in_step_def)
    moreover from this have "drain (responder p) (requests p @ [f])
        = (ds @ [d], c\<lparr>expectedFCB := \<not> nextSendFCB (initiator p)\<rparr>)"
      using drain_add(2) [OF _ c(1)] step_confirmed(2) f by (auto simp: pair_inv_def)
    ultimately show "\<exists>c'. drain (responder p) (requests p @ [f]) = (ds @ [d], c') \<and> in_step a c'"
      using f by (auto simp: in_step_def)
  qed (use step_confirmed f in auto)
next
  case (step_unconfirmed p d f)
  note f = start_request(4) [OF step_unconfirmed(1)]
  have "pair_inv (p\<lparr>initiator := initiator p, requests := requests p @ [f],
      submitted := submitted p @ [d]\<rparr>)"
  proof (rule pair_inv_send)
    fix ds c
    assume "drain (responder p) (requests p) = (ds, c)" "in_step (initiator p) c"
    then show "\<exists>c'. drain (responder p) (requests p @ [f]) = (ds @ [d], c')
        \<and> in_step (initiator p) c'"
      using drain_add(3) step_unconfirmed(2) f by (auto simp: pair_inv_def)
  qed (use step_unconfirmed f in \<open>auto simp: pair_inv_def\<close>)
  then show ?case by simp
next
  case (step_status p f a)
  note f = start_request(3) [OF step_status(1)]
  have "pair_inv (p\<lparr>initiator := a, requests := requests p @ [f], submitted := submitted p @ []\<rparr>)"
  proof (rule pair_inv_send)
    show "same_link (initiator p) a" "ss_inv a"
      using same_link_ops(4) [of "initiator p"] ss_inv_StartLinkStatus [of "initiator p"] step_status
      by (auto simp: pair_inv_def)
  next
    fix ds c
    assume c: "drain (responder p) (requests p) = (ds, c)" "in_step (initiator p) c"
    then have "in_step a c" using f by (simp add: in_step_def)
    then show "\<exists>c'. drain (responder p) (requests p @ [f]) = (ds @ [], c') \<and> in_step a c'"
      using drain_add(4) c step_status(2) f by (auto simp: pair_inv_def)
  qed (use step_status f in auto)
  then show ?case by simp
next
  case (step_again p f)
  let ?a = "initiator p"
  have f: "pending ?a = Some f" using step_again(1) by (simp add: Retransmission_def split: option.splits)
  have inv: "ss_inv ?a" "peers ?a (responder p)" using step_again(2) by (auto simp: pair_inv_def)
  consider (reset) "pendingFn ?a = 0" "pending_frame ?a (primaryControl ?a 0 False False) f"
      "sfUserData f = []"
    | (data) "pendingFn ?a = 3" "pending_frame ?a (primaryControl ?a 3 (nextSendFCB ?a) True) f"
      "sfUserData f \<noteq> []"
    | (status) "pendingFn ?a = 9" "pending_frame ?a (primaryControl ?a 9 False False) f"
      "sfUserData f = []"
    using inv(1) f by (auto simp: ss_inv_def)
  note kinds = this
  have "pair_inv (p\<lparr>initiator := ?a, requests := requests p @ [f], submitted := submitted p @ []\<rparr>)"
  proof (rule pair_inv_send)
    show "request ?a f"
      using kinds by cases (auto simp: request_def pending_frame_def)
  next
    fix ds c
    assume c: "drain (responder p) (requests p) = (ds, c)" "in_step ?a c"
    note add = drain_add [OF inv(2) c(1)]
    from kinds show "\<exists>c'. drain (responder p) (requests p @ [f]) = (ds @ [], c') \<and> in_step ?a c'"
    proof cases
      case reset
      then show ?thesis using add(1) in_step_reset [OF f] by auto
    next
      case data
      then have "ready c" "expectedFCB c = (\<not> nextSendFCB ?a)" using c(2) f by (auto simp: in_step_def)
      then show ?thesis using data add(2) c(2) by auto
    next
      case status
      then show ?thesis using add(4) c(2) by auto
    qed
  qed (use step_again in \<open>auto simp: pair_inv_def\<close>)
  then show ?case by simp
next
  case (step_respond p f fs act b)
  then show ?case by (intro pair_inv_respond)
next
  case (step_accept p f fs act a)
  then show ?case by (intro pair_inv_accept)
next
  case (step_lose p f fs)
  then show ?case by (simp add: pair_inv_def)
qed

lemma pair_inv_reachable: "pair_step\<^sup>*\<^sup>* (new_pair local remote m) p \<Longrightarrow> pair_inv p"
  by (induction rule: rtranclp_induct) (auto simp: pair_inv_new pair_inv_step)

section \<open>Properties\<close>

text \<open>
  C1: over a FIFO connection that may lose responses, with requests retransmitted at any
  time, the user data the responder has delivered is always a prefix of the data submitted,
  in order and each exactly once; when no request is under way everything submitted has
  been delivered; and the responder never refuses a request of the initiator.
\<close>

theorem strict_exactly_once:
  assumes "pair_step\<^sup>*\<^sup>* (new_pair local remote m) p"
  shows "\<exists>rest. submitted p = delivered p @ rest
    \<and> (requests p = [] \<longrightarrow> rest = [])
    \<and> (requests p \<noteq> [] \<longrightarrow> is_ok (fst (Handle (responder p) (hd (requests p)))))"
proof -
  have inv: "pair_inv p" using assms by (rule pair_inv_reachable)
  let ?rest = "fst (drain (responder p) (requests p))"
  have "submitted p = delivered p @ ?rest" using inv by (auto simp: pair_inv_def split: prod.splits)
  moreover have "is_ok (fst (Handle (responder p) (hd (requests p))))" if ne: "requests p \<noteq> []"
  proof -
    have "request (initiator p) (hd (requests p))" "peers (initiator p) (responder p)"
      using inv ne by (auto simp: pair_inv_def neq_Nil_conv)
    then show ?thesis using Handle_request by fastforce
  qed
  ultimately show ?thesis by (intro exI [of _ ?rest]) auto
qed

theorem strict_exactly_once_witness:
  "\<exists>p :: link_pair. submitted p = [[7]] \<and> requests p = [] \<and> delivered p = [[7]]"
proof -
  let ?u = "\<lparr>sfControl = 0xC4, sfDestination = 10, sfSource = 1, sfUserData = [7]\<rparr>"
  let ?p = "(new_pair 1 10 True)\<lparr>requests := [?u], submitted := [[7]]\<rparr>"
  have 1: "pair_step (new_pair 1 10 True) ?p"
    using step_unconfirmed [of "new_pair 1 10 True" "[7]" ?u]
    by (simp add: new_pair_def Unconfirmed_def NewStrictState_def primaryControl_def)
  have "Handle (responder ?p) ?u = (Inr (no_action\<lparr>saUserData := sfUserData ?u\<rparr>), responder ?p)"
    by (rule Handle_unconfirmed [of "initiator ?p"])
      (simp_all add: new_pair_def NewStrictState_def peers_def pending_frame_def primaryControl_def)
  from step_respond [OF _ this, of "[]"]
  have 2: "pair_step ?p (?p\<lparr>requests := [], delivered := [[7]]\<rparr>)"
    by (simp add: new_pair_def response_frames_def no_action_def user_data_def)
  have "pair_step\<^sup>*\<^sup>* (new_pair 1 10 True) (?p\<lparr>requests := [], delivered := [[7]]\<rparr>)"
    by (rule rtranclp_trans [OF r_into_rtranclp [of pair_step, OF 1] r_into_rtranclp [of pair_step, OF 2]])
  from strict_exactly_once [OF this] show ?thesis
    by - (rule exI [of _ "?p\<lparr>requests := [], delivered := [[7]]\<rparr>"], auto)
qed

text \<open>
  Exactly-once delivery does not survive a reset for the station that is reset. Once a
  station has received an odd number of confirmed frames and then resets the link, both
  ends agree that the link is ready, yet its peer restarts with the frame count bit set
  while the station still expects it clear: the peer's next confirmed data is discarded as
  a duplicate and acknowledged, and the peer takes it for delivered.
\<close>

theorem strict_reset_loses_data:
  assumes "peers a b" and "pending a = None" and "\<not> expectedFCB a"
    and "d \<noteq> []" and "length d \<le> MaxDataSize"
  shows "\<exists>f a1 ra b1 r aa a2 g b2 act k ka b3.
    StartReset a = (Inr f, a1) \<and> Handle b f = (Inr ra, b1) \<and> saResponse ra = Some r
    \<and> Handle a1 r = (Inr aa, a2) \<and> saAcknowledged aa \<and> ready a2
    \<and> StartConfirmed b1 d = (Inr g, b2) \<and> Handle a2 g = (Inr act, a2)
    \<and> saUserData act = [] \<and> saDuplicate act \<and> saResponse act = Some k
    \<and> Handle b2 k = (Inr ka, b3) \<and> saAcknowledged ka \<and> pending b3 = None"
proof -
  define f where "f = \<lparr>sfControl = primaryControl a 0 False False,
    sfDestination = remoteAddress a, sfSource = localAddress a, sfUserData = []\<rparr>"
  define a1 where "a1 = a\<lparr>ready := False, nextSendFCB := True, pending := Some f, pendingFn := 0\<rparr>"
  define a2 where "a2 = a1\<lparr>pending := None, pendingFn := 0, ready := True, nextSendFCB := True\<rparr>"
  define g where "g = \<lparr>sfControl = primaryControl b 3 True True,
    sfDestination = remoteAddress b, sfSource = localAddress b, sfUserData = d\<rparr>"
  define b2 where "b2 = (MarkReset b)\<lparr>pending := Some g, pendingFn := 3\<rparr>"
  have link: "peers b a1" "peers b a2" "peers a2 b2"
    using assms(1) by (auto simp: peers_def a1_def a2_def b2_def MarkReset_def)
  have 1: "StartReset a = (Inr f, a1)"
    using assms(2) by (simp add: StartReset_def startPending_def f_def a1_def Let_def)
  have 2: "Handle b f = (Inr (no_action\<lparr>saResponse := Some (secondaryFrame b 0 False),
      saReset := True\<rparr>), MarkReset b)"
    by (rule Handle_reset [OF assms(1)]) (simp_all add: f_def pending_frame_def)
  have 3: "Handle a1 (secondaryFrame b 0 False) = (Inr (no_action\<lparr>saAcknowledged := True\<rparr>), a2)"
    unfolding a2_def by (rule Handle_ack(1) [OF link(1)]) (simp_all add: a1_def)
  have 4: "StartConfirmed (MarkReset b) d = (Inr g, b2)"
    using assms(4,5)
    by (simp add: StartConfirmed_def startPending_def g_def b2_def MarkReset_def
        primaryControl_def Let_def)
  have "Handle a2 g = handleConfirmedPrimary a2 (sfControl g) (sfUserData g) True"
    "(sfControl g AND 0x20 \<noteq> 0) = True"
    using Handle_confirmed [OF link(2), of True g] assms(4) by (simp_all add: g_def pending_frame_def)
  then have 5: "Handle a2 g = (Inr (no_action\<lparr>saResponse := Some (secondaryFrame a2 0 False),
      saDuplicate := True\<rparr>), a2)"
    using assms(3) by (simp add: handleConfirmedPrimary_def a2_def a1_def)
  have 6: "Handle b2 (secondaryFrame a2 0 False) = (Inr (no_action\<lparr>saAcknowledged := True\<rparr>),
      b2\<lparr>pending := None, pendingFn := 0, nextSendFCB := \<not> nextSendFCB b2\<rparr>)"
    by (rule Handle_ack(2) [OF link(3)]) (simp_all add: b2_def)
  have r: "ready a2" by (simp add: a2_def)
  show ?thesis
    apply (rule exI [of _ f], rule exI [of _ a1], rule exI, rule exI [of _ "MarkReset b"],
        rule exI [of _ "secondaryFrame b 0 False"], rule exI, rule exI [of _ a2],
        rule exI [of _ g], rule exI [of _ b2], rule exI, rule exI [of _ "secondaryFrame a2 0 False"],
        rule exI, rule exI)
    apply (intro conjI)
    apply (rule 1, rule 2, simp, rule 3, simp, rule r, rule 4, rule 5)
    apply (simp_all add: no_action_def)
    apply (rule 6 [unfolded no_action_def])
    apply simp_all
    done
qed

theorem strict_reset_loses_data_witness:
  "\<exists>act g a2. ready (a2 :: StrictState) \<and> Handle a2 g = (Inr act, a2) \<and> saDuplicate act
    \<and> saUserData act = []"
proof -
  let ?a = "(NewStrictState 1 10 True)\<lparr>expectedFCB := False\<rparr>" and ?b = "NewStrictState 10 1 False"
  have "peers ?a ?b" "pending ?a = None" "\<not> expectedFCB ?a" "[7] \<noteq> ([] :: bytes)"
    "length ([7] :: bytes) \<le> MaxDataSize"
    by (simp_all add: peers_def NewStrictState_def)
  from strict_reset_loses_data [OF this] show ?thesis by blast
qed

end
