(* ===== verification/Link_Strict_Channel.thy ===== *)
theory Link_Strict_Channel
  imports Link_Strict_State
begin

text \<open>
  \<open>pkg/link/strict_channel.go\<close>: one link state driven over one stream connection, with
  bounded retries. The world outside is the sequence of what the calls of the connection
  and of the context return: reads, writes, deadlines and polls of \<open>ctx.Err()\<close>. A timeout is
  a read that fails with \<open>IOTimeout\<close>, a cancelled context a poll that answers with its
  error (and from then on every poll does). The user data handler is a function from the
  data to its error. An operation returns its error, or none, and the state and the world
  after it; the loop over incoming frames is shown to terminate because every frame takes
  bytes off the stream.
\<close>

unbundle bit_operations_syntax

section \<open>The world of a channel\<close>

text \<open>
  \<open>Accepts n\<close> is a call of \<open>Write\<close> that returns \<open>n\<close> and no error; when the sequence is used
  up, writes accept everything and deadlines are set without an error.
\<close>

datatype write_event = Accepts int | WriteFails io_err

datatype ctx_err = Canceled | DeadlineExceeded

record link_io =
  ioReads :: "read_event list"
  ioWrites :: "write_event list"
  ioDeadlines :: "io_err option list"
  ioPolls :: "ctx_err option list"
  ioSent :: bytes
  ioHanded :: "bytes list"

definition poll :: "link_io \<Rightarrow> ctx_err option \<times> link_io" where
  "poll io =
     (case ioPolls io of
        [] \<Rightarrow> (None, io)
      | Some c # _ \<Rightarrow> (Some c, io)
      | None # ps \<Rightarrow> (None, io\<lparr>ioPolls := ps\<rparr>))"

definition set_deadline :: "link_io \<Rightarrow> io_err option \<times> link_io" where
  "set_deadline io =
     (case ioDeadlines io of [] \<Rightarrow> (None, io) | r # rs \<Rightarrow> (r, io\<lparr>ioDeadlines := rs\<rparr>))"

section \<open>Writing a frame\<close>

datatype write_err = WriterRequired | EncodeErr strict_err | WriteErr io_err

fun write_all :: "bytes \<Rightarrow> write_event list \<Rightarrow> write_err option \<times> bytes \<times> write_event list" where
  "write_all encoded [] = (None, encoded, [])"
| "write_all encoded (ev # evs) =
     (if encoded = [] then (None, [], ev # evs)
      else (case ev of
              WriteFails e \<Rightarrow> (Some (WriteErr e), [], evs)
            | Accepts n \<Rightarrow>
                if n \<le> 0 \<or> n > int (length encoded) then (Some (WriteErr ShortWrite), [], evs)
                else (case write_all (drop (nat n) encoded) evs of
                        (r, out, evs') \<Rightarrow> (r, take (nat n) encoded @ out, evs'))))"

definition WriteStrictFrame :: "StrictFrame \<Rightarrow> link_io \<Rightarrow> write_err option \<times> link_io" where
  "WriteStrictFrame frame io =
     (case EncodeStrictFrame frame of
        Inl err \<Rightarrow> (Some (EncodeErr err), io)
      | Inr encoded \<Rightarrow>
          (case write_all encoded (ioWrites io) of
             (r, out, evs) \<Rightarrow> (r, io\<lparr>ioWrites := evs, ioSent := ioSent io @ out\<rparr>)))"

section \<open>Errors of the channel\<close>

datatype last_err = NoLastErr | LastRead strict_err | NegativelyAcknowledged

datatype chan_err =
    ErrStrictChannelBusy
  | ConnectionRequired
  | StateRequired
  | TimeoutNotPositive
  | RetriesNegative
  | StateErr strict_err
  | Cancelled ctx_err
  | DeadlineErr io_err
  | WritingErr write_err
  | ReadingErr strict_err
  | HandlingErr nat
  | RequestFailed nat last_err

definition isStrictTimeout :: "strict_err \<Rightarrow> bool" where
  "isStrictTimeout e \<longleftrightarrow> e = ReadErr IOTimeout \<or> e = ReadingLinkData IOTimeout"

definition normalizeIOError :: "chan_err \<Rightarrow> link_io \<Rightarrow> chan_err \<times> link_io" where
  "normalizeIOError err io =
     (case poll io of (Some c, io') \<Rightarrow> (Cancelled c, io') | (None, io') \<Rightarrow> (err, io'))"

definition installCancellation :: "link_io \<Rightarrow> chan_err option \<times> link_io" where
  "installCancellation io =
     (case poll io of (Some c, io') \<Rightarrow> (Some (Cancelled c), io') | (None, io') \<Rightarrow> (None, io'))"

text \<open>The deferred function of \<open>installCancellation\<close> clears the deadline and ignores the error.\<close>

definition cleanup :: "link_io \<Rightarrow> link_io" where
  "cleanup io = snd (set_deadline io)"

definition setOperationDeadline :: "link_io \<Rightarrow> chan_err option \<times> link_io" where
  "setOperationDeadline io =
     (case set_deadline io of
        (Some e, io') \<Rightarrow> (Some (DeadlineErr e), io')
      | (None, io') \<Rightarrow> (None, io'))"

section \<open>Every frame read takes bytes off the stream\<close>

definition stream_size :: "read_event list \<Rightarrow> nat" where
  "stream_size evs =
     sum_list (map (\<lambda>e. Suc (case e of Arrives bs \<Rightarrow> length bs | ReadFails _ \<Rightarrow> 0)) evs)"

lemma stream_size_simps [simp]:
  "stream_size [] = 0" "stream_size (Arrives bs # evs) = Suc (length bs) + stream_size evs"
  "stream_size (ReadFails e # evs) = Suc (stream_size evs)"
  by (simp_all add: stream_size_def)

lemma read_full_size:
  "read_full n got evs = (r, evs') \<Longrightarrow>
    stream_size evs' \<le> stream_size evs \<and> (is_ok r \<and> length got < n \<longrightarrow> stream_size evs' < stream_size evs)"
proof (induction n got evs arbitrary: r evs' rule: read_full.induct)
  case (1 n got)
  then show ?case by (auto split: if_splits)
next
  case (2 n got bs evs)
  show ?case
  proof (cases "n \<le> length got \<or> \<not> length bs \<le> n - length got")
    case True
    with 2(2) show ?thesis by (auto split: if_splits)
  next
    case False
    then have "read_full n (got @ bs) evs = (r, evs')" using 2(2) by simp
    with 2(1) False show ?thesis by fastforce
  qed
next
  case (3 n got e evs)
  then show ?case by (auto split: if_splits)
qed

lemma read_strict_frame_size:
  assumes "read_strict_frame evs = (Inr f, evs')"
  shows "stream_size evs' < stream_size evs"
proof -
  obtain h evs1 where 1: "read_full 10 [] evs = (Inr h, evs1)"
    using assms by (auto simp: read_strict_frame_def split: prod.splits sum.splits)
  then have "stream_size evs1 < stream_size evs" using read_full_size [OF 1] by simp
  moreover have "stream_size evs' \<le> stream_size evs1"
    using assms 1
    by (auto simp: read_strict_frame_def Let_def dest!: read_full_size
        split: prod.splits sum.splits if_splits)
  ultimately show ?thesis by simp
qed

section \<open>The transaction loop\<close>

type_synonym handler = "(bytes \<Rightarrow> nat option) option"

definition send_response :: "StrictAction \<Rightarrow> link_io \<Rightarrow> chan_err option \<times> link_io" where
  "send_response act io =
     (case saResponse act of
        None \<Rightarrow> (None, io)
      | Some f \<Rightarrow>
          (case WriteStrictFrame f io of
             (None, io') \<Rightarrow> (None, io')
           | (Some e, io') \<Rightarrow>
               (case normalizeIOError (WritingErr e) io' of (c, io'') \<Rightarrow> (Some c, io''))))"

definition hand_over :: "handler \<Rightarrow> StrictAction \<Rightarrow> link_io \<Rightarrow> chan_err option \<times> link_io" where
  "hand_over handler act io =
     (if length (saUserData act) = 0 then (None, io)
      else (case handler of
              None \<Rightarrow> (None, io)
            | Some h \<Rightarrow>
                let io' = io\<lparr>ioHanded := ioHanded io @ [saUserData act]\<rparr>
                in (case h (saUserData act) of
                      None \<Rightarrow> (None, io')
                    | Some e \<Rightarrow> (Some (HandlingErr e), io'))))"

text \<open>
  The inner loop of \<open>transact\<close>: it returns from \<open>transact\<close> with an error or with none, or
  leaves the loop for the next attempt with the error to report should it be the last.
\<close>

datatype outcome = Returns "chan_err option" | NextAttempt last_err

function await ::
  "(StrictAction \<Rightarrow> bool) \<Rightarrow> handler \<Rightarrow> StrictState \<Rightarrow> link_io \<Rightarrow> outcome \<times> StrictState \<times> link_io" where
  "await complete handler s io =
     (case read_strict_frame (ioReads io) of
        (Inl readErr, evs) \<Rightarrow>
          (case poll (io\<lparr>ioReads := evs\<rparr>) of
             (Some c, io1) \<Rightarrow> (Returns (Some (Cancelled c)), s, io1)
           | (None, io1) \<Rightarrow>
               if isStrictTimeout readErr then (NextAttempt (LastRead readErr), s, io1)
               else (Returns (Some (ReadingErr readErr)), s, io1))
      | (Inr incoming, evs) \<Rightarrow>
          (case Handle s incoming of
             (Inl handleErr, s1) \<Rightarrow> (Returns (Some (StateErr handleErr)), s1, io\<lparr>ioReads := evs\<rparr>)
           | (Inr act, s1) \<Rightarrow>
               (case send_response act (io\<lparr>ioReads := evs\<rparr>) of
                  (Some e, io1) \<Rightarrow> (Returns (Some e), s1, io1)
                | (None, io1) \<Rightarrow>
                    (case hand_over handler act io1 of
                       (Some e, io2) \<Rightarrow> (Returns (Some e), s1, io2)
                     | (None, io2) \<Rightarrow>
                         if complete act then (Returns None, s1, io2)
                         else if saNegativeAcknowledgement act
                         then (NextAttempt NegativelyAcknowledged, s1, io2)
                         else await complete handler s1 io2))))"
  by pat_completeness auto

lemma send_response_reads: "send_response act io = (r, io') \<Longrightarrow> ioReads io' = ioReads io"
  by (auto simp: send_response_def WriteStrictFrame_def normalizeIOError_def poll_def
      split: option.splits prod.splits sum.splits list.splits)

lemma hand_over_reads: "hand_over handler act io = (r, io') \<Longrightarrow> ioReads io' = ioReads io"
  by (auto simp: hand_over_def Let_def split: option.splits if_splits)

termination await
  by (relation "measure (\<lambda>(complete, handler, s, io). stream_size (ioReads io))")
    (auto dest!: read_strict_frame_size [OF sym] send_response_reads [OF sym] hand_over_reads [OF sym])

declare await.simps [simp del]

text \<open>
  The outer loop: \<open>attempt\<close> counts up to \<open>maximumRetries\<close>, \<open>left\<close> is what remains of it. From
  the second attempt on the frame is what \<open>Retransmission\<close> returns.
\<close>

fun attempt_loop ::
  "nat \<Rightarrow> nat \<Rightarrow> (StrictAction \<Rightarrow> bool) \<Rightarrow> handler \<Rightarrow> StrictFrame \<Rightarrow> last_err \<Rightarrow> StrictState \<Rightarrow> link_io
    \<Rightarrow> chan_err option \<times> StrictState \<times> link_io" where
  "attempt_loop attempt 0 complete handler frame lastErr s io =
     (Some (RequestFailed attempt lastErr), s, io)"
| "attempt_loop attempt (Suc left) complete handler frame lastErr s io =
     (case (if attempt > 0 then Retransmission s else Inr frame) of
        Inl err \<Rightarrow> (Some (StateErr err), s, io)
      | Inr frame' \<Rightarrow>
          (case setOperationDeadline io of
             (Some e, io1) \<Rightarrow> (Some e, s, io1)
           | (None, io1) \<Rightarrow>
               (case WriteStrictFrame frame' io1 of
                  (Some e, io2) \<Rightarrow>
                    (case normalizeIOError (WritingErr e) io2 of (c, io3) \<Rightarrow> (Some c, s, io3))
                | (None, io2) \<Rightarrow>
                    (case await complete handler s io2 of
                       (Returns r, s1, io3) \<Rightarrow> (r, s1, io3)
                     | (NextAttempt e, s1, io3) \<Rightarrow>
                         attempt_loop (Suc attempt) left complete handler frame' e s1 io3))))"

section \<open>Operations\<close>

text \<open>
  \<open>chConnected\<close> says whether the connection is non-nil; \<open>None\<close> is a nil state. The busy flag
  is set for the time of an operation; an operation that finds it set fails at once.
\<close>

record StrictChannel =
  chConnected :: bool
  chState :: "StrictState option"
  chResponseTimeout :: int
  chMaximumRetries :: int
  chBusy :: bool

definition NewStrictChannel :: "bool \<Rightarrow> StrictState option \<Rightarrow> int \<Rightarrow> int \<Rightarrow> StrictChannel" where
  "NewStrictChannel connected st timeout retries =
     \<lparr>chConnected = connected, chState = st, chResponseTimeout = timeout,
      chMaximumRetries = retries, chBusy = False\<rparr>"

definition acquire :: "StrictChannel \<Rightarrow> chan_err option \<times> StrictChannel" where
  "acquire c = (if chBusy c then (Some ErrStrictChannelBusy, c) else (None, c\<lparr>chBusy := True\<rparr>))"

definition release :: "StrictChannel \<Rightarrow> StrictChannel" where
  "release c = c\<lparr>chBusy := False\<rparr>"

definition chan_validate :: "StrictChannel \<Rightarrow> chan_err + StrictState" where
  "chan_validate c =
     (if \<not> chConnected c then Inl ConnectionRequired
      else (case chState c of
              None \<Rightarrow> Inl StateRequired
            | Some s \<Rightarrow>
                if chResponseTimeout c \<le> 0 then Inl TimeoutNotPositive
                else if chMaximumRetries c < 0 then Inl RetriesNegative
                else Inr s))"

definition transact ::
  "StrictChannel \<Rightarrow> StrictFrame \<Rightarrow> handler \<Rightarrow> (StrictAction \<Rightarrow> bool) \<Rightarrow> StrictState \<Rightarrow> link_io
    \<Rightarrow> chan_err option \<times> StrictState \<times> link_io" where
  "transact c first handler complete s io =
     (case installCancellation io of
        (Some e, io1) \<Rightarrow> (Some e, s, io1)
      | (None, io1) \<Rightarrow>
          (case attempt_loop 0 (Suc (nat (chMaximumRetries c))) complete handler first NoLastErr s io1 of
             (r, s1, io2) \<Rightarrow> (r, s1, cleanup io2)))"

text \<open>What the operations share: acquire, the deferred release, and \<open>validate\<close>.\<close>

definition chan_op ::
  "StrictChannel \<Rightarrow> link_io
    \<Rightarrow> (StrictState \<Rightarrow> (strict_err + StrictFrame) \<times> StrictState)
    \<Rightarrow> (StrictFrame \<Rightarrow> StrictState \<Rightarrow> link_io \<Rightarrow> chan_err option \<times> StrictState \<times> link_io)
    \<Rightarrow> chan_err option \<times> StrictChannel \<times> link_io" where
  "chan_op c io start body =
     (case acquire c of
        (Some e, c1) \<Rightarrow> (Some e, c1, io)
      | (None, c1) \<Rightarrow>
          (case chan_validate c1 of
             Inl e \<Rightarrow> (Some e, release c1, io)
           | Inr s \<Rightarrow>
               (case start s of
                  (Inl e, s1) \<Rightarrow> (Some (StateErr e), release (c1\<lparr>chState := Some s1\<rparr>), io)
                | (Inr frame, s1) \<Rightarrow>
                    (case body frame s1 io of
                       (r, s2, io1) \<Rightarrow> (r, release (c1\<lparr>chState := Some s2\<rparr>), io1)))))"

definition Reset ::
  "StrictChannel \<Rightarrow> handler \<Rightarrow> link_io \<Rightarrow> chan_err option \<times> StrictChannel \<times> link_io" where
  "Reset c handler io =
     chan_op c io StartReset (\<lambda>frame. transact c frame handler saAcknowledged)"

definition SendConfirmed ::
  "StrictChannel \<Rightarrow> bytes \<Rightarrow> handler \<Rightarrow> link_io \<Rightarrow> chan_err option \<times> StrictChannel \<times> link_io" where
  "SendConfirmed c userData handler io =
     chan_op c io (\<lambda>s. StartConfirmed s userData)
       (\<lambda>frame. transact c frame handler saAcknowledged)"

definition KeepAlive ::
  "StrictChannel \<Rightarrow> handler \<Rightarrow> link_io \<Rightarrow> chan_err option \<times> StrictChannel \<times> link_io" where
  "KeepAlive c handler io =
     chan_op c io StartLinkStatus (\<lambda>frame. transact c frame handler saLinkStatus)"

definition SendUnconfirmed ::
  "StrictChannel \<Rightarrow> bytes \<Rightarrow> link_io \<Rightarrow> chan_err option \<times> StrictChannel \<times> link_io" where
  "SendUnconfirmed c userData io =
     chan_op c io (\<lambda>s. (Unconfirmed s userData, s))
       (\<lambda>frame s io.
          (case installCancellation io of
             (Some e, io1) \<Rightarrow> (Some e, s, io1)
           | (None, io1) \<Rightarrow>
               (case setOperationDeadline io1 of
                  (Some e, io2) \<Rightarrow> (Some e, s, cleanup io2)
                | (None, io2) \<Rightarrow>
                    (case WriteStrictFrame frame io2 of
                       (None, io3) \<Rightarrow> (None, s, cleanup io3)
                     | (Some e, io3) \<Rightarrow>
                         (case normalizeIOError (WritingErr e) io3 of
                            (e', io4) \<Rightarrow> (Some e', s, cleanup io4))))))"

text \<open>The loop of \<open>Receive\<close>: \<open>Inr\<close> the data of the first frame that carries some.\<close>

function receive_loop :: "StrictState \<Rightarrow> link_io \<Rightarrow> (chan_err + bytes) \<times> StrictState \<times> link_io" where
  "receive_loop s io =
     (case read_strict_frame (ioReads io) of
        (Inl readErr, evs) \<Rightarrow>
          (case normalizeIOError (ReadingErr readErr) (io\<lparr>ioReads := evs\<rparr>) of
             (e, io1) \<Rightarrow> (Inl e, s, io1))
      | (Inr frame, evs) \<Rightarrow>
          (case Handle s frame of
             (Inl handleErr, s1) \<Rightarrow> (Inl (StateErr handleErr), s1, io\<lparr>ioReads := evs\<rparr>)
           | (Inr act, s1) \<Rightarrow>
               (case send_response act (io\<lparr>ioReads := evs\<rparr>) of
                  (Some e, io1) \<Rightarrow> (Inl e, s1, io1)
                | (None, io1) \<Rightarrow>
                    if length (saUserData act) \<noteq> 0 then (Inr (saUserData act), s1, io1)
                    else receive_loop s1 io1)))"
  by pat_completeness auto

termination
  by (relation "measure (\<lambda>(s, io). stream_size (ioReads io))")
    (auto dest!: read_strict_frame_size [OF sym] send_response_reads [OF sym])

declare receive_loop.simps [simp del]

text \<open>\<open>has_deadline\<close> says whether the context carries a deadline.\<close>

definition Receive ::
  "StrictChannel \<Rightarrow> bool \<Rightarrow> link_io \<Rightarrow> (chan_err + bytes) \<times> StrictChannel \<times> link_io" where
  "Receive c has_deadline io =
     (case acquire c of
        (Some e, c1) \<Rightarrow> (Inl e, c1, io)
      | (None, c1) \<Rightarrow>
          (case chan_validate c1 of
             Inl e \<Rightarrow> (Inl e, release c1, io)
           | Inr s \<Rightarrow>
               (case installCancellation io of
                  (Some e, io1) \<Rightarrow> (Inl e, release c1, io1)
                | (None, io1) \<Rightarrow>
                    (case (if has_deadline then setOperationDeadline io1 else (None, io1)) of
                       (Some e, io2) \<Rightarrow> (Inl e, release c1, cleanup io2)
                     | (None, io2) \<Rightarrow>
                         (case receive_loop s io2 of
                            (r, s1, io3) \<Rightarrow> (r, release (c1\<lparr>chState := Some s1\<rparr>), cleanup io3))))))"

section \<open>Writing is complete\<close>

lemma write_all_prefix:
  "write_all encoded evs = (r, out, evs') \<Longrightarrow> \<exists>rest. encoded = out @ rest"
proof (induction encoded evs arbitrary: r out evs' rule: write_all.induct)
  case (1 encoded)
  then show ?case by simp
next
  case (2 encoded ev evs)
  show ?case
  proof (cases "encoded = [] \<or> (\<exists>e. ev = WriteFails e)")
    case True
    with "2.prems" show ?thesis by (auto split: if_splits)
  next
    case False
    then obtain n where n: "ev = Accepts n" "encoded \<noteq> []" by (cases ev) auto
    show ?thesis
    proof (cases "n \<le> 0 \<or> n > int (length encoded)")
      case True
      with n "2.prems" show ?thesis by auto
    next
      case False
      obtain r' o' e' where w: "write_all (drop (nat n) encoded) evs = (r', o', e')"
        by (metis prod_cases3)
      then obtain rest where "drop (nat n) encoded = o' @ rest"
        using "2.IH" n False by blast
      then have "encoded = (take (nat n) encoded @ o') @ rest"
        by (metis append.assoc append_take_drop_id)
      then show ?thesis using "2.prems" n False w by auto
    qed
  qed
qed

lemma write_all_complete:
  "write_all encoded evs = (r, out, evs') \<Longrightarrow> (r = None) = (out = encoded)"
proof (induction encoded evs arbitrary: r out evs' rule: write_all.induct)
  case (1 encoded)
  then show ?case by simp
next
  case (2 encoded ev evs)
  show ?case
  proof (cases "encoded = [] \<or> (\<exists>e. ev = WriteFails e)")
    case True
    with "2.prems" show ?thesis by (auto split: if_splits)
  next
    case False
    then obtain n where n: "ev = Accepts n" "encoded \<noteq> []" by (cases ev) auto
    show ?thesis
    proof (cases "n \<le> 0 \<or> n > int (length encoded)")
      case True
      with n "2.prems" show ?thesis by auto
    next
      case False
      obtain r' o' e' where w: "write_all (drop (nat n) encoded) evs = (r', o', e')"
        by (metis prod_cases3)
      then have "(r' = None) = (o' = drop (nat n) encoded)"
        using "2.IH" n False by blast
      moreover have "r = r'" and "out = take (nat n) encoded @ o'"
        using "2.prems" n False w by auto
      moreover have "(take (nat n) encoded @ o' = encoded) = (o' = drop (nat n) encoded)"
        by (metis append_take_drop_id same_append_eq)
      ultimately show ?thesis by simp
    qed
  qed
qed

section \<open>A transaction that succeeds\<close>

lemma Handle_acknowledged:
  assumes "Handle s f = (Inr act, s')" and "saAcknowledged act" and "ss_inv s"
  shows "pending s' = None \<and> ready s' \<and> ss_inv s'"
proof -
  have "ss_inv s'" using ss_inv_Handle [of s f] assms by simp
  moreover have "handleSecondary s f = (Inr act, s')"
    using assms(1,2)
    by (auto simp: Handle_def handlePrimary_def handleConfirmedPrimary_def no_action_def Let_def
        split: if_splits option.splits)
  ultimately show ?thesis
    using assms(2,3)
    by (auto simp: handleSecondary_def ss_inv_def no_action_def Let_def split: if_splits option.splits)
qed

lemma await_inv:
  assumes "await complete handler s io = (r, s', io')" and "ss_inv s"
  shows "ss_inv s' \<and> (r = Returns None \<longrightarrow>
    (\<exists>t f act. ss_inv t \<and> Handle t f = (Inr act, s') \<and> complete act))"
  using assms
proof (induction complete handler s io rule: await.induct)
  case (1 complete handler s io)
  show ?case
  proof (cases "\<exists>f evs act s1 io1 io2. read_strict_frame (ioReads io) = (Inr f, evs)
      \<and> Handle s f = (Inr act, s1) \<and> send_response act (io\<lparr>ioReads := evs\<rparr>) = (None, io1)
      \<and> hand_over handler act io1 = (None, io2) \<and> \<not> complete act \<and> \<not> saNegativeAcknowledgement act")
    case True
    then obtain f evs act s1 io1 io2 where *:
      "read_strict_frame (ioReads io) = (Inr f, evs)" "Handle s f = (Inr act, s1)"
      "send_response act (io\<lparr>ioReads := evs\<rparr>) = (None, io1)"
      "hand_over handler act io1 = (None, io2)" "\<not> complete act" "\<not> saNegativeAcknowledgement act"
      by blast
    have "ss_inv s1" using ss_inv_Handle [of s f] *(2) "1.prems"(2) by simp
    moreover have "await complete handler s1 io2 = (r, s', io')"
      using "1.prems"(1) * by (subst (asm) await.simps) simp
    ultimately show ?thesis
      using "1.IH" [OF *(1) [symmetric] refl *(2) [symmetric] refl *(3) [symmetric] refl
          *(4) [symmetric] refl *(5,6)] by blast
  next
    case False
    have "ss_inv s1" if "Handle s f = (x, s1)" for f x s1
      using ss_inv_Handle [of s f] that "1.prems"(2) by simp
    then show ?thesis
      using "1.prems" False
      by (subst (asm) await.simps)
        (auto split: prod.splits sum.splits option.splits if_splits)
  qed
qed

lemma attempt_loop_inv:
  assumes "attempt_loop attempt left complete handler frame lastErr s io = (r, s', io')"
    and "ss_inv s"
  shows "ss_inv s' \<and> (r = None \<longrightarrow>
    (\<exists>t f act. ss_inv t \<and> Handle t f = (Inr act, s') \<and> complete act))"
  using assms
proof (induction left arbitrary: attempt frame lastErr s io)
  case 0
  then show ?case by auto
next
  case (Suc left)
  from Suc.prems show ?case
    by (auto split: sum.splits prod.splits option.splits outcome.splits if_splits
        dest!: Suc.IH dest: await_inv) (drule (1) await_inv, simp)+
qed

lemma transact_inv:
  assumes "transact c first handler complete s io = (r, s', io')" and "ss_inv s"
  shows "ss_inv s' \<and> (r = None \<longrightarrow>
    (\<exists>t f act. ss_inv t \<and> Handle t f = (Inr act, s') \<and> complete act))"
  using assms
  by (auto simp: transact_def simp del: attempt_loop.simps split: prod.splits option.splits
      dest: attempt_loop_inv) (drule (1) attempt_loop_inv, simp)

section \<open>Quiet connections\<close>

text \<open>
  A world in which nothing but the reads happens: writes are accepted, deadlines set, and
  the context is never cancelled.
\<close>

definition quiet :: "link_io \<Rightarrow> bool" where
  "quiet io \<longleftrightarrow> ioWrites io = [] \<and> ioDeadlines io = [] \<and> ioPolls io = []"

lemma quiet_simps [simp]:
  "quiet (io\<lparr>ioReads := r\<rparr>) = quiet io" "quiet (io\<lparr>ioSent := b\<rparr>) = quiet io"
  "quiet (io\<lparr>ioHanded := h\<rparr>) = quiet io"
  by (simp_all add: quiet_def)

lemma quiet_ops:
  assumes "quiet io"
  shows "poll io = (None, io)" "set_deadline io = (None, io)" "cleanup io = io"
    "installCancellation io = (None, io)" "setOperationDeadline io = (None, io)"
    "EncodeStrictFrame f = Inr w \<Longrightarrow> WriteStrictFrame f io = (None, io\<lparr>ioSent := ioSent io @ w\<rparr>)"
  using assms
  by (simp_all add: quiet_def poll_def set_deadline_def cleanup_def installCancellation_def
      setOperationDeadline_def WriteStrictFrame_def)

text \<open>A transaction in which every read times out sends its frame once per attempt.\<close>

lemma attempt_loop_timeouts:
  assumes "quiet io" and "EncodeStrictFrame frame = Inr w" and "pending s = Some frame"
    and "ioReads io = replicate left (ReadFails IOTimeout) @ rest"
  shows "attempt_loop attempt left complete handler frame lastErr s io =
    (Some (RequestFailed (attempt + left) (if left = 0 then lastErr else LastRead (ReadErr IOTimeout))),
     s, io\<lparr>ioReads := rest, ioSent := ioSent io @ concat (replicate left w)\<rparr>)"
  using assms
proof (induction left arbitrary: attempt lastErr io)
  case 0
  then show ?case by simp
next
  case (Suc left)
  let ?io1 = "io\<lparr>ioSent := ioSent io @ w\<rparr>"
  let ?io2 = "?io1\<lparr>ioReads := replicate left (ReadFails IOTimeout) @ rest\<rparr>"
  have again: "Retransmission s = Inr frame" using Suc.prems by (simp add: Retransmission_def)
  have "read_strict_frame (ioReads ?io1)
      = (Inl (ReadErr IOTimeout), replicate left (ReadFails IOTimeout) @ rest)"
    using Suc.prems by (simp add: read_strict_frame_def)
  then have "await complete handler s ?io1 = (NextAttempt (LastRead (ReadErr IOTimeout)), s, ?io2)"
    using Suc.prems(1) by (subst await.simps) (simp add: quiet_ops isStrictTimeout_def)
  moreover have "attempt_loop (Suc attempt) left complete handler frame (LastRead (ReadErr IOTimeout)) s ?io2
    = (Some (RequestFailed (Suc attempt + left) (LastRead (ReadErr IOTimeout))), s,
       ?io2\<lparr>ioReads := rest, ioSent := ioSent ?io2 @ concat (replicate left w)\<rparr>)"
    using Suc.IH [of ?io2 "Suc attempt" "LastRead (ReadErr IOTimeout)"] Suc.prems by simp
  ultimately show ?case
    using Suc.prems again by (cases "attempt = 0") (simp_all add: quiet_ops)
qed

section \<open>Properties\<close>

text \<open>
  C17: an operation that reports success has been acknowledged: when \<open>Reset\<close> or
  \<open>SendConfirmed\<close> returns no error, whatever frames, writes, timeouts and retries came
  before, no request is pending any more, the link is ready, and the channel is free again.
\<close>

theorem strict_channel_success:
  assumes "chState c = Some s" and "ss_inv s"
    and "Reset c handler io = (None, c', io') \<or> SendConfirmed c d handler io = (None, c', io')"
  shows "\<exists>s'. chState c' = Some s' \<and> ss_inv s' \<and> pending s' = None \<and> ready s' \<and> \<not> chBusy c'"
proof -
  have "\<exists>start c1 frame s1 s'. (start = StartReset \<or> start = (\<lambda>s. StartConfirmed s d))
      \<and> start s = (Inr frame, s1) \<and> transact c1 frame handler saAcknowledged s1 io = (None, s', io')
      \<and> c' = release (c\<lparr>chBusy := True, chState := Some s'\<rparr>)"
    using assms(1,3)
    by (fastforce simp: Reset_def SendConfirmed_def chan_op_def acquire_def chan_validate_def
        split: prod.splits sum.splits option.splits if_splits)
  then obtain start c1 frame s1 s' where
    start: "start = StartReset \<or> start = (\<lambda>s. StartConfirmed s d)" "start s = (Inr frame, s1)"
    and t: "transact c1 frame handler saAcknowledged s1 io = (None, s', io')"
    and c': "c' = release (c\<lparr>chBusy := True, chState := Some s'\<rparr>)"
    by blast
  have "ss_inv s1"
    using start assms(2) ss_inv_StartReset [of s] ss_inv_StartConfirmed [of s d] by auto
  then obtain u f act where "ss_inv u" "Handle u f = (Inr act, s')" "saAcknowledged act"
    using transact_inv [OF t] by auto
  from Handle_acknowledged [OF this(2,3,1)] c' show ?thesis by (simp add: release_def)
qed

lemma sample_ack:
  "EncodeStrictFrame \<lparr>sfControl = 0, sfDestination = 1, sfSource = 10, sfUserData = []\<rparr>
    = Inr [0x05, 0x64, 0x05, 0x00, 0x01, 0x00, 0x0A, 0x00, 0x2E, 0xDD]"
  by code_simp

abbreviation sample_io :: link_io where
  "sample_io \<equiv> \<lparr>ioReads = [Arrives [0x05, 0x64, 0x05, 0x00, 0x01, 0x00, 0x0A, 0x00, 0x2E, 0xDD]],
     ioWrites = [], ioDeadlines = [], ioPolls = [], ioSent = [], ioHanded = []\<rparr>"

abbreviation sample_channel :: StrictChannel where
  "sample_channel \<equiv> NewStrictChannel True (Some (NewStrictState 1 10 True)) 1000 2"

lemma sample_reset: "fst (Reset sample_channel None sample_io) = None"
  by code_simp

theorem strict_channel_success_witness:
  "\<exists>c' io' s'. Reset sample_channel None sample_io = (None, c', io') \<and> chState c' = Some s'
    \<and> pending s' = None \<and> ready s'"
proof -
  obtain c' io' where r: "Reset sample_channel None sample_io = (None, c', io')"
    using sample_reset by (metis prod.collapse)
  have s: "chState sample_channel = Some (NewStrictState 1 10 True)"
    by (simp add: NewStrictChannel_def)
  from strict_channel_success [OF s ss_inv_New disjI1 [OF r]] r show ?thesis by blast
qed

text \<open>
  \<open>WriteStrictFrame\<close> reports success exactly when the whole encoded frame has been handed to
  the connection, however many writes it took; on an error it has handed over a proper part
  of the encoding, or nothing if the frame does not encode, and never any other byte.
\<close>

theorem strict_write_complete:
  "case WriteStrictFrame f io of (r, io') \<Rightarrow> \<exists>out. ioSent io' = ioSent io @ out
     \<and> (case EncodeStrictFrame f of
          Inl e \<Rightarrow> r = Some (EncodeErr e) \<and> out = []
        | Inr w \<Rightarrow> (\<exists>rest. w = out @ rest) \<and> (r = None) = (out = w))"
proof (cases "EncodeStrictFrame f")
  case (Inl e)
  then show ?thesis by (simp add: WriteStrictFrame_def)
next
  case (Inr w)
  obtain r out evs where "write_all w (ioWrites io) = (r, out, evs)" by (metis prod_cases3)
  with Inr show ?thesis
    using write_all_complete [of w "ioWrites io" r out evs] write_all_prefix [of w "ioWrites io" r out evs]
    by (auto simp: WriteStrictFrame_def)
qed

lemma start_confirmed_frame:
  assumes "StartConfirmed s d = (Inr f, s1)"
  shows "pending s1 = Some f" and "\<exists>w. EncodeStrictFrame f = Inr w"
proof -
  show "pending s1 = Some f"
    using assms by (auto simp: start_defs Let_def split: if_splits)
  show "\<exists>w. EncodeStrictFrame f = Inr w"
    using start_sendable(2) [OF assms] by (rule sendable_encodes)
qed

lemma pending_channel_blocked:
  assumes "chState c = Some s" and "pending s \<noteq> None" and "chConnected c" and "0 < chResponseTimeout c"
    and "0 \<le> chMaximumRetries c" and "\<not> chBusy c"
  shows "Reset c h io = (Some (StateErr ErrStrictRequestPending), c, io)"
    and "KeepAlive c h io = (Some (StateErr ErrStrictRequestPending), c, io)"
    and "\<exists>e. SendConfirmed c d h io = (Some (StateErr e), c, io)"
  using assms
  by (auto simp: Reset_def KeepAlive_def SendConfirmed_def chan_op_def acquire_def chan_validate_def
      release_def start_defs)

text \<open>
  C37: the retries are bounded and repeat the request. Let a connected channel with a response timeout,
  which no other operation is using, begin a \<open>SendConfirmed\<close> that its link state accepts, let its
  writes succeed and let each of the \<open>maximumRetries + 1\<close> reads time out. Then the same encoded frame
  is written \<open>maximumRetries + 1\<close> times, the number of attempts is reported with the timeout, and the
  request stays pending: the next \<open>Reset\<close>, \<open>KeepAlive\<close> or \<open>SendConfirmed\<close>, of whatever data, fails
  with an error of the link state, reads and writes nothing and leaves the channel as it is, so that
  the one after it fails alike, and so on.
\<close>

theorem strict_timeouts_exhaust:
  assumes "chState c = Some s" and "chConnected c" and "0 < chResponseTimeout c"
    and "chMaximumRetries c = int n" and "\<not> chBusy c" and "quiet io"
    and "StartConfirmed s d = (Inr f, s1)"
    and "ioReads io = replicate (Suc n) (ReadFails IOTimeout) @ rest"
  shows "\<exists>w c'. EncodeStrictFrame f = Inr w
    \<and> SendConfirmed c d handler io =
       (Some (RequestFailed (Suc n) (LastRead (ReadErr IOTimeout))), c',
        io\<lparr>ioReads := rest, ioSent := ioSent io @ concat (replicate (Suc n) w)\<rparr>)
    \<and> (\<forall>d' h io'. Reset c' h io' = (Some (StateErr ErrStrictRequestPending), c', io')
         \<and> KeepAlive c' h io' = (Some (StateErr ErrStrictRequestPending), c', io')
         \<and> (\<exists>e. SendConfirmed c' d' h io' = (Some (StateErr e), c', io')))"
proof -
  note f = start_confirmed_frame [OF assms(7)]
  obtain w where w: "EncodeStrictFrame f = Inr w" using f(2) by blast
  let ?c' = "c\<lparr>chState := Some s1\<rparr>"
  note loop = attempt_loop_timeouts [OF assms(6) w f(1) assms(8)]
  have "SendConfirmed c d handler io =
       (Some (RequestFailed (Suc n) (LastRead (ReadErr IOTimeout))), ?c',
        io\<lparr>ioReads := rest, ioSent := ioSent io @ concat (replicate (Suc n) w)\<rparr>)"
    using assms(1-7) loop [of 0]
    by (simp add: SendConfirmed_def chan_op_def acquire_def chan_validate_def transact_def
        quiet_ops release_def del: attempt_loop.simps replicate.simps)
  moreover have "Reset ?c' h io' = (Some (StateErr ErrStrictRequestPending), ?c', io')
         \<and> KeepAlive ?c' h io' = (Some (StateErr ErrStrictRequestPending), ?c', io')
         \<and> (\<exists>e. SendConfirmed ?c' d' h io' = (Some (StateErr e), ?c', io'))" for d' h io'
    using pending_channel_blocked [of ?c' s1] f(1) assms(2-5) by simp
  ultimately show ?thesis using w by blast
qed

abbreviation ready_channel :: "StrictState \<Rightarrow> StrictChannel" where
  "ready_channel s \<equiv> NewStrictChannel True (Some s) 1000 1"

theorem strict_timeouts_exhaust_witness:
  "\<exists>w c'. SendConfirmed (ready_channel (MarkReset (NewStrictState 1 10 True))) [7] None
      (sample_io\<lparr>ioReads := [ReadFails IOTimeout, ReadFails IOTimeout]\<rparr>)
    = (Some (RequestFailed 2 (LastRead (ReadErr IOTimeout))), c',
       sample_io\<lparr>ioReads := [], ioSent := w @ w\<rparr>)"
proof -
  let ?s = "MarkReset (NewStrictState 1 10 True)" and ?c = "ready_channel (MarkReset (NewStrictState 1 10 True))"
  let ?io = "sample_io\<lparr>ioReads := [ReadFails IOTimeout, ReadFails IOTimeout]\<rparr>"
  obtain f s1 where st: "StartConfirmed ?s [7] = (Inr f, s1)"
    by (simp add: StartConfirmed_def startPending_def MarkReset_def NewStrictState_def Let_def)
  have "chState ?c = Some ?s" "chConnected ?c" "0 < chResponseTimeout ?c"
    "chMaximumRetries ?c = int 1" "\<not> chBusy ?c" "quiet ?io"
    by (simp_all add: NewStrictChannel_def quiet_def)
  from strict_timeouts_exhaust [OF this st, of "[]" None] show ?thesis
    by (auto simp: numeral_2_eq_2)
qed

text \<open>
  \<open>KeepAlive\<close> reports success although its request has not been answered when the peer
  sends a link status request of its own: handling that request sets the same flag as a
  link status response. The keep-alive request stays pending, and every later \<open>Reset\<close> or
  \<open>KeepAlive\<close> on the channel fails.
\<close>

theorem strict_keepalive_unanswered:
  assumes "chState c = Some s" and "pending s = None" and "chConnected c" and "0 < chResponseTimeout c"
    and "0 \<le> chMaximumRetries c" and "\<not> chBusy c" and "quiet io"
    and "EncodeStrictFrame
      \<lparr>sfControl = (if localIsMaster s then 0x49 else 0xC9), sfDestination = localAddress s,
       sfSource = remoteAddress s, sfUserData = []\<rparr> = Inr w"
    and "delivers (ioReads io)" and "stream_bytes (ioReads io) = w @ after"
  shows "\<exists>c' io' s'. KeepAlive c handler io = (None, c', io')
    \<and> chState c' = Some s' \<and> pending s' \<noteq> None
    \<and> (\<forall>h io'. Reset c' h io' = (Some (StateErr ErrStrictRequestPending), c', io')
         \<and> KeepAlive c' h io' = (Some (StateErr ErrStrictRequestPending), c', io'))"
proof -
  let ?f = "\<lparr>sfControl = (if localIsMaster s then 0x49 else 0xC9), sfDestination = localAddress s,
       sfSource = remoteAddress s, sfUserData = []\<rparr>"
  obtain g s1 where g: "StartLinkStatus s = (Inr g, s1)"
    using assms(2) by (simp add: StartLinkStatus_def startPending_def Let_def)
  obtain v where v: "EncodeStrictFrame g = Inr v"
    using start_sendable(3) [OF g] sendable_encodes by blast
  have s1: "pending s1 \<noteq> None" "same_link s s1"
    using g same_link_ops(4) [of s] by (auto simp: start_defs Let_def split: if_splits)
  let ?a = "no_action\<lparr>saResponse := Some (secondaryFrame s1 11 False), saLinkStatus := True\<rparr>"
  have h: "Handle s1 ?f = (Inr ?a, s1)"
    using s1(2)
    by (cases "localIsMaster s")
      (simp_all add: Handle_def handlePrimary_def validateStrictControl_def same_link_def)
  let ?io1 = "io\<lparr>ioSent := ioSent io @ v\<rparr>"
  have evs: "delivers (ioReads ?io1)" "stream_bytes (ioReads ?io1) = w @ after"
    using assms(9,10) by simp_all
  obtain evs' where r: "read_strict_frame (ioReads ?io1) = (Inr ?f, evs')"
    using read_strict_frame_any_cut [OF assms(8) evs] by blast
  obtain u where "EncodeStrictFrame (secondaryFrame s1 11 False) = Inr u"
    using sendable_encodes [OF sendable_secondary(3)] by blast
  then have "\<exists>io2. send_response ?a (?io1\<lparr>ioReads := evs'\<rparr>) = (None, io2) \<and> quiet io2"
    using assms(7) by (simp add: send_response_def no_action_def quiet_ops)
  then obtain io2 where io2: "send_response ?a (?io1\<lparr>ioReads := evs'\<rparr>) = (None, io2)" "quiet io2"
    by blast
  have "await saLinkStatus handler s1 ?io1 = (Returns None, s1, io2)"
    using r h io2 by (subst await.simps) (simp add: hand_over_def no_action_def)
  then have k: "KeepAlive c handler io = (None, c\<lparr>chState := Some s1\<rparr>, io2)"
    using assms(1-7) g v io2(2)
    by (simp add: KeepAlive_def chan_op_def acquire_def chan_validate_def transact_def quiet_ops
        release_def)
  then show ?thesis
    using pending_channel_blocked [of "c\<lparr>chState := Some s1\<rparr>" s1] s1(1) assms(3-6) by simp
qed

lemma sample_status_request:
  "EncodeStrictFrame \<lparr>sfControl = (if localIsMaster (NewStrictState 1 10 True) then 0x49 else 0xC9),
      sfDestination = localAddress (NewStrictState 1 10 True),
      sfSource = remoteAddress (NewStrictState 1 10 True), sfUserData = []\<rparr>
    = Inr [0x05, 0x64, 0x05, 0x49, 0x01, 0x00, 0x0A, 0x00, 0xDB, 0x9B]"
  by code_simp

theorem strict_keepalive_unanswered_witness:
  "\<exists>c' io' s'. KeepAlive sample_channel None
      (sample_io\<lparr>ioReads := [Arrives [0x05, 0x64, 0x05, 0x49, 0x01, 0x00, 0x0A, 0x00, 0xDB, 0x9B]]\<rparr>)
    = (None, c', io') \<and> chState c' = Some s' \<and> pending s' \<noteq> None"
proof -
  let ?io = "sample_io\<lparr>ioReads := [Arrives [0x05, 0x64, 0x05, 0x49, 0x01, 0x00, 0x0A, 0x00, 0xDB, 0x9B]]\<rparr>"
  have "chState sample_channel = Some (NewStrictState 1 10 True)"
    "pending (NewStrictState 1 10 True) = None" "chConnected sample_channel"
    "0 < chResponseTimeout sample_channel" "0 \<le> chMaximumRetries sample_channel"
    "\<not> chBusy sample_channel" "quiet ?io"
    by (simp_all add: NewStrictChannel_def NewStrictState_def quiet_def)
  from strict_keepalive_unanswered [OF this sample_status_request, of "[]" None] show ?thesis
    by auto
qed

end
