(* ===== verification/Link_Master.thy ===== *)
theory Link_Master
  imports Link_Frame
begin

text \<open>
  \<open>pkg/link/master_link.go\<close>: the link layer of the master. An operation sends its frame and
  waits for a response, a timeout or the end of the context; \<open>mlWaits\<close> says how the waits
  end and which frames the receiver goroutine passes to \<open>OnFrameReceived\<close> meanwhile,
  \<open>mlSelects\<close> how the selects on the send channel and the response channel end (\<open>False\<close>: the
  context was done). \<open>mlSent\<close>, \<open>mlHanded\<close> and \<open>mlStatus\<close> log the frames put on the send
  channel, the data handed to the callback and the status notifications.
\<close>

unbundle bit_operations_syntax

section \<open>State and errors\<close>

datatype master_err =
    MasterErr link_err
  | MasterContextDone
  | MasterCallback nat
  | ResponseChannelFull
  | LinkNotFunctioning
  | LinkNotUsed
  | UnexpectedFunction FunctionCode
  | NilFramePanic

datatype wait_event = WaitResponse "Frame list" | WaitTimeout "Frame list" | WaitDone

record MasterLink =
  mlLocalAddress :: u16
  mlRemoteAddress :: u16
  mlTimeout :: int
  mlMaxRetries :: int
  mlState :: LinkState
  mlFcb :: bool
  mlLastSentFrame :: "Frame option"
  mlRetryCount :: int
  mlDataCallback :: "(bytes \<Rightarrow> nat option) option"
  mlHasStatusCallback :: bool
  mlResponses :: "Frame list"
  mlSelects :: "bool list"
  mlWaits :: "wait_event list"
  mlSent :: "bytes list"
  mlHanded :: "bytes list"
  mlStatus :: "(LinkState \<times> master_err option) list"

definition NewMasterLink ::
  "u16 \<Rightarrow> u16 \<Rightarrow> int \<Rightarrow> int \<Rightarrow> (bytes \<Rightarrow> nat option) option \<Rightarrow> bool \<Rightarrow> MasterLink" where
  "NewMasterLink local remote timeout retries callback status =
     \<lparr>mlLocalAddress = local, mlRemoteAddress = remote, mlTimeout = timeout,
      mlMaxRetries = retries, mlState = LinkStateIdle, mlFcb = False, mlLastSentFrame = None,
      mlRetryCount = 0, mlDataCallback = callback, mlHasStatusCallback = status,
      mlResponses = [], mlSelects = [], mlWaits = [], mlSent = [], mlHanded = [], mlStatus = []\<rparr>"

section \<open>Receiving\<close>

definition master_call_data :: "MasterLink \<Rightarrow> bytes \<Rightarrow> master_err option \<times> MasterLink" where
  "master_call_data m data =
     (case mlDataCallback m of
        None \<Rightarrow> (None, m)
      | Some cb \<Rightarrow> (map_option MasterCallback (cb data), m\<lparr>mlHanded := mlHanded m @ [data]\<rparr>))"

definition MasterLink_OnFrameReceived :: "MasterLink \<Rightarrow> Frame \<Rightarrow> master_err option \<times> MasterLink" where
  "MasterLink_OnFrameReceived m frame =
     (if fSource frame \<noteq> mlRemoteAddress m \<or> fDestination frame \<noteq> mlLocalAddress m
      then (Some (MasterErr ErrInvalidAddress), m)
      else if fFunctionCode frame = FuncUserDataUnconfirmed
        \<and> fDir frame = DirectionOutstationToMaster
      then master_call_data m (fUserData frame)
      else (case mlSelects m of
              False # ss \<Rightarrow> (Some MasterContextDone, m\<lparr>mlSelects := ss\<rparr>)
            | _ \<Rightarrow>
                let m1 = m\<lparr>mlSelects := tl (mlSelects m)\<rparr>
                in if length (mlResponses m) < 10
                   then (None, m1\<lparr>mlResponses := mlResponses m @ [frame]\<rparr>)
                   else (Some ResponseChannelFull, m1)))"

definition receive_frames :: "MasterLink \<Rightarrow> Frame list \<Rightarrow> MasterLink" where
  "receive_frames m fs = foldl (\<lambda>m f. snd (MasterLink_OnFrameReceived m f)) m fs"

section \<open>Sending with retries\<close>

definition MasterLink_transmit :: "MasterLink \<Rightarrow> Frame \<Rightarrow> master_err option \<times> MasterLink" where
  "MasterLink_transmit m frame =
     (case Serialize frame of
        Inl err \<Rightarrow> (Some (MasterErr err), m)
      | Inr data \<Rightarrow>
          (case mlSelects m of
             False # ss \<Rightarrow> (Some MasterContextDone, m\<lparr>mlSelects := ss\<rparr>)
           | _ \<Rightarrow> (None, m\<lparr>mlSelects := tl (mlSelects m), mlSent := mlSent m @ [data]\<rparr>)))"

text \<open>
  \<open>sendWithRetry\<close> records the frame before it waits, so \<open>mlLastSentFrame\<close> is set whenever a
  response is handled; the nil pointer would panic.
\<close>

definition handleResponse :: "MasterLink \<Rightarrow> Frame \<Rightarrow> master_err option \<times> MasterLink" where
  "handleResponse m frame =
     (let fc = fFunctionCode frame in
      if fc = FuncAck then (None, m)
      else if fc = FuncNack
      then (let m1 = m\<lparr>mlRetryCount := mlRetryCount m + 1\<rparr>
            in if mlRetryCount m1 > mlMaxRetries m1 then (Some (MasterErr ErrMaxRetriesExceeded), m1)
               else (case mlLastSentFrame m1 of
                       None \<Rightarrow> (Some NilFramePanic, m1)
                     | Some sent \<Rightarrow> MasterLink_transmit m1 sent))
      else if fc = FuncLinkStatusResponse then (None, m)
      else if fc = FuncLinkNotFunctioning then (Some LinkNotFunctioning, m)
      else if fc = FuncLinkNotUsed then (Some LinkNotUsed, m)
      else if fc = FuncUserDataUnconfirmed then master_call_data m (fUserData frame)
      else (Some (UnexpectedFunction fc), m))"

text \<open>
  How a wait ends: with the first frame of the response channel, with a timeout, or with the
  end of the context. A response is only taken if there is one; a used-up sequence times out.
\<close>

datatype wait_result = GotResponse Frame | TimedOut | ContextDone

definition wait_response :: "MasterLink \<Rightarrow> wait_result \<times> MasterLink" where
  "wait_response m =
     (case mlWaits m of
        [] \<Rightarrow> (TimedOut, m)
      | WaitDone # ws \<Rightarrow> (ContextDone, m\<lparr>mlWaits := ws\<rparr>)
      | WaitTimeout fs # ws \<Rightarrow> (TimedOut, receive_frames (m\<lparr>mlWaits := ws\<rparr>) fs)
      | WaitResponse fs # ws \<Rightarrow>
          (let m1 = receive_frames (m\<lparr>mlWaits := ws\<rparr>) fs
           in case mlResponses m1 of
                [] \<Rightarrow> (TimedOut, m1)
              | f # rest \<Rightarrow> (GotResponse f, m1\<lparr>mlResponses := rest\<rparr>)))"

lemma call_data_config:
  "mlRetryCount (snd (master_call_data m d)) = mlRetryCount m"
  "mlMaxRetries (snd (master_call_data m d)) = mlMaxRetries m"
  by (simp_all add: master_call_data_def split: option.split)

lemma OnFrame_config:
  "mlRetryCount (snd (MasterLink_OnFrameReceived m f)) = mlRetryCount m"
  "mlMaxRetries (snd (MasterLink_OnFrameReceived m f)) = mlMaxRetries m"
  by (simp_all add: MasterLink_OnFrameReceived_def call_data_config Let_def split: list.split bool.split)

lemma receive_frames_config:
  "mlRetryCount (receive_frames m fs) = mlRetryCount m"
  "mlMaxRetries (receive_frames m fs) = mlMaxRetries m"
  by (induction fs arbitrary: m) (simp_all add: receive_frames_def OnFrame_config)

lemma wait_config:
  "mlRetryCount (snd (wait_response m)) = mlRetryCount m"
  "mlMaxRetries (snd (wait_response m)) = mlMaxRetries m"
  by (simp_all add: wait_response_def receive_frames_config Let_def
      split: list.split wait_event.split)

lemma master_transmit_config:
  "mlRetryCount (snd (MasterLink_transmit m f)) = mlRetryCount m"
  "mlMaxRetries (snd (MasterLink_transmit m f)) = mlMaxRetries m"
  by (simp_all add: MasterLink_transmit_def split: sum.split list.split bool.split)

function retry_loop :: "MasterLink \<Rightarrow> Frame \<Rightarrow> bool \<Rightarrow> master_err option \<times> MasterLink" where
  "retry_loop m frame expectResponse =
     (if \<not> mlRetryCount m \<le> mlMaxRetries m then (Some (MasterErr ErrMaxRetriesExceeded), m)
      else (case MasterLink_transmit m frame of
              (Some err, m1) \<Rightarrow> (Some err, m1)
            | (None, m1) \<Rightarrow>
                if \<not> expectResponse then (None, m1)
                else (case wait_response m1 of
                        (GotResponse response, m2) \<Rightarrow> handleResponse m2 response
                      | (ContextDone, m2) \<Rightarrow> (Some MasterContextDone, m2)
                      | (TimedOut, m2) \<Rightarrow>
                          let m3 = m2\<lparr>mlRetryCount := mlRetryCount m2 + 1\<rparr>
                          in if mlRetryCount m3 > mlMaxRetries m3
                             then (Some (MasterErr ErrMaxRetriesExceeded), m3)
                             else retry_loop m3 frame expectResponse)))"
  by pat_completeness auto

lemma retry_step_config:
  assumes "MasterLink_transmit m frame = (None, m1)" and "wait_response m1 = (r, m2)"
  shows "mlRetryCount m2 = mlRetryCount m \<and> mlMaxRetries m2 = mlMaxRetries m"
  using master_transmit_config [of m frame] wait_config [of m1] assms by simp

termination retry_loop
  by (relation "measure (\<lambda>(m, frame, e). nat (mlMaxRetries m + 1 - mlRetryCount m))")
    (auto dest!: retry_step_config [OF sym sym])

declare retry_loop.simps [simp del]

definition sendWithRetry :: "MasterLink \<Rightarrow> Frame \<Rightarrow> bool \<Rightarrow> master_err option \<times> MasterLink" where
  "sendWithRetry m frame expectResponse =
     retry_loop (m\<lparr>mlLastSentFrame := Some frame, mlRetryCount := 0\<rparr>) frame expectResponse"

section \<open>Operations\<close>

definition notifyStatus :: "MasterLink \<Rightarrow> LinkState \<Rightarrow> master_err option \<Rightarrow> MasterLink" where
  "notifyStatus m state err =
     (if mlHasStatusCallback m then m\<lparr>mlStatus := mlStatus m @ [(state, err)]\<rparr> else m)"

definition primary_frame :: "MasterLink \<Rightarrow> FunctionCode \<Rightarrow> bytes \<Rightarrow> Frame" where
  "primary_frame m fc data =
     NewFrame DirectionMasterToOutstation PrimaryFrame fc (mlRemoteAddress m) (mlLocalAddress m) data"

definition ResetLink :: "MasterLink \<Rightarrow> master_err option \<times> MasterLink" where
  "ResetLink m =
     (if mlState m \<noteq> LinkStateIdle then (Some (MasterErr ErrInvalidState), m)
      else (case sendWithRetry (m\<lparr>mlState := LinkStateResetPending\<rparr>)
                   (primary_frame m FuncResetLink []) True of
              (None, m1) \<Rightarrow>
                (None, notifyStatus (m1\<lparr>mlFcb := False, mlState := LinkStateIdle\<rparr>) LinkStateIdle None)
            | (Some err, m1) \<Rightarrow>
                (Some err, notifyStatus (m1\<lparr>mlState := LinkStateError\<rparr>) LinkStateError (Some err))))"

definition ResetUserProcess :: "MasterLink \<Rightarrow> master_err option \<times> MasterLink" where
  "ResetUserProcess m =
     (if mlState m \<noteq> LinkStateIdle then (Some (MasterErr ErrInvalidState), m)
      else sendWithRetry m (primary_frame m FuncResetUserProcess []) True)"

definition TestLink :: "MasterLink \<Rightarrow> master_err option \<times> MasterLink" where
  "TestLink m =
     (if mlState m \<noteq> LinkStateIdle then (Some (MasterErr ErrInvalidState), m)
      else (case sendWithRetry (m\<lparr>mlState := LinkStateTestPending\<rparr>)
                   (primary_frame m FuncTestLinkStates []) True of
              (None, m1) \<Rightarrow> (None, m1\<lparr>mlState := LinkStateIdle\<rparr>)
            | (Some err, m1) \<Rightarrow> (Some err, m1\<lparr>mlState := LinkStateError\<rparr>)))"

definition RequestLinkStatus :: "MasterLink \<Rightarrow> master_err option \<times> MasterLink" where
  "RequestLinkStatus m =
     (if mlState m \<noteq> LinkStateIdle then (Some (MasterErr ErrInvalidState), m)
      else sendWithRetry m (primary_frame m FuncRequestLinkStatus []) True)"

definition SendConfirmedUserData :: "MasterLink \<Rightarrow> bytes \<Rightarrow> master_err option \<times> MasterLink" where
  "SendConfirmedUserData m data =
     (if mlState m \<noteq> LinkStateIdle then (Some (MasterErr ErrInvalidState), m)
      else let m1 = m\<lparr>mlState := LinkStateWaitACK, mlFcb := \<not> mlFcb m\<rparr>;
               frame = SetFCB (primary_frame m1 FuncUserDataConfirmed data) (mlFcb m1)
           in case sendWithRetry m1 frame True of
                (None, m2) \<Rightarrow> (None, m2\<lparr>mlState := LinkStateIdle\<rparr>)
              | (Some err, m2) \<Rightarrow>
                  (Some err, m2\<lparr>mlState := LinkStateError, mlFcb := \<not> mlFcb m2\<rparr>))"

definition MasterLink_SendUnconfirmedUserData ::
  "MasterLink \<Rightarrow> bytes \<Rightarrow> master_err option \<times> MasterLink" where
  "MasterLink_SendUnconfirmedUserData m data =
     (if mlState m \<noteq> LinkStateIdle then (Some (MasterErr ErrInvalidState), m)
      else MasterLink_transmit m (primary_frame m FuncUserDataUnconfirmed data))"

definition MasterLink_Start :: "MasterLink \<Rightarrow> master_err option" where
  "MasterLink_Start m =
     (if mlState m \<noteq> LinkStateIdle then Some (MasterErr ErrInvalidState) else None)"

definition MasterLink_IsOnline :: "MasterLink \<Rightarrow> bool" where
  "MasterLink_IsOnline m \<longleftrightarrow> mlState m = LinkStateIdle \<or> mlState m = LinkStateWaitACK"

definition MasterLink_SetTimeout :: "MasterLink \<Rightarrow> int \<Rightarrow> MasterLink" where
  "MasterLink_SetTimeout m duration = m\<lparr>mlTimeout := duration\<rparr>"

definition MasterLink_SetRetries :: "MasterLink \<Rightarrow> int \<Rightarrow> MasterLink" where
  "MasterLink_SetRetries m count = m\<lparr>mlMaxRetries := count\<rparr>"

section \<open>What an operation leaves alone\<close>

text \<open>Receiving and waiting send nothing and keep the recorded frame, the state and the bit.\<close>

definition same_line :: "MasterLink \<Rightarrow> MasterLink \<Rightarrow> bool" where
  "same_line m m' \<longleftrightarrow> mlSent m' = mlSent m \<and> mlLastSentFrame m' = mlLastSentFrame m
    \<and> mlState m' = mlState m \<and> mlFcb m' = mlFcb m \<and> mlMaxRetries m' = mlMaxRetries m
    \<and> mlRetryCount m' = mlRetryCount m"

lemma same_line_refl [simp]: "same_line m m"
  by (simp add: same_line_def)

lemma same_line_trans: "same_line a b \<Longrightarrow> same_line b c \<Longrightarrow> same_line a c"
  by (simp add: same_line_def)

lemma same_line_upd [simp]:
  "same_line m (m\<lparr>mlWaits := ws\<rparr>)" "same_line m (m\<lparr>mlResponses := rs\<rparr>)"
  "same_line m (m\<lparr>mlSelects := ss\<rparr>)" "same_line m (m\<lparr>mlHanded := h\<rparr>)"
  by (simp_all add: same_line_def)

lemma call_data_line: "same_line m (snd (master_call_data m d))"
  by (simp add: master_call_data_def split: option.split)

lemma OnFrame_line: "same_line m (snd (MasterLink_OnFrameReceived m f))"
proof -
  have "same_line m (m\<lparr>mlSelects := ss, mlResponses := rs\<rparr>)" for ss rs
    by (simp add: same_line_def)
  then show ?thesis
    by (simp add: MasterLink_OnFrameReceived_def call_data_line Let_def split: list.split bool.split)
qed

lemma receive_frames_line: "same_line m (receive_frames m fs)"
proof (induction fs arbitrary: m)
  case Nil
  then show ?case by (simp add: receive_frames_def)
next
  case (Cons f fs)
  have "same_line (snd (MasterLink_OnFrameReceived m f)) (receive_frames m (f # fs))"
    using Cons [of "snd (MasterLink_OnFrameReceived m f)"] by (simp add: receive_frames_def)
  then show ?case using OnFrame_line same_line_trans by blast
qed

lemma wait_line: "wait_response m = (r, m') \<Longrightarrow> same_line m m'"
proof -
  have "same_line m (receive_frames (m\<lparr>mlWaits := ws\<rparr>) fs)" for ws fs
    using same_line_trans [OF same_line_upd(1) receive_frames_line] .
  moreover from this
  have "same_line m ((receive_frames (m\<lparr>mlWaits := ws\<rparr>) fs)\<lparr>mlResponses := rs\<rparr>)" for ws fs rs
    by (rule same_line_trans [OF _ same_line_upd(2)])
  ultimately show "wait_response m = (r, m') \<Longrightarrow> same_line m m'"
    by (auto simp: wait_response_def Let_def split: list.splits wait_event.splits)
qed

section \<open>Bounded retries\<close>

lemma transmit_line:
  assumes "MasterLink_transmit m f = (r, m')" and "Serialize f = Inr w"
  shows "mlSent m' = mlSent m @ (if r = None then [w] else [])
    \<and> same_line m (m'\<lparr>mlSent := mlSent m\<rparr>)"
  using assms
  by (auto simp: MasterLink_transmit_def same_line_def split: list.splits bool.splits)

lemma handleResponse_line:
  assumes "handleResponse m f = (r, m')" and "mlLastSentFrame m = Some frame"
    and "Serialize frame = Inr w"
  shows "\<exists>k. mlSent m' = mlSent m @ replicate k w \<and> mlState m' = mlState m \<and> mlFcb m' = mlFcb m
    \<and> (k = 0 \<or> k = 1 \<and> mlRetryCount m + 1 \<le> mlMaxRetries m)"
proof (cases "fFunctionCode f = 1 \<and> mlRetryCount m + 1 \<le> mlMaxRetries m")
  case True
  then have "MasterLink_transmit (m\<lparr>mlRetryCount := mlRetryCount m + 1\<rparr>) frame = (r, m')"
    using assms by (simp add: handleResponse_def Let_def)
  from transmit_line [OF this assms(3)] True show ?thesis
    by (intro exI [of _ "if r = None then 1 else 0"]) (auto simp: same_line_def)
next
  case False
  then have "mlSent m' = mlSent m \<and> mlState m' = mlState m \<and> mlFcb m' = mlFcb m"
    using assms(1) call_data_line [of m "fUserData f"]
    by (auto simp: handleResponse_def same_line_def Let_def split: if_splits)
  then show ?thesis by (intro exI [of _ 0]) simp
qed

lemma retry_loop_line:
  assumes "retry_loop m frame e = (r, m')" and "mlLastSentFrame m = Some frame"
    and "Serialize frame = Inr w"
  shows "\<exists>k. mlSent m' = mlSent m @ replicate k w \<and> mlState m' = mlState m \<and> mlFcb m' = mlFcb m
    \<and> int k \<le> max 0 (mlMaxRetries m - mlRetryCount m + 1)"
  using assms
proof (induction m frame e rule: retry_loop.induct)
  case (1 m frame e)
  show ?case
  proof (cases "mlRetryCount m \<le> mlMaxRetries m")
    case False
    then have "m' = m" using "1.prems"(1) by (simp add: retry_loop.simps)
    then show ?thesis by (intro exI [of _ 0]) simp
  next
    case True
    obtain r1 m1 where t: "MasterLink_transmit m frame = (r1, m1)" by fastforce
    note tl = transmit_line [OF t "1.prems"(3)]
    show ?thesis
    proof (cases "r1 = None \<and> e")
      case False
      then have "m' = m1" using "1.prems"(1) True t by (auto simp: retry_loop.simps split: option.splits)
      then show ?thesis using tl True
        by (intro exI [of _ "if r1 = None then 1 else 0"]) (auto simp: same_line_def)
    next
      case ok: True
      obtain r2 m2 where w: "wait_response m1 = (r2, m2)" by fastforce
      have m2: "mlSent m2 = mlSent m @ [w]" "mlState m2 = mlState m" "mlFcb m2 = mlFcb m"
        "mlLastSentFrame m2 = Some frame" "mlMaxRetries m2 = mlMaxRetries m"
        "mlRetryCount m2 = mlRetryCount m"
        using tl wait_line [OF w] ok "1.prems"(2) by (auto simp: same_line_def)
      show ?thesis
      proof (cases r2)
        case (GotResponse f)
        then have "handleResponse m2 f = (r, m')"
          using "1.prems"(1) True t ok w by (simp add: retry_loop.simps)
        from handleResponse_line [OF this m2(4) "1.prems"(3)] obtain k where
          "mlSent m' = mlSent m2 @ replicate k w" "mlState m' = mlState m2" "mlFcb m' = mlFcb m2"
          "k = 0 \<or> k = 1 \<and> mlRetryCount m2 + 1 \<le> mlMaxRetries m2" by blast
        with m2 True show ?thesis by (intro exI [of _ "Suc k"]) auto
      next
        case ContextDone
        then have "m' = m2" using "1.prems"(1) True t ok w by (simp add: retry_loop.simps)
        with m2 True show ?thesis by (intro exI [of _ 1]) auto
      next
        case TimedOut
        let ?m3 = "m2\<lparr>mlRetryCount := mlRetryCount m2 + 1\<rparr>"
        show ?thesis
        proof (cases "mlRetryCount ?m3 > mlMaxRetries ?m3")
          case last: True
          then have "m' = ?m3" using "1.prems"(1) True t ok w TimedOut by (simp add: retry_loop.simps)
          with m2 True show ?thesis by (intro exI [of _ 1]) auto
        next
          case False
          then have "retry_loop ?m3 frame e = (r, m')"
            using "1.prems"(1) True t ok w TimedOut by (simp add: retry_loop.simps [of m])
          then have "\<exists>k. mlSent m' = mlSent ?m3 @ replicate k w \<and> mlState m' = mlState ?m3
            \<and> mlFcb m' = mlFcb ?m3 \<and> int k \<le> max 0 (mlMaxRetries ?m3 - mlRetryCount ?m3 + 1)"
            using "1.IH" [OF _ t [symmetric] _ _ w [symmetric] TimedOut refl] True ok False m2(4)
              "1.prems"(3) by simp
          then obtain k where "mlSent m' = mlSent m2 @ replicate k w" "mlState m' = mlState m2"
            "mlFcb m' = mlFcb m2" "int k \<le> mlMaxRetries m - mlRetryCount m"
            using m2 False by auto
          with m2 True show ?thesis by (intro exI [of _ "Suc k"]) auto
        qed
      qed
    qed
  qed
qed

section \<open>Properties\<close>

lemma sendWithRetry_line:
  assumes "sendWithRetry m frame e = (r, m')" and "Serialize frame = Inr w"
  shows "\<exists>k. mlSent m' = mlSent m @ replicate k w \<and> mlState m' = mlState m \<and> mlFcb m' = mlFcb m
    \<and> int k \<le> max 0 (mlMaxRetries m + 1)"
  using retry_loop_line [OF assms(1) [unfolded sendWithRetry_def] _ assms(2)] by simp

lemma confirmed_serializes:
  assumes "length d \<le> 250"
  shows "\<exists>w. Serialize (SetFCB (primary_frame m 3 d) b) = Inr w"
proof -
  have "fUserData (SetFCB (primary_frame m 3 d) b) = d"
    by (simp add: SetFCB_def primary_frame_def NewFrame_def buildControl_def Let_def)
  then show ?thesis using assms by (simp add: Serialize_def Let_def)
qed

lemma confirmed_outcome:
  assumes "SendConfirmedUserData m d = (r, m')" and "mlState m = LinkStateIdle"
    and "Serialize (SetFCB (primary_frame m FuncUserDataConfirmed d) (\<not> mlFcb m)) = Inr w"
  shows "(\<exists>k. int k \<le> max 0 (mlMaxRetries m + 1) \<and> mlSent m' = mlSent m @ replicate k w)
    \<and> (r = None \<longrightarrow> mlState m' = LinkStateIdle \<and> mlFcb m' = (\<not> mlFcb m))
    \<and> (r \<noteq> None \<longrightarrow> mlState m' = LinkStateError \<and> mlFcb m' = mlFcb m)"
proof -
  let ?m1 = "m\<lparr>mlState := LinkStateWaitACK, mlFcb := \<not> mlFcb m\<rparr>"
  let ?f = "SetFCB (primary_frame m FuncUserDataConfirmed d) (\<not> mlFcb m)"
  obtain r2 m2 where s: "sendWithRetry ?m1 ?f True = (r2, m2)" by fastforce
  have "primary_frame ?m1 = primary_frame m" by (simp add: primary_frame_def fun_eq_iff)
  then have "SendConfirmedUserData m d = (case (r2, m2) of
                (None, m2) \<Rightarrow> (None, m2\<lparr>mlState := LinkStateIdle\<rparr>)
              | (Some err, m2) \<Rightarrow>
                  (Some err, m2\<lparr>mlState := LinkStateError, mlFcb := \<not> mlFcb m2\<rparr>))"
    using assms(2) s by (simp add: SendConfirmedUserData_def Let_def)
  with sendWithRetry_line [OF s assms(3)] assms(1) show ?thesis
    by (auto split: option.splits)
qed

text \<open>
  Sending confirmed data puts at most \<open>maxRetries + 1\<close> copies of one and the same frame
  on the line, whatever responses, timeouts and negative acknowledgements come back. On
  success the link is idle again and the frame count bit has moved on; on failure the bit is
  what it was and the link is in its error state, in which every operation is refused
  without any effect.
\<close>

theorem master_confirmed_outcome:
  assumes "SendConfirmedUserData m d = (r, m')" and "mlState m = LinkStateIdle"
    and "Serialize (SetFCB (primary_frame m FuncUserDataConfirmed d) (\<not> mlFcb m)) = Inr w"
  shows "(\<exists>k. int k \<le> max 0 (mlMaxRetries m + 1) \<and> mlSent m' = mlSent m @ replicate k w)
    \<and> (r = None \<longrightarrow> mlState m' = LinkStateIdle \<and> mlFcb m' = (\<not> mlFcb m))
    \<and> (r \<noteq> None \<longrightarrow> mlState m' = LinkStateError \<and> mlFcb m' = mlFcb m)"
  using assms by (rule confirmed_outcome)

abbreviation sample_master :: "wait_event list \<Rightarrow> MasterLink" where
  "sample_master ws \<equiv> (NewMasterLink 1 10 1000 2 None False)\<lparr>mlWaits := ws\<rparr>"

theorem master_confirmed_outcome_witness:
  "\<exists>r m' w k. SendConfirmedUserData (sample_master [WaitTimeout []]) [1] = (r, m') \<and> k \<le> 3
    \<and> mlSent m' = replicate k w"
proof -
  let ?m = "sample_master [WaitTimeout []]"
  obtain w where w: "Serialize (SetFCB (primary_frame ?m FuncUserDataConfirmed [1]) (\<not> mlFcb ?m)) = Inr w"
    using confirmed_serializes [of "[1]" ?m "\<not> mlFcb ?m"] by auto
  obtain r m' where r: "SendConfirmedUserData ?m [1] = (r, m')" by fastforce
  have "mlState ?m = LinkStateIdle" by (simp add: NewMasterLink_def)
  from master_confirmed_outcome [OF r this w] r show ?thesis
    by (auto simp: NewMasterLink_def)
qed

text \<open>
  The error state is final. In any state but idle, and so after any failed operation,
  every operation of the master link is refused with \<open>ErrInvalidState\<close>, sends nothing and
  changes nothing, so no operation leads out of the error state.
\<close>

theorem master_error_is_final:
  assumes "mlState m \<noteq> LinkStateIdle"
  shows "ResetLink m = (Some (MasterErr ErrInvalidState), m)
    \<and> ResetUserProcess m = (Some (MasterErr ErrInvalidState), m)
    \<and> TestLink m = (Some (MasterErr ErrInvalidState), m)
    \<and> RequestLinkStatus m = (Some (MasterErr ErrInvalidState), m)
    \<and> SendConfirmedUserData m d = (Some (MasterErr ErrInvalidState), m)
    \<and> MasterLink_SendUnconfirmedUserData m d = (Some (MasterErr ErrInvalidState), m)
    \<and> MasterLink_Start m = Some (MasterErr ErrInvalidState)
    \<and> mlState (snd (MasterLink_OnFrameReceived m f)) = mlState m"
  using assms OnFrame_line [of m f]
  by (simp add: ResetLink_def ResetUserProcess_def TestLink_def RequestLinkStatus_def
      SendConfirmedUserData_def MasterLink_SendUnconfirmedUserData_def MasterLink_Start_def
      same_line_def)

theorem master_error_is_final_witness:
  "ResetLink ((NewMasterLink 1 10 1000 2 None False)\<lparr>mlState := LinkStateError\<rparr>)
    = (Some (MasterErr ErrInvalidState), (NewMasterLink 1 10 1000 2 None False)\<lparr>mlState := LinkStateError\<rparr>)"
  using master_error_is_final [of "(NewMasterLink 1 10 1000 2 None False)\<lparr>mlState := LinkStateError\<rparr>"]
  by simp

text \<open>
  A negative acknowledgement is reported as success. When the first response to
  confirmed data is a NACK and a retry is left, the frame is sent once more and
  \<open>SendConfirmedUserData\<close> returns no error without waiting for the answer to it.
\<close>

theorem master_nack_reported_as_success:
  assumes "mlState m = LinkStateIdle" and "1 \<le> mlMaxRetries m" and "mlSelects m = []"
    and "mlResponses m = []" and "mlWaits m = WaitResponse [nack] # ws"
    and "nack = NewNACKFrame (mlLocalAddress m) (mlRemoteAddress m)"
    and "Serialize (SetFCB (primary_frame m FuncUserDataConfirmed d) (\<not> mlFcb m)) = Inr w"
  shows "\<exists>m'. SendConfirmedUserData m d = (None, m') \<and> mlState m' = LinkStateIdle
    \<and> mlSent m' = mlSent m @ [w, w] \<and> mlWaits m' = ws"
proof -
  let ?f = "SetFCB (primary_frame m FuncUserDataConfirmed d) (\<not> mlFcb m)"
  have nack: "fSource nack = mlRemoteAddress m" "fDestination nack = mlLocalAddress m"
    "fFunctionCode nack = 1"
    by (simp_all add: assms(6) NewNACKFrame_def NewFrame_def buildControl_def Let_def)
  have "primary_frame (m\<lparr>mlState := a, mlFcb := b\<rparr>) = primary_frame m" for a b
    by (simp add: primary_frame_def fun_eq_iff)
  then show ?thesis
    using assms(1-5,7) nack
    by (simp add: SendConfirmedUserData_def sendWithRetry_def retry_loop.simps
        MasterLink_transmit_def wait_response_def receive_frames_def
        MasterLink_OnFrameReceived_def handleResponse_def Let_def)
qed

theorem master_nack_reported_as_success_witness:
  "\<exists>m'. SendConfirmedUserData (sample_master [WaitResponse [NewNACKFrame 1 10]]) [1] = (None, m')
    \<and> mlState m' = LinkStateIdle"
proof -
  let ?m = "sample_master [WaitResponse [NewNACKFrame 1 10]]"
  obtain w where w: "Serialize (SetFCB (primary_frame ?m FuncUserDataConfirmed [1]) (\<not> mlFcb ?m)) = Inr w"
    using confirmed_serializes [of "[1]" ?m "\<not> mlFcb ?m"] by auto
  have "mlState ?m = LinkStateIdle" "1 \<le> mlMaxRetries ?m" "mlSelects ?m = []"
    "mlResponses ?m = []" "mlWaits ?m = WaitResponse [NewNACKFrame 1 10] # []"
    "NewNACKFrame 1 10 = NewNACKFrame (mlLocalAddress ?m) (mlRemoteAddress ?m)"
    by (simp_all add: NewMasterLink_def)
  from master_nack_reported_as_success [OF this w] show ?thesis by blast
qed

end
