(* ===== verification/Link_Outstation.thy ===== *)
theory Link_Outstation
  imports Link_Frame Fcb_Receiver
begin

text \<open>
  \<open>pkg/link/outstation_link.go\<close>: the frame count bit validator and the link layer of the
  outstation: every handler of a received frame, its responses and the unsolicited frames.
  A \<open>select\<close> between the send channel and the cancelled context is an entry of \<open>olSelects\<close>:
  \<open>True\<close> if it sends, \<open>False\<close> if the context was done; when the sequence is used up it
  sends. Data handed to the callback is logged in \<open>olHanded\<close>, frames put on the send
  channel in \<open>olSent\<close>. The mutexes make each access to the state atomic and have no other
  effect in a sequential run.
\<close>

unbundle bit_operations_syntax

section \<open>The frame count bit validator\<close>

record FCBValidator =
  lastFCB :: bool
  initialized :: bool

definition NewFCBValidator :: FCBValidator where
  "NewFCBValidator = \<lparr>lastFCB = False, initialized = False\<rparr>"

text \<open>The result is whether the frame is a duplicate.\<close>

definition ValidateAndUpdate :: "FCBValidator \<Rightarrow> bool \<Rightarrow> bool \<Rightarrow> bool \<times> FCBValidator" where
  "ValidateAndUpdate v fcb fcv =
     (if \<not> fcv then (False, v)
      else if \<not> initialized v then (False, v\<lparr>initialized := True, lastFCB := fcb\<rparr>)
      else if fcb = lastFCB v then (True, v)
      else (False, v\<lparr>lastFCB := fcb\<rparr>))"

definition FCBValidator_Reset :: "FCBValidator \<Rightarrow> FCBValidator" where
  "FCBValidator_Reset v = v\<lparr>initialized := False, lastFCB := False\<rparr>"

text \<open>The validator as a receiver of confirmed frames.\<close>

definition fcb_new :: "FCBValidator \<Rightarrow> bool \<Rightarrow> bool \<times> FCBValidator" where
  "fcb_new v b = (case ValidateAndUpdate v b True of (dup, v') \<Rightarrow> (\<not> dup, v'))"

definition fcb_synced :: "FCBValidator \<Rightarrow> bool \<Rightarrow> bool" where
  "fcb_synced v b \<longleftrightarrow> (initialized v \<longrightarrow> lastFCB v \<noteq> b)"

definition fcb_took :: "FCBValidator \<Rightarrow> bool \<Rightarrow> bool" where
  "fcb_took v b \<longleftrightarrow> initialized v \<and> lastFCB v = b"

interpretation lax_fcb: fcb_receiver fcb_new fcb_synced fcb_took
  by unfold_locales
    (auto simp: fcb_new_def fcb_synced_def fcb_took_def ValidateAndUpdate_def)

section \<open>State and errors\<close>

datatype out_err =
    OutLink link_err
  | NonPrimaryFrame
  | UnsolicitedNotEnabled
  | OutContextDone
  | OutCallback nat
  | OutstationCannotInitiate

type_synonym data_callback = "(bytes \<Rightarrow> nat option) option"

record OutstationLink =
  olLocalAddress :: u16
  olRemoteAddress :: u16
  olTimeout :: int
  olState :: LinkState
  olFcbValidator :: FCBValidator
  olUnsolicitedEnabled :: bool
  olDataCallback :: data_callback
  olSelects :: "bool list"
  olSent :: "bytes list"
  olHanded :: "bytes list"

definition NewOutstationLink :: "u16 \<Rightarrow> u16 \<Rightarrow> int \<Rightarrow> data_callback \<Rightarrow> bool list \<Rightarrow> OutstationLink" where
  "NewOutstationLink local remote timeout callback selects =
     \<lparr>olLocalAddress = local, olRemoteAddress = remote, olTimeout = timeout,
      olState = LinkStateIdle, olFcbValidator = NewFCBValidator, olUnsolicitedEnabled = False,
      olDataCallback = callback, olSelects = selects, olSent = [], olHanded = []\<rparr>"

section \<open>Sending\<close>

definition transmit :: "OutstationLink \<Rightarrow> Frame \<Rightarrow> out_err option \<times> OutstationLink" where
  "transmit ol frame =
     (case Serialize frame of
        Inl err \<Rightarrow> (Some (OutLink err), ol)
      | Inr data \<Rightarrow>
          (case olSelects ol of
             False # ss \<Rightarrow> (Some OutContextDone, ol\<lparr>olSelects := ss\<rparr>)
           | True # ss \<Rightarrow> (None, ol\<lparr>olSelects := ss, olSent := olSent ol @ [data]\<rparr>)
           | [] \<Rightarrow> (None, ol\<lparr>olSent := olSent ol @ [data]\<rparr>)))"

definition secondary_frame :: "OutstationLink \<Rightarrow> FunctionCode \<Rightarrow> bytes \<Rightarrow> Frame" where
  "secondary_frame ol fc data =
     NewFrame DirectionOutstationToMaster SecondaryFrame fc (olRemoteAddress ol)
       (olLocalAddress ol) data"

definition sendACK :: "OutstationLink \<Rightarrow> out_err option \<times> OutstationLink" where
  "sendACK ol = transmit ol (secondary_frame ol FuncAck [])"

definition sendNACK :: "OutstationLink \<Rightarrow> out_err option \<times> OutstationLink" where
  "sendNACK ol = transmit ol (secondary_frame ol FuncNack [])"

definition sendLinkStatus :: "OutstationLink \<Rightarrow> out_err option \<times> OutstationLink" where
  "sendLinkStatus ol = transmit ol (secondary_frame ol FuncLinkStatusResponse [])"

definition sendLinkNotUsed :: "OutstationLink \<Rightarrow> out_err option \<times> OutstationLink" where
  "sendLinkNotUsed ol = transmit ol (secondary_frame ol FuncLinkNotUsed [])"

definition EnableUnsolicited :: "OutstationLink \<Rightarrow> bool \<Rightarrow> OutstationLink" where
  "EnableUnsolicited ol enable = ol\<lparr>olUnsolicitedEnabled := enable\<rparr>"

definition SendUnsolicitedData :: "OutstationLink \<Rightarrow> bytes \<Rightarrow> out_err option \<times> OutstationLink" where
  "SendUnsolicitedData ol data =
     (if \<not> olUnsolicitedEnabled ol then (Some UnsolicitedNotEnabled, ol)
      else transmit ol (secondary_frame ol FuncUserDataUnconfirmed data))"

definition SendUnconfirmedUserData ::
  "OutstationLink \<Rightarrow> bytes \<Rightarrow> out_err option \<times> OutstationLink" where
  "SendUnconfirmedUserData ol data = SendUnsolicitedData ol data"

section \<open>Handling a received frame\<close>

text \<open>A call of the data callback, if there is one.\<close>

definition call_data :: "OutstationLink \<Rightarrow> bytes \<Rightarrow> out_err option \<times> OutstationLink" where
  "call_data ol data =
     (case olDataCallback ol of
        None \<Rightarrow> (None, ol)
      | Some cb \<Rightarrow>
          (case cb data of
             None \<Rightarrow> (None, ol\<lparr>olHanded := olHanded ol @ [data]\<rparr>)
           | Some e \<Rightarrow> (Some (OutCallback e), ol\<lparr>olHanded := olHanded ol @ [data]\<rparr>)))"

definition handleResetLink :: "OutstationLink \<Rightarrow> Frame \<Rightarrow> out_err option \<times> OutstationLink" where
  "handleResetLink ol frame =
     sendACK (ol\<lparr>olFcbValidator := FCBValidator_Reset (olFcbValidator ol)\<rparr>)"

definition handleResetUserProcess ::
  "OutstationLink \<Rightarrow> Frame \<Rightarrow> out_err option \<times> OutstationLink" where
  "handleResetUserProcess ol frame = sendACK ol"

definition handleTestLink :: "OutstationLink \<Rightarrow> Frame \<Rightarrow> out_err option \<times> OutstationLink" where
  "handleTestLink ol frame = sendACK ol"

definition handleConfirmedUserData ::
  "OutstationLink \<Rightarrow> Frame \<Rightarrow> out_err option \<times> OutstationLink" where
  "handleConfirmedUserData ol frame =
     (case ValidateAndUpdate (olFcbValidator ol) (fFCB frame) (fFCV frame) of
        (isDuplicate, v) \<Rightarrow>
          let ol1 = ol\<lparr>olFcbValidator := v\<rparr>
          in if isDuplicate then sendACK ol1
             else (case call_data ol1 (fUserData frame) of
                     (Some _, ol2) \<Rightarrow> sendNACK ol2
                   | (None, ol2) \<Rightarrow> sendACK ol2))"

definition handleUnconfirmedUserData ::
  "OutstationLink \<Rightarrow> Frame \<Rightarrow> out_err option \<times> OutstationLink" where
  "handleUnconfirmedUserData ol frame = call_data ol (fUserData frame)"

definition handleRequestLinkStatus ::
  "OutstationLink \<Rightarrow> Frame \<Rightarrow> out_err option \<times> OutstationLink" where
  "handleRequestLinkStatus ol frame = sendLinkStatus ol"

definition OnFrameReceived :: "OutstationLink \<Rightarrow> Frame \<Rightarrow> out_err option \<times> OutstationLink" where
  "OnFrameReceived ol frame =
     (if fSource frame \<noteq> olRemoteAddress ol \<or> fDestination frame \<noteq> olLocalAddress ol
      then (Some (OutLink ErrInvalidAddress), ol)
      else if fIsPrimary frame \<noteq> PrimaryFrame then (Some NonPrimaryFrame, ol)
      else if fDir frame \<noteq> DirectionMasterToOutstation then (Some (OutLink ErrInvalidDirection), ol)
      else let ol1 = ol\<lparr>olState := LinkStateProcessing\<rparr>;
               fc = fFunctionCode frame;
               (err, ol2) =
                 (if fc = FuncResetLink then handleResetLink ol1 frame
                  else if fc = FuncResetUserProcess then handleResetUserProcess ol1 frame
                  else if fc = FuncTestLinkStates then handleTestLink ol1 frame
                  else if fc = FuncUserDataConfirmed then handleConfirmedUserData ol1 frame
                  else if fc = FuncUserDataUnconfirmed then handleUnconfirmedUserData ol1 frame
                  else if fc = FuncRequestLinkStatus then handleRequestLinkStatus ol1 frame
                  else sendLinkNotUsed ol1)
           in (err, ol2\<lparr>olState := (if err = None then LinkStateIdle else LinkStateError)\<rparr>))"

section \<open>Lifecycle\<close>

definition OutstationLink_Start :: "OutstationLink \<Rightarrow> out_err option" where
  "OutstationLink_Start ol =
     (if olState ol \<noteq> LinkStateIdle then Some (OutLink ErrInvalidState) else None)"

definition OutstationLink_IsOnline :: "OutstationLink \<Rightarrow> bool" where
  "OutstationLink_IsOnline ol \<longleftrightarrow> olState ol = LinkStateIdle"

definition OutstationLink_SetTimeout :: "OutstationLink \<Rightarrow> int \<Rightarrow> OutstationLink" where
  "OutstationLink_SetTimeout ol duration = ol\<lparr>olTimeout := duration\<rparr>"

text \<open>\<open>ResetLink\<close>, \<open>ResetUserProcess\<close>, \<open>TestLink\<close>, \<open>RequestLinkStatus\<close>, \<open>SendConfirmedUserData\<close>.\<close>

definition outstation_initiates :: "OutstationLink \<Rightarrow> out_err option" where
  "outstation_initiates ol = Some OutstationCannotInitiate"

section \<open>Confirmed data\<close>

text \<open>Every frame the outstation sends is a well-formed secondary frame to the master.\<close>

lemma secondary_frame_valid:
  "fc AND 0x0F = fc \<Longrightarrow> length d \<le> 250 \<Longrightarrow> frame_valid (secondary_frame ol fc d)"
  by (simp add: secondary_frame_def frame_valid_def) (simp add: NewFrame_def buildControl_def Let_def)

definition response_bytes :: "OutstationLink \<Rightarrow> FunctionCode \<Rightarrow> bytes" where
  "response_bytes ol fc = frame_bytes (secondary_frame ol fc [])"

lemma transmit_response:
  assumes "olSelects o' = []" and "fc AND 0x0F = fc"
  shows "transmit o' (secondary_frame ol fc []) = (None, o'\<lparr>olSent := olSent o' @ [response_bytes ol fc]\<rparr>)"
  using assms Serialize_valid [OF secondary_frame_valid [OF assms(2), of "[]" ol]]
  by (simp add: transmit_def response_bytes_def)

lemma secondary_frame_cong [simp]:
  "secondary_frame (ol\<lparr>olState := a\<rparr>) = secondary_frame ol"
  "secondary_frame (ol\<lparr>olFcbValidator := v\<rparr>) = secondary_frame ol"
  "secondary_frame (ol\<lparr>olHanded := h\<rparr>) = secondary_frame ol"
  "secondary_frame (ol\<lparr>olSent := b\<rparr>) = secondary_frame ol"
  by (simp_all add: secondary_frame_def fun_eq_iff)

lemma response_bytes_cong [simp]:
  "response_bytes (ol\<lparr>olState := a\<rparr>) = response_bytes ol"
  "response_bytes (ol\<lparr>olFcbValidator := v\<rparr>) = response_bytes ol"
  "response_bytes (ol\<lparr>olHanded := h\<rparr>) = response_bytes ol"
  "response_bytes (ol\<lparr>olSent := b\<rparr>) = response_bytes ol"
  by (simp_all add: response_bytes_def fun_eq_iff)

lemma confirmed_frame_sel [simp]:
  "fSource (NewConfirmedUserDataFrame dst src d b) = src"
  "fDestination (NewConfirmedUserDataFrame dst src d b) = dst"
  "fIsPrimary (NewConfirmedUserDataFrame dst src d b)"
  "fDir (NewConfirmedUserDataFrame dst src d b)"
  "fFunctionCode (NewConfirmedUserDataFrame dst src d b) = 3"
  "fFCB (NewConfirmedUserDataFrame dst src d b) = b"
  "fFCV (NewConfirmedUserDataFrame dst src d b)"
  "fUserData (NewConfirmedUserDataFrame dst src d b) = d"
  by (simp_all add: NewConfirmedUserDataFrame_def NewFrame_def SetFCB_def buildControl_def Let_def)

abbreviation confirmed_to :: "OutstationLink \<Rightarrow> bool \<Rightarrow> bytes \<Rightarrow> Frame" where
  "confirmed_to ol b d \<equiv> NewConfirmedUserDataFrame (olLocalAddress ol) (olRemoteAddress ol) d b"

lemma OnFrameReceived_confirmed:
  assumes "olSelects ol = []" and "olDataCallback ol = Some cb"
  shows "OnFrameReceived ol (confirmed_to ol b d) =
    (let (new, v) = fcb_new (olFcbValidator ol) b
     in (None, ol\<lparr>olState := LinkStateIdle, olFcbValidator := v,
           olHanded := olHanded ol @ (if new then [d] else []),
           olSent := olSent ol @ [response_bytes ol (if new \<and> cb d \<noteq> None then 1 else 0)]\<rparr>))"
proof -
  have resp: "transmit o' (secondary_frame ol fc []) = (None, o'\<lparr>olSent := olSent o' @ [response_bytes ol fc]\<rparr>)"
    if "olSelects o' = []" "fc = 0 \<or> fc = 1" for o' fc
    using that transmit_response [of o' fc ol] by auto
  show ?thesis
    using assms
    by (cases "ValidateAndUpdate (olFcbValidator ol) b True")
      (auto simp: OnFrameReceived_def handleConfirmedUserData_def call_data_def sendACK_def
        sendNACK_def resp fcb_new_def split: option.splits)
qed

text \<open>The outstation link over a sequence of received frames.\<close>

definition receive_all :: "OutstationLink \<Rightarrow> Frame list \<Rightarrow> OutstationLink" where
  "receive_all ol fs = foldl (\<lambda>o' f. snd (OnFrameReceived o' f)) ol fs"

lemma receive_all_simps [simp]:
  "receive_all ol [] = ol"
  "receive_all ol (f # fs) = receive_all (snd (OnFrameReceived ol f)) fs"
  by (simp_all add: receive_all_def)

lemma receive_all_confirmed:
  assumes "olSelects ol = []" and "olDataCallback ol = Some cb" and "\<forall>d. cb d = None"
  shows "olHanded (receive_all ol (map (\<lambda>(b, d). confirmed_to ol b d) fs))
      = olHanded ol @ fst (fcb_receive fcb_new (olFcbValidator ol) fs)
    \<and> olSent (receive_all ol (map (\<lambda>(b, d). confirmed_to ol b d) fs))
      = olSent ol @ replicate (length fs) (response_bytes ol FuncAck)"
  using assms
proof (induction fs arbitrary: ol)
  case Nil
  then show ?case by simp
next
  case (Cons bd fs)
  obtain b d where bd: "bd = (b, d)" by (cases bd)
  obtain new v where v: "fcb_new (olFcbValidator ol) b = (new, v)" by (cases "fcb_new (olFcbValidator ol) b")
  let ?ol = "ol\<lparr>olState := LinkStateIdle, olFcbValidator := v,
     olHanded := olHanded ol @ (if new then [d] else []), olSent := olSent ol @ [response_bytes ol 0]\<rparr>"
  have "OnFrameReceived ol (confirmed_to ol b d) = (None, ?ol)"
    using OnFrameReceived_confirmed [OF Cons.prems(1,2), of d b] Cons.prems(3) v by simp
  then show ?case
    using Cons.IH [of ?ol] Cons.prems by (simp add: bd v split: prod.split)
qed

section \<open>Properties\<close>

text \<open>
  The outstation's user sees every confirmed message exactly once, in order, however
  often the master repeats each of them: if the master alternates the frame count bit from
  message to message and the callback accepts the data, the callback gets the messages
  without the repetitions, and every frame received is answered with an ACK.
\<close>

theorem outstation_exactly_once:
  assumes "olSelects ol = []" and "olDataCallback ol = Some cb" and "\<forall>d. cb d = None"
    and "initialized (olFcbValidator ol) \<longrightarrow> lastFCB (olFcbValidator ol) \<noteq> b"
  shows "olHanded (receive_all ol (map (\<lambda>(b, d). confirmed_to ol b d) (transmissions b ms)))
      = olHanded ol @ map fst ms
    \<and> olSent (receive_all ol (map (\<lambda>(b, d). confirmed_to ol b d) (transmissions b ms)))
      = olSent ol @ replicate (length (transmissions b ms)) (response_bytes ol FuncAck)"
  using receive_all_confirmed [OF assms(1-3), of "transmissions b ms"] assms(4)
    lax_fcb.exactly_once [of "olFcbValidator ol" b ms]
  by (simp add: fcb_synced_def)

abbreviation sample_outstation :: OutstationLink where
  "sample_outstation \<equiv> NewOutstationLink 10 1 1000 (Some (\<lambda>d. None)) []"

theorem outstation_exactly_once_witness:
  "olHanded (receive_all sample_outstation
     (map (\<lambda>(b, d). confirmed_to sample_outstation b d) (transmissions True [([1], 2), ([2], 0)])))
    = [[1], [2]]"
proof -
  have "olSelects sample_outstation = []"
    "olDataCallback sample_outstation = Some (\<lambda>d. None)" "\<forall>d::bytes. None = (None::nat option)"
    "initialized (olFcbValidator sample_outstation) \<longrightarrow> lastFCB (olFcbValidator sample_outstation) \<noteq> True"
    by (simp_all add: NewOutstationLink_def NewFCBValidator_def)
  from outstation_exactly_once [OF this, of "[([1], 2), ([2], 0)]"] show ?thesis
    by (simp add: NewOutstationLink_def)
qed

text \<open>
  Confirmed data the application refuses is lost. When the callback fails, the
  outstation answers NACK but has already recorded the frame count bit, so when the master
  repeats the frame the outstation acknowledges it as a duplicate without handing the data
  over again.
\<close>

theorem outstation_nack_loses_data:
  assumes "olSelects ol = []" and "olDataCallback ol = Some cb" and "cb d = Some e"
    and "fst (fcb_new (olFcbValidator ol) b)"
  shows "olSent (receive_all ol [confirmed_to ol b d, confirmed_to ol b d])
      = olSent ol @ [response_bytes ol FuncNack, response_bytes ol FuncAck]
    \<and> olHanded (receive_all ol [confirmed_to ol b d, confirmed_to ol b d]) = olHanded ol @ [d]"
proof -
  obtain v where v: "fcb_new (olFcbValidator ol) b = (True, v)"
    using assms(4) by (cases "fcb_new (olFcbValidator ol) b") simp
  then have dup: "fcb_new v b = (False, v)"
    by (auto simp: fcb_new_def ValidateAndUpdate_def split: if_splits)
  let ?ol = "ol\<lparr>olState := LinkStateIdle, olFcbValidator := v, olHanded := olHanded ol @ [d],
    olSent := olSent ol @ [response_bytes ol 1]\<rparr>"
  have "OnFrameReceived ol (confirmed_to ol b d) = (None, ?ol)"
    using OnFrameReceived_confirmed [OF assms(1,2), of d b] assms(3) v by simp
  moreover have "OnFrameReceived ?ol (confirmed_to ?ol b d)
      = (None, ?ol\<lparr>olSent := olSent ?ol @ [response_bytes ol 0]\<rparr>)"
    using OnFrameReceived_confirmed [of ?ol cb d b] assms(1,2) dup by simp
  ultimately show ?thesis by simp
qed

theorem outstation_nack_loses_data_witness:
  "olHanded (receive_all (NewOutstationLink 10 1 1000 (Some (\<lambda>d. Some 7)) [])
      [NewConfirmedUserDataFrame 10 1 [5] True, NewConfirmedUserDataFrame 10 1 [5] True]) = [[5]]"
proof -
  let ?o = "NewOutstationLink 10 1 1000 (Some (\<lambda>d. Some 7)) []"
  have "olSelects ?o = []" "olDataCallback ?o = Some (\<lambda>d. Some 7)"
    "(\<lambda>d::bytes. Some (7::nat)) [5] = Some 7" "fst (fcb_new (olFcbValidator ?o) True)"
    by (simp_all add: NewOutstationLink_def NewFCBValidator_def fcb_new_def ValidateAndUpdate_def)
  from outstation_nack_loses_data [OF this] show ?thesis
    by (simp add: NewOutstationLink_def)
qed

end
