(* ===== verification/Link_Interface.thy ===== *)
theory Link_Interface
  imports Link_Master Link_Outstation "HOL-Library.Sublist"
begin

text \<open>
  \<open>pkg/link/interface.go\<close>: the configuration of a link layer and the contract that both link layers
  keep, as a locale. What follows from the contract is proved there once: on a line that several
  stations share, a link is affected by the frames between itself and its peer only, and what it
  hands up is data of those frames, in order.
\<close>

section \<open>Configuration\<close>

record LinkLayerConfig =
  lcLocalAddress :: u16
  lcRemoteAddress :: u16
  lcIsMaster :: bool
  lcTimeout :: int
  lcMaxRetries :: int
  lcDataCallback :: "(bytes \<Rightarrow> nat option) option"
  lcStatusCallback :: bool

definition DefaultLinkLayerConfig :: LinkLayerConfig where
  "DefaultLinkLayerConfig =
     \<lparr>lcLocalAddress = 1, lcRemoteAddress = 1024, lcIsMaster = True, lcTimeout = 2 * 10 ^ 9,
      lcMaxRetries = 3, lcDataCallback = None, lcStatusCallback = False\<rparr>"

text \<open>The constructors read the configuration; \<open>IsMaster\<close> is read by neither.\<close>

definition master_link :: "LinkLayerConfig \<Rightarrow> MasterLink" where
  "master_link config =
     NewMasterLink (lcLocalAddress config) (lcRemoteAddress config) (lcTimeout config)
       (lcMaxRetries config) (lcDataCallback config) (lcStatusCallback config)"

definition outstation_link :: "LinkLayerConfig \<Rightarrow> OutstationLink" where
  "outstation_link config =
     NewOutstationLink (lcLocalAddress config) (lcRemoteAddress config) (lcTimeout config)
       (lcDataCallback config) []"

definition MasterLink_GetState :: "MasterLink \<Rightarrow> LinkState" where
  "MasterLink_GetState m = mlState m"

definition GetFCB :: "MasterLink \<Rightarrow> bool" where
  "GetFCB m = mlFcb m"

definition OutstationLink_GetState :: "OutstationLink \<Rightarrow> LinkState" where
  "OutstationLink_GetState ol = olState ol"

definition OutstationLink_SetRetries :: "OutstationLink \<Rightarrow> int \<Rightarrow> OutstationLink" where
  "OutstationLink_SetRetries ol count = ol"

section \<open>The contract\<close>

locale link_layer =
  fixes OnFrameReceived :: "'s \<Rightarrow> Frame \<Rightarrow> 'e option \<times> 's"
    and GetState :: "'s \<Rightarrow> LinkState"
    and IsOnline :: "'s \<Rightarrow> bool"
    and Start :: "'s \<Rightarrow> 'e option"
    and SetTimeout :: "'s \<Rightarrow> int \<Rightarrow> 's"
    and SetRetries :: "'s \<Rightarrow> int \<Rightarrow> 's"
    and ends :: "'s \<Rightarrow> u16 \<times> u16"
    and handed :: "'s \<Rightarrow> bytes list"
  assumes foreign_refused: "ends s \<noteq> (fDestination f, fSource f) \<Longrightarrow>
      fst (OnFrameReceived s f) \<noteq> None \<and> snd (OnFrameReceived s f) = s"
    and ends_kept: "ends (snd (OnFrameReceived s f)) = ends s"
    and hands_once: "handed (snd (OnFrameReceived s f)) \<in> {handed s, handed s @ [fUserData f]}"
    and start_idle: "Start s = None \<longleftrightarrow> GetState s = LinkStateIdle"
    and idle_online: "GetState s = LinkStateIdle \<Longrightarrow> IsOnline s"
    and set_keeps: "GetState (SetTimeout s t) = GetState s" "ends (SetTimeout s t) = ends s"
      "GetState (SetRetries s n) = GetState s" "ends (SetRetries s n) = ends s"
begin

definition receive :: "'s \<Rightarrow> Frame list \<Rightarrow> 's" where
  "receive s fs = foldl (\<lambda>t f. snd (OnFrameReceived t f)) s fs"

definition mine :: "'s \<Rightarrow> Frame \<Rightarrow> bool" where
  "mine s f \<longleftrightarrow> ends s = (fDestination f, fSource f)"

lemma receive_simps [simp]:
  "receive s [] = s" "receive s (f # fs) = receive (snd (OnFrameReceived s f)) fs"
  by (simp_all add: receive_def)

lemma mine_kept [simp]: "mine (snd (OnFrameReceived s f)) = mine s"
  by (simp add: mine_def ends_kept fun_eq_iff)

lemma started_online: "Start s = None \<Longrightarrow> IsOnline (SetTimeout (SetRetries s n) t)"
  by (simp add: start_idle idle_online set_keeps)

lemma receive_mine: "receive s fs = receive s (filter (mine s) fs)"
proof (induction fs arbitrary: s)
  case Nil
  then show ?case by simp
next
  case (Cons f fs)
  show ?case
    using Cons.IH [of "snd (OnFrameReceived s f)"] foreign_refused [of s f] by (auto simp: mine_def)
qed

lemma handed_mine: "\<exists>ds. handed (receive s fs) = handed s @ ds \<and> subseq ds (map fUserData (filter (mine s) fs))"
proof (induction fs arbitrary: s)
  case Nil
  then show ?case by simp
next
  case (Cons f fs)
  let ?s = "snd (OnFrameReceived s f)"
  obtain ds where ds: "handed (receive ?s fs) = handed ?s @ ds" "subseq ds (map fUserData (filter (mine s) fs))"
    using Cons.IH [of ?s] by auto
  show ?case
  proof (cases "mine s f")
    case True
    then show ?thesis
      using ds hands_once [of s f] by (auto intro: exI [of _ ds] exI [of _ "fUserData f # ds"])
  next
    case False
    then have "?s = s" using foreign_refused [of s f] by (simp add: mine_def)
    then show ?thesis using ds False by auto
  qed
qed

end

abbreviation master_ends :: "MasterLink \<Rightarrow> u16 \<times> u16" where
  "master_ends m \<equiv> (mlLocalAddress m, mlRemoteAddress m)"

abbreviation outstation_ends :: "OutstationLink \<Rightarrow> u16 \<times> u16" where
  "outstation_ends ol \<equiv> (olLocalAddress ol, olRemoteAddress ol)"

lemma master_receive_same:
  "mlLocalAddress (snd (MasterLink_OnFrameReceived m f)) = mlLocalAddress m"
  "mlRemoteAddress (snd (MasterLink_OnFrameReceived m f)) = mlRemoteAddress m"
  "mlHanded (snd (MasterLink_OnFrameReceived m f)) \<in> {mlHanded m, mlHanded m @ [fUserData f]}"
  by (simp_all add: MasterLink_OnFrameReceived_def master_call_data_def Let_def
      split: list.split bool.split option.split)

interpretation master_layer: link_layer MasterLink_OnFrameReceived MasterLink_GetState MasterLink_IsOnline
    MasterLink_Start MasterLink_SetTimeout MasterLink_SetRetries master_ends mlHanded
proof unfold_locales
  fix s :: MasterLink and f :: Frame
  assume "master_ends s \<noteq> (fDestination f, fSource f)"
  then show "fst (MasterLink_OnFrameReceived s f) \<noteq> None \<and> snd (MasterLink_OnFrameReceived s f) = s"
    by (auto simp: MasterLink_OnFrameReceived_def)
qed (use master_receive_same in \<open>auto simp: MasterLink_GetState_def MasterLink_IsOnline_def
       MasterLink_Start_def MasterLink_SetTimeout_def MasterLink_SetRetries_def\<close>)

text \<open>Every handler of the outstation keeps the addresses and hands up the data of its frame at most.\<close>

definition hands_at_most :: "bytes \<Rightarrow> OutstationLink \<Rightarrow> OutstationLink \<Rightarrow> bool" where
  "hands_at_most d ol ol' \<longleftrightarrow> outstation_ends ol' = outstation_ends ol
     \<and> olHanded ol' \<in> {olHanded ol, olHanded ol @ [d]}"

lemma transmit_hands: "hands_at_most d ol (snd (transmit ol f))"
  by (simp add: hands_at_most_def transmit_def split: sum.split list.split bool.split)

lemma call_data_hands:
  "hands_at_most d ol (snd (call_data ol d))" "call_data ol d = (r, ol') \<Longrightarrow> hands_at_most d ol (snd (transmit ol' f))"
  by (auto simp: hands_at_most_def call_data_def transmit_def split: option.splits sum.split list.split bool.split)

lemma hands_at_most_upd [simp]:
  "hands_at_most d (ol\<lparr>olState := a\<rparr>) ol' = hands_at_most d ol ol'"
  "hands_at_most d (ol\<lparr>olFcbValidator := v\<rparr>) ol' = hands_at_most d ol ol'"
  "hands_at_most d ol (ol'\<lparr>olState := a\<rparr>) = hands_at_most d ol ol'"
  by (simp_all add: hands_at_most_def)

lemma confirmed_hands: "hands_at_most (fUserData f) ol (snd (handleConfirmedUserData ol f))"
proof -
  obtain dup v where v: "ValidateAndUpdate (olFcbValidator ol) (fFCB f) (fFCV f) = (dup, v)" by fastforce
  let ?ol = "ol\<lparr>olFcbValidator := v\<rparr>"
  have "hands_at_most (fUserData f) ?ol (snd (transmit ?ol g))" for g by (rule transmit_hands)
  moreover obtain r ol' where r: "call_data ?ol (fUserData f) = (r, ol')" by fastforce
  note call_data_hands(2) [OF this]
  ultimately show ?thesis
    by (simp add: handleConfirmedUserData_def sendACK_def sendNACK_def v r Let_def split: option.split)
qed

lemma outstation_receive_hands: "hands_at_most (fUserData f) ol (snd (OnFrameReceived ol f))"
proof -
  let ?ol = "ol\<lparr>olState := LinkStateProcessing\<rparr>"
  have "hands_at_most (fUserData f) ol (snd (transmit ?ol g))"
    "hands_at_most (fUserData f) ol (snd (handleResetLink ?ol f))"
    "hands_at_most (fUserData f) ol (snd (call_data ?ol (fUserData f)))"
    "hands_at_most (fUserData f) ol (snd (handleConfirmedUserData ?ol f))" for g
    using transmit_hands [of "fUserData f" ?ol g] call_data_hands(1) [of "fUserData f" ?ol]
      confirmed_hands [of f ?ol]
      transmit_hands [of "fUserData f" "?ol\<lparr>olFcbValidator := FCBValidator_Reset (olFcbValidator ol)\<rparr>"]
    by (simp_all add: handleResetLink_def sendACK_def)
  moreover have "hands_at_most (fUserData f) ol ol" by (simp add: hands_at_most_def)
  ultimately show ?thesis
    by (simp add: OnFrameReceived_def handleResetUserProcess_def handleTestLink_def handleUnconfirmedUserData_def
        handleRequestLinkStatus_def sendACK_def sendLinkStatus_def sendLinkNotUsed_def Let_def split_beta)
qed

interpretation outstation_layer: link_layer OnFrameReceived OutstationLink_GetState OutstationLink_IsOnline
    OutstationLink_Start OutstationLink_SetTimeout OutstationLink_SetRetries outstation_ends olHanded
proof unfold_locales
  fix s :: OutstationLink and f :: Frame
  assume "outstation_ends s \<noteq> (fDestination f, fSource f)"
  then show "fst (OnFrameReceived s f) \<noteq> None \<and> snd (OnFrameReceived s f) = s"
    by (auto simp: OnFrameReceived_def)
qed (use outstation_receive_hands in \<open>auto simp: hands_at_most_def OutstationLink_GetState_def
       OutstationLink_IsOnline_def OutstationLink_Start_def OutstationLink_SetTimeout_def OutstationLink_SetRetries_def\<close>)

section \<open>A line that several outstations share\<close>

text \<open>Every station hears every frame.\<close>

definition broadcast :: "Frame list \<Rightarrow> OutstationLink list \<Rightarrow> OutstationLink list" where
  "broadcast fs = map (\<lambda>ol. receive_all ol fs)"

theorem multidrop_isolation:
  assumes "i < length stations" and "stations ! i = ol"
    and "mine = filter (\<lambda>f. fDestination f = olLocalAddress ol \<and> fSource f = olRemoteAddress ol) fs"
  shows "broadcast fs stations ! i = receive_all ol mine
    \<and> (\<exists>ds. olHanded (broadcast fs stations ! i) = olHanded ol @ ds \<and> subseq ds (map fUserData mine))"
proof -
  have "outstation_layer.receive = receive_all"
    by (simp add: outstation_layer.receive_def receive_all_def fun_eq_iff)
  moreover have "outstation_layer.mine ol = (\<lambda>f. fDestination f = olLocalAddress ol \<and> fSource f = olRemoteAddress ol)"
    by (auto simp: outstation_layer.mine_def)
  ultimately show ?thesis
    using assms outstation_layer.receive_mine [of ol fs] outstation_layer.handed_mine [of ol fs]
    by (simp add: broadcast_def)
qed

end
