(* ===== verification/Link_Lax_Pair.thy ===== *)
theory Link_Lax_Pair
  imports Link_Master Link_Outstation
begin

text \<open>
  The link layers of \<open>master_link.go\<close> and \<open>outstation_link.go\<close> on one line that loses frames
  and delays answers. A call of \<open>SendConfirmedUserData\<close> transmits the same frame until a wait ends with a
  response; the fate of each transmission says what becomes of the frame and of its answer. Frames
  travel as bytes: what the master puts on the line is what \<open>Parse\<close> reads at the outstation, and the
  other way round. The channel of responses of the master is not emptied between calls, so a
  response that comes too late is there for the next call.
\<close>

section \<open>The line\<close>

text \<open>
  The frame is lost; it arrives and its answer is lost; the answer arrives after the wait has timed
  out; the answer arrives during the wait. What is late arrives at the start of the next wait.
\<close>

datatype fate = Lost | Unanswered | Late | Answered

type_synonym line_end = "Frame list \<times> OutstationLink"

definition parsed :: "bytes list \<Rightarrow> Frame list" where
  "parsed ws = concat (map (\<lambda>w. case Parse w of Inl _ \<Rightarrow> [] | Inr (f, _) \<Rightarrow> [f]) ws)"

definition arrive :: "bytes \<Rightarrow> OutstationLink \<Rightarrow> line_end" where
  "arrive w ol =
     (let ol' = receive_all ol (parsed [w])
      in (parsed (drop (length (olSent ol)) (olSent ol')), ol'))"

fun carry :: "fate \<Rightarrow> bytes \<Rightarrow> line_end \<Rightarrow> wait_event \<times> line_end" where
  "carry Lost w (late, ol) = (WaitResponse late, [], ol)"
| "carry Unanswered w (late, ol) = (WaitResponse late, [], snd (arrive w ol))"
| "carry Late w (late, ol) = (WaitResponse late, arrive w ol)"
| "carry Answered w (late, ol) = (case arrive w ol of (answers, ol') \<Rightarrow> (WaitResponse (late @ answers), [], ol'))"

fun carry_all :: "fate list \<Rightarrow> bytes \<Rightarrow> line_end \<Rightarrow> wait_event list \<times> line_end" where
  "carry_all [] w s = ([], s)"
| "carry_all (x # fates) w s =
     (case carry x w s of (e, s') \<Rightarrow> (case carry_all fates w s' of (es, t) \<Rightarrow> (e # es, t)))"

text \<open>A copy for whose answer the master does not wait: the one that follows a NACK.\<close>

fun carry_unwaited :: "fate list \<Rightarrow> bytes \<Rightarrow> line_end \<Rightarrow> line_end" where
  "carry_unwaited [] w s = s"
| "carry_unwaited (x # fates) w (late, ol) =
     carry_unwaited fates w
       (if x = Lost then (late, ol)
        else if x = Unanswered then (late, snd (arrive w ol))
        else (case arrive w ol of (answers, ol') \<Rightarrow> (late @ answers, ol')))"

section \<open>A call of the master\<close>

record lax_pair =
  lpMaster :: MasterLink
  lpOutstation :: OutstationLink
  lpLate :: "Frame list"

text \<open>
  How the waits of a call end depends on the frame only, so the waits are prepared for all fates and
  the line then does what happened to the copies that were sent.
\<close>

definition confirmed_frame :: "MasterLink \<Rightarrow> bytes \<Rightarrow> Frame" where
  "confirmed_frame m data = SetFCB (primary_frame m FuncUserDataConfirmed data) (\<not> mlFcb m)"

definition confirmed_call :: "fate list \<Rightarrow> bytes \<Rightarrow> lax_pair \<Rightarrow> master_err option \<times> lax_pair" where
  "confirmed_call fates data p =
     (let m = lpMaster p;
          w = frame_bytes (confirmed_frame m data);
          line = (lpLate p, lpOutstation p);
          waits = fst (carry_all fates w line);
          (r, m') = SendConfirmedUserData (m\<lparr>mlWaits := waits\<rparr>) data;
          copies = length (mlSent m') - length (mlSent m);
          waited = length waits - length (mlWaits m');
          (late, ol) = carry_unwaited (take (copies - waited) (drop waited fates)) w
                         (snd (carry_all (take waited fates) w line))
      in (r, \<lparr>lpMaster = m', lpOutstation = ol, lpLate = late\<rparr>))"

fun confirmed_calls :: "(fate list \<times> bytes) list \<Rightarrow> lax_pair \<Rightarrow> master_err option list \<times> lax_pair" where
  "confirmed_calls [] p = ([], p)"
| "confirmed_calls ((fates, data) # calls) p =
     (case confirmed_call fates data p of (r, p') \<Rightarrow>
        (case confirmed_calls calls p' of (rs, q) \<Rightarrow> (r # rs, q)))"

text \<open>Nothing is left over from an earlier call.\<close>

definition settled :: "lax_pair \<Rightarrow> bool" where
  "settled p \<longleftrightarrow> lpLate p = [] \<and> mlResponses (lpMaster p) = []"

section \<open>A confirmed frame at the outstation\<close>

text \<open>The outstation takes everything its user is given, and is the peer of the master.\<close>

definition accepts_all :: "OutstationLink \<Rightarrow> bool" where
  "accepts_all ol \<longleftrightarrow> olSelects ol = [] \<and> (\<exists>cb. olDataCallback ol = Some cb \<and> (\<forall>d. cb d = None))"

definition facing :: "MasterLink \<Rightarrow> OutstationLink \<Rightarrow> bool" where
  "facing m ol \<longleftrightarrow> mlRemoteAddress m = olLocalAddress ol \<and> mlLocalAddress m = olRemoteAddress ol"

definition ack_of :: "MasterLink \<Rightarrow> Frame" where
  "ack_of m = NewFrame DirectionOutstationToMaster SecondaryFrame FuncAck (mlLocalAddress m) (mlRemoteAddress m) []"

definition untaken :: "bool \<Rightarrow> bytes list \<Rightarrow> OutstationLink \<Rightarrow> bool" where
  "untaken b handed ol \<longleftrightarrow> fcb_synced (olFcbValidator ol) b \<and> olHanded ol = handed"

definition taken :: "bool \<Rightarrow> bytes list \<Rightarrow> bytes \<Rightarrow> OutstationLink \<Rightarrow> bool" where
  "taken b handed d ol \<longleftrightarrow> fcb_took (olFcbValidator ol) b \<and> olHanded ol = handed @ [d]"

lemma ack_sel [simp]:
  "fSource (ack_of m) = mlRemoteAddress m" "fDestination (ack_of m) = mlLocalAddress m"
  "fFunctionCode (ack_of m) = FuncAck"
  by (simp_all add: ack_of_def NewFrame_def buildControl_def Let_def)

lemma Parse_valid: "frame_valid f \<Longrightarrow> Parse (frame_bytes f) = Inr (f, length (frame_bytes f))"
  using frame_codec.dec_enc [of f "[]"] by simp

lemma parsed_valid: "frame_valid f \<Longrightarrow> parsed [frame_bytes f] = [f]"
  by (simp add: parsed_def Parse_valid)

lemma confirmed_valid: "length d \<le> 250 \<Longrightarrow> frame_valid (NewConfirmedUserDataFrame dst src d b)"
proof -
  have "fIsPrimary (NewFrame DirectionMasterToOutstation PrimaryFrame FuncUserDataConfirmed dst src d)"
    by (simp add: NewFrame_def buildControl_def Let_def)
  then have "wf_frame (NewConfirmedUserDataFrame dst src d b)"
    by (simp add: NewConfirmedUserDataFrame_def)
  then show "length d \<le> 250 \<Longrightarrow> ?thesis" by (simp add: frame_valid_def)
qed

abbreviation confirmed_frame_to :: "MasterLink \<Rightarrow> bool \<Rightarrow> bytes \<Rightarrow> Frame" where
  "confirmed_frame_to m b d \<equiv> NewConfirmedUserDataFrame (mlRemoteAddress m) (mlLocalAddress m) d b"

lemma confirmed_frame_eq: "confirmed_frame m d = confirmed_frame_to m (\<not> mlFcb m) d"
  by (simp add: confirmed_frame_def primary_frame_def NewConfirmedUserDataFrame_def)

lemma arrive_confirmed:
  assumes "facing m ol" and "accepts_all ol" and "length d \<le> 250"
  obtains ol' where "arrive (frame_bytes (confirmed_to ol b d)) ol = ([ack_of m], ol')"
    and "facing m ol'" and "accepts_all ol'"
    and "untaken b handed ol \<longrightarrow> taken b handed d ol'" and "taken b handed e ol \<longrightarrow> taken b handed e ol'"
proof -
  obtain cb where cb: "olDataCallback ol = Some cb" "\<forall>d. cb d = None" "olSelects ol = []"
    using assms(2) by (auto simp: accepts_all_def)
  obtain new v where v: "fcb_new (olFcbValidator ol) b = (new, v)" by fastforce
  let ?ol = "ol\<lparr>olState := LinkStateIdle, olFcbValidator := v,
     olHanded := olHanded ol @ (if new then [d] else []), olSent := olSent ol @ [response_bytes ol FuncAck]\<rparr>"
  have "OnFrameReceived ol (confirmed_to ol b d) = (None, ?ol)"
    using OnFrameReceived_confirmed [OF cb(3,1), of d b] cb(2) v by simp
  moreover have "frame_valid (secondary_frame ol FuncAck [])"
    by (rule secondary_frame_valid) simp_all
  ultimately have "arrive (frame_bytes (confirmed_to ol b d)) ol = ([secondary_frame ol FuncAck []], ?ol)"
    by (simp add: arrive_def parsed_valid confirmed_valid assms(3) response_bytes_def)
  moreover have "secondary_frame ol FuncAck [] = ack_of m"
    using assms(1) by (simp add: secondary_frame_def ack_of_def facing_def)
  ultimately show ?thesis
    using that assms(1,2) v lax_fcb.new_frame [of "olFcbValidator ol" b] lax_fcb.dup_frame [of "olFcbValidator ol" b]
    by (auto simp: facing_def accepts_all_def taken_def untaken_def)
qed

section \<open>A call on the line\<close>

lemma receive_acks:
  "mlSelects m = [] \<Longrightarrow> length (mlResponses m) + k \<le> 10 \<Longrightarrow>
    receive_frames m (replicate k (ack_of m)) = m\<lparr>mlResponses := mlResponses m @ replicate k (ack_of m)\<rparr>"
proof (induction k arbitrary: m)
  case 0
  then show ?case by (simp add: receive_frames_def)
next
  case (Suc k)
  let ?m = "m\<lparr>mlResponses := mlResponses m @ [ack_of m]\<rparr>"
  have "m\<lparr>mlSelects := [], mlResponses := mlResponses m @ [ack_of m]\<rparr> = ?m"
    using Suc.prems(1) by simp
  then have "MasterLink_OnFrameReceived m (ack_of m) = (None, ?m)"
    using Suc.prems by (simp add: MasterLink_OnFrameReceived_def Let_def)
  moreover have "ack_of ?m = ack_of m" by (simp add: ack_of_def)
  ultimately show ?case
    using Suc.IH [of ?m] Suc.prems by (simp add: receive_frames_def)
qed

lemma wait_acks:
  assumes "mlSelects m = []" and "mlResponses m = []" and "mlWaits m = WaitResponse (replicate k (ack_of m)) # ws"
    and "k \<le> 10"
  shows "wait_response m =
    (if k = 0 then (TimedOut, m\<lparr>mlWaits := ws\<rparr>)
     else (GotResponse (ack_of m), m\<lparr>mlWaits := ws, mlResponses := replicate (k - 1) (ack_of m)\<rparr>))"
proof -
  have "ack_of (m\<lparr>mlWaits := ws\<rparr>) = ack_of m" by (simp add: ack_of_def)
  then have "receive_frames (m\<lparr>mlWaits := ws\<rparr>) (replicate k (ack_of m))
      = m\<lparr>mlWaits := ws, mlResponses := replicate k (ack_of m)\<rparr>"
    using receive_acks [of "m\<lparr>mlWaits := ws\<rparr>" k] assms by simp
  then show ?thesis
    using assms(2,3) by (cases k) (simp_all add: wait_response_def)
qed

lemma retry_unanswered:
  assumes "retry_loop m frame True = (r, m')" and "Serialize frame = Inr w"
    and "mlSelects m = []" and "mlWaits m = []"
  shows "r \<noteq> None \<and> (\<exists>j. mlSent m' = mlSent m @ replicate j w) \<and> mlWaits m' = [] \<and> mlSelects m' = []
    \<and> mlLocalAddress m' = mlLocalAddress m \<and> mlRemoteAddress m' = mlRemoteAddress m"
  using assms
proof (induction "nat (mlMaxRetries m + 1 - mlRetryCount m)" arbitrary: m)
  case 0
  then have "m' = m \<and> r \<noteq> None" by (auto simp: retry_loop.simps)
  with 0 show ?case by (auto intro: exI [of _ 0])
next
  case (Suc k)
  let ?m = "m\<lparr>mlSelects := [], mlSent := mlSent m @ [w], mlRetryCount := mlRetryCount m + 1\<rparr>"
  have step: "retry_loop m frame True
      = (if mlRetryCount m + 1 > mlMaxRetries m then (Some (MasterErr ErrMaxRetriesExceeded), ?m)
         else retry_loop ?m frame True)"
    using Suc.hyps(2) Suc.prems
    by (subst retry_loop.simps) (simp add: MasterLink_transmit_def wait_response_def Let_def)
  show ?case
  proof (cases "mlRetryCount m + 1 > mlMaxRetries m")
    case True
    then have "m' = ?m \<and> r \<noteq> None" using step Suc.prems(1) by auto
    with Suc.prems show ?thesis by (auto intro: exI [of _ 1])
  next
    case False
    then have "retry_loop ?m frame True = (r, m')" using step Suc.prems(1) by simp
    moreover have "k = nat (mlMaxRetries ?m + 1 - mlRetryCount ?m)" using Suc.hyps(2) by simp
    ultimately obtain j where
      "r \<noteq> None" "mlSent m' = mlSent m @ w # replicate j w" "mlWaits m' = []" "mlSelects m' = []"
      "mlLocalAddress m' = mlLocalAddress m" "mlRemoteAddress m' = mlRemoteAddress m"
      using Suc.hyps(1) [of ?m] Suc.prems(2-4) by auto
    then show ?thesis by (auto intro: exI [of _ "Suc j"])
  qed
qed

text \<open>What one wait brings, for a frame the outstation has taken or has yet to take.\<close>

definition on_line :: "MasterLink \<Rightarrow> bool \<Rightarrow> bytes list \<Rightarrow> bytes \<Rightarrow> line_end \<Rightarrow> bool" where
  "on_line m b handed d s = (case s of (late, ol) \<Rightarrow>
     facing m ol \<and> accepts_all ol
     \<and> (late = [] \<and> untaken b handed ol \<or> (late = [] \<or> late = [ack_of m]) \<and> taken b handed d ol))"

lemma on_line_cong:
  "mlLocalAddress m' = mlLocalAddress m \<Longrightarrow> mlRemoteAddress m' = mlRemoteAddress m \<Longrightarrow>
    on_line m' b handed d s = on_line m b handed d s"
  by (simp add: on_line_def facing_def ack_of_def)

lemma carry_confirmed:
  assumes "on_line m b handed d (late, ol)" and "length d \<le> 250"
  obtains k late' ol' where
    "carry x (frame_bytes (confirmed_frame_to m b d)) (late, ol) = (WaitResponse (replicate k (ack_of m)), late', ol')"
    and "k \<le> 2" and "on_line m b handed d (late', ol')" and "0 < k \<longrightarrow> taken b handed d ol'"
proof -
  have f: "facing m ol" "accepts_all ol" "untaken b handed ol \<or> taken b handed d ol"
    using assms(1) by (auto simp: on_line_def)
  obtain ol' where a: "arrive (frame_bytes (confirmed_to ol b d)) ol = ([ack_of m], ol')"
    "facing m ol'" "accepts_all ol'" "taken b handed d ol'"
    using arrive_confirmed [OF f(1,2) assms(2), of b handed d] f(3) by metis
  have w: "confirmed_frame_to m b d = confirmed_to ol b d"
    using f(1) by (simp add: facing_def)
  obtain i where i: "late = replicate i (ack_of m)" "i \<le> 1" "0 < i \<Longrightarrow> taken b handed d ol"
    using assms(1) by (auto simp: on_line_def intro: that [of 0] that [of 1])
  have "late @ [ack_of m] = replicate (Suc i) (ack_of m)"
    by (simp add: i(1) replicate_append_same)
  then show ?thesis
    using that [of i "[]" ol] that [of i "[]" ol'] that [of i "[ack_of m]" ol'] that [of "Suc i" "[]" ol']
      a w i f by (cases x) (auto simp: on_line_def)
qed

lemma length_carry_all [simp]: "length (fst (carry_all fates w s)) = length fates"
  by (induction fates arbitrary: s) (simp_all add: split_beta)

definition waited_well ::
  "MasterLink \<Rightarrow> bool \<Rightarrow> bytes list \<Rightarrow> bytes \<Rightarrow> fate list \<Rightarrow> line_end \<Rightarrow> master_err option \<times> MasterLink \<Rightarrow> nat \<Rightarrow> nat \<Rightarrow> bool" where
  "waited_well m b handed d fates s result j n =
     (let w = frame_bytes (confirmed_frame_to m b d);
          (r, m') = result;
          s' = snd (carry_all (take n fates) w s)
      in mlSent m' = mlSent m @ replicate j w \<and> n \<le> length fates \<and> (j = n \<or> n = length fates)
         \<and> length (mlWaits m') = length fates - n \<and> mlSelects m' = []
         \<and> mlLocalAddress m' = mlLocalAddress m \<and> mlRemoteAddress m' = mlRemoteAddress m
         \<and> on_line m b handed d s' \<and> (r = None \<longrightarrow> taken b handed d (snd s')))"

lemma retry_carried:
  assumes "on_line m b handed d s" and "length d \<le> 250" and "mlSelects m = []" and "mlResponses m = []"
    and "mlWaits m = fst (carry_all fates (frame_bytes (confirmed_frame_to m b d)) s)"
  shows "\<exists>j n. waited_well m b handed d fates s (retry_loop m (confirmed_frame_to m b d) True) j n"
  using assms
proof (induction fates arbitrary: m s)
  case Nil
  let ?f = "confirmed_frame_to m b d"
  obtain r m' where r: "retry_loop m ?f True = (r, m')" by fastforce
  from retry_unanswered [OF this Serialize_valid [OF confirmed_valid [OF Nil(2)]] Nil(3)] Nil(1,5)
  show ?case by (auto simp: waited_well_def r)
next
  case (Cons x fates)
  let ?f = "confirmed_frame_to m b d"
  let ?w = "frame_bytes ?f"
  obtain late ol where s: "s = (late, ol)" by fastforce
  obtain k late' ol' where c: "carry x ?w (late, ol) = (WaitResponse (replicate k (ack_of m)), late', ol')"
    "k \<le> 2" "on_line m b handed d (late', ol')" "0 < k \<longrightarrow> taken b handed d ol'"
    by (rule carry_confirmed [where x = x, OF Cons.prems(1) [unfolded s] Cons.prems(2)])
  let ?ws = "fst (carry_all fates ?w (late', ol'))"
  have waits: "mlWaits m = WaitResponse (replicate k (ack_of m)) # ?ws"
    using Cons.prems(5) c(1) s by (simp split: prod.split)
  have rest: "snd (carry_all (take (Suc n) (x # fates)) ?w s) = snd (carry_all (take n fates) ?w (late', ol'))" for n
    using c(1) s by (simp split: prod.split)
  show ?case
  proof (cases "mlRetryCount m \<le> mlMaxRetries m")
    case False
    then have "retry_loop m ?f True = (Some (MasterErr ErrMaxRetriesExceeded), m)"
      by (simp add: retry_loop.simps)
    then have "waited_well m b handed d (x # fates) s (retry_loop m ?f True) 0 0"
      using Cons.prems(1,3) by (simp add: waited_well_def waits)
    then show ?thesis by blast
  next
    case True
    let ?m1 = "m\<lparr>mlSelects := [], mlSent := mlSent m @ [?w]\<rparr>"
    have t: "MasterLink_transmit m ?f = (None, ?m1)"
      using Serialize_valid [OF confirmed_valid [OF Cons.prems(2)]] Cons.prems(3)
      by (simp add: MasterLink_transmit_def)
    have ack: "ack_of ?m1 = ack_of m" by (simp add: ack_of_def)
    have wait: "wait_response ?m1 = (if k = 0 then (TimedOut, ?m1\<lparr>mlWaits := ?ws\<rparr>)
       else (GotResponse (ack_of m), ?m1\<lparr>mlWaits := ?ws, mlResponses := replicate (k - 1) (ack_of m)\<rparr>))"
      using wait_acks [of ?m1 k ?ws] Cons.prems(4) waits c(2) by (simp add: ack)
    show ?thesis
    proof (cases "k = 0")
      case False
      have "retry_loop m ?f True
          = (None, ?m1\<lparr>mlWaits := ?ws, mlResponses := replicate (k - 1) (ack_of m)\<rparr>)"
        using True t wait False by (simp add: retry_loop.simps [of m] handleResponse_def)
      then have "waited_well m b handed d (x # fates) s (retry_loop m ?f True) 1 1"
        using c(3,4) False rest [of 0] by (simp add: waited_well_def)
      then show ?thesis by blast
    next
      case k: True
      let ?m3 = "?m1\<lparr>mlWaits := ?ws, mlRetryCount := mlRetryCount m + 1\<rparr>"
      have step: "retry_loop m ?f True = (if mlRetryCount m + 1 > mlMaxRetries m
          then (Some (MasterErr ErrMaxRetriesExceeded), ?m3) else retry_loop ?m3 ?f True)"
        using True t wait k by (simp add: retry_loop.simps [of m] Let_def)
      have on: "on_line ?m3 b handed d (late', ol')"
        using c(3) by (subst on_line_cong [of _ m]) simp_all
      show ?thesis
      proof (cases "mlRetryCount m + 1 > mlMaxRetries m")
        case last: True
        have "waited_well m b handed d (x # fates) s (Some (MasterErr ErrMaxRetriesExceeded), ?m3) 1 1"
          using c(3) rest [of 0] by (simp add: waited_well_def)
        then show ?thesis using step last by (metis (no_types, lifting))
      next
        case False
        obtain j n where "waited_well ?m3 b handed d fates (late', ol') (retry_loop ?m3 ?f True) j n"
          using Cons.IH [OF on Cons.prems(2)] Cons.prems(4) by auto
        then have "waited_well m b handed d (x # fates) s (retry_loop ?m3 ?f True) (Suc j) (Suc n)"
          using on_line_cong [of ?m3 m] rest [of n]
          by (cases "retry_loop ?m3 ?f True") (auto simp: waited_well_def)
        then show ?thesis using step False by (metis (no_types, lifting))
      qed
    qed
  qed
qed

text \<open>
  A call with nothing left over: the data is handed up at most once, and exactly once when the call
  succeeds; the pair is then ready for the next call.
\<close>

definition ready :: "lax_pair \<Rightarrow> bytes list \<Rightarrow> bool" where
  "ready p handed \<longleftrightarrow> mlState (lpMaster p) = LinkStateIdle \<and> mlSelects (lpMaster p) = []
     \<and> facing (lpMaster p) (lpOutstation p) \<and> accepts_all (lpOutstation p)
     \<and> untaken (\<not> mlFcb (lpMaster p)) handed (lpOutstation p)"

lemma taken_next: "taken b handed d ol \<Longrightarrow> untaken (\<not> b) (handed @ [d]) ol"
  by (auto simp: taken_def untaken_def intro: lax_fcb.next_frame)

lemma carry_unwaited_none: "j = n \<or> n = length fates \<Longrightarrow> carry_unwaited (take (j - n) (drop n fates)) w s = s"
  by auto

lemma confirmed_call_refused:
  assumes "mlState (lpMaster p) \<noteq> LinkStateIdle" and "confirmed_call fates d p = (r, p')"
  shows "r \<noteq> None \<and> mlState (lpMaster p') \<noteq> LinkStateIdle \<and> lpOutstation p' = lpOutstation p"
  using assms by (auto simp: confirmed_call_def SendConfirmedUserData_def Let_def)

lemma confirmed_call_once:
  assumes "ready p handed" and "settled p" and "length d \<le> 250" and "confirmed_call fates d p = (r, p')"
  shows "if r = None then ready p' (handed @ [d])
    else mlState (lpMaster p') \<noteq> LinkStateIdle
      \<and> (olHanded (lpOutstation p') = handed \<or> olHanded (lpOutstation p') = handed @ [d])"
proof -
  define m where "m = lpMaster p"
  define b where "b = (\<not> mlFcb m)"
  let ?f = "confirmed_frame_to m b d"
  let ?w = "frame_bytes ?f"
  let ?s = "(lpLate p, lpOutstation p)"
  let ?ws = "fst (carry_all fates ?w ?s)"
  let ?m0 = "m\<lparr>mlWaits := ?ws, mlState := LinkStateWaitACK, mlFcb := b, mlLastSentFrame := Some ?f, mlRetryCount := 0\<rparr>"
  have on: "on_line ?m0 b handed d ?s"
    using assms(1,2) by (subst on_line_cong [of _ m]) (simp_all add: ready_def settled_def on_line_def m_def b_def)
  obtain r1 m1 where r1: "retry_loop ?m0 ?f True = (r1, m1)" by fastforce
  obtain j n where "waited_well ?m0 b handed d fates ?s (r1, m1) j n"
    using retry_carried [OF on assms(3), of fates] assms(1,2) r1 by (auto simp: ready_def settled_def m_def)
  then have w: "mlSent m1 = mlSent m @ replicate j ?w" "n \<le> length fates" "j = n \<or> n = length fates"
    "length (mlWaits m1) = length fates - n" "mlSelects m1 = []"
    "mlLocalAddress m1 = mlLocalAddress m" "mlRemoteAddress m1 = mlRemoteAddress m"
    "on_line m b handed d (snd (carry_all (take n fates) ?w ?s))"
    "r1 = None \<longrightarrow> taken b handed d (snd (snd (carry_all (take n fates) ?w ?s)))"
    using on_line_cong [of ?m0 m] by (simp_all add: waited_well_def Let_def)
  obtain late ol where s': "snd (carry_all (take n fates) ?w ?s) = (late, ol)" by fastforce
  have line: "mlState m1 = LinkStateWaitACK" "mlFcb m1 = b"
    using retry_loop_line [OF r1 _ Serialize_valid [OF confirmed_valid [OF assms(3)]]] by auto
  let ?m' = "if r1 = None then m1\<lparr>mlState := LinkStateIdle\<rparr> else m1\<lparr>mlState := LinkStateError, mlFcb := \<not> mlFcb m1\<rparr>"
  have frame: "SetFCB (primary_frame x FuncUserDataConfirmed d) b = ?f" if "mlRemoteAddress x = mlRemoteAddress m"
    "mlLocalAddress x = mlLocalAddress m" for x
    using that by (simp add: primary_frame_def NewConfirmedUserDataFrame_def)
  have send: "SendConfirmedUserData (m\<lparr>mlWaits := ?ws\<rparr>) d = (r1, ?m')"
    using assms(1) r1 frame [of "m\<lparr>mlWaits := ?ws, mlState := LinkStateWaitACK, mlFcb := b\<rparr>"]
    by (auto simp: SendConfirmedUserData_def sendWithRetry_def ready_def Let_def b_def simp flip: m_def split: option.split)
  have "mlSent ?m' = mlSent m1" "mlWaits ?m' = mlWaits m1" by simp_all
  then have "confirmed_call fates d p = (r1, \<lparr>lpMaster = ?m', lpOutstation = ol, lpLate = late\<rparr>)"
    using send w(1,2,4) s' carry_unwaited_none [OF w(3), of ?w "(late, ol)"]
    by (simp add: confirmed_call_def confirmed_frame_eq Let_def b_def flip: m_def del: carry_unwaited.simps)
  then have p': "r = r1" "p' = \<lparr>lpMaster = ?m', lpOutstation = ol, lpLate = late\<rparr>" using assms(4) by simp_all
  show ?thesis
  proof (cases "r1 = None")
    case True
    then have "taken b handed d ol" using w(9) s' by simp
    from taken_next [OF this] show ?thesis
      using True p' w(5-8) s' line by (simp add: ready_def on_line_def facing_def)
  next
    case False
    then show ?thesis
      using p' w(8) s' by (auto simp: on_line_def untaken_def taken_def)
  qed
qed

section \<open>Properties\<close>

text \<open>The messages the master was told have been delivered.\<close>

definition succeeded :: "(fate list \<times> bytes) list \<Rightarrow> master_err option list \<Rightarrow> bytes list" where
  "succeeded calls rs = map (snd \<circ> fst) (filter (\<lambda>(call, r). r = None) (zip calls rs))"

fun all_settled :: "(fate list \<times> bytes) list \<Rightarrow> lax_pair \<Rightarrow> bool" where
  "all_settled [] p \<longleftrightarrow> True"
| "all_settled ((fates, d) # calls) p \<longleftrightarrow> settled p \<and> all_settled calls (snd (confirmed_call fates d p))"

lemma confirmed_calls_refused:
  "mlState (lpMaster p) \<noteq> LinkStateIdle \<Longrightarrow> confirmed_calls calls p = (rs, p') \<Longrightarrow>
    lpOutstation p' = lpOutstation p \<and> succeeded calls rs = []"
proof (induction calls arbitrary: p rs)
  case Nil
  then show ?case by (simp add: succeeded_def)
next
  case (Cons call calls)
  obtain fates d where call: "call = (fates, d)" by fastforce
  obtain r q where r: "confirmed_call fates d p = (r, q)" by fastforce
  obtain rs' where rs: "confirmed_calls calls q = (rs', p')" "rs = r # rs'"
    using Cons.prems(2) r call by (auto split: prod.splits)
  show ?case
    using confirmed_call_refused [OF Cons.prems(1) r] Cons.IH [OF _ rs(1)] rs(2) call
    by (auto simp: succeeded_def)
qed

lemma calls_once:
  "ready p handed \<Longrightarrow> all_settled calls p \<Longrightarrow> \<forall>(fates, d) \<in> set calls. length d \<le> 250 \<Longrightarrow>
    confirmed_calls calls p = (rs, p') \<Longrightarrow>
    \<exists>extra. olHanded (lpOutstation p') = handed @ succeeded calls rs @ extra
      \<and> (extra = [] \<or> (\<exists>i < length calls.
           rs ! i \<noteq> None \<and> (\<forall>k < i. rs ! k = None) \<and> extra = [snd (calls ! i)]))"
proof (induction calls arbitrary: p handed rs)
  case Nil
  then show ?case by (auto simp: succeeded_def ready_def untaken_def)
next
  case (Cons call calls)
  obtain fates d where call: "call = (fates, d)" by fastforce
  obtain r q where r: "confirmed_call fates d p = (r, q)" by fastforce
  obtain rs' where rs: "confirmed_calls calls q = (rs', p')" "rs = r # rs'"
    using Cons.prems(4) r call by (auto split: prod.splits)
  have once: "if r = None then ready q (handed @ [d])
    else mlState (lpMaster q) \<noteq> LinkStateIdle
      \<and> (olHanded (lpOutstation q) = handed \<or> olHanded (lpOutstation q) = handed @ [d])"
    using confirmed_call_once [OF Cons.prems(1) _ _ r] Cons.prems(2,3) call by simp
  show ?case
  proof (cases "r = None")
    case True
    then have "ready q (handed @ [d])" "all_settled calls q" using once Cons.prems(2) call r by simp_all
    from Cons.IH [OF this _ rs(1)] Cons.prems(3) obtain extra where
      e: "olHanded (lpOutstation p') = handed @ [d] @ succeeded calls rs' @ extra"
      "extra = [] \<or> (\<exists>i < length calls.
           rs' ! i \<noteq> None \<and> (\<forall>k < i. rs' ! k = None) \<and> extra = [snd (calls ! i)])"
      by auto
    have "\<exists>i' < length (call # calls). rs ! i' \<noteq> None \<and> (\<forall>k < i'. rs ! k = None) \<and> extra = [snd ((call # calls) ! i')]"
      if "i < length calls" "rs' ! i \<noteq> None" "\<forall>k < i. rs' ! k = None" "extra = [snd (calls ! i)]" for i
      using that True rs(2) by (intro exI [of _ "Suc i"]) (auto simp: nth_Cons split: nat.split)
    then show ?thesis
      using e True rs(2) call by (auto simp: succeeded_def)
  next
    case False
    have out: "lpOutstation p' = lpOutstation q" "succeeded calls rs' = []"
      using confirmed_calls_refused [OF _ rs(1)] once False by simp_all
    have "succeeded (call # calls) rs = []" using out(2) False rs(2) by (auto simp: succeeded_def)
    moreover obtain extra where "olHanded (lpOutstation p') = handed @ extra" "extra = [] \<or> extra = [d]"
      using once False out(1) by auto
    ultimately show ?thesis
      using False rs(2) call by (intro exI [of _ extra]) (auto intro!: exI [of _ 0])
  qed
qed

text \<open>A call whose first wait finds an acknowledgement, of whatever frame, succeeds.\<close>

lemma call_takes_ack:
  assumes "lpMaster p = m" and "mlState m = LinkStateIdle" and "mlSelects m = []" and "0 \<le> mlMaxRetries m"
    and "length d \<le> 250" and "mlResponses m = replicate i (ack_of m)"
    and "carry x (frame_bytes (confirmed_frame_to m (\<not> mlFcb m) d)) (lpLate p, lpOutstation p)
      = (WaitResponse (replicate k (ack_of m)), late, ol)"
    and "0 < i + k" and "i + k \<le> 10"
  obtains m' where "confirmed_call [x] d p = (None, \<lparr>lpMaster = m', lpOutstation = ol, lpLate = late\<rparr>)"
    and "mlState m' = LinkStateIdle" and "mlSelects m' = []" and "mlMaxRetries m' = mlMaxRetries m"
    and "mlFcb m' = (\<not> mlFcb m)" and "mlResponses m' = replicate (i + k - 1) (ack_of m)" and "ack_of m' = ack_of m"
    and "mlLocalAddress m' = mlLocalAddress m" and "mlRemoteAddress m' = mlRemoteAddress m"
proof -
  let ?w = "frame_bytes (confirmed_frame_to m (\<not> mlFcb m) d)"
  let ?acks = "replicate (i + k - 1) (ack_of m)"
  have frame: "primary_frame (m\<lparr>mlWaits := ws, mlState := st, mlFcb := b\<rparr>) = primary_frame m" for ws st b
    by (simp add: primary_frame_def fun_eq_iff)
  have conf: "SetFCB (primary_frame m FuncUserDataConfirmed d) (\<not> mlFcb m) = confirmed_frame_to m (\<not> mlFcb m) d"
    by (simp add: primary_frame_def NewConfirmedUserDataFrame_def)
  have ack: "ack_of (m\<lparr>mlState := st, mlFcb := b, mlLastSentFrame := f, mlRetryCount := 0,
      mlSelects := [], mlSent := s, mlWaits := []\<rparr>) = ack_of m" for st b f s
    by (simp add: ack_of_def)
  have rep: "replicate i (ack_of m) @ replicate k (ack_of m) = ack_of m # ?acks"
    using assms(8) by (cases "i + k") (simp_all flip: replicate_add)
  let ?m' = "m\<lparr>mlWaits := [], mlState := LinkStateIdle, mlFcb := \<not> mlFcb m, mlLastSentFrame := Some (confirmed_frame m d), mlRetryCount := 0,
    mlSelects := [], mlSent := mlSent m @ [?w], mlResponses := ?acks\<rparr>"
  have "SendConfirmedUserData (m\<lparr>mlWaits := [WaitResponse (replicate k (ack_of m))]\<rparr>) d = (None, ?m')"
    using assms(2-6,9) Serialize_valid [OF confirmed_valid [OF assms(5)]] rep
      receive_acks [of "m\<lparr>mlState := LinkStateWaitACK, mlFcb := \<not> mlFcb m, mlLastSentFrame := Some (confirmed_frame m d),
        mlRetryCount := 0, mlSelects := [], mlSent := mlSent m @ [?w], mlWaits := []\<rparr>" k]
    by (simp add: SendConfirmedUserData_def sendWithRetry_def retry_loop.simps MasterLink_transmit_def
        wait_response_def handleResponse_def frame ack conf [simplified] confirmed_frame_eq Let_def)
  then have "confirmed_call [x] d p = (None, \<lparr>lpMaster = ?m', lpOutstation = ol, lpLate = late\<rparr>)"
    using assms(1,7) by (simp add: confirmed_call_def confirmed_frame_eq Let_def)
  then show ?thesis
    using that [of ?m'] assms(2) by (simp add: ack_of_def)
qed

text \<open>
  A call whose first answer is late: the retransmission is answered as well, the first answer is
  taken and the second stays behind.
\<close>

lemma late_leaves_ack:
  assumes "ready p handed" and "settled p" and "1 \<le> mlMaxRetries (lpMaster p)" and "length d \<le> 250"
    and "lpMaster p = m" and "b = (\<not> mlFcb m)"
  obtains m' ol where "confirmed_call [Late, Answered] d p = (None, \<lparr>lpMaster = m', lpOutstation = ol, lpLate = []\<rparr>)"
    and "mlState m' = LinkStateIdle" and "mlSelects m' = []" and "mlMaxRetries m' = mlMaxRetries m"
    and "mlFcb m' = b" and "mlResponses m' = [ack_of m]" and "ack_of m' = ack_of m"
    and "facing m' ol" and "accepts_all ol" and "taken b handed d ol"
proof -
  let ?w = "frame_bytes (confirmed_frame_to m b d)"
  have p: "mlState m = LinkStateIdle" "mlSelects m = []" "mlResponses m = []" "lpLate p = []"
    "facing m (lpOutstation p)" "accepts_all (lpOutstation p)" "untaken b handed (lpOutstation p)"
    using assms(1,2,5,6) by (simp_all add: ready_def settled_def)
  have w: "confirmed_frame_to m b d = confirmed_to o' b d" if "facing m o'" for o'
    using that by (simp add: facing_def)
  obtain o1 where o1: "arrive ?w (lpOutstation p) = ([ack_of m], o1)" "facing m o1" "accepts_all o1" "taken b handed d o1"
    using arrive_confirmed [OF p(5,6) assms(4), of b handed d] p(7) w [OF p(5)] by metis
  obtain o2 where o2: "arrive ?w o1 = ([ack_of m], o2)" "facing m o2" "accepts_all o2" "taken b handed d o2"
    using arrive_confirmed [OF o1(2,3) assms(4), of b handed d] o1(4) w [OF o1(2)] by metis
  have conf: "SetFCB (primary_frame m FuncUserDataConfirmed d) b = confirmed_frame_to m b d"
    by (simp add: primary_frame_def NewConfirmedUserDataFrame_def)
  have frame: "primary_frame (m\<lparr>mlWaits := ws, mlState := st, mlFcb := c\<rparr>) = primary_frame m" for ws st c
    by (simp add: primary_frame_def fun_eq_iff)
  let ?m2 = "m\<lparr>mlState := LinkStateWaitACK, mlFcb := b, mlLastSentFrame := Some (confirmed_frame_to m b d),
    mlRetryCount := 1, mlSelects := [], mlSent := mlSent m @ [?w, ?w], mlWaits := []\<rparr>"
  have acks: "receive_frames ?m2 [ack_of m, ack_of m] = ?m2\<lparr>mlResponses := [ack_of m, ack_of m]\<rparr>"
    using receive_acks [of ?m2 2] p(3) by (simp add: ack_of_def numeral_2_eq_2)
  let ?m' = "m\<lparr>mlState := LinkStateIdle, mlFcb := b, mlLastSentFrame := Some (confirmed_frame_to m b d),
    mlRetryCount := 1, mlSelects := [], mlSent := mlSent m @ [?w, ?w], mlWaits := [], mlResponses := [ack_of m]\<rparr>"
  have "SendConfirmedUserData (m\<lparr>mlWaits := [WaitResponse [], WaitResponse [ack_of m, ack_of m]]\<rparr>) d = (None, ?m')"
    using p(1-3) assms(3,5) Serialize_valid [OF confirmed_valid [OF assms(4)]] acks
    by (simp add: SendConfirmedUserData_def sendWithRetry_def retry_loop.simps MasterLink_transmit_def
        wait_response_def handleResponse_def frame conf [simplified] receive_frames_def [of _ "[]"]
        Let_def flip: assms(6) split del: if_split)
  moreover have "carry_all [Late, Answered] ?w ([], lpOutstation p)
      = ([WaitResponse [], WaitResponse [ack_of m, ack_of m]], [], o2)"
    using o1(1) o2(1) by simp
  ultimately have "confirmed_call [Late, Answered] d p = (None, \<lparr>lpMaster = ?m', lpOutstation = o2, lpLate = []\<rparr>)"
    using assms(5) p(4) by (simp add: confirmed_call_def confirmed_frame_eq Let_def flip: assms(6))
  then show ?thesis
    using that [of ?m' o2] o2 by (simp add: ack_of_def facing_def)
qed

text \<open>
  C2: confirmed data is handed up exactly once and in order, as long as no answer outlives the call it
  belongs to. A master and an outstation, whose frame count bits agree and whose links do not fail to
  send, make any number of calls with at most 250 bytes each, and the user of the outstation refuses
  no data. Each transmission of a frame may be lost, or arrive while its answer is lost, or be
  answered after the wait of the master has timed out, when the answer is there at the start of the
  next wait, or be answered in time; frames are not reordered or duplicated, and only answers are
  delayed. If no answer is left over when a call
  begins, what the user of the outstation gets is the data of the calls that succeed, each once and in
  order, and behind it at most the data of the first call that fails.
\<close>

theorem lax_pair_exactly_once:
  assumes "ready p handed" and "all_settled calls p" and "\<forall>(fates, d) \<in> set calls. length d \<le> 250"
    and "confirmed_calls calls p = (rs, p')"
  shows "\<exists>extra. olHanded (lpOutstation p') = handed @ succeeded calls rs @ extra
    \<and> (extra = [] \<or> (\<exists>i < length calls. rs ! i \<noteq> None \<and> (\<forall>k < i. rs ! k = None) \<and> extra = [snd (calls ! i)]))"
  using assms by (rule calls_once)

abbreviation sample_pair :: lax_pair where
  "sample_pair \<equiv> \<lparr>lpMaster = NewMasterLink 1 10 1000 2 None False,
     lpOutstation = NewOutstationLink 10 1 1000 (Some (\<lambda>d. None)) [], lpLate = []\<rparr>"

lemma sample_ready: "ready sample_pair []"
  by (simp add: ready_def NewMasterLink_def NewOutstationLink_def facing_def accepts_all_def untaken_def
      fcb_synced_def NewFCBValidator_def)

lemma sample_settled: "settled sample_pair"
  by (simp add: settled_def NewMasterLink_def)

theorem lax_pair_exactly_once_witness:
  "\<exists>rs p' extra. confirmed_calls [([Unanswered, Answered], [1])] sample_pair = (rs, p')
    \<and> olHanded (lpOutstation p') = succeeded [([Unanswered, Answered], [1])] rs @ extra
    \<and> (extra = [] \<or> extra = [[1]])"
proof -
  obtain rs p' where c: "confirmed_calls [([Unanswered, Answered], [1])] sample_pair = (rs, p')" by fastforce
  have "all_settled [([Unanswered, Answered], [1])] sample_pair"
    using sample_settled by simp
  from lax_pair_exactly_once [OF sample_ready this _ c] c show ?thesis by auto
qed

text \<open>
  C3: one late answer makes the master lose data without an error. The master does not empty its
  channel of responses: when the answer to a transmission comes after the wait, both the
  retransmission and the transmission are answered, and the second acknowledgement is taken for that
  of the next message. Of three messages, all reported as delivered, the second is lost on the line
  and the third is taken for a repetition of the first, as its frame count bit is the same.
\<close>

theorem stale_ack_loses_messages:
  assumes "ready p handed" and "settled p" and "1 \<le> mlMaxRetries (lpMaster p)"
    and "length d1 \<le> 250" and "length d2 \<le> 250" and "length d3 \<le> 250"
  shows "\<exists>p'. confirmed_calls [([Late, Answered], d1), ([Lost], d2), ([Answered], d3)] p = ([None, None, None], p')
    \<and> mlState (lpMaster p') = LinkStateIdle \<and> olHanded (lpOutstation p') = handed @ [d1]"
proof -
  define m where "m = lpMaster p"
  define b where "b = (\<not> mlFcb m)"
  obtain m1 o1 where c1: "confirmed_call [Late, Answered] d1 p = (None, \<lparr>lpMaster = m1, lpOutstation = o1, lpLate = []\<rparr>)"
    "mlState m1 = LinkStateIdle" "mlSelects m1 = []" "mlMaxRetries m1 = mlMaxRetries m" "mlFcb m1 = b"
    "mlResponses m1 = [ack_of m]" "ack_of m1 = ack_of m" "facing m1 o1" "accepts_all o1" "taken b handed d1 o1"
    using late_leaves_ack [OF assms(1-4) m_def [symmetric] b_def] by metis
  let ?p1 = "\<lparr>lpMaster = m1, lpOutstation = o1, lpLate = []\<rparr>"
  have lost: "carry Lost w ([], o1) = (WaitResponse (replicate 0 (ack_of m1)), [], o1)" for w by simp
  obtain m2 where c2: "confirmed_call [Lost] d2 ?p1 = (None, \<lparr>lpMaster = m2, lpOutstation = o1, lpLate = []\<rparr>)"
    "mlState m2 = LinkStateIdle" "mlSelects m2 = []" "mlMaxRetries m2 = mlMaxRetries m1" "mlFcb m2 = (\<not> b)"
    "mlResponses m2 = []" "mlLocalAddress m2 = mlLocalAddress m1" "mlRemoteAddress m2 = mlRemoteAddress m1"
    by (rule call_takes_ack [of ?p1 m1 d2 1 Lost 0 "[]" o1])
      (use c1 assms(3,5) lost m_def in simp_all)
  let ?p2 = "\<lparr>lpMaster = m2, lpOutstation = o1, lpLate = []\<rparr>"
  have f2: "facing m2 o1" using c1(8) c2(7,8) by (simp add: facing_def)
  obtain o3 where o3: "arrive (frame_bytes (confirmed_to o1 b d3)) o1 = ([ack_of m2], o3)" "olHanded o3 = handed @ [d1]"
    using arrive_confirmed [OF f2 c1(9) assms(6), of b handed d1] c1(10) by (metis taken_def)
  obtain m3 where c3: "confirmed_call [Answered] d3 ?p2 = (None, \<lparr>lpMaster = m3, lpOutstation = o3, lpLate = []\<rparr>)"
    "mlState m3 = LinkStateIdle"
    by (rule call_takes_ack [of ?p2 m2 d3 0 Answered 1 "[]" o3])
      (use c1(4) c2 assms(3,6) o3(1) f2 m_def in \<open>simp_all add: facing_def\<close>)
  show ?thesis using c1(1) c2(1) c3 o3(2) by simp
qed

theorem stale_ack_loses_messages_witness:
  "\<exists>p'. confirmed_calls [([Late, Answered], [1]), ([Lost], [2]), ([Answered], [3])] sample_pair = ([None, None, None], p')
    \<and> olHanded (lpOutstation p') = [[1]]"
proof -
  have "1 \<le> mlMaxRetries (lpMaster sample_pair)" by (simp add: NewMasterLink_def)
  from stale_ack_loses_messages [OF sample_ready sample_settled this, of "[1]" "[2]" "[3]"]
  show ?thesis by auto
qed

end
