(* ===== verification/Reassembly.thy ===== *)
theory Reassembly
  imports Dnp_Base
begin

text \<open>
  The interface of transport reassembly: a receiver of segments that are marked as first
  and final and carry a 6-bit sequence number. Its laws say what one segment does to a
  receiver that is idle or has collected a part of a message. What the layers above rely
  on is proved here once for every such receiver: a segmented message is put together from
  any state, and whatever segments arrive, in whatever order, a message that is handed up
  is made of the latest consecutive segments, from a first one to a final one, and of
  nothing else.
\<close>

unbundle bit_operations_syntax

section \<open>Segments\<close>

record segment =
  sgFIR :: bool
  sgFIN :: bool
  sgSeq :: byte
  sgData :: bytes

definition next_seq :: "byte \<Rightarrow> byte" where
  "next_seq q = (q + 1) AND 0x3F"

text \<open>The chunks of a message, numbered from \<open>q\<close>; only the last one is final.\<close>

fun number_chunks :: "bool \<Rightarrow> byte \<Rightarrow> bytes list \<Rightarrow> segment list" where
  "number_chunks fir q [] = []"
| "number_chunks fir q (c # cs) =
     \<lparr>sgFIR = fir, sgFIN = (cs = []), sgSeq = q, sgData = c\<rparr> # number_chunks False (next_seq q) cs"

text \<open>
  A run from a first segment: consecutive sequence numbers, no other first segment, and no
  final segment but possibly the last, which \<open>fin\<close> says.
\<close>

fun continues :: "byte \<Rightarrow> segment list \<Rightarrow> bool \<Rightarrow> bool" where
  "continues q [] fin \<longleftrightarrow> \<not> fin"
| "continues q [g] fin \<longleftrightarrow> \<not> sgFIR g \<and> sgSeq g = q \<and> sgFIN g = fin"
| "continues q (g # gs) fin \<longleftrightarrow> \<not> sgFIR g \<and> sgSeq g = q \<and> \<not> sgFIN g \<and> continues (next_seq q) gs fin"

definition message_run :: "segment list \<Rightarrow> bool \<Rightarrow> bool" where
  "message_run gs fin \<longleftrightarrow>
     (case gs of
        [] \<Rightarrow> False
      | g # rest \<Rightarrow> sgFIR g \<and> (if rest = [] then sgFIN g = fin
          else \<not> sgFIN g \<and> continues (next_seq (sgSeq g)) rest fin))"

definition run_data :: "segment list \<Rightarrow> bytes" where
  "run_data gs = concat (map sgData gs)"

definition run_next :: "segment list \<Rightarrow> byte" where
  "run_next gs = next_seq (sgSeq (last gs))"

lemma continues_snoc:
  "continues q (gs @ [g]) fin \<longleftrightarrow>
    (if gs = [] then \<not> sgFIR g \<and> sgSeq g = q \<and> sgFIN g = fin
     else continues q gs False \<and> \<not> sgFIR g \<and> sgSeq g = run_next gs \<and> sgFIN g = fin)"
proof (induction q gs fin rule: continues.induct)
  case (3 q g v va fin)
  then show ?case by (auto simp: run_next_def)
qed (auto simp: run_next_def)

lemma message_run_snoc:
  assumes "message_run gs False" and "\<not> sgFIR g" and "sgSeq g = run_next gs"
  shows "message_run (gs @ [g]) (sgFIN g)"
  using assms
  by (cases gs) (auto simp: message_run_def continues_snoc run_next_def split: if_splits)

lemma message_run_single: "sgFIR g \<Longrightarrow> message_run [g] (sgFIN g)"
  by (simp add: message_run_def)

section \<open>Chunks of a message\<close>

function chunks :: "nat \<Rightarrow> 'a list \<Rightarrow> 'a list list" where
  "chunks n xs = (if xs = [] \<or> n = 0 then [] else take n xs # chunks n (drop n xs))"
  by pat_completeness auto
termination
  by (relation "measure (\<lambda>(n, xs). length xs)") auto

declare chunks.simps [simp del]

lemma chunks_Nil [simp]: "chunks n [] = []"
  by (simp add: chunks.simps)

lemma chunks_step: "xs \<noteq> [] \<Longrightarrow> 0 < n \<Longrightarrow> chunks n xs = take n xs # chunks n (drop n xs)"
  by (subst chunks.simps) simp

lemma chunks_eq_Nil: "0 < n \<Longrightarrow> chunks n xs = [] \<longleftrightarrow> xs = []"
  by (auto simp: chunks.simps [of n xs])

lemma concat_chunks: "0 < n \<Longrightarrow> concat (chunks n xs) = xs"
proof (induction n xs rule: chunks.induct)
  case (1 n xs)
  then show ?case by (subst chunks.simps) auto
qed

lemma chunks_sizes: "0 < n \<Longrightarrow> \<forall>c\<in>set (chunks n xs). c \<noteq> [] \<and> length c \<le> n"
proof (induction n xs rule: chunks.induct)
  case (1 n xs)
  then show ?case by (subst chunks.simps) auto
qed

lemma number_chunks_data: "map sgData (number_chunks fir q cs) = cs"
  by (induction fir q cs rule: number_chunks.induct) auto

lemma length_number_chunks [simp]: "length (number_chunks fir q cs) = length cs"
  by (induction fir q cs rule: number_chunks.induct) auto

lemma number_chunks_mem:
  "g \<in> set (number_chunks fir q cs) \<Longrightarrow> sgData g \<in> set cs \<and> (sgFIR g \<longrightarrow> fir)"
  by (induction fir q cs rule: number_chunks.induct) auto

lemma next_seq_masked [simp]: "next_seq q AND 0x3F = next_seq q"
  by (simp add: next_seq_def byte_eq_iff bit_simps)

lemma number_chunks_seq:
  "q AND 0x3F = q \<Longrightarrow> g \<in> set (number_chunks fir q cs) \<Longrightarrow> sgSeq g AND 0x3F = sgSeq g"
  by (induction fir q cs rule: number_chunks.induct) auto

section \<open>The interface\<close>

text \<open>
  \<open>step\<close> handles one segment: the message handed up, if any, and the next state. \<open>partial s q
  got\<close> says that \<open>s\<close> has collected \<open>got\<close> and waits for sequence number \<open>q\<close>. \<open>admits\<close> is what
  the receiver asks of the data of one segment.
\<close>

fun feed :: "('s \<Rightarrow> segment \<Rightarrow> bytes option \<times> 's) \<Rightarrow> 's \<Rightarrow> segment list \<Rightarrow> bytes list \<times> 's" where
  "feed st s [] = ([], s)"
| "feed st s (g # gs) =
     (case st s g of (m, s') \<Rightarrow>
        (case feed st s' gs of (ms, t) \<Rightarrow> ((case m of None \<Rightarrow> ms | Some d \<Rightarrow> d # ms), t)))"

locale reassembler =
  fixes step :: "'s \<Rightarrow> segment \<Rightarrow> bytes option \<times> 's"
    and idle :: "'s \<Rightarrow> bool"
    and partial :: "'s \<Rightarrow> byte \<Rightarrow> bytes \<Rightarrow> bool"
    and limit :: nat
    and admits :: "segment \<Rightarrow> bool"
  assumes first_seg: "sgFIR g \<Longrightarrow> admits g \<Longrightarrow> length (sgData g) \<le> limit \<Longrightarrow>
      (if sgFIN g then fst (step s g) = Some (sgData g) \<and> idle (snd (step s g))
       else fst (step s g) = None \<and> partial (snd (step s g)) (next_seq (sgSeq g)) (sgData g))"
    and next_seg: "partial s q got \<Longrightarrow> \<not> sgFIR g \<Longrightarrow> admits g \<Longrightarrow> sgSeq g = q \<Longrightarrow>
      length got + length (sgData g) \<le> limit \<Longrightarrow>
      (if sgFIN g then fst (step s g) = Some (got @ sgData g) \<and> idle (snd (step s g))
       else fst (step s g) = None \<and> partial (snd (step s g)) (next_seq q) (got @ sgData g))"
    and bad_seg: "partial s q got \<Longrightarrow> \<not> sgFIR g \<Longrightarrow> admits g \<Longrightarrow>
      sgSeq g \<noteq> q \<or> limit < length got + length (sgData g) \<Longrightarrow>
      fst (step s g) = None \<and> idle (snd (step s g))"
    and big_seg: "sgFIR g \<Longrightarrow> admits g \<Longrightarrow> limit < length (sgData g) \<Longrightarrow>
      fst (step s g) = None \<and> idle (snd (step s g))"
    and stray_seg: "idle s \<Longrightarrow> \<not> sgFIR g \<Longrightarrow> fst (step s g) = None \<and> idle (snd (step s g))"
    and refused_seg: "\<not> admits g \<Longrightarrow> fst (step s g) = None \<and> snd (step s g) = s"
begin

text \<open>A segmented message, whatever came before it.\<close>

lemma feed_append:
  "feed step s (gs @ hs) = (case feed step s gs of (ms, t) \<Rightarrow>
     (case feed step t hs of (ns, u) \<Rightarrow> (ms @ ns, u)))"
  by (induction gs arbitrary: s) (auto split: prod.split option.split)

lemma feed_rest:
  assumes "partial s q got" and "length got + length (concat cs) \<le> limit" and "cs \<noteq> []"
    and "\<forall>g\<in>set (number_chunks False q cs). admits g"
  shows "\<exists>gs g s' t. number_chunks False q cs = gs @ [g] \<and> feed step s gs = ([], s')
    \<and> step s' g = (Some (got @ concat cs), t) \<and> idle t"
  using assms
proof (induction cs arbitrary: s q got)
  case Nil
  then show ?case by simp
next
  case (Cons c cs)
  let ?g = "\<lparr>sgFIR = False, sgFIN = (cs = []), sgSeq = q, sgData = c\<rparr>"
  note step = next_seg [OF Cons.prems(1), of ?g]
  show ?case
  proof (cases "cs = []")
    case True
    then have "fst (step s ?g) = Some (got @ c) \<and> idle (snd (step s ?g))"
      using step Cons.prems by simp
    then show ?thesis
      by (intro exI [of _ "[]"] exI [of _ ?g] exI [of _ s] exI [of _ "snd (step s ?g)"])
        (simp add: True prod_eq_iff)
  next
    case False
    then obtain s' where s': "step s ?g = (None, s')" "partial s' (next_seq q) (got @ c)"
      using step Cons.prems by (cases "step s ?g") auto
    have "length (got @ c) + length (concat cs) \<le> limit"
      "\<forall>g\<in>set (number_chunks False (next_seq q) cs). admits g"
      using Cons.prems by simp_all
    from Cons.IH [OF s'(2) this(1) False this(2)] obtain gs g u t where
      "number_chunks False (next_seq q) cs = gs @ [g]" "feed step s' gs = ([], u)"
      "step u g = (Some ((got @ c) @ concat cs), t)" "idle t" by blast
    with s'(1) show ?thesis by (intro exI [of _ "?g # gs"] exI [of _ g] exI [of _ u] exI [of _ t]) simp
  qed
qed

lemma feed_message_last:
  assumes "cs \<noteq> []" and "length (concat cs) \<le> limit"
    and "\<forall>g\<in>set (number_chunks True q cs). admits g"
  shows "\<exists>gs g s' t. number_chunks True q cs = gs @ [g] \<and> feed step s gs = ([], s')
    \<and> step s' g = (Some (concat cs), t) \<and> idle t"
proof -
  obtain c cs' where cs: "cs = c # cs'" using assms(1) by (cases cs) auto
  let ?g = "\<lparr>sgFIR = True, sgFIN = (cs' = []), sgSeq = q, sgData = c\<rparr>"
  note step = first_seg [of ?g s]
  show ?thesis
  proof (cases "cs' = []")
    case True
    then have "fst (step s ?g) = Some c \<and> idle (snd (step s ?g))" using step assms by (simp add: cs)
    then show ?thesis
      by (intro exI [of _ "[]"] exI [of _ ?g] exI [of _ s] exI [of _ "snd (step s ?g)"])
        (simp add: cs True prod_eq_iff)
  next
    case False
    then obtain s' where s': "step s ?g = (None, s')" "partial s' (next_seq q) c"
      using step assms by (cases "step s ?g") (auto simp: cs)
    have "length c + length (concat cs') \<le> limit"
      "\<forall>g\<in>set (number_chunks False (next_seq q) cs'). admits g"
      using assms by (simp_all add: cs)
    from feed_rest [OF s'(2) this(1) False this(2)] obtain gs g u t where
      "number_chunks False (next_seq q) cs' = gs @ [g]" "feed step s' gs = ([], u)"
      "step u g = (Some (c @ concat cs'), t)" "idle t" by blast
    with s'(1) show ?thesis
      by (intro exI [of _ "?g # gs"] exI [of _ g] exI [of _ u] exI [of _ t]) (simp add: cs)
  qed
qed

lemma feed_message:
  assumes "cs \<noteq> []" and "length (concat cs) \<le> limit"
    and "\<forall>g\<in>set (number_chunks True q cs). admits g"
  shows "\<exists>t. feed step s (number_chunks True q cs) = ([concat cs], t) \<and> idle t"
  using feed_message_last [OF assms, of s] by (auto simp: feed_append)

text \<open>
  What the state remembers: it is idle, or it holds exactly a run from a first segment at the
  end of the admitted segments so far.
\<close>

definition remembers :: "segment list \<Rightarrow> 's \<Rightarrow> bool" where
  "remembers gs s \<longleftrightarrow> idle s
    \<or> (\<exists>pre run. filter admits gs = pre @ run \<and> message_run run False
        \<and> partial s (run_next run) (run_data run))"

lemma remembers_step:
  assumes "remembers gs s"
  shows "remembers (gs @ [g]) (snd (step s g)) \<and>
    (\<forall>d. fst (step s g) = Some d \<longrightarrow>
      (\<exists>pre run. filter admits (gs @ [g]) = pre @ run \<and> message_run run True
        \<and> d = run_data run \<and> length d \<le> limit))"
proof (cases "admits g")
  case False
  with assms refused_seg [of g s] show ?thesis by (auto simp: remembers_def)
next
  case adm: True
  show ?thesis
  proof (cases "sgFIR g")
    case fir: True
    have run: "filter admits (gs @ [g]) = filter admits gs @ [g]" "message_run [g] (sgFIN g)"
      "run_data [g] = sgData g" "run_next [g] = next_seq (sgSeq g)"
      using adm fir by (simp_all add: message_run_single run_data_def run_next_def)
    show ?thesis
    proof (cases "length (sgData g) \<le> limit")
      case True
      have "\<exists>pre. filter admits (gs @ [g]) = pre @ [g]" using run(1) by blast
      with first_seg [OF fir adm True, of s] run(2-4) True show ?thesis
        unfolding remembers_def by (cases "sgFIN g") (auto, metis+)
    next
      case False
      with big_seg [OF fir adm, of s] show ?thesis by (simp add: remembers_def)
    qed
  next
    case nfir: False
    show ?thesis
    proof (cases "idle s")
      case True
      with stray_seg [OF _ nfir, of s] show ?thesis by (simp add: remembers_def)
    next
      case False
      then obtain pre run where r: "filter admits gs = pre @ run" "message_run run False"
        "partial s (run_next run) (run_data run)"
        using assms by (auto simp: remembers_def)
      show ?thesis
      proof (cases "sgSeq g = run_next run \<and> length (run_data run) + length (sgData g) \<le> limit")
        case True
        have run: "filter admits (gs @ [g]) = pre @ (run @ [g])"
          "message_run (run @ [g]) (sgFIN g)" "run_data (run @ [g]) = run_data run @ sgData g"
          "run_next (run @ [g]) = next_seq (run_next run)"
          using adm r message_run_snoc [OF r(2) nfir] True
          by (simp_all add: run_data_def run_next_def)
        have ex: "\<exists>pre run'. filter admits (gs @ [g]) = pre @ run' \<and> message_run run' (sgFIN g)
            \<and> run_data run' = run_data run @ sgData g \<and> run_next run' = next_seq (run_next run)"
          using run by blast
        show ?thesis
        proof (cases "sgFIN g")
          case fin: True
          have "fst (step s g) = Some (run_data run @ sgData g) \<and> idle (snd (step s g))"
            using next_seg [OF r(3) nfir adm] True fin by simp
          with adm ex fin True show ?thesis by (auto simp: remembers_def) metis
        next
          case fin: False
          have "fst (step s g) = None
              \<and> partial (snd (step s g)) (next_seq (run_next run)) (run_data run @ sgData g)"
            using next_seg [OF r(3) nfir adm] True fin by simp
          with adm ex fin show ?thesis by (auto simp: remembers_def) metis
        qed
      next
        case False
        then have "sgSeq g \<noteq> run_next run \<or> limit < length (run_data run) + length (sgData g)"
          by auto
        with bad_seg [OF r(3) nfir adm] show ?thesis by (simp add: remembers_def)
      qed
    qed
  qed
qed

lemma remembers_feed:
  assumes "remembers gs s"
  shows "remembers (gs @ hs) (snd (feed step s hs))"
  using assms
proof (induction hs arbitrary: gs s)
  case Nil
  then show ?case by simp
next
  case (Cons h hs)
  from Cons.IH [OF remembers_step [OF Cons.prems, THEN conjunct1], of h]
  show ?case by (auto split: prod.split)
qed

lemma delivery_sound:
  assumes "idle s" and "fst (step (snd (feed step s gs)) g) = Some d"
  shows "\<exists>pre run. filter admits (gs @ [g]) = pre @ run \<and> message_run run True
    \<and> d = run_data run \<and> length d \<le> limit"
proof -
  have "remembers [] s" using assms(1) by (simp add: remembers_def)
  from remembers_step [OF remembers_feed [OF this, of gs], of g] assms(2) show ?thesis by auto
qed

end

end
