(* ===== verification/Transport_Segment.thy ===== *)
theory Transport_Segment
  imports Reassembly
begin

text \<open>
  \<open>pkg/transport/segment.go\<close>, \<open>reassembly.go\<close> and \<open>layer.go\<close>: the transport header, the
  segmentation of an APDU, the reassembler and the transport layer made of both. The result
  of the reassembler is an option, as the code tells no message from an empty one. The
  reassembler implements the reassembly interface, so a segmented APDU is put together from
  any state, and nothing but a complete run of consecutive segments is ever delivered.
\<close>

unbundle bit_operations_syntax

section \<open>Headers\<close>

definition MaxSegmentSize :: nat where [simp]: "MaxSegmentSize = 248"
definition THeaderSize :: nat where [simp]: "THeaderSize = 1"
definition TransportFIN :: byte where [simp]: "TransportFIN = 0x80"
definition TransportFIR :: byte where [simp]: "TransportFIR = 0x40"
definition TransportSeqMask :: byte where [simp]: "TransportSeqMask = 0x3F"

definition NewSegment :: "bool \<Rightarrow> bool \<Rightarrow> byte \<Rightarrow> bytes \<Rightarrow> segment" where
  "NewSegment fir fin seq data =
     \<lparr>sgFIR = fir, sgFIN = fin, sgSeq = seq AND TransportSeqMask, sgData = data\<rparr>"

definition BuildHeader :: "segment \<Rightarrow> byte" where
  "BuildHeader s =
     (let h0 = sgSeq s AND TransportSeqMask;
          h1 = (if sgFIR s then h0 OR TransportFIR else h0)
      in if sgFIN s then h1 OR TransportFIN else h1)"

definition ParseHeader :: "byte \<Rightarrow> bool \<times> bool \<times> byte" where
  "ParseHeader header =
     (header AND TransportFIR \<noteq> 0, header AND TransportFIN \<noteq> 0, header AND TransportSeqMask)"

definition Segment_Serialize :: "segment \<Rightarrow> bytes" where
  "Segment_Serialize s = BuildHeader s # sgData s"

lemma Parse_BuildHeader:
  "sgSeq s AND 0x3F = sgSeq s \<Longrightarrow> ParseHeader (BuildHeader s) = (sgFIR s, sgFIN s, sgSeq s)"
  by (auto simp: ParseHeader_def BuildHeader_def Let_def byte_eq_iff bit_simps)

section \<open>Segmentation\<close>

function SegmentData_loop :: "bytes \<Rightarrow> nat \<Rightarrow> byte \<Rightarrow> segment list" where
  "SegmentData_loop data offset seq =
     (if \<not> offset < length data then []
      else let remaining = length data - offset;
               segSize = (if remaining < MaxSegmentSize then remaining else MaxSegmentSize);
               segData = take segSize (drop offset data);
               fir = (offset = 0);
               fin = (offset + segSize \<ge> length data)
           in NewSegment fir fin seq segData
                # SegmentData_loop data (offset + segSize) ((seq + 1) AND TransportSeqMask))"
  by pat_completeness auto
termination
  by (relation "measure (\<lambda>(data, offset, seq). length data - offset)") auto

declare SegmentData_loop.simps [simp del]

definition SegmentData :: "bytes \<Rightarrow> byte \<Rightarrow> segment list" where
  "SegmentData data startSeq =
     (if length data = 0 then [] else SegmentData_loop data 0 (startSeq AND TransportSeqMask))"

lemma SegmentData_loop_chunks:
  "seq AND 0x3F = seq \<Longrightarrow>
    SegmentData_loop data offset seq = number_chunks (offset = 0) seq (chunks 248 (drop offset data))"
proof (induction "length data - offset" arbitrary: offset seq rule: less_induct)
  case less
  show ?case
  proof (cases "offset < length data")
    case False
    then show ?thesis by (simp add: SegmentData_loop.simps)
  next
    case True
    let ?n = "if length data - offset < 248 then length data - offset else 248"
    have n: "take 248 (drop offset data) = take ?n (drop offset data)"
      "drop 248 (drop offset data) = drop (offset + ?n) data" "0 < ?n"
      using True by (auto simp: ac_simps)
    have c: "chunks 248 (drop offset data) = take ?n (drop offset data) # chunks 248 (drop (offset + ?n) data)"
      using True n by (subst chunks_step) auto
    have e: "(chunks 248 (drop (offset + ?n) data) = []) = (length data \<le> offset + ?n)"
      by (auto simp: chunks_eq_Nil)
    have "SegmentData_loop data (offset + ?n) (next_seq seq)
        = number_chunks (offset + ?n = 0) (next_seq seq) (chunks 248 (drop (offset + ?n) data))"
      by (rule less.hyps) (use True n(3) in auto)
    moreover have "SegmentData_loop data offset seq
      = NewSegment (offset = 0) (length data \<le> offset + ?n) seq (take ?n (drop offset data))
          # SegmentData_loop data (offset + ?n) (next_seq seq)"
      using True by (subst SegmentData_loop.simps) (simp add: Let_def next_seq_def)
    ultimately show ?thesis
      unfolding c using n(3) e less.prems by (simp add: NewSegment_def)
  qed
qed

lemma SegmentData_chunks:
  "SegmentData data q = number_chunks True (q AND 0x3F) (chunks 248 data)"
proof -
  have "(q AND 0x3F) AND 0x3F = q AND 0x3F" by (simp add: byte_eq_iff bit_simps)
  then show ?thesis
    using SegmentData_loop_chunks [of "q AND 0x3F" data 0] by (simp add: SegmentData_def)
qed

section \<open>Reassembly\<close>

datatype transport_err = ErrInvalidSequence | ErrMissingFIR | ErrUnexpectedFIR | ErrBufferOverflow

definition MaxReassemblySize :: nat where [simp]: "MaxReassemblySize = 2048"

record Reassembler =
  rsBuffer :: bytes
  rsExpectedSeq :: byte
  rsInProgress :: bool

definition NewReassembler :: Reassembler where
  "NewReassembler = \<lparr>rsBuffer = [], rsExpectedSeq = 0, rsInProgress = False\<rparr>"

definition Reassembler_Reset :: "Reassembler \<Rightarrow> Reassembler" where
  "Reassembler_Reset r = r\<lparr>rsBuffer := [], rsInProgress := False, rsExpectedSeq := 0\<rparr>"

definition Process :: "Reassembler \<Rightarrow> segment \<Rightarrow> (transport_err + bytes option) \<times> Reassembler" where
  "Process r segment =
     (if \<not> sgFIR segment \<and> \<not> rsInProgress r then (Inr None, r)
      else let r1 = (if sgFIR segment
                     then r\<lparr>rsBuffer := [], rsInProgress := True, rsExpectedSeq := sgSeq segment\<rparr>
                     else r)
           in if sgSeq segment \<noteq> rsExpectedSeq r1 then (Inr None, Reassembler_Reset r1)
              else if length (rsBuffer r1) + length (sgData segment) > MaxReassemblySize
              then (Inl ErrBufferOverflow, Reassembler_Reset r1)
              else let r2 = r1\<lparr>rsBuffer := rsBuffer r1 @ sgData segment,
                               rsExpectedSeq := (rsExpectedSeq r1 + 1) AND TransportSeqMask\<rparr>
                   in if sgFIN segment then (Inr (Some (rsBuffer r2)), Reassembler_Reset r2)
                      else (Inr None, r2))"

text \<open>An error hands nothing up.\<close>

definition handed_up :: "'e + bytes option \<Rightarrow> bytes option" where
  "handed_up r = (case r of Inl _ \<Rightarrow> None | Inr m \<Rightarrow> m)"

definition lax_step :: "Reassembler \<Rightarrow> segment \<Rightarrow> bytes option \<times> Reassembler" where
  "lax_step r g = (case Process r g of (res, r') \<Rightarrow> (handed_up res, r'))"

definition lax_partial :: "Reassembler \<Rightarrow> byte \<Rightarrow> bytes \<Rightarrow> bool" where
  "lax_partial r q got \<longleftrightarrow> rsInProgress r \<and> rsExpectedSeq r = q \<and> rsBuffer r = got"

interpretation lax_reassembly:
  reassembler lax_step "\<lambda>r. \<not> rsInProgress r" lax_partial 2048 "\<lambda>g. True"
  by unfold_locales
    (auto simp: lax_step_def lax_partial_def Process_def handed_up_def Reassembler_Reset_def
      next_seq_def Let_def)

section \<open>The transport layer\<close>

record Layer =
  lyReassembler :: Reassembler
  lyTxSequence :: byte

definition NewLayer :: Layer where
  "NewLayer = \<lparr>lyReassembler = NewReassembler, lyTxSequence = 0\<rparr>"

definition header_segment :: "bytes \<Rightarrow> segment" where
  "header_segment data =
     (case ParseHeader (hd data) of
        (fir, fin, seq) \<Rightarrow> \<lparr>sgFIR = fir, sgFIN = fin, sgSeq = seq, sgData = tl data\<rparr>)"

definition Layer_Receive :: "Layer \<Rightarrow> bytes \<Rightarrow> (transport_err + bytes option) \<times> Layer" where
  "Layer_Receive l data =
     (if length data < THeaderSize then (Inl ErrMissingFIR, l)
      else (case Process (lyReassembler l) (header_segment data) of
              (res, r) \<Rightarrow> (res, l\<lparr>lyReassembler := r\<rparr>)))"

definition Layer_Send :: "Layer \<Rightarrow> bytes \<Rightarrow> bytes list \<times> Layer" where
  "Layer_Send l apdu =
     (if length apdu = 0 then ([], l)
      else let segments = SegmentData apdu (lyTxSequence l)
           in (map Segment_Serialize segments,
               l\<lparr>lyTxSequence := (lyTxSequence l + of_nat (length segments)) AND TransportSeqMask\<rparr>))"

definition Layer_Reset :: "Layer \<Rightarrow> Layer" where
  "Layer_Reset l = l\<lparr>lyReassembler := Reassembler_Reset (lyReassembler l), lyTxSequence := 0\<rparr>"

text \<open>Receiving a list of TPDUs: the APDUs handed up, in order, and the layer after them.\<close>

fun receive_tpdus :: "Layer \<Rightarrow> bytes list \<Rightarrow> bytes list \<times> Layer" where
  "receive_tpdus l [] = ([], l)"
| "receive_tpdus l (t # ts) =
     (case Layer_Receive l t of (res, l') \<Rightarrow>
        (case receive_tpdus l' ts of (ms, l'') \<Rightarrow>
           ((case handed_up res of None \<Rightarrow> ms | Some m \<Rightarrow> m # ms), l'')))"

lemma receive_append:
  "receive_tpdus l (ts @ us) = (case receive_tpdus l ts of (ms, l') \<Rightarrow>
     (case receive_tpdus l' us of (ns, l'') \<Rightarrow> (ms @ ns, l'')))"
  by (induction ts arbitrary: l) (auto split: prod.split option.split)

lemma header_segment_Serialize:
  "sgSeq g AND 0x3F = sgSeq g \<Longrightarrow> header_segment (Segment_Serialize g) = g"
  by (simp add: header_segment_def Segment_Serialize_def Parse_BuildHeader)

lemma receive_feed:
  "list_all (\<lambda>t. t \<noteq> []) ts \<Longrightarrow>
    receive_tpdus l ts = (case feed lax_step (lyReassembler l) (map header_segment ts) of
      (ms, r) \<Rightarrow> (ms, l\<lparr>lyReassembler := r\<rparr>))"
proof (induction ts arbitrary: l)
  case Nil
  then show ?case by simp
next
  case (Cons t ts)
  obtain res r where p: "Process (lyReassembler l) (header_segment t) = (res, r)" by fastforce
  have "t \<noteq> []" using Cons.prems by simp
  then have "Layer_Receive l t = (res, l\<lparr>lyReassembler := r\<rparr>)"
    by (simp add: Layer_Receive_def p Suc_le_eq)
  then show ?case
    using Cons.IH [of "l\<lparr>lyReassembler := r\<rparr>"] Cons.prems
    by (simp add: lax_step_def p split: prod.split option.split)
qed

lemma Send_tpdus:
  assumes "apdu \<noteq> []"
  shows "fst (Layer_Send l apdu)
    = map Segment_Serialize (number_chunks True (lyTxSequence l AND 0x3F) (chunks 248 apdu))"
  using assms by (simp add: Layer_Send_def SegmentData_chunks Let_def)

lemma masked_twice [simp]: "((x :: byte) AND 0x3F) AND 0x3F = x AND 0x3F"
  by (simp add: byte_eq_iff bit_simps)

lemma header_segments_Send:
  assumes "apdu \<noteq> []"
  shows "map header_segment (fst (Layer_Send l apdu))
    = number_chunks True (lyTxSequence l AND 0x3F) (chunks 248 apdu)"
  unfolding Send_tpdus [OF assms] map_map
  by (rule map_idI) (auto simp: header_segment_Serialize dest: number_chunks_seq [rotated])

text \<open>The TPDUs of an APDU hand it up with the last of them, and nothing before.\<close>

lemma Send_received_last:
  assumes "apdu \<noteq> []" and "length apdu \<le> MaxReassemblySize"
  shows "\<exists>us u l l'. fst (Layer_Send tx apdu) = us @ [u] \<and> receive_tpdus rx us = ([], l)
    \<and> Layer_Receive l u = (Inr (Some apdu), l') \<and> \<not> rsInProgress (lyReassembler l')
    \<and> lyTxSequence l' = lyTxSequence rx"
proof -
  let ?cs = "chunks 248 apdu" and ?ts = "fst (Layer_Send tx apdu)"
  have cs: "?cs \<noteq> []" "concat ?cs = apdu"
    using assms(1) by (simp_all add: chunks_eq_Nil concat_chunks)
  have ne: "list_all (\<lambda>t. t \<noteq> []) ?ts"
    by (auto simp: Send_tpdus [OF assms(1)] Segment_Serialize_def list_all_iff)
  obtain gs g s' t where g: "number_chunks True (lyTxSequence tx AND 0x3F) ?cs = gs @ [g]"
    "feed lax_step (lyReassembler rx) gs = ([], s')" "lax_step s' g = (Some apdu, t)" "\<not> rsInProgress t"
    using lax_reassembly.feed_message_last [OF cs(1), of "lyTxSequence tx AND 0x3F" "lyReassembler rx"]
      assms(2) unfolding cs(2) by auto
  have "map header_segment ?ts = gs @ [g]" using header_segments_Send [OF assms(1), of tx] g(1) by simp
  then obtain us vs where us: "?ts = us @ vs" "map header_segment us = gs" "map header_segment vs = [g]"
    by (auto simp: map_eq_append_conv)
  then obtain u where u: "vs = [u]" "header_segment u = g" by auto
  have nes: "list_all (\<lambda>t. t \<noteq> []) us" "u \<noteq> []" using ne us(1) u(1) by simp_all
  have "receive_tpdus rx us = ([], rx\<lparr>lyReassembler := s'\<rparr>)"
    using receive_feed [OF nes(1), of rx] us(2) g(2) by simp
  moreover have "Layer_Receive (rx\<lparr>lyReassembler := s'\<rparr>) u = (Inr (Some apdu), rx\<lparr>lyReassembler := t\<rparr>)"
    using g(3) u(2) nes(2)
    by (cases "Process s' (header_segment u)")
      (simp add: Layer_Receive_def lax_step_def Suc_le_eq handed_up_def split: sum.splits)
  ultimately show ?thesis using us(1) u(1) g(4)
    by (intro exI [of _ us] exI [of _ u] exI [of _ "rx\<lparr>lyReassembler := s'\<rparr>"]
        exI [of _ "rx\<lparr>lyReassembler := t\<rparr>"]) simp
qed

lemma Send_sizes:
  assumes "t \<in> set (fst (Layer_Send tx apdu))"
  shows "2 \<le> length t" and "length t \<le> 249"
proof -
  have "apdu \<noteq> []" using assms by (auto simp: Layer_Send_def)
  then obtain g where g: "t = BuildHeader g # sgData g" "sgData g \<in> set (chunks 248 apdu)"
    using assms number_chunks_mem by (fastforce simp: Send_tpdus Segment_Serialize_def)
  then show "2 \<le> length t" and "length t \<le> 249"
    using chunks_sizes [of 248 apdu] by (auto simp: Suc_le_eq)
qed

section \<open>Properties\<close>

text \<open>
  C10: an APDU survives transport. Whatever state the sending and the receiving layer are in,
  an APDU of 1 to 2048 bytes is cut into TPDUs of at most 249 bytes, and receiving them in
  order hands up exactly that APDU, once, and leaves no reassembly in progress.
\<close>

theorem transport_roundtrip:
  assumes "apdu \<noteq> []" and "length apdu \<le> MaxReassemblySize"
  shows "(\<forall>t\<in>set (fst (Layer_Send tx apdu)). 2 \<le> length t \<and> length t \<le> MaxSegmentSize + THeaderSize)
    \<and> fst (receive_tpdus rx (fst (Layer_Send tx apdu))) = [apdu]
    \<and> \<not> rsInProgress (lyReassembler (snd (receive_tpdus rx (fst (Layer_Send tx apdu)))))"
proof -
  obtain us u l l' where "fst (Layer_Send tx apdu) = us @ [u]" "receive_tpdus rx us = ([], l)"
    "Layer_Receive l u = (Inr (Some apdu), l')" "\<not> rsInProgress (lyReassembler l')"
    using Send_received_last [OF assms] by blast
  then show ?thesis
    using Send_sizes [of _ tx apdu] by (auto simp: receive_append handed_up_def)
qed

theorem transport_roundtrip_witness:
  "fst (receive_tpdus NewLayer (fst (Layer_Send NewLayer (replicate 300 7)))) = [replicate 300 7]"
  using transport_roundtrip [of "replicate 300 7" NewLayer NewLayer] by simp

text \<open>
  C11: nothing but a complete message is ever delivered. Whatever TPDUs have arrived before,
  lost, repeated or reordered, an APDU the layer hands up on a TPDU is the concatenation of
  the data of the last TPDUs received: a run that starts with the only first segment in it,
  has consecutive sequence numbers, and ends with this TPDU as its only final segment.
\<close>

theorem transport_delivery_sound:
  assumes "list_all (\<lambda>t. t \<noteq> []) (ts @ [t])"
    and "handed_up (fst (Layer_Receive (snd (receive_tpdus NewLayer ts)) t)) = Some d"
  shows "\<exists>pre run. ts @ [t] = pre @ run \<and> message_run (map header_segment run) True
    \<and> d = run_data (map header_segment run) \<and> length d \<le> MaxReassemblySize"
proof -
  let ?gs = "map header_segment ts"
  have ne: "list_all (\<lambda>t. t \<noteq> []) ts" "t \<noteq> []" using assms(1) by simp_all
  have "lyReassembler (snd (receive_tpdus NewLayer ts)) = snd (feed lax_step NewReassembler ?gs)"
    by (simp add: receive_feed [OF ne(1)] NewLayer_def split: prod.split)
  then have "fst (lax_step (snd (feed lax_step NewReassembler ?gs)) (header_segment t)) = Some d"
    using assms(2) ne(2) by (auto simp: Layer_Receive_def lax_step_def Suc_le_eq split: prod.splits)
  from lax_reassembly.delivery_sound [OF _ this] obtain pre run where
    r: "?gs @ [header_segment t] = pre @ run" "message_run run True" "d = run_data run"
    "length d \<le> 2048"
    by (auto simp: NewReassembler_def)
  have "map header_segment (ts @ [t]) = pre @ run" using r(1) by simp
  then obtain us vs where "ts @ [t] = us @ vs" "map header_segment vs = run"
    unfolding map_eq_append_conv by blast
  with r show ?thesis by auto
qed

theorem transport_delivery_sound_witness:
  "\<exists>pre run. [[0x41, 1], [0x85, 2], [0x42, 3], [0x83, 4]] = pre @ run
    \<and> message_run (map header_segment run) True \<and> [3, 4] = run_data (map header_segment run)"
proof -
  have ne: "list_all (\<lambda>t. t \<noteq> []) ([[0x41, 1], [0x85, 2], [0x42, 3]] @ [[0x83 :: byte, 4]])" by simp
  have "handed_up (fst (Layer_Receive
      (snd (receive_tpdus NewLayer [[0x41, 1], [0x85, 2], [0x42, 3]])) [0x83, 4])) = Some [3, 4]"
    by code_simp
  from transport_delivery_sound [OF ne this] show ?thesis unfolding append.simps by blast
qed

end
