(* ===== verification/Transport_Strict.thy ===== *)
theory Transport_Strict
  imports Transport_Segment
begin

text \<open>
  \<open>pkg/transport/strict.go\<close>: the strict segmentation and reassembly, with the payload limit
  and the fragment limit given by the caller and every failure an error. The reassembler
  implements the same interface as the lax one. The two do not understand each other: the
  strict code has the FIR and the FIN bit the other way round.
\<close>

unbundle bit_operations_syntax

section \<open>Segmentation\<close>

definition StrictFIR :: byte where [simp]: "StrictFIR = 0x80"
definition StrictFIN :: byte where [simp]: "StrictFIN = 0x40"
definition StrictSequence :: byte where [simp]: "StrictSequence = 0x3F"

datatype stransport_err =
    FragmentEmpty
  | PayloadLimitInvalid
  | MaximumInvalid
  | SegmentWithoutPayload
  | ContinuationWithoutFirst
  | SequenceMismatch byte byte
  | FragmentLimitExceeded

function SegmentStrict_loop :: "bytes \<Rightarrow> nat \<Rightarrow> nat \<Rightarrow> byte \<Rightarrow> bytes list \<times> byte" where
  "SegmentStrict_loop fragment chunkSize offset current =
     (if \<not> (offset < length fragment \<and> 0 < chunkSize) then ([], current)
      else let end' = min (offset + chunkSize) (length fragment);
               h0 = (if offset = 0 then current OR StrictFIR else current);
               header = (if end' = length fragment then h0 OR StrictFIN else h0);
               segment = header # take (end' - offset) (drop offset fragment);
               (segments, next) = SegmentStrict_loop fragment chunkSize (offset + chunkSize)
                 ((current + 1) AND StrictSequence)
           in (segment # segments, next))"
  by pat_completeness auto
termination
  by (relation "measure (\<lambda>(fragment, chunkSize, offset, current). length fragment - offset)") auto

declare SegmentStrict_loop.simps [simp del]

definition SegmentStrict :: "bytes \<Rightarrow> byte \<Rightarrow> int \<Rightarrow> (stransport_err + bytes list) \<times> byte" where
  "SegmentStrict fragment sequence maximumLinkPayload =
     (if length fragment = 0 then (Inl FragmentEmpty, sequence AND StrictSequence)
      else if maximumLinkPayload < 2 \<or> maximumLinkPayload > 250
      then (Inl PayloadLimitInvalid, sequence AND StrictSequence)
      else let chunkSize = nat (maximumLinkPayload - 1);
               current = sequence AND StrictSequence;
               (segments, current') = SegmentStrict_loop fragment chunkSize 0 current
           in (Inr segments, current'))"

section \<open>Reassembly\<close>

record StrictReassembler =
  srMaximumFragment :: int
  srActive :: bool
  srNextSequence :: byte
  srFragment :: bytes

definition NewStrictReassembler :: "int \<Rightarrow> stransport_err + StrictReassembler" where
  "NewStrictReassembler maximumFragment =
     (if maximumFragment < 1 then Inl MaximumInvalid
      else Inr \<lparr>srMaximumFragment = maximumFragment, srActive = False, srNextSequence = 0,
                srFragment = []\<rparr>)"

definition StrictReassembler_Reset :: "StrictReassembler \<Rightarrow> StrictReassembler" where
  "StrictReassembler_Reset r = r\<lparr>srActive := False, srNextSequence := 0, srFragment := []\<rparr>"

text \<open>
  \<open>Push\<close> takes the header of the segment apart and goes on with its parts. A complete
  fragment is \<open>Inr (Some fragment)\<close>, the code's \<open>true, fragment, nil\<close>.
\<close>

definition strict_segment :: "bytes \<Rightarrow> segment" where
  "strict_segment segment =
     \<lparr>sgFIR = (hd segment AND StrictFIR \<noteq> 0), sgFIN = (hd segment AND StrictFIN \<noteq> 0),
      sgSeq = hd segment AND StrictSequence, sgData = tl segment\<rparr>"

definition push_parts ::
  "StrictReassembler \<Rightarrow> segment \<Rightarrow> (stransport_err + bytes option) \<times> StrictReassembler" where
  "push_parts r g =
     (if \<not> sgFIR g \<and> \<not> srActive r then (Inl ContinuationWithoutFirst, r)
      else let r1 = (if sgFIR g
                     then (StrictReassembler_Reset r)\<lparr>srActive := True, srNextSequence := sgSeq g\<rparr>
                     else r)
           in if sgSeq g \<noteq> srNextSequence r1
              then (Inl (SequenceMismatch (sgSeq g) (srNextSequence r1)), StrictReassembler_Reset r1)
              else if int (length (srFragment r1) + length (sgData g)) > srMaximumFragment r1
              then (Inl FragmentLimitExceeded, StrictReassembler_Reset r1)
              else let r2 = r1\<lparr>srFragment := srFragment r1 @ sgData g,
                               srNextSequence := (sgSeq g + 1) AND StrictSequence\<rparr>
                   in if \<not> sgFIN g then (Inr None, r2)
                      else (Inr (Some (srFragment r2)), StrictReassembler_Reset r2))"

definition Push ::
  "StrictReassembler \<Rightarrow> bytes \<Rightarrow> (stransport_err + bytes option) \<times> StrictReassembler" where
  "Push r segment =
     (if length segment < 2 then (Inl SegmentWithoutPayload, r)
      else push_parts r (strict_segment segment))"

text \<open>The reassembler with a given limit, as the reassembly interface has it.\<close>

definition strict_step :: "nat \<Rightarrow> StrictReassembler \<Rightarrow> segment \<Rightarrow> bytes option \<times> StrictReassembler" where
  "strict_step limit r g =
     (if sgData g = [] then (None, r)
      else (case push_parts (r\<lparr>srMaximumFragment := int limit\<rparr>) g of (res, r') \<Rightarrow> (handed_up res, r')))"

definition strict_partial :: "StrictReassembler \<Rightarrow> byte \<Rightarrow> bytes \<Rightarrow> bool" where
  "strict_partial r q got \<longleftrightarrow> srActive r \<and> srNextSequence r = q \<and> srFragment r = got"

interpretation strict_reassembly: reassembler "strict_step limit" "\<lambda>r. \<not> srActive r" strict_partial
    limit "\<lambda>g. sgData g \<noteq> []" for limit
  by unfold_locales
    (auto simp: strict_step_def strict_partial_def push_parts_def handed_up_def
      StrictReassembler_Reset_def next_seq_def Let_def)

section \<open>The segments of a fragment\<close>

definition strict_bytes :: "segment \<Rightarrow> bytes" where
  "strict_bytes g =
     (let h0 = (if sgFIR g then sgSeq g OR StrictFIR else sgSeq g)
      in (if sgFIN g then h0 OR StrictFIN else h0) # sgData g)"

lemma strict_segment_bytes:
  "sgSeq g AND 0x3F = sgSeq g \<Longrightarrow> strict_segment (strict_bytes g) = g"
  by (cases g) (auto simp: strict_segment_def strict_bytes_def Let_def byte_eq_iff bit_simps)

fun advance :: "nat \<Rightarrow> byte \<Rightarrow> byte" where
  "advance 0 q = q"
| "advance (Suc n) q = advance n (next_seq q)"

lemma SegmentStrict_loop_chunks:
  assumes "0 < n"
  shows "SegmentStrict_loop d n offset q =
    (map strict_bytes (number_chunks (offset = 0) q (chunks n (drop offset d))),
     advance (length (chunks n (drop offset d))) q)"
proof (induction "length d - offset" arbitrary: offset q rule: less_induct)
  case less
  show ?case
  proof (cases "offset < length d")
    case False
    then show ?thesis by (simp add: SegmentStrict_loop.simps)
  next
    case True
    have c: "chunks n (drop offset d) = take n (drop offset d) # chunks n (drop (offset + n) d)"
      using True assms by (subst chunks_step) (auto simp: ac_simps)
    have e: "(chunks n (drop (offset + n) d) = []) = (min (offset + n) (length d) = length d)"
      using assms by (auto simp: chunks_eq_Nil)
    have t: "take (min (offset + n) (length d) - offset) (drop offset d) = take n (drop offset d)"
      using True by (auto simp: min_def)
    have "SegmentStrict_loop d n (offset + n) (next_seq q) =
      (map strict_bytes (number_chunks False (next_seq q) (chunks n (drop (offset + n) d))),
       advance (length (chunks n (drop (offset + n) d))) (next_seq q))"
      using less.hyps [of "offset + n" "next_seq q"] True assms by simp
    then show ?thesis
      unfolding c using True assms e t
      by (subst SegmentStrict_loop.simps)
        (simp add: strict_bytes_def next_seq_def Let_def)
  qed
qed

lemma SegmentStrict_chunks:
  assumes "SegmentStrict d q m = (Inr segs, q')"
  shows "d \<noteq> []" and "2 \<le> m" and "m \<le> 250"
    and "segs = map strict_bytes (number_chunks True (q AND 0x3F) (chunks (nat (m - 1)) d))"
    and "q' = advance (length segs) (q AND 0x3F)"
proof -
  have *: "d \<noteq> []" "2 \<le> m" "m \<le> 250"
    using assms by (auto simp: SegmentStrict_def split: if_splits)
  then show "d \<noteq> []" "2 \<le> m" "m \<le> 250" by simp_all
  have "0 < nat (m - 1)" using * by simp
  from SegmentStrict_loop_chunks [OF this, of d 0 "q AND 0x3F"]
  show "segs = map strict_bytes (number_chunks True (q AND 0x3F) (chunks (nat (m - 1)) d))"
    and "q' = advance (length segs) (q AND 0x3F)"
    using assms * by (auto simp: SegmentStrict_def split: if_splits prod.splits)
qed

text \<open>Pushing a list of segments: the fragments completed, in order.\<close>

fun push_all :: "StrictReassembler \<Rightarrow> bytes list \<Rightarrow> bytes list \<times> StrictReassembler" where
  "push_all r [] = ([], r)"
| "push_all r (t # ts) =
     (case Push r t of (res, r') \<Rightarrow>
        (case push_all r' ts of (ms, r'') \<Rightarrow>
           ((case handed_up res of None \<Rightarrow> ms | Some m \<Rightarrow> m # ms), r'')))"

lemma push_parts_maximum: "srMaximumFragment (snd (push_parts r g)) = srMaximumFragment r"
  by (auto simp: push_parts_def StrictReassembler_Reset_def Let_def)

lemma push_all_feed:
  "list_all (\<lambda>t. 2 \<le> length t) ts \<Longrightarrow> srMaximumFragment r = int limit \<Longrightarrow>
    push_all r ts = feed (strict_step limit) r (map strict_segment ts)"
proof (induction ts arbitrary: r)
  case Nil
  then show ?case by simp
next
  case (Cons t ts)
  obtain res r' where p: "push_parts r (strict_segment t) = (res, r')" by fastforce
  have t: "Push r t = (res, r')" "sgData (strict_segment t) \<noteq> []"
    using Cons.prems(1) p by (cases t; auto simp: Push_def strict_segment_def)+
  have "r\<lparr>srMaximumFragment := int limit\<rparr> = r" using Cons.prems(2) by simp
  then have "strict_step limit r (strict_segment t) = (handed_up res, r')"
    using t p by (simp add: strict_step_def)
  moreover have "push_all r' ts = feed (strict_step limit) r' (map strict_segment ts)"
    using Cons push_parts_maximum [of r "strict_segment t"] p by simp
  ultimately show ?case using t by (auto split: prod.split option.split)
qed

lemma strict_segments_back:
  assumes "q AND 0x3F = q"
  shows "map strict_segment (map strict_bytes (number_chunks fir q cs)) = number_chunks fir q cs"
  unfolding map_map
  by (rule map_idI) (auto simp: strict_segment_bytes dest: number_chunks_seq [OF assms])

section \<open>Properties\<close>

text \<open>
  A fragment survives strict transport: for every payload limit the code allows,
  every start sequence and whatever the reassembler has seen before, a fragment within the
  reassembler's limit is cut into segments that fit the payload limit, and pushing them in
  order completes exactly that fragment, once. The sequence number returned for the next
  fragment is one past that of the last segment, modulo 64.
\<close>

theorem strict_transport_roundtrip:
  assumes "SegmentStrict d q m = (Inr segs, q')" and "int (length d) \<le> srMaximumFragment r"
  shows "(\<forall>t\<in>set segs. 2 \<le> length t \<and> int (length t) \<le> m)
    \<and> fst (push_all r segs) = [d] \<and> \<not> srActive (snd (push_all r segs))
    \<and> q' = advance (length segs) (q AND StrictSequence)"
proof -
  note seg = SegmentStrict_chunks [OF assms(1)]
  let ?n = "nat (m - 1)" and ?limit = "nat (srMaximumFragment r)"
  let ?cs = "chunks ?n d"
  have n: "0 < ?n" using seg(2) by simp
  have cs: "?cs \<noteq> []" "concat ?cs = d" "\<forall>c\<in>set ?cs. c \<noteq> [] \<and> length c \<le> ?n"
    using n seg(1) chunks_sizes [OF n, of d] by (simp_all add: chunks_eq_Nil concat_chunks)
  have sizes: "\<forall>t\<in>set segs. 2 \<le> length t \<and> int (length t) \<le> m"
  proof
    fix t assume "t \<in> set segs"
    then obtain g where g: "t = strict_bytes g" "sgData g \<in> set ?cs"
      using seg(4) number_chunks_mem by fastforce
    have "length t = Suc (length (sgData g))" by (simp add: g(1) strict_bytes_def Let_def)
    with cs(3) g(2) seg(2) show "2 \<le> length t \<and> int (length t) \<le> m"
      by (auto simp: Suc_le_eq)
  qed
  then have "list_all (\<lambda>t. 2 \<le> length t) segs" by (auto simp: list_all_iff)
  moreover have "srMaximumFragment r = int ?limit" using assms(2) by simp
  ultimately have "push_all r segs = feed (strict_step ?limit) r (map strict_segment segs)"
    by (rule push_all_feed)
  also have "map strict_segment segs = number_chunks True (q AND 0x3F) ?cs"
    unfolding seg(4) by (rule strict_segments_back) simp
  finally have "push_all r segs = feed (strict_step ?limit) r (number_chunks True (q AND 0x3F) ?cs)" .
  moreover have "\<exists>t. feed (strict_step ?limit) r (number_chunks True (q AND 0x3F) ?cs) = ([d], t)
      \<and> \<not> srActive t"
  proof -
    have "length (concat ?cs) \<le> ?limit" using assms(2) cs(2) by simp
    moreover have "\<forall>g\<in>set (number_chunks True (q AND 0x3F) ?cs). sgData g \<noteq> []"
      using cs(3) number_chunks_mem by blast
    ultimately show ?thesis
      using strict_reassembly.feed_message [OF cs(1)] cs(2) by metis
  qed
  ultimately show ?thesis using sizes seg(5) by auto
qed

theorem strict_transport_roundtrip_witness:
  "\<exists>segs q' r. SegmentStrict [1, 2, 3, 4, 5] 63 3 = (Inr segs, q') \<and> NewStrictReassembler 5 = Inr r
    \<and> fst (push_all r segs) = [[1, 2, 3, 4, 5]] \<and> q' = 2"
proof -
  have s: "SegmentStrict [1, 2, 3, 4, 5] 63 3 = (Inr [[0xBF, 1, 2], [0x00, 3, 4], [0x41, 5]], 2)"
    by code_simp
  show ?thesis
    using s strict_transport_roundtrip [OF s, of "\<lparr>srMaximumFragment = 5, srActive = False,
      srNextSequence = 0, srFragment = []\<rparr>"]
    by (simp add: NewStrictReassembler_def)
qed

lemma header_bits_swapped:
  "sgSeq g AND 0x3F = sgSeq g \<Longrightarrow>
    header_segment (strict_bytes g) = g\<lparr>sgFIR := sgFIN g, sgFIN := sgFIR g\<rparr>"
  by (cases g)
    (auto simp: header_segment_def ParseHeader_def strict_bytes_def Let_def byte_eq_iff bit_simps)

lemma lax_ignores_middle:
  assumes "\<not> rsInProgress r"
  shows "fst (feed lax_step r (map (\<lambda>g. g\<lparr>sgFIR := sgFIN g, sgFIN := sgFIR g\<rparr>)
    (number_chunks False q cs))) = []"
  using assms
proof (induction cs arbitrary: q r)
  case Nil
  then show ?case by simp
next
  case (Cons c cs)
  show ?case
  proof (cases "cs = []")
    case True
    then show ?thesis by (simp add: lax_step_def Process_def handed_up_def Let_def)
  next
    case False
    then show ?thesis
      using Cons by (simp add: lax_step_def Process_def handed_up_def split: prod.split)
  qed
qed

text \<open>
  The two transport layers do not interoperate. The strict code puts FIR in bit 7 and
  FIN in bit 6, the lax code and the protocol description the other way round: of a fragment
  that the strict code cuts into more than one segment, a lax layer that is not in the
  middle of a message hands up nothing.
\<close>

theorem strict_lax_not_interoperable:
  assumes "SegmentStrict d q m = (Inr segs, q')" and "2 \<le> length segs"
    and "\<not> rsInProgress (lyReassembler l)"
  shows "fst (receive_tpdus l segs) = []"
proof -
  note seg = SegmentStrict_chunks [OF assms(1)]
  let ?gs = "number_chunks True (q AND 0x3F) (chunks (nat (m - 1)) d)"
  have ne: "list_all (\<lambda>t. t \<noteq> []) segs"
    by (auto simp: seg(4) strict_bytes_def list_all_iff Let_def)
  have map: "map header_segment segs = map (\<lambda>g. g\<lparr>sgFIR := sgFIN g, sgFIN := sgFIR g\<rparr>) ?gs"
    unfolding seg(4) map_map
    by (rule map_cong [OF refl]) (auto simp: header_bits_swapped dest: number_chunks_seq [rotated])
  obtain c cs where cs: "chunks (nat (m - 1)) d = c # cs" "cs \<noteq> []"
    using assms(2) by (cases "chunks (nat (m - 1)) d") (auto simp: seg(4) Suc_le_eq)
  have "fst (feed lax_step (lyReassembler l) (map header_segment segs)) = []"
    using assms(3) cs lax_ignores_middle [OF assms(3)]
    by (simp add: map lax_step_def Process_def handed_up_def split: prod.split)
  then show ?thesis by (auto simp: receive_feed [OF ne] split: prod.split)
qed

theorem strict_lax_not_interoperable_witness:
  "fst (receive_tpdus NewLayer [[0xBF, 1, 2], [0x00, 3, 4], [0x41, 5]]) = []"
proof -
  have s: "SegmentStrict [1, 2, 3, 4, 5] 63 3 = (Inr [[0xBF, 1, 2], [0x00, 3, 4], [0x41, 5]], 2)"
    by code_simp
  show ?thesis
    by (rule strict_lax_not_interoperable [OF s]) (simp_all add: NewLayer_def NewReassembler_def)
qed

end
