(* ===== verification/Transport_Endpoint.thy ===== *)
theory Transport_Endpoint
  imports Transport_Segment
begin

text \<open>
  \<open>pkg/transport/config.go\<close>, \<open>statistics.go\<close>, \<open>outstation_transport.go\<close> and
  \<open>master_transport.go\<close>: the transport endpoints of the two stations, with reassembly timer
  and statistics. Both Go types run the same code on their per-peer state, here \<open>endpoint\<close>;
  the outstation has one, the master one per outstation address. The current time in
  nanoseconds is an argument where the code reads the clock. The callback of the timer is
  an operation of its own, which the runtime may run at any time after the timer was
  started. The endpoints are shown to refine the plain transport layer, and the master's
  traffic with one outstation to be independent of all others.
\<close>

unbundle bit_operations_syntax

section \<open>Configuration and statistics\<close>

record TransportConfig =
  tcReassemblyTimeout :: int
  tcMaxReassemblySize :: int
  tcEnableStatistics :: bool

definition DefaultTransportConfig :: TransportConfig where
  "DefaultTransportConfig =
     \<lparr>tcReassemblyTimeout = 120 * 10 ^ 9, tcMaxReassemblySize = int MaxReassemblySize,
      tcEnableStatistics = True\<rparr>"

record TransportStatistics =
  tsTxFragments :: u64
  tsRxFragments :: u64
  tsTxMessages :: u64
  tsRxMessages :: u64
  tsSequenceErrors :: u64
  tsTimeoutErrors :: u64
  tsBufferOverflows :: u64
  tsLastTxTimeNano :: int
  tsLastRxTimeNano :: int

definition NewTransportStatistics :: TransportStatistics where
  "NewTransportStatistics =
     \<lparr>tsTxFragments = 0, tsRxFragments = 0, tsTxMessages = 0, tsRxMessages = 0,
      tsSequenceErrors = 0, tsTimeoutErrors = 0, tsBufferOverflows = 0,
      tsLastTxTimeNano = 0, tsLastRxTimeNano = 0\<rparr>"

definition IncrementTxFragments :: "TransportStatistics \<Rightarrow> TransportStatistics" where
  "IncrementTxFragments s = s\<lparr>tsTxFragments := tsTxFragments s + 1\<rparr>"

definition IncrementRxFragments :: "TransportStatistics \<Rightarrow> TransportStatistics" where
  "IncrementRxFragments s = s\<lparr>tsRxFragments := tsRxFragments s + 1\<rparr>"

definition IncrementTxMessages :: "int \<Rightarrow> TransportStatistics \<Rightarrow> TransportStatistics" where
  "IncrementTxMessages now s = s\<lparr>tsTxMessages := tsTxMessages s + 1, tsLastTxTimeNano := now\<rparr>"

definition IncrementRxMessages :: "int \<Rightarrow> TransportStatistics \<Rightarrow> TransportStatistics" where
  "IncrementRxMessages now s = s\<lparr>tsRxMessages := tsRxMessages s + 1, tsLastRxTimeNano := now\<rparr>"

definition IncrementSequenceErrors :: "TransportStatistics \<Rightarrow> TransportStatistics" where
  "IncrementSequenceErrors s = s\<lparr>tsSequenceErrors := tsSequenceErrors s + 1\<rparr>"

definition IncrementTimeoutErrors :: "TransportStatistics \<Rightarrow> TransportStatistics" where
  "IncrementTimeoutErrors s = s\<lparr>tsTimeoutErrors := tsTimeoutErrors s + 1\<rparr>"

definition IncrementBufferOverflows :: "TransportStatistics \<Rightarrow> TransportStatistics" where
  "IncrementBufferOverflows s = s\<lparr>tsBufferOverflows := tsBufferOverflows s + 1\<rparr>"

definition TransportStatistics_Reset :: "TransportStatistics \<Rightarrow> TransportStatistics" where
  "TransportStatistics_Reset s =
     \<lparr>tsTxFragments = 0, tsRxFragments = 0, tsTxMessages = 0, tsRxMessages = 0,
      tsSequenceErrors = 0, tsTimeoutErrors = 0, tsBufferOverflows = 0,
      tsLastTxTimeNano = 0, tsLastRxTimeNano = 0\<rparr>"

text \<open>The zero time is \<open>None\<close>.\<close>

definition GetLastTxTime :: "TransportStatistics \<Rightarrow> int option" where
  "GetLastTxTime s = (if tsLastTxTimeNano s = 0 then None else Some (tsLastTxTimeNano s))"

definition GetLastRxTime :: "TransportStatistics \<Rightarrow> int option" where
  "GetLastRxTime s = (if tsLastRxTimeNano s = 0 then None else Some (tsLastRxTimeNano s))"

section \<open>One endpoint\<close>

record endpoint =
  epTxSequence :: byte
  epReassembler :: Reassembler
  epTimer :: bool
  epStats :: TransportStatistics

definition new_endpoint :: endpoint where
  "new_endpoint = \<lparr>epTxSequence = 0, epReassembler = NewReassembler, epTimer = False,
     epStats = NewTransportStatistics\<rparr>"

definition count_if :: "TransportConfig \<Rightarrow> (TransportStatistics \<Rightarrow> TransportStatistics) \<Rightarrow> endpoint \<Rightarrow> endpoint" where
  "count_if cfg f e = (if tcEnableStatistics cfg then e\<lparr>epStats := f (epStats e)\<rparr> else e)"

definition stopReassemblyTimer :: "endpoint \<Rightarrow> endpoint" where
  "stopReassemblyTimer e = (if epTimer e then e\<lparr>epTimer := False\<rparr> else e)"

definition startReassemblyTimer :: "endpoint \<Rightarrow> endpoint" where
  "startReassemblyTimer e = (stopReassemblyTimer e)\<lparr>epTimer := True\<rparr>"

text \<open>The function given to \<open>time.AfterFunc\<close>.\<close>

definition reassembly_timeout :: "TransportConfig \<Rightarrow> endpoint \<Rightarrow> endpoint" where
  "reassembly_timeout cfg e =
     (if rsInProgress (epReassembler e)
      then count_if cfg IncrementTimeoutErrors
             (e\<lparr>epReassembler := Reassembler_Reset (epReassembler e)\<rparr>)
      else e)"

definition endpoint_send :: "TransportConfig \<Rightarrow> int \<Rightarrow> endpoint \<Rightarrow> bytes \<Rightarrow> bytes list \<times> endpoint" where
  "endpoint_send cfg now e apdu =
     (let segments = SegmentData apdu (epTxSequence e);
          e1 = e\<lparr>epTxSequence := (epTxSequence e + of_nat (length segments)) AND TransportSeqMask\<rparr>;
          e2 = count_if cfg (\<lambda>s. IncrementTxMessages now
                 ((IncrementTxFragments ^^ length segments) s)) e1
      in (map Segment_Serialize segments, e2))"

definition endpoint_receive ::
  "TransportConfig \<Rightarrow> int \<Rightarrow> endpoint \<Rightarrow> bytes \<Rightarrow> (transport_err + bytes option) \<times> endpoint" where
  "endpoint_receive cfg now e tpdu =
     (let e1 = count_if cfg IncrementRxFragments e;
          segment = header_segment tpdu;
          e2 = (if sgFIR segment then startReassemblyTimer e1 else e1);
          (res, r) = Process (epReassembler e2) segment;
          e3 = e2\<lparr>epReassembler := r\<rparr>
      in case res of
           Inl err \<Rightarrow>
             let e4 = stopReassemblyTimer e3
             in (Inl err, if err = ErrBufferOverflow then count_if cfg IncrementBufferOverflows e4 else e4)
         | Inr apdu \<Rightarrow>
             let e4 = (if apdu = None \<and> \<not> rsInProgress (epReassembler e3) \<and> \<not> sgFIR segment
                       then count_if cfg IncrementSequenceErrors e3 else e3);
                 e5 = (if apdu \<noteq> None
                       then count_if cfg (IncrementRxMessages now) (stopReassemblyTimer e4) else e4)
             in (Inr apdu, e5))"

definition endpoint_reset :: "TransportConfig \<Rightarrow> endpoint \<Rightarrow> endpoint" where
  "endpoint_reset cfg e =
     count_if cfg TransportStatistics_Reset
       ((stopReassemblyTimer e)\<lparr>epReassembler := Reassembler_Reset (epReassembler e),
                                epTxSequence := 0\<rparr>)"

section \<open>The outstation's transport\<close>

record OutstationTransport =
  otEndpoint :: endpoint
  otConfig :: TransportConfig

definition NewOutstationTransport :: "TransportConfig \<Rightarrow> OutstationTransport" where
  "NewOutstationTransport cfg = \<lparr>otEndpoint = new_endpoint, otConfig = cfg\<rparr>"

definition OutstationTransport_Send ::
  "int \<Rightarrow> OutstationTransport \<Rightarrow> bytes \<Rightarrow> bytes list \<times> OutstationTransport" where
  "OutstationTransport_Send now ot apdu =
     (if length apdu = 0 then ([], ot)
      else (case endpoint_send (otConfig ot) now (otEndpoint ot) apdu of
              (ts, e) \<Rightarrow> (ts, ot\<lparr>otEndpoint := e\<rparr>)))"

definition OutstationTransport_Receive ::
  "int \<Rightarrow> OutstationTransport \<Rightarrow> bytes \<Rightarrow> (transport_err + bytes option) \<times> OutstationTransport" where
  "OutstationTransport_Receive now ot tpdu =
     (if length tpdu < THeaderSize then (Inl ErrMissingFIR, ot)
      else (case endpoint_receive (otConfig ot) now (otEndpoint ot) tpdu of
              (res, e) \<Rightarrow> (res, ot\<lparr>otEndpoint := e\<rparr>)))"

definition OutstationTransport_timeout :: "OutstationTransport \<Rightarrow> OutstationTransport" where
  "OutstationTransport_timeout ot = ot\<lparr>otEndpoint := reassembly_timeout (otConfig ot) (otEndpoint ot)\<rparr>"

definition OutstationTransport_Reset :: "OutstationTransport \<Rightarrow> OutstationTransport" where
  "OutstationTransport_Reset ot = ot\<lparr>otEndpoint := endpoint_reset (otConfig ot) (otEndpoint ot)\<rparr>"

definition OutstationTransport_IsReassembling :: "OutstationTransport \<Rightarrow> bool" where
  "OutstationTransport_IsReassembling ot = rsInProgress (epReassembler (otEndpoint ot))"

definition OutstationTransport_SetTxSequence :: "OutstationTransport \<Rightarrow> byte \<Rightarrow> OutstationTransport" where
  "OutstationTransport_SetTxSequence ot seq =
     ot\<lparr>otEndpoint := (otEndpoint ot)\<lparr>epTxSequence := seq AND TransportSeqMask\<rparr>\<rparr>"

section \<open>The master's transport\<close>

record MasterTransport =
  mtOutstations :: "u16 \<rightharpoonup> endpoint"
  mtConfig :: TransportConfig

definition NewMasterTransport :: "TransportConfig \<Rightarrow> MasterTransport" where
  "NewMasterTransport cfg = \<lparr>mtOutstations = (\<lambda>_. None), mtConfig = cfg\<rparr>"

definition getOrCreateOutstation :: "MasterTransport \<Rightarrow> u16 \<Rightarrow> endpoint \<times> MasterTransport" where
  "getOrCreateOutstation m addr =
     (case mtOutstations m addr of
        Some e \<Rightarrow> (e, m)
      | None \<Rightarrow> (new_endpoint, m\<lparr>mtOutstations := (mtOutstations m)(addr \<mapsto> new_endpoint)\<rparr>))"

definition MasterTransport_Send ::
  "int \<Rightarrow> MasterTransport \<Rightarrow> u16 \<Rightarrow> bytes \<Rightarrow> bytes list \<times> MasterTransport" where
  "MasterTransport_Send now m addr apdu =
     (if length apdu = 0 then ([], m)
      else (case getOrCreateOutstation m addr of (e, m1) \<Rightarrow>
              (case endpoint_send (mtConfig m) now e apdu of
                 (ts, e') \<Rightarrow> (ts, m1\<lparr>mtOutstations := (mtOutstations m1)(addr \<mapsto> e')\<rparr>))))"

definition MasterTransport_Receive ::
  "int \<Rightarrow> MasterTransport \<Rightarrow> u16 \<Rightarrow> bytes \<Rightarrow> (transport_err + bytes option) \<times> MasterTransport" where
  "MasterTransport_Receive now m addr tpdu =
     (if length tpdu < THeaderSize then (Inl ErrMissingFIR, m)
      else (case getOrCreateOutstation m addr of (e, m1) \<Rightarrow>
              (case endpoint_receive (mtConfig m) now e tpdu of
                 (res, e') \<Rightarrow> (res, m1\<lparr>mtOutstations := (mtOutstations m1)(addr \<mapsto> e')\<rparr>))))"

definition MasterTransport_timeout :: "MasterTransport \<Rightarrow> u16 \<Rightarrow> MasterTransport" where
  "MasterTransport_timeout m addr =
     m\<lparr>mtOutstations := (mtOutstations m)
         (addr := map_option (reassembly_timeout (mtConfig m)) (mtOutstations m addr))\<rparr>"

definition MasterTransport_GetStats :: "MasterTransport \<Rightarrow> u16 \<Rightarrow> TransportStatistics" where
  "MasterTransport_GetStats m addr =
     (case mtOutstations m addr of None \<Rightarrow> NewTransportStatistics | Some e \<Rightarrow> epStats e)"

definition MasterTransport_Reset :: "MasterTransport \<Rightarrow> u16 \<Rightarrow> MasterTransport" where
  "MasterTransport_Reset m addr =
     (case mtOutstations m addr of
        None \<Rightarrow> m
      | Some e \<Rightarrow> m\<lparr>mtOutstations := (mtOutstations m)(addr \<mapsto> endpoint_reset (mtConfig m) e)\<rparr>)"

definition MasterTransport_ResetAll :: "MasterTransport \<Rightarrow> MasterTransport" where
  "MasterTransport_ResetAll m =
     m\<lparr>mtOutstations := (\<lambda>a. map_option (endpoint_reset (mtConfig m)) (mtOutstations m a))\<rparr>"

definition RemoveOutstation :: "MasterTransport \<Rightarrow> u16 \<Rightarrow> MasterTransport" where
  "RemoveOutstation m addr = m\<lparr>mtOutstations := (mtOutstations m)(addr := None)\<rparr>"

definition MasterTransport_IsReassembling :: "MasterTransport \<Rightarrow> u16 \<Rightarrow> bool" where
  "MasterTransport_IsReassembling m addr =
     (case mtOutstations m addr of None \<Rightarrow> False | Some e \<Rightarrow> rsInProgress (epReassembler e))"

section \<open>Endpoints refine the transport layer\<close>

definition as_layer :: "endpoint \<Rightarrow> Layer" where
  "as_layer e = \<lparr>lyReassembler = epReassembler e, lyTxSequence = epTxSequence e\<rparr>"

lemma as_layer_simps [simp]:
  "as_layer (count_if cfg f e) = as_layer e" "as_layer (stopReassemblyTimer e) = as_layer e"
  "as_layer (startReassemblyTimer e) = as_layer e"
  "as_layer (e\<lparr>epReassembler := r\<rparr>) = (as_layer e)\<lparr>lyReassembler := r\<rparr>"
  "as_layer (e\<lparr>epTxSequence := q\<rparr>) = (as_layer e)\<lparr>lyTxSequence := q\<rparr>"
  by (simp_all add: as_layer_def count_if_def stopReassemblyTimer_def startReassemblyTimer_def)

lemma epReassembler_simps [simp]:
  "epReassembler (count_if cfg f e) = epReassembler e"
  "epReassembler (startReassemblyTimer e) = epReassembler e"
  by (simp_all add: count_if_def stopReassemblyTimer_def startReassemblyTimer_def)

lemma endpoint_send_refines:
  "apdu \<noteq> [] \<Longrightarrow> fst (endpoint_send cfg now e apdu) = fst (Layer_Send (as_layer e) apdu)
    \<and> as_layer (snd (endpoint_send cfg now e apdu)) = snd (Layer_Send (as_layer e) apdu)"
  by (simp add: endpoint_send_def Layer_Send_def Let_def) (simp add: as_layer_def)

lemma endpoint_receive_refines:
  "tpdu \<noteq> [] \<Longrightarrow> fst (endpoint_receive cfg now e tpdu) = fst (Layer_Receive (as_layer e) tpdu)
    \<and> as_layer (snd (endpoint_receive cfg now e tpdu)) = snd (Layer_Receive (as_layer e) tpdu)"
  by (auto simp: endpoint_receive_def Layer_Receive_def Let_def Suc_le_eq as_layer_def [of e]
      split: prod.split sum.split)

lemma as_layer_new: "as_layer new_endpoint = NewLayer"
  by (simp add: as_layer_def new_endpoint_def NewLayer_def)

section \<open>Independence of the outstations\<close>

text \<open>
  What happens to a master transport, the outstation it concerns, and what comes out of it:
  the TPDUs to send, or the APDU handed up.
\<close>

datatype mt_event =
    TSend int u16 bytes
  | TReceive int u16 bytes
  | TTimeout u16
  | TReset u16
  | TRemove u16

fun ev_addr :: "mt_event \<Rightarrow> u16" where
  "ev_addr (TSend now a apdu) = a"
| "ev_addr (TReceive now a tpdu) = a"
| "ev_addr (TTimeout a) = a"
| "ev_addr (TReset a) = a"
| "ev_addr (TRemove a) = a"

datatype mt_output = OutTPDUs "bytes list" | OutAPDU "transport_err + bytes option" | OutNothing

fun mt_step :: "MasterTransport \<Rightarrow> mt_event \<Rightarrow> mt_output \<times> MasterTransport" where
  "mt_step m (TSend now a apdu) = (case MasterTransport_Send now m a apdu of (ts, m') \<Rightarrow> (OutTPDUs ts, m'))"
| "mt_step m (TReceive now a tpdu) =
     (case MasterTransport_Receive now m a tpdu of (r, m') \<Rightarrow> (OutAPDU r, m'))"
| "mt_step m (TTimeout a) = (OutNothing, MasterTransport_timeout m a)"
| "mt_step m (TReset a) = (OutNothing, MasterTransport_Reset m a)"
| "mt_step m (TRemove a) = (OutNothing, RemoveOutstation m a)"

fun mt_run :: "MasterTransport \<Rightarrow> mt_event list \<Rightarrow> (u16 \<times> mt_output) list \<times> MasterTransport" where
  "mt_run m [] = ([], m)"
| "mt_run m (ev # evs) =
     (case mt_step m ev of (out, m') \<Rightarrow>
        (case mt_run m' evs of (outs, m'') \<Rightarrow> ((ev_addr ev, out) # outs, m'')))"

definition same_at :: "u16 \<Rightarrow> MasterTransport \<Rightarrow> MasterTransport \<Rightarrow> bool" where
  "same_at a m n \<longleftrightarrow> mtOutstations m a = mtOutstations n a \<and> mtConfig m = mtConfig n"

lemmas mt_defs = MasterTransport_Send_def MasterTransport_Receive_def MasterTransport_timeout_def
  MasterTransport_Reset_def RemoveOutstation_def getOrCreateOutstation_def

lemma mt_step_other: "ev_addr ev \<noteq> a \<Longrightarrow> same_at a (snd (mt_step m ev)) m"
  by (cases ev) (auto simp: same_at_def mt_defs split: option.split prod.split)

lemma mt_step_same:
  "same_at (ev_addr ev) m n \<Longrightarrow> fst (mt_step m ev) = fst (mt_step n ev)
    \<and> same_at (ev_addr ev) (snd (mt_step m ev)) (snd (mt_step n ev))"
  by (cases ev) (auto simp: same_at_def mt_defs split: option.split prod.split)

lemma mt_run_isolated:
  "same_at a m n \<Longrightarrow>
    filter (\<lambda>(b, out). b = a) (fst (mt_run m evs)) = fst (mt_run n (filter (\<lambda>ev. ev_addr ev = a) evs))
    \<and> same_at a (snd (mt_run m evs)) (snd (mt_run n (filter (\<lambda>ev. ev_addr ev = a) evs)))"
proof (induction evs arbitrary: m n)
  case Nil
  then show ?case by simp
next
  case (Cons ev evs)
  show ?case
  proof (cases "ev_addr ev = a")
    case True
    then have "fst (mt_step m ev) = fst (mt_step n ev)"
      "same_at a (snd (mt_step m ev)) (snd (mt_step n ev))"
      using mt_step_same [of ev m n] Cons.prems by auto
    with Cons.IH [of "snd (mt_step m ev)" "snd (mt_step n ev)"] True show ?thesis
      by (auto split: prod.split)
  next
    case False
    have "same_at a (snd (mt_step m ev)) n"
      using mt_step_other [OF False, of m] Cons.prems by (simp add: same_at_def)
    with Cons.IH [of "snd (mt_step m ev)" n] False show ?thesis
      by (auto split: prod.split)
  qed
qed

section \<open>Endpoints simulate the transport layer\<close>

text \<open>
  What happens to one endpoint. The timer is the only event the plain layer does not have: it does
  what the reassembler's reset does, when a reassembly is in progress.
\<close>

datatype endpoint_event = EpSend int bytes | EpReceive int bytes | EpTimeout | EpReset

fun layer_event :: "Layer \<Rightarrow> endpoint_event \<Rightarrow> mt_output \<times> Layer" where
  "layer_event l (EpSend now apdu) = (case Layer_Send l apdu of (ts, l') \<Rightarrow> (OutTPDUs ts, l'))"
| "layer_event l (EpReceive now tpdu) = (case Layer_Receive l tpdu of (r, l') \<Rightarrow> (OutAPDU r, l'))"
| "layer_event l EpTimeout =
     (OutNothing, if rsInProgress (lyReassembler l)
                  then l\<lparr>lyReassembler := Reassembler_Reset (lyReassembler l)\<rparr> else l)"
| "layer_event l EpReset = (OutNothing, Layer_Reset l)"

fun outstation_event :: "OutstationTransport \<Rightarrow> endpoint_event \<Rightarrow> mt_output \<times> OutstationTransport" where
  "outstation_event ot (EpSend now apdu) =
     (case OutstationTransport_Send now ot apdu of (ts, ot') \<Rightarrow> (OutTPDUs ts, ot'))"
| "outstation_event ot (EpReceive now tpdu) =
     (case OutstationTransport_Receive now ot tpdu of (r, ot') \<Rightarrow> (OutAPDU r, ot'))"
| "outstation_event ot EpTimeout = (OutNothing, OutstationTransport_timeout ot)"
| "outstation_event ot EpReset = (OutNothing, OutstationTransport_Reset ot)"

fun master_event :: "u16 \<Rightarrow> MasterTransport \<Rightarrow> endpoint_event \<Rightarrow> mt_output \<times> MasterTransport" where
  "master_event a m (EpSend now apdu) = mt_step m (TSend now a apdu)"
| "master_event a m (EpReceive now tpdu) = mt_step m (TReceive now a tpdu)"
| "master_event a m EpTimeout = mt_step m (TTimeout a)"
| "master_event a m EpReset = mt_step m (TReset a)"

fun run_events :: "('s \<Rightarrow> 'e \<Rightarrow> 'o \<times> 's) \<Rightarrow> 's \<Rightarrow> 'e list \<Rightarrow> 'o list \<times> 's" where
  "run_events step s [] = ([], s)"
| "run_events step s (ev # evs) =
     (case step s ev of (out, s') \<Rightarrow> (case run_events step s' evs of (outs, s'') \<Rightarrow> (out # outs, s'')))"

lemma run_events_simulated:
  assumes "\<And>s ev. spec (view s) ev = map_prod id view (step s ev)"
  shows "run_events spec (view s) evs = map_prod id view (run_events step s evs)"
  by (induction evs arbitrary: s) (simp_all add: assms split: prod.split)

definition layer_at :: "MasterTransport \<Rightarrow> u16 \<Rightarrow> Layer" where
  "layer_at m a = (case mtOutstations m a of None \<Rightarrow> NewLayer | Some e \<Rightarrow> as_layer e)"

lemma as_layer_sel [simp]: "lyReassembler (as_layer e) = epReassembler e" "lyTxSequence (as_layer e) = epTxSequence e"
  by (simp_all add: as_layer_def)

lemma layer_timeout:
  "as_layer (reassembly_timeout cfg e) = snd (layer_event (as_layer e) EpTimeout)"
  "as_layer (endpoint_reset cfg e) = Layer_Reset (as_layer e)"
  by (simp_all add: reassembly_timeout_def endpoint_reset_def Layer_Reset_def)

lemma layer_empty [simp]: "Layer_Send l [] = ([], l)" "Layer_Receive l [] = (Inl ErrMissingFIR, l)"
  by (simp_all add: Layer_Send_def Layer_Receive_def)

lemma NewLayer_idle: "Layer_Reset NewLayer = NewLayer" "\<not> rsInProgress (lyReassembler NewLayer)"
  by (simp_all add: Layer_Reset_def NewLayer_def NewReassembler_def Reassembler_Reset_def)

lemma outstation_event_simulates:
  "layer_event (as_layer (otEndpoint ot)) ev = map_prod id (\<lambda>ot. as_layer (otEndpoint ot)) (outstation_event ot ev)"
proof (cases ev)
  case (EpSend now apdu)
  then show ?thesis
    using endpoint_send_refines [of apdu "otConfig ot" now "otEndpoint ot"]
    by (cases "apdu = []") (auto simp: OutstationTransport_Send_def prod_eq_iff split: prod.split)
next
  case (EpReceive now tpdu)
  then show ?thesis
    using endpoint_receive_refines [of tpdu "otConfig ot" now "otEndpoint ot"]
    by (cases "tpdu = []") (auto simp: OutstationTransport_Receive_def Suc_le_eq prod_eq_iff split: prod.split)
qed (simp_all add: OutstationTransport_timeout_def OutstationTransport_Reset_def layer_timeout)

lemma master_event_simulates:
  "layer_event (layer_at m a) ev = map_prod id (\<lambda>m. layer_at m a) (master_event a m ev)"
proof (cases ev)
  case (EpSend now apdu)
  then show ?thesis
    using endpoint_send_refines [of apdu "mtConfig m" now "fst (getOrCreateOutstation m a)"]
    by (cases "apdu = []") (auto simp: MasterTransport_Send_def getOrCreateOutstation_def layer_at_def
        as_layer_new prod_eq_iff split: prod.split option.splits)
next
  case (EpReceive now tpdu)
  then show ?thesis
    using endpoint_receive_refines [of tpdu "mtConfig m" now "fst (getOrCreateOutstation m a)"]
    by (cases "tpdu = []") (auto simp: MasterTransport_Receive_def getOrCreateOutstation_def layer_at_def
        as_layer_new Suc_le_eq prod_eq_iff split: prod.split option.splits)
next
  case EpTimeout
  then show ?thesis
    using NewLayer_idle by (auto simp: MasterTransport_timeout_def layer_at_def layer_timeout split: option.split)
next
  case EpReset
  then show ?thesis
    using NewLayer_idle by (auto simp: MasterTransport_Reset_def layer_at_def layer_timeout split: option.split)
qed

section \<open>Properties\<close>

text \<open>
  C34: the transport endpoints of both stations do what the transport layer does. Whatever the
  configuration, the statistics, the timer and the clock, any sequence of \<open>Send\<close>, \<open>Receive\<close>, \<open>Reset\<close>
  and callbacks of the reassembly timer at the transport of an outstation returns the TPDUs, the
  APDUs and the errors, one by one, that the plain layer with the same sequence number and reassembler
  returns for these operations, and leaves the state of that layer; a callback of the timer stands for
  the reset of a reassembler that has a reassembly in progress. The same holds of the transport of a
  master and the operations for one outstation, where an outstation it does not know yet has a new layer.
\<close>

theorem endpoint_refines_layer:
  "(case run_events outstation_event ot evs of
      (outs, ot') \<Rightarrow> run_events layer_event (as_layer (otEndpoint ot)) evs = (outs, as_layer (otEndpoint ot')))
    \<and> (case run_events (master_event a) m evs of
      (outs, m') \<Rightarrow> run_events layer_event (layer_at m a) evs = (outs, layer_at m' a))"
  using run_events_simulated [of layer_event "\<lambda>ot. as_layer (otEndpoint ot)" outstation_event, OF outstation_event_simulates]
    run_events_simulated [of layer_event "\<lambda>m. layer_at m a" "master_event a", OF master_event_simulates]
  by (simp split: prod.split)

text \<open>
  C35: the master's transport keeps its outstations apart. However sends, received TPDUs,
  timeouts, resets and removals of all outstations are interleaved, what comes out for one
  outstation, and the state kept for it, is what its own events alone would have produced.
\<close>

theorem master_transport_isolation:
  "filter (\<lambda>(b, out). b = a) (fst (mt_run m evs))
      = fst (mt_run m (filter (\<lambda>ev. ev_addr ev = a) evs))
    \<and> mtOutstations (snd (mt_run m evs)) a
      = mtOutstations (snd (mt_run m (filter (\<lambda>ev. ev_addr ev = a) evs))) a"
  using mt_run_isolated [of a m m evs] by (auto simp: same_at_def)

end
