(* ===== verification/App_Apdu.thy ===== *)
theory App_Apdu
  imports Dnp_Base
begin

text \<open>
  \<open>pkg/app/functions.go\<close>, \<open>iin.go\<close>, \<open>apdu.go\<close>, the control byte, sequence and IIN helpers
  of \<open>helpers.go\<close>, and the internal indications of \<open>pkg/types/status.go\<close>: the application
  protocol data unit with its control byte and its wire format. Parsing and serializing are
  shown to be inverse bijections between well-formed APDUs and the byte strings the parser
  accepts. The names that the link layer uses too carry the prefix of their component.
\<close>

unbundle bit_operations_syntax

section \<open>Function codes\<close>

type_synonym AppFunction = byte

definition FuncConfirm :: AppFunction where [simp]: "FuncConfirm = 0x00"
definition FuncRead :: AppFunction where [simp]: "FuncRead = 0x01"
definition FuncWrite :: AppFunction where [simp]: "FuncWrite = 0x02"
definition FuncSelect :: AppFunction where [simp]: "FuncSelect = 0x03"
definition FuncOperate :: AppFunction where [simp]: "FuncOperate = 0x04"
definition FuncDirectOperate :: AppFunction where [simp]: "FuncDirectOperate = 0x05"
definition FuncDirectOperateNoAck :: AppFunction where [simp]: "FuncDirectOperateNoAck = 0x06"
definition FuncImmediateFreeze :: AppFunction where [simp]: "FuncImmediateFreeze = 0x07"
definition FuncImmediateFreezeNoAck :: AppFunction where [simp]: "FuncImmediateFreezeNoAck = 0x08"
definition FuncFreezeClear :: AppFunction where [simp]: "FuncFreezeClear = 0x09"
definition FuncFreezeClearNoAck :: AppFunction where [simp]: "FuncFreezeClearNoAck = 0x0A"
definition FuncFreezeAtTime :: AppFunction where [simp]: "FuncFreezeAtTime = 0x0B"
definition FuncFreezeAtTimeNoAck :: AppFunction where [simp]: "FuncFreezeAtTimeNoAck = 0x0C"
definition FuncColdRestart :: AppFunction where [simp]: "FuncColdRestart = 0x0D"
definition FuncWarmRestart :: AppFunction where [simp]: "FuncWarmRestart = 0x0E"
definition FuncInitializeData :: AppFunction where [simp]: "FuncInitializeData = 0x0F"
definition FuncInitializeApplication :: AppFunction where [simp]: "FuncInitializeApplication = 0x10"
definition FuncStartApplication :: AppFunction where [simp]: "FuncStartApplication = 0x11"
definition FuncStopApplication :: AppFunction where [simp]: "FuncStopApplication = 0x12"
definition FuncSaveConfiguration :: AppFunction where [simp]: "FuncSaveConfiguration = 0x13"
definition FuncEnableUnsolicited :: AppFunction where [simp]: "FuncEnableUnsolicited = 0x14"
definition FuncDisableUnsolicited :: AppFunction where [simp]: "FuncDisableUnsolicited = 0x15"
definition FuncAssignClass :: AppFunction where [simp]: "FuncAssignClass = 0x16"
definition FuncDelayMeasurement :: AppFunction where [simp]: "FuncDelayMeasurement = 0x17"
definition FuncRecordCurrentTime :: AppFunction where [simp]: "FuncRecordCurrentTime = 0x18"
definition FuncOpenFile :: AppFunction where [simp]: "FuncOpenFile = 0x19"
definition FuncCloseFile :: AppFunction where [simp]: "FuncCloseFile = 0x1A"
definition FuncDeleteFile :: AppFunction where [simp]: "FuncDeleteFile = 0x1B"
definition FuncGetFileInfo :: AppFunction where [simp]: "FuncGetFileInfo = 0x1C"
definition FuncAuthenticateFile :: AppFunction where [simp]: "FuncAuthenticateFile = 0x1D"
definition FuncAbortFile :: AppFunction where [simp]: "FuncAbortFile = 0x1E"
definition FuncResponse :: AppFunction where [simp]: "FuncResponse = 0x81"
definition FuncUnsolicitedResponse :: AppFunction where [simp]: "FuncUnsolicitedResponse = 0x82"
definition FuncAuthResponse :: AppFunction where [simp]: "FuncAuthResponse = 0x83"

definition FunctionCode_String :: "AppFunction \<Rightarrow> string" where
  "FunctionCode_String f =
     (if f = FuncConfirm then ''Confirm''
      else if f = FuncRead then ''Read''
      else if f = FuncWrite then ''Write''
      else if f = FuncSelect then ''Select''
      else if f = FuncOperate then ''Operate''
      else if f = FuncDirectOperate then ''DirectOperate''
      else if f = FuncDirectOperateNoAck then ''DirectOperateNoAck''
      else if f = FuncResponse then ''Response''
      else if f = FuncUnsolicitedResponse then ''UnsolicitedResponse''
      else if f = FuncEnableUnsolicited then ''EnableUnsolicited''
      else if f = FuncDisableUnsolicited then ''DisableUnsolicited''
      else ''Unknown'')"

definition IsRequest :: "AppFunction \<Rightarrow> bool" where
  "IsRequest f \<longleftrightarrow> f \<noteq> FuncResponse \<and> f \<noteq> FuncUnsolicitedResponse \<and> f \<noteq> FuncAuthResponse"

definition IsResponse :: "AppFunction \<Rightarrow> bool" where
  "IsResponse f \<longleftrightarrow> f = FuncResponse \<or> f = FuncUnsolicitedResponse \<or> f = FuncAuthResponse"

section \<open>Internal indications\<close>

record IIN =
  iin1 :: byte
  iin2 :: byte

definition IIN1Class1Events :: byte where [simp]: "IIN1Class1Events = 0x02"
definition IIN1Class2Events :: byte where [simp]: "IIN1Class2Events = 0x04"
definition IIN1Class3Events :: byte where [simp]: "IIN1Class3Events = 0x08"
definition IIN1NeedTime :: byte where [simp]: "IIN1NeedTime = 0x10"
definition IIN1LocalControl :: byte where [simp]: "IIN1LocalControl = 0x20"
definition IIN1DeviceTrouble :: byte where [simp]: "IIN1DeviceTrouble = 0x40"
definition IIN1DeviceRestart :: byte where [simp]: "IIN1DeviceRestart = 0x80"
definition IIN2NoFuncCodeSupport :: byte where [simp]: "IIN2NoFuncCodeSupport = 0x01"
definition IIN2ObjectUnknown :: byte where [simp]: "IIN2ObjectUnknown = 0x02"
definition IIN2ParameterError :: byte where [simp]: "IIN2ParameterError = 0x04"
definition IIN2EventBufferOverflow :: byte where [simp]: "IIN2EventBufferOverflow = 0x08"

definition NewIIN :: IIN where
  "NewIIN = \<lparr>iin1 = 0, iin2 = 0\<rparr>"

definition NewIINWithFlags :: "byte \<Rightarrow> byte \<Rightarrow> IIN" where
  "NewIINWithFlags a b = \<lparr>iin1 = a, iin2 = b\<rparr>"

definition NewIINWithEvents :: "bool \<Rightarrow> bool \<Rightarrow> bool \<Rightarrow> IIN" where
  "NewIINWithEvents class1 class2 class3 =
     (let a0 = 0;
          a1 = (if class1 then a0 OR IIN1Class1Events else a0);
          a2 = (if class2 then a1 OR IIN1Class2Events else a1);
          a3 = (if class3 then a2 OR IIN1Class3Events else a2)
      in \<lparr>iin1 = a3, iin2 = 0\<rparr>)"

definition NewIINNeedTime :: IIN where
  "NewIINNeedTime = \<lparr>iin1 = IIN1NeedTime, iin2 = 0\<rparr>"

definition NewIINDeviceRestart :: IIN where
  "NewIINDeviceRestart = \<lparr>iin1 = IIN1DeviceRestart, iin2 = 0\<rparr>"

definition SetIINFlag :: "IIN \<Rightarrow> byte \<Rightarrow> bool \<Rightarrow> IIN" where
  "SetIINFlag i flag isIIN1 =
     (if isIIN1 then i\<lparr>iin1 := iin1 i OR flag\<rparr> else i\<lparr>iin2 := iin2 i OR flag\<rparr>)"

definition ClearIINFlag :: "IIN \<Rightarrow> byte \<Rightarrow> bool \<Rightarrow> IIN" where
  "ClearIINFlag i flag isIIN1 =
     (if isIIN1 then i\<lparr>iin1 := iin1 i AND NOT flag\<rparr> else i\<lparr>iin2 := iin2 i AND NOT flag\<rparr>)"

definition HasIINFlag :: "IIN \<Rightarrow> byte \<Rightarrow> bool \<Rightarrow> bool" where
  "HasIINFlag i flag isIIN1 = (if isIIN1 then iin1 i AND flag \<noteq> 0 else iin2 i AND flag \<noteq> 0)"

definition IsIINError :: "IIN \<Rightarrow> bool" where
  "IsIINError i \<longleftrightarrow> iin2 i \<noteq> 0"

definition HasClass1Events :: "IIN \<Rightarrow> bool" where
  "HasClass1Events i \<longleftrightarrow> iin1 i AND IIN1Class1Events \<noteq> 0"
definition HasClass2Events :: "IIN \<Rightarrow> bool" where
  "HasClass2Events i \<longleftrightarrow> iin1 i AND IIN1Class2Events \<noteq> 0"
definition HasClass3Events :: "IIN \<Rightarrow> bool" where
  "HasClass3Events i \<longleftrightarrow> iin1 i AND IIN1Class3Events \<noteq> 0"
definition HasAnyClassEvents :: "IIN \<Rightarrow> bool" where
  "HasAnyClassEvents i \<longleftrightarrow> HasClass1Events i \<or> HasClass2Events i \<or> HasClass3Events i"
definition NeedTime :: "IIN \<Rightarrow> bool" where
  "NeedTime i \<longleftrightarrow> iin1 i AND IIN1NeedTime \<noteq> 0"
definition IsInLocalControl :: "IIN \<Rightarrow> bool" where
  "IsInLocalControl i \<longleftrightarrow> iin1 i AND IIN1LocalControl \<noteq> 0"
definition HasDeviceTrouble :: "IIN \<Rightarrow> bool" where
  "HasDeviceTrouble i \<longleftrightarrow> iin1 i AND IIN1DeviceTrouble \<noteq> 0"
definition HasDeviceRestart :: "IIN \<Rightarrow> bool" where
  "HasDeviceRestart i \<longleftrightarrow> iin1 i AND IIN1DeviceRestart \<noteq> 0"
definition HasParameterError :: "IIN \<Rightarrow> bool" where
  "HasParameterError i \<longleftrightarrow> iin2 i AND IIN2ParameterError \<noteq> 0"
definition HasEventBufferOverflow :: "IIN \<Rightarrow> bool" where
  "HasEventBufferOverflow i \<longleftrightarrow> iin2 i AND IIN2EventBufferOverflow \<noteq> 0"

definition IIN_Clear :: "IIN \<Rightarrow> IIN" where
  "IIN_Clear i = \<lparr>iin1 = 0, iin2 = 0\<rparr>"

definition SetClass1Events :: "IIN \<Rightarrow> bool \<Rightarrow> IIN" where
  "SetClass1Events i v = (if v then i\<lparr>iin1 := iin1 i OR IIN1Class1Events\<rparr>
     else i\<lparr>iin1 := iin1 i AND NOT IIN1Class1Events\<rparr>)"
definition SetClass2Events :: "IIN \<Rightarrow> bool \<Rightarrow> IIN" where
  "SetClass2Events i v = (if v then i\<lparr>iin1 := iin1 i OR IIN1Class2Events\<rparr>
     else i\<lparr>iin1 := iin1 i AND NOT IIN1Class2Events\<rparr>)"
definition SetClass3Events :: "IIN \<Rightarrow> bool \<Rightarrow> IIN" where
  "SetClass3Events i v = (if v then i\<lparr>iin1 := iin1 i OR IIN1Class3Events\<rparr>
     else i\<lparr>iin1 := iin1 i AND NOT IIN1Class3Events\<rparr>)"

section \<open>The APDU\<close>

definition AppCtrlFIR :: byte where [simp]: "AppCtrlFIR = 0x80"
definition AppCtrlFIN :: byte where [simp]: "AppCtrlFIN = 0x40"
definition AppCtrlCON :: byte where [simp]: "AppCtrlCON = 0x20"
definition AppCtrlUNS :: byte where [simp]: "AppCtrlUNS = 0x10"
definition AppCtrlSeqMask :: byte where [simp]: "AppCtrlSeqMask = 0x0F"

record APDU =
  apControl :: byte
  apFIR :: bool
  apFIN :: bool
  apCON :: bool
  apUNS :: bool
  apSequence :: byte
  apFunctionCode :: AppFunction
  apIIN :: IIN
  apObjects :: bytes

datatype apdu_err = APDUTooShort nat | ResponseTooShort

definition NewRequestAPDU :: "AppFunction \<Rightarrow> byte \<Rightarrow> bytes \<Rightarrow> APDU" where
  "NewRequestAPDU fc seq objects =
     \<lparr>apControl = 0, apFIR = True, apFIN = True, apCON = False, apUNS = False,
      apSequence = seq AND AppCtrlSeqMask, apFunctionCode = fc, apIIN = NewIIN,
      apObjects = objects\<rparr>"

definition NewResponseAPDU :: "byte \<Rightarrow> IIN \<Rightarrow> bytes \<Rightarrow> APDU" where
  "NewResponseAPDU seq iin objects =
     \<lparr>apControl = 0, apFIR = True, apFIN = True, apCON = False, apUNS = False,
      apSequence = seq AND AppCtrlSeqMask, apFunctionCode = FuncResponse, apIIN = iin,
      apObjects = objects\<rparr>"

definition NewUnsolicitedResponseAPDU :: "byte \<Rightarrow> IIN \<Rightarrow> bytes \<Rightarrow> APDU" where
  "NewUnsolicitedResponseAPDU seq iin objects =
     (NewResponseAPDU seq iin objects)
       \<lparr>apFunctionCode := FuncUnsolicitedResponse, apUNS := True, apCON := True\<rparr>"

definition BuildControlByte :: "bool \<Rightarrow> bool \<Rightarrow> bool \<Rightarrow> bool \<Rightarrow> byte \<Rightarrow> byte" where
  "BuildControlByte fir fin con uns seq =
     (let c0 = seq AND AppCtrlSeqMask;
          c1 = (if fir then c0 OR AppCtrlFIR else c0);
          c2 = (if fin then c1 OR AppCtrlFIN else c1);
          c3 = (if con then c2 OR AppCtrlCON else c2)
      in if uns then c3 OR AppCtrlUNS else c3)"

definition ParseControlByte :: "byte \<Rightarrow> bool \<times> bool \<times> bool \<times> bool \<times> byte" where
  "ParseControlByte ctrl =
     (ctrl AND AppCtrlFIR \<noteq> 0, ctrl AND AppCtrlFIN \<noteq> 0, ctrl AND AppCtrlCON \<noteq> 0,
      ctrl AND AppCtrlUNS \<noteq> 0, ctrl AND AppCtrlSeqMask)"

definition APDU_buildControl :: "APDU \<Rightarrow> APDU" where
  "APDU_buildControl a =
     (let c0 = apSequence a AND AppCtrlSeqMask;
          c1 = (if apFIR a then c0 OR AppCtrlFIR else c0);
          c2 = (if apFIN a then c1 OR AppCtrlFIN else c1);
          c3 = (if apCON a then c2 OR AppCtrlCON else c2);
          c4 = (if apUNS a then c3 OR AppCtrlUNS else c3)
      in a\<lparr>apControl := c4\<rparr>)"

definition APDU_parseControl :: "APDU \<Rightarrow> APDU" where
  "APDU_parseControl a =
     a\<lparr>apFIR := (apControl a AND AppCtrlFIR \<noteq> 0), apFIN := (apControl a AND AppCtrlFIN \<noteq> 0),
       apCON := (apControl a AND AppCtrlCON \<noteq> 0), apUNS := (apControl a AND AppCtrlUNS \<noteq> 0),
       apSequence := apControl a AND AppCtrlSeqMask\<rparr>"

text \<open>Serializing also updates the control byte of the APDU itself.\<close>

definition APDU_Serialize :: "APDU \<Rightarrow> bytes \<times> APDU" where
  "APDU_Serialize a =
     (let a' = APDU_buildControl a
      in ([apControl a', apFunctionCode a']
            @ (if IsResponse (apFunctionCode a') then [iin1 (apIIN a'), iin2 (apIIN a')] else [])
            @ apObjects a', a'))"

definition APDU_Parse :: "bytes \<Rightarrow> apdu_err + APDU" where
  "APDU_Parse data =
     (if length data < 2 then Inl (APDUTooShort (length data))
      else let apdu = APDU_parseControl
                 \<lparr>apControl = data ! 0, apFIR = False, apFIN = False, apCON = False, apUNS = False,
                  apSequence = 0, apFunctionCode = data ! 1, apIIN = NewIIN, apObjects = []\<rparr>
           in if IsResponse (apFunctionCode apdu)
              then (if length data < 4 then Inl ResponseTooShort
                    else Inr (apdu\<lparr>apIIN := \<lparr>iin1 = data ! 2, iin2 = data ! 3\<rparr>,
                                   apObjects := drop 4 data\<rparr>))
              else Inr (apdu\<lparr>apObjects := drop 2 data\<rparr>))"

definition SetConfirm :: "APDU \<Rightarrow> bool \<Rightarrow> APDU" where
  "SetConfirm a confirm = a\<lparr>apCON := confirm\<rparr>"

definition APDU_SetSequence :: "APDU \<Rightarrow> byte \<Rightarrow> APDU" where
  "APDU_SetSequence a seq = a\<lparr>apSequence := seq AND AppCtrlSeqMask\<rparr>"

definition APDU_IsRequest :: "APDU \<Rightarrow> bool" where
  "APDU_IsRequest a = IsRequest (apFunctionCode a)"

section \<open>Sequence counters\<close>

record SequenceCounter =
  sqCurrent :: byte

definition NewSequenceCounter :: SequenceCounter where
  "NewSequenceCounter = \<lparr>sqCurrent = 0\<rparr>"

definition SequenceCounter_Next :: "SequenceCounter \<Rightarrow> byte \<times> SequenceCounter" where
  "SequenceCounter_Next s = (sqCurrent s, s\<lparr>sqCurrent := (sqCurrent s + 1) AND AppCtrlSeqMask\<rparr>)"

definition SequenceCounter_Current :: "SequenceCounter \<Rightarrow> byte" where
  "SequenceCounter_Current s = sqCurrent s"

definition SequenceCounter_Reset :: "SequenceCounter \<Rightarrow> SequenceCounter" where
  "SequenceCounter_Reset s = s\<lparr>sqCurrent := 0\<rparr>"

definition SequenceCounter_SetSequence :: "SequenceCounter \<Rightarrow> byte \<Rightarrow> SequenceCounter" where
  "SequenceCounter_SetSequence s seq = s\<lparr>sqCurrent := seq AND AppCtrlSeqMask\<rparr>"

text \<open>The counter of unsolicited responses; no station uses it.\<close>

record UnsolicitedSequenceCounter =
  usCurrent :: byte

definition NewUnsolicitedSequenceCounter :: UnsolicitedSequenceCounter where
  "NewUnsolicitedSequenceCounter = \<lparr>usCurrent = 0\<rparr>"

definition UnsolicitedSequenceCounter_Next :: "UnsolicitedSequenceCounter \<Rightarrow> byte \<times> UnsolicitedSequenceCounter" where
  "UnsolicitedSequenceCounter_Next u = (usCurrent u, u\<lparr>usCurrent := (usCurrent u + 1) AND AppCtrlSeqMask\<rparr>)"

definition UnsolicitedSequenceCounter_Current :: "UnsolicitedSequenceCounter \<Rightarrow> byte" where
  "UnsolicitedSequenceCounter_Current u = usCurrent u"

definition UnsolicitedSequenceCounter_Reset :: "UnsolicitedSequenceCounter \<Rightarrow> UnsolicitedSequenceCounter" where
  "UnsolicitedSequenceCounter_Reset u = u\<lparr>usCurrent := 0\<rparr>"

fun take_sequences :: "nat \<Rightarrow> SequenceCounter \<Rightarrow> byte list" where
  "take_sequences 0 s = []"
| "take_sequences (Suc n) s =
     (case SequenceCounter_Next s of (q, s') \<Rightarrow> q # take_sequences n s')"

section \<open>Parsing and serializing\<close>

text \<open>
  The control byte agrees with the fields, the sequence number fits, and a request carries
  no indications.
\<close>

definition wf_apdu :: "APDU \<Rightarrow> bool" where
  "wf_apdu a \<longleftrightarrow> apControl a = BuildControlByte (apFIR a) (apFIN a) (apCON a) (apUNS a) (apSequence a)
    \<and> apSequence a AND AppCtrlSeqMask = apSequence a
    \<and> (\<not> IsResponse (apFunctionCode a) \<longrightarrow> apIIN a = NewIIN)"

lemma control_roundtrip:
  "BuildControlByte (c AND 0x80 \<noteq> 0) (c AND 0x40 \<noteq> 0) (c AND 0x20 \<noteq> 0) (c AND 0x10 \<noteq> 0) (c AND 0x0F) = c"
  unfolding BuildControlByte_def
  by (simp add: Let_def byte_eq_iff bit_simps ctrl_bits)

lemma ParseControlByte_Build:
  "seq AND 0x0F = seq \<Longrightarrow>
    ParseControlByte (BuildControlByte fir fin con uns seq) = (fir, fin, con, uns, seq)"
  unfolding BuildControlByte_def ParseControlByte_def
  by (simp add: Let_def byte_eq_iff bit_simps ctrl_bits)

lemma APDU_buildControl_byte:
  "APDU_buildControl a
    = a\<lparr>apControl := BuildControlByte (apFIR a) (apFIN a) (apCON a) (apUNS a) (apSequence a)\<rparr>"
  by (simp add: APDU_buildControl_def BuildControlByte_def Let_def)

lemma wf_buildControl: "wf_apdu a \<Longrightarrow> APDU_buildControl a = a"
  by (simp add: APDU_buildControl_byte wf_apdu_def)

lemma wf_parsed:
  assumes "wf_apdu a"
  shows "APDU_parseControl \<lparr>apControl = apControl a, apFIR = False, apFIN = False, apCON = False,
      apUNS = False, apSequence = 0, apFunctionCode = apFunctionCode a, apIIN = NewIIN,
      apObjects = []\<rparr> = a\<lparr>apIIN := NewIIN, apObjects := []\<rparr>"
  using assms ParseControlByte_Build [of "apSequence a" "apFIR a" "apFIN a" "apCON a" "apUNS a"]
  by (cases a) (auto simp: wf_apdu_def APDU_parseControl_def ParseControlByte_def)

lemma APDU_Parse_Serialize:
  assumes "wf_apdu a"
  shows "APDU_Parse (fst (APDU_Serialize a)) = Inr a"
proof -
  have fst: "fst (APDU_Serialize a) = [apControl a, apFunctionCode a]
      @ (if IsResponse (apFunctionCode a) then [iin1 (apIIN a), iin2 (apIIN a)] else []) @ apObjects a"
    using wf_buildControl [OF assms] by (simp add: APDU_Serialize_def Let_def)
  have iin: "apIIN a = NewIIN" if "\<not> IsResponse (apFunctionCode a)"
    using assms that by (simp add: wf_apdu_def)
  show ?thesis
    unfolding fst APDU_Parse_def using iin
    by (cases "IsResponse (apFunctionCode a)") (simp_all add: wf_parsed [OF assms] Let_def)
qed

lemma APDU_Parse_OkD:
  assumes "APDU_Parse w = Inr a"
  shows "wf_apdu a" and "fst (APDU_Serialize a) = w"
proof -
  let ?p = "APDU_parseControl
     \<lparr>apControl = w ! 0, apFIR = False, apFIN = False, apCON = False, apUNS = False,
      apSequence = 0, apFunctionCode = w ! 1, apIIN = NewIIN, apObjects = []\<rparr>"
  have len: "2 \<le> length w" "IsResponse (w ! 1) \<Longrightarrow> 4 \<le> length w"
    and a: "a = (if IsResponse (w ! 1)
      then ?p\<lparr>apIIN := \<lparr>iin1 = w ! 2, iin2 = w ! 3\<rparr>, apObjects := drop 4 w\<rparr>
      else ?p\<lparr>apObjects := drop 2 w\<rparr>)"
    using assms by (auto simp: APDU_Parse_def APDU_parseControl_def Let_def split: if_splits)
  show wf: "wf_apdu a"
    using control_roundtrip [of "w ! 0"]
    by (auto simp: a wf_apdu_def APDU_parseControl_def byte_eq_iff bit_simps)
  have 2: "w ! 0 # w ! 1 # drop 2 w = w"
    using len(1) by (cases w; cases "tl w") auto
  have 4: "w ! 0 # w ! 1 # w ! 2 # w ! 3 # drop 4 w = w" if "4 \<le> length w"
    using that by (auto simp: eval_nat_numeral Suc_le_length_iff)
  show "fst (APDU_Serialize a) = w"
    using wf_buildControl [OF wf] 2 4 len(2)
    by (simp add: APDU_Serialize_def Let_def) (simp add: a APDU_parseControl_def)
qed

lemma APDU_Parse_built:
  assumes "apSequence a AND 0x0F = apSequence a"
    and "\<not> IsResponse (apFunctionCode a) \<Longrightarrow> apIIN a = NewIIN"
  shows "APDU_Parse (fst (APDU_Serialize a)) = Inr (APDU_buildControl a)"
proof -
  have "wf_apdu (APDU_buildControl a)"
    using assms by (simp add: wf_apdu_def APDU_buildControl_byte)
  moreover have "fst (APDU_Serialize (APDU_buildControl a)) = fst (APDU_Serialize a)"
    by (simp add: APDU_Serialize_def APDU_buildControl_byte Let_def)
  ultimately show ?thesis using APDU_Parse_Serialize by metis
qed

section \<open>Properties\<close>

text \<open>
  Parsing and serializing APDUs are inverse bijections: the parser accepts exactly the
  serializations of well-formed APDUs, and returns the APDU they were made of, with every
  control flag, the sequence number, the indications and the objects.
\<close>

theorem apdu_parse_iff_serialize: "APDU_Parse w = Inr a \<longleftrightarrow> wf_apdu a \<and> fst (APDU_Serialize a) = w"
  using APDU_Parse_Serialize APDU_Parse_OkD by blast

section \<open>Sequence numbers count modulo 16\<close>

lemma mask_4: "(x :: byte) AND 0x0F = take_bit 4 x"
  by (simp add: byte_eq_iff bit_simps)

lemma take_bit_add_take_bit: "take_bit 4 (take_bit 4 x + y) = take_bit 4 (x + y)" for x y :: byte
  by (simp add: word_unat_eq_iff unsigned_take_bit_eq unat_word_ariths take_bit_eq_mod
      mod_mod_cancel mod_simps)

lemma take_sequences_nth:
  "i < n \<Longrightarrow> sqCurrent s AND 0x0F = sqCurrent s \<Longrightarrow>
    take_sequences n s ! i = take_bit 4 (sqCurrent s + of_nat i)"
proof (induction n arbitrary: i s)
  case 0
  then show ?case by simp
next
  case (Suc n)
  show ?case
  proof (cases i)
    case 0
    then show ?thesis using Suc.prems by (simp add: SequenceCounter_Next_def mask_4)
  next
    case (Suc j)
    let ?s = "s\<lparr>sqCurrent := take_bit 4 (sqCurrent s + 1)\<rparr>"
    have "take_sequences n ?s ! j = take_bit 4 (take_bit 4 (sqCurrent s + 1) + of_nat j)"
      using Suc.IH [of j ?s] Suc.prems(1) Suc by (simp add: mask_4)
    also have "\<dots> = take_bit 4 (sqCurrent s + 1 + of_nat j)"
      by (rule take_bit_add_take_bit)
    also have "\<dots> = take_bit 4 (sqCurrent s + of_nat i)"
      using Suc by (simp add: add.assoc)
    finally show ?thesis using Suc by (simp add: SequenceCounter_Next_def mask_4)
  qed
qed

end
