(* ===== verification/App_Objects.thy ===== *)
theory App_Objects
  imports App_Apdu Codec
begin

text \<open>
  \<open>pkg/app/objects.go\<close>, \<open>parser.go\<close>, \<open>builder.go\<close> and the request builders of
  \<open>helpers.go\<close> that rest on them: object headers with their ranges, the builder that writes
  them and the parser that reads them. Headers whose range fits their qualifier form a
  self-delimiting format, so a request made of several headers is read back as those
  headers. A float given to the builder is its bit pattern; everything else is as in the
  code.
\<close>

unbundle bit_operations_syntax

section \<open>Headers and ranges\<close>

type_synonym QualifierCode = byte

definition Qualifier8BitStartStop :: QualifierCode where [simp]: "Qualifier8BitStartStop = 0x00"
definition Qualifier16BitStartStop :: QualifierCode where [simp]: "Qualifier16BitStartStop = 0x01"
definition Qualifier32BitStartStop :: QualifierCode where [simp]: "Qualifier32BitStartStop = 0x02"
definition QualifierNoRange :: QualifierCode where [simp]: "QualifierNoRange = 0x06"
definition Qualifier8BitCount :: QualifierCode where [simp]: "Qualifier8BitCount = 0x07"
definition Qualifier16BitCount :: QualifierCode where [simp]: "Qualifier16BitCount = 0x08"
definition Qualifier32BitCount :: QualifierCode where [simp]: "Qualifier32BitCount = 0x09"

definition GroupClass0Data :: byte where [simp]: "GroupClass0Data = 60"

datatype Range = StartStopRange u32 u32 | CountRange u32 | NoRange

record ObjectHeader =
  ohGroup :: byte
  ohVariation :: byte
  ohQualifier :: QualifierCode
  ohRange :: Range

type_synonym ClassField = byte

definition ClassNone :: ClassField where [simp]: "ClassNone = 0"
definition Class0 :: ClassField where [simp]: "Class0 = 1"
definition Class1 :: ClassField where [simp]: "Class1 = 2"
definition Class2 :: ClassField where [simp]: "Class2 = 4"
definition Class3 :: ClassField where [simp]: "Class3 = 8"
definition ClassAll :: ClassField where [simp]: "ClassAll = Class1 OR Class2 OR Class3"

definition HasClass :: "ClassField \<Rightarrow> ClassField \<Rightarrow> bool" where
  "HasClass c class \<longleftrightarrow> c AND class \<noteq> 0"

definition ClassField_String :: "ClassField \<Rightarrow> string" where
  "ClassField_String c =
     (if c = ClassNone then ''None''
      else if c = Class0 then ''Class0''
      else if c = ClassAll then ''Class1,2,3''
      else let r0 = '''';
               r1 = (if c AND Class1 \<noteq> 0 then r0 @ ''Class1'' else r0);
               r2 = (if c AND Class2 \<noteq> 0
                     then (if r1 \<noteq> '''' then r1 @ '','' else r1) @ ''Class2'' else r1)
           in if c AND Class3 \<noteq> 0
              then (if r2 \<noteq> '''' then r2 @ '','' else r2) @ ''Class3'' else r2)"

text \<open>A 32-bit count: a full range of \<open>2\<^sup>32\<close> indices wraps to 0.\<close>

definition GetCount :: "Range \<Rightarrow> u32" where
  "GetCount r =
     (case r of
        StartStopRange start stop \<Rightarrow> if stop \<ge> start then stop - start + 1 else 0
      | CountRange n \<Rightarrow> n
      | NoRange \<Rightarrow> 0)"

section \<open>The parser\<close>

datatype parser_err = ErrInsufficientData | UnsupportedQualifier QualifierCode

record Parser =
  psData :: bytes
  psOffset :: nat

definition NewParser :: "bytes \<Rightarrow> Parser" where
  "NewParser data = \<lparr>psData = data, psOffset = 0\<rparr>"

definition HasMore :: "Parser \<Rightarrow> bool" where
  "HasMore p \<longleftrightarrow> psOffset p < length (psData p)"

definition Remaining :: "Parser \<Rightarrow> nat" where
  "Remaining p = length (psData p) - psOffset p"

text \<open>\<open>le_at p k n\<close> reads the \<open>n\<close>-byte integer at offset \<open>k\<close> from the current position.\<close>

definition le_at :: "Parser \<Rightarrow> nat \<Rightarrow> nat \<Rightarrow> u32" where
  "le_at p k n = get_le (take n (drop (psOffset p + k) (psData p)))"

definition readStartStop8 :: "Parser \<Rightarrow> (parser_err + Range) \<times> Parser" where
  "readStartStop8 p =
     (if Remaining p < 2 then (Inl ErrInsufficientData, p)
      else (Inr (StartStopRange (le_at p 0 1) (le_at p 1 1)), p\<lparr>psOffset := psOffset p + 2\<rparr>))"

definition readStartStop16 :: "Parser \<Rightarrow> (parser_err + Range) \<times> Parser" where
  "readStartStop16 p =
     (if Remaining p < 4 then (Inl ErrInsufficientData, p)
      else (Inr (StartStopRange (le_at p 0 2) (le_at p 2 2)), p\<lparr>psOffset := psOffset p + 4\<rparr>))"

definition readStartStop32 :: "Parser \<Rightarrow> (parser_err + Range) \<times> Parser" where
  "readStartStop32 p =
     (if Remaining p < 8 then (Inl ErrInsufficientData, p)
      else (Inr (StartStopRange (le_at p 0 4) (le_at p 4 4)), p\<lparr>psOffset := psOffset p + 8\<rparr>))"

definition readCount8 :: "Parser \<Rightarrow> (parser_err + Range) \<times> Parser" where
  "readCount8 p =
     (if Remaining p < 1 then (Inl ErrInsufficientData, p)
      else (Inr (CountRange (le_at p 0 1)), p\<lparr>psOffset := psOffset p + 1\<rparr>))"

definition readCount16 :: "Parser \<Rightarrow> (parser_err + Range) \<times> Parser" where
  "readCount16 p =
     (if Remaining p < 2 then (Inl ErrInsufficientData, p)
      else (Inr (CountRange (le_at p 0 2)), p\<lparr>psOffset := psOffset p + 2\<rparr>))"

definition readCount32 :: "Parser \<Rightarrow> (parser_err + Range) \<times> Parser" where
  "readCount32 p =
     (if Remaining p < 4 then (Inl ErrInsufficientData, p)
      else (Inr (CountRange (le_at p 0 4)), p\<lparr>psOffset := psOffset p + 4\<rparr>))"

definition ReadObjectHeader :: "Parser \<Rightarrow> (parser_err + ObjectHeader) \<times> Parser" where
  "ReadObjectHeader p =
     (if Remaining p < 3 then (Inl ErrInsufficientData, p)
      else let grp = psData p ! psOffset p;
               variation = psData p ! (psOffset p + 1);
               qualifier = psData p ! (psOffset p + 2);
               p1 = p\<lparr>psOffset := psOffset p + 3\<rparr>;
               (range, p2) =
                 (if qualifier = Qualifier8BitStartStop then readStartStop8 p1
                  else if qualifier = Qualifier16BitStartStop then readStartStop16 p1
                  else if qualifier = Qualifier32BitStartStop then readStartStop32 p1
                  else if qualifier = Qualifier8BitCount then readCount8 p1
                  else if qualifier = Qualifier16BitCount then readCount16 p1
                  else if qualifier = Qualifier32BitCount then readCount32 p1
                  else if qualifier = QualifierNoRange then (Inr NoRange, p1)
                  else (Inl (UnsupportedQualifier qualifier), p1))
           in case range of
                Inl err \<Rightarrow> (Inl err, p2)
              | Inr r \<Rightarrow> (Inr \<lparr>ohGroup = grp, ohVariation = variation, ohQualifier = qualifier,
                              ohRange = r\<rparr>, p2))"

text \<open>The callers read and skip counts that are not negative.\<close>

definition ReadBytes :: "Parser \<Rightarrow> nat \<Rightarrow> (parser_err + bytes) \<times> Parser" where
  "ReadBytes p n =
     (if Remaining p < n then (Inl ErrInsufficientData, p)
      else (Inr (take n (drop (psOffset p) (psData p))), p\<lparr>psOffset := psOffset p + n\<rparr>))"

definition Skip :: "Parser \<Rightarrow> nat \<Rightarrow> parser_err option \<times> Parser" where
  "Skip p n =
     (if Remaining p < n then (Some ErrInsufficientData, p)
      else (None, p\<lparr>psOffset := psOffset p + n\<rparr>))"

definition Parser_Reset :: "Parser \<Rightarrow> Parser" where
  "Parser_Reset p = p\<lparr>psOffset := 0\<rparr>"

section \<open>The builder\<close>

text \<open>The builder is its buffer; \<open>AddHeader\<close> never returns an error.\<close>

type_synonym ObjectBuilder = bytes

definition NewObjectBuilder :: ObjectBuilder where
  "NewObjectBuilder = []"

definition range_bytes :: "QualifierCode \<Rightarrow> Range \<Rightarrow> bytes" where
  "range_bytes q rng =
     (if q = Qualifier8BitStartStop
      then (case rng of StartStopRange a b \<Rightarrow> put_le 1 a @ put_le 1 b | _ \<Rightarrow> [])
      else if q = Qualifier16BitStartStop
      then (case rng of StartStopRange a b \<Rightarrow> put_le 2 a @ put_le 2 b | _ \<Rightarrow> [])
      else if q = Qualifier32BitStartStop
      then (case rng of StartStopRange a b \<Rightarrow> put_le 4 a @ put_le 4 b | _ \<Rightarrow> [])
      else if q = Qualifier8BitCount then (case rng of CountRange n \<Rightarrow> put_le 1 n | _ \<Rightarrow> [])
      else if q = Qualifier16BitCount then (case rng of CountRange n \<Rightarrow> put_le 2 n | _ \<Rightarrow> [])
      else if q = Qualifier32BitCount then (case rng of CountRange n \<Rightarrow> put_le 4 n | _ \<Rightarrow> [])
      else [])"

definition AddHeader :: "ObjectBuilder \<Rightarrow> byte \<Rightarrow> byte \<Rightarrow> QualifierCode \<Rightarrow> Range \<Rightarrow> ObjectBuilder" where
  "AddHeader b grp variation qualifier rng =
     b @ [grp, variation, qualifier] @ range_bytes qualifier rng"

definition AddHeaderWithData ::
  "ObjectBuilder \<Rightarrow> byte \<Rightarrow> byte \<Rightarrow> QualifierCode \<Rightarrow> Range \<Rightarrow> bytes \<Rightarrow> ObjectBuilder" where
  "AddHeaderWithData b grp variation qualifier rng data =
     AddHeader b grp variation qualifier rng @ data"

definition AddRawData :: "ObjectBuilder \<Rightarrow> bytes \<Rightarrow> ObjectBuilder" where
  "AddRawData b data = b @ data"

definition AddByte :: "ObjectBuilder \<Rightarrow> byte \<Rightarrow> ObjectBuilder" where
  "AddByte b val = b @ [val]"

definition AddUint16 :: "ObjectBuilder \<Rightarrow> u16 \<Rightarrow> ObjectBuilder" where
  "AddUint16 b val = b @ put_le 2 val"

definition AddUint32 :: "ObjectBuilder \<Rightarrow> u32 \<Rightarrow> ObjectBuilder" where
  "AddUint32 b val = b @ put_le 4 val"

definition AddInt16 :: "ObjectBuilder \<Rightarrow> u16 \<Rightarrow> ObjectBuilder" where
  "AddInt16 b val = b @ put_le 2 val"

definition AddInt32 :: "ObjectBuilder \<Rightarrow> u32 \<Rightarrow> ObjectBuilder" where
  "AddInt32 b val = b @ put_le 4 val"

definition AddFloat32 :: "ObjectBuilder \<Rightarrow> u32 \<Rightarrow> ObjectBuilder" where
  "AddFloat32 b bits = b @ put_le 4 bits"

definition AddFloat64 :: "ObjectBuilder \<Rightarrow> u64 \<Rightarrow> ObjectBuilder" where
  "AddFloat64 b bits = b @ put_le 8 bits"

definition BuildClassRead :: "ClassField list \<Rightarrow> bytes" where
  "BuildClassRead classes =
     foldl (\<lambda>b class.
       (let add = (\<lambda>variation. AddHeader b GroupClass0Data variation QualifierNoRange NoRange)
        in if class = Class0 then add 1
           else if class = Class1 then add 2
           else if class = Class2 then add 3
           else if class = Class3 then add 4
           else b)) NewObjectBuilder classes"

definition BuildIntegrityPoll :: bytes where
  "BuildIntegrityPoll = BuildClassRead [Class0]"

definition BuildEventPoll :: bytes where
  "BuildEventPoll = BuildClassRead [Class1, Class2, Class3]"

definition BuildEnableUnsolicited :: "ClassField list \<Rightarrow> bytes" where
  "BuildEnableUnsolicited classes =
     foldl (\<lambda>b class.
       (let add = (\<lambda>variation. AddHeader b GroupClass0Data variation QualifierNoRange NoRange)
        in if class = Class1 then add 2
           else if class = Class2 then add 3
           else if class = Class3 then add 4
           else b)) NewObjectBuilder classes"

definition BuildDisableUnsolicited :: "ClassField list \<Rightarrow> bytes" where
  "BuildDisableUnsolicited classes = BuildEnableUnsolicited classes"

definition BuildRangeRead :: "byte \<Rightarrow> byte \<Rightarrow> u32 \<Rightarrow> u32 \<Rightarrow> bytes" where
  "BuildRangeRead grp variation start stop =
     (let qualifier = (if stop \<le> 255 \<and> start \<le> 255 then Qualifier8BitStartStop
                       else if stop \<le> 65535 \<and> start \<le> 65535 then Qualifier16BitStartStop
                       else Qualifier32BitStartStop)
      in AddHeader NewObjectBuilder grp variation qualifier (StartStopRange start stop))"

section \<open>Request and response builders\<close>

definition BuildReadRequest :: "byte \<Rightarrow> bytes \<Rightarrow> APDU" where
  "BuildReadRequest seq objects = NewRequestAPDU FuncRead seq objects"

definition BuildWriteRequest :: "byte \<Rightarrow> bytes \<Rightarrow> APDU" where
  "BuildWriteRequest seq objects = NewRequestAPDU FuncWrite seq objects"

definition BuildSelectRequest :: "byte \<Rightarrow> bytes \<Rightarrow> APDU" where
  "BuildSelectRequest seq objects = NewRequestAPDU FuncSelect seq objects"

definition BuildOperateRequest :: "byte \<Rightarrow> bytes \<Rightarrow> APDU" where
  "BuildOperateRequest seq objects = NewRequestAPDU FuncOperate seq objects"

definition BuildDirectOperateRequest :: "byte \<Rightarrow> bytes \<Rightarrow> APDU" where
  "BuildDirectOperateRequest seq objects = NewRequestAPDU FuncDirectOperate seq objects"

definition BuildConfirmRequest :: "byte \<Rightarrow> APDU" where
  "BuildConfirmRequest seq = NewRequestAPDU FuncConfirm seq []"

definition BuildEnableUnsolicitedRequest :: "byte \<Rightarrow> ClassField list \<Rightarrow> APDU" where
  "BuildEnableUnsolicitedRequest seq classes =
     NewRequestAPDU FuncEnableUnsolicited seq (BuildEnableUnsolicited classes)"

definition BuildDisableUnsolicitedRequest :: "byte \<Rightarrow> ClassField list \<Rightarrow> APDU" where
  "BuildDisableUnsolicitedRequest seq classes =
     NewRequestAPDU FuncDisableUnsolicited seq (BuildDisableUnsolicited classes)"

definition BuildIntegrityPollRequest :: "byte \<Rightarrow> APDU" where
  "BuildIntegrityPollRequest seq = BuildReadRequest seq BuildIntegrityPoll"

definition BuildEventPollRequest :: "byte \<Rightarrow> APDU" where
  "BuildEventPollRequest seq = BuildReadRequest seq BuildEventPoll"

definition BuildColdRestartRequest :: "byte \<Rightarrow> APDU" where
  "BuildColdRestartRequest seq = NewRequestAPDU FuncColdRestart seq []"

definition BuildWarmRestartRequest :: "byte \<Rightarrow> APDU" where
  "BuildWarmRestartRequest seq = NewRequestAPDU FuncWarmRestart seq []"

definition BuildEmptyResponse :: "byte \<Rightarrow> IIN \<Rightarrow> APDU" where
  "BuildEmptyResponse seq iin = NewResponseAPDU seq iin []"

definition BuildErrorResponse :: "byte \<Rightarrow> byte \<Rightarrow> APDU" where
  "BuildErrorResponse seq errorFlag = BuildEmptyResponse seq \<lparr>iin1 = 0, iin2 = errorFlag\<rparr>"

definition BuildFunctionNotSupportedResponse :: "byte \<Rightarrow> APDU" where
  "BuildFunctionNotSupportedResponse seq = BuildErrorResponse seq IIN2NoFuncCodeSupport"

definition BuildObjectUnknownResponse :: "byte \<Rightarrow> APDU" where
  "BuildObjectUnknownResponse seq = BuildErrorResponse seq IIN2ObjectUnknown"

definition BuildParameterErrorResponse :: "byte \<Rightarrow> APDU" where
  "BuildParameterErrorResponse seq = BuildErrorResponse seq IIN2ParameterError"

definition BuildDataResponse :: "byte \<Rightarrow> IIN \<Rightarrow> bytes \<Rightarrow> APDU" where
  "BuildDataResponse seq iin objects = NewResponseAPDU seq iin objects"

definition BuildUnsolicitedResponse :: "byte \<Rightarrow> IIN \<Rightarrow> bytes \<Rightarrow> APDU" where
  "BuildUnsolicitedResponse seq iin objects = NewUnsolicitedResponseAPDU seq iin objects"

section \<open>Headers as a self-delimiting format\<close>

definition range_fits :: "QualifierCode \<Rightarrow> Range \<Rightarrow> bool" where
  "range_fits q rng =
     (case rng of
        StartStopRange a b \<Rightarrow>
          q = Qualifier8BitStartStop \<and> a \<le> 255 \<and> b \<le> 255
          \<or> q = Qualifier16BitStartStop \<and> a \<le> 65535 \<and> b \<le> 65535
          \<or> q = Qualifier32BitStartStop
      | CountRange n \<Rightarrow>
          q = Qualifier8BitCount \<and> n \<le> 255 \<or> q = Qualifier16BitCount \<and> n \<le> 65535
          \<or> q = Qualifier32BitCount
      | NoRange \<Rightarrow> q = QualifierNoRange)"

definition header_fits :: "ObjectHeader \<Rightarrow> bool" where
  "header_fits h \<longleftrightarrow> range_fits (ohQualifier h) (ohRange h)"

definition header_bytes :: "ObjectHeader \<Rightarrow> bytes" where
  "header_bytes h = AddHeader [] (ohGroup h) (ohVariation h) (ohQualifier h) (ohRange h)"

definition header_parse :: "bytes \<Rightarrow> parser_err + ObjectHeader \<times> nat" where
  "header_parse bs =
     (case ReadObjectHeader (NewParser bs) of
        (Inl e, _) \<Rightarrow> Inl e
      | (Inr h, p) \<Rightarrow> Inr (h, psOffset p))"

lemma le_at_put:
  assumes "psData p = pre @ put_le n (w :: u32) @ post" and "length pre = psOffset p + k"
  shows "le_at p k n = get_le (put_le n w)"
  using assms by (simp add: le_at_def)

lemma header_roundtrip:
  assumes "header_fits h"
  shows "header_parse (header_bytes h @ rest) = Inr (h, length (header_bytes h))"
proof -
  let ?pre = "[ohGroup h, ohVariation h, ohQualifier h]"
  let ?bs = "?pre @ range_bytes (ohQualifier h) (ohRange h) @ rest"
  let ?p = "\<lparr>psData = ?bs, psOffset = 3\<rparr>"
  have two: "le_at ?p 0 n = get_le (put_le n a)" "le_at ?p n n = get_le (put_le n b)"
    if "range_bytes (ohQualifier h) (ohRange h) = put_le n a @ put_le n b" for n and a b :: u32
    using le_at_put [of ?p ?pre n a "put_le n b @ rest" 0]
      le_at_put [of ?p "?pre @ put_le n a" n b rest n] that by simp_all
  have one: "le_at ?p 0 n = get_le (put_le n a)"
    if "range_bytes (ohQualifier h) (ohRange h) = put_le n a" for n and a :: u32
    using le_at_put [of ?p ?pre n a rest 0] that by simp
  show ?thesis
  proof (cases "ohRange h")
    case (StartStopRange a b)
    then consider "ohQualifier h = 0" "a \<le> 255" "b \<le> 255" | "ohQualifier h = 1" "a \<le> 65535" "b \<le> 65535"
      | "ohQualifier h = 2" using assms by (auto simp: header_fits_def range_fits_def)
    then show ?thesis
    proof cases
      case 1
      then show ?thesis using two [of 1 a b] StartStopRange
        by (cases h) (simp add: header_parse_def NewParser_def ReadObjectHeader_def Remaining_def Let_def
            readStartStop8_def get_put_fits [unfolded One_nat_def] range_bytes_def header_bytes_def AddHeader_def
            del: put_le.simps)
    next
      case 2
      then show ?thesis using two [of 2 a b] StartStopRange
        by (cases h) (simp add: header_parse_def NewParser_def ReadObjectHeader_def Remaining_def Let_def
            readStartStop16_def get_put_fits range_bytes_def header_bytes_def AddHeader_def)
    next
      case 3
      then show ?thesis using two [of 4 a b] StartStopRange
        by (cases h) (simp add: header_parse_def NewParser_def ReadObjectHeader_def Remaining_def Let_def
            readStartStop32_def get_put_fits range_bytes_def header_bytes_def AddHeader_def)
    qed
  next
    case (CountRange n)
    then consider "ohQualifier h = 7" "n \<le> 255" | "ohQualifier h = 8" "n \<le> 65535"
      | "ohQualifier h = 9" using assms by (auto simp: header_fits_def range_fits_def)
    then show ?thesis
    proof cases
      case 1
      then show ?thesis using one [of 1 n] CountRange
        by (cases h) (simp add: header_parse_def NewParser_def ReadObjectHeader_def Remaining_def Let_def
            readCount8_def get_put_fits [unfolded One_nat_def] range_bytes_def header_bytes_def AddHeader_def
            del: put_le.simps)
    next
      case 2
      then show ?thesis using one [of 2 n] CountRange
        by (cases h) (simp add: header_parse_def NewParser_def ReadObjectHeader_def Remaining_def Let_def
            readCount16_def get_put_fits range_bytes_def header_bytes_def AddHeader_def)
    next
      case 3
      then show ?thesis using one [of 4 n] CountRange
        by (cases h) (simp add: header_parse_def NewParser_def ReadObjectHeader_def Remaining_def Let_def
            readCount32_def get_put_fits range_bytes_def header_bytes_def AddHeader_def)
    qed
  next
    case NoRange
    then show ?thesis using assms
      by (cases h) (simp add: header_parse_def NewParser_def ReadObjectHeader_def Remaining_def Let_def
          range_bytes_def header_bytes_def AddHeader_def header_fits_def range_fits_def)
  qed
qed

interpretation header_codec: prefix_codec header_fits header_bytes header_parse
  by unfold_locales (rule header_roundtrip)

section \<open>Class requests\<close>

definition class_header :: "byte \<Rightarrow> ObjectHeader" where
  "class_header variation = \<lparr>ohGroup = GroupClass0Data, ohVariation = variation,
     ohQualifier = QualifierNoRange, ohRange = NoRange\<rparr>"

text \<open>The variation of group 60 that names a single class; a combination of classes has none.\<close>

definition class_variation :: "ClassField \<Rightarrow> byte option" where
  "class_variation c =
     (if c = Class0 then Some 1 else if c = Class1 then Some 2
      else if c = Class2 then Some 3 else if c = Class3 then Some 4 else None)"

definition class_headers :: "ClassField list \<Rightarrow> ObjectHeader list" where
  "class_headers cs = map class_header (List.map_filter class_variation cs)"

lemma header_bytes_class: "header_bytes (class_header v) = [60, v, 6]"
  by (simp add: header_bytes_def class_header_def AddHeader_def range_bytes_def)

lemma class_headers_snoc:
  "class_headers (cs @ [c]) = class_headers cs
    @ (case class_variation c of None \<Rightarrow> [] | Some v \<Rightarrow> [class_header v])"
  by (simp add: class_headers_def map_filter_def split: option.split)

lemma BuildClassRead_headers: "BuildClassRead cs = concat (map header_bytes (class_headers cs))"
proof (induction cs rule: rev_induct)
  case Nil
  then show ?case by (simp add: BuildClassRead_def NewObjectBuilder_def class_headers_def map_filter_def)
next
  case (snoc c cs)
  then show ?case
    by (simp add: class_headers_snoc BuildClassRead_def Let_def)
      (simp add: class_variation_def header_bytes_class AddHeader_def range_bytes_def)
qed

lemma class_headers_fit: "list_all header_fits (class_headers cs)"
  by (simp add: class_headers_def list_all_iff header_fits_def range_fits_def class_header_def)

section \<open>Counting\<close>

lemma GetCount_StartStop:
  "unat (GetCount (StartStopRange a b)) =
    (if b < a then 0 else if a = 0 \<and> b = - 1 then 0 else unat b - unat a + 1)"
proof (cases "b < a")
  case True
  then have "\<not> a \<le> b" by (simp add: not_le)
  with True show ?thesis by (simp add: GetCount_def)
next
  case False
  then have ge: "a \<le> b" by simp
  then have d: "unat (b - a) = unat b - unat a" by (simp add: unat_sub)
  show ?thesis
  proof (cases "a = 0 \<and> b = - 1")
    case True
    then show ?thesis by (simp add: GetCount_def)
  next
    case ne: False
    have "b - a \<noteq> - 1"
    proof
      assume m: "b - a = - 1"
      have "unat (- 1 :: u32) = 2 ^ 32 - 1"
        by (simp add: unsigned_minus_1_eq_mask mask_eq_exp_minus_1)
      then have "unat b - unat a = 2 ^ 32 - 1" using d m by simp
      moreover have "unat b \<le> 2 ^ 32 - 1" 
        using unsigned_less [where ?'a = nat and w = b] by simp
      ultimately have "unat a = 0" by simp
      then have "a = 0" by (simp add: unat_eq_0)
      with m ne show False by simp
    qed
    then have "unat (b - a + 1) = Suc (unat (b - a))"
      by (metis add.commute add_eq_0_iff unatSuc)
    with ge d ne show ?thesis by (auto simp: GetCount_def)
  qed
qed

section \<open>Properties\<close>

text \<open>
  Object headers written one after the other are read back as those headers: for any
  sequence of headers whose ranges fit their qualifiers, whatever follows, the parser
  returns each header with its group, variation, qualifier and range, and stands at the
  bytes behind the last one.
\<close>

theorem header_stream_roundtrip:
  assumes "list_all header_fits hs"
  shows "decode_seq header_parse (length hs) (concat (map header_bytes hs) @ rest) = Inr (hs, rest)"
  using assms by (rule header_codec.decode_stream)

theorem header_stream_roundtrip_witness:
  "decode_seq header_parse 1 (BuildRangeRead 30 1 0 300 @ [9])
    = Inr ([\<lparr>ohGroup = 30, ohVariation = 1, ohQualifier = 1, ohRange = StartStopRange 0 300\<rparr>], [9])"
  using header_stream_roundtrip
    [of "[\<lparr>ohGroup = 30, ohVariation = 1, ohQualifier = 1, ohRange = StartStopRange 0 300\<rparr>]" "[9]"]
  by (simp add: header_fits_def range_fits_def header_bytes_def BuildRangeRead_def NewObjectBuilder_def)

text \<open>
  A range read asks for exactly the range given: for all 32-bit bounds, in whichever
  order, the request parses to the group, the variation and the two bounds, with the
  narrowest of the three start-stop qualifiers that holds both.
\<close>

theorem range_read_exact:
  "\<exists>q n. header_parse (BuildRangeRead g v start stop @ rest)
      = Inr (\<lparr>ohGroup = g, ohVariation = v, ohQualifier = q, ohRange = StartStopRange start stop\<rparr>, n)
    \<and> n = length (BuildRangeRead g v start stop)
    \<and> q = (if max start stop \<le> 255 then Qualifier8BitStartStop
           else if max start stop \<le> 65535 then Qualifier16BitStartStop else Qualifier32BitStartStop)"
proof -
  let ?q = "if stop \<le> 255 \<and> start \<le> 255 then Qualifier8BitStartStop
     else if stop \<le> 65535 \<and> start \<le> 65535 then Qualifier16BitStartStop else Qualifier32BitStartStop"
  let ?h = "\<lparr>ohGroup = g, ohVariation = v, ohQualifier = ?q, ohRange = StartStopRange start stop\<rparr>"
  have b: "BuildRangeRead g v start stop = header_bytes ?h"
    by (simp add: BuildRangeRead_def header_bytes_def NewObjectBuilder_def Let_def)
  have "header_fits ?h" by (auto simp: header_fits_def range_fits_def)
  from header_roundtrip [OF this, of rest]
  have "header_parse (BuildRangeRead g v start stop @ rest)
      = Inr (?h, length (BuildRangeRead g v start stop))"
    unfolding b .
  moreover have "?q = (if max start stop \<le> 255 then Qualifier8BitStartStop
           else if max start stop \<le> 65535 then Qualifier16BitStartStop else Qualifier32BitStartStop)"
    by auto
  ultimately show ?thesis by blast
qed

text \<open>
  The number of items of a start-stop range is the number of its indices, 0 when the
  range runs backwards, except for the full 32-bit range, whose \<open>2\<^sup>32\<close> indices wrap to 0.
\<close>

theorem start_stop_count:
  "unat (GetCount (StartStopRange start stop)) =
    (if stop < start then 0 else if start = 0 \<and> stop = - 1 then 0 else unat stop - unat start + 1)"
  by (rule GetCount_StartStop)

text \<open>
  A class read asks for the single classes it is given, in that order, and for nothing
  else: a combination such as \<open>ClassAll\<close> in the argument is dropped without an error, so a
  read of \<open>ClassAll\<close> alone is an empty request.
\<close>

theorem class_read_headers:
  "decode_seq header_parse (length (class_headers cs)) (BuildClassRead cs) = Inr (class_headers cs, [])
    \<and> BuildClassRead [ClassAll] = [] \<and> BuildClassRead [Class1, Class2, Class3] = BuildEventPoll"
proof -
  have "decode_seq header_parse (length (class_headers cs)) (BuildClassRead cs @ [])
      = Inr (class_headers cs, [])"
    unfolding BuildClassRead_headers by (rule header_codec.decode_stream [OF class_headers_fit])
  then show ?thesis
    by (simp add: BuildEventPoll_def) (simp add: BuildClassRead_def NewObjectBuilder_def)
qed

end
