(* ===== verification/App_Strict_Codec.thy ===== *)
theory App_Strict_Codec
  imports App_Apdu Codec
begin

text \<open>
  The strict application codec (\<open>pkg/app/strict.go\<close> and \<open>strict_object.go\<close>): fragments under
  a size limit, object headers with their qualifier, and unsigned integers of 1, 2 or 4
  bytes. Decoding is shown to be the inverse of encoding in both directions; the object
  headers are an instance of the self-delimiting formats of \<open>Codec\<close>.
\<close>

unbundle bit_operations_syntax

section \<open>Fragments\<close>

record StrictFragment =
  stFIR :: bool
  stFIN :: bool
  stCON :: bool
  stUNS :: bool
  stSequence :: byte
  stFunction :: byte
  stIIN :: u16
  stObjects :: bytes

datatype fragment_err =
    FragmentMaximumTooSmall
  | FragmentSequenceTooLarge
  | FragmentTooLong
  | FragmentHeaderTruncated
  | FragmentResponseTruncated

definition isStrictResponse :: "byte \<Rightarrow> bool" where
  "isStrictResponse func \<longleftrightarrow> func AND 0x80 \<noteq> 0"

definition EncodeStrictFragment :: "StrictFragment \<Rightarrow> int \<Rightarrow> fragment_err + bytes" where
  "EncodeStrictFragment fragment maximum =
     (if maximum < 2 then Inl FragmentMaximumTooSmall
      else if stSequence fragment > AppCtrlSeqMask then Inl FragmentSequenceTooLarge
      else let headerLength = (if isStrictResponse (stFunction fragment) then 4 else 2) in
      if int (length (stObjects fragment)) > maximum - headerLength then Inl FragmentTooLong
      else let c0 = stSequence fragment;
               c1 = (if stFIR fragment then c0 OR AppCtrlFIR else c0);
               c2 = (if stFIN fragment then c1 OR AppCtrlFIN else c1);
               c3 = (if stCON fragment then c2 OR AppCtrlCON else c2);
               control = (if stUNS fragment then c3 OR AppCtrlUNS else c3)
           in Inr ([control, stFunction fragment]
                @ (if headerLength = 4 then put_le 2 (stIIN fragment) else [])
                @ stObjects fragment))"

definition DecodeStrictFragment :: "bytes \<Rightarrow> int \<Rightarrow> fragment_err + StrictFragment" where
  "DecodeStrictFragment data maximum =
     (if maximum < 2 then Inl FragmentMaximumTooSmall
      else if length data < 2 then Inl FragmentHeaderTruncated
      else if int (length data) > maximum then Inl FragmentTooLong
      else let control = data ! 0;
               func = data ! 1;
               fragment =
                 \<lparr>stFIR = (control AND AppCtrlFIR \<noteq> 0), stFIN = (control AND AppCtrlFIN \<noteq> 0),
                  stCON = (control AND AppCtrlCON \<noteq> 0), stUNS = (control AND AppCtrlUNS \<noteq> 0),
                  stSequence = control AND AppCtrlSeqMask, stFunction = func, stIIN = 0,
                  stObjects = []\<rparr>
           in if isStrictResponse func
              then (if length data < 4 then Inl FragmentResponseTruncated
                    else Inr (fragment\<lparr>stIIN := get_le (take 2 (drop 2 data)),
                                       stObjects := drop 4 data\<rparr>))
              else Inr (fragment\<lparr>stObjects := drop 2 data\<rparr>))"

text \<open>
  The encoder writes the indications of a response only: a fragment is recovered from its
  encoding when it carries none otherwise.
\<close>

definition fragment_ok :: "StrictFragment \<Rightarrow> bool" where
  "fragment_ok f \<longleftrightarrow> (isStrictResponse (stFunction f) \<or> stIIN f = 0)"

section \<open>Object headers\<close>

record StrictObjectHeader =
  shGroup :: byte
  shVariation :: byte
  shQualifier :: byte
  shStart :: u32
  shStop :: u32
  shCount :: u32

datatype strictRangeKind = strictRangeStartStop | strictRangeAll | strictRangeCount

record strictQualifier =
  sqKind :: strictRangeKind
  sqRangeWidth :: nat
  sqPrefixWidth :: nat
  sqSizePrefix :: bool

datatype object_err =
    UnsupportedPrefixCode byte
  | UnsupportedRangeCode byte
  | StartStopPrefixed
  | AllObjectsPrefixed
  | StopBelowStart
  | CountZero
  | ValueTooWide nat
  | UnsupportedWidth
  | ObjectHeaderTruncated
  | ObjectRangeTruncated
  | ObjectCountTruncated

definition decodeStrictQualifier :: "byte \<Rightarrow> object_err + strictQualifier" where
  "decodeStrictQualifier qualifier =
     (let prefixCode = drop_bit 4 qualifier;
          rangeCode = qualifier AND 0x0F;
          pre = (if prefixCode = 0 then Some (0, False)
                 else if prefixCode = 1 \<or> prefixCode = 2 \<or> prefixCode = 3
                 then Some (2 ^ (unat prefixCode - 1), False)
                 else if prefixCode = 4 \<or> prefixCode = 5 \<or> prefixCode = 6
                 then Some (2 ^ (unat prefixCode - 4), True)
                 else None)
      in case pre of
           None \<Rightarrow> Inl (UnsupportedPrefixCode prefixCode)
         | Some (prefixWidth, sizePrefix) \<Rightarrow>
             if rangeCode = 0 \<or> rangeCode = 1 \<or> rangeCode = 2
             then (if prefixCode \<noteq> 0 then Inl StartStopPrefixed
                   else Inr \<lparr>sqKind = strictRangeStartStop, sqRangeWidth = 2 ^ unat rangeCode,
                             sqPrefixWidth = prefixWidth, sqSizePrefix = sizePrefix\<rparr>)
             else if rangeCode = 6
             then (if prefixCode \<noteq> 0 then Inl AllObjectsPrefixed
                   else Inr \<lparr>sqKind = strictRangeAll, sqRangeWidth = 0,
                             sqPrefixWidth = prefixWidth, sqSizePrefix = sizePrefix\<rparr>)
             else if rangeCode = 7 \<or> rangeCode = 8 \<or> rangeCode = 9
             then Inr \<lparr>sqKind = strictRangeCount, sqRangeWidth = 2 ^ (unat rangeCode - 7),
                       sqPrefixWidth = prefixWidth, sqSizePrefix = sizePrefix\<rparr>
             else Inl (UnsupportedRangeCode rangeCode))"

definition appendStrictUnsigned :: "bytes \<Rightarrow> u32 \<Rightarrow> nat \<Rightarrow> object_err + bytes" where
  "appendStrictUnsigned destination val width =
     (if width = 1 then (if val > 0xFF then Inl (ValueTooWide 1) else Inr (destination @ put_le 1 val))
      else if width = 2
      then (if val > 0xFFFF then Inl (ValueTooWide 2) else Inr (destination @ put_le 2 val))
      else if width = 4 then Inr (destination @ put_le 4 val)
      else Inl UnsupportedWidth)"

definition readStrictUnsigned :: "bytes \<Rightarrow> nat \<Rightarrow> u32" where
  "readStrictUnsigned data width =
     (if width = 1 \<or> width = 2 \<or> width = 4 then get_le (take width data) else 0)"

definition EncodeStrictObjectHeader :: "StrictObjectHeader \<Rightarrow> object_err + bytes" where
  "EncodeStrictObjectHeader header =
     (case decodeStrictQualifier (shQualifier header) of
        Inl err \<Rightarrow> Inl err
      | Inr descriptor \<Rightarrow>
          let result = [shGroup header, shVariation header, shQualifier header] in
          (case sqKind descriptor of
             strictRangeAll \<Rightarrow> Inr result
           | strictRangeStartStop \<Rightarrow>
               if shStop header < shStart header then Inl StopBelowStart
               else (case appendStrictUnsigned result (shStart header) (sqRangeWidth descriptor) of
                       Inl err \<Rightarrow> Inl err
                     | Inr result' \<Rightarrow>
                         appendStrictUnsigned result' (shStop header) (sqRangeWidth descriptor))
           | strictRangeCount \<Rightarrow>
               if shCount header = 0 then Inl CountZero
               else appendStrictUnsigned result (shCount header) (sqRangeWidth descriptor)))"

definition DecodeStrictObjectHeader :: "bytes \<Rightarrow> object_err + StrictObjectHeader \<times> nat" where
  "DecodeStrictObjectHeader data =
     (if length data < 3 then Inl ObjectHeaderTruncated
      else let header = \<lparr>shGroup = data ! 0, shVariation = data ! 1, shQualifier = data ! 2,
                         shStart = 0, shStop = 0, shCount = 0\<rparr> in
      (case decodeStrictQualifier (shQualifier header) of
         Inl err \<Rightarrow> Inl err
       | Inr descriptor \<Rightarrow>
           (case sqKind descriptor of
              strictRangeAll \<Rightarrow> Inr (header, 3)
            | strictRangeStartStop \<Rightarrow>
                if length data - 3 < 2 * sqRangeWidth descriptor then Inl ObjectRangeTruncated
                else let start = readStrictUnsigned (drop 3 data) (sqRangeWidth descriptor);
                         stop = readStrictUnsigned (drop (3 + sqRangeWidth descriptor) data)
                                  (sqRangeWidth descriptor)
                     in if stop < start then Inl StopBelowStart
                        else Inr (header\<lparr>shStart := start, shStop := stop\<rparr>,
                                  3 + sqRangeWidth descriptor + sqRangeWidth descriptor)
            | strictRangeCount \<Rightarrow>
                if length data - 3 < sqRangeWidth descriptor then Inl ObjectCountTruncated
                else let count = readStrictUnsigned (drop 3 data) (sqRangeWidth descriptor)
                     in if count = 0 then Inl CountZero
                        else Inr (header\<lparr>shCount := count\<rparr>, 3 + sqRangeWidth descriptor))))"

section \<open>Fragments survive\<close>

lemma EncodeStrictFragment_iff:
  "EncodeStrictFragment f m = Inr w \<longleftrightarrow>
    2 \<le> m \<and> stSequence f \<le> 15 \<and> int (length w) \<le> m
    \<and> w = BuildControlByte (stFIR f) (stFIN f) (stCON f) (stUNS f) (stSequence f) # stFunction f
        # (if isStrictResponse (stFunction f) then put_le 2 (stIIN f) else []) @ stObjects f"
  by (auto simp: EncodeStrictFragment_def BuildControlByte_def Let_def le_15_nibble not_less not_le)

lemma byte_and_15_le: "(x :: byte) AND 0x0F \<le> 0x0F"
  by (rule word_and_le1)

lemma DecodeStrictFragment_iff:
  "DecodeStrictFragment w m = Inr f \<longleftrightarrow>
    2 \<le> m \<and> int (length w) \<le> m \<and> stSequence f \<le> 15 \<and> fragment_ok f
    \<and> w = BuildControlByte (stFIR f) (stFIN f) (stCON f) (stUNS f) (stSequence f) # stFunction f
        # (if isStrictResponse (stFunction f) then put_le 2 (stIIN f) else []) @ stObjects f"
  (is "?dec \<longleftrightarrow> ?enc")
proof
  assume ?dec
  then have len: "2 \<le> m" "int (length w) \<le> m" "2 \<le> length w"
    "isStrictResponse (w ! 1) \<Longrightarrow> 4 \<le> length w"
    and f: "f = \<lparr>stFIR = (w ! 0 AND AppCtrlFIR \<noteq> 0), stFIN = (w ! 0 AND AppCtrlFIN \<noteq> 0),
      stCON = (w ! 0 AND AppCtrlCON \<noteq> 0), stUNS = (w ! 0 AND AppCtrlUNS \<noteq> 0),
      stSequence = w ! 0 AND AppCtrlSeqMask, stFunction = w ! 1,
      stIIN = (if isStrictResponse (w ! 1) then get_le (take 2 (drop 2 w)) else 0),
      stObjects = (if isStrictResponse (w ! 1) then drop 4 w else drop 2 w)\<rparr>"
    by (auto simp: DecodeStrictFragment_def Let_def split: if_splits)
  have 2: "w = w ! 0 # w ! 1 # drop 2 w"
    using len(3) by (cases w; cases "tl w") auto
  have 4: "drop 2 w = put_le 2 (get_le (take 2 (drop 2 w)) :: u16) @ drop 4 w" if "4 \<le> length w"
    using that put_get_le [of "take 2 (drop 2 w)", where 'a = 16]
      append_take_drop_id [of 2 "drop 2 w"] by simp
  show ?enc
    using len 2 4 control_roundtrip [of "w ! 0"] byte_and_15_le [of "w ! 0"]
    by (auto simp: f fragment_ok_def)
next
  assume enc: ?enc
  then have len: "length w = (if isStrictResponse (stFunction f) then 4 else 2) + length (stObjects f)"
    by simp
  have ctrl: "ParseControlByte (w ! 0) = (stFIR f, stFIN f, stCON f, stUNS f, stSequence f)"
    using enc by (simp add: ParseControlByte_Build le_15_nibble)
  have iin: "get_le (put_le 2 (stIIN f)) = stIIN f" by (rule get_put_le_full) simp
  show ?dec
    using enc len ctrl iin
    by (cases f) (auto simp: DecodeStrictFragment_def ParseControlByte_def Let_def fragment_ok_def)
qed

section \<open>Integers and qualifiers\<close>

definition fits_width :: "u32 \<Rightarrow> nat \<Rightarrow> bool" where
  "fits_width v n \<longleftrightarrow> n \<in> {1, 2, 4} \<and> take_bit (8 * n) v = v"

lemma take_bit_le:
  fixes v :: u32
  shows "take_bit 8 v = v \<longleftrightarrow> v \<le> 0xFF" and "take_bit 16 v = v \<longleftrightarrow> v \<le> 0xFFFF"
    and "take_bit 32 v = v"
proof -
  have le: "take_bit n v = v \<longleftrightarrow> unat v < 2 ^ n" for n
    by (metis take_bit_nat_eq_self take_bit_nat_less_exp unsigned_take_bit_eq word_unat_eq_iff)
  show "take_bit 8 v = v \<longleftrightarrow> v \<le> 0xFF" and "take_bit 16 v = v \<longleftrightarrow> v \<le> 0xFFFF"
    by (auto simp: le word_le_nat_alt)
  show "take_bit 32 v = v" by (simp add: take_bit_word_eq_self)
qed

lemma appendStrictUnsigned_iff:
  "appendStrictUnsigned d v n = Inr r \<longleftrightarrow> fits_width v n \<and> r = d @ put_le n v"
  by (auto simp: appendStrictUnsigned_def fits_width_def take_bit_le not_less simp del: put_le.simps)

lemma bind_Inr_iff:
  "(case r of Inl e \<Rightarrow> Inl e | Inr x \<Rightarrow> f x) = Inr y \<longleftrightarrow> (\<exists>x. r = Inr x \<and> f x = Inr y)"
  by (cases r) auto

lemma drop_header: "drop (3 + k) (a # b # c # xs) = drop k xs"
  by (simp add: numeral_3_eq_3)

lemma take_header: "3 \<le> length xs \<Longrightarrow> take 3 xs = [xs ! 0, xs ! 1, xs ! 2]"
  by (cases xs; cases "tl xs"; cases "tl (tl xs)") (auto simp: numeral_3_eq_3 numeral_2_eq_2)

lemma readStrictUnsigned_put:
  "fits_width v n \<Longrightarrow> readStrictUnsigned (put_le n v @ rest) n = v"
  by (auto simp: readStrictUnsigned_def fits_width_def get_put_le simp del: put_le.simps)

lemma readStrictUnsigned_back:
  assumes "n \<in> {1, 2, 4}" and "n \<le> length data"
  shows "put_le n (readStrictUnsigned data n) = take n data"
    and "fits_width (readStrictUnsigned data n) n"
proof -
  have r: "readStrictUnsigned data n = get_le (take n data)"
    using assms(1) by (auto simp: readStrictUnsigned_def)
  show p: "put_le n (readStrictUnsigned data n) = take n data"
    using put_get_le [of "take n data", where 'a = 32] assms by (auto simp: r)
  have "readStrictUnsigned data n = (get_le (put_le n (readStrictUnsigned data n)) :: u32)"
    using p r by simp
  then have "take_bit (8 * n) (readStrictUnsigned data n) = readStrictUnsigned data n"
    by (simp add: get_put_le)
  then show "fits_width (readStrictUnsigned data n) n"
    using assms(1) by (simp add: fits_width_def)
qed

lemma decodeStrictQualifier_width:
  assumes "decodeStrictQualifier q = Inr d"
  shows "sqKind d = strictRangeAll \<or> sqRangeWidth d \<in> {1, 2, 4}"
    and "sqPrefixWidth d \<in> {0, 1, 2, 4}"
    and "sqKind d \<noteq> strictRangeCount \<Longrightarrow> sqPrefixWidth d = 0 \<and> \<not> sqSizePrefix d"
  using assms by (auto simp: decodeStrictQualifier_def Let_def split: if_splits)

section \<open>Object headers survive\<close>

text \<open>The fields that the qualifier does not use are zero, as the decoder leaves them.\<close>

definition header_canonical :: "StrictObjectHeader \<Rightarrow> bool" where
  "header_canonical h =
     (case decodeStrictQualifier (shQualifier h) of
        Inl _ \<Rightarrow> False
      | Inr d \<Rightarrow>
          (case sqKind d of
             strictRangeAll \<Rightarrow> shStart h = 0 \<and> shStop h = 0 \<and> shCount h = 0
           | strictRangeStartStop \<Rightarrow> shCount h = 0
           | strictRangeCount \<Rightarrow> shStart h = 0 \<and> shStop h = 0))"

lemma EncodeStrictObjectHeader_iff:
  assumes "decodeStrictQualifier (shQualifier h) = Inr d"
  shows "EncodeStrictObjectHeader h = Inr w \<longleftrightarrow>
    (case sqKind d of
       strictRangeAll \<Rightarrow> w = [shGroup h, shVariation h, shQualifier h]
     | strictRangeStartStop \<Rightarrow>
         shStart h \<le> shStop h \<and> fits_width (shStart h) (sqRangeWidth d)
         \<and> fits_width (shStop h) (sqRangeWidth d)
         \<and> w = [shGroup h, shVariation h, shQualifier h]
             @ put_le (sqRangeWidth d) (shStart h) @ put_le (sqRangeWidth d) (shStop h)
     | strictRangeCount \<Rightarrow>
         shCount h \<noteq> 0 \<and> fits_width (shCount h) (sqRangeWidth d)
         \<and> w = [shGroup h, shVariation h, shQualifier h] @ put_le (sqRangeWidth d) (shCount h))"
  using assms
  by (cases "sqKind d")
    (auto simp: EncodeStrictObjectHeader_def appendStrictUnsigned_iff bind_Inr_iff not_less)

lemma Decode_EncodeStrictObjectHeader:
  assumes "EncodeStrictObjectHeader h = Inr w" and "header_canonical h"
  shows "DecodeStrictObjectHeader (w @ rest) = Inr (h, length w)"
proof -
  obtain d where d: "decodeStrictQualifier (shQualifier h) = Inr d"
    using assms(1) by (auto simp: EncodeStrictObjectHeader_def split: sum.splits)
  note e = assms(1) [unfolded EncodeStrictObjectHeader_iff [OF d]]
  show ?thesis
  proof (cases "sqKind d")
    case strictRangeAll
    then show ?thesis using e d assms(2)
      by (cases h) (auto simp: DecodeStrictObjectHeader_def header_canonical_def)
  next
    case strictRangeStartStop
    then show ?thesis using e d assms(2)
        readStrictUnsigned_put [of "shStart h" "sqRangeWidth d" "put_le (sqRangeWidth d) (shStop h) @ rest"]
        readStrictUnsigned_put [of "shStop h" "sqRangeWidth d" rest]
      by (cases h)
        (auto simp: DecodeStrictObjectHeader_def header_canonical_def Let_def not_less drop_header)
  next
    case strictRangeCount
    then show ?thesis using e d assms(2)
        readStrictUnsigned_put [of "shCount h" "sqRangeWidth d" rest]
      by (cases h) (auto simp: DecodeStrictObjectHeader_def header_canonical_def Let_def)
  qed
qed

lemma DecodeStrictObjectHeader_OkD:
  assumes "DecodeStrictObjectHeader data = Inr (h, n)"
  shows "n \<le> length data \<and> 3 \<le> n \<and> EncodeStrictObjectHeader h = Inr (take n data) \<and> header_canonical h"
proof -
  have len: "3 \<le> length data"
    using assms by (auto simp: DecodeStrictObjectHeader_def split: if_splits)
  obtain d where d: "decodeStrictQualifier (data ! 2) = Inr d"
    using assms by (auto simp: DecodeStrictObjectHeader_def Let_def split: if_splits sum.splits)
  have hd: "shGroup h = data ! 0" "shVariation h = data ! 1" "shQualifier h = data ! 2"
    using assms d
    by (auto simp: DecodeStrictObjectHeader_def Let_def split: if_splits strictRangeKind.splits)
  have t3: "take 3 data = [data ! 0, data ! 1, data ! 2]"
    using len by (rule take_header)
  let ?n = "sqRangeWidth d"
  let ?tail = "drop 3 data"
  have split2: "take (3 + k) data = take 3 data @ take k ?tail" for k
    by (simp add: take_add)
  note enc = EncodeStrictObjectHeader_iff [of h d, unfolded hd, OF d]
  show ?thesis
  proof (cases "sqKind d")
    case strictRangeAll
    then have "shStart h = 0" "shStop h = 0" "shCount h = 0" "n = 3"
      using assms d len by (auto simp: DecodeStrictObjectHeader_def Let_def)
    then show ?thesis
      using strictRangeAll enc d len t3 hd(3) by (simp add: header_canonical_def)
  next
    case strictRangeStartStop
    then have n: "?n \<in> {1, 2, 4}" using decodeStrictQualifier_width [OF d] by simp
    have "shStart h = readStrictUnsigned ?tail ?n" "shStop h = readStrictUnsigned (drop (3 + ?n) data) ?n"
      "n = 3 + ?n + ?n" "2 * ?n \<le> length data - 3" and h: "shStart h \<le> shStop h" "shCount h = 0"
      using assms d strictRangeStartStop len
      by (simp_all add: DecodeStrictObjectHeader_def Let_def not_less split: if_splits) auto
    then have h: "shStart h = readStrictUnsigned ?tail ?n" "shStop h = readStrictUnsigned (drop ?n ?tail) ?n"
      "n = 3 + (?n + ?n)" "?n + ?n \<le> length ?tail" "shStart h \<le> shStop h" "shCount h = 0"
      using h by (simp_all add: add.commute)
    note rd = readStrictUnsigned_back [OF n, of ?tail] readStrictUnsigned_back [OF n, of "drop ?n ?tail"]
    have "take (?n + ?n) ?tail = take ?n ?tail @ take ?n (drop ?n ?tail)" by (rule take_add)
    also have "\<dots> = put_le ?n (shStart h) @ put_le ?n (shStop h)" using rd h(1,2,4) by simp
    finally have "take n data = [data ! 0, data ! 1, data ! 2] @ put_le ?n (shStart h) @ put_le ?n (shStop h)"
      using split2 [of "?n + ?n"] h(3) t3 by simp
    moreover have "fits_width (shStart h) ?n" "fits_width (shStop h) ?n" using rd h(1,2,4) by simp_all
    moreover have "n \<le> length data" "3 \<le> n" using h(3,4) len by auto
    ultimately show ?thesis
      using strictRangeStartStop enc h(5,6) d hd(3) by (simp add: header_canonical_def)
  next
    case strictRangeCount
    then have n: "?n \<in> {1, 2, 4}" using decodeStrictQualifier_width [OF d] by simp
    have h: "shCount h = readStrictUnsigned ?tail ?n" "n = 3 + ?n" "?n \<le> length ?tail"
      "shCount h \<noteq> 0" "shStart h = 0" "shStop h = 0"
      using assms d strictRangeCount len
      by (auto simp: DecodeStrictObjectHeader_def Let_def split: if_splits)
    note rd = readStrictUnsigned_back [OF n, of ?tail]
    have "take n data = [data ! 0, data ! 1, data ! 2] @ put_le ?n (shCount h)"
      using split2 [of ?n] h(2) t3 rd h(1,3) by simp
    moreover have "fits_width (shCount h) ?n" using rd h(1,3) by simp
    moreover have "n \<le> length data" "3 \<le> n" using h(2,3) len by auto
    ultimately show ?thesis
      using strictRangeCount enc h(4-6) d hd(3) by (simp add: header_canonical_def)
  qed
qed

definition strict_header_valid :: "StrictObjectHeader \<Rightarrow> bool" where
  "strict_header_valid h \<longleftrightarrow> is_ok (EncodeStrictObjectHeader h) \<and> header_canonical h"

definition strict_header_bytes :: "StrictObjectHeader \<Rightarrow> bytes" where
  "strict_header_bytes h = (case EncodeStrictObjectHeader h of Inr w \<Rightarrow> w | Inl _ \<Rightarrow> [])"

interpretation strict_header_codec:
  prefix_codec strict_header_valid strict_header_bytes DecodeStrictObjectHeader
  by unfold_locales
    (auto simp: strict_header_valid_def strict_header_bytes_def Decode_EncodeStrictObjectHeader
      split: sum.split)

section \<open>Properties\<close>

text \<open>
  Encoding and decoding strict fragments are inverse to each other under every size
  limit: the decoder accepts exactly the encodings of the fragments within the limit whose
  indications are set in responses only, and returns the fragment that was encoded.
\<close>

theorem strict_fragment_codec:
  "DecodeStrictFragment w m = Inr f \<longleftrightarrow> EncodeStrictFragment f m = Inr w \<and> fragment_ok f"
  using DecodeStrictFragment_iff EncodeStrictFragment_iff by blast

text \<open>
  Encoding and decoding strict object headers are inverse to each other: the decoder
  reads a header off the front of its input and reports its length exactly when the bytes
  read are the encoding of that header and the fields its qualifier does not use are zero.
  So ranges never run backwards, counts are never zero and values always fit their width.
\<close>

theorem strict_header_iff:
  "DecodeStrictObjectHeader data = Inr (h, n) \<longleftrightarrow>
    n \<le> length data \<and> EncodeStrictObjectHeader h = Inr (take n data) \<and> header_canonical h"
proof
  assume "DecodeStrictObjectHeader data = Inr (h, n)"
  then show "n \<le> length data \<and> EncodeStrictObjectHeader h = Inr (take n data) \<and> header_canonical h"
    by (blast dest: DecodeStrictObjectHeader_OkD)
next
  assume "n \<le> length data \<and> EncodeStrictObjectHeader h = Inr (take n data) \<and> header_canonical h"
  then show "DecodeStrictObjectHeader data = Inr (h, n)"
    using Decode_EncodeStrictObjectHeader [of h "take n data" "drop n data"] by (simp add: min_absorb2)
qed

end
