(* ===== verification/App_Strict_Measurement.thy ===== *)
theory App_Strict_Measurement
  imports App_Strict_Codec
begin

text \<open>
  The strict codec of measurements (\<open>pkg/app/strict_measurement.go\<close>): points, whose payload the
  group and variation determine, and object blocks, a header with all its points. Floats are bit
  patterns, an instant is its number of nanoseconds since the Unix epoch. The theory proves that
  encoding and decoding are inverse to each other for points, blocks and sequences of blocks, and
  that what is decoded has the type its variation announces.
\<close>

unbundle bit_operations_syntax

section \<open>Points and formats\<close>

text \<open>The dynamic types of a point's value; every other one, nil included, is \<open>OtherValue\<close>.\<close>

datatype strict_value =
    BoolValue bool
  | Uint8Value byte
  | Uint32Value u32
  | Int16Value u16
  | Int32Value u32
  | Float32Value u32
  | Float64Value u64
  | BytesValue bytes
  | OtherValue

record StrictPoint =
  spGroup :: byte
  spVariation :: byte
  spIndex :: u32
  spValue :: strict_value
  spQuality :: byte
  spTimestamp :: "int option"

record StrictObjectBlock =
  sbHeader :: StrictObjectHeader
  sbPoints :: "StrictPoint list"

datatype strictValueKind =
    strictBinary | strictDoubleBinary | strictUnsigned | strictInt16 | strictInt32
  | strictFloat32 | strictFloat64 | strictOctets

record strictValueFormat =
  vfKind :: strictValueKind
  vfWidth :: nat
  vfQuality :: bool
  vfTimestamp :: bool

text \<open>The exported kinds and format have the same shape.\<close>

datatype StrictValueKind =
    StrictValueBinary | StrictValueDoubleBinary | StrictValueUnsigned | StrictValueInt16
  | StrictValueInt32 | StrictValueFloat32 | StrictValueFloat64 | StrictValueOctets

record StrictPointFormat =
  pfKind :: StrictValueKind
  pfWidth :: nat
  pfHasQuality :: bool
  pfHasTime :: bool

datatype point_err =
    UnsupportedObject byte byte
  | UnsupportedCounter byte
  | UnsupportedFrozenCounter byte
  | UnsupportedAnalog byte
  | UnsupportedAnalogOutput byte
  | WrongValue strictValueKind
  | QualityHasState strictValueKind
  | EncodingCounter object_err
  | TimestampMissing
  | TimestampUnexpected
  | TimeOutOfRange
  | TimeTruncated
  | PointTruncated
  | NotFinite

definition value_format :: "strictValueKind \<Rightarrow> nat \<Rightarrow> bool \<Rightarrow> bool \<Rightarrow> point_err + strictValueFormat" where
  "value_format kind width quality timestamp =
     Inr \<lparr>vfKind = kind, vfWidth = width, vfQuality = quality, vfTimestamp = timestamp\<rparr>"

definition strictCounterFormat :: "byte \<Rightarrow> bool \<Rightarrow> point_err + strictValueFormat" where
  "strictCounterFormat variation timed =
     (if variation = 1 then value_format strictUnsigned 4 True False
      else if variation = 2 then value_format strictUnsigned 2 True False
      else if variation = 5
      then (if timed then value_format strictUnsigned 4 True True
            else value_format strictUnsigned 4 False False)
      else if variation = 6
      then (if timed then value_format strictUnsigned 2 True True
            else value_format strictUnsigned 2 False False)
      else Inl (UnsupportedCounter variation))"

definition strictFrozenCounterFormat :: "byte \<Rightarrow> point_err + strictValueFormat" where
  "strictFrozenCounterFormat variation =
     (if variation = 1 then value_format strictUnsigned 4 True False
      else if variation = 2 then value_format strictUnsigned 2 True False
      else if variation = 5 then value_format strictUnsigned 4 True True
      else if variation = 6 then value_format strictUnsigned 2 True True
      else if variation = 9 then value_format strictUnsigned 4 False False
      else if variation = 10 then value_format strictUnsigned 2 False False
      else Inl (UnsupportedFrozenCounter variation))"

definition strictAnalogFormat :: "byte \<Rightarrow> bool \<Rightarrow> point_err + strictValueFormat" where
  "strictAnalogFormat variation event =
     (let timed = (event \<and> (variation = 3 \<or> variation = 4 \<or> variation = 7 \<or> variation = 8)) in
      if variation = 1 \<or> variation = 3
      then value_format strictInt32 4 (variation \<noteq> 3 \<or> event) timed
      else if variation = 2 \<or> variation = 4
      then value_format strictInt16 2 (variation \<noteq> 4 \<or> event) timed
      else if variation = 5 \<or> variation = 7
      then (if \<not> event \<and> variation = 7 then Inl (UnsupportedAnalog variation)
            else value_format strictFloat32 4 True timed)
      else if variation = 6 \<or> variation = 8
      then (if \<not> event \<and> variation = 8 then Inl (UnsupportedAnalog variation)
            else value_format strictFloat64 8 True timed)
      else Inl (UnsupportedAnalog variation))"

definition strictAnalogOutputFormat :: "byte \<Rightarrow> point_err + strictValueFormat" where
  "strictAnalogOutputFormat variation =
     (if variation = 1 then value_format strictInt32 4 True False
      else if variation = 2 then value_format strictInt16 2 True False
      else if variation = 3 then value_format strictFloat32 4 True False
      else if variation = 4 then value_format strictFloat64 8 True False
      else Inl (UnsupportedAnalogOutput variation))"

definition strictPointFormat :: "byte \<Rightarrow> byte \<Rightarrow> point_err + strictValueFormat" where
  "strictPointFormat grp variation =
     (let unsupported = Inl (UnsupportedObject grp variation) in
      if grp = 1 \<or> grp = 10
      then (if variation = 2 then value_format strictBinary 0 True False else unsupported)
      else if grp = 2 \<or> grp = 11
      then (if variation = 1 \<or> variation = 2 then value_format strictBinary 0 True (variation = 2)
            else unsupported)
      else if grp = 3
      then (if variation = 2 then value_format strictDoubleBinary 0 True False else unsupported)
      else if grp = 4
      then (if variation = 1 \<or> variation = 2 then value_format strictDoubleBinary 0 True (variation = 2)
            else unsupported)
      else if grp = 20 then strictCounterFormat variation False
      else if grp = 21 then strictFrozenCounterFormat variation
      else if grp = 22 \<or> grp = 23 then strictCounterFormat variation True
      else if grp = 30 then strictAnalogFormat variation False
      else if grp = 32 \<or> grp = 42 then strictAnalogFormat variation True
      else if grp = 40 then strictAnalogOutputFormat variation
      else if grp = 110 \<or> grp = 111
      then (if variation \<noteq> 0 then value_format strictOctets (unat variation) False False
            else unsupported)
      else unsupported)"

definition StrictValueKind_of :: "strictValueKind \<Rightarrow> StrictValueKind" where
  "StrictValueKind_of kind =
     (case kind of
        strictBinary \<Rightarrow> StrictValueBinary
      | strictDoubleBinary \<Rightarrow> StrictValueDoubleBinary
      | strictUnsigned \<Rightarrow> StrictValueUnsigned
      | strictInt16 \<Rightarrow> StrictValueInt16
      | strictInt32 \<Rightarrow> StrictValueInt32
      | strictFloat32 \<Rightarrow> StrictValueFloat32
      | strictFloat64 \<Rightarrow> StrictValueFloat64
      | strictOctets \<Rightarrow> StrictValueOctets)"

definition DescribeStrictPoint :: "byte \<Rightarrow> byte \<Rightarrow> point_err + StrictPointFormat" where
  "DescribeStrictPoint grp variation =
     (case strictPointFormat grp variation of
        Inl err \<Rightarrow> Inl err
      | Inr f \<Rightarrow> Inr \<lparr>pfKind = StrictValueKind_of (vfKind f), pfWidth = vfWidth f,
                      pfHasQuality = vfQuality f, pfHasTime = vfTimestamp f\<rparr>)"

definition StrictVariationHasTime :: "byte \<Rightarrow> byte \<Rightarrow> bool" where
  "StrictVariationHasTime grp variation =
     (case strictPointFormat grp variation of Inl err \<Rightarrow> False | Inr f \<Rightarrow> vfTimestamp f)"

definition ValidateStrictPointVariation :: "byte \<Rightarrow> byte \<Rightarrow> point_err option" where
  "ValidateStrictPointVariation grp variation =
     (case strictPointFormat grp variation of Inl err \<Rightarrow> Some err | Inr f \<Rightarrow> None)"

definition strictSelectorObject :: "byte \<Rightarrow> byte \<Rightarrow> bool" where
  "strictSelectorObject grp variation \<longleftrightarrow> grp = 60 \<and> variation \<ge> 1 \<and> variation \<le> 4"

definition strictPackedObject :: "byte \<Rightarrow> byte \<Rightarrow> bool" where
  "strictPackedObject grp variation \<longleftrightarrow> variation = 1 \<and> (grp = 1 \<or> grp = 3 \<or> grp = 10)"

definition IsStrictPackedObject :: "byte \<Rightarrow> byte \<Rightarrow> bool" where
  "IsStrictPackedObject grp variation = strictPackedObject grp variation"

section \<open>Times\<close>

text \<open>\<open>UnixMilli\<close> rounds down to whole milliseconds.\<close>

definition AppendStrictTime48 :: "bytes \<Rightarrow> int \<Rightarrow> point_err + bytes" where
  "AppendStrictTime48 destination t =
     (let milliseconds = t div 1000000 in
      if milliseconds < 0 \<or> milliseconds > 2 ^ 48 - 1 then Inl TimeOutOfRange
      else Inr (destination @ put_le 6 (of_int milliseconds :: u64)))"

definition DecodeStrictTime48 :: "bytes \<Rightarrow> point_err + int" where
  "DecodeStrictTime48 data =
     (if length data < 6 then Inl TimeTruncated
      else let milliseconds = get_le (take 6 data) :: u64 in Inr (sint milliseconds * 1000000))"

section \<open>Encoding and decoding points\<close>

text \<open>Neither a NaN nor an infinity: the exponent is not all ones.\<close>

definition finite32 :: "u32 \<Rightarrow> bool" where
  "finite32 b \<longleftrightarrow> b AND 0x7F800000 \<noteq> 0x7F800000"

definition finite64 :: "u64 \<Rightarrow> bool" where
  "finite64 b \<longleftrightarrow> b AND 0x7FF0000000000000 \<noteq> 0x7FF0000000000000"

definition leading_quality :: "strictValueFormat \<Rightarrow> bool" where
  "leading_quality f \<longleftrightarrow> vfQuality f \<and> vfKind f \<noteq> strictBinary \<and> vfKind f \<noteq> strictDoubleBinary"

definition encode_value :: "strictValueFormat \<Rightarrow> byte \<Rightarrow> strict_value \<Rightarrow> bytes \<Rightarrow> point_err + bytes" where
  "encode_value f quality val result =
     (case vfKind f of
        strictBinary \<Rightarrow>
          (case val of
             BoolValue b \<Rightarrow>
               if quality AND 0x80 \<noteq> 0 then Inl (QualityHasState strictBinary)
               else Inr (result @ [if b then quality OR 0x80 else quality])
           | _ \<Rightarrow> Inl (WrongValue strictBinary))
      | strictDoubleBinary \<Rightarrow>
          (case val of
             Uint8Value v \<Rightarrow>
               if v > 3 then Inl (WrongValue strictDoubleBinary)
               else if quality AND 0xC0 \<noteq> 0 then Inl (QualityHasState strictDoubleBinary)
               else Inr (result @ [quality OR push_bit 6 v])
           | _ \<Rightarrow> Inl (WrongValue strictDoubleBinary))
      | strictUnsigned \<Rightarrow>
          (case val of
             Uint32Value v \<Rightarrow>
               (case appendStrictUnsigned result v (vfWidth f) of
                  Inl err \<Rightarrow> Inl (EncodingCounter err)
                | Inr r \<Rightarrow> Inr r)
           | _ \<Rightarrow> Inl (WrongValue strictUnsigned))
      | strictInt16 \<Rightarrow>
          (case val of Int16Value v \<Rightarrow> Inr (result @ put_le 2 v) | _ \<Rightarrow> Inl (WrongValue strictInt16))
      | strictInt32 \<Rightarrow>
          (case val of Int32Value v \<Rightarrow> Inr (result @ put_le 4 v) | _ \<Rightarrow> Inl (WrongValue strictInt32))
      | strictFloat32 \<Rightarrow>
          (case val of
             Float32Value v \<Rightarrow>
               if \<not> finite32 v then Inl (WrongValue strictFloat32) else Inr (result @ put_le 4 v)
           | _ \<Rightarrow> Inl (WrongValue strictFloat32))
      | strictFloat64 \<Rightarrow>
          (case val of
             Float64Value v \<Rightarrow>
               if \<not> finite64 v then Inl (WrongValue strictFloat64) else Inr (result @ put_le 8 v)
           | _ \<Rightarrow> Inl (WrongValue strictFloat64))
      | strictOctets \<Rightarrow>
          (case val of
             BytesValue v \<Rightarrow>
               if length v \<noteq> vfWidth f then Inl (WrongValue strictOctets) else Inr (result @ v)
           | _ \<Rightarrow> Inl (WrongValue strictOctets)))"

definition EncodeStrictPoint :: "StrictPoint \<Rightarrow> point_err + bytes" where
  "EncodeStrictPoint point =
     (case strictPointFormat (spGroup point) (spVariation point) of
        Inl err \<Rightarrow> Inl err
      | Inr f \<Rightarrow>
          (case encode_value f (spQuality point) (spValue point)
                  (if leading_quality f then [spQuality point] else []) of
             Inl err \<Rightarrow> Inl err
           | Inr result \<Rightarrow>
               if vfTimestamp f
               then (case spTimestamp point of
                       None \<Rightarrow> Inl TimestampMissing
                     | Some t \<Rightarrow> AppendStrictTime48 result t)
               else (case spTimestamp point of
                       None \<Rightarrow> Inr result
                     | Some _ \<Rightarrow> Inl TimestampUnexpected)))"

text \<open>The value, the quality and the next offset; \<open>quality\<close> is the one read in front of it.\<close>

definition decode_value ::
  "strictValueFormat \<Rightarrow> bytes \<Rightarrow> byte \<Rightarrow> nat \<Rightarrow> point_err + strict_value \<times> byte \<times> nat" where
  "decode_value f data quality offset =
     (case vfKind f of
        strictBinary \<Rightarrow>
          Inr (BoolValue (data ! offset AND 0x80 \<noteq> 0), data ! offset AND 0x7F, offset + 1)
      | strictDoubleBinary \<Rightarrow>
          Inr (Uint8Value (drop_bit 6 (data ! offset)), data ! offset AND 0x3F, offset + 1)
      | strictUnsigned \<Rightarrow>
          Inr (Uint32Value (readStrictUnsigned (drop offset data) (vfWidth f)), quality, offset + vfWidth f)
      | strictInt16 \<Rightarrow> Inr (Int16Value (get_le (take 2 (drop offset data))), quality, offset + 2)
      | strictInt32 \<Rightarrow> Inr (Int32Value (get_le (take 4 (drop offset data))), quality, offset + 4)
      | strictFloat32 \<Rightarrow>
          (let v = get_le (take 4 (drop offset data)) in
           if \<not> finite32 v then Inl NotFinite else Inr (Float32Value v, quality, offset + 4))
      | strictFloat64 \<Rightarrow>
          (let v = get_le (take 8 (drop offset data)) in
           if \<not> finite64 v then Inl NotFinite else Inr (Float64Value v, quality, offset + 8))
      | strictOctets \<Rightarrow> Inr (BytesValue (take (vfWidth f) (drop offset data)), quality, offset + vfWidth f))"

definition point_size :: "strictValueFormat \<Rightarrow> nat" where
  "point_size f = vfWidth f + (if vfQuality f then 1 else 0) + (if vfTimestamp f then 6 else 0)"

definition DecodeStrictPoint :: "byte \<Rightarrow> byte \<Rightarrow> bytes \<Rightarrow> point_err + StrictPoint \<times> nat" where
  "DecodeStrictPoint grp variation data =
     (case strictPointFormat grp variation of
        Inl err \<Rightarrow> Inl err
      | Inr f \<Rightarrow>
          if length data < point_size f then Inl PointTruncated
          else
            (let quality = (if leading_quality f then data ! 0 else 0);
                 offset = (if leading_quality f then 1 else 0)
             in case decode_value f data quality offset of
                  Inl err \<Rightarrow> Inl err
                | Inr (val, quality1, offset1) \<Rightarrow>
                    (let point = \<lparr>spGroup = grp, spVariation = variation, spIndex = 0, spValue = val,
                                  spQuality = quality1, spTimestamp = None\<rparr>
                     in if vfTimestamp f
                        then (case DecodeStrictTime48 (take 6 (drop offset1 data)) of
                                Inl err \<Rightarrow> Inl err
                              | Inr t \<Rightarrow> Inr (point\<lparr>spTimestamp := Some t\<rparr>, offset1 + 6))
                        else Inr (point, offset1))))"

section \<open>Encoding and decoding blocks\<close>

datatype block_err =
    BlockHeader object_err
  | PointCountDiffers
  | SizePrefixUnsupported
  | UnsupportedSelector
  | PackedWithPrefix
  | PointDiffers nat
  | PointIndexDiffers nat
  | EncodingIndex nat object_err
  | EncodingPoint nat point_err
  | PackedDiffers nat
  | PackedQuality nat
  | PackedValue nat
  | LimitNotPositive
  | PointLimitExceeded
  | BlockLimitExceeded
  | PrefixTruncated
  | DecodingPoint nat point_err
  | PackedTruncated
  | PaddingNotZero
  | NoProgress
  | DecodingBlock nat block_err

definition strictHeaderCount :: "StrictObjectHeader \<Rightarrow> strictQualifier \<Rightarrow> object_err + nat" where
  "strictHeaderCount header descriptor =
     (case sqKind descriptor of
        strictRangeAll \<Rightarrow> Inr 0
      | strictRangeStartStop \<Rightarrow>
          if shStop header < shStart header then Inl StopBelowStart
          else Inr (unat (shStop header) - unat (shStart header) + 1)
      | strictRangeCount \<Rightarrow>
          if shCount header = 0 then Inl CountZero else Inr (unat (shCount header)))"

definition packed_bits :: "StrictObjectHeader \<Rightarrow> nat" where
  "packed_bits header = (if shGroup header = 3 then 2 else 1)"

fun encode_packed ::
  "StrictObjectHeader \<Rightarrow> nat \<Rightarrow> StrictPoint list \<Rightarrow> bytes \<Rightarrow> block_err + bytes" where
  "encode_packed header index [] result = Inr result"
| "encode_packed header index (point # points) result =
     (if spGroup point \<noteq> shGroup header \<or> spVariation point \<noteq> shVariation header
         \<or> spIndex point \<noteq> shStart header + of_nat index
      then Inl (PackedDiffers index)
      else if spQuality point \<noteq> 0 \<or> spTimestamp point \<noteq> None then Inl (PackedQuality index)
      else
        (let bitOffset = index * packed_bits header;
             set_bits = (\<lambda>v. result[bitOffset div 8 := result ! (bitOffset div 8) OR push_bit (bitOffset mod 8) v])
         in if packed_bits header = 1
            then (case spValue point of
                    BoolValue b \<Rightarrow>
                      encode_packed header (index + 1) points (if b then set_bits 1 else result)
                  | _ \<Rightarrow> Inl (PackedValue index))
            else (case spValue point of
                    Uint8Value v \<Rightarrow>
                      if v > 3 then Inl (PackedValue index)
                      else encode_packed header (index + 1) points (set_bits v)
                  | _ \<Rightarrow> Inl (PackedValue index))))"

definition encodeStrictPackedPoints :: "StrictObjectHeader \<Rightarrow> StrictPoint list \<Rightarrow> block_err + bytes" where
  "encodeStrictPackedPoints header points =
     encode_packed header 0 points (replicate ((length points * packed_bits header + 7) div 8) 0)"

fun encode_points ::
  "StrictObjectHeader \<Rightarrow> strictQualifier \<Rightarrow> nat \<Rightarrow> StrictPoint list \<Rightarrow> bytes \<Rightarrow> block_err + bytes" where
  "encode_points header descriptor index [] result = Inr result"
| "encode_points header descriptor index (point # points) result =
     (if spGroup point \<noteq> shGroup header \<or> spVariation point \<noteq> shVariation header
      then Inl (PointDiffers index)
      else
        (let expected = (if sqKind descriptor = strictRangeStartStop then shStart header + of_nat index
                         else of_nat index)
         in case (if sqPrefixWidth descriptor = 0
                  then (if spIndex point \<noteq> expected then Inl (PointIndexDiffers index) else Inr result)
                  else (case appendStrictUnsigned result (spIndex point) (sqPrefixWidth descriptor) of
                          Inl err \<Rightarrow> Inl (EncodingIndex index err)
                        | Inr r \<Rightarrow> Inr r)) of
              Inl err \<Rightarrow> Inl err
            | Inr result1 \<Rightarrow>
                (case EncodeStrictPoint point of
                   Inl err \<Rightarrow> Inl (EncodingPoint index err)
                 | Inr encoded \<Rightarrow>
                     encode_points header descriptor (index + 1) points (result1 @ encoded))))"

definition EncodeStrictObjectBlock :: "StrictObjectBlock \<Rightarrow> block_err + bytes" where
  "EncodeStrictObjectBlock block =
     (let header = sbHeader block; points = sbPoints block in
      case decodeStrictQualifier (shQualifier header) of
        Inl err \<Rightarrow> Inl (BlockHeader err)
      | Inr descriptor \<Rightarrow>
          (case strictHeaderCount header descriptor of
             Inl err \<Rightarrow> Inl (BlockHeader err)
           | Inr count \<Rightarrow>
               if length points \<noteq> count then Inl PointCountDiffers
               else if sqSizePrefix descriptor then Inl SizePrefixUnsupported
               else
                 (case EncodeStrictObjectHeader header of
                    Inl err \<Rightarrow> Inl (BlockHeader err)
                  | Inr result \<Rightarrow>
                      if count = 0
                      then (if \<not> strictSelectorObject (shGroup header) (shVariation header)
                            then Inl UnsupportedSelector else Inr result)
                      else if strictPackedObject (shGroup header) (shVariation header)
                      then (if sqPrefixWidth descriptor \<noteq> 0 then Inl PackedWithPrefix
                            else (case encodeStrictPackedPoints header points of
                                    Inl err \<Rightarrow> Inl err
                                  | Inr packed \<Rightarrow> Inr (result @ packed)))
                      else encode_points header descriptor 0 points result)))"

definition decodeStrictPackedPoints ::
  "StrictObjectHeader \<Rightarrow> bytes \<Rightarrow> nat \<Rightarrow> block_err + StrictPoint list \<times> nat" where
  "decodeStrictPackedPoints header data count =
     (let bits = packed_bits header;
          byteCount = (count * bits + 7) div 8
      in if length data < byteCount then Inl PackedTruncated
         else
           (let point = (\<lambda>index.
                  let bitOffset = index * bits; b = data ! (bitOffset div 8); s = bitOffset mod 8 in
                  \<lparr>spGroup = shGroup header, spVariation = shVariation header,
                   spIndex = shStart header + of_nat index,
                   spValue = (if bits = 1 then BoolValue (b AND push_bit s 1 \<noteq> 0)
                              else Uint8Value (drop_bit s b AND 3)),
                   spQuality = 0, spTimestamp = None\<rparr>);
                points = map point [0..<count];
                unused = byteCount * 8 - count * bits
            in if unused > 0 \<and> drop_bit (8 - unused) (data ! (byteCount - 1)) \<noteq> 0
               then Inl PaddingNotZero
               else Inr (points, byteCount)))"

text \<open>\<open>left\<close> more points, the next is number \<open>index\<close> at \<open>offset\<close>.\<close>

fun decode_points ::
  "StrictObjectHeader \<Rightarrow> strictQualifier \<Rightarrow> bytes \<Rightarrow> nat \<Rightarrow> nat \<Rightarrow> nat \<Rightarrow> StrictPoint list
    \<Rightarrow> block_err + StrictPoint list \<times> nat" where
  "decode_points header descriptor data 0 index offset points = Inr (points, offset)"
| "decode_points header descriptor data (Suc left) index offset points =
     (case (if sqKind descriptor = strictRangeStartStop then Inr (shStart header + of_nat index, offset)
            else if sqPrefixWidth descriptor \<noteq> 0
            then (if length data - offset < sqPrefixWidth descriptor then Inl PrefixTruncated
                  else Inr (readStrictUnsigned (drop offset data) (sqPrefixWidth descriptor),
                            offset + sqPrefixWidth descriptor))
            else Inr (of_nat index, offset)) of
        Inl err \<Rightarrow> Inl err
      | Inr (pointIndex, offset1) \<Rightarrow>
          (case DecodeStrictPoint (shGroup header) (shVariation header) (drop offset1 data) of
             Inl err \<Rightarrow> Inl (DecodingPoint index err)
           | Inr (point, consumed) \<Rightarrow>
               decode_points header descriptor data left (index + 1) (offset1 + consumed)
                 (points @ [point\<lparr>spIndex := pointIndex\<rparr>])))"

definition DecodeStrictObjectBlock :: "bytes \<Rightarrow> int \<Rightarrow> block_err + StrictObjectBlock \<times> nat" where
  "DecodeStrictObjectBlock data maximumPoints =
     (if maximumPoints < 1 then Inl LimitNotPositive
      else
        (case DecodeStrictObjectHeader data of
           Inl err \<Rightarrow> Inl (BlockHeader err)
         | Inr (header, offset) \<Rightarrow>
             (case decodeStrictQualifier (shQualifier header) of
                Inl err \<Rightarrow> Inl (BlockHeader err)
              | Inr descriptor \<Rightarrow>
                  if sqSizePrefix descriptor then Inl SizePrefixUnsupported
                  else
                    (case strictHeaderCount header descriptor of
                       Inl err \<Rightarrow> Inl (BlockHeader err)
                     | Inr count \<Rightarrow>
                         if count = 0
                         then (if \<not> strictSelectorObject (shGroup header) (shVariation header)
                               then Inl UnsupportedSelector
                               else Inr (\<lparr>sbHeader = header, sbPoints = []\<rparr>, offset))
                         else if int count > maximumPoints then Inl PointLimitExceeded
                         else if strictPackedObject (shGroup header) (shVariation header)
                         then (if sqPrefixWidth descriptor \<noteq> 0 then Inl PackedWithPrefix
                               else (case decodeStrictPackedPoints header (drop offset data) count of
                                       Inl err \<Rightarrow> Inl err
                                     | Inr (points, consumed) \<Rightarrow>
                                         Inr (\<lparr>sbHeader = header, sbPoints = points\<rparr>, offset + consumed)))
                         else (case decode_points header descriptor data count 0 offset [] of
                                 Inl err \<Rightarrow> Inl err
                               | Inr (points, offset1) \<Rightarrow>
                                   Inr (\<lparr>sbHeader = header, sbPoints = points\<rparr>, offset1))))))"

text \<open>The loop over the blocks: \<open>blocks\<close> so far, \<open>data\<close> still to decode.\<close>

function decode_blocks ::
  "int \<Rightarrow> int \<Rightarrow> bytes \<Rightarrow> StrictObjectBlock list \<Rightarrow> int \<Rightarrow> block_err + StrictObjectBlock list" where
  "decode_blocks maximumPoints maximumBlocks data blocks pointCount =
     (if data = [] then Inr blocks
      else if int (length blocks) = maximumBlocks then Inl BlockLimitExceeded
      else (case DecodeStrictObjectBlock data (maximumPoints - pointCount) of
              Inl err \<Rightarrow> Inl (DecodingBlock (length blocks) err)
            | Inr (block, consumed) \<Rightarrow>
                if consumed = 0 then Inl NoProgress
                else decode_blocks maximumPoints maximumBlocks (drop consumed data) (blocks @ [block])
                       (pointCount + int (length (sbPoints block)))))"
  by pat_completeness auto
termination decode_blocks
  by (relation "measure (\<lambda>(mp, mb, data, bs, n). length data)") auto

declare decode_blocks.simps [simp del]

definition DecodeStrictObjectBlocks :: "bytes \<Rightarrow> int \<Rightarrow> int \<Rightarrow> block_err + StrictObjectBlock list" where
  "DecodeStrictObjectBlocks data maximumPoints maximumBlocks =
     (if maximumPoints < 1 \<or> maximumBlocks < 1 then Inl LimitNotPositive
      else decode_blocks maximumPoints maximumBlocks data [] 0)"

section \<open>Points survive\<close>

definition format_ok :: "strictValueFormat \<Rightarrow> bool" where
  "format_ok f \<longleftrightarrow>
     (case vfKind f of
        strictBinary \<Rightarrow> vfWidth f = 0 \<and> vfQuality f
      | strictDoubleBinary \<Rightarrow> vfWidth f = 0 \<and> vfQuality f
      | strictUnsigned \<Rightarrow> vfWidth f = 2 \<or> vfWidth f = 4
      | strictInt16 \<Rightarrow> vfWidth f = 2
      | strictInt32 \<Rightarrow> vfWidth f = 4
      | strictFloat32 \<Rightarrow> vfWidth f = 4
      | strictFloat64 \<Rightarrow> vfWidth f = 8
      | strictOctets \<Rightarrow> 0 < vfWidth f \<and> \<not> vfQuality f \<and> \<not> vfTimestamp f)"

lemma strictPointFormat_ok:
  assumes "strictPointFormat grp variation = Inr f"
  shows "format_ok f"
  using assms
  by (auto simp: strictPointFormat_def strictCounterFormat_def strictFrozenCounterFormat_def
      strictAnalogFormat_def strictAnalogOutputFormat_def value_format_def format_ok_def Let_def
      unat_gt_0 split: if_splits)

definition body_size :: "strictValueFormat \<Rightarrow> nat" where
  "body_size f = vfWidth f + (if vfKind f = strictBinary \<or> vfKind f = strictDoubleBinary then 1 else 0)"

lemma point_size_parts:
  "format_ok f \<Longrightarrow> point_size f
    = (if leading_quality f then 1 else 0) + body_size f + (if vfTimestamp f then 6 else 0)"
  by (auto simp: format_ok_def point_size_def leading_quality_def body_size_def split: strictValueKind.splits)

lemma bind_err_iff:
  "(case r of Inl e \<Rightarrow> Inl (g e) | Inr x \<Rightarrow> h x) = Inr y \<longleftrightarrow> (\<exists>x. r = Inr x \<and> h x = Inr y)"
  by (cases r) auto

lemma encode_value_append:
  "encode_value f q val r = Inr r' \<longleftrightarrow> (\<exists>b. encode_value f q val [] = Inr b \<and> r' = r @ b)"
  by (auto simp: encode_value_def appendStrictUnsigned_iff bind_err_iff
      split: strictValueKind.split strict_value.split)

lemma encode_value_length:
  "format_ok f \<Longrightarrow> encode_value f q val [] = Inr b \<Longrightarrow> length b = body_size f"
  by (auto simp: encode_value_def format_ok_def body_size_def appendStrictUnsigned_iff bind_err_iff
      split: strictValueKind.splits strict_value.splits if_splits)

lemma state_bits:
  fixes x q v :: byte
  shows "q AND 0x80 = 0 \<Longrightarrow> (q OR 0x80) AND 0x80 \<noteq> 0 \<and> (q OR 0x80) AND 0x7F = q \<and> q AND 0x7F = q"
    and "q AND 0xC0 = 0 \<Longrightarrow> v \<le> 3 \<Longrightarrow> drop_bit 6 (q OR push_bit 6 v) = v \<and> (q OR push_bit 6 v) AND 0x3F = q"
    and "x AND 0x80 \<noteq> 0 \<Longrightarrow> (x AND 0x7F) OR 0x80 = x"
    and "x AND 0x80 = 0 \<Longrightarrow> x AND 0x7F = x"
    and "(x AND 0x3F) OR push_bit 6 (drop_bit 6 x) = x"
    and "drop_bit 6 x \<le> 3" and "(x AND 0x3F) AND 0xC0 = 0" and "(x AND 0x7F) AND 0x80 = 0"
proof -
  show "q AND 0x80 = 0 \<Longrightarrow> (q OR 0x80) AND 0x80 \<noteq> 0 \<and> (q OR 0x80) AND 0x7F = q \<and> q AND 0x7F = q"
    by (auto simp: byte_eq_iff bit_simps)
  show "q AND 0xC0 = 0 \<Longrightarrow> v \<le> 3 \<Longrightarrow> drop_bit 6 (q OR push_bit 6 v) = v \<and> (q OR push_bit 6 v) AND 0x3F = q"
  proof -
    assume q: "q AND 0xC0 = 0" and "v \<le> 3"
    then have "unat v < 2 ^ 2" by (simp add: word_le_nat_alt)
    then have "take_bit 2 v = v"
      by (simp add: word_unat_eq_iff unsigned_take_bit_eq take_bit_nat_eq_self)
    then have "\<not> bit v n" if "2 \<le> n" for n using that by (metis bit_take_bit_iff not_less)
    then show ?thesis using q by (auto simp: byte_eq_iff bit_simps dest: bit_imp_le_length)
  qed
  show "drop_bit 6 x \<le> 3"
  proof -
    have "unat (drop_bit 6 x) = drop_bit 6 (unat x)" by (rule unat_drop_bit_eq)
    also have "\<dots> = unat x div 64" by (simp add: drop_bit_eq_div)
    also have "\<dots> < 4" using unat_lt_256 [of x] by (simp only: less_mult_imp_div_less)
    finally show ?thesis by (simp add: word_le_nat_alt)
  qed
qed (auto simp: byte_eq_iff bit_simps)

lemma decode_encode_value:
  assumes "format_ok f" and "encode_value f q val [] = Inr b"
  shows "decode_value f (pre @ b @ rest) q0 (length pre)
    = Inr (val, if vfKind f = strictBinary \<or> vfKind f = strictDoubleBinary then q else q0, length pre + length b)"
  using assms
  by (cases "vfKind f"; cases val)
    (auto simp: decode_value_def encode_value_def format_ok_def appendStrictUnsigned_iff bind_err_iff
      readStrictUnsigned_put get_put_le_full state_bits not_less Let_def
      split: if_splits simp del: put_le.simps drop_bit_or)

lemma encode_decode_value:
  assumes "format_ok f" and "decode_value f data q0 off = Inr (val, q, off')"
    and "off + body_size f \<le> length data"
  shows "off' = off + body_size f"
    and "encode_value f q val [] = Inr (take (body_size f) (drop off data))"
    and "vfKind f = strictBinary \<or> vfKind f = strictDoubleBinary \<or> q = q0"
proof -
  have one: "take (Suc 0) (drop off data) = [data ! off]" if "Suc off \<le> length data"
    using that by (simp add: take_Suc_conv_app_nth)
  have le: "put_le n (get_le (take n (drop off data)) :: 'a::len word) = take n (drop off data)"
    if "off + n \<le> length data" "8 * n \<le> LENGTH('a)" for n
    using put_get_le [of "take n (drop off data)", where 'a = 'a] that by simp
  have "off' = off + body_size f \<and> encode_value f q val [] = Inr (take (body_size f) (drop off data))
    \<and> (vfKind f = strictBinary \<or> vfKind f = strictDoubleBinary \<or> q = q0)"
    using assms
    by (cases "vfKind f")
      (auto simp: decode_value_def encode_value_def format_ok_def body_size_def Let_def
        appendStrictUnsigned_iff bind_err_iff readStrictUnsigned_back one le state_bits not_less
        split: if_splits simp del: put_le.simps)
  then show "off' = off + body_size f"
    and "encode_value f q val [] = Inr (take (body_size f) (drop off data))"
    and "vfKind f = strictBinary \<or> vfKind f = strictDoubleBinary \<or> q = q0" by blast+
qed

lemma word48:
  fixes w :: u64
  assumes "take_bit 48 w = w"
  shows "0 \<le> sint w" and "sint w < 2 ^ 48"
proof -
  have "uint w = take_bit 48 (uint w)" using assms by (metis unsigned_take_bit_eq)
  then have "uint w < 2 ^ 48" by (metis take_bit_int_less_exp)
  moreover from this have "sint w = uint w"
    unfolding sint_uint by (intro signed_take_bit_int_eq_self) (simp_all add: order_trans [of _ 0])
  ultimately show "0 \<le> sint w" and "sint w < 2 ^ 48" by simp_all
qed

lemma time_append:
  assumes "AppendStrictTime48 d t = Inr r" and "t mod 1000000 = 0"
  shows "\<exists>b. r = d @ b \<and> length b = 6 \<and> DecodeStrictTime48 b = Inr t"
proof -
  obtain ms where t: "t = ms * 1000000" using assms(2) by (metis mult.commute mod_0_imp_dvd dvdE)
  let ?w = "of_int ms :: u64"
  have ms: "0 \<le> ms" "ms < 2 ^ 48" and r: "r = d @ put_le 6 ?w"
    using assms(1) by (auto simp: t AppendStrictTime48_def Let_def split: if_splits)
  have "take_bit 64 ms = ms" using ms by (intro take_bit_int_eq_self) simp_all
  then have u: "uint ?w = ms" using ms by (simp add: unsigned_of_int)
  have "take_bit 48 ms = ms" using ms by (intro take_bit_int_eq_self)
  then have "take_bit 48 ?w = ?w" by (simp only: word_uint_eq_iff unsigned_take_bit_eq u)
  moreover have "sint ?w = ms"
    unfolding sint_uint u using ms by (intro signed_take_bit_int_eq_self) simp_all
  ultimately have "DecodeStrictTime48 (put_le 6 ?w) = Inr t"
    by (simp add: t DecodeStrictTime48_def get_put_le del: put_le.simps)
  with r show ?thesis by simp
qed

lemma time_decode:
  assumes "length b = 6"
  shows "\<exists>t. DecodeStrictTime48 b = Inr t \<and> t mod 1000000 = 0
    \<and> (\<forall>d. AppendStrictTime48 d t = Inr (d @ b))"
proof -
  let ?w = "get_le b :: u64"
  have b: "put_le 6 ?w = b" using put_get_le [of b, where 'a = 64] assms by simp
  then have "take_bit 48 ?w = ?w" using get_put_le [of 6 ?w] by simp
  note w = word48 [OF this]
  have "of_int (sint ?w) = ?w" by simp
  then have "AppendStrictTime48 d (sint ?w * 1000000) = Inr (d @ b)" for d
    using b w by (simp add: AppendStrictTime48_def Let_def del: put_le.simps)
  then show ?thesis using assms by (intro exI [of _ "sint ?w * 1000000"]) (simp add: DecodeStrictTime48_def)
qed

text \<open>
  Points that their encoding determines: the quality is clear where the variation has none, and
  times are whole milliseconds.
\<close>

definition point_canonical :: "StrictPoint \<Rightarrow> bool" where
  "point_canonical p \<longleftrightarrow>
     (case strictPointFormat (spGroup p) (spVariation p) of
        Inl _ \<Rightarrow> False
      | Inr f \<Rightarrow> (vfQuality f \<or> spQuality p = 0)
          \<and> (case spTimestamp p of None \<Rightarrow> True | Some t \<Rightarrow> t mod 1000000 = 0))"

lemma point_index [simp]:
  "EncodeStrictPoint (p\<lparr>spIndex := i\<rparr>) = EncodeStrictPoint p"
  "point_canonical (p\<lparr>spIndex := i\<rparr>) = point_canonical p"
  by (simp_all add: EncodeStrictPoint_def point_canonical_def cong: sum.case_cong if_cong option.case_cong)

lemma EncodeStrictPoint_parts:
  assumes "strictPointFormat (spGroup p) (spVariation p) = Inr f"
  shows "EncodeStrictPoint p = Inr w \<longleftrightarrow>
    (\<exists>b. encode_value f (spQuality p) (spValue p) [] = Inr b
      \<and> (if vfTimestamp f
         then (\<exists>t. spTimestamp p = Some t
           \<and> AppendStrictTime48 ((if leading_quality f then [spQuality p] else []) @ b) t = Inr w)
         else spTimestamp p = None \<and> w = (if leading_quality f then [spQuality p] else []) @ b))"
  using assms
  by (auto simp: EncodeStrictPoint_def bind_Inr_iff encode_value_append [of f _ _ "[spQuality p]"]
      split: option.splits)

lemma Decode_EncodeStrictPoint:
  assumes "EncodeStrictPoint p = Inr w" and "point_canonical p"
  shows "DecodeStrictPoint (spGroup p) (spVariation p) (w @ rest) = Inr (p\<lparr>spIndex := 0\<rparr>, length w)"
proof -
  obtain f where f: "strictPointFormat (spGroup p) (spVariation p) = Inr f"
    and canonical: "vfQuality f \<or> spQuality p = 0" "\<And>t. spTimestamp p = Some t \<Longrightarrow> t mod 1000000 = 0"
    using assms(2) by (fastforce simp: point_canonical_def split: sum.splits)
  note ok = strictPointFormat_ok [OF f]
  let ?pre = "if leading_quality f then [spQuality p] else []"
  obtain b where b: "encode_value f (spQuality p) (spValue p) [] = Inr b"
    and w: "if vfTimestamp f then (\<exists>t. spTimestamp p = Some t \<and> AppendStrictTime48 (?pre @ b) t = Inr w)
      else spTimestamp p = None \<and> w = ?pre @ b"
    using assms(1) EncodeStrictPoint_parts [OF f] by blast
  have "\<exists>tb. w = ?pre @ b @ tb \<and> length tb = (if vfTimestamp f then 6 else 0)
    \<and> (if vfTimestamp f then (\<exists>t. spTimestamp p = Some t \<and> DecodeStrictTime48 tb = Inr t) else spTimestamp p = None)"
    using w time_append canonical(2) by (cases "vfTimestamp f") fastforce+
  then obtain tb where tb: "w = ?pre @ b @ tb" "length tb = (if vfTimestamp f then 6 else 0)"
    "if vfTimestamp f then (\<exists>t. spTimestamp p = Some t \<and> DecodeStrictTime48 tb = Inr t) else spTimestamp p = None"
    by blast
  have size: "length w = point_size f"
    using tb(1,2) encode_value_length [OF ok b] by (simp add: point_size_parts [OF ok])
  let ?q = "if leading_quality f then (w @ rest) ! 0 else 0"
  have "decode_value f (w @ rest) ?q (length ?pre)
    = Inr (spValue p, if vfKind f = strictBinary \<or> vfKind f = strictDoubleBinary then spQuality p else ?q, length ?pre + length b)"
    using decode_encode_value [OF ok b, of ?pre "tb @ rest" ?q] by (simp add: tb(1))
  moreover have "(if vfKind f = strictBinary \<or> vfKind f = strictDoubleBinary then spQuality p else ?q) = spQuality p"
    using canonical(1) by (auto simp: tb(1) leading_quality_def)
  moreover have "take 6 (drop (length ?pre + length b) (w @ rest)) = tb" if "vfTimestamp f"
    using that tb(1,2) by simp
  ultimately show ?thesis
    using f size tb ok
    by (cases p) (auto simp: DecodeStrictPoint_def Let_def split: if_splits)
qed

lemma DecodeStrictPoint_OkD:
  assumes "DecodeStrictPoint g v data = Inr (p, n)"
  shows "spGroup p = g" and "spVariation p = v" and "spIndex p = 0" and "n \<le> length data"
    and "point_canonical p" and "EncodeStrictPoint p = Inr (take n data)" and "0 < n"
proof -
  obtain f where f: "strictPointFormat g v = Inr f"
    using assms by (auto simp: DecodeStrictPoint_def split: sum.splits)
  note ok = strictPointFormat_ok [OF f]
  let ?l = "leading_quality f"
  let ?q = "if ?l then data ! 0 else 0" and ?o = "if ?l then 1 else (0 :: nat)"
  have size: "?o + body_size f + (if vfTimestamp f then 6 else 0) \<le> length data"
    using assms f by (simp add: DecodeStrictPoint_def point_size_parts [OF ok] split: if_splits)
  obtain val q off where d: "decode_value f data ?q ?o = Inr (val, q, off)"
    using assms f by (auto simp: DecodeStrictPoint_def Let_def split: if_splits sum.splits)
  have "?o + body_size f \<le> length data" using size by simp
  note inv = encode_decode_value [OF ok d this]
  let ?body = "take (body_size f) (drop ?o data)"
  let ?pt = "\<lparr>spGroup = g, spVariation = v, spIndex = 0, spValue = val, spQuality = q, spTimestamp = None\<rparr>"
  have quality: "vfQuality f \<or> q = 0" "?l \<Longrightarrow> q = data ! 0"
    using inv(3) ok by (auto simp: leading_quality_def format_ok_def split: strictValueKind.splits)
  have pre: "(if ?l then [q] else []) = take ?o data"
    using quality(2) size by (cases "leading_quality f"; cases data) simp_all
  have body: "take ?o data @ ?body = take off data" unfolding inv(1) by (simp add: take_add)
  have p: "if vfTimestamp f
    then (\<exists>t. DecodeStrictTime48 (take 6 (drop off data)) = Inr t \<and> p = ?pt\<lparr>spTimestamp := Some t\<rparr> \<and> n = off + 6)
    else p = ?pt \<and> n = off"
    using assms f d size by (auto simp: DecodeStrictPoint_def point_size_parts [OF ok] Let_def split: sum.splits if_splits)
  then have sel: "spGroup p = g" "spVariation p = v" "spIndex p = 0" "spValue p = val" "spQuality p = q"
    by (auto split: if_splits)
  then show "spGroup p = g" "spVariation p = v" "spIndex p = 0" by simp_all
  show "n \<le> length data" using p size inv(1) by (auto split: if_splits)
  show "0 < n"
    using p inv(1) ok by (auto simp: format_ok_def body_size_def split: if_splits strictValueKind.splits)
  have parts: "EncodeStrictPoint p = Inr (take n data) \<longleftrightarrow>
    (if vfTimestamp f then (\<exists>t. spTimestamp p = Some t \<and> AppendStrictTime48 (take off data) t = Inr (take n data))
     else spTimestamp p = None \<and> take n data = take off data)"
  proof -
    have f': "strictPointFormat (spGroup p) (spVariation p) = Inr f" by (simp only: sel f)
    have "(if ?l then [q] else []) @ ?body = take off data" by (simp only: pre body)
    then show ?thesis unfolding EncodeStrictPoint_parts [OF f'] by (simp only: sel inv(2) sum.inject simp_thms)
  qed
  have "EncodeStrictPoint p = Inr (take n data) \<and> point_canonical p"
  proof (cases "vfTimestamp f")
    case False
    then show ?thesis using p parts f quality(1) by (auto simp: point_canonical_def)
  next
    case True
    then have "length (take 6 (drop off data)) = 6" using size inv(1) by simp
    from time_decode [OF this] True p show ?thesis
      unfolding parts using f quality(1) by (auto simp: point_canonical_def take_add)
  qed
  then show "point_canonical p" and "EncodeStrictPoint p = Inr (take n data)" by simp_all
qed

section \<open>Runs of points survive\<close>

definition plain_descriptor :: "strictQualifier \<Rightarrow> bool" where
  "plain_descriptor d \<longleftrightarrow> sqPrefixWidth d \<in> {0, 1, 2, 4}
    \<and> (sqKind d \<noteq> strictRangeStartStop \<or> sqPrefixWidth d = 0)"

lemma decodeStrictQualifier_plain: "decodeStrictQualifier q = Inr d \<Longrightarrow> plain_descriptor d"
  using decodeStrictQualifier_width [of q d] by (auto simp: plain_descriptor_def)

lemma point_same_index: "spIndex p = i \<Longrightarrow> p\<lparr>spIndex := i\<rparr> = p"
  by (cases p) simp

lemma decode_encode_points:
  assumes "encode_points h d i ps r = Inr w" and "list_all point_canonical ps" and "plain_descriptor d"
  shows "(\<exists>b. w = r @ b)
    \<and> (\<forall>rest acc. decode_points h d (w @ rest) (length ps) i (length r) acc = Inr (acc @ ps, length w))"
  using assms
proof (induction h d i ps r rule: encode_points.induct)
  case (1 h d i r)
  then show ?case by simp
next
  case (2 h d i p ps r)
  let ?expected = "if sqKind d = strictRangeStartStop then shStart h + of_nat i else of_nat i"
  obtain r1 e where gv: "spGroup p = shGroup h" "spVariation p = shVariation h"
    and r1: "(if sqPrefixWidth d = 0
        then (if spIndex p \<noteq> ?expected then Inl (PointIndexDiffers i) else Inr r)
        else (case appendStrictUnsigned r (spIndex p) (sqPrefixWidth d) of
                Inl err \<Rightarrow> Inl (EncodingIndex i err) | Inr r \<Rightarrow> Inr r)) = Inr r1"
    and e: "EncodeStrictPoint p = Inr e"
    and rec: "encode_points h d (i + 1) ps (r1 @ e) = Inr w"
    using "2.prems"(1) by (auto simp: bind_Inr_iff bind_err_iff split: if_splits)
  obtain b where w: "w = (r1 @ e) @ b" and IH: "\<And>rest acc.
      decode_points h d (w @ rest) (length ps) (i + 1) (length (r1 @ e)) acc = Inr (acc @ ps, length w)"
    using "2.IH" [OF _ refl r1 e rec] gv "2.prems"(2,3) by auto
  have r1': "if sqPrefixWidth d = 0 then r1 = r \<and> spIndex p = ?expected
    else fits_width (spIndex p) (sqPrefixWidth d) \<and> r1 = r @ put_le (sqPrefixWidth d) (spIndex p)"
    using r1 by (auto simp: bind_err_iff appendStrictUnsigned_iff split: if_splits)
  have "DecodeStrictPoint (shGroup h) (shVariation h) (e @ b @ rest) = Inr (p\<lparr>spIndex := 0\<rparr>, length e)" for rest
    using Decode_EncodeStrictPoint [OF e, of "b @ rest"] gv "2.prems"(2) by simp
  then have "decode_points h d (w @ rest) (length (p # ps)) i (length r) acc
    = decode_points h d (w @ rest) (length ps) (i + 1) (length (r1 @ e)) (acc @ [p])" for rest acc
    using r1' "2.prems"(3) readStrictUnsigned_put [of "spIndex p" "sqPrefixWidth d"]
    by (auto simp: w plain_descriptor_def point_same_index split: if_splits)
  then show ?case using IH w r1' by (auto split: if_splits)
qed

lemma encode_decode_points:
  assumes "decode_points h d data n i off acc = Inr (qs, off')" and "off \<le> length data" and "plain_descriptor d"
  shows "\<exists>ps. qs = acc @ ps \<and> length ps = n \<and> off \<le> off' \<and> off' \<le> length data \<and> list_all point_canonical ps
    \<and> encode_points h d i ps (take off data) = Inr (take off' data)"
  using assms
proof (induction h d data n i off acc rule: decode_points.induct)
  case (1 h d data i off acc)
  then show ?case by simp
next
  case (2 h d data n i off acc)
  let ?prefix = "if sqKind d = strictRangeStartStop then Inr (shStart h + of_nat i, off)
      else if sqPrefixWidth d \<noteq> 0
      then (if length data - off < sqPrefixWidth d then Inl PrefixTruncated
            else Inr (readStrictUnsigned (drop off data) (sqPrefixWidth d), off + sqPrefixWidth d))
      else Inr (of_nat i, off)"
  obtain ix off1 p c where ix: "?prefix = Inr (ix, off1)"
    and p: "DecodeStrictPoint (shGroup h) (shVariation h) (drop off1 data) = Inr (p, c)"
    and rec: "decode_points h d data n (i + 1) (off1 + c) (acc @ [p\<lparr>spIndex := ix\<rparr>]) = Inr (qs, off')"
    using "2.prems"(1) by (auto simp: bind_Inr_iff bind_err_iff split: prod.splits)
  note pt = DecodeStrictPoint_OkD [OF p]
  have off1: "off \<le> off1" "off1 \<le> length data"
    and enc: "(if sqPrefixWidth d = 0
        then (if ix \<noteq> (if sqKind d = strictRangeStartStop then shStart h + of_nat i else of_nat i)
              then Inl (PointIndexDiffers i) else Inr (take off data))
        else (case appendStrictUnsigned (take off data) ix (sqPrefixWidth d) of
                Inl err \<Rightarrow> Inl (EncodingIndex i err) | Inr r \<Rightarrow> Inr r)) = Inr (take off1 data)"
  proof -
    let ?n = "sqPrefixWidth d"
    have "off \<le> off1 \<and> off1 \<le> length data \<and> (if ?n = 0
        then ix = (if sqKind d = strictRangeStartStop then shStart h + of_nat i else of_nat i) \<and> off1 = off
        else fits_width ix ?n \<and> take off data @ put_le ?n ix = take off1 data)"
    proof (cases "?n = 0")
      case True
      then show ?thesis using ix "2.prems"(2) by (auto split: if_splits)
    next
      case False
      then have n: "?n \<in> {1, 2, 4}" and "sqKind d \<noteq> strictRangeStartStop"
        using "2.prems"(3) by (auto simp: plain_descriptor_def)
      then have "ix = readStrictUnsigned (drop off data) ?n" "off1 = off + ?n" "?n \<le> length (drop off data)"
        using ix False by (auto split: if_splits)
      then show ?thesis
        using False "2.prems"(2) readStrictUnsigned_back [OF n, of "drop off data"] by (simp add: take_add)
    qed
    then show "off \<le> off1" "off1 \<le> length data"
      and "(if sqPrefixWidth d = 0
        then (if ix \<noteq> (if sqKind d = strictRangeStartStop then shStart h + of_nat i else of_nat i)
              then Inl (PointIndexDiffers i) else Inr (take off data))
        else (case appendStrictUnsigned (take off data) ix (sqPrefixWidth d) of
                Inl err \<Rightarrow> Inl (EncodingIndex i err) | Inr r \<Rightarrow> Inr r)) = Inr (take off1 data)"
      by (auto simp: bind_err_iff appendStrictUnsigned_iff split: if_splits simp del: put_le.simps)
  qed
  have "off1 + c \<le> length data" using pt(4) off1(2) by simp
  then obtain ps where ps: "qs = acc @ [p\<lparr>spIndex := ix\<rparr>] @ ps" "length ps = n" "off1 + c \<le> off'"
    "off' \<le> length data" "list_all point_canonical ps"
    "encode_points h d (i + 1) ps (take (off1 + c) data) = Inr (take off' data)"
    using "2.IH" [OF ix refl p refl rec _ "2.prems"(3)] by auto
  have "encode_points h d i (p\<lparr>spIndex := ix\<rparr> # ps) (take off data) = Inr (take off' data)"
  proof -
    have "spGroup (p\<lparr>spIndex := ix\<rparr>) = shGroup h" "spVariation (p\<lparr>spIndex := ix\<rparr>) = shVariation h"
      "spIndex (p\<lparr>spIndex := ix\<rparr>) = ix" using pt(1,2) by simp_all
    then show ?thesis
      by (simp only: encode_points.simps Let_def simp_thms if_False enc sum.case point_index pt(6)
          ps(6) [unfolded take_add])
  qed
  with ps off1 pt(5) show ?case by (intro exI [of _ "p\<lparr>spIndex := ix\<rparr> # ps"]) simp
qed

section \<open>Packed points survive\<close>

text \<open>Bit \<open>k\<close> of packed data, and of the value of a point.\<close>

definition packed_bit :: "bytes \<Rightarrow> nat \<Rightarrow> bool" where
  "packed_bit bs k = bit (bs ! (k div 8)) (k mod 8)"

definition value_bit :: "strict_value \<Rightarrow> nat \<Rightarrow> bool" where
  "value_bit val k = (case val of BoolValue b \<Rightarrow> b \<and> k = 0 | Uint8Value v \<Rightarrow> bit v k | _ \<Rightarrow> False)"

definition packed_value :: "nat \<Rightarrow> strict_value \<Rightarrow> bool" where
  "packed_value bits val \<longleftrightarrow>
     (case val of BoolValue b \<Rightarrow> bits = 1 | Uint8Value v \<Rightarrow> bits \<noteq> 1 \<and> v \<le> 3 | _ \<Rightarrow> False)"

definition packed_point :: "StrictObjectHeader \<Rightarrow> nat \<Rightarrow> StrictPoint \<Rightarrow> bool" where
  "packed_point h i p \<longleftrightarrow> spGroup p = shGroup h \<and> spVariation p = shVariation h
    \<and> spIndex p = shStart h + of_nat i \<and> spQuality p = 0 \<and> spTimestamp p = None
    \<and> packed_value (packed_bits h) (spValue p)"

lemma packed_bits_cases: "packed_bits h = 1 \<or> packed_bits h = 2"
  by (simp add: packed_bits_def)

lemma low_bits: "(v :: byte) \<le> 3 \<Longrightarrow> 2 \<le> k \<Longrightarrow> \<not> bit v k"
proof
  assume "v \<le> 3" "2 \<le> k" "bit v k"
  then have "unat v < 2 ^ 2" by (simp add: word_le_nat_alt)
  then have "take_bit 2 v = v"
    by (simp add: word_unat_eq_iff unsigned_take_bit_eq take_bit_nat_eq_self)
  then have "\<not> bit v k" using \<open>2 \<le> k\<close> by (metis bit_take_bit_iff not_less)
  then show False using \<open>bit v k\<close> by contradiction
qed

lemma value_bit_high: "packed_value n val \<Longrightarrow> n = 1 \<or> n = 2 \<Longrightarrow> n \<le> k \<Longrightarrow> \<not> value_bit val k"
  by (auto simp: packed_value_def value_bit_def low_bits split: strict_value.splits)

lemma packed_bits_eqI:
  assumes "length xs = length ys" and "\<And>k. k < 8 * length ys \<Longrightarrow> packed_bit xs k = packed_bit ys k"
  shows "xs = ys"
proof (rule nth_equalityI)
  show "length xs = length ys" by (rule assms)
  show "xs ! i = ys ! i" if "i < length xs" for i
  proof (rule byte_eqI)
    fix n :: nat assume "n < 8"
    then show "bit (xs ! i) n = bit (ys ! i) n"
      using assms(2) [of "8 * i + n"] that assms(1) by (simp add: packed_bit_def)
  qed
qed

lemma set_packed:
  assumes "j mod 8 + n \<le> 8" and "\<And>k. n \<le> k \<Longrightarrow> \<not> bit v k" and "k < 8 * length bs"
  shows "packed_bit (bs[j div 8 := bs ! (j div 8) OR push_bit (j mod 8) v]) k
    \<longleftrightarrow> packed_bit bs k \<or> (j \<le> k \<and> bit v (k - j))"
proof (cases "k div 8 = j div 8")
  case True
  then have "j mod 8 \<le> k mod 8 \<longleftrightarrow> j \<le> k" and "k mod 8 - j mod 8 = k - j"
    by (metis add_le_cancel_left mult_div_mod_eq, metis diff_add_inverse diff_diff_left mult_div_mod_eq)
  moreover have "k div 8 < length bs" using assms(3) by (simp add: div_less_iff_less_mult mult.commute)
  ultimately show ?thesis using True by (auto simp: packed_bit_def bit_simps)
next
  case False
  have "n \<le> k - j" if "j \<le> k"
  proof (rule ccontr)
    assume "\<not> n \<le> k - j"
    then have "k < j + n" using that by simp
    also have "\<dots> \<le> 8 * (j div 8) + 8" using assms(1) mult_div_mod_eq [of 8 j] by linarith
    finally have "k div 8 \<le> j div 8" by (simp add: div_less_iff_less_mult less_Suc_eq_le [symmetric])
    then show False using False div_le_mono [OF that, of 8] by simp
  qed
  then show ?thesis using False assms(2) by (auto simp: packed_bit_def nth_list_update)
qed

lemma encode_packed_step:
  "encode_packed h i (p # ps) r = Inr w \<longleftrightarrow> packed_point h i p
    \<and> (\<exists>v. (\<forall>k. bit v k = value_bit (spValue p) k)
      \<and> encode_packed h (i + 1) ps
          (r[i * packed_bits h div 8 := r ! (i * packed_bits h div 8) OR push_bit (i * packed_bits h mod 8) v]) = Inr w)"
proof -
  have ext: "v = u \<longleftrightarrow> (\<forall>k. bit v k = bit u k)" for v u :: byte
    by (auto intro: bit_word_eqI)
  have one: "(\<forall>k. bit v k = (b \<and> k = 0)) \<longleftrightarrow> v = (if b then 1 else 0)" for v :: byte and b
    unfolding ext by (simp add: bit_1_iff)
  have "(\<forall>k. bit v k = bit u k) \<longleftrightarrow> v = u" for v u :: byte
    unfolding ext ..
  then show ?thesis
    by (auto simp: packed_point_def packed_value_def value_bit_def Let_def one split: strict_value.split)
qed

declare encode_packed.simps(2) [simp del]


lemma encode_packed_bits:
  assumes "encode_packed h i ps r = Inr w" and "(i + length ps) * packed_bits h \<le> 8 * length r"
  shows "length w = length r \<and> (\<forall>j<length ps. packed_point h (i + j) (ps ! j))
    \<and> (\<forall>k<8 * length r. packed_bit w k \<longleftrightarrow> packed_bit r k
        \<or> (i * packed_bits h \<le> k \<and> k < (i + length ps) * packed_bits h
           \<and> value_bit (spValue (ps ! (k div packed_bits h - i))) (k mod packed_bits h)))"
  using assms
proof (induction ps arbitrary: i r)
  case Nil
  then show ?case by auto
next
  case (Cons p ps)
  let ?n = "packed_bits h"
  obtain v where p: "packed_point h i p" and v: "\<And>k. bit v k = value_bit (spValue p) k"
    and rec: "encode_packed h (i + 1) ps (r[i * ?n div 8 := r ! (i * ?n div 8) OR push_bit (i * ?n mod 8) v]) = Inr w"
    using Cons.prems(1) unfolding encode_packed_step by blast
  let ?r = "r[i * ?n div 8 := r ! (i * ?n div 8) OR push_bit (i * ?n mod 8) v]"
  have n: "?n = 1 \<or> ?n = 2" by (rule packed_bits_cases)
  have high: "\<not> bit v k" if "?n \<le> k" for k
    using p value_bit_high [OF _ n that] by (simp add: v packed_point_def)
  have room: "i * ?n mod 8 + ?n \<le> 8" using n by presburger
  have "(i + 1 + length ps) * ?n \<le> 8 * length ?r" using Cons.prems(2) by simp
  note IH = Cons.IH [OF rec this]
  have "packed_point h (i + j) ((p # ps) ! j)" if "j < length (p # ps)" for j
    using that IH p by (cases j) auto
  moreover have "packed_bit w k \<longleftrightarrow> packed_bit r k
      \<or> (i * ?n \<le> k \<and> k < (i + length (p # ps)) * ?n \<and> value_bit (spValue ((p # ps) ! (k div ?n - i))) (k mod ?n))"
    if "k < 8 * length r" for k
  proof -
    have here: "i * ?n \<le> k \<and> bit v (k - i * ?n) \<longleftrightarrow> k div ?n = i \<and> value_bit (spValue p) (k mod ?n)"
    proof (cases "k div ?n = i")
      case True
      then have "k - i * ?n = k mod ?n" "i * ?n \<le> k"
        using div_times_less_eq_dividend [of k ?n] by (auto simp: minus_div_mult_eq_mod)
      then show ?thesis using True v by simp
    next
      case False
      have "?n \<le> k - i * ?n" if "i * ?n \<le> k"
        using False that n by (auto; presburger)
      then show ?thesis using False high by auto
    qed
    have at: "(k div ?n = i) = (i * ?n \<le> k \<and> k < (i + 1) * ?n)" using n by auto
    have later: "(p # ps) ! (k div ?n - i) = ps ! (k div ?n - (i + 1))" if "(i + 1) * ?n \<le> k"
    proof -
      have "i + 1 \<le> k div ?n" using that n by (auto; presburger)
      then have "k div ?n - i = Suc (k div ?n - (i + 1))" by simp
      then show ?thesis by simp
    qed
    have w: "packed_bit w k \<longleftrightarrow> packed_bit r k \<or> (k div ?n = i \<and> value_bit (spValue p) (k mod ?n))
      \<or> ((i + 1) * ?n \<le> k \<and> k < (i + 1 + length ps) * ?n
          \<and> value_bit (spValue (ps ! (k div ?n - (i + 1)))) (k mod ?n))"
      using IH that set_packed [OF room high that] here by simp
    have le: "i * ?n \<le> (i + 1) * ?n" "(i + 1) * ?n \<le> (i + 1 + length ps) * ?n"
      by (rule mult_le_mono1, simp)+
    have len: "i + length (p # ps) = i + 1 + length ps" by simp
    consider (before) "k < i * ?n" | (here) "i * ?n \<le> k" "k < (i + 1) * ?n" | (after) "(i + 1) * ?n \<le> k"
      by linarith
    then show ?thesis
    proof cases
      case before
      then have "k div ?n \<noteq> i" "\<not> (i + 1) * ?n \<le> k" "\<not> i * ?n \<le> k" using at le by linarith+
      then show ?thesis unfolding w by blast
    next
      case here
      then have "k div ?n = i" "\<not> (i + 1) * ?n \<le> k" "k < (i + length (p # ps)) * ?n"
        using at le unfolding len by linarith+
      then show ?thesis unfolding w using here(1) by simp
    next
      case after
      then have "k div ?n \<noteq> i" "i * ?n \<le> k" using at le by linarith+
      then show ?thesis unfolding w len later [OF after] using after by blast
    qed
  qed
  ultimately show ?case using IH by simp
qed

lemma encode_packed_ok:
  assumes "\<And>j. j < length ps \<Longrightarrow> packed_point h (i + j) (ps ! j)"
  shows "\<exists>w. encode_packed h i ps r = Inr w"
  using assms
proof (induction ps arbitrary: i r)
  case Nil
  then show ?case by simp
next
  case (Cons p ps)
  have p: "packed_point h i p" using Cons.prems [of 0] by simp
  have "packed_point h (i + 1 + j) (ps ! j)" if "j < length ps" for j
    using Cons.prems [of "Suc j"] that by simp
  note IH = Cons.IH [OF this]
  obtain v :: byte where "\<forall>k. bit v k = value_bit (spValue p) k"
  proof (cases "spValue p")
    case (BoolValue b)
    then show ?thesis using that [of "if b then 1 else 0"] by (auto simp: value_bit_def bit_1_iff)
  next
    case (Uint8Value u)
    then show ?thesis using that [of u] by (simp add: value_bit_def)
  qed (use p in \<open>auto simp: packed_point_def packed_value_def\<close>)
  then show ?case using p IH unfolding encode_packed_step by blast
qed

lemma pair_position:
  fixes i m :: nat
  assumes "m < 2"
  shows "(i * 2 + m) div 8 = i * 2 div 8" and "(i * 2 + m) mod 8 = i * 2 mod 8 + m"
proof -
  show m: "(i * 2 + m) mod 8 = i * 2 mod 8 + m"
    using assms by (auto simp: less_2_cases_iff mod_Suc) presburger+
  show "(i * 2 + m) div 8 = i * 2 div 8"
    using m mult_div_mod_eq [of 8 "i * 2 + m"] mult_div_mod_eq [of 8 "i * 2"] by linarith
qed

definition packed_value_at :: "nat \<Rightarrow> bytes \<Rightarrow> nat \<Rightarrow> strict_value" where
  "packed_value_at bits data i =
     (let b = data ! (i * bits div 8); s = i * bits mod 8 in
      if bits = 1 then BoolValue (b AND push_bit s 1 \<noteq> 0) else Uint8Value (drop_bit s b AND 3))"

lemma packed_value_iff:
  assumes "n = 1 \<or> n = 2"
  shows "packed_value n val \<and> (\<forall>m<n. value_bit val m = packed_bit data (i * n + m)) \<longleftrightarrow> val = packed_value_at n data i"
proof -
  have three: "bit (3 :: byte) m \<longleftrightarrow> m < 2" for m
  proof -
    have "(3 :: byte) = mask 2" by (simp add: mask_eq_exp_minus_1)
    then show ?thesis by (simp only: bit_mask_iff) auto
  qed
  show ?thesis
  proof (cases "n = 1")
    case True
    then show ?thesis
      by (auto simp: packed_value_at_def packed_value_def value_bit_def packed_bit_def and_mask_bit Let_def
          split: strict_value.splits)
  next
    case False
    then have n: "n = 2" using assms by simp
    let ?u = "drop_bit (i * 2 mod 8) (data ! (i * 2 div 8)) AND 3"
    have small: "?u \<le> 3" by (rule word_and_le1)
    have bits: "bit ?u m \<longleftrightarrow> m < 2 \<and> packed_bit data (i * 2 + m)" for m
    proof -
      have u: "bit ?u m \<longleftrightarrow> m < 2 \<and> bit (data ! (i * 2 div 8)) (i * 2 mod 8 + m)"
        unfolding bit_and_iff bit_drop_bit_eq comp_def three by (simp only: conj_commute)
      have pos: "(i * 2 + m) div 8 = i * 2 div 8" "(i * 2 + m) mod 8 = i * 2 mod 8 + m" if "m < 2"
        by (rule pair_position [OF that])+
      show ?thesis
      proof (cases "m < 2")
        case True
        show ?thesis unfolding u packed_bit_def pos [OF True] by (rule refl)
      next
        case False
        show ?thesis unfolding u by (simp only: False simp_thms)
      qed
    qed
    have "(v \<le> 3 \<and> (\<forall>m<2. bit v m = packed_bit data (i * 2 + m))) \<longleftrightarrow> v = ?u" for v :: byte
    proof
      assume v: "v \<le> 3 \<and> (\<forall>m<2. bit v m = packed_bit data (i * 2 + m))"
      show "v = ?u"
      proof (rule byte_eqI)
        show "bit v m = bit ?u m" for m using v low_bits [of v m] unfolding bits by (cases "m < 2") auto
      qed
    qed (use small bits in auto)
    then show ?thesis using n
      by (auto simp: packed_value_at_def packed_value_def value_bit_def Let_def split: strict_value.splits)
  qed
qed

lemma byte_tail_zero:
  "drop_bit m (b :: byte) = 0 \<longleftrightarrow> (\<forall>k<8. m \<le> k \<longrightarrow> \<not> bit b k)"
proof
  assume z: "drop_bit m b = 0"
  have "\<not> bit b k" if "m \<le> k" for k
  proof -
    have "bit (drop_bit m b) (k - m) = bit b k" using that by (simp add: bit_drop_bit_eq)
    then show ?thesis using z by simp
  qed
  then show "\<forall>k<8. m \<le> k \<longrightarrow> \<not> bit b k" by blast
next
  assume "\<forall>k<8. m \<le> k \<longrightarrow> \<not> bit b k"
  then have "\<not> bit b (m + n)" for n using bit_imp_le_length [of b "m + n"] by auto
  then show "drop_bit m b = 0" by (intro byte_eqI) (simp add: bit_drop_bit_eq)
qed

lemma packed_positions:
  fixes n :: nat
  assumes "n = 1 \<or> n = 2"
  shows "(\<forall>k<c * n. P (k div n) (k mod n) k) \<longleftrightarrow> (\<forall>j<c. \<forall>m<n. P j m (j * n + m))"
proof
  assume l: "\<forall>k<c * n. P (k div n) (k mod n) k"
  show "\<forall>j<c. \<forall>m<n. P j m (j * n + m)"
  proof (intro allI impI)
    fix j m assume "j < c" "m < n"
    then have "j * n + m < c * n" "(j * n + m) div n = j" "(j * n + m) mod n = m"
      using assms by auto
    then show "P j m (j * n + m)" using l by metis
  qed
next
  assume r: "\<forall>j<c. \<forall>m<n. P j m (j * n + m)"
  show "\<forall>k<c * n. P (k div n) (k mod n) k"
  proof (intro allI impI)
    fix k assume "k < c * n"
    then have "k div n < c" "k mod n < n" "k div n * n + k mod n = k"
      using assms by (auto simp: less_mult_imp_div_less)
    then show "P (k div n) (k mod n) k" using r by metis
  qed
qed

lemma eq_map_upt: "xs = map f [0..<c] \<longleftrightarrow> length xs = c \<and> (\<forall>j<c. xs ! j = f j)"
  by (auto intro: nth_equalityI)

lemma decode_packed_iff:
  "decodeStrictPackedPoints h data c = Inr (ps, n) \<longleftrightarrow>
    length ps = c \<and> n = (c * packed_bits h + 7) div 8 \<and> n \<le> length data
    \<and> (\<forall>j<c. packed_point h j (ps ! j))
    \<and> (\<forall>k<8 * n. packed_bit data k \<longleftrightarrow> k < c * packed_bits h
        \<and> value_bit (spValue (ps ! (k div packed_bits h))) (k mod packed_bits h))"
proof -
  let ?b = "packed_bits h"
  let ?n = "(c * ?b + 7) div 8"
  let ?point = "\<lambda>i. \<lparr>spGroup = shGroup h, spVariation = shVariation h, spIndex = shStart h + of_nat i,
    spValue = packed_value_at ?b data i, spQuality = 0, spTimestamp = None\<rparr>"
  have b: "?b = 1 \<or> ?b = 2" by (rule packed_bits_cases)
  have room: "c * ?b \<le> 8 * ?n" "8 * ?n < c * ?b + 8" by presburger+
  have padding: "?n * 8 - c * ?b > 0 \<and> drop_bit (8 - (?n * 8 - c * ?b)) (data ! (?n - 1)) \<noteq> 0
    \<longleftrightarrow> \<not> (\<forall>k<8 * ?n. c * ?b \<le> k \<longrightarrow> \<not> packed_bit data k)"
  proof (cases "?n = 0")
    case True
    then show ?thesis using room by simp
  next
    case False
    define d where "d = 8 - (?n * 8 - c * ?b)"
    have d: "c * ?b = 8 * (?n - 1) + d" using room False by (auto simp: d_def)
    have "(\<forall>k<8 * ?n. c * ?b \<le> k \<longrightarrow> \<not> packed_bit data k)
      \<longleftrightarrow> (\<forall>k<8. d \<le> k \<longrightarrow> \<not> packed_bit data (8 * (?n - 1) + k))"
    proof
      assume l: "\<forall>k<8 * ?n. c * ?b \<le> k \<longrightarrow> \<not> packed_bit data k"
      show "\<forall>k<8. d \<le> k \<longrightarrow> \<not> packed_bit data (8 * (?n - 1) + k)"
        using l d False by auto
    next
      assume r: "\<forall>k<8. d \<le> k \<longrightarrow> \<not> packed_bit data (8 * (?n - 1) + k)"
      show "\<forall>k<8 * ?n. c * ?b \<le> k \<longrightarrow> \<not> packed_bit data k"
      proof (intro allI impI)
        fix k assume k: "k < 8 * ?n" "c * ?b \<le> k"
        then have "d \<le> k - 8 * (?n - 1)" "k - 8 * (?n - 1) < 8" "8 * (?n - 1) + (k - 8 * (?n - 1)) = k"
          using d False by linarith+
        then show "\<not> packed_bit data k" using r by metis
      qed
    qed
    also have "\<dots> \<longleftrightarrow> drop_bit d (data ! (?n - 1)) = 0"
      unfolding byte_tail_zero by (simp add: packed_bit_def)
    moreover have "\<not> ?n * 8 - c * ?b > 0 \<longrightarrow> (\<forall>k<8 * ?n. c * ?b \<le> k \<longrightarrow> \<not> packed_bit data k)"
      by simp
    ultimately show ?thesis unfolding d_def by blast
  qed
  have dec: "decodeStrictPackedPoints h data c = Inr (ps, n) \<longleftrightarrow>
      ps = map ?point [0..<c] \<and> n = ?n \<and> ?n \<le> length data
      \<and> (\<forall>k<8 * ?n. c * ?b \<le> k \<longrightarrow> \<not> packed_bit data k)"
    unfolding decodeStrictPackedPoints_def Let_def padding packed_value_at_def [unfolded Let_def, symmetric]
    by auto
  have pt: "packed_point h j p \<and> (\<forall>m<?b. value_bit (spValue p) m = packed_bit data (j * ?b + m))
      \<longleftrightarrow> p = ?point j" for j p
    using packed_value_iff [OF b, of "spValue p" data j] by (cases p) (auto simp: packed_point_def)
  have "ps = map ?point [0..<c] \<longleftrightarrow> length ps = c \<and> (\<forall>j<c. ps ! j = ?point j)"
    by (rule eq_map_upt)
  also have "\<dots> \<longleftrightarrow> length ps = c \<and> (\<forall>j<c. packed_point h j (ps ! j))
      \<and> (\<forall>j<c. \<forall>m<?b. value_bit (spValue (ps ! j)) m = packed_bit data (j * ?b + m))"
    unfolding pt [symmetric] by blast
  also have "(\<forall>j<c. \<forall>m<?b. value_bit (spValue (ps ! j)) m = packed_bit data (j * ?b + m)) \<longleftrightarrow>
      (\<forall>k<c * ?b. value_bit (spValue (ps ! (k div ?b))) (k mod ?b) = packed_bit data k)"
    by (rule packed_positions [OF b, symmetric])
  finally have points: "ps = map ?point [0..<c] \<longleftrightarrow> length ps = c \<and> (\<forall>j<c. packed_point h j (ps ! j))
      \<and> (\<forall>k<c * ?b. value_bit (spValue (ps ! (k div ?b))) (k mod ?b) = packed_bit data k)" .
  show ?thesis unfolding dec points using room(1) by (auto simp: not_less)
qed

lemma encode_packed_all:
  assumes "encodeStrictPackedPoints h ps = Inr w"
  shows "length w = (length ps * packed_bits h + 7) div 8 \<and> (\<forall>j<length ps. packed_point h j (ps ! j))
    \<and> (\<forall>k<8 * length w. packed_bit w k \<longleftrightarrow> k < length ps * packed_bits h
        \<and> value_bit (spValue (ps ! (k div packed_bits h))) (k mod packed_bits h))"
proof -
  let ?r = "replicate ((length ps * packed_bits h + 7) div 8) (0 :: byte)"
  have "(0 + length ps) * packed_bits h \<le> 8 * length ?r" by simp
  note bits = encode_packed_bits [OF assms [unfolded encodeStrictPackedPoints_def] this]
  have zero: "\<not> packed_bit ?r k" if "k < 8 * length ?r" for k
    using that by (simp add: packed_bit_def less_mult_imp_div_less mult.commute)
  show ?thesis using bits zero by auto
qed

lemma packed_iff:
  "decodeStrictPackedPoints h data c = Inr (ps, n)
    \<longleftrightarrow> length ps = c \<and> n \<le> length data \<and> encodeStrictPackedPoints h ps = Inr (take n data)"
proof
  assume "decodeStrictPackedPoints h data c = Inr (ps, n)"
  note d = this [unfolded decode_packed_iff]
  then obtain w where w: "encodeStrictPackedPoints h ps = Inr w"
    using encode_packed_ok [of ps h 0 "replicate ((length ps * packed_bits h + 7) div 8) 0"]
    unfolding encodeStrictPackedPoints_def by auto
  have "w = take n data"
    using encode_packed_all [OF w] d by (intro packed_bits_eqI) (auto simp: packed_bit_def less_mult_imp_div_less mult.commute)
  then show "length ps = c \<and> n \<le> length data \<and> encodeStrictPackedPoints h ps = Inr (take n data)"
    using w d by simp
next
  assume e: "length ps = c \<and> n \<le> length data \<and> encodeStrictPackedPoints h ps = Inr (take n data)"
  then have "length (take n data) = n" by simp
  then show "decodeStrictPackedPoints h data c = Inr (ps, n)"
    using e encode_packed_all [of h ps "take n data"] unfolding decode_packed_iff
    by (auto simp: packed_bit_def less_mult_imp_div_less mult.commute)
qed

section \<open>Blocks survive\<close>

definition block_canonical :: "StrictObjectBlock \<Rightarrow> bool" where
  "block_canonical b \<longleftrightarrow> header_canonical (sbHeader b)
     \<and> (strictPackedObject (shGroup (sbHeader b)) (shVariation (sbHeader b))
        \<or> list_all point_canonical (sbPoints b))"

text \<open>What both directions ask of the header: its qualifier's format and the number of points.\<close>

definition block_form :: "StrictObjectHeader \<Rightarrow> strictQualifier \<Rightarrow> nat \<Rightarrow> bool" where
  "block_form h d c \<longleftrightarrow> decodeStrictQualifier (shQualifier h) = Inr d \<and> \<not> sqSizePrefix d
     \<and> strictHeaderCount h d = Inr c
     \<and> (if c = 0 then strictSelectorObject (shGroup h) (shVariation h)
        else strictPackedObject (shGroup h) (shVariation h) \<longrightarrow> sqPrefixWidth d = 0)"

lemma EncodeStrictObjectBlock_iff:
  "EncodeStrictObjectBlock b = Inr w \<longleftrightarrow>
    (\<exists>d hb. block_form (sbHeader b) d (length (sbPoints b)) \<and> EncodeStrictObjectHeader (sbHeader b) = Inr hb
      \<and> (if sbPoints b = [] then w = hb
         else if strictPackedObject (shGroup (sbHeader b)) (shVariation (sbHeader b))
         then (\<exists>p. encodeStrictPackedPoints (sbHeader b) (sbPoints b) = Inr p \<and> w = hb @ p)
         else encode_points (sbHeader b) d 0 (sbPoints b) hb = Inr w))"
proof (cases "decodeStrictQualifier (shQualifier (sbHeader b))")
  case (Inl e)
  then show ?thesis by (simp add: EncodeStrictObjectBlock_def block_form_def Let_def)
next
  case (Inr d)
  note d = this
  show ?thesis
  proof (cases "strictHeaderCount (sbHeader b) d")
    case (Inl e)
    then show ?thesis using d by (simp add: EncodeStrictObjectBlock_def block_form_def Let_def)
  next
    case (Inr c)
    then show ?thesis using d
      by (cases "EncodeStrictObjectHeader (sbHeader b)"; cases "c = length (sbPoints b)"; cases "sqSizePrefix d";
          cases "sbPoints b = []"; cases "strictPackedObject (shGroup (sbHeader b)) (shVariation (sbHeader b))")
        (auto simp: EncodeStrictObjectBlock_def block_form_def Let_def bind_Inr_iff)
  qed
qed

lemma DecodeStrictObjectBlock_iff:
  "DecodeStrictObjectBlock data mx = Inr (b, n) \<longleftrightarrow>
    1 \<le> mx \<and> (\<exists>m d. DecodeStrictObjectHeader data = Inr (sbHeader b, m)
      \<and> block_form (sbHeader b) d (length (sbPoints b)) \<and> int (length (sbPoints b)) \<le> mx
      \<and> (if sbPoints b = [] then n = m
         else if strictPackedObject (shGroup (sbHeader b)) (shVariation (sbHeader b))
         then (\<exists>k. decodeStrictPackedPoints (sbHeader b) (drop m data) (length (sbPoints b)) = Inr (sbPoints b, k)
                   \<and> n = m + k)
         else decode_points (sbHeader b) d data (length (sbPoints b)) 0 m [] = Inr (sbPoints b, n)))"
  (is "?l \<longleftrightarrow> ?r")
proof
  assume ?l
  then obtain h m d c where h: "1 \<le> mx" "DecodeStrictObjectHeader data = Inr (h, m)"
      "decodeStrictQualifier (shQualifier h) = Inr d" "\<not> sqSizePrefix d" "strictHeaderCount h d = Inr c"
    and r: "(if c = 0
       then (if \<not> strictSelectorObject (shGroup h) (shVariation h) then Inl UnsupportedSelector
             else Inr (\<lparr>sbHeader = h, sbPoints = []\<rparr>, m))
       else if int c > mx then Inl PointLimitExceeded
       else if strictPackedObject (shGroup h) (shVariation h)
       then (if sqPrefixWidth d \<noteq> 0 then Inl PackedWithPrefix
             else (case decodeStrictPackedPoints h (drop m data) c of
                     Inl err \<Rightarrow> Inl err
                   | Inr (points, consumed) \<Rightarrow> Inr (\<lparr>sbHeader = h, sbPoints = points\<rparr>, m + consumed)))
       else (case decode_points h d data c 0 m [] of
               Inl err \<Rightarrow> Inl err
             | Inr (points, offset1) \<Rightarrow> Inr (\<lparr>sbHeader = h, sbPoints = points\<rparr>, offset1))) = Inr (b, n)"
    by (auto simp: DecodeStrictObjectBlock_def bind_Inr_iff bind_err_iff not_less split: if_split_asm)
  have m: "m \<le> length data" using DecodeStrictObjectHeader_OkD [OF h(2)] by simp
  note plain = decodeStrictQualifier_plain [OF h(3)]
  have count: "length ps = c" if "decode_points h d data c 0 m [] = Inr (ps, k)" for ps k
    using encode_decode_points [OF that m plain] by auto
  show ?r
  proof (cases "c = 0 \<or> strictPackedObject (shGroup h) (shVariation h)")
    case True
    with r h show ?thesis by (auto simp: bind_Inr_iff block_form_def packed_iff not_less split: if_split_asm)
  next
    case False
    with r obtain ps where ps: "decode_points h d data c 0 m [] = Inr (ps, n)" "b = \<lparr>sbHeader = h, sbPoints = ps\<rparr>"
      "int c \<le> mx" by (auto simp: bind_Inr_iff not_less split: if_split_asm)
    then show ?thesis using h False count [OF ps(1)] by (auto simp: block_form_def)
  qed
next
  assume ?r
  then show ?l
    by (cases b) (auto simp: DecodeStrictObjectBlock_def block_form_def split: if_splits)
qed

lemma block_iff:
  "DecodeStrictObjectBlock data mx = Inr (b, n) \<longleftrightarrow>
    1 \<le> mx \<and> int (length (sbPoints b)) \<le> mx \<and> n \<le> length data \<and> block_canonical b
    \<and> EncodeStrictObjectBlock b = Inr (take n data)"
  (is "?l \<longleftrightarrow> ?r")
proof
  let ?h = "sbHeader b" and ?ps = "sbPoints b"
  assume ?l
  then obtain m d where h: "DecodeStrictObjectHeader data = Inr (?h, m)" "1 \<le> mx" "int (length ?ps) \<le> mx"
    and form: "block_form ?h d (length ?ps)"
    and pts: "if ?ps = [] then n = m else if strictPackedObject (shGroup ?h) (shVariation ?h)
         then (\<exists>k. decodeStrictPackedPoints ?h (drop m data) (length ?ps) = Inr (?ps, k) \<and> n = m + k)
         else decode_points ?h d data (length ?ps) 0 m [] = Inr (?ps, n)"
    unfolding DecodeStrictObjectBlock_iff by blast
  note hd = DecodeStrictObjectHeader_OkD [OF h(1)]
  have plain: "plain_descriptor d" using form decodeStrictQualifier_plain [of "shQualifier ?h" d] by (simp add: block_form_def)
  show ?r
  proof (cases "?ps = [] \<or> strictPackedObject (shGroup ?h) (shVariation ?h)")
    case True
    then show ?thesis using pts h hd form
      by (auto simp: EncodeStrictObjectBlock_iff block_canonical_def packed_iff take_add split: if_splits)
  next
    case False
    then have "decode_points ?h d data (length ?ps) 0 m [] = Inr (?ps, n)" using pts by simp
    from encode_decode_points [OF this _ plain] hd False h form show ?thesis
      by (auto simp: EncodeStrictObjectBlock_iff block_canonical_def)
  qed
next
  let ?h = "sbHeader b" and ?ps = "sbPoints b"
  assume r: ?r
  then obtain d hb where form: "block_form ?h d (length ?ps)" and hb: "EncodeStrictObjectHeader ?h = Inr hb"
    and pts: "if ?ps = [] then take n data = hb else if strictPackedObject (shGroup ?h) (shVariation ?h)
         then (\<exists>p. encodeStrictPackedPoints ?h ?ps = Inr p \<and> take n data = hb @ p)
         else encode_points ?h d 0 ?ps hb = Inr (take n data)"
    unfolding EncodeStrictObjectBlock_iff by blast
  have plain: "plain_descriptor d" using form decodeStrictQualifier_plain [of "shQualifier ?h" d] by (simp add: block_form_def)
  have data: "data = take n data @ drop n data" by simp
  have canonical: "header_canonical ?h" using r by (simp add: block_canonical_def)
  have head: "DecodeStrictObjectHeader data = Inr (?h, length hb)" if "take n data = hb @ p" for p
    using Decode_EncodeStrictObjectHeader [OF hb canonical, of "p @ drop n data"] data that by (metis append.assoc)
  consider (none) "?ps = []" | (packed) "?ps \<noteq> []" "strictPackedObject (shGroup ?h) (shVariation ?h)"
    | (plain) "?ps \<noteq> []" "\<not> strictPackedObject (shGroup ?h) (shVariation ?h)" by blast
  then show ?l
  proof cases
    case none
    then have "take n data = hb @ []" using pts by simp
    with head [OF this] none form r pts show ?thesis
      unfolding DecodeStrictObjectBlock_iff by (intro conjI exI) (auto simp: min_def)
  next
    case packed
    then obtain p where p: "encodeStrictPackedPoints ?h ?ps = Inr p" "take n data = hb @ p" using pts by auto
    then have n: "n = length hb + length p" using r by (metis length_append length_take min_absorb2)
    then have "p = take (length p) (drop (length hb) data)" using p(2) by (metis append_eq_conv_conj drop_take add_diff_cancel_left')
    then have "decodeStrictPackedPoints ?h (drop (length hb) data) (length ?ps) = Inr (?ps, length p)"
      unfolding packed_iff using p(1) n r by auto
    then show ?thesis using packed head [OF p(2)] form r n
      unfolding DecodeStrictObjectBlock_iff by auto
  next
    case (plain)
    then have e: "encode_points ?h d 0 ?ps hb = Inr (take n data)" using pts by simp
    have "list_all point_canonical ?ps" using r plain(2) by (simp add: block_canonical_def)
    from decode_encode_points [OF e this \<open>plain_descriptor d\<close>]
    obtain p where p: "take n data = hb @ p"
      and dec: "decode_points ?h d (take n data @ drop n data) (length ?ps) 0 (length hb) [] = Inr ([] @ ?ps, length (take n data))"
      by blast
    have "decode_points ?h d data (length ?ps) 0 (length hb) [] = Inr (?ps, n)"
      using dec [unfolded append_take_drop_id append_Nil] r by simp
    then show ?thesis using plain head [OF p] form r
      unfolding DecodeStrictObjectBlock_iff by auto
  qed
qed


lemma encode_points_Cons:
  "encode_points h d i (p # ps) r = Inr w \<longleftrightarrow> spGroup p = shGroup h \<and> spVariation p = shVariation h
    \<and> (\<exists>x e. (if sqPrefixWidth d = 0
             then x = [] \<and> spIndex p = (if sqKind d = strictRangeStartStop then shStart h + of_nat i else of_nat i)
             else x = put_le (sqPrefixWidth d) (spIndex p) \<and> fits_width (spIndex p) (sqPrefixWidth d))
        \<and> EncodeStrictPoint p = Inr e \<and> encode_points h d (i + 1) ps (r @ x @ e) = Inr w)"
  by (cases "sqPrefixWidth d = 0"; cases "EncodeStrictPoint p")
    (auto simp: Let_def bind_err_iff bind_Inr_iff appendStrictUnsigned_iff simp del: put_le.simps)

lemma encode_points_prefix: "encode_points h d i ps r = Inr w \<Longrightarrow> \<exists>t. w = r @ t"
proof (induction ps arbitrary: i r)
  case (Cons p ps)
  then obtain x e where "encode_points h d (i + 1) ps (r @ x @ e) = Inr w"
    unfolding encode_points_Cons by blast
  from Cons.IH [OF this] show ?case by auto
qed simp

lemma fits_width_typed: "n = 2 \<or> n = 4 \<Longrightarrow> fits_width v n \<Longrightarrow> unat v < 256 ^ n"
proof -
  assume "n = 2 \<or> n = 4" "fits_width v n"
  then have "take_bit (8 * n) v = v" by (simp add: fits_width_def)
  then have "unat v < 2 ^ (8 * n)" by (metis take_bit_nat_less_exp unsigned_take_bit_eq)
  then show "unat v < 256 ^ n" by (simp add: power_mult)
qed

section \<open>Sequences of blocks\<close>

abbreviation block_points :: "StrictObjectBlock \<Rightarrow> int" where
  "block_points b \<equiv> int (length (sbPoints b))"

text \<open>The limit a block is decoded under is what the blocks before it left of the maximum, and not 0.\<close>

fun within_limit :: "int \<Rightarrow> StrictObjectBlock list \<Rightarrow> bool" where
  "within_limit m [] = True"
| "within_limit m (b # bs) \<longleftrightarrow> 1 \<le> m \<and> block_points b \<le> m \<and> within_limit (m - block_points b) bs"

lemma points_nonneg: "0 \<le> sum_list (map block_points bs)"
  by (induction bs) simp_all

lemma within_limit_iff:
  "within_limit m bs \<longleftrightarrow>
    bs = [] \<or> sum_list (map block_points (butlast bs)) < m \<and> sum_list (map block_points bs) \<le> m"
proof (induction bs arbitrary: m)
  case (Cons b bs)
  show ?case
  proof (cases "bs = []")
    case False
    then have "within_limit m (b # bs) \<longleftrightarrow> 1 \<le> m \<and> block_points b \<le> m
      \<and> sum_list (map block_points (butlast bs)) < m - block_points b
      \<and> sum_list (map block_points bs) \<le> m - block_points b"
      unfolding within_limit.simps Cons.IH by simp
    also have "\<dots> \<longleftrightarrow> block_points b + sum_list (map block_points (butlast bs)) < m
      \<and> block_points b + sum_list (map block_points bs) \<le> m"
      using points_nonneg [of "butlast bs"] points_nonneg [of bs] by linarith
    finally show ?thesis using False by simp
  qed auto
qed simp

lemma EncodeStrictObjectBlock_nonempty: "EncodeStrictObjectBlock b = Inr w \<Longrightarrow> w \<noteq> []"
proof
  assume e: "EncodeStrictObjectBlock b = Inr w" "w = []"
  then obtain d hb where d: "block_form (sbHeader b) d (length (sbPoints b))"
    and hb: "EncodeStrictObjectHeader (sbHeader b) = Inr hb" and w: "if sbPoints b = [] then w = hb
         else if strictPackedObject (shGroup (sbHeader b)) (shVariation (sbHeader b))
         then (\<exists>p. encodeStrictPackedPoints (sbHeader b) (sbPoints b) = Inr p \<and> w = hb @ p)
         else encode_points (sbHeader b) d 0 (sbPoints b) hb = Inr w"
    unfolding EncodeStrictObjectBlock_iff by blast
  have "\<exists>t. w = hb @ t"
  proof (cases "sbPoints b = [] \<or> strictPackedObject (shGroup (sbHeader b)) (shVariation (sbHeader b))")
    case False
    then have "encode_points (sbHeader b) d 0 (sbPoints b) hb = Inr w" using w by simp
    then show ?thesis by (rule encode_points_prefix)
  qed (use w in \<open>auto split: if_splits\<close>)
  then show False using e(2) hb d
    by (auto simp: EncodeStrictObjectHeader_def block_form_def bind_Inr_iff Let_def appendStrictUnsigned_iff
        split: strictRangeKind.splits if_splits)
qed

lemma decode_blocks_iff:
  assumes "int (length bs) \<le> mb"
  shows "decode_blocks mp mb data bs pc = Inr bs' \<longleftrightarrow>
    (\<exists>cs ws. bs' = bs @ cs \<and> map EncodeStrictObjectBlock cs = map Inr ws \<and> data = concat ws
      \<and> list_all block_canonical cs \<and> int (length bs + length cs) \<le> mb \<and> within_limit (mp - pc) cs)"
  using assms
proof (induction mp mb data bs pc rule: decode_blocks.induct)
  case (1 mp mb data bs pc)
  have none: "map EncodeStrictObjectBlock cs = map Inr ws \<and> concat ws = [] \<longleftrightarrow> cs = [] \<and> ws = []" for cs ws
    using EncodeStrictObjectBlock_nonempty by (cases cs; cases ws) auto
  show ?case
  proof (cases "data = []")
    case True
    then show ?thesis using 1(2) none by (subst decode_blocks.simps) (auto; metis)
  next
    case False
    have step: "decode_blocks mp mb data bs pc = Inr bs' \<longleftrightarrow>
      int (length bs) < mb \<and> (\<exists>b n. DecodeStrictObjectBlock data (mp - pc) = Inr (b, n) \<and> n \<noteq> 0
        \<and> decode_blocks mp mb (drop n data) (bs @ [b]) (pc + block_points b) = Inr bs')"
      using False 1(2)
      by (cases "DecodeStrictObjectBlock data (mp - pc)"; subst decode_blocks.simps) (auto split: if_splits)
    show ?thesis unfolding step
    proof (intro iffI)
      assume "int (length bs) < mb \<and> (\<exists>b n. DecodeStrictObjectBlock data (mp - pc) = Inr (b, n) \<and> n \<noteq> 0
        \<and> decode_blocks mp mb (drop n data) (bs @ [b]) (pc + block_points b) = Inr bs')"
      then obtain b n where bn: "int (length bs) < mb" "DecodeStrictObjectBlock data (mp - pc) = Inr (b, n)" "n \<noteq> 0"
        and rec: "decode_blocks mp mb (drop n data) (bs @ [b]) (pc + block_points b) = Inr bs'" by blast
      have "int (length (bs @ [b])) \<le> mb" using bn(1) by simp
      with rec obtain cs ws where cs: "bs' = (bs @ [b]) @ cs" "map EncodeStrictObjectBlock cs = map Inr ws"
        "drop n data = concat ws" "list_all block_canonical cs" "int (length (bs @ [b]) + length cs) \<le> mb"
        "within_limit (mp - (pc + block_points b)) cs"
        using 1(1) [OF False _ bn(2) refl bn(3)] bn(1) by auto
      have "data = concat (take n data # ws)" using cs(3) append_take_drop_id [of n data] by simp
      then show "\<exists>cs ws. bs' = bs @ cs \<and> map EncodeStrictObjectBlock cs = map Inr ws \<and> data = concat ws
        \<and> list_all block_canonical cs \<and> int (length bs + length cs) \<le> mb \<and> within_limit (mp - pc) cs"
        using bn(2) [unfolded block_iff] cs
        by (intro exI [of _ "b # cs"] exI [of _ "take n data # ws"]) (simp add: algebra_simps)
    next
      assume "\<exists>cs ws. bs' = bs @ cs \<and> map EncodeStrictObjectBlock cs = map Inr ws \<and> data = concat ws
        \<and> list_all block_canonical cs \<and> int (length bs + length cs) \<le> mb \<and> within_limit (mp - pc) cs"
      then obtain cs' ws' where all: "bs' = bs @ cs'" "map EncodeStrictObjectBlock cs' = map Inr ws'"
        "data = concat ws'" "list_all block_canonical cs'" "int (length bs + length cs') \<le> mb"
        "within_limit (mp - pc) cs'" by blast
      then have "ws' \<noteq> []" using False by auto
      with all obtain b cs w ws where cs: "bs' = bs @ b # cs" "EncodeStrictObjectBlock b = Inr w"
        "map EncodeStrictObjectBlock cs = map Inr ws" "data = w @ concat ws" "block_canonical b"
        "list_all block_canonical cs" "int (length bs + length cs) < mb"
        "1 \<le> mp - pc" "block_points b \<le> mp - pc" "within_limit (mp - pc - block_points b) cs"
        by (cases cs'; cases ws') auto
      have b: "DecodeStrictObjectBlock data (mp - pc) = Inr (b, length w)"
        unfolding block_iff using cs(2,4,5,8,9) by simp
      have w: "length w \<noteq> 0" using EncodeStrictObjectBlock_nonempty [OF cs(2)] by simp
      have "decode_blocks mp mb (drop (length w) data) (bs @ [b]) (pc + block_points b) = Inr bs'"
        using 1(1) [OF False _ b refl w] cs by (auto simp: algebra_simps)
      then show "int (length bs) < mb \<and> (\<exists>b n. DecodeStrictObjectBlock data (mp - pc) = Inr (b, n) \<and> n \<noteq> 0
        \<and> decode_blocks mp mb (drop n data) (bs @ [b]) (pc + block_points b) = Inr bs')"
        using b w cs(7) by auto
    qed
  qed
qed

lemma blocks_iff:
  "DecodeStrictObjectBlocks data mp mb = Inr bs \<longleftrightarrow>
    1 \<le> mp \<and> int (length bs) \<le> mb \<and> 1 \<le> mb \<and> within_limit mp bs \<and> list_all block_canonical bs
    \<and> (\<exists>ws. map EncodeStrictObjectBlock bs = map Inr ws \<and> data = concat ws)"
  using decode_blocks_iff [of "[]" mb mp data 0 bs] by (auto simp: DecodeStrictObjectBlocks_def)

section \<open>Types\<close>

definition value_typed :: "StrictPointFormat \<Rightarrow> strict_value \<Rightarrow> bool" where
  "value_typed f val \<longleftrightarrow>
     (case pfKind f of
        StrictValueBinary \<Rightarrow> (case val of BoolValue _ \<Rightarrow> True | _ \<Rightarrow> False)
      | StrictValueDoubleBinary \<Rightarrow> (case val of Uint8Value v \<Rightarrow> v \<le> 3 | _ \<Rightarrow> False)
      | StrictValueUnsigned \<Rightarrow> (case val of Uint32Value v \<Rightarrow> unat v < 256 ^ pfWidth f | _ \<Rightarrow> False)
      | StrictValueInt16 \<Rightarrow> (case val of Int16Value _ \<Rightarrow> True | _ \<Rightarrow> False)
      | StrictValueInt32 \<Rightarrow> (case val of Int32Value _ \<Rightarrow> True | _ \<Rightarrow> False)
      | StrictValueFloat32 \<Rightarrow> (case val of Float32Value v \<Rightarrow> finite32 v | _ \<Rightarrow> False)
      | StrictValueFloat64 \<Rightarrow> (case val of Float64Value v \<Rightarrow> finite64 v | _ \<Rightarrow> False)
      | StrictValueOctets \<Rightarrow> (case val of BytesValue bs \<Rightarrow> length bs = pfWidth f | _ \<Rightarrow> False))"

definition point_typed :: "StrictPoint \<Rightarrow> bool" where
  "point_typed p \<longleftrightarrow>
     (case DescribeStrictPoint (spGroup p) (spVariation p) of
        Inl _ \<Rightarrow> False
      | Inr f \<Rightarrow> value_typed f (spValue p) \<and> pfHasTime f = (spTimestamp p \<noteq> None)
          \<and> (pfHasQuality f \<or> spQuality p = 0))"

definition block_typed :: "StrictObjectBlock \<Rightarrow> bool" where
  "block_typed b \<longleftrightarrow>
     list_all (\<lambda>p. spGroup p = shGroup (sbHeader b) \<and> spVariation p = shVariation (sbHeader b)) (sbPoints b)
     \<and> (if IsStrictPackedObject (shGroup (sbHeader b)) (shVariation (sbHeader b))
        then list_all (\<lambda>p. packed_value (packed_bits (sbHeader b)) (spValue p)
               \<and> spQuality p = 0 \<and> spTimestamp p = None) (sbPoints b)
        else list_all point_typed (sbPoints b))"

lemma encode_value_typed:
  assumes "encode_value f q val r = Inr w" and "format_ok f"
  shows "value_typed \<lparr>pfKind = StrictValueKind_of (vfKind f), pfWidth = vfWidth f,
    pfHasQuality = vfQuality f, pfHasTime = vfTimestamp f\<rparr> val"
  using assms
  by (auto simp: encode_value_def value_typed_def StrictValueKind_of_def format_ok_def bind_err_iff
      appendStrictUnsigned_iff fits_width_typed not_less split: strictValueKind.splits strict_value.splits if_splits)

lemma encoded_point_typed:
  assumes "EncodeStrictPoint p = Inr w" and "point_canonical p"
  shows "point_typed p"
proof -
  obtain f where f: "strictPointFormat (spGroup p) (spVariation p) = Inr f"
    using assms(2) by (auto simp: point_canonical_def split: sum.splits)
  obtain b where b: "encode_value f (spQuality p) (spValue p) [] = Inr b"
    and time: "vfTimestamp f = (spTimestamp p \<noteq> None)"
    using assms(1) unfolding EncodeStrictPoint_parts [OF f] by (auto split: if_splits)
  show ?thesis
    using f assms(2) time encode_value_typed [OF b strictPointFormat_ok [OF f]]
    by (simp add: point_typed_def DescribeStrictPoint_def point_canonical_def)
qed

lemma encode_points_typed:
  assumes "encode_points h d i ps r = Inr w"
  shows "list_all (\<lambda>p. spGroup p = shGroup h \<and> spVariation p = shVariation h \<and> (\<exists>e. EncodeStrictPoint p = Inr e)) ps"
  using assms by (induction ps arbitrary: i r) (auto simp: encode_points_Cons simp del: encode_points.simps(2))

lemma encoded_block_typed:
  assumes "EncodeStrictObjectBlock b = Inr w" and "block_canonical b"
  shows "block_typed b"
proof -
  let ?h = "sbHeader b" and ?ps = "sbPoints b"
  obtain d hb where pts: "if ?ps = [] then w = hb else if strictPackedObject (shGroup ?h) (shVariation ?h)
         then (\<exists>p. encodeStrictPackedPoints ?h ?ps = Inr p \<and> w = hb @ p)
         else encode_points ?h d 0 ?ps hb = Inr w"
    using assms(1) unfolding EncodeStrictObjectBlock_iff by blast
  consider "?ps = []" | (packed) p where "strictPackedObject (shGroup ?h) (shVariation ?h)"
      "encodeStrictPackedPoints ?h ?ps = Inr p"
    | (plain) "\<not> strictPackedObject (shGroup ?h) (shVariation ?h)" "encode_points ?h d 0 ?ps hb = Inr w"
    using pts by (auto split: if_splits)
  then show ?thesis
  proof cases
    case packed
    then show ?thesis using encode_packed_all [OF packed(2)]
      by (auto simp: block_typed_def IsStrictPackedObject_def list_all_length packed_point_def)
  next
    case plain
    then show ?thesis using encode_points_typed [OF plain(2)] assms(2) encoded_point_typed
      by (auto simp: block_typed_def IsStrictPackedObject_def block_canonical_def list_all_iff)
  qed (simp add: block_typed_def)
qed

lemma strict_point_iff:
  "DecodeStrictPoint g v data = Inr (p, n) \<longleftrightarrow>
    spGroup p = g \<and> spVariation p = v \<and> spIndex p = 0 \<and> n \<le> length data \<and> point_canonical p
    \<and> EncodeStrictPoint p = Inr (take n data)"
proof
  assume "DecodeStrictPoint g v data = Inr (p, n)"
  from DecodeStrictPoint_OkD [OF this] show "spGroup p = g \<and> spVariation p = v \<and> spIndex p = 0
    \<and> n \<le> length data \<and> point_canonical p \<and> EncodeStrictPoint p = Inr (take n data)" by simp
next
  assume r: "spGroup p = g \<and> spVariation p = v \<and> spIndex p = 0 \<and> n \<le> length data \<and> point_canonical p
    \<and> EncodeStrictPoint p = Inr (take n data)"
  then have "DecodeStrictPoint g v (take n data @ drop n data) = Inr (p\<lparr>spIndex := 0\<rparr>, length (take n data))"
    using Decode_EncodeStrictPoint [of p "take n data" "drop n data"] by auto
  then show "DecodeStrictPoint g v data = Inr (p, n)" using r by (simp add: point_same_index)
qed

section \<open>Properties\<close>

text \<open>
  The decoder of a block accepts exactly the encodings of blocks. Where it returns a block, the
  bytes it consumed are what the encoder makes of this block, the block obeys the limit on points,
  and all its parts are determined by the encoding; and it returns every such block. This holds for
  the plain layout with and without index prefixes, for the bit-packed one with its zero padding,
  and for headers that carry no points.
\<close>

theorem strict_block_iff:
  "DecodeStrictObjectBlock data maximumPoints = Inr (block, n) \<longleftrightarrow>
    1 \<le> maximumPoints \<and> int (length (sbPoints block)) \<le> maximumPoints \<and> n \<le> length data
    \<and> block_canonical block \<and> EncodeStrictObjectBlock block = Inr (take n data)"
  by (rule block_iff)

text \<open>
  C20: the decoder of an object section accepts exactly the concatenations of encoded canonical blocks
  within its limits, and returns these blocks: at most \<open>maximumBlocks\<close> blocks and
  \<open>maximumPoints\<close> points, where the blocks before the last one may not use up all the
  points (a header without points after a full section is refused). A block is canonical when the
  fields of its header that the qualifier does not use are zero and, unless its points are packed,
  every point has quality 0 where its variation has no flags, and a timestamp, if any, of whole
  milliseconds: what the encoder drops is absent. Every block the decoder returns is canonical, and
  every sequence of canonical blocks that the encoder accepts is decoded again, within the limits.
\<close>

theorem strict_blocks_iff:
  "DecodeStrictObjectBlocks data maximumPoints maximumBlocks = Inr blocks \<longleftrightarrow>
    1 \<le> maximumPoints \<and> 1 \<le> maximumBlocks \<and> int (length blocks) \<le> maximumBlocks
    \<and> (blocks = [] \<or> (\<Sum>b\<leftarrow>butlast blocks. int (length (sbPoints b))) < maximumPoints
        \<and> (\<Sum>b\<leftarrow>blocks. int (length (sbPoints b))) \<le> maximumPoints)
    \<and> list_all block_canonical blocks
    \<and> (\<exists>ws. map EncodeStrictObjectBlock blocks = map Inr ws \<and> data = concat ws)"
  unfolding blocks_iff within_limit_iff by blast

text \<open>
  C22: what is decoded has the type its variation announces: every point of every block carries the
  group and variation of its header, a value of the dynamic type, width and range of
  \<open>DescribeStrictPoint\<close> (floats finite, double bits at most 3, counters within their width), a
  timestamp just when the variation has one, and no quality when it has none. So the type switch of
  a caller never meets a value it does not expect.
\<close>

theorem strict_blocks_typed:
  "case DecodeStrictObjectBlocks data maximumPoints maximumBlocks of
     Inl _ \<Rightarrow> True
   | Inr blocks \<Rightarrow> list_all block_typed blocks"
proof (cases "DecodeStrictObjectBlocks data maximumPoints maximumBlocks")
  case (Inr bs)
  then have b: "list_all block_canonical bs" "\<exists>ws. map EncodeStrictObjectBlock bs = map Inr ws"
    unfolding blocks_iff by blast+
  then obtain ws where ws: "map EncodeStrictObjectBlock bs = map Inr ws" by blast
  have "block_typed b" if "b \<in> set bs" for b
  proof -
    have "EncodeStrictObjectBlock b \<in> set (map Inr ws)" unfolding ws [symmetric] using that by simp
    then show ?thesis using b(1) that encoded_block_typed by (auto simp: list_all_iff)
  qed
  then show ?thesis using Inr by (simp add: list_all_iff)
qed simp

end
