(* ===== verification/App_Strict_Reassembler.thy ===== *)
theory App_Strict_Reassembler
  imports App_Strict_Codec
begin

text \<open>
  Reassembly of strict application fragments (\<open>pkg/app/strict_reassembler.go\<close>). The
  reassembler refines an abstract collector whose state is just the list of fragments of the
  message under way: \<open>collected\<close> gives the concrete state for such a list, and every \<open>Push\<close>
  is a step of the collector. Unlike the transport reassemblers a first fragment in the
  middle of a message is an error here, and every error drops the message.
\<close>

unbundle bit_operations_syntax

section \<open>The reassembler\<close>

record AppReassembler =
  arMaximumObjects :: int
  arActive :: bool
  arFirstSequence :: byte
  arNextSequence :: byte
  arFunction :: byte
  arUnsolicited :: bool
  arConfirm :: bool
  arIIN :: u16
  arObjects :: bytes

datatype collect_err =
    MaximumObjectsNotPositive
  | CollectSequenceTooLarge
  | FirRepeated
  | CollectWithoutFir
  | CollectSequenceMismatch byte byte
  | FunctionChanged
  | UnsolicitedChanged
  | ObjectsExceedLimit

definition NewAppReassembler :: "int \<Rightarrow> AppReassembler" where
  "NewAppReassembler maximumObjects =
     \<lparr>arMaximumObjects = maximumObjects, arActive = False, arFirstSequence = 0,
      arNextSequence = 0, arFunction = 0, arUnsolicited = False, arConfirm = False, arIIN = 0,
      arObjects = []\<rparr>"

definition AppReassembler_Reset :: "AppReassembler \<Rightarrow> AppReassembler" where
  "AppReassembler_Reset r =
     r\<lparr>arActive := False, arFirstSequence := 0, arNextSequence := 0, arFunction := 0,
       arUnsolicited := False, arConfirm := False, arIIN := 0, arObjects := []\<rparr>"

text \<open>\<open>Inr (Some f)\<close> is the code's \<open>true, f, nil\<close>.\<close>

definition AppReassembler_Push ::
  "AppReassembler \<Rightarrow> StrictFragment \<Rightarrow> (collect_err + StrictFragment option) \<times> AppReassembler" where
  "AppReassembler_Push r fragment =
     (if arMaximumObjects r < 1 then (Inl MaximumObjectsNotPositive, r)
      else if stSequence fragment > 15 then (Inl CollectSequenceTooLarge, AppReassembler_Reset r)
      else if stFIR fragment \<and> arActive r then (Inl FirRepeated, AppReassembler_Reset r)
      else if \<not> stFIR fragment \<and> \<not> arActive r then (Inl CollectWithoutFir, r)
      else let r1 = (if stFIR fragment
                     then r\<lparr>arActive := True, arFirstSequence := stSequence fragment,
                            arNextSequence := stSequence fragment, arFunction := stFunction fragment,
                            arUnsolicited := stUNS fragment\<rparr>
                     else r)
           in
      if stSequence fragment \<noteq> arNextSequence r1
      then (Inl (CollectSequenceMismatch (stSequence fragment) (arNextSequence r1)), AppReassembler_Reset r1)
      else if stFunction fragment \<noteq> arFunction r1 then (Inl FunctionChanged, AppReassembler_Reset r1)
      else if stUNS fragment \<noteq> arUnsolicited r1 then (Inl UnsolicitedChanged, AppReassembler_Reset r1)
      else if int (length (stObjects fragment)) > arMaximumObjects r1 - int (length (arObjects r1))
      then (Inl ObjectsExceedLimit, AppReassembler_Reset r1)
      else let r2 = r1\<lparr>arObjects := arObjects r1 @ stObjects fragment,
                       arConfirm := arConfirm r1 \<or> stCON fragment,
                       arIIN := arIIN r1 OR stIIN fragment,
                       arNextSequence := (stSequence fragment + 1) AND 0x0F\<rparr>
           in if \<not> stFIN fragment then (Inr None, r2)
              else (Inr (Some \<lparr>stFIR = True, stFIN = True, stCON = arConfirm r2,
                               stUNS = arUnsolicited r2, stSequence = arFirstSequence r2,
                               stFunction = arFunction r2, stIIN = arIIN r2,
                               stObjects = arObjects r2\<rparr>),
                    AppReassembler_Reset r2))"

section \<open>The abstract collector\<close>

definition run_iin :: "StrictFragment list \<Rightarrow> u16" where
  "run_iin run = foldl (\<lambda>i f. i OR stIIN f) 0 run"

definition run_objects :: "StrictFragment list \<Rightarrow> bytes" where
  "run_objects run = concat (map stObjects run)"

text \<open>The message a run of fragments makes.\<close>

definition joined :: "StrictFragment list \<Rightarrow> StrictFragment" where
  "joined run =
     \<lparr>stFIR = True, stFIN = True, stCON = (\<exists>f\<in>set run. stCON f), stUNS = stUNS (hd run),
      stSequence = stSequence (hd run), stFunction = stFunction (hd run), stIIN = run_iin run,
      stObjects = run_objects run\<rparr>"

text \<open>A fragment that goes on with the message under way, or starts one when there is none.\<close>

definition extends :: "int \<Rightarrow> StrictFragment list \<Rightarrow> StrictFragment \<Rightarrow> bool" where
  "extends m run f \<longleftrightarrow> stSequence f \<le> 15
     \<and> int (length (run_objects run) + length (stObjects f)) \<le> m
     \<and> (if run = [] then stFIR f
        else \<not> stFIR f \<and> stSequence f = (stSequence (last run) + 1) AND 0x0F
          \<and> stFunction f = stFunction (hd run) \<and> stUNS f = stUNS (hd run))"

definition collect_step ::
  "int \<Rightarrow> StrictFragment list \<Rightarrow> StrictFragment \<Rightarrow> StrictFragment option \<times> StrictFragment list" where
  "collect_step m run f =
     (if \<not> extends m run f then (None, [])
      else if stFIN f then (Some (joined (run @ [f])), [])
      else (None, run @ [f]))"

definition collected :: "int \<Rightarrow> StrictFragment list \<Rightarrow> AppReassembler" where
  "collected m run =
     (if run = [] then NewAppReassembler m
      else \<lparr>arMaximumObjects = m, arActive = True, arFirstSequence = stSequence (hd run),
            arNextSequence = (stSequence (last run) + 1) AND 0x0F, arFunction = stFunction (hd run),
            arUnsolicited = stUNS (hd run), arConfirm = (\<exists>f\<in>set run. stCON f),
            arIIN = run_iin run, arObjects = run_objects run\<rparr>)"

section \<open>Refinement\<close>

text \<open>An error completes nothing.\<close>

definition completed :: "'e + 'a option \<Rightarrow> 'a option" where
  "completed r = (case r of Inl _ \<Rightarrow> None | Inr m \<Rightarrow> m)"

lemma completed_not_ok: "\<not> is_ok r \<Longrightarrow> completed r = None"
  by (simp add: completed_def split: sum.splits)

lemma completed_simps [simp]: "completed (Inl e) = None" "completed (Inr m) = m"
  by (simp_all add: completed_def)

lemma collected_Nil: "collected m [] = NewAppReassembler m"
  by (simp add: collected_def)

lemma AppReassembler_Reset_max:
  "AppReassembler_Reset r = NewAppReassembler (arMaximumObjects r)"
  by (cases r) (simp add: AppReassembler_Reset_def NewAppReassembler_def)

lemma collected_sel:
  "arMaximumObjects (collected m run) = m" "arActive (collected m run) \<longleftrightarrow> run \<noteq> []"
  "arConfirm (collected m run) \<longleftrightarrow> (\<exists>f\<in>set run. stCON f)" "arIIN (collected m run) = run_iin run"
  "arObjects (collected m run) = run_objects run"
  "run \<noteq> [] \<Longrightarrow> arFirstSequence (collected m run) = stSequence (hd run)"
  "run \<noteq> [] \<Longrightarrow> arNextSequence (collected m run) = (stSequence (last run) + 1) AND 0x0F"
  "run \<noteq> [] \<Longrightarrow> arFunction (collected m run) = stFunction (hd run)"
  "run \<noteq> [] \<Longrightarrow> arUnsolicited (collected m run) = stUNS (hd run)"
  by (simp_all add: collected_def NewAppReassembler_def run_iin_def run_objects_def)

lemma run_snoc:
  "run_iin (run @ [f]) = run_iin run OR stIIN f" "run_objects (run @ [f]) = run_objects run @ stObjects f"
  "run_objects [] = []" "run_iin [] = 0"
  by (simp_all add: run_iin_def run_objects_def)

lemma AppReassembler_Push_refused:
  assumes "1 \<le> m" and "\<not> extends m run f"
  shows "\<not> is_ok (fst (AppReassembler_Push (collected m run) f))
    \<and> snd (AppReassembler_Push (collected m run) f) = collected m []"
proof (cases "run = []")
  case True
  then show ?thesis using assms
    by (simp add: AppReassembler_Push_def extends_def collected_Nil AppReassembler_Reset_max Let_def)
      (auto simp: NewAppReassembler_def run_snoc not_less)
next
  case False
  have "arMaximumObjects (collected m run) = m" by (simp add: collected_sel)
  moreover have "(stSequence (last run) + 1) AND 0x0F \<le> 15" by (rule word_and_le1)
  ultimately show ?thesis using assms False
    by (auto simp: AppReassembler_Push_def extends_def collected_sel collected_Nil
        AppReassembler_Reset_max Let_def not_less)
qed

lemma AppReassembler_Push_taken:
  assumes "1 \<le> m" and "extends m run f"
  shows "AppReassembler_Push (collected m run) f =
    (if stFIN f then (Inr (Some (joined (run @ [f]))), collected m [])
     else (Inr None, collected m (run @ [f])))"
proof (cases "run = []")
  case True
  then show ?thesis using assms
    by (simp add: AppReassembler_Push_def extends_def collected_Nil AppReassembler_Reset_max Let_def
        joined_def run_snoc not_less) (simp add: collected_def NewAppReassembler_def run_iin_def run_objects_def)
next
  case False
  then show ?thesis using assms
    by (auto simp: AppReassembler_Push_def extends_def collected_sel AppReassembler_Reset_max
        collected_Nil Let_def joined_def run_snoc not_less) (auto simp: collected_def run_snoc)
qed

lemma Push_refines:
  assumes "1 \<le> m" and "collect_step m run f = (out, run')"
  shows "completed (fst (AppReassembler_Push (collected m run) f)) = out"
    and "snd (AppReassembler_Push (collected m run) f) = collected m run'"
  using assms AppReassembler_Push_refused [OF assms(1), of run f]
    AppReassembler_Push_taken [OF assms(1), of run f]
  by (auto simp: collect_step_def completed_not_ok split: if_splits)

text \<open>Pushing a list of fragments: what is completed, in order, and the state after it.\<close>

fun push_fragments ::
  "AppReassembler \<Rightarrow> StrictFragment list \<Rightarrow> StrictFragment list \<times> AppReassembler" where
  "push_fragments r [] = ([], r)"
| "push_fragments r (f # fs) =
     (case AppReassembler_Push r f of (res, r') \<Rightarrow>
        (case push_fragments r' fs of (ms, r'') \<Rightarrow>
           ((case completed res of None \<Rightarrow> ms | Some c \<Rightarrow> c # ms), r'')))"

fun collect_all :: "int \<Rightarrow> StrictFragment list \<Rightarrow> StrictFragment list \<Rightarrow> StrictFragment list \<times> StrictFragment list" where
  "collect_all m run [] = ([], run)"
| "collect_all m run (f # fs) =
     (case collect_step m run f of (out, run') \<Rightarrow>
        (case collect_all m run' fs of (ms, run'') \<Rightarrow>
           ((case out of None \<Rightarrow> ms | Some c \<Rightarrow> c # ms), run'')))"

lemma push_fragments_refines:
  "1 \<le> m \<Longrightarrow> push_fragments (collected m run) fs
    = (case collect_all m run fs of (ms, run') \<Rightarrow> (ms, collected m run'))"
proof (induction fs arbitrary: run)
  case Nil
  then show ?case by simp
next
  case (Cons f fs)
  obtain out run' where c: "collect_step m run f = (out, run')" by (meson surj_pair)
  from Push_refines [OF Cons.prems c] Cons.IH [OF Cons.prems, of run'] c
  show ?case by (auto simp: split_beta split: option.split)
qed

section \<open>Messages\<close>

text \<open>The fragments after the first: consecutive sequence numbers, the same function and flag.\<close>

fun follows :: "byte \<Rightarrow> byte \<Rightarrow> bool \<Rightarrow> StrictFragment list \<Rightarrow> bool" where
  "follows q fn uns [] = True"
| "follows q fn uns (f # fs) =
     (\<not> stFIR f \<and> stSequence f = q \<and> stFunction f = fn \<and> stUNS f = uns
      \<and> follows ((q + 1) AND 0x0F) fn uns fs)"

text \<open>A run that starts a message; a complete message has its only FIN at the end.\<close>

fun message_part :: "StrictFragment list \<Rightarrow> bool" where
  "message_part [] = False"
| "message_part (f # fs) =
     (stFIR f \<and> stSequence f \<le> 15
      \<and> follows ((stSequence f + 1) AND 0x0F) (stFunction f) (stUNS f) fs)"

definition complete_message :: "StrictFragment list \<Rightarrow> bool" where
  "complete_message run \<longleftrightarrow> message_part run \<and> (\<forall>f\<in>set (butlast run). \<not> stFIN f) \<and> stFIN (last run)"

lemma follows_snoc:
  "follows q fn uns (fs @ [f]) \<longleftrightarrow> follows q fn uns fs \<and> \<not> stFIR f \<and> stFunction f = fn \<and> stUNS f = uns
    \<and> stSequence f = (if fs = [] then q else (stSequence (last fs) + 1) AND 0x0F)"
  by (induction q fn uns fs rule: follows.induct) auto

lemma message_part_snoc:
  "run \<noteq> [] \<Longrightarrow> message_part (run @ [f]) \<longleftrightarrow> message_part run \<and> \<not> stFIR f
    \<and> stSequence f = (stSequence (last run) + 1) AND 0x0F
    \<and> stFunction f = stFunction (hd run) \<and> stUNS f = stUNS (hd run)"
  by (cases run) (auto simp: follows_snoc)

lemma message_part_prefix: "run \<noteq> [] \<Longrightarrow> message_part (run @ fs) \<Longrightarrow> message_part run"
  by (induction fs rule: rev_induct) (auto simp: message_part_snoc simp flip: append_assoc)

lemma message_part_single: "message_part [f] \<longleftrightarrow> stFIR f \<and> stSequence f \<le> 15"
  by simp

lemma extends_part:
  assumes "run = [] \<or> message_part run"
  shows "extends m run f \<longleftrightarrow>
    message_part (run @ [f]) \<and> int (length (run_objects (run @ [f]))) \<le> m"
proof (cases "run = []")
  case True
  then show ?thesis by (auto simp: extends_def run_objects_def)
next
  case False
  have "(stSequence (last run) + 1) AND 0x0F \<le> 15" by (rule word_and_le1)
  with False assms show ?thesis
    by (auto simp: extends_def message_part_snoc run_objects_def)
qed

text \<open>What the collector holds is the end of what was pushed, and part of a message.\<close>

definition held :: "int \<Rightarrow> StrictFragment list \<Rightarrow> StrictFragment list \<Rightarrow> bool" where
  "held m fs run \<longleftrightarrow> run = [] \<or>
     (\<exists>pre. fs = pre @ run) \<and> message_part run \<and> (\<forall>f\<in>set run. \<not> stFIN f)
       \<and> int (length (run_objects run)) \<le> m"

lemma held_step:
  assumes "held m fs run" and "collect_step m run f = (out, run')"
  shows "held m (fs @ [f]) run'"
    and "out = Some c \<Longrightarrow> \<exists>pre msg. fs @ [f] = pre @ msg \<and> complete_message msg \<and> c = joined msg
      \<and> int (length (run_objects msg)) \<le> m"
proof -
  have part: "run = [] \<or> message_part run" using assms(1) by (auto simp: held_def)
  have pre: "\<exists>pre. fs @ [f] = pre @ (run @ [f])" using assms(1) by (auto simp: held_def)
  have fin: "\<forall>g\<in>set run. \<not> stFIN g" using assms(1) by (auto simp: held_def)
  show "held m (fs @ [f]) run'"
    using assms(2) extends_part [OF part, of m f] pre fin
    by (auto simp: collect_step_def held_def split: if_splits)
  show "\<exists>pre msg. fs @ [f] = pre @ msg \<and> complete_message msg \<and> c = joined msg
      \<and> int (length (run_objects msg)) \<le> m" if "out = Some c"
  proof -
    have "extends m run f" "stFIN f" "c = joined (run @ [f])"
      using assms(2) that by (auto simp: collect_step_def split: if_splits)
    then have "complete_message (run @ [f])" "int (length (run_objects (run @ [f]))) \<le> m"
      using extends_part [OF part, of m f] fin by (auto simp: complete_message_def)
    with pre \<open>c = joined (run @ [f])\<close> show ?thesis by blast
  qed
qed

lemma held_all:
  assumes "held m fs run"
  shows "held m (fs @ gs) (snd (collect_all m run gs))"
  using assms
proof (induction gs arbitrary: fs run)
  case Nil
  then show ?case by simp
next
  case (Cons g gs)
  obtain out run' where c: "collect_step m run g = (out, run')" by (meson surj_pair)
  from Cons.IH [OF held_step(1) [OF Cons.prems c]] c show ?case by (auto split: prod.split)
qed

lemma collect_message:
  assumes "message_part (run @ fs)" and "run \<noteq> []" and "fs \<noteq> []" and "\<forall>f\<in>set (butlast fs). \<not> stFIN f"
    and "stFIN (last fs)" and "int (length (run_objects (run @ fs))) \<le> m"
  shows "collect_all m run fs = ([joined (run @ fs)], [])"
  using assms
proof (induction fs arbitrary: run)
  case Nil
  then show ?case by simp
next
  case (Cons f fs)
  have part: "message_part run" "message_part (run @ [f])"
    using Cons.prems(1,2) message_part_prefix [of run "f # fs"] message_part_prefix [of "run @ [f]" fs]
    by auto
  moreover have "int (length (run_objects (run @ [f]))) \<le> m"
    using Cons.prems(6) by (simp add: run_objects_def)
  ultimately have e: "extends m run f" using extends_part [of run m f] by simp
  show ?case
  proof (cases "fs = []")
    case True
    then show ?thesis using e Cons.prems(5) by (simp add: collect_step_def)
  next
    case False
    then have "collect_all m (run @ [f]) fs = ([joined ((run @ [f]) @ fs)], [])"
      using Cons.prems by (intro Cons.IH) auto
    then show ?thesis using e Cons.prems(4) False by (simp add: collect_step_def)
  qed
qed

lemma push_message:
  assumes "complete_message msg" and "int (length (run_objects msg)) \<le> m" and "1 \<le> m"
  shows "push_fragments (NewAppReassembler m) msg = ([joined msg], NewAppReassembler m)"
proof -
  obtain f fs where msg: "msg = f # fs" using assms(1) by (cases msg) (auto simp: complete_message_def)
  have part: "message_part [f]" using assms(1) by (simp add: msg complete_message_def)
  have "int (length (run_objects [f])) \<le> m" using assms(2) by (simp add: msg run_objects_def)
  with part have e: "extends m [] f" using extends_part [of "[]" m f] by simp
  have "collect_all m [] msg = ([joined msg], [])"
  proof (cases "fs = []")
    case True
    then show ?thesis using e assms(1) by (simp add: msg collect_step_def complete_message_def)
  next
    case False
    then have "\<not> stFIN f" and "collect_all m [f] fs = ([joined ([f] @ fs)], [])"
      using assms(1,2) collect_message [of "[f]" fs m] by (simp_all add: msg complete_message_def)
    then show ?thesis using e by (simp add: msg collect_step_def)
  qed
  then show ?thesis
    using push_fragments_refines [OF assms(3), of "[]" msg] by (simp add: collected_Nil)
qed

section \<open>Properties\<close>

text \<open>
  C29: only complete application messages are delivered. Whatever fragments have been pushed
  to a fresh reassembler, a fragment it completes is the joining of the last ones pushed: a
  run with its only FIR at the start, its only FIN at the end, consecutive sequence numbers
  modulo 16, one function code and one unsolicited flag, whose objects are concatenated
  within the limit, whose indications are ORed and whose confirm flag is set if any is.
\<close>

theorem app_delivery_sound:
  assumes "1 \<le> m"
    and "completed (fst (AppReassembler_Push (snd (push_fragments (NewAppReassembler m) fs)) f)) = Some c"
  shows "\<exists>pre msg. fs @ [f] = pre @ msg \<and> complete_message msg \<and> c = joined msg
    \<and> int (length (run_objects msg)) \<le> m"
proof -
  let ?run = "snd (collect_all m [] fs)"
  have st: "snd (push_fragments (NewAppReassembler m) fs) = collected m ?run"
    using push_fragments_refines [OF assms(1), of "[]" fs] by (simp add: collected_Nil split: prod.splits)
  have held: "held m fs ?run" using held_all [of m "[]" "[]" fs] by (simp add: held_def)
  obtain out run' where c: "collect_step m ?run f = (out, run')" by (meson surj_pair)
  then have "out = Some c" using Push_refines(1) [OF assms(1) c] assms(2) by (simp add: st)
  with held_step(2) [OF held c] show ?thesis by blast
qed

theorem app_delivery_sound_witness:
  "\<exists>pre msg. [\<lparr>stFIR = True, stFIN = False, stCON = False, stUNS = False, stSequence = 15,
        stFunction = 0x81, stIIN = 1, stObjects = [1]\<rparr>,
      \<lparr>stFIR = False, stFIN = True, stCON = True, stUNS = False, stSequence = 0,
        stFunction = 0x81, stIIN = 2, stObjects = [2, 3]\<rparr>] = pre @ msg
    \<and> complete_message msg
    \<and> \<lparr>stFIR = True, stFIN = True, stCON = True, stUNS = False, stSequence = 15,
        stFunction = 0x81, stIIN = 3, stObjects = [1, 2, 3]\<rparr> = joined msg
    \<and> int (length (run_objects msg)) \<le> 3"
  using app_delivery_sound [of 3 "[\<lparr>stFIR = True, stFIN = False, stCON = False, stUNS = False,
        stSequence = 15, stFunction = 0x81, stIIN = 1, stObjects = [1]\<rparr>]"
      "\<lparr>stFIR = False, stFIN = True, stCON = True, stUNS = False, stSequence = 0,
        stFunction = 0x81, stIIN = 2, stObjects = [2, 3]\<rparr>"
      "\<lparr>stFIR = True, stFIN = True, stCON = True, stUNS = False, stSequence = 15,
        stFunction = 0x81, stIIN = 3, stObjects = [1, 2, 3]\<rparr>"]
  by (simp add: AppReassembler_Push_def NewAppReassembler_def AppReassembler_Reset_def)

end
