(* ===== verification/Session_Strict.thy ===== *)
theory Session_Strict
  imports Link_Strict_Pair Link_Strict_Channel Transport_Strict App_Strict_Reassembler
begin

text \<open>
  The strict wire session (\<open>pkg/session/strict.go\<close>): the composition of the strict link
  channel, strict transport and the strict application layer. Sending cuts an encoded
  fragment into transport segments and sends each as a link frame; receiving puts frames,
  segments and fragments together again and confirms fragments that ask for it. The theory
  proves that what one session sends another one receives, however the stream is cut.
\<close>

unbundle bit_operations_syntax

section \<open>State and errors\<close>

datatype session_err =
    SessionBusy
  | SessionInit stransport_err
  | SessionLink chan_err
  | SessionFragment fragment_err
  | SessionTransport stransport_err
  | SendingSegment nat chan_err
  | ConfirmingFragment session_err
  | SessionCollect collect_err

text \<open>
  When the transport reassembler cannot be made the code keeps a nil pointer, which no
  operation reaches because each checks the initialization error first; the model keeps an
  unused reassembler instead.
\<close>

record StrictSession =
  ssnChannel :: StrictChannel
  ssnTransportInput :: StrictReassembler
  ssnApplicationInput :: AppReassembler
  ssnInitializationErr :: "stransport_err option"
  ssnNextTransport :: byte
  ssnMaximumApplication :: int
  ssnBusy :: bool

definition NewStrictSession ::
  "bool \<Rightarrow> u16 \<Rightarrow> u16 \<Rightarrow> bool \<Rightarrow> int \<Rightarrow> int \<Rightarrow> int \<Rightarrow> StrictSession" where
  "NewStrictSession connected local remote isMaster timeout retries maximumApplication =
     \<lparr>ssnChannel = NewStrictChannel connected (Some (NewStrictState local remote isMaster)) timeout retries,
      ssnTransportInput =
        (case NewStrictReassembler maximumApplication of
           Inr r \<Rightarrow> r
         | Inl _ \<Rightarrow> \<lparr>srMaximumFragment = 0, srActive = False, srNextSequence = 0, srFragment = []\<rparr>),
      ssnApplicationInput = NewAppReassembler maximumApplication,
      ssnInitializationErr =
        (case NewStrictReassembler maximumApplication of Inr _ \<Rightarrow> None | Inl err \<Rightarrow> Some err),
      ssnNextTransport = 0, ssnMaximumApplication = maximumApplication, ssnBusy = False\<rparr>"

definition session_acquire :: "StrictSession \<Rightarrow> session_err option \<times> StrictSession" where
  "session_acquire s = (if ssnBusy s then (Some SessionBusy, s) else (None, s\<lparr>ssnBusy := True\<rparr>))"

definition session_release :: "StrictSession \<Rightarrow> StrictSession" where
  "session_release s = s\<lparr>ssnBusy := False\<rparr>"

text \<open>What every operation starts and ends with: acquire, the initialization error, release.\<close>

definition session_op ::
  "StrictSession \<Rightarrow> link_io
    \<Rightarrow> (StrictSession \<Rightarrow> link_io \<Rightarrow> (session_err + 'a) \<times> StrictSession \<times> link_io)
    \<Rightarrow> (session_err + 'a) \<times> StrictSession \<times> link_io" where
  "session_op s io body =
     (case session_acquire s of
        (Some e, s1) \<Rightarrow> (Inl e, s1, io)
      | (None, s1) \<Rightarrow>
          (case ssnInitializationErr s1 of
             Some e \<Rightarrow> (Inl (SessionInit e), session_release s1, io)
           | None \<Rightarrow> (case body s1 io of (r, s2, io1) \<Rightarrow> (r, session_release s2, io1))))"

definition on_channel ::
  "(StrictChannel \<Rightarrow> link_io \<Rightarrow> chan_err option \<times> StrictChannel \<times> link_io)
    \<Rightarrow> StrictSession \<Rightarrow> link_io \<Rightarrow> (session_err + unit) \<times> StrictSession \<times> link_io" where
  "on_channel op s io =
     (case op (ssnChannel s) io of
        (Some e, c, io1) \<Rightarrow> (Inl (SessionLink e), s\<lparr>ssnChannel := c\<rparr>, io1)
      | (None, c, io1) \<Rightarrow> (Inr (), s\<lparr>ssnChannel := c\<rparr>, io1))"

definition Session_Reset ::
  "StrictSession \<Rightarrow> handler \<Rightarrow> link_io \<Rightarrow> (session_err + unit) \<times> StrictSession \<times> link_io" where
  "Session_Reset s handler io = session_op s io (on_channel (\<lambda>c io. Reset c handler io))"

definition Session_KeepAlive ::
  "StrictSession \<Rightarrow> handler \<Rightarrow> link_io \<Rightarrow> (session_err + unit) \<times> StrictSession \<times> link_io" where
  "Session_KeepAlive s handler io = session_op s io (on_channel (\<lambda>c io. KeepAlive c handler io))"

section \<open>Sending\<close>

text \<open>The loop over the segments; \<open>index\<close> is the index of the next one.\<close>

fun send_segments ::
  "bool \<Rightarrow> handler \<Rightarrow> nat \<Rightarrow> bytes list \<Rightarrow> StrictChannel \<Rightarrow> link_io
    \<Rightarrow> (nat \<times> chan_err) option \<times> StrictChannel \<times> link_io" where
  "send_segments confirmed handler index [] c io = (None, c, io)"
| "send_segments confirmed handler index (segment # segments) c io =
     (case (if confirmed then SendConfirmed c segment handler io else SendUnconfirmed c segment io) of
        (Some err, c1, io1) \<Rightarrow> (Some (index, err), c1, io1)
      | (None, c1, io1) \<Rightarrow> send_segments confirmed handler (Suc index) segments c1 io1)"

definition sendApplicationLocked ::
  "StrictFragment \<Rightarrow> handler \<Rightarrow> bool \<Rightarrow> StrictSession \<Rightarrow> link_io
    \<Rightarrow> (session_err + unit) \<times> StrictSession \<times> link_io" where
  "sendApplicationLocked fragment handler confirmed s io =
     (case EncodeStrictFragment fragment (ssnMaximumApplication s) of
        Inl err \<Rightarrow> (Inl (SessionFragment err), s, io)
      | Inr encoded \<Rightarrow>
          (case SegmentStrict encoded (ssnNextTransport s) (int MaxDataSize) of
             (Inl err, _) \<Rightarrow> (Inl (SessionTransport err), s, io)
           | (Inr segments, next) \<Rightarrow>
               (case send_segments confirmed handler 0 segments (ssnChannel s) io of
                  (Some (index, err), c, io1) \<Rightarrow>
                    (Inl (SendingSegment index err), s\<lparr>ssnChannel := c\<rparr>, io1)
                | (None, c, io1) \<Rightarrow>
                    (Inr (), s\<lparr>ssnChannel := c, ssnNextTransport := next\<rparr>, io1))))"

definition SendApplication ::
  "StrictSession \<Rightarrow> StrictFragment \<Rightarrow> handler \<Rightarrow> link_io
    \<Rightarrow> (session_err + unit) \<times> StrictSession \<times> link_io" where
  "SendApplication s fragment handler io = session_op s io (sendApplicationLocked fragment handler True)"

definition SendApplicationUnconfirmed ::
  "StrictSession \<Rightarrow> StrictFragment \<Rightarrow> link_io \<Rightarrow> (session_err + unit) \<times> StrictSession \<times> link_io" where
  "SendApplicationUnconfirmed s fragment io =
     session_op s io (sendApplicationLocked fragment None False)"

section \<open>Receiving takes bytes off the stream\<close>

lemma normalizeIOError_reads: "ioReads (snd (normalizeIOError e io)) = ioReads io"
  by (auto simp: normalizeIOError_def poll_def split: list.splits option.splits)

lemma io_ops_reads:
  "ioReads (cleanup io) = ioReads io" "ioReads (snd (installCancellation io)) = ioReads io"
  "ioReads (snd (setOperationDeadline io)) = ioReads io" "ioReads (snd (WriteStrictFrame f io)) = ioReads io"
  by (auto simp: cleanup_def installCancellation_def setOperationDeadline_def set_deadline_def poll_def
      WriteStrictFrame_def split: list.splits option.splits sum.splits prod.splits)

lemma receive_loop_reads:
  "receive_loop s io = (Inr d, s', io') \<Longrightarrow> stream_size (ioReads io') < stream_size (ioReads io)"
proof (induction s io arbitrary: d s' io' rule: receive_loop.induct)
  case (1 s io)
  note res = "1.prems" [unfolded receive_loop.simps [of s io]]
  obtain frame evs where rd: "read_strict_frame (ioReads io) = (Inr frame, evs)"
    using res by (auto split: prod.splits sum.splits)
  obtain act s1 where h: "Handle s frame = (Inr act, s1)"
    using res rd by (auto split: prod.splits sum.splits)
  obtain io1 where w: "send_response act (io\<lparr>ioReads := evs\<rparr>) = (None, io1)"
    using res rd h by (auto split: prod.splits option.splits)
  have reads: "stream_size (ioReads io1) < stream_size (ioReads io)"
    using read_strict_frame_size [OF rd] send_response_reads [OF w] by simp
  show ?case
  proof (cases "length (saUserData act) \<noteq> 0")
    case True
    with res rd h w reads show ?thesis by simp
  next
    case False
    with res rd h w have "receive_loop s1 io1 = (Inr d, s', io')" by simp
    with "1.IH" [OF rd [symmetric] refl h [symmetric] refl w [symmetric] refl] False reads
    show ?thesis by fastforce
  qed
qed

lemma Receive_reads:
  assumes "Receive c dl io = (Inr d, c', io')"
  shows "stream_size (ioReads io') < stream_size (ioReads io)"
proof -
  have d: "ioReads (snd (if dl then setOperationDeadline io1 else (None, io1))) = ioReads io1" for io1
    by (simp add: io_ops_reads)
  obtain s io1 io2 s1 io3 where 1: "installCancellation io = (None, io1)"
    "(if dl then setOperationDeadline io1 else (None, io1)) = (None, io2)"
    "receive_loop s io2 = (Inr d, s1, io3)" "io' = cleanup io3"
    using assms by (auto simp: Receive_def split: prod.splits option.splits sum.splits if_splits)
  have "ioReads io1 = ioReads io" using io_ops_reads(2) [of io] 1(1) by simp
  moreover have "ioReads io2 = ioReads io1" using d [of io1] 1(2) by simp
  ultimately show ?thesis using receive_loop_reads [OF 1(3)] 1(4) by (simp add: io_ops_reads)
qed

lemma SendUnconfirmed_reads: "ioReads (snd (snd (SendUnconfirmed c d io))) = ioReads io"
proof -
  have 1: "ioReads io' = ioReads io" if "installCancellation io = (r, io')" for io io' r
    using io_ops_reads(2) [of io] that by simp
  have 2: "ioReads io' = ioReads io" if "setOperationDeadline io = (r, io')" for io io' r
    using io_ops_reads(3) [of io] that by simp
  have 3: "ioReads io' = ioReads io" if "WriteStrictFrame f io = (r, io')" for io io' r f
    using io_ops_reads(4) [of f io] that by simp
  have 4: "ioReads io' = ioReads io" if "normalizeIOError e io = (r, io')" for io io' r e
    using normalizeIOError_reads [of e io] that by simp
  show ?thesis
    by (auto simp: SendUnconfirmed_def chan_op_def io_ops_reads
        split: prod.splits option.splits sum.splits dest!: 1 2 3 4)
qed

lemma send_segments_reads: "ioReads (snd (snd (send_segments False h i segs c io))) = ioReads io"
proof (induction segs arbitrary: i c io)
  case Nil
  then show ?case by simp
next
  case (Cons t segs)
  obtain r c1 io1 where t: "SendUnconfirmed c t io = (r, c1, io1)" by (metis prod_cases3)
  then show ?case using SendUnconfirmed_reads [of c t io] Cons by (auto split: option.split)
qed

lemma sendApplicationLocked_reads:
  "sendApplicationLocked f h False s io = (r, s', io') \<Longrightarrow> ioReads io' = ioReads io"
  using send_segments_reads [of h 0]
  by (auto simp: sendApplicationLocked_def split: sum.splits prod.splits option.splits)
    (metis snd_conv)+

section \<open>Receiving\<close>

text \<open>
  The loop of \<open>ReceiveApplication\<close>; \<open>dl\<close> says whether the context carries a deadline. A
  fragment that asks for it is confirmed, then its flag is cleared.
\<close>

definition confirmation :: "StrictFragment \<Rightarrow> StrictFragment" where
  "confirmation fragment =
     \<lparr>stFIR = True, stFIN = True, stCON = False, stUNS = stUNS fragment,
      stSequence = stSequence fragment, stFunction = 0, stIIN = 0, stObjects = []\<rparr>"

definition confirm_fragment ::
  "StrictFragment \<Rightarrow> StrictSession \<Rightarrow> link_io
    \<Rightarrow> (session_err + StrictFragment) \<times> StrictSession \<times> link_io" where
  "confirm_fragment fragment s io =
     (if stCON fragment
      then (case sendApplicationLocked (confirmation fragment) None False s io of
              (Inl err, s1, io1) \<Rightarrow> (Inl (ConfirmingFragment err), s1, io1)
            | (Inr _, s1, io1) \<Rightarrow> (Inr (fragment\<lparr>stCON := False\<rparr>), s1, io1))
      else (Inr fragment, s, io))"

function receive_application ::
  "bool \<Rightarrow> StrictSession \<Rightarrow> link_io \<Rightarrow> (session_err + StrictFragment) \<times> StrictSession \<times> link_io" where
  "receive_application dl s io =
     (case Receive (ssnChannel s) dl io of
        (Inl err, c, io1) \<Rightarrow> (Inl (SessionLink err), s\<lparr>ssnChannel := c\<rparr>, io1)
      | (Inr segment, c, io1) \<Rightarrow>
          (let s1 = s\<lparr>ssnChannel := c\<rparr> in
           case Push (ssnTransportInput s1) segment of
             (Inl err, t) \<Rightarrow> (Inl (SessionTransport err), s1\<lparr>ssnTransportInput := t\<rparr>, io1)
           | (Inr None, t) \<Rightarrow> receive_application dl (s1\<lparr>ssnTransportInput := t\<rparr>) io1
           | (Inr (Some encoded), t) \<Rightarrow>
               (let s2 = s1\<lparr>ssnTransportInput := t\<rparr> in
                case DecodeStrictFragment encoded (ssnMaximumApplication s2) of
                  Inl err \<Rightarrow> (Inl (SessionFragment err), s2, io1)
                | Inr fragment \<Rightarrow>
                    (case confirm_fragment fragment s2 io1 of
                       (Inl err, s3, io2) \<Rightarrow> (Inl err, s3, io2)
                     | (Inr fragment', s3, io2) \<Rightarrow>
                         (case AppReassembler_Push (ssnApplicationInput s3) fragment' of
                            (Inl err, a) \<Rightarrow> (Inl (SessionCollect err), s3\<lparr>ssnApplicationInput := a\<rparr>, io2)
                          | (Inr (Some complete), a) \<Rightarrow>
                              (Inr complete, s3\<lparr>ssnApplicationInput := a\<rparr>, io2)
                          | (Inr None, a) \<Rightarrow>
                              receive_application dl (s3\<lparr>ssnApplicationInput := a\<rparr>) io2)))))"
  by pat_completeness auto

lemma confirm_fragment_reads:
  "confirm_fragment f s io = (r, s', io') \<Longrightarrow> ioReads io' = ioReads io"
  by (auto simp: confirm_fragment_def dest: sendApplicationLocked_reads
      split: if_splits prod.splits sum.splits)

termination receive_application
  by (relation "measure (\<lambda>(dl, s, io). stream_size (ioReads io))")
    (auto dest!: Receive_reads [OF sym] confirm_fragment_reads [OF sym])

declare receive_application.simps [simp del]

definition ReceiveApplication ::
  "StrictSession \<Rightarrow> bool \<Rightarrow> link_io \<Rightarrow> (session_err + StrictFragment) \<times> StrictSession \<times> link_io" where
  "ReceiveApplication s dl io = session_op s io (receive_application dl)"

section \<open>What a session writes\<close>

text \<open>A channel that is configured, idle and in the given link state.\<close>

definition channel_in :: "StrictChannel \<Rightarrow> StrictState \<Rightarrow> bool" where
  "channel_in c st \<longleftrightarrow> chConnected c \<and> chState c = Some st \<and> 0 < chResponseTimeout c
     \<and> 0 \<le> chMaximumRetries c \<and> \<not> chBusy c"

definition data_frame :: "StrictState \<Rightarrow> bytes \<Rightarrow> StrictFrame" where
  "data_frame st d = \<lparr>sfControl = primaryControl st 4 False False, sfDestination = remoteAddress st,
     sfSource = localAddress st, sfUserData = d\<rparr>"

definition data_wire :: "StrictState \<Rightarrow> bytes \<Rightarrow> bytes" where
  "data_wire st d = (case EncodeStrictFrame (data_frame st d) of Inr w \<Rightarrow> w | Inl _ \<Rightarrow> [])"

definition payload :: "bytes \<Rightarrow> bool" where
  "payload d \<longleftrightarrow> d \<noteq> [] \<and> length d \<le> MaxDataSize"

lemma data_frame_encodes:
  assumes "payload d"
  shows "Unconfirmed st d = Inr (data_frame st d)"
    and "EncodeStrictFrame (data_frame st d) = Inr (data_wire st d)"
proof -
  show "Unconfirmed st d = Inr (data_frame st d)"
    using assms by (simp add: Unconfirmed_def data_frame_def payload_def)
  have "sendable st (data_frame st d)"
    using assms by (intro sendable_primary) (simp_all add: data_frame_def payload_def)
  then obtain w where "EncodeStrictFrame (data_frame st d) = Inr w" using sendable_encodes by blast
  then show "EncodeStrictFrame (data_frame st d) = Inr (data_wire st d)" by (simp add: data_wire_def)
qed

lemma channel_in_upd: "channel_in c st \<Longrightarrow> release (c\<lparr>chBusy := True, chState := Some st\<rparr>) = c"
  by (cases c) (simp add: channel_in_def release_def)

lemma SendUnconfirmed_quiet:
  assumes "channel_in c st" and "quiet io" and "payload d"
  shows "SendUnconfirmed c d io = (None, c, io\<lparr>ioSent := ioSent io @ data_wire st d\<rparr>)"
  using assms data_frame_encodes [OF assms(3), of st] channel_in_upd [OF assms(1)]
    quiet_ops [of "io\<lparr>ioSent := ioSent io @ data_wire st d\<rparr>"]
  by (simp add: SendUnconfirmed_def chan_op_def acquire_def chan_validate_def channel_in_def quiet_ops)

lemma send_segments_quiet:
  assumes "channel_in c st" and "quiet io" and "\<forall>t\<in>set segs. payload t"
  shows "send_segments False h i segs c io
    = (None, c, io\<lparr>ioSent := ioSent io @ concat (map (data_wire st) segs)\<rparr>)"
  using assms(2,3)
proof (induction segs arbitrary: i io)
  case Nil
  then show ?case by simp
next
  case (Cons t segs)
  then show ?case using SendUnconfirmed_quiet [OF assms(1), of io t] by simp
qed

text \<open>The segments of an encoded fragment, and the bytes written for it.\<close>

definition segments_of :: "byte \<Rightarrow> bytes \<Rightarrow> bytes list" where
  "segments_of q encoded = map strict_bytes (number_chunks True (q AND 0x3F) (chunks 249 encoded))"

definition session_wire :: "StrictState \<Rightarrow> byte \<Rightarrow> bytes \<Rightarrow> bytes" where
  "session_wire st q encoded = concat (map (data_wire st) (segments_of q encoded))"

lemma SegmentStrict_ok:
  assumes "d \<noteq> []"
  shows "SegmentStrict d q 250 = (Inr (segments_of q d), snd (SegmentStrict d q 250))"
proof -
  obtain segs q' where s: "SegmentStrict d q 250 = (Inr segs, q')"
    using assms by (cases "SegmentStrict_loop d 249 0 (q AND 0x3F)") (simp add: SegmentStrict_def)
  with SegmentStrict_chunks(4) [OF s] show ?thesis by (simp add: segments_of_def)
qed

lemma session_same_channel [simp]: "s\<lparr>ssnChannel := ssnChannel s\<rparr> = s"
  by (cases s) simp

lemma segment_payload:
  assumes "t \<in> set (segments_of q d)"
  shows "payload t"
proof -
  obtain g where g: "t = strict_bytes g" "sgData g \<in> set (chunks 249 d)"
    using assms number_chunks_mem by (fastforce simp: segments_of_def)
  have "length (sgData g) \<le> 249" using chunks_sizes [of 249 d] g(2) by simp
  then show ?thesis by (simp add: g(1) payload_def strict_bytes_def Let_def)
qed

lemma EncodeStrictFragment_nonempty: "EncodeStrictFragment f m = Inr w \<Longrightarrow> w \<noteq> []"
  by (auto simp: EncodeStrictFragment_iff)

definition next_transport :: "byte \<Rightarrow> bytes \<Rightarrow> byte" where
  "next_transport q encoded = snd (SegmentStrict encoded q 250)"

lemma sendApplicationLocked_quiet:
  assumes "channel_in (ssnChannel s) st" and "quiet io"
    and "EncodeStrictFragment f (ssnMaximumApplication s) = Inr encoded"
  shows "sendApplicationLocked f h False s io
    = (Inr (), s\<lparr>ssnNextTransport := next_transport (ssnNextTransport s) encoded\<rparr>,
       io\<lparr>ioSent := ioSent io @ session_wire st (ssnNextTransport s) encoded\<rparr>)"
proof -
  have q: "SegmentStrict encoded (ssnNextTransport s) 250
      = (Inr (segments_of (ssnNextTransport s) encoded), next_transport (ssnNextTransport s) encoded)"
    using SegmentStrict_ok [OF EncodeStrictFragment_nonempty [OF assms(3)]] by (simp add: next_transport_def)
  have "\<forall>t\<in>set (segments_of (ssnNextTransport s) encoded). payload t"
    by (blast intro: segment_payload)
  from send_segments_quiet [OF assms(1,2) this] q assms(3) show ?thesis
    by (simp add: sendApplicationLocked_def session_wire_def)
qed

section \<open>What a session reads\<close>

lemma receive_loop_data:
  assumes "peers st sp" and "payload d" and "delivers (ioReads io)"
    and "stream_bytes (ioReads io) = data_wire st d @ after"
  shows "\<exists>evs. receive_loop sp io = (Inr d, sp, io\<lparr>ioReads := evs\<rparr>) \<and> delivers evs \<and> stream_bytes evs = after"
proof -
  obtain evs where evs: "read_strict_frame (ioReads io) = (Inr (data_frame st d), evs)"
    "delivers evs" "stream_bytes evs = after"
    using read_strict_frame_any_cut [OF data_frame_encodes(2) [OF assms(2)] assms(3,4)] by blast
  have "Handle sp (data_frame st d) = (Inr (no_action\<lparr>saUserData := d\<rparr>), sp)"
    using Handle_unconfirmed [OF assms(1), of "data_frame st d"] assms(2)
    by (simp add: data_frame_def pending_frame_def payload_def)
  then have "receive_loop sp io = (Inr d, sp, io\<lparr>ioReads := evs\<rparr>)"
    using evs assms(2) by (subst receive_loop.simps) (simp add: send_response_def no_action_def payload_def)
  with evs show ?thesis by blast
qed

lemma Receive_data:
  assumes "channel_in c sp" and "peers st sp" and "quiet io" and "payload d" and "delivers (ioReads io)"
    and "stream_bytes (ioReads io) = data_wire st d @ after"
  shows "\<exists>evs. Receive c dl io = (Inr d, c, io\<lparr>ioReads := evs\<rparr>) \<and> delivers evs \<and> stream_bytes evs = after"
proof -
  obtain evs where evs: "receive_loop sp io = (Inr d, sp, io\<lparr>ioReads := evs\<rparr>)" "delivers evs"
    "stream_bytes evs = after"
    using receive_loop_data [OF assms(2,4,5,6)] by blast
  then have "Receive c dl io = (Inr d, c, io\<lparr>ioReads := evs\<rparr>)"
    using assms(1,3) channel_in_upd [OF assms(1)] quiet_ops [of "io\<lparr>ioReads := evs\<rparr>"]
    by (simp add: Receive_def acquire_def chan_validate_def channel_in_def quiet_ops)
  with evs show ?thesis by blast
qed

lemma Push_segment:
  assumes "sgSeq g AND 0x3F = sgSeq g" and "sgData g \<noteq> []"
    and "sgFIR g \<or> srActive r \<and> srNextSequence r = sgSeq g"
    and "got = (if sgFIR g then [] else srFragment r)"
    and "int (length got + length (sgData g)) \<le> srMaximumFragment r"
  shows "Push r (strict_bytes g) =
    (if sgFIN g then (Inr (Some (got @ sgData g)), StrictReassembler_Reset r)
     else (Inr None, r\<lparr>srActive := True, srNextSequence := next_seq (sgSeq g), srFragment := got @ sgData g\<rparr>))"
proof -
  have "\<not> length (strict_bytes g) < 2"
    using assms(2) by (cases "sgData g") (auto simp: strict_bytes_def Let_def)
  then show ?thesis
    using assms strict_segment_bytes [OF assms(1)]
    by (cases r; cases "sgFIR g")
      (auto simp: Push_def push_parts_def StrictReassembler_Reset_def next_seq_def Let_def)
qed

text \<open>What \<open>ReceiveApplication\<close> does with a complete transport fragment.\<close>

definition deliver_encoded ::
  "bool \<Rightarrow> bytes \<Rightarrow> StrictSession \<Rightarrow> link_io \<Rightarrow> (session_err + StrictFragment) \<times> StrictSession \<times> link_io" where
  "deliver_encoded dl encoded s2 io1 =
     (case DecodeStrictFragment encoded (ssnMaximumApplication s2) of
        Inl err \<Rightarrow> (Inl (SessionFragment err), s2, io1)
      | Inr fragment \<Rightarrow>
          (case confirm_fragment fragment s2 io1 of
             (Inl err, s3, io2) \<Rightarrow> (Inl err, s3, io2)
           | (Inr fragment', s3, io2) \<Rightarrow>
               (case AppReassembler_Push (ssnApplicationInput s3) fragment' of
                  (Inl err, a) \<Rightarrow> (Inl (SessionCollect err), s3\<lparr>ssnApplicationInput := a\<rparr>, io2)
                | (Inr (Some complete), a) \<Rightarrow> (Inr complete, s3\<lparr>ssnApplicationInput := a\<rparr>, io2)
                | (Inr None, a) \<Rightarrow> receive_application dl (s3\<lparr>ssnApplicationInput := a\<rparr>) io2)))"

lemma receive_chunks:
  assumes "channel_in (ssnChannel s) sp" and "peers st sp" and "quiet io" and "cs \<noteq> []"
    and "\<forall>c\<in>set cs. c \<noteq> [] \<and> length c \<le> 249" and "q AND 0x3F = q"
    and "fir \<or> srActive (ssnTransportInput s) \<and> srNextSequence (ssnTransportInput s) = q"
    and "got = (if fir then [] else srFragment (ssnTransportInput s))"
    and "int (length (got @ concat cs)) \<le> srMaximumFragment (ssnTransportInput s)"
    and "delivers (ioReads io)"
    and "stream_bytes (ioReads io)
      = concat (map (data_wire st) (map strict_bytes (number_chunks fir q cs))) @ after"
  shows "\<exists>evs. delivers evs \<and> stream_bytes evs = after
    \<and> receive_application dl s io = deliver_encoded dl (got @ concat cs)
        (s\<lparr>ssnTransportInput := StrictReassembler_Reset (ssnTransportInput s)\<rparr>) (io\<lparr>ioReads := evs\<rparr>)"
  using assms
proof (induction cs arbitrary: s io q fir got)
  case Nil
  then show ?case by simp
next
  case (Cons c cs)
  let ?g = "\<lparr>sgFIR = fir, sgFIN = (cs = []), sgSeq = q, sgData = c\<rparr>"
  let ?t = "ssnTransportInput s"
  have "payload (strict_bytes ?g)"
    using Cons.prems(5) by (simp add: payload_def strict_bytes_def Let_def)
  then obtain evs where evs: "Receive (ssnChannel s) dl io = (Inr (strict_bytes ?g), ssnChannel s, io\<lparr>ioReads := evs\<rparr>)"
    "delivers evs"
    "stream_bytes evs = concat (map (data_wire st) (map strict_bytes (number_chunks False (next_seq q) cs))) @ after"
    using Receive_data [OF Cons.prems(1-3) _ Cons.prems(10), of "strict_bytes ?g"] Cons.prems(11) by auto
  have push: "Push ?t (strict_bytes ?g) =
    (if cs = [] then (Inr (Some (got @ c)), StrictReassembler_Reset ?t)
     else (Inr None, ?t\<lparr>srActive := True, srNextSequence := next_seq q, srFragment := got @ c\<rparr>))"
    using Push_segment [of ?g ?t got] Cons.prems(5-9) by simp
  show ?case
  proof (cases "cs = []")
    case True
    then have "receive_application dl s io = deliver_encoded dl (got @ c)
        (s\<lparr>ssnTransportInput := StrictReassembler_Reset ?t\<rparr>) (io\<lparr>ioReads := evs\<rparr>)"
      using evs(1) push by (subst receive_application.simps) (simp add: deliver_encoded_def Let_def cong del: sum.case_cong_weak)
    with evs(2,3) True show ?thesis by auto
  next
    case False
    let ?s = "s\<lparr>ssnTransportInput := ?t\<lparr>srActive := True, srNextSequence := next_seq q, srFragment := got @ c\<rparr>\<rparr>"
    have "receive_application dl s io = receive_application dl ?s (io\<lparr>ioReads := evs\<rparr>)"
      using evs(1) push False by (subst receive_application.simps) (simp add: Let_def)
    moreover have "\<exists>evs'. delivers evs' \<and> stream_bytes evs' = after
        \<and> receive_application dl ?s (io\<lparr>ioReads := evs\<rparr>) = deliver_encoded dl ((got @ c) @ concat cs)
            (?s\<lparr>ssnTransportInput := StrictReassembler_Reset (ssnTransportInput ?s)\<rparr>)
            (io\<lparr>ioReads := evs, ioReads := evs'\<rparr>)"
      using Cons.prems False evs(2,3) by (intro Cons.IH [where s = ?s and fir = False and q = "next_seq q"]) simp_all
    ultimately show ?thesis by (simp add: StrictReassembler_Reset_def)
  qed
qed

section \<open>Delivery\<close>

text \<open>
  A session in the middle of a message: its link state is idle, its transport input is empty
  and its application input holds the fragments \<open>run\<close>; both inputs are bounded by \<open>m\<close>.
  Between operations it is also initialized and not busy, and between messages \<open>run\<close> is empty.
\<close>

definition session_holds :: "StrictSession \<Rightarrow> StrictState \<Rightarrow> int \<Rightarrow> StrictFragment list \<Rightarrow> bool" where
  "session_holds s st m run \<longleftrightarrow> channel_in (ssnChannel s) st
     \<and> ssnMaximumApplication s = m \<and> srMaximumFragment (ssnTransportInput s) = m
     \<and> StrictReassembler_Reset (ssnTransportInput s) = ssnTransportInput s
     \<and> ssnApplicationInput s = collected m run"

definition session_idle :: "StrictSession \<Rightarrow> StrictState \<Rightarrow> int \<Rightarrow> bool" where
  "session_idle s st m \<longleftrightarrow> session_holds s st m [] \<and> ssnInitializationErr s = None \<and> \<not> ssnBusy s"

lemma session_op_idle:
  assumes "session_idle s st m" and "body (s\<lparr>ssnBusy := True\<rparr>) io = (r, s2, io1)"
  shows "session_op s io body = (r, s2\<lparr>ssnBusy := False\<rparr>, io1)"
  using assms by (simp add: session_op_def session_acquire_def session_release_def session_idle_def)

lemma new_session_idle:
  assumes "2 \<le> m" and "0 < timeout" and "0 \<le> retries"
  shows "session_idle (NewStrictSession True local remote isMaster timeout retries m)
    (NewStrictState local remote isMaster) m"
  using assms
  by (simp add: session_idle_def session_holds_def NewStrictSession_def NewStrictReassembler_def
      channel_in_def NewStrictChannel_def StrictReassembler_Reset_def collected_Nil)

text \<open>Sending fragments one after the other, and the bytes and sequence number that takes.\<close>

fun send_fragments ::
  "StrictSession \<Rightarrow> StrictFragment list \<Rightarrow> link_io \<Rightarrow> (session_err + unit) \<times> StrictSession \<times> link_io" where
  "send_fragments s [] io = (Inr (), s, io)"
| "send_fragments s (f # fs) io =
     (case SendApplicationUnconfirmed s f io of
        (Inl err, s1, io1) \<Rightarrow> (Inl err, s1, io1)
      | (Inr _, s1, io1) \<Rightarrow> send_fragments s1 fs io1)"

fun session_stream :: "StrictState \<Rightarrow> int \<Rightarrow> byte \<Rightarrow> StrictFragment list \<Rightarrow> bytes \<times> byte" where
  "session_stream st m q [] = ([], q)"
| "session_stream st m q (f # fs) =
     (case EncodeStrictFragment f m of
        Inl _ \<Rightarrow> ([], q)
      | Inr encoded \<Rightarrow>
          (case session_stream st m (next_transport q encoded) fs of
             (w, q') \<Rightarrow> (session_wire st q encoded @ w, q')))"

lemma SendUnconfirmed_idle:
  assumes "session_idle s st m" and "quiet io" and "EncodeStrictFragment f m = Inr encoded"
  shows "SendApplicationUnconfirmed s f io
    = (Inr (), s\<lparr>ssnNextTransport := next_transport (ssnNextTransport s) encoded\<rparr>,
       io\<lparr>ioSent := ioSent io @ session_wire st (ssnNextTransport s) encoded\<rparr>)"
proof -
  have "sendApplicationLocked f None False (s\<lparr>ssnBusy := True\<rparr>) io
    = (Inr (), s\<lparr>ssnBusy := True, ssnNextTransport := next_transport (ssnNextTransport s) encoded\<rparr>,
       io\<lparr>ioSent := ioSent io @ session_wire st (ssnNextTransport s) encoded\<rparr>)"
    using sendApplicationLocked_quiet [of "s\<lparr>ssnBusy := True\<rparr>" st io f encoded None] assms
    by (simp add: session_idle_def session_holds_def)
  from session_op_idle [where body = "sendApplicationLocked f None False", OF assms(1) this] assms(1)
  show ?thesis
    by (cases s) (simp add: SendApplicationUnconfirmed_def session_idle_def)
qed

lemma session_idle_next [simp]: "session_idle (s\<lparr>ssnNextTransport := q\<rparr>) st m = session_idle s st m"
  by (simp add: session_idle_def session_holds_def)

lemma send_fragments_idle:
  assumes "session_idle s st m" and "quiet io" and "\<forall>f\<in>set fs. is_ok (EncodeStrictFragment f m)"
  shows "send_fragments s fs io
    = (Inr (), s\<lparr>ssnNextTransport := snd (session_stream st m (ssnNextTransport s) fs)\<rparr>,
       io\<lparr>ioSent := ioSent io @ fst (session_stream st m (ssnNextTransport s) fs)\<rparr>)"
  using assms
proof (induction fs arbitrary: s io)
  case Nil
  then show ?case by simp
next
  case (Cons f fs)
  then obtain encoded where e: "EncodeStrictFragment f m = Inr encoded" by (auto split: sum.splits)
  show ?case
    using SendUnconfirmed_idle [OF Cons.prems(1,2) e] e Cons.prems
      Cons.IH [of "s\<lparr>ssnNextTransport := next_transport (ssnNextTransport s) encoded\<rparr>"
        "io\<lparr>ioSent := ioSent io @ session_wire st (ssnNextTransport s) encoded\<rparr>"]
    by (simp split: prod.split)
qed

text \<open>What the receiver does with one encoded fragment, whatever segments it came in.\<close>

lemma receive_encoded:
  assumes "channel_in (ssnChannel s) sp" and "peers st sp" and "quiet io" and "w \<noteq> []"
    and "int (length w) \<le> srMaximumFragment (ssnTransportInput s)" and "delivers (ioReads io)"
    and "stream_bytes (ioReads io) = session_wire st q w @ after"
  shows "\<exists>evs. delivers evs \<and> stream_bytes evs = after
    \<and> receive_application dl s io = deliver_encoded dl w
        (s\<lparr>ssnTransportInput := StrictReassembler_Reset (ssnTransportInput s)\<rparr>) (io\<lparr>ioReads := evs\<rparr>)"
proof -
  have "chunks 249 w \<noteq> []" "concat (chunks 249 w) = w"
    using assms(4) concat_chunks [of 249 w] by auto
  moreover have "\<forall>c\<in>set (chunks 249 w). c \<noteq> [] \<and> length c \<le> 249"
    using chunks_sizes [of 249 w] by auto
  ultimately show ?thesis
    using receive_chunks [OF assms(1-3), where fir = True and cs = "chunks 249 w" and q = "q AND 0x3F"
        and got = "[]" and after = "after" and dl = dl] assms(5-7)
    by (simp add: session_wire_def segments_of_def and.assoc)
qed

definition unconfirmed :: "StrictFragment \<Rightarrow> StrictFragment" where
  "unconfirmed f = f\<lparr>stCON := False\<rparr>"

lemma unconfirmed_simps [simp]:
  "stFIR (unconfirmed f) = stFIR f" "stFIN (unconfirmed f) = stFIN f" "\<not> stCON (unconfirmed f)"
  "stUNS (unconfirmed f) = stUNS f" "stSequence (unconfirmed f) = stSequence f"
  "stFunction (unconfirmed f) = stFunction f" "stIIN (unconfirmed f) = stIIN f"
  "stObjects (unconfirmed f) = stObjects f"
  by (simp_all add: unconfirmed_def)

lemma confirmation_encodes:
  assumes "EncodeStrictFragment f m = Inr w" and "2 \<le> m'"
  shows "is_ok (EncodeStrictFragment (confirmation f) m')"
proof -
  have "stSequence f \<le> 15" using assms(1) by (simp add: EncodeStrictFragment_iff)
  with assms(2) show ?thesis
    by (simp add: EncodeStrictFragment_def confirmation_def isStrictResponse_def Let_def not_less)
qed

lemma confirm_fragment_quiet:
  assumes "channel_in (ssnChannel s) sp" and "quiet io" and "ssnMaximumApplication s = m"
    and "is_ok (EncodeStrictFragment (confirmation f) m)"
  shows "confirm_fragment f s io = (case session_stream sp m (ssnNextTransport s) (if stCON f then [confirmation f] else []) of
    (w, q') \<Rightarrow> (Inr (unconfirmed f), s\<lparr>ssnNextTransport := q'\<rparr>, io\<lparr>ioSent := ioSent io @ w\<rparr>))"
proof -
  obtain c where c: "EncodeStrictFragment (confirmation f) m = Inr c" using assms(4) by (auto split: sum.splits)
  show ?thesis
    using sendApplicationLocked_quiet [OF assms(1,2), of "confirmation f" c None] assms(3) c
    by (cases f) (auto simp: confirm_fragment_def unconfirmed_def)
qed

lemma receive_fragments:
  assumes "session_holds r sp m run" and "peers st sp" and "quiet io" and "2 \<le> m" and "fs \<noteq> []"
    and "complete_message (run @ map unconfirmed fs)"
    and "int (length (run_objects (run @ map unconfirmed fs))) \<le> m"
    and "\<forall>f\<in>set fs. \<exists>w. EncodeStrictFragment f n = Inr w \<and> int (length w) \<le> m \<and> fragment_ok f"
    and "delivers (ioReads io)" and "stream_bytes (ioReads io) = fst (session_stream st n q fs) @ after"
  shows "\<exists>evs. delivers evs \<and> stream_bytes evs = after \<and> receive_application dl r io =
    (case session_stream sp m (ssnNextTransport r) (map confirmation (filter stCON fs)) of
      (w, q') \<Rightarrow> (Inr (joined (run @ map unconfirmed fs)),
        r\<lparr>ssnNextTransport := q', ssnApplicationInput := NewAppReassembler m\<rparr>,
        io\<lparr>ioReads := evs, ioSent := ioSent io @ w\<rparr>))"
  using assms
proof (induction fs arbitrary: r run io q)
  case Nil
  then show ?case by simp
next
  case (Cons f fs)
  note r = Cons.prems(1) [unfolded session_holds_def]
  obtain w where w: "EncodeStrictFragment f n = Inr w" "int (length w) \<le> m" "fragment_ok f"
    using Cons.prems(8) by auto
  have dec: "DecodeStrictFragment w m = Inr f"
    using w Cons.prems(4) by (simp add: DecodeStrictFragment_iff EncodeStrictFragment_iff)
  let ?C = "session_stream sp m (ssnNextTransport r) (if stCON f then [confirmation f] else [])"
  have conf: "is_ok (EncodeStrictFragment (confirmation f) m)"
    using confirmation_encodes [OF w(1) Cons.prems(4)] .
  obtain evs where evs: "delivers evs"
    "stream_bytes evs = fst (session_stream st n (next_transport q w) fs) @ after"
    "receive_application dl r io = deliver_encoded dl w r (io\<lparr>ioReads := evs\<rparr>)"
    using receive_encoded [of r sp st io w q _ dl] r Cons.prems(2,3,9,10) w
      EncodeStrictFragment_nonempty [OF w(1)] by (auto split: prod.splits)
  let ?r1 = "r\<lparr>ssnNextTransport := snd ?C\<rparr>" and ?io1 = "io\<lparr>ioReads := evs, ioSent := ioSent io @ fst ?C\<rparr>"
  have cf: "confirm_fragment f r (io\<lparr>ioReads := evs\<rparr>) = (Inr (unconfirmed f), ?r1, ?io1)"
    using confirm_fragment_quiet [of r sp "io\<lparr>ioReads := evs\<rparr>" m f] r Cons.prems(3) conf
    by (simp split: prod.split)
  have part: "message_part (run @ [unconfirmed f])"
    using Cons.prems(6) message_part_prefix [of "run @ [unconfirmed f]" "map unconfirmed fs"]
    by (simp add: complete_message_def)
  then have "run = [] \<or> message_part run" using message_part_prefix by blast
  moreover have "int (length (run_objects (run @ [unconfirmed f]))) \<le> m"
    using Cons.prems(7) by (simp add: run_objects_def)
  ultimately have "extends m run (unconfirmed f)" using extends_part part by blast
  then have push: "AppReassembler_Push (ssnApplicationInput r) (unconfirmed f) =
    (if stFIN f then (Inr (Some (joined (run @ [unconfirmed f]))), collected m [])
     else (Inr None, collected m (run @ [unconfirmed f])))"
    using AppReassembler_Push_taken [of m run "unconfirmed f"] r Cons.prems(4) by simp
  show ?case
  proof (cases "fs = []")
    case True
    then have "stFIN f" using Cons.prems(6) by (simp add: complete_message_def)
    then have "receive_application dl r io = (Inr (joined (run @ [unconfirmed f])),
      ?r1\<lparr>ssnApplicationInput := NewAppReassembler m\<rparr>, ?io1)"
      using evs(3) dec cf push r by (simp add: deliver_encoded_def collected_Nil)
    with True evs(1,2) show ?thesis by (auto split: prod.split)
  next
    case False
    then have fin: "\<not> stFIN f" using Cons.prems(6) by (simp add: complete_message_def butlast_append)
    let ?r2 = "?r1\<lparr>ssnApplicationInput := collected m (run @ [unconfirmed f])\<rparr>"
    have step: "receive_application dl r io = receive_application dl ?r2 ?io1"
      using evs(3) dec cf push fin r by (simp add: deliver_encoded_def)
    have "session_holds ?r2 sp m (run @ [unconfirmed f])" using r by (simp add: session_holds_def)
    then obtain evs' where evs': "delivers evs'" "stream_bytes evs' = after"
      "receive_application dl ?r2 ?io1 =
        (case session_stream sp m (ssnNextTransport ?r2) (map confirmation (filter stCON fs)) of
          (w, q') \<Rightarrow> (Inr (joined ((run @ [unconfirmed f]) @ map unconfirmed fs)),
            ?r2\<lparr>ssnNextTransport := q', ssnApplicationInput := NewAppReassembler m\<rparr>,
            ?io1\<lparr>ioReads := evs', ioSent := ioSent ?io1 @ w\<rparr>))"
      using Cons.IH [of ?r2 "run @ [unconfirmed f]" ?io1 "next_transport q w"] Cons.prems False evs(1,2)
      by auto
    have "session_stream sp m (ssnNextTransport r) (map confirmation (filter stCON (f # fs)))
      = (case session_stream sp m (snd ?C) (map confirmation (filter stCON fs)) of
          (w, q') \<Rightarrow> (fst ?C @ w, q'))"
      using conf by (auto split: sum.splits prod.splits)
    with step evs' show ?thesis by (auto split: prod.splits)
  qed
qed

lemma follows_unconfirmed: "follows q fn uns (map unconfirmed fs) = follows q fn uns fs"
  by (induction q fn uns fs rule: follows.induct) auto

lemma complete_unconfirmed: "complete_message msg \<Longrightarrow> complete_message (map unconfirmed msg)"
  by (cases msg)
    (auto simp: complete_message_def follows_unconfirmed last_map simp flip: map_butlast)

lemma run_objects_unconfirmed [simp]: "run_objects (map unconfirmed fs) = run_objects fs"
  by (simp add: run_objects_def comp_def)

section \<open>What a session buffers\<close>

text \<open>The operations a client may call, and what a sequence of them hands over.\<close>

datatype session_operation =
    CallReset handler
  | CallKeepAlive handler
  | CallSend StrictFragment handler
  | CallSendUnconfirmed StrictFragment
  | CallReceive bool

definition session_call ::
  "StrictSession \<Rightarrow> link_io \<Rightarrow> session_operation \<Rightarrow> StrictFragment option \<times> StrictSession \<times> link_io" where
  "session_call s io call =
     (case call of
        CallReset h \<Rightarrow> (None, snd (Session_Reset s h io))
      | CallKeepAlive h \<Rightarrow> (None, snd (Session_KeepAlive s h io))
      | CallSend f h \<Rightarrow> (None, snd (SendApplication s f h io))
      | CallSendUnconfirmed f \<Rightarrow> (None, snd (SendApplicationUnconfirmed s f io))
      | CallReceive dl \<Rightarrow>
          (case ReceiveApplication s dl io of (r, s', io') \<Rightarrow>
             ((case r of Inl _ \<Rightarrow> None | Inr f \<Rightarrow> Some f), s', io')))"

fun session_calls ::
  "StrictSession \<Rightarrow> link_io \<Rightarrow> session_operation list \<Rightarrow> StrictFragment list \<times> StrictSession \<times> link_io" where
  "session_calls s io [] = ([], s, io)"
| "session_calls s io (call # calls) =
     (case session_call s io call of (out, s1, io1) \<Rightarrow>
        (case session_calls s1 io1 calls of (outs, s2, io2) \<Rightarrow>
           ((case out of None \<Rightarrow> outs | Some f \<Rightarrow> f # outs), s2, io2)))"

definition session_bounded :: "int \<Rightarrow> StrictSession \<Rightarrow> bool" where
  "session_bounded m s \<longleftrightarrow> arMaximumObjects (ssnApplicationInput s) = m
     \<and> srMaximumFragment (ssnTransportInput s) = m
     \<and> int (length (arObjects (ssnApplicationInput s))) \<le> m \<and> \<not> arConfirm (ssnApplicationInput s)
     \<and> int (length (srFragment (ssnTransportInput s))) \<le> m"

definition message_bounded :: "int \<Rightarrow> StrictFragment \<Rightarrow> bool" where
  "message_bounded m f \<longleftrightarrow> stFIR f \<and> stFIN f \<and> \<not> stCON f \<and> int (length (stObjects f)) \<le> m"

lemma session_bounded_upd [simp]:
  "session_bounded m (s\<lparr>ssnChannel := c\<rparr>) = session_bounded m s"
  "session_bounded m (s\<lparr>ssnNextTransport := q\<rparr>) = session_bounded m s"
  "session_bounded m (s\<lparr>ssnBusy := b\<rparr>) = session_bounded m s"
  by (simp_all add: session_bounded_def)

lemma on_channel_bounded:
  "on_channel op s io = (r, s', io') \<Longrightarrow> session_bounded m s' = session_bounded m s"
  by (auto simp: on_channel_def split: prod.splits option.splits)

lemma sendApplicationLocked_bounded:
  "sendApplicationLocked f h b s io = (r, s', io') \<Longrightarrow> session_bounded m s' = session_bounded m s"
  by (auto simp: sendApplicationLocked_def split: prod.splits option.splits sum.splits)

lemma confirm_fragment_bounded:
  "confirm_fragment f s io = (r, s', io') \<Longrightarrow> session_bounded m s' = session_bounded m s"
  and confirm_fragment_cleared: "confirm_fragment f s io = (Inr f', s', io') \<Longrightarrow> \<not> stCON f'"
  by (auto simp: confirm_fragment_def dest: sendApplicationLocked_bounded
      split: if_splits prod.splits sum.splits)

lemma push_parts_bounded:
  assumes "push_parts t g = (r, t')" and "int (length (srFragment t)) \<le> srMaximumFragment t"
  shows "srMaximumFragment t' = srMaximumFragment t \<and> int (length (srFragment t')) \<le> srMaximumFragment t"
  using assms by (auto simp: push_parts_def StrictReassembler_Reset_def Let_def split: if_splits)

lemma Push_bounded:
  assumes "session_bounded m s" and "Push (ssnTransportInput s) d = (r, t')"
  shows "session_bounded m (s\<lparr>ssnTransportInput := t'\<rparr>)"
  using assms push_parts_bounded [of "ssnTransportInput s" "strict_segment d" r t']
  by (auto simp: session_bounded_def Push_def split: if_splits)

lemma AppReassembler_Push_bounded:
  assumes "session_bounded m s" and "AppReassembler_Push (ssnApplicationInput s) f = (r, a)"
    and "\<not> stCON f"
  shows "session_bounded m (s\<lparr>ssnApplicationInput := a\<rparr>)"
    and "r = Inr (Some c) \<Longrightarrow> message_bounded m c"
  using assms
  by (auto simp: session_bounded_def message_bounded_def AppReassembler_Push_def
      AppReassembler_Reset_def Let_def not_less split: if_splits)

lemma receive_application_bounded:
  assumes "session_bounded m s" and "receive_application dl s io = (r, s', io')"
  shows "session_bounded m s' \<and> (\<forall>f. r = Inr f \<longrightarrow> message_bounded m f)"
  using assms
proof (induction dl s io arbitrary: r s' io' rule: receive_application.induct)
  case (1 dl s io)
  note res = "1.prems"(2) [unfolded receive_application.simps [of dl s io]]
  obtain rr c io1 where rc: "Receive (ssnChannel s) dl io = (rr, c, io1)" by (metis prod_cases3)
  show ?case
  proof (cases rr)
    case (Inl e)
    then show ?thesis using res rc "1.prems"(1) by auto
  next
    case (Inr d)
    obtain p t where p: "Push (ssnTransportInput (s\<lparr>ssnChannel := c\<rparr>)) d = (p, t)" by fastforce
    let ?s2 = "s\<lparr>ssnChannel := c, ssnTransportInput := t\<rparr>"
    have b2: "session_bounded m ?s2"
      using Push_bounded [of m "s\<lparr>ssnChannel := c\<rparr>" d p t] "1.prems"(1) p by simp
    show ?thesis
    proof (cases "\<exists>w f. p = Inr (Some w) \<and> DecodeStrictFragment w (ssnMaximumApplication ?s2) = Inr f")
      case False
      then show ?thesis
        using res rc Inr p b2 "1.IH"(1) [OF rc [symmetric] Inr refl refl p [symmetric]]
        by (auto simp: Let_def split: sum.splits option.splits)
    next
      case True
      then obtain w f where w: "p = Inr (Some w)" "DecodeStrictFragment w (ssnMaximumApplication ?s2) = Inr f"
        by blast
      obtain q s3 io2 where q: "confirm_fragment f ?s2 io1 = (q, s3, io2)" by (metis prod_cases3)
      have b3: "session_bounded m s3" using confirm_fragment_bounded [OF q] b2 by simp
      show ?thesis
      proof (cases q)
        case (Inl e)
        then show ?thesis using res rc Inr p w q b3 by (auto simp: Let_def)
      next
        case f': (Inr f')
        obtain u a where u: "AppReassembler_Push (ssnApplicationInput s3) f' = (u, a)" by fastforce
        have clear: "\<not> stCON f'" using confirm_fragment_cleared q f' by simp
        note b4 = AppReassembler_Push_bounded [OF b3 u clear]
        show ?thesis
          using res rc Inr p w q f' u b4
            "1.IH"(2) [OF rc [symmetric] Inr refl refl p [symmetric] w(1) refl refl w(2)
              q [symmetric] f' refl u [symmetric]]
          by (auto simp: Let_def split: sum.splits option.splits)
      qed
    qed
  qed
qed

lemma session_op_bounded:
  assumes "session_op s io body = (r, s', io')" and "session_bounded m s"
    and "\<And>s1 r1 s2 io1. body s1 io = (r1, s2, io1) \<Longrightarrow> session_bounded m s1 \<Longrightarrow>
      session_bounded m s2 \<and> (\<forall>f. r1 = Inr f \<longrightarrow> good f)"
  shows "session_bounded m s' \<and> (\<forall>f. r = Inr f \<longrightarrow> good f)"
  using assms(1,2) assms(3) [of "s\<lparr>ssnBusy := True\<rparr>"]
  by (auto simp: session_op_def session_acquire_def session_release_def
      split: if_splits option.splits prod.splits)

lemma session_op_on_channel_bounded:
  assumes "snd (session_op s io (on_channel op)) = (s', io')" and "session_bounded m s"
  shows "session_bounded m s'"
proof -
  obtain r where "session_op s io (on_channel op) = (r, s', io')" using assms(1) by (metis prod.collapse)
  from session_op_bounded [OF this assms(2), where good = "\<lambda>_. True"] on_channel_bounded
  show ?thesis by blast
qed

lemma session_op_send_bounded:
  assumes "snd (session_op s io (sendApplicationLocked f h b)) = (s', io')" and "session_bounded m s"
  shows "session_bounded m s'"
proof -
  obtain r where "session_op s io (sendApplicationLocked f h b) = (r, s', io')"
    using assms(1) by (metis prod.collapse)
  from session_op_bounded [OF this assms(2), where good = "\<lambda>_. True"] sendApplicationLocked_bounded
  show ?thesis by blast
qed

lemma session_call_bounded:
  assumes "session_call s io call = (out, s', io')" and "session_bounded m s"
  shows "session_bounded m s' \<and> (\<forall>f. out = Some f \<longrightarrow> message_bounded m f)"
proof (cases call)
  case (CallReceive dl)
  obtain r s1 io1 where r: "session_op s io (receive_application dl) = (r, s1, io1)" by (metis prod_cases3)
  have "session_bounded m s1 \<and> (\<forall>f. r = Inr f \<longrightarrow> message_bounded m f)"
    using receive_application_bounded by (intro session_op_bounded [OF r assms(2)]) blast
  with r CallReceive assms(1) show ?thesis
    by (auto simp: session_call_def ReceiveApplication_def split: sum.splits)
qed (use assms session_op_on_channel_bounded session_op_send_bounded in
    \<open>auto simp: session_call_def Session_Reset_def Session_KeepAlive_def SendApplication_def
      SendApplicationUnconfirmed_def\<close>)

lemma session_calls_bounded:
  "session_calls s io calls = (outs, s', io') \<Longrightarrow> session_bounded m s \<Longrightarrow>
    session_bounded m s' \<and> list_all (message_bounded m) outs"
proof (induction calls arbitrary: s io outs s' io')
  case Nil
  then show ?case by simp
next
  case (Cons call calls)
  obtain out s1 io1 where o: "session_call s io call = (out, s1, io1)" by (metis prod_cases3)
  obtain os s2 io2 where os: "session_calls s1 io1 calls = (os, s2, io2)" by (metis prod_cases3)
  from Cons.IH [OF os] session_call_bounded [OF o Cons.prems(2)] Cons.prems(1) o os
  show ?case by (auto split: option.splits)
qed

section \<open>Properties\<close>

text \<open>
  C21: what one session sends another one receives. Let an idle session send, with
  \<open>SendApplicationUnconfirmed\<close>, the fragments of a complete application message one after
  the other: FIR on the first only, FIN on the last only, consecutive sequence numbers, one function
  and UNS flag, and indications only where the function is a response. Let each encoded fragment fit
  the limits of both sides and the joined objects that of the receiver, which is at least two bytes,
  and let the writes and deadlines of both sides succeed and their contexts not be cancelled. If the
  bytes the sender wrote reach an idle session of the peer station, cut at any places into any number
  of reads and with anything after them, then one receive call there returns the message: one fragment
  with the concatenated objects, the ORed indications and no confirm flag. What follows stays unread,
  both sessions are idle again, and the receiver has written exactly the confirmations of the
  fragments that asked for one, in order.
\<close>

theorem session_delivery:
  assumes "session_idle s st m" and "quiet io" and "session_idle r sp m'" and "quiet io2"
    and "peers st sp" and "2 \<le> m'" and "complete_message msg"
    and "int (length (run_objects msg)) \<le> m'"
    and "\<forall>f\<in>set msg. \<exists>w. EncodeStrictFragment f m = Inr w \<and> int (length w) \<le> m' \<and> fragment_ok f"
    and "send_fragments s msg io = (res, s', io')" and "ioSent io' = ioSent io @ wrote"
    and "delivers (ioReads io2)" and "stream_bytes (ioReads io2) = wrote @ after"
  shows "res = Inr () \<and> session_idle s' st m
    \<and> (\<exists>evs r' r'' confs. ReceiveApplication r dl io2
          = (Inr (joined (map unconfirmed msg)), r', io2\<lparr>ioReads := evs, ioSent := ioSent io2 @ confs\<rparr>)
        \<and> session_idle r' sp m' \<and> delivers evs \<and> stream_bytes evs = after
        \<and> send_fragments r (map confirmation (filter stCON msg)) io2
          = (Inr (), r'', io2\<lparr>ioSent := ioSent io2 @ confs\<rparr>))"
proof -
  have "\<forall>f\<in>set msg. is_ok (EncodeStrictFragment f m)" using assms(9) by fastforce
  from send_fragments_idle [OF assms(1,2) this] assms(1,10,11)
  have sent: "res = Inr ()" "session_idle s' st m"
    "wrote = fst (session_stream st m (ssnNextTransport s) msg)" by auto
  have conf: "\<forall>f\<in>set (map confirmation (filter stCON msg)). is_ok (EncodeStrictFragment f m')"
    using assms(6,9) confirmation_encodes by fastforce
  obtain cw cq where C:
    "session_stream sp m' (ssnNextTransport r) (map confirmation (filter stCON msg)) = (cw, cq)"
    by (meson surj_pair)
  let ?b = "r\<lparr>ssnBusy := True\<rparr>"
  have holds: "session_holds ?b sp m' []" using assms(3) by (simp add: session_idle_def session_holds_def)
  have "msg \<noteq> []" using assms(7) by (auto simp: complete_message_def)
  then obtain evs where evs: "delivers evs" "stream_bytes evs = after"
    "receive_application dl ?b io2 = (Inr (joined (map unconfirmed msg)),
       ?b\<lparr>ssnNextTransport := cq, ssnApplicationInput := NewAppReassembler m'\<rparr>,
       io2\<lparr>ioReads := evs, ioSent := ioSent io2 @ cw\<rparr>)"
    using receive_fragments [OF holds assms(5,4,6), where fs = msg and n = m
        and q = "ssnNextTransport s" and after = "after" and dl = dl]
      assms(7,8,9,12,13) sent(3) C by (auto simp: complete_unconfirmed)
  let ?r' = "?b\<lparr>ssnNextTransport := cq, ssnApplicationInput := NewAppReassembler m', ssnBusy := False\<rparr>"
  have "ReceiveApplication r dl io2 = (Inr (joined (map unconfirmed msg)), ?r',
       io2\<lparr>ioReads := evs, ioSent := ioSent io2 @ cw\<rparr>)"
    unfolding ReceiveApplication_def
    by (rule session_op_idle [where body = "receive_application dl", OF assms(3) evs(3)])
  moreover have "session_idle ?r' sp m'"
    using holds assms(3) by (simp add: session_idle_def session_holds_def collected_Nil)
  ultimately show ?thesis
    using sent evs(1,2) send_fragments_idle [OF assms(3,4) conf] C by (metis fst_conv snd_conv)
qed

theorem session_delivery_witness:
  "\<exists>res s' io' r' io2'. let
       f = \<lparr>stFIR = True, stFIN = False, stCON = True, stUNS = False, stSequence = 15, stFunction = 129,
            stIIN = 0x0100, stObjects = [1, 2, 6]\<rparr>;
       g = f\<lparr>stFIR := False, stFIN := True, stSequence := 0, stIIN := 1, stObjects := [30, 1]\<rparr>;
       io = \<lparr>ioReads = [], ioWrites = [], ioDeadlines = [], ioPolls = [], ioSent = [], ioHanded = []\<rparr>
     in send_fragments (NewStrictSession True 1 2 True 1000 0 300) [f, g] io = (res, s', io')
       \<and> ReceiveApplication (NewStrictSession True 2 1 False 1000 0 300) False
            (io\<lparr>ioReads := [Arrives (ioSent io')]\<rparr>)
          = (Inr (f\<lparr>stFIN := True, stCON := False, stIIN := 0x0101, stObjects := [1, 2, 6, 30, 1]\<rparr>), r', io2')"
proof -
  let ?f = "\<lparr>stFIR = True, stFIN = False, stCON = True, stUNS = False, stSequence = 15, stFunction = 129,
    stIIN = 0x0100, stObjects = [1, 2, 6]\<rparr>"
  let ?g = "?f\<lparr>stFIR := False, stFIN := True, stSequence := 0, stIIN := 1, stObjects := [30, 1]\<rparr>"
  let ?s = "NewStrictSession True 1 2 True 1000 0 300" and ?r = "NewStrictSession True 2 1 False 1000 0 300"
  let ?io = "\<lparr>ioReads = [], ioWrites = [], ioDeadlines = [], ioPolls = [], ioSent = [], ioHanded = []\<rparr>"
  obtain res s' io' where sent: "send_fragments ?s [?f, ?g] ?io = (res, s', io')" by (metis prod_cases3)
  let ?io2 = "?io\<lparr>ioReads := [Arrives (ioSent io')]\<rparr>"
  have idle: "session_idle ?s (NewStrictState 1 2 True) 300" "session_idle ?r (NewStrictState 2 1 False) 300"
    by (simp_all add: new_session_idle)
  have "\<exists>evs r' r'' confs. ReceiveApplication ?r False ?io2
          = (Inr (joined (map unconfirmed [?f, ?g])), r', ?io2\<lparr>ioReads := evs, ioSent := ioSent ?io2 @ confs\<rparr>)
        \<and> session_idle r' (NewStrictState 2 1 False) 300 \<and> delivers evs \<and> stream_bytes evs = []
        \<and> send_fragments ?r (map confirmation (filter stCON [?f, ?g])) ?io2
          = (Inr (), r'', ?io2\<lparr>ioSent := ioSent ?io2 @ confs\<rparr>)"
    by (rule conjunct2 [OF conjunct2 [OF session_delivery [OF idle(1) _ idle(2) _ _ _ _ _ _ sent,
          where wrote = "ioSent io'"]]])
      (simp_all add: quiet_def peers_def NewStrictState_def complete_message_def run_objects_def
        EncodeStrictFragment_def isStrictResponse_def fragment_ok_def Let_def)
  then obtain r' io2' where "ReceiveApplication ?r False ?io2
      = (Inr (joined (map unconfirmed [?f, ?g])), r', io2')" by blast
  moreover have "joined (map unconfirmed [?f, ?g])
    = ?f\<lparr>stFIN := True, stCON := False, stIIN := 0x0101, stObjects := [1, 2, 6, 30, 1]\<rparr>"
    by (simp add: joined_def unconfirmed_def run_iin_def run_objects_def)
  ultimately show ?thesis using sent unfolding Let_def by metis
qed

text \<open>
  C31: a session's memory is bounded. Start a session with a maximum of \<open>m\<close> and let its
  client call any operations in any order, over any stream, with any read, write and deadline
  errors. Then the transport input and the application input never hold more than \<open>m\<close> bytes,
  and every message handed to the client is a whole one (FIR and FIN set), already confirmed
  (no confirm flag) and carries at most \<open>m\<close> bytes of objects.
\<close>

theorem session_memory_bounded:
  assumes "1 \<le> m"
    and "session_calls (NewStrictSession connected local remote isMaster timeout retries m) io calls
      = (outs, s, io')"
  shows "session_bounded m s \<and> list_all (message_bounded m) outs"
proof (rule session_calls_bounded [OF assms(2)])
  show "session_bounded m (NewStrictSession connected local remote isMaster timeout retries m)"
    using assms(1)
    by (simp add: session_bounded_def NewStrictSession_def NewStrictReassembler_def NewAppReassembler_def)
qed

theorem session_memory_bounded_witness:
  "\<exists>outs s io'. session_calls (NewStrictSession True 1 2 True 1000 0 300)
      \<lparr>ioReads = [Arrives [5, 0x64]], ioWrites = [], ioDeadlines = [], ioPolls = [], ioSent = [], ioHanded = []\<rparr>
      [CallReset None, CallReceive True] = (outs, s, io') \<and> session_bounded 300 s
      \<and> list_all (message_bounded 300) outs"
proof -
  obtain outs s io' where c: "session_calls (NewStrictSession True 1 2 True 1000 0 300)
      \<lparr>ioReads = [Arrives [5, 0x64]], ioWrites = [], ioDeadlines = [], ioPolls = [], ioSent = [], ioHanded = []\<rparr>
      [CallReset None, CallReceive True] = (outs, s, io')" by (metis prod_cases3)
  from session_memory_bounded [OF _ c] c show ?thesis by simp
qed

end
