(* ===== verification/Channel_Core.thy ===== *)
theory Channel_Core
  imports Link_Frame
begin

text \<open>
  The channel that stations share (\<open>pkg/channel/channel.go\<close>, \<open>router.go\<close>, \<open>statistics.go\<close>): it
  reads frames from a physical channel, routes each to the session with its destination
  address, and writes the frames of the sessions. A session is known by its operations, which
  are the fields of a record; the read loop consumes the results of the physical channel's reads
  and ends when there are no more of them, that is when the context is cancelled.
\<close>

section \<open>Statistics\<close>

record Statistics =
  stLinkFramesTx :: u64
  stLinkFramesRx :: u64
  stBadLinkFrames :: u64
  stCRCErrors :: u64
  stTransportTx :: u64
  stTransportRx :: u64
  stTransportErrors :: u64
  stActiveSessions :: u64

definition NewStatistics :: Statistics where
  "NewStatistics =
     \<lparr>stLinkFramesTx = 0, stLinkFramesRx = 0, stBadLinkFrames = 0, stCRCErrors = 0,
      stTransportTx = 0, stTransportRx = 0, stTransportErrors = 0, stActiveSessions = 0\<rparr>"

definition LinkFrameTx :: "Statistics \<Rightarrow> Statistics" where
  "LinkFrameTx s = s\<lparr>stLinkFramesTx := stLinkFramesTx s + 1\<rparr>"

definition LinkFrameRx :: "Statistics \<Rightarrow> Statistics" where
  "LinkFrameRx s = s\<lparr>stLinkFramesRx := stLinkFramesRx s + 1\<rparr>"

definition BadLinkFrame :: "Statistics \<Rightarrow> Statistics" where
  "BadLinkFrame s = s\<lparr>stBadLinkFrames := stBadLinkFrames s + 1\<rparr>"

definition CRCError :: "Statistics \<Rightarrow> Statistics" where
  "CRCError s = s\<lparr>stCRCErrors := stCRCErrors s + 1\<rparr>"

definition TransportTx :: "Statistics \<Rightarrow> Statistics" where
  "TransportTx s = s\<lparr>stTransportTx := stTransportTx s + 1\<rparr>"

definition TransportRx :: "Statistics \<Rightarrow> Statistics" where
  "TransportRx s = s\<lparr>stTransportRx := stTransportRx s + 1\<rparr>"

definition TransportError :: "Statistics \<Rightarrow> Statistics" where
  "TransportError s = s\<lparr>stTransportErrors := stTransportErrors s + 1\<rparr>"

definition SetActiveSessions :: "u64 \<Rightarrow> Statistics \<Rightarrow> Statistics" where
  "SetActiveSessions count s = s\<lparr>stActiveSessions := count\<rparr>"

text \<open>\<open>Reset\<close> keeps the number of active sessions.\<close>

definition Statistics_Reset :: "Statistics \<Rightarrow> Statistics" where
  "Statistics_Reset s =
     s\<lparr>stLinkFramesTx := 0, stLinkFramesRx := 0, stBadLinkFrames := 0, stCRCErrors := 0,
       stTransportTx := 0, stTransportRx := 0, stTransportErrors := 0\<rparr>"

section \<open>The write side\<close>

datatype ChannelState = ChannelStateOpen | ChannelStateClosed

datatype channel_err = ErrChannelClosed | ErrChannelOpen | PhysicalWriteFailed

text \<open>
  \<open>chWrites\<close> holds the results of the coming writes of the physical channel (none left: they
  succeed) and \<open>chSent\<close> what it has written. \<open>chCancelled\<close> says that the context is cancelled;
  nothing makes a new one, so it stays cancelled when the channel is opened again.
\<close>

record Channel =
  chState :: ChannelState
  chCancelled :: bool
  chStats :: Statistics
  chWrites :: "bool list"
  chSent :: "bytes list"

definition NewChannel :: "bool list \<Rightarrow> Channel" where
  "NewChannel writes =
     \<lparr>chState = ChannelStateClosed, chCancelled = False, chStats = NewStatistics,
      chWrites = writes, chSent = []\<rparr>"

definition Channel_Open :: "Channel \<Rightarrow> channel_err option \<times> Channel" where
  "Channel_Open c =
     (if chState c = ChannelStateOpen then (Some ErrChannelOpen, c)
      else (None, c\<lparr>chState := ChannelStateOpen\<rparr>))"

definition Channel_Close :: "Channel \<Rightarrow> Channel" where
  "Channel_Close c =
     (if chState c = ChannelStateClosed then c
      else c\<lparr>chState := ChannelStateClosed, chCancelled := True\<rparr>)"

text \<open>
  One write, queued and served by the write loop. With the context cancelled both cases of the
  select in \<open>Write\<close> can be ready; this is the outcome when it takes the one that returns, and
  \<open>Channel_Queue\<close> has the other.
\<close>

definition Channel_Write :: "bytes \<Rightarrow> Channel \<Rightarrow> channel_err option \<times> Channel" where
  "Channel_Write data c =
     (if chState c \<noteq> ChannelStateOpen \<or> chCancelled c then (Some ErrChannelClosed, c)
      else (case chWrites c of
              [] \<Rightarrow> (None, c\<lparr>chSent := chSent c @ [data], chStats := LinkFrameTx (chStats c)\<rparr>)
            | True # ws \<Rightarrow> (None, c\<lparr>chWrites := ws, chSent := chSent c @ [data],
                                     chStats := LinkFrameTx (chStats c)\<rparr>)
            | False # ws \<Rightarrow> (Some PhysicalWriteFailed, c\<lparr>chWrites := ws\<rparr>)))"

section \<open>The router\<close>

text \<open>
  The operations of a session. \<open>soConnection\<close> is \<open>None\<close> for a session that does not implement
  \<open>SessionWithConnectionState\<close>.
\<close>

datatype SessionType = SessionTypeMaster | SessionTypeOutstation

record ('s, 'e) session_ops =
  soLinkAddress :: "'s \<Rightarrow> u16"
  soType :: "'s \<Rightarrow> SessionType"
  soOnReceive :: "'s \<Rightarrow> Frame \<Rightarrow> Channel \<Rightarrow> 'e option \<times> 's \<times> Channel"
  soConnection :: "'s \<Rightarrow> (('s \<Rightarrow> 's) \<times> ('s \<Rightarrow> 's)) option"

text \<open>The map of the sessions, as a list of pairs with distinct addresses.\<close>

type_synonym 's Router = "(u16 \<times> 's) list"

datatype 'e route_err = SessionExists u16 | NoSession u16 | SessionFailed 'e

definition NewRouter :: "'s Router" where "NewRouter = []"

definition Router_AddSession ::
  "('s, 'e) session_ops \<Rightarrow> 's Router \<Rightarrow> 's \<Rightarrow> 'e route_err option \<times> 's Router" where
  "Router_AddSession ops r session =
     (let addr = soLinkAddress ops session
      in if map_of r addr \<noteq> None then (Some (SessionExists addr), r)
         else (None, r @ [(addr, session)]))"

definition Router_RemoveSession :: "'s Router \<Rightarrow> u16 \<Rightarrow> 's Router" where
  "Router_RemoveSession r address = filter (\<lambda>e. fst e \<noteq> address) r"

text \<open>The session is shared by reference: its change is seen at its address.\<close>

definition set_session :: "'s Router \<Rightarrow> u16 \<Rightarrow> 's \<Rightarrow> 's Router" where
  "set_session r address session =
     map (\<lambda>e. if fst e = address then (address, session) else e) r"

definition Route ::
  "('s, 'e) session_ops \<Rightarrow> 's Router \<Rightarrow> Frame \<Rightarrow> Channel \<Rightarrow> 'e route_err option \<times> 's Router \<times> Channel" where
  "Route ops r frame c =
     (let targetAddr = (if fDir frame = DirectionMasterToOutstation then fDestination frame
                        else fDestination frame)
      in case map_of r targetAddr of
           None \<Rightarrow> (Some (NoSession targetAddr), r, c)
         | Some session \<Rightarrow>
             (case soOnReceive ops session frame c of
                (err, session', c') \<Rightarrow>
                  (map_option SessionFailed err, set_session r targetAddr session', c')))"

definition GetSession :: "'s Router \<Rightarrow> u16 \<Rightarrow> 's option" where
  "GetSession r address = map_of r address"

definition GetSessionCount :: "'s Router \<Rightarrow> nat" where
  "GetSessionCount r = length r"

definition Router_Clear :: "'s Router \<Rightarrow> 's Router" where
  "Router_Clear r = []"

definition NotifyConnectionEstablished :: "('s, 'e) session_ops \<Rightarrow> 's Router \<Rightarrow> 's Router" where
  "NotifyConnectionEstablished ops r =
     map (\<lambda>(a, s). (a, case soConnection ops s of None \<Rightarrow> s | Some (established, lost) \<Rightarrow> established s)) r"

definition NotifyConnectionLost :: "('s, 'e) session_ops \<Rightarrow> 's Router \<Rightarrow> 's Router" where
  "NotifyConnectionLost ops r =
     map (\<lambda>(a, s). (a, case soConnection ops s of None \<Rightarrow> s | Some (established, lost) \<Rightarrow> lost s)) r"

section \<open>Sessions and the read loop\<close>

definition Channel_AddSession ::
  "('s, 'e) session_ops \<Rightarrow> 's Router \<Rightarrow> Channel \<Rightarrow> 's \<Rightarrow> 'e route_err option \<times> 's Router \<times> Channel" where
  "Channel_AddSession ops r c session =
     (case Router_AddSession ops r session of
        (Some err, r1) \<Rightarrow> (Some err, r1, c)
      | (None, r1) \<Rightarrow>
          (None, r1, c\<lparr>chStats := SetActiveSessions (of_nat (GetSessionCount r1)) (chStats c)\<rparr>))"

definition Channel_RemoveSession :: "'s Router \<Rightarrow> Channel \<Rightarrow> u16 \<Rightarrow> 's Router \<times> Channel" where
  "Channel_RemoveSession r c address =
     (let r1 = Router_RemoveSession r address
      in (r1, c\<lparr>chStats := SetActiveSessions (of_nat (GetSessionCount r1)) (chStats c)\<rparr>))"

text \<open>
  One pass of the read loop: a failed read, or the data of one frame. The number of bytes the
  parser consumed is not looked at; routing errors are only logged.
\<close>

definition read_pass ::
  "('s, 'e) session_ops \<Rightarrow> bytes option \<Rightarrow> 's Router \<Rightarrow> Channel \<Rightarrow> 's Router \<times> Channel" where
  "read_pass ops event r c =
     (case event of
        None \<Rightarrow> (r, c\<lparr>chStats := BadLinkFrame (chStats c)\<rparr>)
      | Some data \<Rightarrow>
          (case Parse data of
             Inl _ \<Rightarrow> (r, c\<lparr>chStats := BadLinkFrame (chStats c)\<rparr>)
           | Inr (frame, _) \<Rightarrow>
               (case Route ops r frame (c\<lparr>chStats := LinkFrameRx (chStats c)\<rparr>) of
                  (_, r', c') \<Rightarrow> (r', c'))))"

fun readLoop ::
  "('s, 'e) session_ops \<Rightarrow> bytes option list \<Rightarrow> 's Router \<Rightarrow> Channel \<Rightarrow> 's Router \<times> Channel" where
  "readLoop ops [] r c = (r, c)"
| "readLoop ops (event # events) r c =
     (if chCancelled c then (r, c)
      else (case read_pass ops event r c of (r', c') \<Rightarrow> readLoop ops events r' c'))"

lemma readLoop_append:
  "readLoop ops (es @ fs) r c = (case readLoop ops es r c of (r', c') \<Rightarrow> readLoop ops fs r' c')"
proof (induction es arbitrary: r c)
  case Nil
  then show ?case by simp
next
  case (Cons e es)
  have stop: "readLoop ops fs r c = (r, c)" if "chCancelled c" using that by (cases fs) simp_all
  show ?case using Cons stop by (cases "chCancelled c") (simp_all split: prod.split)
qed

section \<open>An open channel\<close>

definition channel_up :: "Channel \<Rightarrow> bool" where
  "channel_up c \<longleftrightarrow> chState c = ChannelStateOpen \<and> \<not> chCancelled c \<and> list_all id (chWrites c)"

lemma Channel_Write_up:
  assumes "channel_up c"
  shows "\<exists>c'. Channel_Write data c = (None, c') \<and> channel_up c' \<and> chSent c' = chSent c @ [data]
    \<and> chStats c' = LinkFrameTx (chStats c)"
  using assms by (cases "chWrites c") (auto simp: Channel_Write_def channel_up_def)

lemma channel_up_stats [simp]: "channel_up (c\<lparr>chStats := s\<rparr>) = channel_up c"
  by (simp add: channel_up_def)

lemma closed_for_good:
  "Channel_Write data (snd (Channel_Open (Channel_Close (c\<lparr>chState := ChannelStateOpen\<rparr>))))
    = (Some ErrChannelClosed, c\<lparr>chState := ChannelStateOpen, chCancelled := True\<rparr>)"
  by (simp add: Channel_Write_def Channel_Open_def Channel_Close_def)

section \<open>Routing\<close>

lemma set_session_keys [simp]: "map fst (set_session r a s) = map fst r"
  by (induction r) (auto simp: set_session_def)

lemma map_of_set_session:
  "map_of (set_session r a s) b = (if b = a \<and> map_of r a \<noteq> None then Some s else map_of r b)"
  by (induction r) (auto simp: set_session_def)

lemma length_set_session [simp]: "length (set_session r a s) = length r"
  by (simp add: set_session_def)

end
