(* ===== verification/Station_Session.thy ===== *)
theory Station_Session
  imports Channel_Core Transport_Segment App_Apdu
begin

text \<open>
  The sessions that connect a master (\<open>pkg/master/session.go\<close>) and an outstation (the session
  part of \<open>pkg/outstation/outstation.go\<close>) to a channel: an APDU to send is cut into transport
  segments and each is written as a link frame; the user data of a received frame goes through
  the transport layer, whose errors are swallowed, and a complete APDU is handed on.
\<close>

section \<open>Sessions\<close>

text \<open>The two session types have the same fields; the owner and the channel are arguments.\<close>

record session =
  seLinkAddress :: u16
  seRemoteAddr :: u16
  seTransport :: Layer

datatype station_err = SerializeFailed link_err | WriteFailed channel_err | APDUFailed apdu_err

definition newSession :: "u16 \<Rightarrow> u16 \<Rightarrow> session" where
  "newSession linkAddr remoteAddr =
     \<lparr>seLinkAddress = linkAddr, seRemoteAddr = remoteAddr, seTransport = NewLayer\<rparr>"

definition OnConnectionEstablished :: "session \<Rightarrow> session" where
  "OnConnectionEstablished s = s\<lparr>seTransport := Layer_Reset (seTransport s)\<rparr>"

definition OnConnectionLost :: "session \<Rightarrow> session" where
  "OnConnectionLost s = s\<lparr>seTransport := Layer_Reset (seTransport s)\<rparr>"

section \<open>Sending\<close>

definition write_frame :: "Frame \<Rightarrow> Channel \<Rightarrow> station_err option \<times> Channel" where
  "write_frame frame c =
     (case Serialize frame of
        Inl err \<Rightarrow> (Some (SerializeFailed err), c)
      | Inr data \<Rightarrow>
          (case Channel_Write data c of (err, c1) \<Rightarrow> (map_option WriteFailed err, c1)))"

fun write_segments :: "(bytes \<Rightarrow> Frame) \<Rightarrow> bytes list \<Rightarrow> Channel \<Rightarrow> station_err option \<times> Channel" where
  "write_segments mk [] c = (None, c)"
| "write_segments mk (segment # segments) c =
     (case write_frame (mk segment) c of
        (Some err, c1) \<Rightarrow> (Some err, c1)
      | (None, c1) \<Rightarrow> write_segments mk segments c1)"

definition master_frame :: "session \<Rightarrow> bytes \<Rightarrow> Frame" where
  "master_frame s segment =
     NewFrame DirectionMasterToOutstation PrimaryFrame FuncUserDataUnconfirmed
       (seRemoteAddr s) (seLinkAddress s) segment"

definition outstation_frame :: "session \<Rightarrow> bytes \<Rightarrow> Frame" where
  "outstation_frame s segment =
     NewFrame DirectionOutstationToMaster SecondaryFrame FuncUserDataUnconfirmed
       (seRemoteAddr s) (seLinkAddress s) segment"

definition send_through ::
  "(session \<Rightarrow> bytes \<Rightarrow> Frame) \<Rightarrow> session \<Rightarrow> bytes \<Rightarrow> Channel \<Rightarrow> station_err option \<times> session \<times> Channel" where
  "send_through mk s apdu c =
     (case Layer_Send (seTransport s) apdu of
        (segments, l) \<Rightarrow>
          (let s1 = s\<lparr>seTransport := l\<rparr> in
           case write_segments (mk s1) segments c of (err, c1) \<Rightarrow> (err, s1, c1)))"

definition master_sendAPDU :: "session \<Rightarrow> bytes \<Rightarrow> Channel \<Rightarrow> station_err option \<times> session \<times> Channel" where
  "master_sendAPDU = send_through master_frame"

definition outstation_sendAPDU :: "session \<Rightarrow> bytes \<Rightarrow> Channel \<Rightarrow> station_err option \<times> session \<times> Channel" where
  "outstation_sendAPDU = send_through outstation_frame"

definition session_sendLinkAck :: "session \<Rightarrow> Channel \<Rightarrow> station_err option \<times> Channel" where
  "session_sendLinkAck s c =
     write_frame (NewFrame DirectionOutstationToMaster SecondaryFrame FuncAck
       (seRemoteAddr s) (seLinkAddress s) []) c"

definition session_sendLinkStatus :: "session \<Rightarrow> Channel \<Rightarrow> station_err option \<times> Channel" where
  "session_sendLinkStatus s c =
     write_frame (NewFrame DirectionOutstationToMaster SecondaryFrame FuncLinkStatusResponse
       (seRemoteAddr s) (seLinkAddress s) []) c"

section \<open>Receiving\<close>

text \<open>The APDU that the user data completes, if any; transport errors are not propagated.\<close>

definition transport_input :: "session \<Rightarrow> bytes \<Rightarrow> bytes option \<times> session" where
  "transport_input s userData =
     (case Layer_Receive (seTransport s) userData of
        (Inl err, l) \<Rightarrow> (None, s\<lparr>seTransport := l\<rparr>)
      | (Inr apdu, l) \<Rightarrow> (apdu, s\<lparr>seTransport := l\<rparr>))"

definition master_OnReceive :: "session \<Rightarrow> Frame \<Rightarrow> bytes option \<times> session" where
  "master_OnReceive s frame = transport_input s (fUserData frame)"

text \<open>
  The outstation's session answers the link requests it knows first. The result is an error, or
  the APDU to process; a secondary frame goes straight to the transport layer.
\<close>

definition outstation_OnReceive ::
  "session \<Rightarrow> Frame \<Rightarrow> Channel \<Rightarrow> (station_err + bytes option) \<times> session \<times> Channel" where
  "outstation_OnReceive s frame c =
     (let process = (\<lambda>c1.
            if length (fUserData frame) = 0 then (Inr None, s, c1)
            else (case transport_input s (fUserData frame) of (apdu, s1) \<Rightarrow> (Inr apdu, s1, c1)));
          answer = (\<lambda>r. case r of (Some err, c1) \<Rightarrow> (Inl err, s, c1) | (None, c1) \<Rightarrow> (Inr None, s, c1))
      in if fIsPrimary frame = PrimaryFrame
         then (if fFunctionCode frame = FuncResetLink then answer (session_sendLinkAck s c)
               else if fFunctionCode frame = FuncRequestLinkStatus then answer (session_sendLinkStatus s c)
               else if fFunctionCode frame = FuncUserDataConfirmed
               then (case session_sendLinkAck s c of
                       (Some err, c1) \<Rightarrow> (Inl err, s, c1)
                     | (None, c1) \<Rightarrow> process c1)
               else process c)
         else process c)"

section \<open>Frames on the wire\<close>

text \<open>The frames a session writes for an APDU.\<close>

definition apdu_frames :: "(session \<Rightarrow> bytes \<Rightarrow> Frame) \<Rightarrow> session \<Rightarrow> bytes \<Rightarrow> Frame list" where
  "apdu_frames mk s apdu = map (mk s) (fst (Layer_Send (seTransport s) apdu))"

lemma station_frames_valid:
  "length d \<le> 250 \<Longrightarrow> frame_valid (master_frame s d)"
  "length d \<le> 250 \<Longrightarrow> frame_valid (outstation_frame s d)"
  by (simp_all add: frame_valid_def master_frame_def outstation_frame_def NewFrame_def buildControl_def
      wf_frame_iff Let_def byte_eq_iff bit_simps)

lemma write_frame_up:
  assumes "channel_up c" and "frame_valid f"
  shows "\<exists>c'. write_frame f c = (None, c') \<and> channel_up c' \<and> chSent c' = chSent c @ [frame_bytes f]"
  using Channel_Write_up [OF assms(1), of "frame_bytes f"] Serialize_valid [OF assms(2)]
  by (auto simp: write_frame_def)

lemma write_segments_up:
  assumes "channel_up c" and "\<forall>t\<in>set ts. frame_valid (mk t)"
  shows "\<exists>c'. write_segments mk ts c = (None, c') \<and> channel_up c'
    \<and> chSent c' = chSent c @ map (frame_bytes \<circ> mk) ts"
  using assms
proof (induction ts arbitrary: c)
  case Nil
  then show ?case by simp
next
  case (Cons t ts)
  obtain c1 where c1: "write_frame (mk t) c = (None, c1)" "channel_up c1"
    "chSent c1 = chSent c @ [frame_bytes (mk t)]"
    using write_frame_up [OF Cons.prems(1), of "mk t"] Cons.prems(2) by auto
  show ?case using Cons.IH [OF c1(2)] Cons.prems(2) c1 by auto
qed

lemma send_through_up:
  assumes "channel_up c" and "\<And>s t. length t \<le> 250 \<Longrightarrow> frame_valid (mk s t)"
    and "\<And>s l. mk (s\<lparr>seTransport := l\<rparr>) = mk s"
  shows "\<exists>c'. send_through mk s d c = (None, s\<lparr>seTransport := snd (Layer_Send (seTransport s) d)\<rparr>, c')
    \<and> channel_up c' \<and> chSent c' = chSent c @ map frame_bytes (apdu_frames mk s d)"
proof -
  obtain ts l where l: "Layer_Send (seTransport s) d = (ts, l)" by fastforce
  have "\<forall>t\<in>set ts. frame_valid (mk s t)"
    using Send_sizes(2) [of _ "seTransport s" d] l by (force intro: assms(2))
  from write_segments_up [OF assms(1) this] obtain c' where
    "write_segments (mk s) ts c = (None, c')" "channel_up c'" "chSent c' = chSent c @ map (frame_bytes \<circ> mk s) ts"
    by blast
  then show ?thesis by (auto simp: send_through_def l apdu_frames_def assms(3))
qed

lemma sendAPDU_up:
  assumes "channel_up c"
  shows "\<exists>c'. master_sendAPDU s d c = (None, s\<lparr>seTransport := snd (Layer_Send (seTransport s) d)\<rparr>, c')
      \<and> channel_up c' \<and> chSent c' = chSent c @ map frame_bytes (apdu_frames master_frame s d)"
    and "\<exists>c'. outstation_sendAPDU s d c = (None, s\<lparr>seTransport := snd (Layer_Send (seTransport s) d)\<rparr>, c')
      \<and> channel_up c' \<and> chSent c' = chSent c @ map frame_bytes (apdu_frames outstation_frame s d)"
proof -
  have "mk (s\<lparr>seTransport := l\<rparr>) = mk s" if "mk \<in> {master_frame, outstation_frame}" for mk s l
    using that by (auto simp: master_frame_def outstation_frame_def)
  then show "\<exists>c'. master_sendAPDU s d c = (None, s\<lparr>seTransport := snd (Layer_Send (seTransport s) d)\<rparr>, c')
      \<and> channel_up c' \<and> chSent c' = chSent c @ map frame_bytes (apdu_frames master_frame s d)"
    and "\<exists>c'. outstation_sendAPDU s d c = (None, s\<lparr>seTransport := snd (Layer_Send (seTransport s) d)\<rparr>, c')
      \<and> channel_up c' \<and> chSent c' = chSent c @ map frame_bytes (apdu_frames outstation_frame s d)"
    unfolding master_sendAPDU_def outstation_sendAPDU_def
    by (intro send_through_up [OF assms] station_frames_valid; simp)+
qed

section \<open>What crosses a channel\<close>

lemma set_session_same: "map_of r a = Some s \<Longrightarrow> distinct (map fst r) \<Longrightarrow> set_session r a s = r"
  by (auto simp: set_session_def intro!: map_idI) (metis map_of_eq_Some_iff option.inject)

lemma set_session_twice [simp]: "set_session (set_session r a s) a s' = set_session r a s'"
  by (simp add: set_session_def)

text \<open>
  A station is a session of a channel whose frames carry transport segments: a frame it accepts
  goes through its transport layer, and a complete APDU is delivered. Reading the frames of an
  APDU then delivers that APDU, once, however many segments it takes.
\<close>

lemma transport_input_tpdu:
  "transport_input s t = (handed_up (fst (Layer_Receive (seTransport s) t)),
    s\<lparr>seTransport := snd (Layer_Receive (seTransport s) t)\<rparr>)"
  by (cases "Layer_Receive (seTransport s) t")
    (simp add: transport_input_def handed_up_def split: sum.split)

definition carries :: "u16 \<Rightarrow> (Frame \<Rightarrow> bool) \<Rightarrow> (bytes \<Rightarrow> Frame) \<Rightarrow> bool" where
  "carries a accepts mk \<longleftrightarrow> (\<forall>t. length t \<le> 250 \<longrightarrow> frame_valid (mk t))
    \<and> (\<forall>t. fUserData (mk t) = t \<and> fDestination (mk t) = a \<and> accepts (mk t))"

locale station =
  fixes ops :: "('s, 'e) session_ops"
    and get :: "'s \<Rightarrow> session"
    and put :: "session \<Rightarrow> 's \<Rightarrow> 's"
    and accepts :: "Frame \<Rightarrow> bool"
    and deliver :: "bytes \<Rightarrow> 's \<Rightarrow> Channel \<Rightarrow> 'e option \<times> 's \<times> Channel"
  assumes get_put: "get (put se s) = se"
    and put_get: "put (get s) s = s"
    and put_put: "put se (put se' s) = put se s"
    and receives: "accepts f \<Longrightarrow> fUserData f \<noteq> [] \<Longrightarrow> soOnReceive ops s f c =
      (case transport_input (get s) (fUserData f) of
         (None, se) \<Rightarrow> (None, put se s, c)
       | (Some apdu, se) \<Rightarrow> deliver apdu (put se s) c)"
begin

lemma read_frame:
  assumes "carries a accepts mk" and "map_of r a = Some s" and "t \<noteq> []" and "length t \<le> 250"
  shows "\<exists>st. read_pass ops (Some (frame_bytes (mk t))) r c =
    (case Layer_Receive (seTransport (get s)) t of (res, l) \<Rightarrow>
      (let s' = put ((get s)\<lparr>seTransport := l\<rparr>) s; c' = c\<lparr>chStats := st\<rparr> in
       case handed_up res of
         None \<Rightarrow> (set_session r a s', c')
       | Some apdu \<Rightarrow> (case deliver apdu s' c' of (err, s'', c'') \<Rightarrow> (set_session r a s'', c''))))"
proof -
  let ?c = "c\<lparr>chStats := LinkFrameRx (chStats c)\<rparr>"
  have "frame_valid (mk t)" using assms(1,4) by (simp add: carries_def)
  then have "Parse (frame_bytes (mk t)) = Inr (mk t, length (frame_bytes (mk t)))"
    using frame_codec.dec_enc [of "mk t" "[]"] by simp
  moreover have "fUserData (mk t) = t" "fDestination (mk t) = a" "accepts (mk t)"
    using assms(1) by (simp_all add: carries_def)
  ultimately show ?thesis
    using assms(2,3) receives [of "mk t" s ?c]
    by (intro exI [of _ "LinkFrameRx (chStats c)"])
      (auto simp: read_pass_def Route_def transport_input_tpdu split: prod.split option.split)
qed

lemma read_segments:
  assumes "carries a accepts mk" and "map_of r a = Some s" and "distinct (map fst r)"
    and "\<not> chCancelled c" and "\<forall>t\<in>set us. t \<noteq> [] \<and> length t \<le> 250"
    and "receive_tpdus (seTransport (get s)) us = ([], l)"
  shows "\<exists>st. readLoop ops (map (\<lambda>t. Some (frame_bytes (mk t))) us) r c
    = (set_session r a (put ((get s)\<lparr>seTransport := l\<rparr>) s), c\<lparr>chStats := st\<rparr>)"
  using assms(2-)
proof (induction us arbitrary: r s c)
  case Nil
  then have "seTransport (get s) = l" by simp
  then have "(get s)\<lparr>seTransport := l\<rparr> = get s" by (cases "get s") simp
  then have "put ((get s)\<lparr>seTransport := l\<rparr>) s = s" using put_get [of s] by simp
  then show ?case using Nil.prems set_session_same [of r a s]
    by (intro exI [of _ "chStats c"]) simp
next
  case (Cons t us)
  obtain res l1 where t: "Layer_Receive (seTransport (get s)) t = (res, l1)" by fastforce
  then have quiet: "handed_up res = None" "receive_tpdus l1 us = ([], l)"
    using Cons.prems(5) by (auto split: prod.splits option.splits)
  let ?s = "put ((get s)\<lparr>seTransport := l1\<rparr>) s"
  obtain st where st: "read_pass ops (Some (frame_bytes (mk t))) r c = (set_session r a ?s, c\<lparr>chStats := st\<rparr>)"
    using read_frame [OF assms(1) Cons.prems(1), of t c] Cons.prems(4) t quiet(1) by auto
  have "\<exists>st'. readLoop ops (map (\<lambda>t. Some (frame_bytes (mk t))) us) (set_session r a ?s) (c\<lparr>chStats := st\<rparr>)
    = (set_session (set_session r a ?s) a (put ((get ?s)\<lparr>seTransport := l\<rparr>) ?s), (c\<lparr>chStats := st\<rparr>)\<lparr>chStats := st'\<rparr>)"
    by (rule Cons.IH) (use Cons.prems quiet(2) in \<open>simp_all add: map_of_set_session get_put\<close>)
  then show ?case using Cons.prems(3) st by (auto simp: get_put put_put set_session_twice)
qed

text \<open>The frames of an APDU, read one after the other.\<close>

lemma read_apdu:
  assumes "carries a accepts mk" and "map_of r a = Some s" and "distinct (map fst r)"
    and "\<not> chCancelled c" and "apdu \<noteq> []" and "length apdu \<le> MaxReassemblySize"
  shows "\<exists>l st. \<not> rsInProgress (lyReassembler l)
    \<and> lyTxSequence l = lyTxSequence (seTransport (get s))
    \<and> readLoop ops (map (\<lambda>t. Some (frame_bytes (mk t))) (fst (Layer_Send tx apdu))) r c
      = (case deliver apdu (put ((get s)\<lparr>seTransport := l\<rparr>) s) (c\<lparr>chStats := st\<rparr>) of
           (err, s', c') \<Rightarrow> (set_session r a s', c'))"
proof -
  obtain us u l l' where u: "fst (Layer_Send tx apdu) = us @ [u]"
    "receive_tpdus (seTransport (get s)) us = ([], l)" "Layer_Receive l u = (Inr (Some apdu), l')"
    "\<not> rsInProgress (lyReassembler l')" "lyTxSequence l' = lyTxSequence (seTransport (get s))"
    using Send_received_last [OF assms(5,6)] by blast
  have sizes: "\<forall>t\<in>set (us @ [u]). t \<noteq> [] \<and> length t \<le> 250"
  proof
    fix t assume "t \<in> set (us @ [u])"
    then have "2 \<le> length t" "length t \<le> 249" using Send_sizes [of t tx apdu] u(1) by simp_all
    then show "t \<noteq> [] \<and> length t \<le> 250" by auto
  qed
  let ?s = "put ((get s)\<lparr>seTransport := l\<rparr>) s"
  obtain st where st: "readLoop ops (map (\<lambda>t. Some (frame_bytes (mk t))) us) r c
    = (set_session r a ?s, c\<lparr>chStats := st\<rparr>)"
    using read_segments [OF assms(1-4), of us l] sizes u(2) by auto
  have at: "map_of (set_session r a ?s) a = Some ?s" using assms(2) by (simp add: map_of_set_session)
  obtain st' where "read_pass ops (Some (frame_bytes (mk u))) (set_session r a ?s) (c\<lparr>chStats := st\<rparr>)
    = (case deliver apdu (put ((get s)\<lparr>seTransport := l'\<rparr>) s) (c\<lparr>chStats := st'\<rparr>) of
         (err, s'', c'') \<Rightarrow> (set_session r a s'', c''))"
    using read_frame [OF assms(1) at, of u "c\<lparr>chStats := st\<rparr>"] sizes u(3)
    by (auto simp: get_put put_put handed_up_def set_session_twice split: prod.splits)
  then show ?thesis using u st assms(4)
    by (intro exI [of _ l'] exI [of _ st']) (simp add: readLoop_append split: prod.split)
qed

end

end
