(* ===== verification/Outstation_Events.thy ===== *)
theory Outstation_Events
  imports Dnp_Base
begin

text \<open>
  Measurements, their quality flags and times (\<open>pkg/types/measurements.go\<close>, \<open>quality.go\<close>,
  \<open>time.go\<close>) and the event buffer of the outstation (\<open>pkg/outstation/event_buffer.go\<close>): one
  queue per class that drops its oldest event when it is full. Float values are their bit
  patterns, times are milliseconds in 64 bits.
\<close>

unbundle bit_operations_syntax

section \<open>Measurements\<close>

type_synonym Flags = byte
type_synonym DNP3Time = u64
type_synonym float64 = u64

definition FlagOnline :: Flags where [simp]: "FlagOnline = 0x01"
definition FlagRestart :: Flags where [simp]: "FlagRestart = 0x02"
definition FlagCommLost :: Flags where [simp]: "FlagCommLost = 0x04"
definition FlagRemoteForced :: Flags where [simp]: "FlagRemoteForced = 0x08"
definition FlagLocalForced :: Flags where [simp]: "FlagLocalForced = 0x10"
definition FlagOverRange :: Flags where [simp]: "FlagOverRange = 0x20"
definition FlagReferenceErr :: Flags where [simp]: "FlagReferenceErr = 0x40"

definition IsOnline :: "Flags \<Rightarrow> bool" where "IsOnline f \<longleftrightarrow> f AND FlagOnline \<noteq> 0"
definition HasRestart :: "Flags \<Rightarrow> bool" where "HasRestart f \<longleftrightarrow> f AND FlagRestart \<noteq> 0"
definition HasCommLost :: "Flags \<Rightarrow> bool" where "HasCommLost f \<longleftrightarrow> f AND FlagCommLost \<noteq> 0"
definition IsRemoteForced :: "Flags \<Rightarrow> bool" where "IsRemoteForced f \<longleftrightarrow> f AND FlagRemoteForced \<noteq> 0"
definition IsLocalForced :: "Flags \<Rightarrow> bool" where "IsLocalForced f \<longleftrightarrow> f AND FlagLocalForced \<noteq> 0"
definition IsForced :: "Flags \<Rightarrow> bool" where "IsForced f \<longleftrightarrow> IsRemoteForced f \<or> IsLocalForced f"
definition IsOverRange :: "Flags \<Rightarrow> bool" where "IsOverRange f \<longleftrightarrow> f AND FlagOverRange \<noteq> 0"
definition HasReferenceErr :: "Flags \<Rightarrow> bool" where "HasReferenceErr f \<longleftrightarrow> f AND FlagReferenceErr \<noteq> 0"

definition IsGood :: "Flags \<Rightarrow> bool" where
  "IsGood f \<longleftrightarrow> IsOnline f \<and> \<not> HasCommLost f \<and> \<not> HasReferenceErr f"

definition WithOnline :: "Flags \<Rightarrow> bool \<Rightarrow> Flags" where
  "WithOnline f online = (if online then f OR FlagOnline else f AND NOT FlagOnline)"

definition WithRestart :: "Flags \<Rightarrow> bool \<Rightarrow> Flags" where
  "WithRestart f restart = (if restart then f OR FlagRestart else f AND NOT FlagRestart)"

text \<open>
  An instant is its number of nanoseconds since the Unix epoch; what \<open>time.Now()\<close> returns is an argument.
\<close>

definition Types_Now :: "int \<Rightarrow> DNP3Time" where
  "Types_Now now = word_of_int (now div 1000000)"

definition Types_FromTime :: "int \<Rightarrow> DNP3Time" where
  "Types_FromTime t = word_of_int (t div 1000000)"

definition Types_ToTime :: "DNP3Time \<Rightarrow> int" where
  "Types_ToTime t = sint t * 1000000"

definition Time_IsValid :: "DNP3Time \<Rightarrow> bool" where "Time_IsValid t \<longleftrightarrow> t \<noteq> 0"

definition ZeroTime :: DNP3Time where [simp]: "ZeroTime = 0"

record Binary =
  biValue :: bool
  biFlags :: Flags
  biTime :: DNP3Time

type_synonym DoubleBitValue = byte

definition DoubleBitIntermediate :: DoubleBitValue where [simp]: "DoubleBitIntermediate = 0"
definition DoubleBitOff :: DoubleBitValue where [simp]: "DoubleBitOff = 1"
definition DoubleBitOn :: DoubleBitValue where [simp]: "DoubleBitOn = 2"
definition DoubleBitIndeterminate :: DoubleBitValue where [simp]: "DoubleBitIndeterminate = 3"

record DoubleBitBinary =
  dbValue :: DoubleBitValue
  dbFlags :: Flags
  dbTime :: DNP3Time

record Analog =
  anValue :: float64
  anFlags :: Flags
  anTime :: DNP3Time

record Counter =
  cnValue :: u32
  cnFlags :: Flags
  cnTime :: DNP3Time

record FrozenCounter =
  fcValue :: u32
  fcFlags :: Flags
  fcTime :: DNP3Time

record BinaryOutputStatus =
  boValue :: bool
  boFlags :: Flags
  boTime :: DNP3Time

record AnalogOutputStatus =
  asValue :: float64
  asFlags :: Flags
  asTime :: DNP3Time

section \<open>The event buffer\<close>

datatype EventType =
    EventTypeBinary | EventTypeDoubleBitBinary | EventTypeAnalog | EventTypeCounter
  | EventTypeFrozenCounter | EventTypeBinaryOutputStatus | EventTypeAnalogOutputStatus

datatype event_value = BinaryValue Binary | AnalogValue Analog | CounterValue Counter

record Event =
  evIndex :: u16
  evType :: EventType
  evValue :: event_value
  evClass :: byte

record EventBuffer =
  ebClass1 :: "Event list"
  ebClass2 :: "Event list"
  ebClass3 :: "Event list"
  ebMaxSize :: nat

definition NewEventBuffer :: "nat \<Rightarrow> EventBuffer" where
  "NewEventBuffer maxSize = \<lparr>ebClass1 = [], ebClass2 = [], ebClass3 = [], ebMaxSize = maxSize\<rparr>"

text \<open>
  Appending to a class's list. When the list is full its front is removed first; removing the
  front of an empty list, which happens when the maximum is 0, is a nil dereference: \<open>None\<close>.
\<close>

definition append_event :: "nat \<Rightarrow> Event list \<Rightarrow> Event \<Rightarrow> Event list option" where
  "append_event maxSize events event =
     (if length events \<ge> maxSize
      then (case events of [] \<Rightarrow> None | _ # rest \<Rightarrow> Some (rest @ [event]))
      else Some (events @ [event]))"

definition addEvent :: "EventBuffer \<Rightarrow> Event \<Rightarrow> byte \<Rightarrow> EventBuffer option" where
  "addEvent eb event class =
     (if class = 1 then
        (case append_event (ebMaxSize eb) (ebClass1 eb) event of
           None \<Rightarrow> None | Some es \<Rightarrow> Some (eb\<lparr>ebClass1 := es\<rparr>))
      else if class = 2 then
        (case append_event (ebMaxSize eb) (ebClass2 eb) event of
           None \<Rightarrow> None | Some es \<Rightarrow> Some (eb\<lparr>ebClass2 := es\<rparr>))
      else if class = 3 then
        (case append_event (ebMaxSize eb) (ebClass3 eb) event of
           None \<Rightarrow> None | Some es \<Rightarrow> Some (eb\<lparr>ebClass3 := es\<rparr>))
      else Some eb)"

definition AddBinaryEvent :: "EventBuffer \<Rightarrow> u16 \<Rightarrow> Binary \<Rightarrow> byte \<Rightarrow> EventBuffer option" where
  "AddBinaryEvent eb index value class =
     addEvent eb \<lparr>evIndex = index, evType = EventTypeBinary, evValue = BinaryValue value, evClass = class\<rparr> class"

definition AddAnalogEvent :: "EventBuffer \<Rightarrow> u16 \<Rightarrow> Analog \<Rightarrow> byte \<Rightarrow> EventBuffer option" where
  "AddAnalogEvent eb index value class =
     addEvent eb \<lparr>evIndex = index, evType = EventTypeAnalog, evValue = AnalogValue value, evClass = class\<rparr> class"

definition AddCounterEvent :: "EventBuffer \<Rightarrow> u16 \<Rightarrow> Counter \<Rightarrow> byte \<Rightarrow> EventBuffer option" where
  "AddCounterEvent eb index value class =
     addEvent eb \<lparr>evIndex = index, evType = EventTypeCounter, evValue = CounterValue value, evClass = class\<rparr> class"

definition GetClass1Count :: "EventBuffer \<Rightarrow> nat" where "GetClass1Count eb = length (ebClass1 eb)"
definition GetClass2Count :: "EventBuffer \<Rightarrow> nat" where "GetClass2Count eb = length (ebClass2 eb)"
definition GetClass3Count :: "EventBuffer \<Rightarrow> nat" where "GetClass3Count eb = length (ebClass3 eb)"

definition ClearClass1 :: "EventBuffer \<Rightarrow> EventBuffer" where "ClearClass1 eb = eb\<lparr>ebClass1 := []\<rparr>"
definition ClearClass2 :: "EventBuffer \<Rightarrow> EventBuffer" where "ClearClass2 eb = eb\<lparr>ebClass2 := []\<rparr>"
definition ClearClass3 :: "EventBuffer \<Rightarrow> EventBuffer" where "ClearClass3 eb = eb\<lparr>ebClass3 := []\<rparr>"

definition HasEvents :: "EventBuffer \<Rightarrow> bool" where
  "HasEvents eb \<longleftrightarrow> length (ebClass1 eb) > 0 \<or> length (ebClass2 eb) > 0 \<or> length (ebClass3 eb) > 0"

section \<open>A window over the events of a class\<close>

definition latest :: "nat \<Rightarrow> 'a list \<Rightarrow> 'a list" where
  "latest m xs = drop (length xs - m) xs"

lemma latest_simps [simp]: "latest m [] = []" "length (latest m xs) = min m (length xs)"
  by (auto simp: latest_def)

lemma append_event_latest:
  assumes "1 \<le> m"
  shows "append_event m (latest m es) e = Some (latest m (es @ [e]))"
proof (cases "m \<le> length es")
  case True
  then have "latest m es = es ! (length es - m) # drop (Suc (length es - m)) es"
    using assms by (simp add: latest_def Cons_nth_drop_Suc)
  moreover have "latest m (es @ [e]) = drop (Suc (length es - m)) es @ [e]"
    using True assms by (simp add: latest_def Suc_diff_le)
  ultimately show ?thesis using True assms by (simp add: append_event_def)
next
  case False
  then show ?thesis using assms by (simp add: append_event_def latest_def)
qed

datatype buffer_op = Add Event byte | Clear byte

definition buffer_op :: "EventBuffer \<Rightarrow> buffer_op \<Rightarrow> EventBuffer option" where
  "buffer_op eb op =
     (case op of
        Add e class \<Rightarrow> addEvent eb e class
      | Clear class \<Rightarrow>
          Some (if class = 1 then ClearClass1 eb else if class = 2 then ClearClass2 eb
                else if class = 3 then ClearClass3 eb else eb))"

fun buffer_run :: "EventBuffer \<Rightarrow> buffer_op list \<Rightarrow> EventBuffer option" where
  "buffer_run eb [] = Some eb"
| "buffer_run eb (op # ops) = (case buffer_op eb op of None \<Rightarrow> None | Some eb' \<Rightarrow> buffer_run eb' ops)"

text \<open>The events of a class since it was last cleared.\<close>

definition since_clear :: "byte \<Rightarrow> Event list \<Rightarrow> buffer_op list \<Rightarrow> Event list" where
  "since_clear c = foldl (\<lambda>es op. case op of
     Add e class \<Rightarrow> if class = c then es @ [e] else es
   | Clear class \<Rightarrow> if class = c then [] else es)"

lemma since_clear_simps [simp]:
  "since_clear c es [] = es"
  "since_clear c es (Add e class # ops) = since_clear c (if class = c then es @ [e] else es) ops"
  "since_clear c es (Clear class # ops) = since_clear c (if class = c then [] else es) ops"
  by (simp_all add: since_clear_def)

lemma buffer_run_window:
  assumes "1 \<le> m"
  shows "buffer_run \<lparr>ebClass1 = latest m es1, ebClass2 = latest m es2, ebClass3 = latest m es3, ebMaxSize = m\<rparr> ops
    = Some \<lparr>ebClass1 = latest m (since_clear 1 es1 ops), ebClass2 = latest m (since_clear 2 es2 ops),
        ebClass3 = latest m (since_clear 3 es3 ops), ebMaxSize = m\<rparr>"
proof (induction ops arbitrary: es1 es2 es3)
  case Nil
  then show ?case by simp
next
  case (Cons op ops)
  note add = append_event_latest [OF assms]
  show ?case
  proof (cases op)
    case (Add e cl)
    consider "cl = 1" | "cl = 2" | "cl = 3" | "cl \<noteq> 1" "cl \<noteq> 2" "cl \<noteq> 3" by blast
    then show ?thesis
      using Add Cons.IH [of "es1 @ [e]" es2 es3] Cons.IH [of es1 "es2 @ [e]" es3]
        Cons.IH [of es1 es2 "es3 @ [e]"] Cons.IH [of es1 es2 es3]
      by cases (simp_all add: buffer_op_def addEvent_def add)
  next
    case (Clear cl)
    consider "cl = 1" | "cl = 2" | "cl = 3" | "cl \<noteq> 1" "cl \<noteq> 2" "cl \<noteq> 3" by blast
    then show ?thesis
      using Clear Cons.IH [of "[]" es2 es3] Cons.IH [of es1 "[]" es3] Cons.IH [of es1 es2 "[]"]
        Cons.IH [of es1 es2 es3]
      by cases (simp_all add: buffer_op_def ClearClass1_def ClearClass2_def ClearClass3_def)
  qed
qed

section \<open>Properties\<close>

text \<open>
  The event buffer keeps the newest events. With a maximum of at least one, any sequence of
  additions and clearings succeeds, and afterwards each class holds, oldest first, the newest
  events of that class since it was last cleared: all of them, or as many as the maximum. With
  a maximum of zero the first event of a class panics.
\<close>

theorem event_buffer_keeps_newest:
  "buffer_run (NewEventBuffer m) ops =
    (if m = 0 \<and> (\<exists>e class. Add e class \<in> set ops \<and> class \<in> {1, 2, 3}) then None
     else Some \<lparr>ebClass1 = latest m (since_clear 1 [] ops), ebClass2 = latest m (since_clear 2 [] ops),
        ebClass3 = latest m (since_clear 3 [] ops), ebMaxSize = m\<rparr>)"
proof (cases "m = 0")
  case True
  have zero: "buffer_run (NewEventBuffer 0) ops =
    (if \<exists>e class. Add e class \<in> set ops \<and> class \<in> {1, 2, 3} then None else Some (NewEventBuffer 0))"
  proof (induction ops)
    case Nil
    then show ?case by simp
  next
    case (Cons op ops)
    then show ?case
      by (cases op) (auto simp: buffer_op_def addEvent_def append_event_def NewEventBuffer_def
          ClearClass1_def ClearClass2_def ClearClass3_def)
  qed
  then show ?thesis using True by (simp add: NewEventBuffer_def latest_def)
next
  case False
  then have "1 \<le> m" by simp
  from buffer_run_window [OF this, of "[]" "[]" "[]" ops] False show ?thesis
    by (simp add: NewEventBuffer_def)
qed

end
