(* ===== verification/Outstation_Database.thy ===== *)
theory Outstation_Database
  imports Outstation_Events "HOL-Library.Multiset"
begin

text \<open>
  The point database of the outstation (\<open>pkg/outstation/database.go\<close>, with the configuration of
  \<open>config.go\<close> and the batches of \<open>update_builder.go\<close> and \<open>updates.go\<close>): updates store a value and,
  depending on the mode and the deadband, generate an event. Floating point values are bit
  patterns; the one floating point test the database makes, whether two values differ by more
  than a deadband, is an argument of the operations that use it.
\<close>

section \<open>Configuration\<close>

datatype EventMode = EventModeDetect | EventModeForce | EventModeSuppress

record BinaryPointConfig =
  bcStaticVariation :: byte
  bcEventVariation :: byte
  bcClass :: byte

record AnalogPointConfig =
  acStaticVariation :: byte
  acEventVariation :: byte
  acClass :: byte
  acDeadband :: float64

record CounterPointConfig =
  ccStaticVariation :: byte
  ccEventVariation :: byte
  ccClass :: byte
  ccDeadband :: u32

record DoubleBitBinaryPointConfig =
  dbcStaticVariation :: byte
  dbcEventVariation :: byte
  dbcClass :: byte

record FrozenCounterPointConfig =
  fzcStaticVariation :: byte
  fzcEventVariation :: byte
  fzcClass :: byte

record BinaryOutputStatusPointConfig =
  boscStaticVariation :: byte
  boscEventVariation :: byte
  boscClass :: byte

record AnalogOutputStatusPointConfig =
  aoscStaticVariation :: byte
  aoscEventVariation :: byte
  aoscClass :: byte
  aoscDeadband :: float64

record DatabaseConfig =
  dcBinary :: "BinaryPointConfig list"
  dcDoubleBit :: "DoubleBitBinaryPointConfig list"
  dcAnalog :: "AnalogPointConfig list"
  dcCounter :: "CounterPointConfig list"
  dcFrozenCounter :: "FrozenCounterPointConfig list"
  dcBinaryOutput :: "BinaryOutputStatusPointConfig list"
  dcAnalogOutput :: "AnalogOutputStatusPointConfig list"

section \<open>Points\<close>

record BinaryPoint =
  bpValue :: Binary
  bpStaticVariation :: byte
  bpEventVariation :: byte
  bpClass :: byte

record DoubleBitBinaryPoint =
  dpValue :: DoubleBitBinary
  dpStaticVariation :: byte
  dpEventVariation :: byte
  dpClass :: byte

record AnalogPoint =
  apValue :: Analog
  apStaticVariation :: byte
  apEventVariation :: byte
  apClass :: byte
  apDeadband :: float64

record CounterPoint =
  cpValue :: Counter
  cpStaticVariation :: byte
  cpEventVariation :: byte
  cpClass :: byte
  cpDeadband :: u32

record FrozenCounterPoint =
  fpValue :: FrozenCounter
  fpStaticVariation :: byte
  fpEventVariation :: byte
  fpClass :: byte

record BinaryOutputStatusPoint =
  opValue :: BinaryOutputStatus
  opStaticVariation :: byte
  opEventVariation :: byte
  opClass :: byte

record AnalogOutputStatusPoint =
  qpValue :: AnalogOutputStatus
  qpStaticVariation :: byte
  qpEventVariation :: byte
  qpClass :: byte
  qpDeadband :: float64

record Database =
  dbBinary :: "BinaryPoint list"
  dbDoubleBit :: "DoubleBitBinaryPoint list"
  dbAnalog :: "AnalogPoint list"
  dbCounter :: "CounterPoint list"
  dbFrozenCounter :: "FrozenCounterPoint list"
  dbBinaryOutput :: "BinaryOutputStatusPoint list"
  dbAnalogOutput :: "AnalogOutputStatusPoint list"
  dbEventBuffer :: EventBuffer

definition NewDatabase :: "DatabaseConfig \<Rightarrow> EventBuffer \<Rightarrow> Database" where
  "NewDatabase config eventBuffer =
     \<lparr>dbBinary = map (\<lambda>cfg. \<lparr>bpValue = \<lparr>biValue = False, biFlags = 0, biTime = ZeroTime\<rparr>,
        bpStaticVariation = bcStaticVariation cfg, bpEventVariation = bcEventVariation cfg,
        bpClass = bcClass cfg\<rparr>) (dcBinary config),
      dbDoubleBit = map (\<lambda>_. \<lparr>dpValue = \<lparr>dbValue = 0, dbFlags = 0, dbTime = 0\<rparr>,
        dpStaticVariation = 0, dpEventVariation = 0, dpClass = 0\<rparr>) (dcDoubleBit config),
      dbAnalog = map (\<lambda>cfg. \<lparr>apValue = \<lparr>anValue = 0, anFlags = 0, anTime = ZeroTime\<rparr>,
        apStaticVariation = acStaticVariation cfg, apEventVariation = acEventVariation cfg,
        apClass = acClass cfg, apDeadband = acDeadband cfg\<rparr>) (dcAnalog config),
      dbCounter = map (\<lambda>cfg. \<lparr>cpValue = \<lparr>cnValue = 0, cnFlags = 0, cnTime = ZeroTime\<rparr>,
        cpStaticVariation = ccStaticVariation cfg, cpEventVariation = ccEventVariation cfg,
        cpClass = ccClass cfg, cpDeadband = ccDeadband cfg\<rparr>) (dcCounter config),
      dbFrozenCounter = map (\<lambda>_. \<lparr>fpValue = \<lparr>fcValue = 0, fcFlags = 0, fcTime = 0\<rparr>,
        fpStaticVariation = 0, fpEventVariation = 0, fpClass = 0\<rparr>) (dcFrozenCounter config),
      dbBinaryOutput = map (\<lambda>_. \<lparr>opValue = \<lparr>boValue = False, boFlags = 0, boTime = 0\<rparr>,
        opStaticVariation = 0, opEventVariation = 0, opClass = 0\<rparr>) (dcBinaryOutput config),
      dbAnalogOutput = map (\<lambda>_. \<lparr>qpValue = \<lparr>asValue = 0, asFlags = 0, asTime = 0\<rparr>,
        qpStaticVariation = 0, qpEventVariation = 0, qpClass = 0, qpDeadband = 0\<rparr>) (dcAnalogOutput config),
      dbEventBuffer = eventBuffer\<rparr>"

section \<open>Updates\<close>

text \<open>A panic of the event buffer is \<open>None\<close>.\<close>

definition with_buffer :: "Database \<Rightarrow> EventBuffer option \<Rightarrow> Database option" where
  "with_buffer db eb = (case eb of None \<Rightarrow> None | Some b \<Rightarrow> Some (db\<lparr>dbEventBuffer := b\<rparr>))"

definition UpdateBinary :: "Database \<Rightarrow> u16 \<Rightarrow> Binary \<Rightarrow> EventMode \<Rightarrow> Database option" where
  "UpdateBinary db index value mode =
     (if unat index \<ge> length (dbBinary db) then Some db
      else let point = dbBinary db ! unat index;
               oldValue = biValue (bpValue point);
               db1 = db\<lparr>dbBinary := (dbBinary db)[unat index := point\<lparr>bpValue := value\<rparr>]\<rparr>;
               shouldGenerate = (case mode of
                   EventModeForce \<Rightarrow> True
                 | EventModeDetect \<Rightarrow> oldValue \<noteq> biValue value
                 | EventModeSuppress \<Rightarrow> False)
           in if shouldGenerate \<and> bpClass point > 0
              then with_buffer db1 (AddBinaryEvent (dbEventBuffer db1) index value (bpClass point))
              else Some db1)"

text \<open>\<open>apart a b d\<close> is the test \<open>math.Abs(a-b) > d\<close>.\<close>

definition UpdateAnalog ::
  "(float64 \<Rightarrow> float64 \<Rightarrow> float64 \<Rightarrow> bool) \<Rightarrow> Database \<Rightarrow> u16 \<Rightarrow> Analog \<Rightarrow> EventMode \<Rightarrow> Database option" where
  "UpdateAnalog apart db index value mode =
     (if unat index \<ge> length (dbAnalog db) then Some db
      else let point = dbAnalog db ! unat index;
               oldValue = anValue (apValue point);
               db1 = db\<lparr>dbAnalog := (dbAnalog db)[unat index := point\<lparr>apValue := value\<rparr>]\<rparr>;
               shouldGenerate = (case mode of
                   EventModeForce \<Rightarrow> True
                 | EventModeDetect \<Rightarrow> apart oldValue (anValue value) (apDeadband point)
                 | EventModeSuppress \<Rightarrow> False)
           in if shouldGenerate \<and> apClass point > 0
              then with_buffer db1 (AddAnalogEvent (dbEventBuffer db1) index value (apClass point))
              else Some db1)"

definition counter_diff :: "u32 \<Rightarrow> u32 \<Rightarrow> u32" where
  "counter_diff old new = (if new > old then new - old else old - new)"

definition UpdateCounter :: "Database \<Rightarrow> u16 \<Rightarrow> Counter \<Rightarrow> EventMode \<Rightarrow> Database option" where
  "UpdateCounter db index value mode =
     (if unat index \<ge> length (dbCounter db) then Some db
      else let point = dbCounter db ! unat index;
               oldValue = cnValue (cpValue point);
               db1 = db\<lparr>dbCounter := (dbCounter db)[unat index := point\<lparr>cpValue := value\<rparr>]\<rparr>;
               shouldGenerate = (case mode of
                   EventModeForce \<Rightarrow> True
                 | EventModeDetect \<Rightarrow> counter_diff oldValue (cnValue value) > cpDeadband point
                 | EventModeSuppress \<Rightarrow> False)
           in if shouldGenerate \<and> cpClass point > 0
              then with_buffer db1 (AddCounterEvent (dbEventBuffer db1) index value (cpClass point))
              else Some db1)"

definition GetBinary :: "Database \<Rightarrow> u16 \<Rightarrow> Binary \<times> bool" where
  "GetBinary db index =
     (if unat index \<ge> length (dbBinary db) then (\<lparr>biValue = False, biFlags = 0, biTime = 0\<rparr>, False)
      else (bpValue (dbBinary db ! unat index), True))"

definition GetAnalog :: "Database \<Rightarrow> u16 \<Rightarrow> Analog \<times> bool" where
  "GetAnalog db index =
     (if unat index \<ge> length (dbAnalog db) then (\<lparr>anValue = 0, anFlags = 0, anTime = 0\<rparr>, False)
      else (apValue (dbAnalog db ! unat index), True))"

definition GetCounter :: "Database \<Rightarrow> u16 \<Rightarrow> Counter \<times> bool" where
  "GetCounter db index =
     (if unat index \<ge> length (dbCounter db) then (\<lparr>cnValue = 0, cnFlags = 0, cnTime = 0\<rparr>, False)
      else (cpValue (dbCounter db ! unat index), True))"

definition BinaryCount :: "Database \<Rightarrow> nat" where "BinaryCount db = length (dbBinary db)"
definition AnalogCount :: "Database \<Rightarrow> nat" where "AnalogCount db = length (dbAnalog db)"
definition CounterCount :: "Database \<Rightarrow> nat" where "CounterCount db = length (dbCounter db)"

section \<open>Batches\<close>

datatype MeasurementType =
    MeasurementTypeBinary | MeasurementTypeDoubleBitBinary | MeasurementTypeAnalog
  | MeasurementTypeCounter | MeasurementTypeFrozenCounter | MeasurementTypeBinaryOutputStatus
  | MeasurementTypeAnalogOutputStatus

datatype measurement =
    MBinary Binary | MDoubleBit DoubleBitBinary | MAnalog Analog | MCounter Counter
  | MFrozenCounter FrozenCounter | MBinaryOutput BinaryOutputStatus | MAnalogOutput AnalogOutputStatus

type_synonym updateKey = "MeasurementType \<times> u16"
type_synonym updateValue = "measurement \<times> EventMode"

text \<open>A Go map: the latest update of a key counts; its iteration order is a list of its entries.\<close>

type_synonym UpdateBuilder = "updateKey \<rightharpoonup> updateValue"

definition NewUpdateBuilder :: UpdateBuilder where "NewUpdateBuilder = Map.empty"

definition Builder_UpdateBinary :: "UpdateBuilder \<Rightarrow> Binary \<Rightarrow> u16 \<Rightarrow> EventMode \<Rightarrow> UpdateBuilder" where
  "Builder_UpdateBinary b value index mode = b((MeasurementTypeBinary, index) \<mapsto> (MBinary value, mode))"

definition Builder_UpdateDoubleBitBinary ::
  "UpdateBuilder \<Rightarrow> DoubleBitBinary \<Rightarrow> u16 \<Rightarrow> EventMode \<Rightarrow> UpdateBuilder" where
  "Builder_UpdateDoubleBitBinary b value index mode =
     b((MeasurementTypeDoubleBitBinary, index) \<mapsto> (MDoubleBit value, mode))"

definition Builder_UpdateAnalog :: "UpdateBuilder \<Rightarrow> Analog \<Rightarrow> u16 \<Rightarrow> EventMode \<Rightarrow> UpdateBuilder" where
  "Builder_UpdateAnalog b value index mode = b((MeasurementTypeAnalog, index) \<mapsto> (MAnalog value, mode))"

definition Builder_UpdateCounter :: "UpdateBuilder \<Rightarrow> Counter \<Rightarrow> u16 \<Rightarrow> EventMode \<Rightarrow> UpdateBuilder" where
  "Builder_UpdateCounter b value index mode = b((MeasurementTypeCounter, index) \<mapsto> (MCounter value, mode))"

definition Builder_UpdateFrozenCounter ::
  "UpdateBuilder \<Rightarrow> FrozenCounter \<Rightarrow> u16 \<Rightarrow> EventMode \<Rightarrow> UpdateBuilder" where
  "Builder_UpdateFrozenCounter b value index mode =
     b((MeasurementTypeFrozenCounter, index) \<mapsto> (MFrozenCounter value, mode))"

definition Builder_UpdateBinaryOutputStatus ::
  "UpdateBuilder \<Rightarrow> BinaryOutputStatus \<Rightarrow> u16 \<Rightarrow> EventMode \<Rightarrow> UpdateBuilder" where
  "Builder_UpdateBinaryOutputStatus b value index mode =
     b((MeasurementTypeBinaryOutputStatus, index) \<mapsto> (MBinaryOutput value, mode))"

definition Builder_UpdateAnalogOutputStatus ::
  "UpdateBuilder \<Rightarrow> AnalogOutputStatus \<Rightarrow> u16 \<Rightarrow> EventMode \<Rightarrow> UpdateBuilder" where
  "Builder_UpdateAnalogOutputStatus b value index mode =
     b((MeasurementTypeAnalogOutputStatus, index) \<mapsto> (MAnalogOutput value, mode))"

text \<open>Applying one entry of a batch, and the entries in the order the iteration gives them.\<close>

definition apply_update ::
  "(float64 \<Rightarrow> float64 \<Rightarrow> float64 \<Rightarrow> bool) \<Rightarrow> updateKey \<times> updateValue \<Rightarrow> Database \<Rightarrow> Database option" where
  "apply_update apart u db =
     (case u of ((pointType, index), (meas, mode)) \<Rightarrow>
        (case pointType of
           MeasurementTypeBinary \<Rightarrow> (case meas of MBinary v \<Rightarrow> UpdateBinary db index v mode | _ \<Rightarrow> Some db)
         | MeasurementTypeAnalog \<Rightarrow> (case meas of MAnalog v \<Rightarrow> UpdateAnalog apart db index v mode | _ \<Rightarrow> Some db)
         | MeasurementTypeCounter \<Rightarrow> (case meas of MCounter v \<Rightarrow> UpdateCounter db index v mode | _ \<Rightarrow> Some db)
         | _ \<Rightarrow> Some db))"

fun applyUpdates ::
  "(float64 \<Rightarrow> float64 \<Rightarrow> float64 \<Rightarrow> bool) \<Rightarrow> (updateKey \<times> updateValue) list \<Rightarrow> Database \<Rightarrow> Database option" where
  "applyUpdates apart [] db = Some db"
| "applyUpdates apart (u # us) db =
     (case apply_update apart u db of None \<Rightarrow> None | Some db' \<Rightarrow> applyUpdates apart us db')"

section \<open>Buffers that cannot panic\<close>

lemma append_event_ok:
  "1 \<le> m \<Longrightarrow> \<exists>es'. append_event m es e = Some es'"
  by (auto simp: append_event_def split: list.split)

lemma addEvent_ok:
  assumes "1 \<le> ebMaxSize eb"
  shows "\<exists>eb'. addEvent eb e cl = Some eb' \<and> ebMaxSize eb' = ebMaxSize eb"
  using append_event_ok [OF assms] by (auto simp: addEvent_def split: option.split) (metis option.distinct(1))+

lemma Add_ok:
  assumes "1 \<le> ebMaxSize eb"
  shows "\<exists>eb'. AddBinaryEvent eb i b cl = Some eb' \<and> ebMaxSize eb' = ebMaxSize eb"
    and "\<exists>eb'. AddAnalogEvent eb i a cl = Some eb' \<and> ebMaxSize eb' = ebMaxSize eb"
    and "\<exists>eb'. AddCounterEvent eb i c cl = Some eb' \<and> ebMaxSize eb' = ebMaxSize eb"
  using addEvent_ok [OF assms] by (simp_all add: AddBinaryEvent_def AddAnalogEvent_def AddCounterEvent_def)

section \<open>What an update stores\<close>

definition store_update :: "updateKey \<times> updateValue \<Rightarrow> Database \<Rightarrow> Database" where
  "store_update u db =
     (case u of ((pointType, index), (meas, mode)) \<Rightarrow>
        (case (pointType, meas) of
           (MeasurementTypeBinary, MBinary v) \<Rightarrow>
             db\<lparr>dbBinary := (dbBinary db)[unat index := (dbBinary db ! unat index)\<lparr>bpValue := v\<rparr>]\<rparr>
         | (MeasurementTypeAnalog, MAnalog v) \<Rightarrow>
             db\<lparr>dbAnalog := (dbAnalog db)[unat index := (dbAnalog db ! unat index)\<lparr>apValue := v\<rparr>]\<rparr>
         | (MeasurementTypeCounter, MCounter v) \<Rightarrow>
             db\<lparr>dbCounter := (dbCounter db)[unat index := (dbCounter db ! unat index)\<lparr>cpValue := v\<rparr>]\<rparr>
         | _ \<Rightarrow> db))"

lemma Update_stores:
  assumes "1 \<le> ebMaxSize (dbEventBuffer db)"
  shows "\<exists>db'. UpdateBinary db i v mo = Some db'
      \<and> db'\<lparr>dbEventBuffer := b\<rparr> = store_update ((MeasurementTypeBinary, i), (MBinary v, mo)) (db\<lparr>dbEventBuffer := b\<rparr>)
      \<and> ebMaxSize (dbEventBuffer db') = ebMaxSize (dbEventBuffer db)"
    and "\<exists>db'. UpdateAnalog apart db i a mo = Some db'
      \<and> db'\<lparr>dbEventBuffer := b\<rparr> = store_update ((MeasurementTypeAnalog, i), (MAnalog a, mo)) (db\<lparr>dbEventBuffer := b\<rparr>)
      \<and> ebMaxSize (dbEventBuffer db') = ebMaxSize (dbEventBuffer db)"
    and "\<exists>db'. UpdateCounter db i c mo = Some db'
      \<and> db'\<lparr>dbEventBuffer := b\<rparr> = store_update ((MeasurementTypeCounter, i), (MCounter c, mo)) (db\<lparr>dbEventBuffer := b\<rparr>)
      \<and> ebMaxSize (dbEventBuffer db') = ebMaxSize (dbEventBuffer db)"
proof -
  note ok = Add_ok [OF assms]
  show "\<exists>db'. UpdateBinary db i v mo = Some db'
      \<and> db'\<lparr>dbEventBuffer := b\<rparr> = store_update ((MeasurementTypeBinary, i), (MBinary v, mo)) (db\<lparr>dbEventBuffer := b\<rparr>)
      \<and> ebMaxSize (dbEventBuffer db') = ebMaxSize (dbEventBuffer db)"
  proof (cases "length (dbBinary db) \<le> unat i")
    case True
    then show ?thesis by (simp add: UpdateBinary_def store_update_def list_update_beyond)
  next
    case False
    obtain eb where "AddBinaryEvent (dbEventBuffer db) i v (bpClass (dbBinary db ! unat i)) = Some eb"
      "ebMaxSize eb = ebMaxSize (dbEventBuffer db)" using ok(1) by blast
    with False show ?thesis by (simp add: UpdateBinary_def store_update_def with_buffer_def Let_def)
  qed
  show "\<exists>db'. UpdateAnalog apart db i a mo = Some db'
      \<and> db'\<lparr>dbEventBuffer := b\<rparr> = store_update ((MeasurementTypeAnalog, i), (MAnalog a, mo)) (db\<lparr>dbEventBuffer := b\<rparr>)
      \<and> ebMaxSize (dbEventBuffer db') = ebMaxSize (dbEventBuffer db)"
  proof (cases "length (dbAnalog db) \<le> unat i")
    case True
    then show ?thesis by (simp add: UpdateAnalog_def store_update_def list_update_beyond)
  next
    case False
    obtain eb where "AddAnalogEvent (dbEventBuffer db) i a (apClass (dbAnalog db ! unat i)) = Some eb"
      "ebMaxSize eb = ebMaxSize (dbEventBuffer db)" using ok(2) by blast
    with False show ?thesis by (simp add: UpdateAnalog_def store_update_def with_buffer_def Let_def)
  qed
  show "\<exists>db'. UpdateCounter db i c mo = Some db'
      \<and> db'\<lparr>dbEventBuffer := b\<rparr> = store_update ((MeasurementTypeCounter, i), (MCounter c, mo)) (db\<lparr>dbEventBuffer := b\<rparr>)
      \<and> ebMaxSize (dbEventBuffer db') = ebMaxSize (dbEventBuffer db)"
  proof (cases "length (dbCounter db) \<le> unat i")
    case True
    then show ?thesis by (simp add: UpdateCounter_def store_update_def list_update_beyond)
  next
    case False
    obtain eb where "AddCounterEvent (dbEventBuffer db) i c (cpClass (dbCounter db ! unat i)) = Some eb"
      "ebMaxSize eb = ebMaxSize (dbEventBuffer db)" using ok(3) by blast
    with False show ?thesis by (simp add: UpdateCounter_def store_update_def with_buffer_def Let_def)
  qed
qed

lemma apply_update_stores:
  assumes "1 \<le> ebMaxSize (dbEventBuffer db)"
  shows "\<exists>db'. apply_update apart u db = Some db'
    \<and> db'\<lparr>dbEventBuffer := b\<rparr> = store_update u (db\<lparr>dbEventBuffer := b\<rparr>)
    \<and> ebMaxSize (dbEventBuffer db') = ebMaxSize (dbEventBuffer db)"
proof -
  obtain pt i me mo where u: "u = ((pt, i), (me, mo))" by (metis prod.exhaust)
  show ?thesis
    using Update_stores [OF assms, where b = b]
    by (cases pt; cases me) (simp_all add: u apply_update_def, simp_all add: store_update_def)
qed

lemma applyUpdates_stores:
  assumes "1 \<le> ebMaxSize (dbEventBuffer db)"
  shows "\<exists>db'. applyUpdates apart us db = Some db'
    \<and> db'\<lparr>dbEventBuffer := b\<rparr> = fold store_update us (db\<lparr>dbEventBuffer := b\<rparr>)"
  using assms
proof (induction us arbitrary: db)
  case Nil
  then show ?case by simp
next
  case (Cons u us)
  obtain db1 where db1: "apply_update apart u db = Some db1"
    "db1\<lparr>dbEventBuffer := b\<rparr> = store_update u (db\<lparr>dbEventBuffer := b\<rparr>)"
    "ebMaxSize (dbEventBuffer db1) = ebMaxSize (dbEventBuffer db)"
    using apply_update_stores [OF Cons.prems] by blast
  with Cons.IH [of db1] Cons.prems show ?case by simp
qed

lemma store_update_forms:
  "(\<forall>db. store_update u db = db)
    \<or> (\<exists>i v. fst u = (MeasurementTypeBinary, i) \<and> (\<forall>db. store_update u db
        = db\<lparr>dbBinary := (dbBinary db)[unat i := (dbBinary db ! unat i)\<lparr>bpValue := v\<rparr>]\<rparr>))
    \<or> (\<exists>i v. fst u = (MeasurementTypeAnalog, i) \<and> (\<forall>db. store_update u db
        = db\<lparr>dbAnalog := (dbAnalog db)[unat i := (dbAnalog db ! unat i)\<lparr>apValue := v\<rparr>]\<rparr>))
    \<or> (\<exists>i v. fst u = (MeasurementTypeCounter, i) \<and> (\<forall>db. store_update u db
        = db\<lparr>dbCounter := (dbCounter db)[unat i := (dbCounter db ! unat i)\<lparr>cpValue := v\<rparr>]\<rparr>))"
proof -
  obtain p i m e where u: "u = ((p, i), (m, e))" by (metis prod.exhaust)
  show ?thesis by (cases p; cases m) (auto simp: u store_update_def)
qed

lemma store_update_commute:
  assumes "fst u \<noteq> fst v"
  shows "store_update u (store_update v db) = store_update v (store_update u db)"
  using store_update_forms [of u] store_update_forms [of v] assms
  by (elim disjE exE conjE) (simp_all add: word_unat_eq_iff list_update_swap)

section \<open>The events of a counter\<close>

lemma counter_diff_int: "d < counter_diff a b \<longleftrightarrow> uint d < \<bar>uint b - uint a\<bar>"
proof (cases "a < b")
  case True
  then have "uint (b - a) = uint b - uint a" using uint_sub_lem [of a b] by (simp add: word_less_def)
  with True show ?thesis by (simp add: counter_diff_def word_less_def)
next
  case False
  then have "uint (a - b) = uint a - uint b" using uint_sub_lem [of b a] by (simp add: word_less_def)
  with False show ?thesis by (simp add: counter_diff_def word_less_def)
qed

fun update_counters :: "Database \<Rightarrow> u16 \<Rightarrow> Counter list \<Rightarrow> Database option" where
  "update_counters db index [] = Some db"
| "update_counters db index (v # vs) =
     (case UpdateCounter db index v EventModeDetect of
        None \<Rightarrow> None | Some db' \<Rightarrow> update_counters db' index vs)"

text \<open>The values that differ from the one before them by more than the deadband.\<close>

fun crossings :: "u32 \<Rightarrow> Counter \<Rightarrow> Counter list \<Rightarrow> Counter list" where
  "crossings d old [] = []"
| "crossings d old (v # vs) =
     (if uint d < \<bar>uint (cnValue v) - uint (cnValue old)\<bar> then v # crossings d v vs else crossings d v vs)"

definition counter_event :: "u16 \<Rightarrow> byte \<Rightarrow> Counter \<Rightarrow> Event" where
  "counter_event index cl v =
     \<lparr>evIndex = index, evType = EventTypeCounter, evValue = CounterValue v, evClass = cl\<rparr>"

lemma update_counters_events:
  assumes "unat index < length (dbCounter db)" and "cpClass (dbCounter db ! unat index) = cl" and "0 < cl"
    and "cpDeadband (dbCounter db ! unat index) = d" and "cpValue (dbCounter db ! unat index) = old"
    and "1 \<le> ebMaxSize (dbEventBuffer db)"
  shows "\<exists>db'. update_counters db index vs = Some db'
    \<and> GetCounter db' index = (last (old # vs), True)
    \<and> buffer_run (dbEventBuffer db) (map (\<lambda>v. Add (counter_event index cl v) cl) (crossings d old vs))
        = Some (dbEventBuffer db')"
  using assms
proof (induction vs arbitrary: db old)
  case Nil
  then show ?case by (simp add: GetCounter_def)
next
  case (Cons v vs)
  let ?db1 = "db\<lparr>dbCounter := (dbCounter db)[unat index := (dbCounter db ! unat index)\<lparr>cpValue := v\<rparr>]\<rparr>"
  obtain eb where eb: "addEvent (dbEventBuffer db) (counter_event index cl v) cl = Some eb"
    "ebMaxSize eb = ebMaxSize (dbEventBuffer db)"
    using addEvent_ok [OF Cons.prems(6)] by blast
  show ?case
  proof (cases "uint d < \<bar>uint (cnValue v) - uint (cnValue old)\<bar>")
    case True
    then have "UpdateCounter db index v EventModeDetect = Some (?db1\<lparr>dbEventBuffer := eb\<rparr>)"
      using Cons.prems eb
      by (simp add: UpdateCounter_def Let_def counter_diff_int with_buffer_def AddCounterEvent_def counter_event_def)
    then show ?thesis
      using Cons.IH [of "?db1\<lparr>dbEventBuffer := eb\<rparr>" v] Cons.prems eb True
      by (simp add: buffer_op_def)
  next
    case False
    then have "UpdateCounter db index v EventModeDetect = Some ?db1"
      using Cons.prems by (simp add: UpdateCounter_def Let_def counter_diff_int)
    then show ?thesis using Cons.IH [of ?db1 v] Cons.prems False by simp
  qed
qed

section \<open>Properties\<close>

text \<open>
  What a counter reports. Update one counter point of an event class with any list of
  values in detect mode, with an event buffer of at least one event per class. The point then
  holds the last value, and the events added to the buffer are, in order, exactly the values
  that differ from the value stored right before them, as integers, by more than the deadband.
\<close>

theorem counter_events_exact:
  assumes "unat index < length (dbCounter db)" and "point = dbCounter db ! unat index"
    and "0 < cpClass point" and "1 \<le> ebMaxSize (dbEventBuffer db)"
  shows "\<exists>db'. update_counters db index vs = Some db'
    \<and> GetCounter db' index = (last (cpValue point # vs), True)
    \<and> buffer_run (dbEventBuffer db)
        (map (\<lambda>v. Add (counter_event index (cpClass point) v) (cpClass point))
          (crossings (cpDeadband point) (cpValue point) vs)) = Some (dbEventBuffer db')"
  using update_counters_events [OF assms(1) _ assms(3) refl refl assms(4)] assms(2) by simp

theorem counter_events_exact_witness:
  "\<exists>db'. let db = NewDatabase \<lparr>dcBinary = [], dcDoubleBit = [], dcAnalog = [],
        dcCounter = [\<lparr>ccStaticVariation = 1, ccEventVariation = 1, ccClass = 2, ccDeadband = 5\<rparr>],
        dcFrozenCounter = [], dcBinaryOutput = [], dcAnalogOutput = []\<rparr> (NewEventBuffer 2);
      c = (\<lambda>n. \<lparr>cnValue = n, cnFlags = 1, cnTime = 0\<rparr>)
    in update_counters db 0 [c 5, c 10, c 16, c 3, c 9] = Some db'
      \<and> GetCounter db' 0 = (c 9, True)
      \<and> ebClass2 (dbEventBuffer db') = [counter_event 0 2 (c 3), counter_event 0 2 (c 9)]"
proof -
  let ?db = "NewDatabase \<lparr>dcBinary = [], dcDoubleBit = [], dcAnalog = [],
        dcCounter = [\<lparr>ccStaticVariation = 1, ccEventVariation = 1, ccClass = 2, ccDeadband = 5\<rparr>],
        dcFrozenCounter = [], dcBinaryOutput = [], dcAnalogOutput = []\<rparr> (NewEventBuffer 2)"
  let ?c = "\<lambda>n. \<lparr>cnValue = n, cnFlags = 1, cnTime = 0\<rparr>"
  have "\<exists>db'. update_counters ?db 0 [?c 5, ?c 10, ?c 16, ?c 3, ?c 9] = Some db'
    \<and> GetCounter db' 0 = (last (cpValue (dbCounter ?db ! 0) # [?c 5, ?c 10, ?c 16, ?c 3, ?c 9]), True)
    \<and> buffer_run (dbEventBuffer ?db)
        (map (\<lambda>v. Add (counter_event 0 (cpClass (dbCounter ?db ! 0)) v) (cpClass (dbCounter ?db ! 0)))
          (crossings (cpDeadband (dbCounter ?db ! 0)) (cpValue (dbCounter ?db ! 0))
            [?c 5, ?c 10, ?c 16, ?c 3, ?c 9])) = Some (dbEventBuffer db')"
    by (rule counter_events_exact) (simp_all add: NewDatabase_def NewEventBuffer_def)
  then obtain db' where db': "update_counters ?db 0 [?c 5, ?c 10, ?c 16, ?c 3, ?c 9] = Some db'"
    "GetCounter db' 0 = (?c 9, True)"
    "buffer_run (dbEventBuffer ?db)
        (map (\<lambda>v. Add (counter_event 0 (cpClass (dbCounter ?db ! 0)) v) (cpClass (dbCounter ?db ! 0)))
          (crossings (cpDeadband (dbCounter ?db ! 0)) (cpValue (dbCounter ?db ! 0))
            [?c 5, ?c 10, ?c 16, ?c 3, ?c 9])) = Some (dbEventBuffer db')" by auto
  then have buf: "dbEventBuffer db' = \<lparr>ebClass1 = [], ebClass2 = [counter_event 0 2 (?c 3), counter_event 0 2 (?c 9)],
      ebClass3 = [], ebMaxSize = 2\<rparr>"
    by (simp add: NewDatabase_def NewEventBuffer_def buffer_op_def addEvent_def append_event_def)
  have "ebClass2 (dbEventBuffer db') = [counter_event 0 2 (?c 3), counter_event 0 2 (?c 9)]"
    using buf by simp
  with db'(1,2) show ?thesis unfolding Let_def by blast
qed

text \<open>
  The order in which a batch is applied does not matter to the points. A batch is a Go
  map, whose entries the code applies in whatever order the iteration gives. For any two
  orders of the same entries, with distinct keys, both succeed and leave every point of the
  database with the same value.
\<close>

theorem updates_order_irrelevant:
  assumes "distinct (map fst us)" and "mset us = mset vs" and "1 \<le> ebMaxSize (dbEventBuffer db)"
  shows "\<exists>d e. applyUpdates apart us db = Some d \<and> applyUpdates apart vs db = Some e
    \<and> d\<lparr>dbEventBuffer := dbEventBuffer db\<rparr> = e\<lparr>dbEventBuffer := dbEventBuffer db\<rparr>"
proof -
  have "fold store_update us = fold store_update vs"
  proof (rule fold_multiset_equiv [OF _ assms(2)])
    fix u v
    assume "u \<in> set us" "v \<in> set us"
    then have "u = v \<or> fst u \<noteq> fst v" using assms(1) by (auto simp: distinct_map inj_on_def)
    then show "store_update u \<circ> store_update v = store_update v \<circ> store_update u"
      using store_update_commute [of u v] by (auto simp: fun_eq_iff)
  qed
  then show ?thesis
    using applyUpdates_stores [OF assms(3), where us = us and b = "dbEventBuffer db" and apart = apart]
      applyUpdates_stores [OF assms(3), where us = vs and b = "dbEventBuffer db" and apart = apart] by auto
qed

theorem updates_order_irrelevant_witness:
  "\<exists>d e. let c = (\<lambda>n. \<lparr>cnValue = n, cnFlags = 1, cnTime = 0\<rparr>);
      us = [((MeasurementTypeCounter, 0), (MCounter (c 7), EventModeForce)),
            ((MeasurementTypeCounter, 1), (MCounter (c 9), EventModeForce))];
      db = NewDatabase \<lparr>dcBinary = [], dcDoubleBit = [], dcAnalog = [],
        dcCounter = [\<lparr>ccStaticVariation = 1, ccEventVariation = 1, ccClass = 2, ccDeadband = 5\<rparr>,
          \<lparr>ccStaticVariation = 1, ccEventVariation = 1, ccClass = 2, ccDeadband = 5\<rparr>],
        dcFrozenCounter = [], dcBinaryOutput = [], dcAnalogOutput = []\<rparr> (NewEventBuffer 1)
    in applyUpdates (\<lambda>a b d. False) us db = Some d \<and> applyUpdates (\<lambda>a b d. False) (rev us) db = Some e
      \<and> d\<lparr>dbEventBuffer := dbEventBuffer db\<rparr> = e\<lparr>dbEventBuffer := dbEventBuffer db\<rparr>"
  unfolding Let_def
  by (rule updates_order_irrelevant) (simp_all add: NewDatabase_def NewEventBuffer_def)

end
