(* ===== verification/App_Parsing.thy ===== *)
theory App_Parsing
  imports App_Objects
begin

text \<open>
  Facts about the parser of object data that its clients share: what it does in the middle of
  its data, and that every read moves it forward, which ends the loops over object headers.
\<close>

section \<open>The parser in the middle of its data\<close>

lemma ReadObjectHeader_shift:
  "ReadObjectHeader \<lparr>psData = pre @ data, psOffset = length pre + n\<rparr>
    = (case ReadObjectHeader \<lparr>psData = data, psOffset = n\<rparr> of
         (r, p) \<Rightarrow> (r, \<lparr>psData = pre @ psData p, psOffset = length pre + psOffset p\<rparr>))"
  by (simp add: ReadObjectHeader_def Remaining_def le_at_def readStartStop8_def readStartStop16_def
      readStartStop32_def readCount8_def readCount16_def readCount32_def nth_append Let_def)

text \<open>The parser at the start of a header, in the middle of its data.\<close>

lemma ReadObjectHeader_at:
  assumes "header_fits h"
  shows "ReadObjectHeader \<lparr>psData = pre @ header_bytes h @ rest, psOffset = length pre\<rparr>
    = (Inr h, \<lparr>psData = pre @ header_bytes h @ rest, psOffset = length pre + length (header_bytes h)\<rparr>)"
proof -
  obtain r p where r: "ReadObjectHeader \<lparr>psData = header_bytes h @ rest, psOffset = 0\<rparr> = (r, p)" by fastforce
  then have p: "r = Inr h" "psOffset p = length (header_bytes h)"
    using header_roundtrip [OF assms, of rest] by (auto simp: header_parse_def NewParser_def split: sum.splits)
  have "psData p = header_bytes h @ rest"
    using r by (auto simp: ReadObjectHeader_def readStartStop8_def readStartStop16_def readStartStop32_def
        readCount8_def readCount16_def readCount32_def Let_def split: if_splits prod.splits sum.splits)
  then show ?thesis using ReadObjectHeader_shift [of pre "header_bytes h @ rest" 0] r p by simp
qed

lemma ReadBytes_at:
  "n = length d \<Longrightarrow> ReadBytes \<lparr>psData = pre @ d @ rest, psOffset = length pre\<rparr> n
    = (Inr d, \<lparr>psData = pre @ d @ rest, psOffset = length pre + n\<rparr>)"
  by (simp add: ReadBytes_def Remaining_def)

section \<open>Reading moves forward\<close>

lemma readers_advance:
  "psData (snd (readStartStop8 p)) = psData p \<and> psOffset p \<le> psOffset (snd (readStartStop8 p))"
  "psData (snd (readStartStop16 p)) = psData p \<and> psOffset p \<le> psOffset (snd (readStartStop16 p))"
  "psData (snd (readStartStop32 p)) = psData p \<and> psOffset p \<le> psOffset (snd (readStartStop32 p))"
  "psData (snd (readCount8 p)) = psData p \<and> psOffset p \<le> psOffset (snd (readCount8 p))"
  "psData (snd (readCount16 p)) = psData p \<and> psOffset p \<le> psOffset (snd (readCount16 p))"
  "psData (snd (readCount32 p)) = psData p \<and> psOffset p \<le> psOffset (snd (readCount32 p))"
  by (simp_all add: readStartStop8_def readStartStop16_def readStartStop32_def readCount8_def
      readCount16_def readCount32_def)

lemma ReadObjectHeader_advances:
  assumes "ReadObjectHeader p = (Inr h, p')"
  shows "psData p' = psData p \<and> psOffset p + 3 \<le> psOffset p'"
proof -
  let ?p = "p\<lparr>psOffset := psOffset p + 3\<rparr>" and ?q = "psData p ! (psOffset p + 2)"
  define rp where "rp =
    (if ?q = Qualifier8BitStartStop then readStartStop8 ?p
     else if ?q = Qualifier16BitStartStop then readStartStop16 ?p
     else if ?q = Qualifier32BitStartStop then readStartStop32 ?p
     else if ?q = Qualifier8BitCount then readCount8 ?p
     else if ?q = Qualifier16BitCount then readCount16 ?p
     else if ?q = Qualifier32BitCount then readCount32 ?p
     else if ?q = QualifierNoRange then (Inr NoRange, ?p)
     else (Inl (UnsupportedQualifier ?q), ?p))"
  define ok where "ok r \<longleftrightarrow> psData (snd r) = psData p \<and> psOffset p + 3 \<le> psOffset (snd r)"
    for r :: "(parser_err + Range) \<times> Parser"
  have ok_if: "ok x \<Longrightarrow> ok y \<Longrightarrow> ok (if b then x else y)" for b x y by simp
  have "ok rp"
    unfolding rp_def by (intro ok_if) (use readers_advance [of ?p] in \<open>simp_all add: ok_def\<close>)
  moreover have "p' = snd rp"
  proof -
    have "ReadObjectHeader p = (if Remaining p < 3 then (Inl ErrInsufficientData, p)
      else (case rp of (Inl err, p2) \<Rightarrow> (Inl err, p2)
            | (Inr r, p2) \<Rightarrow> (Inr \<lparr>ohGroup = psData p ! psOffset p, ohVariation = psData p ! (psOffset p + 1),
                ohQualifier = ?q, ohRange = r\<rparr>, p2)))"
      unfolding ReadObjectHeader_def Let_def rp_def [symmetric] by (simp split: prod.split)
    with assms show ?thesis by (cases rp) (auto split: if_splits sum.splits)
  qed
  ultimately show ?thesis by (simp add: ok_def)
qed

lemma header_read_shrinks:
  assumes "HasMore p" and "(Inr h, p1) = ReadObjectHeader p"
  shows "length (psData p1) - psOffset p1 < length (psData p) - psOffset p"
  using ReadObjectHeader_advances [OF assms(2) [symmetric]] assms(1) by (auto simp: HasMore_def)

lemma ReadBytes_advances:
  "ReadBytes p n = (r, p') \<Longrightarrow> psData p' = psData p \<and> psOffset p \<le> psOffset p'"
  by (auto simp: ReadBytes_def split: if_splits)

lemma Skip_advances:
  "psData (snd (Skip p n)) = psData p \<and> psOffset p \<le> psOffset (snd (Skip p n))"
  by (simp add: Skip_def)

end
