(* ===== verification/App_Controls.thy ===== *)
theory App_Controls
  imports App_Parsing
begin

text \<open>
  Command objects (\<open>pkg/app/controls.go\<close>, the command types of \<open>pkg/types/commands.go\<close> and the
  request builders of \<open>pkg/app/helpers.go\<close> that use them): the control relay output block and
  the analog output block with their wire formats, and the requests built from them. Floating
  point values enter as their bit patterns.
\<close>

unbundle bit_operations_syntax

section \<open>Control relay output blocks\<close>

definition ControlCodePulseOn :: byte where [simp]: "ControlCodePulseOn = 0x01"
definition ControlCodePulseOff :: byte where [simp]: "ControlCodePulseOff = 0x02"
definition ControlCodeLatchOn :: byte where [simp]: "ControlCodeLatchOn = 0x03"
definition ControlCodeLatchOff :: byte where [simp]: "ControlCodeLatchOff = 0x04"

definition GroupBinaryOutputCommand :: byte where [simp]: "GroupBinaryOutputCommand = 12"
definition GroupAnalogOutputCommand :: byte where [simp]: "GroupAnalogOutputCommand = 41"

record CROB =
  crControlCode :: byte
  crCount :: byte
  crOnTime :: u32
  crOffTime :: u32
  crStatus :: byte

datatype control_err = CROBTooShort nat | AnalogOutputTooShort nat

definition NewCROB :: "byte \<Rightarrow> byte \<Rightarrow> u32 \<Rightarrow> u32 \<Rightarrow> CROB" where
  "NewCROB code count onTime offTime =
     \<lparr>crControlCode = code, crCount = count, crOnTime = onTime, crOffTime = offTime, crStatus = 0\<rparr>"

definition NewLatchOn :: CROB where "NewLatchOn = NewCROB ControlCodeLatchOn 1 0 0"

definition NewLatchOff :: CROB where "NewLatchOff = NewCROB ControlCodeLatchOff 1 0 0"

definition NewPulseOn :: "u32 \<Rightarrow> CROB" where "NewPulseOn onTime = NewCROB ControlCodePulseOn 1 onTime 0"

definition NewPulseOff :: "u32 \<Rightarrow> CROB" where
  "NewPulseOff offTime = NewCROB ControlCodePulseOff 1 0 offTime"

definition CROB_Serialize :: "CROB \<Rightarrow> bytes" where
  "CROB_Serialize c =
     [crControlCode c, crCount c] @ put_le 4 (crOnTime c) @ put_le 4 (crOffTime c) @ [crStatus c]"

definition ParseCROB :: "bytes \<Rightarrow> control_err + CROB" where
  "ParseCROB data =
     (if length data < 11 then Inl (CROBTooShort (length data))
      else Inr \<lparr>crControlCode = data ! 0, crCount = data ! 1, crOnTime = get_le (take 4 (drop 2 data)),
                crOffTime = get_le (take 4 (drop 6 data)), crStatus = data ! 10\<rparr>)"

section \<open>Analog output blocks\<close>

text \<open>The value is an \<open>interface{}\<close>; the serializers take the zero value when its type is another.\<close>

datatype analog_value = Int16 u16 | Int32 u32 | Float32 u32 | Float64 u64

record AnalogOutputBlock =
  aoValue :: analog_value
  aoStatus :: byte

definition NewAnalogOutputBlockInt32 :: "u32 \<Rightarrow> AnalogOutputBlock" where
  "NewAnalogOutputBlockInt32 value = \<lparr>aoValue = Int32 value, aoStatus = 0\<rparr>"

definition NewAnalogOutputBlockInt16 :: "u16 \<Rightarrow> AnalogOutputBlock" where
  "NewAnalogOutputBlockInt16 value = \<lparr>aoValue = Int16 value, aoStatus = 0\<rparr>"

definition NewAnalogOutputBlockFloat :: "u32 \<Rightarrow> AnalogOutputBlock" where
  "NewAnalogOutputBlockFloat bits = \<lparr>aoValue = Float32 bits, aoStatus = 0\<rparr>"

definition SerializeInt32 :: "AnalogOutputBlock \<Rightarrow> bytes" where
  "SerializeInt32 a = put_le 4 (case aoValue a of Int32 v \<Rightarrow> v | _ \<Rightarrow> 0) @ [aoStatus a]"

definition SerializeInt16 :: "AnalogOutputBlock \<Rightarrow> bytes" where
  "SerializeInt16 a = put_le 2 (case aoValue a of Int16 v \<Rightarrow> v | _ \<Rightarrow> 0) @ [aoStatus a]"

text \<open>
  \<open>SerializeFloat\<close> converts the number to an unsigned integer and writes that, not its bits; the
  conversion is an argument, as Go leaves it to the platform where the value does not fit.
\<close>

definition AnalogOutputBlock_SerializeFloat :: "(u32 \<Rightarrow> u32) \<Rightarrow> AnalogOutputBlock \<Rightarrow> bytes" where
  "AnalogOutputBlock_SerializeFloat f32_to_u32 a =
     put_le 4 (f32_to_u32 (case aoValue a of Float32 v \<Rightarrow> v | _ \<Rightarrow> 0)) @ [aoStatus a]"

definition ParseAnalogOutputInt32 :: "bytes \<Rightarrow> control_err + AnalogOutputBlock" where
  "ParseAnalogOutputInt32 data =
     (if length data < 5 then Inl (AnalogOutputTooShort (length data))
      else Inr \<lparr>aoValue = Int32 (get_le (take 4 data)), aoStatus = data ! 4\<rparr>)"

definition ParseAnalogOutputInt16 :: "bytes \<Rightarrow> control_err + AnalogOutputBlock" where
  "ParseAnalogOutputInt16 data =
     (if length data < 3 then Inl (AnalogOutputTooShort (length data))
      else Inr \<lparr>aoValue = Int16 (get_le (take 2 data)), aoStatus = data ! 2\<rparr>)"

section \<open>Requests\<close>

definition BuildCROBRequest :: "u16 \<Rightarrow> CROB \<Rightarrow> bytes" where
  "BuildCROBRequest index crob =
     AddRawData (AddHeader NewObjectBuilder GroupBinaryOutputCommand 1 Qualifier8BitStartStop
       (StartStopRange (ucast index) (ucast index))) (CROB_Serialize crob)"

definition BuildAnalogOutputRequest :: "u16 \<Rightarrow> u32 \<Rightarrow> bytes" where
  "BuildAnalogOutputRequest index value =
     AddRawData (AddHeader NewObjectBuilder GroupAnalogOutputCommand 1 Qualifier8BitStartStop
       (StartStopRange (ucast index) (ucast index))) (SerializeInt32 (NewAnalogOutputBlockInt32 value))"

definition BuildSelectOperateRequest :: "byte \<Rightarrow> u16 \<Rightarrow> CROB \<Rightarrow> APDU \<times> APDU" where
  "BuildSelectOperateRequest startSeq index crob =
     (let objects = BuildCROBRequest index crob
      in (BuildSelectRequest startSeq objects, BuildOperateRequest (startSeq + 1) objects))"

definition BuildDirectOperateCROBRequest :: "byte \<Rightarrow> u16 \<Rightarrow> CROB \<Rightarrow> APDU" where
  "BuildDirectOperateCROBRequest seq index crob =
     BuildDirectOperateRequest seq (BuildCROBRequest index crob)"

section \<open>Round trips\<close>

lemma length_CROB_Serialize [simp]: "length (CROB_Serialize c) = 11"
  by (simp add: CROB_Serialize_def)

lemma ParseCROB_iff:
  "ParseCROB data = Inr c \<longleftrightarrow> 11 \<le> length data \<and> take 11 data = CROB_Serialize c"
proof (cases "11 \<le> length data")
  case False
  then show ?thesis by (simp add: ParseCROB_def)
next
  case True
  then obtain b0 b1 b2 b3 b4 b5 b6 b7 b8 b9 b10 rest where
    data: "data = [b0, b1, b2, b3, b4, b5, b6, b7, b8, b9, b10] @ rest"
    by (auto simp: numeral_eq_Suc Suc_le_length_iff)
  have le: "get_le [x0, x1, x2, x3] = (w :: u32) \<longleftrightarrow> [x0, x1, x2, x3] = put_le 4 w" for w x0 x1 x2 x3
    by (rule get_le_iff) simp_all
  have app: "[b2, b3, b4, b5, b6, b7, b8, b9, b10] = put_le 4 v @ put_le 4 w @ [s]
    \<longleftrightarrow> [b2, b3, b4, b5] = put_le 4 v \<and> [b6, b7, b8, b9] = put_le 4 w \<and> b10 = s" for v w :: u32 and s
    by (simp add: put_le_numeral)
  show ?thesis
    by (cases c) (auto simp: data ParseCROB_def CROB_Serialize_def le app
        simp del: get_le.simps put_le.simps)
qed

section \<open>The point a request addresses\<close>

definition point_header :: "byte \<Rightarrow> u16 \<Rightarrow> ObjectHeader" where
  "point_header grp index = \<lparr>ohGroup = grp, ohVariation = 1, ohQualifier = Qualifier8BitStartStop,
     ohRange = StartStopRange (ucast index AND 0xFF) (ucast index AND 0xFF)\<rparr>"

lemma and_255_le: "x AND 0xFF \<le> (0xFF :: u32)"
  by (rule word_and_le1)

lemma point_header_fits [simp]: "header_fits (point_header grp index)"
  by (simp add: header_fits_def range_fits_def point_header_def and_255_le)

lemma low_byte: "(ucast (x AND 0xFF) :: byte) = ucast x" for x :: u32
  by (simp add: byte_eq_iff bit_simps)

lemma point_header_bytes:
  "AddHeader b grp 1 0 (StartStopRange (ucast index) (ucast index))
    = b @ header_bytes (point_header grp index)"
  by (simp add: AddHeader_def header_bytes_def point_header_def range_bytes_def low_byte)

lemma point_header_count [simp]: "GetCount (ohRange (point_header grp index)) = 1"
  by (simp add: GetCount_def point_header_def)

text \<open>
  A control request carries its block but not its index. Read back by the parser, the
  request of \<open>BuildCROBRequest\<close> has one header of group 12 followed by exactly the block, for
  every index; but the point it addresses is the index modulo 256. A command for point 256 or
  above is sent, well formed, to another point.
\<close>

theorem crob_request_addresses:
  "\<exists>h n. header_parse (BuildCROBRequest index crob) = Inr (h, n) \<and> ohGroup h = GroupBinaryOutputCommand
    \<and> ohRange h = StartStopRange (of_nat (unat index mod 256)) (of_nat (unat index mod 256))
    \<and> ParseCROB (drop n (BuildCROBRequest index crob)) = Inr crob"
proof -
  let ?h = "point_header GroupBinaryOutputCommand index"
  have req: "BuildCROBRequest index crob = header_bytes ?h @ CROB_Serialize crob"
    by (simp add: BuildCROBRequest_def AddRawData_def NewObjectBuilder_def point_header_bytes)
  have "(ucast index :: u32) AND 0xFF = of_nat (unat index mod 256)"
  proof -
    have "(ucast index :: u32) AND 0xFF = take_bit 8 (of_nat (unat index))"
      by (simp add: take_bit_eq_mask mask_eq_exp_minus_1)
    also have "\<dots> = of_nat (take_bit 8 (unat index))" by (rule take_bit_of_nat)
    finally show ?thesis by (simp add: take_bit_eq_mod)
  qed
  then show ?thesis
    using header_roundtrip [of ?h "CROB_Serialize crob"] ParseCROB_iff [of "CROB_Serialize crob" crob]
    by (intro exI [of _ ?h] exI [of _ "length (header_bytes ?h)"])
      (simp add: req, simp add: point_header_def)
qed

end
