(* ===== verification/App_Datapoints.thy ===== *)
theory App_Datapoints
  imports App_Controls
begin

text \<open>
  Data points and their wire formats (\<open>pkg/app/datapoints.go\<close>), times (\<open>pkg/app/time.go\<close>) and
  the checks of headers and object sizes (\<open>pkg/app/validation.go\<close>). Floating point values are
  bit patterns, and Go's numeric conversions from and to them are the fields of an argument.
\<close>

unbundle bit_operations_syntax

section \<open>Conversions\<close>

record float_ops =
  foF32ToInt32 :: "u32 \<Rightarrow> u32"
  foF64ToInt32 :: "u64 \<Rightarrow> u32"
  foF32ToInt16 :: "u32 \<Rightarrow> u16"
  foF64ToInt16 :: "u64 \<Rightarrow> u16"
  foF64ToF32 :: "u64 \<Rightarrow> u32"
  foF32ToF64 :: "u32 \<Rightarrow> u64"
  foIntToF32 :: "int \<Rightarrow> u32"
  foIntToF64 :: "int \<Rightarrow> u64"

section \<open>Binary points\<close>

definition PointOnline :: byte where [simp]: "PointOnline = 0x01"
definition FlagState :: byte where [simp]: "FlagState = 0x80"

record BinaryInput =
  inValue :: bool
  inFlags :: byte

definition NewBinaryInput :: "bool \<Rightarrow> BinaryInput" where
  "NewBinaryInput value =
     \<lparr>inValue = value, inFlags = (if value then PointOnline OR FlagState else PointOnline)\<rparr>"

definition BinaryInput_Serialize :: "BinaryInput \<Rightarrow> bytes" where
  "BinaryInput_Serialize b = [inFlags b]"

definition ParseBinaryInput :: "bytes \<Rightarrow> BinaryInput" where
  "ParseBinaryInput data =
     (case data of
        [] \<Rightarrow> \<lparr>inValue = False, inFlags = 0\<rparr>
      | flags # _ \<Rightarrow> \<lparr>inValue = (flags AND FlagState \<noteq> 0), inFlags = flags\<rparr>)"

record BinaryInputEvent =
  beValue :: bool
  beFlags :: byte
  beTimestamp :: u64

definition NewBinaryInputEvent :: "bool \<Rightarrow> u64 \<Rightarrow> BinaryInputEvent" where
  "NewBinaryInputEvent value timestamp =
     \<lparr>beValue = value, beFlags = (if value then PointOnline OR FlagState else PointOnline),
      beTimestamp = timestamp\<rparr>"

definition SerializeWithoutTime :: "BinaryInputEvent \<Rightarrow> bytes" where
  "SerializeWithoutTime e = [beFlags e]"

definition SerializeWithTime :: "BinaryInputEvent \<Rightarrow> bytes" where
  "SerializeWithTime e = beFlags e # take 6 (put_le 8 (beTimestamp e))"

record BinaryOutput =
  ouValue :: bool
  ouFlags :: byte

definition NewBinaryOutput :: "bool \<Rightarrow> BinaryOutput" where
  "NewBinaryOutput value =
     \<lparr>ouValue = value, ouFlags = (if value then PointOnline OR FlagState else PointOnline)\<rparr>"

definition BinaryOutput_Serialize :: "BinaryOutput \<Rightarrow> bytes" where
  "BinaryOutput_Serialize b = [ouFlags b]"

definition ParseBinaryOutput :: "bytes \<Rightarrow> BinaryOutput" where
  "ParseBinaryOutput data =
     (case data of
        [] \<Rightarrow> \<lparr>ouValue = False, ouFlags = 0\<rparr>
      | flags # _ \<Rightarrow> \<lparr>ouValue = (flags AND FlagState \<noteq> 0), ouFlags = flags\<rparr>)"

section \<open>Analog points\<close>

text \<open>The value of an analog input that was never set, and of a failed parse, is nil: \<open>None\<close>.\<close>

record AnalogInput =
  aiValue :: "analog_value option"
  aiFlags :: byte

definition NewAnalogInputInt32 :: "u32 \<Rightarrow> AnalogInput" where
  "NewAnalogInputInt32 value = \<lparr>aiValue = Some (Int32 value), aiFlags = PointOnline\<rparr>"

definition NewAnalogInputInt16 :: "u16 \<Rightarrow> AnalogInput" where
  "NewAnalogInputInt16 value = \<lparr>aiValue = Some (Int16 value), aiFlags = PointOnline\<rparr>"

definition NewAnalogInputFloat :: "u32 \<Rightarrow> AnalogInput" where
  "NewAnalogInputFloat value = \<lparr>aiValue = Some (Float32 value), aiFlags = PointOnline\<rparr>"

definition NewAnalogInputDouble :: "u64 \<Rightarrow> AnalogInput" where
  "NewAnalogInputDouble value = \<lparr>aiValue = Some (Float64 value), aiFlags = PointOnline\<rparr>"

definition AnalogInput_Serialize32Bit :: "float_ops \<Rightarrow> AnalogInput \<Rightarrow> bytes" where
  "AnalogInput_Serialize32Bit fo a =
     aiFlags a # put_le 4 (case aiValue a of
        None \<Rightarrow> 0
      | Some (Int32 v) \<Rightarrow> v
      | Some (Int16 v) \<Rightarrow> scast v
      | Some (Float32 v) \<Rightarrow> foF32ToInt32 fo v
      | Some (Float64 v) \<Rightarrow> foF64ToInt32 fo v)"

definition AnalogInput_Serialize16Bit :: "float_ops \<Rightarrow> AnalogInput \<Rightarrow> bytes" where
  "AnalogInput_Serialize16Bit fo a =
     aiFlags a # put_le 2 (case aiValue a of
        None \<Rightarrow> 0
      | Some (Int16 v) \<Rightarrow> v
      | Some (Int32 v) \<Rightarrow> ucast v
      | Some (Float32 v) \<Rightarrow> foF32ToInt16 fo v
      | Some (Float64 v) \<Rightarrow> foF64ToInt16 fo v)"

definition AnalogInput_SerializeFloat :: "float_ops \<Rightarrow> AnalogInput \<Rightarrow> bytes" where
  "AnalogInput_SerializeFloat fo a =
     aiFlags a # put_le 4 (case aiValue a of
        None \<Rightarrow> 0
      | Some (Float32 v) \<Rightarrow> v
      | Some (Float64 v) \<Rightarrow> foF64ToF32 fo v
      | Some (Int32 v) \<Rightarrow> foIntToF32 fo (sint v)
      | Some (Int16 v) \<Rightarrow> foIntToF32 fo (sint v))"

definition AnalogInput_SerializeDouble :: "float_ops \<Rightarrow> AnalogInput \<Rightarrow> bytes" where
  "AnalogInput_SerializeDouble fo a =
     aiFlags a # put_le 8 (case aiValue a of
        None \<Rightarrow> 0
      | Some (Float64 v) \<Rightarrow> v
      | Some (Float32 v) \<Rightarrow> foF32ToF64 fo v
      | Some (Int32 v) \<Rightarrow> foIntToF64 fo (sint v)
      | Some (Int16 v) \<Rightarrow> foIntToF64 fo (sint v))"

definition no_analog :: AnalogInput where "no_analog = \<lparr>aiValue = None, aiFlags = 0\<rparr>"

definition ParseAnalogInput32Bit :: "bytes \<Rightarrow> AnalogInput" where
  "ParseAnalogInput32Bit data =
     (if length data < 5 then no_analog
      else \<lparr>aiValue = Some (Int32 (get_le (take 4 (drop 1 data)))), aiFlags = data ! 0\<rparr>)"

definition ParseAnalogInput16Bit :: "bytes \<Rightarrow> AnalogInput" where
  "ParseAnalogInput16Bit data =
     (if length data < 3 then no_analog
      else \<lparr>aiValue = Some (Int16 (get_le (take 2 (drop 1 data)))), aiFlags = data ! 0\<rparr>)"

definition ParseAnalogInputFloat :: "bytes \<Rightarrow> AnalogInput" where
  "ParseAnalogInputFloat data =
     (if length data < 5 then no_analog
      else \<lparr>aiValue = Some (Float32 (get_le (take 4 (drop 1 data)))), aiFlags = data ! 0\<rparr>)"

definition ParseAnalogInputDouble :: "bytes \<Rightarrow> AnalogInput" where
  "ParseAnalogInputDouble data =
     (if length data < 9 then no_analog
      else \<lparr>aiValue = Some (Float64 (get_le (take 8 (drop 1 data)))), aiFlags = data ! 0\<rparr>)"

record AnalogInputEvent =
  aeValue :: "analog_value option"
  aeFlags :: byte
  aeTimestamp :: u64

definition NewAnalogInputEventInt32 :: "u32 \<Rightarrow> u64 \<Rightarrow> AnalogInputEvent" where
  "NewAnalogInputEventInt32 value timestamp =
     \<lparr>aeValue = Some (Int32 value), aeFlags = PointOnline, aeTimestamp = timestamp\<rparr>"

text \<open>
  \<open>PutUint64\<close> needs eight bytes of buffer and is given the six behind offset 5 of eleven: an
  index out of range, \<open>None\<close>, whatever the event.
\<close>

definition PutUint64_at :: "bytes \<Rightarrow> nat \<Rightarrow> u64 \<Rightarrow> bytes option" where
  "PutUint64_at buf offset v =
     (if length buf < offset + 8 then None
      else Some (take offset buf @ put_le 8 v @ drop (offset + 8) buf))"

definition SerializeInt32WithTime :: "AnalogInputEvent \<Rightarrow> bytes option" where
  "SerializeInt32WithTime e =
     (let buf = aeFlags e # put_le 4 (case aeValue e of Some (Int32 v) \<Rightarrow> v | _ \<Rightarrow> 0) @ replicate 6 0
      in map_option (take 11) (PutUint64_at buf 5 (aeTimestamp e)))"

section \<open>Counters and output status\<close>

record AppCounter =
  acValue :: u32
  acFlags :: byte

definition NewCounter :: "u32 \<Rightarrow> AppCounter" where
  "NewCounter value = \<lparr>acValue = value, acFlags = PointOnline\<rparr>"

definition Counter_Serialize32Bit :: "AppCounter \<Rightarrow> bytes" where
  "Counter_Serialize32Bit c = acFlags c # put_le 4 (acValue c)"

definition Counter_Serialize16Bit :: "AppCounter \<Rightarrow> bytes" where
  "Counter_Serialize16Bit c = acFlags c # put_le 2 (ucast (acValue c) :: u16)"

definition ParseCounter32Bit :: "bytes \<Rightarrow> AppCounter" where
  "ParseCounter32Bit data =
     (if length data < 5 then \<lparr>acValue = 0, acFlags = 0\<rparr>
      else \<lparr>acValue = get_le (take 4 (drop 1 data)), acFlags = data ! 0\<rparr>)"

definition ParseCounter16Bit :: "bytes \<Rightarrow> AppCounter" where
  "ParseCounter16Bit data =
     (if length data < 3 then \<lparr>acValue = 0, acFlags = 0\<rparr>
      else \<lparr>acValue = ucast (get_le (take 2 (drop 1 data)) :: u16), acFlags = data ! 0\<rparr>)"

record AppAnalogOutputStatus =
  aosValue :: "analog_value option"
  aosFlags :: byte

definition NewAnalogOutputStatusInt32 :: "u32 \<Rightarrow> AppAnalogOutputStatus" where
  "NewAnalogOutputStatusInt32 value = \<lparr>aosValue = Some (Int32 value), aosFlags = PointOnline\<rparr>"

definition AnalogOutputStatus_Serialize32Bit :: "AppAnalogOutputStatus \<Rightarrow> bytes" where
  "AnalogOutputStatus_Serialize32Bit a =
     aosFlags a # put_le 4 (case aosValue a of Some (Int32 v) \<Rightarrow> v | _ \<Rightarrow> 0)"

section \<open>Times\<close>

definition SerializeTime48 :: "u64 \<Rightarrow> bytes" where
  "SerializeTime48 t = take 6 (put_le 8 t)"

definition ParseTime48 :: "bytes \<Rightarrow> u64" where
  "ParseTime48 data = (if length data < 6 then 0 else get_le (take 6 data @ [0, 0]))"

definition GroupTimeDate :: byte where [simp]: "GroupTimeDate = 50"

text \<open>
  A \<open>time.Time\<close> is the number of nanoseconds since the Unix epoch, and what \<open>time.Now()\<close> returns is
  an argument. The conversion of \<open>UnixMilli\<close> to 64 unsigned bits wraps.
\<close>

definition FromTime :: "int \<Rightarrow> u64" where
  "FromTime t = word_of_int (t div 1000000)"

definition Now :: "int \<Rightarrow> u64" where
  "Now now = word_of_int (now div 1000000)"

definition ToTime :: "u64 \<Rightarrow> int" where
  "ToTime t = sint t * 1000000"

record TimeAndDate =
  tdTime :: u64

definition NewTimeAndDate :: "int \<Rightarrow> TimeAndDate" where
  "NewTimeAndDate now = \<lparr>tdTime = Now now\<rparr>"

definition NewTimeAndDateFrom :: "int \<Rightarrow> TimeAndDate" where
  "NewTimeAndDateFrom t = \<lparr>tdTime = FromTime t\<rparr>"

definition TimeAndDate_Serialize :: "TimeAndDate \<Rightarrow> bytes" where
  "TimeAndDate_Serialize t = SerializeTime48 (tdTime t)"

definition ParseTimeAndDate :: "bytes \<Rightarrow> TimeAndDate" where
  "ParseTimeAndDate data = \<lparr>tdTime = ParseTime48 data\<rparr>"

definition BuildTimeSync :: "int \<Rightarrow> bytes" where
  "BuildTimeSync t =
     AddRawData (AddHeader NewObjectBuilder GroupTimeDate 1 Qualifier8BitCount (CountRange 1))
       (SerializeTime48 (FromTime t))"

definition BuildTimeSyncNow :: "int \<Rightarrow> bytes" where
  "BuildTimeSyncNow now = BuildTimeSync now"

definition BuildTimeSyncRequest :: "byte \<Rightarrow> int \<Rightarrow> APDU" where
  "BuildTimeSyncRequest seq t = BuildWriteRequest seq (BuildTimeSync t)"

definition BuildTimeSyncNowRequest :: "byte \<Rightarrow> int \<Rightarrow> APDU" where
  "BuildTimeSyncNowRequest seq now = BuildTimeSyncRequest seq now"

type_synonym TimeDelay = u16

definition NewTimeDelay :: "u16 \<Rightarrow> TimeDelay" where
  "NewTimeDelay delayMs = delayMs"

definition SerializeCoarse :: "TimeDelay \<Rightarrow> bytes" where
  "SerializeCoarse d = put_le 2 d"

definition ParseTimeDelayCoarse :: "bytes \<Rightarrow> TimeDelay" where
  "ParseTimeDelayCoarse data = (if length data < 2 then 0 else get_le (take 2 data))"

type_synonym RelativeTime = u16

definition NewRelativeTime :: "u16 \<Rightarrow> RelativeTime" where
  "NewRelativeTime ms = ms"

definition RelativeTime_Serialize :: "RelativeTime \<Rightarrow> bytes" where
  "RelativeTime_Serialize r = put_le 2 r"

definition ParseRelativeTime :: "bytes \<Rightarrow> RelativeTime" where
  "ParseRelativeTime data = (if length data < 2 then 0 else get_le (take 2 data))"

record CommonTimeOfOccurrence =
  ctoTime :: u64
  ctoSynchronized :: bool

definition NewCTO :: "int \<Rightarrow> bool \<Rightarrow> CommonTimeOfOccurrence" where
  "NewCTO now synchronized = \<lparr>ctoTime = Now now, ctoSynchronized = synchronized\<rparr>"

definition CTO_Serialize :: "CommonTimeOfOccurrence \<Rightarrow> bytes" where
  "CTO_Serialize c = SerializeTime48 (ctoTime c)"

definition ParseCTO :: "bytes \<Rightarrow> CommonTimeOfOccurrence" where
  "ParseCTO data = \<lparr>ctoTime = ParseTime48 data, ctoSynchronized = True\<rparr>"

end
