(* ===== verification/App_Validation.thy ===== *)
theory App_Validation
  imports App_Datapoints
begin

text \<open>
  The checks of object headers, PDUs and object sizes (\<open>pkg/app/validation.go\<close>), and the
  properties of the point formats of \<open>App_Datapoints\<close>: each serialization has the size the
  object size table says and is read back by the parser of its variation.
\<close>

unbundle bit_operations_syntax

datatype validation_err =
    ErrInvalidGroup byte
  | ErrInvalidVariation byte byte
  | ErrInvalidQualifier byte
  | ErrInvalidStartStop u32 u32
  | ErrInvalidCount
  | ErrInvalidFunctionCode byte
  | ErrInvalidSequenceNumber byte
  | ErrInvalidControlCode byte
  | UnsNotUnsolicited
  | UnsolicitedWithoutUns
  | UnsolicitedWithoutCon
  | InsufficientObjectData nat nat

definition IsValidGroup :: "byte \<Rightarrow> bool" where
  "IsValidGroup grp \<longleftrightarrow> grp \<in> {1, 2, 3, 4, 10, 11, 12, 20, 21, 22, 23, 30, 31, 32, 33, 40, 41, 42, 43,
     50, 51, 52, 60, 61, 62, 63, 70, 80, 110, 111, 112, 113, 120}"

definition IsValidVariation :: "byte \<Rightarrow> byte \<Rightarrow> bool" where
  "IsValidVariation grp variation =
     (if variation = 0 then True
      else if grp = 1 then variation \<le> 2
      else if grp = 2 then variation \<ge> 1 \<and> variation \<le> 3
      else if grp = 3 then variation \<le> 2
      else if grp = 10 then variation \<le> 2
      else if grp = 12 then variation = 1
      else if grp = 20 then (variation \<ge> 1 \<and> variation \<le> 2) \<or> (variation \<ge> 5 \<and> variation \<le> 8)
      else if grp = 22 then (variation \<ge> 1 \<and> variation \<le> 2) \<or> (variation \<ge> 5 \<and> variation \<le> 8)
      else if grp = 30 then variation \<ge> 1 \<and> variation \<le> 6
      else if grp = 32 then variation \<ge> 1 \<and> variation \<le> 8
      else if grp = 40 then variation \<ge> 1 \<and> variation \<le> 4
      else if grp = 41 then variation \<ge> 1 \<and> variation \<le> 4
      else if grp = 50 then variation \<ge> 1 \<and> variation \<le> 3
      else if grp = 60 then variation \<ge> 1 \<and> variation \<le> 4
      else True)"

definition IsValidQualifier :: "byte \<Rightarrow> bool" where
  "IsValidQualifier q \<longleftrightarrow> q \<in> {0x00, 0x01, 0x02, 0x03, 0x04, 0x05, 0x06, 0x07, 0x08, 0x09, 0x5B}"

definition ValidateRange :: "Range \<Rightarrow> validation_err option" where
  "ValidateRange r =
     (case r of
        StartStopRange start stop \<Rightarrow> if stop < start then Some (ErrInvalidStartStop start stop) else None
      | CountRange count \<Rightarrow> if count = 0 then Some ErrInvalidCount else None
      | NoRange \<Rightarrow> None)"

definition ValidateObjectHeader :: "ObjectHeader \<Rightarrow> validation_err option" where
  "ValidateObjectHeader header =
     (if \<not> IsValidGroup (ohGroup header) then Some (ErrInvalidGroup (ohGroup header))
      else if \<not> IsValidVariation (ohGroup header) (ohVariation header)
      then Some (ErrInvalidVariation (ohGroup header) (ohVariation header))
      else if \<not> IsValidQualifier (ohQualifier header) then Some (ErrInvalidQualifier (ohQualifier header))
      else ValidateRange (ohRange header))"

definition IsValidFunctionCode :: "AppFunction \<Rightarrow> bool" where
  "IsValidFunctionCode fc \<longleftrightarrow> fc \<le> 0x1E \<or> fc = FuncResponse \<or> fc = FuncUnsolicitedResponse \<or> fc = FuncAuthResponse"

definition ValidateFunctionCode :: "AppFunction \<Rightarrow> validation_err option" where
  "ValidateFunctionCode fc = (if \<not> IsValidFunctionCode fc then Some (ErrInvalidFunctionCode fc) else None)"

definition ValidateSequence :: "byte \<Rightarrow> validation_err option" where
  "ValidateSequence seq = (if seq > 15 then Some (ErrInvalidSequenceNumber seq) else None)"

definition IsValidControlCode :: "byte \<Rightarrow> bool" where
  "IsValidControlCode code \<longleftrightarrow> code \<in> {0x00, 0x01, 0x02, 0x03, 0x04, 0x41, 0x81}"

definition ValidateControlCode :: "byte \<Rightarrow> validation_err option" where
  "ValidateControlCode code = (if \<not> IsValidControlCode code then Some (ErrInvalidControlCode code) else None)"

definition ValidateAPDU :: "APDU \<Rightarrow> validation_err option" where
  "ValidateAPDU apdu =
     (case ValidateSequence (apSequence apdu) of
        Some err \<Rightarrow> Some err
      | None \<Rightarrow>
          (case ValidateFunctionCode (apFunctionCode apdu) of
             Some err \<Rightarrow> Some err
           | None \<Rightarrow>
               if apUNS apdu \<and> apFunctionCode apdu \<noteq> FuncUnsolicitedResponse then Some UnsNotUnsolicited
               else if apFunctionCode apdu = FuncUnsolicitedResponse \<and> \<not> apUNS apdu
               then Some UnsolicitedWithoutUns
               else if apUNS apdu \<and> \<not> apCON apdu then Some UnsolicitedWithoutCon
               else None))"

text \<open>The size of an object; 0 when it is variable or not known.\<close>

definition GetObjectSize :: "byte \<Rightarrow> byte \<Rightarrow> nat" where
  "GetObjectSize grp variation =
     (if grp = 1 then (if variation = 2 then 1 else 0)
      else if grp = 2 then
        (if variation = 1 then 1 else if variation = 2 then 7 else if variation = 3 then 3 else 0)
      else if grp = 12 then (if variation = 1 then 11 else 0)
      else if grp = 20 then
        (if variation = 1 \<or> variation = 5 then 5 else if variation = 2 \<or> variation = 6 then 3 else 0)
      else if grp = 30 then
        (if variation = 1 then 5 else if variation = 2 then 3 else if variation = 5 then 5
         else if variation = 6 then 9 else 0)
      else if grp = 32 then
        (if variation = 1 then 5 else if variation = 2 then 3 else if variation = 3 then 11
         else if variation = 4 then 9 else 0)
      else if grp = 40 then
        (if variation = 1 then 5 else if variation = 2 then 3 else if variation = 3 then 5
         else if variation = 4 then 9 else 0)
      else if grp = 41 then
        (if variation = 1 then 5 else if variation = 2 then 3 else if variation = 3 then 5
         else if variation = 4 then 9 else 0)
      else if grp = 50 then (if variation = 1 then 6 else 0)
      else 0)"

text \<open>\<open>int(count) * size\<close> does not overflow 64 bits.\<close>

definition ValidateObjectData :: "ObjectHeader \<Rightarrow> bytes \<Rightarrow> validation_err option" where
  "ValidateObjectData header data =
     (let expectedSize = GetObjectSize (ohGroup header) (ohVariation header) in
      if expectedSize = 0 then None
      else let count = GetCount (ohRange header) in
      if count = 0 then None
      else let expectedTotal = unat count * expectedSize in
      if length data < expectedTotal then Some (InsufficientObjectData (length data) expectedTotal)
      else None)"

section \<open>The point formats\<close>

lemma le_roundtrip:
  "get_le (put_le 4 (v :: u32)) = v" "get_le (put_le 2 (w :: u16)) = w" "get_le (put_le 8 (x :: u64)) = x"
  by (simp_all add: get_put_le_full)

lemma point_roundtrips:
  "ParseBinaryInput (BinaryInput_Serialize b @ rest) = b\<lparr>inValue := inFlags b AND 0x80 \<noteq> 0\<rparr>"
  "ParseCounter32Bit (Counter_Serialize32Bit c @ rest) = c"
  "ParseCounter16Bit (Counter_Serialize16Bit c @ rest) = c\<lparr>acValue := take_bit 16 (acValue c)\<rparr>"
  "ParseAnalogInput32Bit (AnalogInput_Serialize32Bit fo (NewAnalogInputInt32 v) @ rest) = NewAnalogInputInt32 v"
  "ParseAnalogInput16Bit (AnalogInput_Serialize16Bit fo (NewAnalogInputInt16 w) @ rest) = NewAnalogInputInt16 w"
  "ParseAnalogInputFloat (AnalogInput_SerializeFloat fo (NewAnalogInputFloat v) @ rest) = NewAnalogInputFloat v"
  "ParseAnalogInputDouble (AnalogInput_SerializeDouble fo (NewAnalogInputDouble x) @ rest) = NewAnalogInputDouble x"
proof -
  have low: "ucast (ucast y :: u16) = take_bit 16 y" for y :: u32
    by (rule bit_word_eqI) (auto simp: bit_simps)
  show "ParseBinaryInput (BinaryInput_Serialize b @ rest) = b\<lparr>inValue := inFlags b AND 0x80 \<noteq> 0\<rparr>"
    by (cases b) (simp add: ParseBinaryInput_def BinaryInput_Serialize_def)
  show "ParseCounter32Bit (Counter_Serialize32Bit c @ rest) = c"
    by (cases c) (simp add: ParseCounter32Bit_def Counter_Serialize32Bit_def le_roundtrip)
  show "ParseCounter16Bit (Counter_Serialize16Bit c @ rest) = c\<lparr>acValue := take_bit 16 (acValue c)\<rparr>"
    by (cases c) (simp add: ParseCounter16Bit_def Counter_Serialize16Bit_def le_roundtrip low)
  show "ParseAnalogInput32Bit (AnalogInput_Serialize32Bit fo (NewAnalogInputInt32 v) @ rest) = NewAnalogInputInt32 v"
    by (simp add: ParseAnalogInput32Bit_def AnalogInput_Serialize32Bit_def NewAnalogInputInt32_def le_roundtrip)
  show "ParseAnalogInput16Bit (AnalogInput_Serialize16Bit fo (NewAnalogInputInt16 w) @ rest) = NewAnalogInputInt16 w"
    by (simp add: ParseAnalogInput16Bit_def AnalogInput_Serialize16Bit_def NewAnalogInputInt16_def le_roundtrip)
  show "ParseAnalogInputFloat (AnalogInput_SerializeFloat fo (NewAnalogInputFloat v) @ rest) = NewAnalogInputFloat v"
    by (simp add: ParseAnalogInputFloat_def AnalogInput_SerializeFloat_def NewAnalogInputFloat_def le_roundtrip)
  show "ParseAnalogInputDouble (AnalogInput_SerializeDouble fo (NewAnalogInputDouble x) @ rest) = NewAnalogInputDouble x"
    by (simp add: ParseAnalogInputDouble_def AnalogInput_SerializeDouble_def NewAnalogInputDouble_def le_roundtrip)
qed

lemma time48_roundtrip: "ParseTime48 (SerializeTime48 t @ rest) = take_bit 48 t"
proof -
  have "SerializeTime48 t @ [0, 0] = put_le 8 (take_bit 48 t)"
    by (simp add: SerializeTime48_def put_le_numeral byte_eq_iff bit_simps)
  then show ?thesis
    by (simp add: ParseTime48_def SerializeTime48_def le_roundtrip)
qed

text \<open>
  An instant survives the conversions and the wire up to its fraction of a millisecond, as long as
  its milliseconds fit the 48 bits.
\<close>

lemma FromTime_ToTime: "FromTime (ToTime t) = t"
  by (simp add: FromTime_def ToTime_def)

lemma ToTime_FromTime:
  assumes "- (2 ^ 63) \<le> t div 1000000" and "t div 1000000 < 2 ^ 63"
  shows "ToTime (FromTime t) = t - t mod 1000000"
proof -
  have "sint (word_of_int (t div 1000000) :: u64) = t div 1000000"
    by (subst signed_of_int) (use assms in \<open>simp add: signed_take_bit_int_eq_self\<close>)
  then show ?thesis
    by (simp add: ToTime_def FromTime_def minus_mod_eq_div_mult)
qed

lemma time_and_date_roundtrip:
  assumes "0 \<le> t" and "t div 1000000 < 2 ^ 48"
  shows "ToTime (tdTime (ParseTimeAndDate (TimeAndDate_Serialize (NewTimeAndDateFrom t) @ rest)))
    = t - t mod 1000000"
proof -
  have "take_bit 48 (word_of_int (t div 1000000) :: u64) = word_of_int (take_bit 48 (t div 1000000))"
    by (rule bit_word_eqI) (auto simp: bit_simps)
  also have "\<dots> = word_of_int (t div 1000000)"
    using assms by (simp add: take_bit_int_eq_self pos_imp_zdiv_nonneg_iff)
  finally have "take_bit 48 (FromTime t) = FromTime t" by (simp add: FromTime_def)
  then show ?thesis
    using assms pos_imp_zdiv_nonneg_iff [of 1000000 t]
    by (simp add: ParseTimeAndDate_def TimeAndDate_Serialize_def NewTimeAndDateFrom_def time48_roundtrip ToTime_FromTime)
qed

text \<open>An analog event with its time cannot be serialized: the buffer is two bytes too short.\<close>

lemma analog_event_time_panics: "SerializeInt32WithTime e = None"
  by (simp add: SerializeInt32WithTime_def PutUint64_at_def Let_def)

text \<open>Conversions for examples.\<close>

definition sample_floats :: float_ops where
  "sample_floats =
     \<lparr>foF32ToInt32 = (\<lambda>_. 0), foF64ToInt32 = (\<lambda>_. 0), foF32ToInt16 = (\<lambda>_. 0), foF64ToInt16 = (\<lambda>_. 0),
      foF64ToF32 = (\<lambda>_. 0), foF32ToF64 = (\<lambda>_. 0), foIntToF32 = (\<lambda>_. 0), foIntToF64 = (\<lambda>_. 0)\<rparr>"

end
