(* ===== verification/Outstation_Station.thy ===== *)
theory Outstation_Station
  imports Station_Session Outstation_Database App_Validation
begin

text \<open>
  The outstation (\<open>pkg/outstation/outstation.go\<close>): its state, the application of updates, the
  handlers of requests and the construction of read responses from the database. The result of
  the callback \<open>GetApplicationIIN\<close> and Go's float conversions are arguments. Logging is left out.
\<close>

unbundle bit_operations_syntax

section \<open>State\<close>

record OutstationConfig =
  ocID :: string
  ocLocalAddress :: u16
  ocRemoteAddress :: u16
  ocDatabase :: DatabaseConfig
  ocMaxBinaryEvents :: nat
  ocMaxAnalogEvents :: nat
  ocMaxCounterEvents :: nat
  ocMaxDoubleBitEvents :: nat
  ocAllowUnsolicited :: bool
  ocUnsolConfirmTimeout :: int
  ocSelectTimeout :: int
  ocMaxControlsPerRequest :: nat
  ocLocalControl :: bool
  ocDeviceTrouble :: bool
  ocMaxRxFragSize :: u16
  ocMaxTxFragSize :: u16

text \<open>
  The event buffer is that of the database. \<open>ouProcessors\<close> and \<open>ouUnsolicited\<close> count the
  goroutines started by \<open>Enable\<close> that serve updates and that send unsolicited responses.
\<close>

record outstation =
  ouConfig :: OutstationConfig
  ouDatabase :: Database
  ouSession :: session
  ouEnabled :: bool
  ouSeqCounter :: SequenceCounter
  ouUnsolicitedMask :: ClassField
  ouCancelled :: bool
  ouProcessors :: nat
  ouUnsolicited :: nat

definition new_outstation :: "OutstationConfig \<Rightarrow> outstation" where
  "new_outstation config =
     (let maxEvents0 = ocMaxBinaryEvents config;
          maxEvents = (if ocMaxAnalogEvents config > maxEvents0 then ocMaxAnalogEvents config else maxEvents0);
          eventBuffer = NewEventBuffer maxEvents
      in \<lparr>ouConfig = config, ouDatabase = NewDatabase (ocDatabase config) eventBuffer,
          ouSession = newSession (ocLocalAddress config) (ocRemoteAddress config), ouEnabled = False,
          ouSeqCounter = NewSequenceCounter, ouUnsolicitedMask = ClassAll, ouCancelled = False,
          ouProcessors = 0, ouUnsolicited = 0\<rparr>)"

text \<open>
  \<open>New\<close> adds the session to the channel; \<open>wrap\<close> makes the session known to the router out of the
  outstation it points to.
\<close>

definition New_Outstation ::
  "('s, 'e) session_ops \<Rightarrow> (outstation \<Rightarrow> 's) \<Rightarrow> OutstationConfig \<Rightarrow> 's Router \<Rightarrow> Channel
    \<Rightarrow> ('e route_err + outstation) \<times> 's Router \<times> Channel" where
  "New_Outstation ops wrap config r c =
     (let o1 = new_outstation config in
      case Channel_AddSession ops r c (wrap o1) of
        (Some err, r1, c1) \<Rightarrow> (Inl err, r1, c1)
      | (None, r1, c1) \<Rightarrow> (Inr o1, r1, c1))"

definition Outstation_Enable :: "outstation \<Rightarrow> outstation" where
  "Outstation_Enable s =
     (if ouEnabled s then s
      else s\<lparr>ouEnabled := True, ouProcessors := ouProcessors s + 1,
             ouUnsolicited := (if ocAllowUnsolicited (ouConfig s) then ouUnsolicited s + 1
                               else ouUnsolicited s)\<rparr>)"

definition Outstation_Disable :: "outstation \<Rightarrow> outstation" where
  "Outstation_Disable s = s\<lparr>ouEnabled := False\<rparr>"

text \<open>\<open>Shutdown\<close> waits until the goroutines, which the cancelled context ends, have ended.\<close>

definition Outstation_Shutdown :: "outstation \<Rightarrow> outstation" where
  "Outstation_Shutdown s = (Outstation_Disable s)\<lparr>ouCancelled := True, ouProcessors := 0, ouUnsolicited := 0\<rparr>"

definition SetConfig :: "OutstationConfig \<Rightarrow> outstation \<Rightarrow> outstation" where
  "SetConfig config s = s\<lparr>ouConfig := config\<rparr>"

definition getNextSequence :: "outstation \<Rightarrow> byte \<times> outstation" where
  "getNextSequence s =
     (case SequenceCounter_Next (ouSeqCounter s) of (q, sc) \<Rightarrow> (q, s\<lparr>ouSeqCounter := sc\<rparr>))"

section \<open>Updates\<close>

datatype apply_err = ErrOutstationDisabled | UpdateQueueFull | OutstationCancelled

text \<open>Which case of the select in \<open>Apply\<close> happens.\<close>

datatype apply_event = Queued | QueueTimeout | ContextDone

text \<open>
  \<open>Apply\<close> queues a new builder, which has no entries, and not the updates it was given. The
  outer option is \<open>None\<close> when an event buffer panics.
\<close>

definition Outstation_Apply ::
  "(float64 \<Rightarrow> float64 \<Rightarrow> float64 \<Rightarrow> bool) \<Rightarrow> apply_event \<Rightarrow> UpdateBuilder \<Rightarrow> outstation
    \<Rightarrow> (apply_err option \<times> outstation) option" where
  "Outstation_Apply apart event updates s =
     (if \<not> ouEnabled s then Some (Some ErrOutstationDisabled, s)
      else (case event of
              Queued \<Rightarrow>
                (let entries = [] :: (updateKey \<times> updateValue) list in
                 case applyUpdates apart entries (ouDatabase s) of
                   None \<Rightarrow> None
                 | Some db \<Rightarrow> Some (None, s\<lparr>ouDatabase := db\<rparr>))
            | QueueTimeout \<Rightarrow> Some (Some UpdateQueueFull, s)
            | ContextDone \<Rightarrow> Some (Some OutstationCancelled, s)))"

section \<open>Read responses\<close>

definition GroupBinaryInput :: byte where [simp]: "GroupBinaryInput = 1"
definition GroupCounter :: byte where [simp]: "GroupCounter = 20"
definition GroupAnalogInput :: byte where [simp]: "GroupAnalogInput = 30"
definition GroupClass1Data :: byte where [simp]: "GroupClass1Data = 61"
definition GroupClass2Data :: byte where [simp]: "GroupClass2Data = 62"
definition GroupClass3Data :: byte where [simp]: "GroupClass3Data = 63"
definition GroupInternalIndications :: byte where [simp]: "GroupInternalIndications = 80"
definition VariationAny :: byte where [simp]: "VariationAny = 0"
definition BinaryInputWithFlags :: byte where [simp]: "BinaryInputWithFlags = 2"
definition Counter32Bit :: byte where [simp]: "Counter32Bit = 1"
definition Counter16Bit :: byte where [simp]: "Counter16Bit = 2"
definition Counter32BitWithFlag :: byte where [simp]: "Counter32BitWithFlag = 5"
definition Counter16BitWithFlag :: byte where [simp]: "Counter16BitWithFlag = 6"
definition AnalogInput32Bit :: byte where [simp]: "AnalogInput32Bit = 1"
definition AnalogInput16Bit :: byte where [simp]: "AnalogInput16Bit = 2"
definition AnalogInputFloat :: byte where [simp]: "AnalogInputFloat = 5"
definition AnalogInputDouble :: byte where [simp]: "AnalogInputDouble = 6"

text \<open>The variation of a response: the one asked for, or that of the first point.\<close>

definition pick_variation :: "ObjectHeader option \<Rightarrow> byte \<Rightarrow> byte" where
  "pick_variation header first =
     (case header of
        Some h \<Rightarrow> if ohVariation h \<noteq> VariationAny then ohVariation h else first
      | None \<Rightarrow> first)"

definition response_header :: "byte \<Rightarrow> byte \<Rightarrow> nat \<Rightarrow> ObjectBuilder" where
  "response_header grp variation n =
     AddHeader NewObjectBuilder grp variation Qualifier8BitStartStop (StartStopRange 0 (of_nat (n - 1)))"

definition binary_object :: "BinaryPoint \<Rightarrow> bytes" where
  "binary_object point =
     BinaryInput_Serialize \<lparr>inValue = biValue (bpValue point), inFlags = biFlags (bpValue point)\<rparr>"

definition buildBinaryInputResponse :: "Database \<Rightarrow> ObjectHeader option \<Rightarrow> bytes" where
  "buildBinaryInputResponse db header =
     (let points = dbBinary db in
      if length points = 0 then []
      else let variation = pick_variation header (bpStaticVariation (points ! 0))
           in foldl (\<lambda>builder point. AddRawData builder (binary_object point))
                (response_header GroupBinaryInput variation (length points)) points)"

definition analog_object :: "float_ops \<Rightarrow> byte \<Rightarrow> AnalogPoint \<Rightarrow> bytes" where
  "analog_object fo variation point =
     (let ai = \<lparr>aiValue = Some (Float64 (anValue (apValue point))), aiFlags = anFlags (apValue point)\<rparr>
      in if variation = AnalogInputFloat then AnalogInput_SerializeFloat fo ai
         else if variation = AnalogInput32Bit then AnalogInput_Serialize32Bit fo ai
         else if variation = AnalogInput16Bit then AnalogInput_Serialize16Bit fo ai
         else if variation = AnalogInputDouble then AnalogInput_SerializeDouble fo ai
         else AnalogInput_SerializeFloat fo ai)"

definition buildAnalogInputResponse :: "float_ops \<Rightarrow> Database \<Rightarrow> ObjectHeader option \<Rightarrow> bytes" where
  "buildAnalogInputResponse fo db header =
     (let points = dbAnalog db in
      if length points = 0 then []
      else let variation = pick_variation header (apStaticVariation (points ! 0))
           in foldl (\<lambda>builder point. AddRawData builder (analog_object fo variation point))
                (response_header GroupAnalogInput variation (length points)) points)"

definition counter_object :: "byte \<Rightarrow> CounterPoint \<Rightarrow> bytes" where
  "counter_object variation point =
     (let counter = \<lparr>acValue = cnValue (cpValue point), acFlags = cnFlags (cpValue point)\<rparr>
      in if variation = Counter32BitWithFlag \<or> variation = Counter32Bit then Counter_Serialize32Bit counter
         else if variation = Counter16BitWithFlag \<or> variation = Counter16Bit
         then Counter_Serialize16Bit counter
         else Counter_Serialize32Bit counter)"

definition buildCounterResponse :: "Database \<Rightarrow> ObjectHeader option \<Rightarrow> bytes" where
  "buildCounterResponse db header =
     (let points = dbCounter db in
      if length points = 0 then []
      else let variation = pick_variation header (cpStaticVariation (points ! 0))
           in foldl (\<lambda>builder point. AddRawData builder (counter_object variation point))
                (response_header GroupCounter variation (length points)) points)"

definition buildStaticData :: "float_ops \<Rightarrow> Database \<Rightarrow> bytes" where
  "buildStaticData fo db =
     (if length (dbBinary db) > 0 then buildBinaryInputResponse db None else [])
     @ (if length (dbAnalog db) > 0 then buildAnalogInputResponse fo db None else [])
     @ (if length (dbCounter db) > 0 then buildCounterResponse db None else [])"

definition buildEventData :: "byte \<Rightarrow> bytes" where
  "buildEventData class = []"

text \<open>What one header of a READ request adds to the response.\<close>

definition read_group :: "float_ops \<Rightarrow> Database \<Rightarrow> ObjectHeader \<Rightarrow> bytes" where
  "read_group fo db header =
     (let grp = ohGroup header in
      if grp = GroupClass0Data then buildStaticData fo db
      else if grp = GroupClass1Data then buildEventData 1
      else if grp = GroupClass2Data then buildEventData 2
      else if grp = GroupClass3Data then buildEventData 3
      else if grp = GroupBinaryInput then buildBinaryInputResponse db (Some header)
      else if grp = GroupAnalogInput then buildAnalogInputResponse fo db (Some header)
      else if grp = GroupCounter then buildCounterResponse db (Some header)
      else [])"

function read_headers :: "float_ops \<Rightarrow> Database \<Rightarrow> Parser \<Rightarrow> bytes \<Rightarrow> bytes" where
  "read_headers fo db parser responseData =
     (if \<not> HasMore parser then responseData
      else (case ReadObjectHeader parser of
              (Inl err, _) \<Rightarrow> responseData
            | (Inr header, parser1) \<Rightarrow>
                read_headers fo db parser1 (responseData @ read_group fo db header)))"
  by pat_completeness auto
termination read_headers
  by (relation "measure (\<lambda>(fo, db, p, acc). length (psData p) - psOffset p)") (auto intro: header_read_shrinks)

declare read_headers.simps [simp del]

definition buildReadResponse :: "float_ops \<Rightarrow> Database \<Rightarrow> bytes \<Rightarrow> bytes" where
  "buildReadResponse fo db requestObjects =
     (if length requestObjects = 0 then [] else read_headers fo db (NewParser requestObjects) [])"

section \<open>Handlers\<close>

definition respond ::
  "byte \<Rightarrow> IIN \<Rightarrow> bytes \<Rightarrow> outstation \<Rightarrow> Channel \<Rightarrow> station_err option \<times> outstation \<times> Channel" where
  "respond seq iin objects s c =
     (case outstation_sendAPDU (ouSession s) (fst (APDU_Serialize (NewResponseAPDU seq iin objects))) c of
        (err, se, c1) \<Rightarrow> (err, s\<lparr>ouSession := se\<rparr>, c1))"

definition sendErrorResponse ::
  "byte \<Rightarrow> outstation \<Rightarrow> Channel \<Rightarrow> station_err option \<times> outstation \<times> Channel" where
  "sendErrorResponse seq s c = respond seq \<lparr>iin1 = 0, iin2 = IIN2NoFuncCodeSupport\<rparr> [] s c"

definition handleRead ::
  "float_ops \<Rightarrow> IIN \<Rightarrow> APDU \<Rightarrow> outstation \<Rightarrow> Channel \<Rightarrow> station_err option \<times> outstation \<times> Channel" where
  "handleRead fo iin apdu s c =
     respond (apSequence apdu) iin (buildReadResponse fo (ouDatabase s) (apObjects apdu)) s c"

definition handleSelect ::
  "IIN \<Rightarrow> APDU \<Rightarrow> outstation \<Rightarrow> Channel \<Rightarrow> station_err option \<times> outstation \<times> Channel" where
  "handleSelect iin apdu s c = respond (apSequence apdu) iin [] s c"

definition handleOperate ::
  "IIN \<Rightarrow> APDU \<Rightarrow> outstation \<Rightarrow> Channel \<Rightarrow> station_err option \<times> outstation \<times> Channel" where
  "handleOperate iin apdu s c = respond (apSequence apdu) iin [] s c"

definition handleDirectOperate ::
  "IIN \<Rightarrow> APDU \<Rightarrow> outstation \<Rightarrow> Channel \<Rightarrow> station_err option \<times> outstation \<times> Channel" where
  "handleDirectOperate iin apdu s c = respond (apSequence apdu) iin [] s c"

function class_mask :: "Parser \<Rightarrow> ClassField \<Rightarrow> ClassField" where
  "class_mask parser cls =
     (if \<not> HasMore parser then cls
      else (case ReadObjectHeader parser of
              (Inl err, _) \<Rightarrow> cls
            | (Inr header, parser1) \<Rightarrow>
                class_mask parser1
                  (if ohGroup header = GroupClass0Data then cls OR Class0
                   else if ohGroup header = GroupClass1Data then cls OR Class1
                   else if ohGroup header = GroupClass2Data then cls OR Class2
                   else if ohGroup header = GroupClass3Data then cls OR Class3
                   else cls)))"
  by pat_completeness auto
termination class_mask
  by (relation "measure (\<lambda>(p, cls). length (psData p) - psOffset p)") (auto intro: header_read_shrinks)

declare class_mask.simps [simp del]

definition parseClassMask :: "bytes \<Rightarrow> ClassField" where
  "parseClassMask objects = class_mask (NewParser objects) 0"

definition handleEnableUnsolicited ::
  "IIN \<Rightarrow> APDU \<Rightarrow> outstation \<Rightarrow> Channel \<Rightarrow> station_err option \<times> outstation \<times> Channel" where
  "handleEnableUnsolicited iin apdu s c =
     (let classesToEnable = parseClassMask (apObjects apdu)
      in respond (apSequence apdu) iin []
           (s\<lparr>ouUnsolicitedMask := ouUnsolicitedMask s OR classesToEnable\<rparr>) c)"

definition handleDisableUnsolicited ::
  "IIN \<Rightarrow> APDU \<Rightarrow> outstation \<Rightarrow> Channel \<Rightarrow> station_err option \<times> outstation \<times> Channel" where
  "handleDisableUnsolicited iin apdu s c =
     (let classesToDisable = parseClassMask (apObjects apdu)
      in respond (apSequence apdu) iin []
           (s\<lparr>ouUnsolicitedMask := ouUnsolicitedMask s AND NOT classesToDisable\<rparr>) c)"

text \<open>The time is read off the request and logged; \<open>handleTimeSync\<close> returns the parser only.\<close>

definition handleTimeSync :: "ObjectHeader \<Rightarrow> Parser \<Rightarrow> Parser" where
  "handleTimeSync header parser =
     (if ohVariation header = 1 then snd (ReadBytes parser 6) else parser)"

definition write_group :: "ObjectHeader \<Rightarrow> Parser \<Rightarrow> Parser" where
  "write_group header parser =
     (if ohGroup header = GroupTimeDate then handleTimeSync header parser
      else if ohGroup header = GroupInternalIndications
      then (case ohRange header of
              CountRange n \<Rightarrow> snd (Skip parser (unat n))
            | _ \<Rightarrow> parser)
      else parser)"

lemma write_group_forward:
  "psData (write_group h p) = psData p \<and> psOffset p \<le> psOffset (write_group h p)"
  using Skip_advances ReadBytes_advances [of p 6]
  by (auto simp: write_group_def handleTimeSync_def prod.case_eq_if split: Range.split) (metis prod.collapse)+

function write_headers :: "Parser \<Rightarrow> Parser" where
  "write_headers parser =
     (if \<not> HasMore parser then parser
      else (case ReadObjectHeader parser of
              (Inl err, parser1) \<Rightarrow> parser1
            | (Inr header, parser1) \<Rightarrow> write_headers (write_group header parser1)))"
  by pat_completeness auto
termination write_headers
proof (relation "measure (\<lambda>p. length (psData p) - psOffset p)", goal_cases)
  case 1
  then show ?case by simp
next
  case (2 p r p1 h)
  then show ?case using header_read_shrinks [of p h p1] write_group_forward [of h p1] by auto
qed

declare write_headers.simps [simp del]

definition handleWrite ::
  "IIN \<Rightarrow> APDU \<Rightarrow> outstation \<Rightarrow> Channel \<Rightarrow> station_err option \<times> outstation \<times> Channel" where
  "handleWrite iin apdu s c =
     (let parser = write_headers (NewParser (apObjects apdu))
      in respond (apSequence apdu) iin [] s c)"

definition outstation_onReceiveAPDU ::
  "float_ops \<Rightarrow> IIN \<Rightarrow> bytes \<Rightarrow> outstation \<Rightarrow> Channel \<Rightarrow> station_err option \<times> outstation \<times> Channel" where
  "outstation_onReceiveAPDU fo iin data s c =
     (case APDU_Parse data of
        Inl err \<Rightarrow> (Some (APDUFailed err), s, c)
      | Inr apdu \<Rightarrow>
          (let fc = apFunctionCode apdu in
           if fc = FuncRead then handleRead fo iin apdu s c
           else if fc = FuncWrite then handleWrite iin apdu s c
           else if fc = FuncSelect then handleSelect iin apdu s c
           else if fc = FuncOperate then handleOperate iin apdu s c
           else if fc = FuncDirectOperate then handleDirectOperate iin apdu s c
           else if fc = FuncEnableUnsolicited then handleEnableUnsolicited iin apdu s c
           else if fc = FuncDisableUnsolicited then handleDisableUnsolicited iin apdu s c
           else sendErrorResponse (apSequence apdu) s c))"

definition Outstation_OnReceive ::
  "float_ops \<Rightarrow> IIN \<Rightarrow> outstation \<Rightarrow> Frame \<Rightarrow> Channel \<Rightarrow> station_err option \<times> outstation \<times> Channel" where
  "Outstation_OnReceive fo iin s frame c =
     (case outstation_OnReceive (ouSession s) frame c of
        (Inl err, se, c1) \<Rightarrow> (Some err, s\<lparr>ouSession := se\<rparr>, c1)
      | (Inr None, se, c1) \<Rightarrow> (None, s\<lparr>ouSession := se\<rparr>, c1)
      | (Inr (Some apdu), se, c1) \<Rightarrow> outstation_onReceiveAPDU fo iin apdu (s\<lparr>ouSession := se\<rparr>) c1)"

definition outstation_ops :: "float_ops \<Rightarrow> IIN \<Rightarrow> (outstation, station_err) session_ops" where
  "outstation_ops fo iin =
     \<lparr>soLinkAddress = (\<lambda>s. seLinkAddress (ouSession s)), soType = (\<lambda>s. SessionTypeOutstation),
      soOnReceive = Outstation_OnReceive fo iin,
      soConnection = (\<lambda>s. Some (\<lambda>s. s\<lparr>ouSession := OnConnectionEstablished (ouSession s)\<rparr>,
                                \<lambda>s. s\<lparr>ouSession := OnConnectionLost (ouSession s)\<rparr>))\<rparr>"

interpretation out_station: station "outstation_ops fo iin" ouSession "\<lambda>se s. s\<lparr>ouSession := se\<rparr>"
    "\<lambda>f. fIsPrimary f = PrimaryFrame \<and> fFunctionCode f = FuncUserDataUnconfirmed" "outstation_onReceiveAPDU fo iin"
  for fo iin
  by unfold_locales
    (auto simp: outstation_ops_def Outstation_OnReceive_def outstation_OnReceive_def Let_def
      split: prod.split option.split)

section \<open>Loops over headers\<close>

lemma header_at:
  assumes "header_fits h"
  shows "HasMore \<lparr>psData = pre @ header_bytes h @ rest, psOffset = length pre\<rparr>"
    and "ReadObjectHeader \<lparr>psData = pre @ header_bytes h @ rest, psOffset = length pre\<rparr>
      = (Inr h, \<lparr>psData = (pre @ header_bytes h) @ rest, psOffset = length (pre @ header_bytes h)\<rparr>)"
  using ReadObjectHeader_at [OF assms, of pre rest] by (simp_all add: HasMore_def header_bytes_def AddHeader_def)

lemma read_headers_stream:
  assumes "list_all header_fits hs"
  shows "read_headers fo db \<lparr>psData = pre @ concat (map header_bytes hs), psOffset = length pre\<rparr> acc
    = acc @ concat (map (read_group fo db) hs)"
  using assms
proof (induction hs arbitrary: pre acc)
  case Nil
  then show ?case by (subst read_headers.simps) (simp add: HasMore_def)
next
  case (Cons h hs)
  then have "header_fits h" by simp
  note h = header_at [OF this, of pre "concat (map header_bytes hs)"]
  have "read_headers fo db \<lparr>psData = pre @ concat (map header_bytes (h # hs)), psOffset = length pre\<rparr> acc
    = read_headers fo db \<lparr>psData = (pre @ header_bytes h) @ concat (map header_bytes hs),
        psOffset = length (pre @ header_bytes h)\<rparr> (acc @ read_group fo db h)"
    using h by (subst read_headers.simps) (simp del: append_assoc length_append)
  then show ?case using Cons.IH [of "pre @ header_bytes h" "acc @ read_group fo db h"] Cons.prems by simp
qed

lemma buildReadResponse_stream:
  assumes "list_all header_fits hs"
  shows "buildReadResponse fo db (concat (map header_bytes hs)) = concat (map (read_group fo db) hs)"
proof (cases hs)
  case Nil
  then show ?thesis by (simp add: buildReadResponse_def)
next
  case (Cons h hs')
  have "concat (map header_bytes hs) \<noteq> []" by (simp add: Cons header_bytes_def AddHeader_def)
  then show ?thesis using read_headers_stream [OF assms, of fo db "[]" "[]"]
    by (simp add: buildReadResponse_def NewParser_def del: concat_eq_Nil_conv)
qed

definition group_class :: "ObjectHeader \<Rightarrow> ClassField" where
  "group_class h =
     (if ohGroup h = GroupClass0Data then Class0 else if ohGroup h = GroupClass1Data then Class1
      else if ohGroup h = GroupClass2Data then Class2 else if ohGroup h = GroupClass3Data then Class3 else 0)"

lemma class_mask_stream:
  assumes "list_all header_fits hs"
  shows "class_mask \<lparr>psData = pre @ concat (map header_bytes hs), psOffset = length pre\<rparr> cls
    = foldl (\<lambda>m h. m OR group_class h) cls hs"
  using assms
proof (induction hs arbitrary: pre cls)
  case Nil
  then show ?case by (subst class_mask.simps) (simp add: HasMore_def)
next
  case (Cons h hs)
  then have "header_fits h" by simp
  note h = header_at [OF this, of pre "concat (map header_bytes hs)"]
  have "class_mask \<lparr>psData = pre @ concat (map header_bytes (h # hs)), psOffset = length pre\<rparr> cls
    = class_mask \<lparr>psData = (pre @ header_bytes h) @ concat (map header_bytes hs),
        psOffset = length (pre @ header_bytes h)\<rparr> (cls OR group_class h)"
    using h by (subst class_mask.simps) (simp add: group_class_def del: append_assoc length_append)
  then show ?case using Cons.IH [of "pre @ header_bytes h" "cls OR group_class h"] Cons.prems by simp
qed

text \<open>Every header of a class request is of group 60, which the outstation takes for class 0.\<close>

lemma class_headers_group: "h \<in> set (class_headers cs) \<Longrightarrow> ohGroup h = GroupClass0Data"
  by (auto simp: class_headers_def class_header_def)

lemma parseClassMask_class_headers:
  "parseClassMask (concat (map header_bytes (class_headers cs))) \<in> {0, Class0}"
proof -
  have "foldl (\<lambda>m h. m OR group_class h) cls hs = (if hs = [] then cls else cls OR 1)"
    if "\<forall>h\<in>set hs. group_class h = 1" for hs cls
    using that by (induction hs arbitrary: cls) (auto simp: or.assoc)
  then have "foldl (\<lambda>m h. m OR group_class h) cls hs \<in> {cls, cls OR 1}"
    if "\<forall>h\<in>set hs. ohGroup h = 60" for hs cls
    using that by (auto simp: group_class_def)
  from this [of "class_headers cs" 0] class_headers_group [of _ cs] show ?thesis
    using class_mask_stream [OF class_headers_fit, of "[]" cs 0]
    by (auto simp: parseClassMask_def NewParser_def)
qed

lemma BuildEnableUnsolicited_headers:
  "BuildEnableUnsolicited cs = concat (map header_bytes (class_headers (filter (\<lambda>c. c \<noteq> Class0) cs)))"
proof (induction cs rule: rev_induct)
  case Nil
  then show ?case
    by (simp add: BuildEnableUnsolicited_def NewObjectBuilder_def class_headers_def map_filter_def)
next
  case (snoc c cs)
  then show ?case
    by (simp add: class_headers_snoc BuildEnableUnsolicited_def Let_def)
      (simp add: class_variation_def header_bytes_class AddHeader_def range_bytes_def)
qed

section \<open>Answers\<close>

text \<open>The response an outstation gives to a request.\<close>

definition answer :: "float_ops \<Rightarrow> IIN \<Rightarrow> Database \<Rightarrow> APDU \<Rightarrow> APDU" where
  "answer fo iin db a =
     (if apFunctionCode a = FuncRead
      then NewResponseAPDU (apSequence a) iin (buildReadResponse fo db (apObjects a))
      else if apFunctionCode a \<in> {FuncWrite, FuncSelect, FuncOperate, FuncDirectOperate,
                FuncEnableUnsolicited, FuncDisableUnsolicited}
      then NewResponseAPDU (apSequence a) iin []
      else NewResponseAPDU (apSequence a) \<lparr>iin1 = 0, iin2 = IIN2NoFuncCodeSupport\<rparr> [])"

definition response_bytes_of :: "APDU \<Rightarrow> bytes" where
  "response_bytes_of a = fst (APDU_Serialize a)"

lemma apdu_frames_cong:
  "lyTxSequence l = lyTxSequence (seTransport s) \<Longrightarrow>
    apdu_frames outstation_frame (s\<lparr>seTransport := l\<rparr>) d = apdu_frames outstation_frame s d"
  by (simp add: apdu_frames_def outstation_frame_def Layer_Send_def Let_def)

lemma transport_only [simp]:
  "\<exists>t. s = s\<lparr>seTransport := t\<rparr>" "\<exists>t. s\<lparr>seTransport := l\<rparr> = s\<lparr>seTransport := t\<rparr>"
  by (rule exI [of _ "seTransport s"], simp) blast

lemma outstation_answers_apdu:
  assumes "channel_up c" and "APDU_Parse w = Inr a"
  shows "\<exists>s' c'. outstation_onReceiveAPDU fo iin w s c = (None, s', c') \<and> channel_up c'
    \<and> chSent c' = chSent c @ map frame_bytes (apdu_frames outstation_frame (ouSession s)
        (response_bytes_of (answer fo iin (ouDatabase s) a)))
    \<and> s' = s\<lparr>ouSession := ouSession s', ouUnsolicitedMask := ouUnsolicitedMask s'\<rparr>
    \<and> seLinkAddress (ouSession s') = seLinkAddress (ouSession s)
    \<and> (\<exists>t. ouSession s' = (ouSession s)\<lparr>seTransport := t\<rparr>)
    \<and> lyReassembler (seTransport (ouSession s')) = lyReassembler (seTransport (ouSession s))"
proof -
  have resp: "\<exists>s' c'. respond q i d (s\<lparr>ouUnsolicitedMask := m\<rparr>) c = (None, s', c') \<and> channel_up c'
    \<and> chSent c' = chSent c @ map frame_bytes (apdu_frames outstation_frame (ouSession s)
        (response_bytes_of (NewResponseAPDU q i d)))
    \<and> s' = s\<lparr>ouSession := ouSession s', ouUnsolicitedMask := ouUnsolicitedMask s'\<rparr>
    \<and> seLinkAddress (ouSession s') = seLinkAddress (ouSession s)
    \<and> (\<exists>t. ouSession s' = (ouSession s)\<lparr>seTransport := t\<rparr>)
    \<and> lyReassembler (seTransport (ouSession s')) = lyReassembler (seTransport (ouSession s))" for q i d m
    using sendAPDU_up(2) [OF assms(1), of "ouSession s" "response_bytes_of (NewResponseAPDU q i d)"]
    by (auto simp: respond_def response_bytes_of_def Layer_Send_def Let_def)
  show ?thesis
    using resp [of _ _ _ "ouUnsolicitedMask s"] resp assms(2)
    by (auto simp: outstation_onReceiveAPDU_def answer_def handleRead_def handleWrite_def handleSelect_def
        handleOperate_def handleDirectOperate_def handleEnableUnsolicited_def handleDisableUnsolicited_def
        sendErrorResponse_def Let_def)
qed

lemma master_frames_carry:
  "carries (seRemoteAddr m) (\<lambda>f. fIsPrimary f = PrimaryFrame \<and> fFunctionCode f = FuncUserDataUnconfirmed)
     (master_frame m)"
  using station_frames_valid(1)
  by (simp add: carries_def) (simp add: master_frame_def NewFrame_def buildControl_def Let_def)

lemma outstation_reads_request:
  assumes "channel_up c" and "distinct (map fst r)" and "map_of r (seRemoteAddr m) = Some s"
    and "APDU_Parse w = Inr a" and "length w \<le> MaxReassemblySize"
  shows "\<exists>s' c'. readLoop (outstation_ops fo iin)
        (map (\<lambda>f. Some (frame_bytes f)) (apdu_frames master_frame m w)) r c
      = (set_session r (seRemoteAddr m) s', c')
    \<and> ouDatabase s' = ouDatabase s \<and> channel_up c'
    \<and> chSent c' = chSent c @ map frame_bytes (apdu_frames outstation_frame (ouSession s)
        (response_bytes_of (answer fo iin (ouDatabase s) a)))"
proof -
  have w: "w \<noteq> []" "\<not> chCancelled c" using assms(1,4) by (auto simp: APDU_Parse_def channel_up_def)
  obtain l st where l: "lyTxSequence l = lyTxSequence (seTransport (ouSession s))"
    "readLoop (outstation_ops fo iin)
        (map (\<lambda>t. Some (frame_bytes (master_frame m t))) (fst (Layer_Send (seTransport m) w))) r c
      = (case outstation_onReceiveAPDU fo iin w (s\<lparr>ouSession := (ouSession s)\<lparr>seTransport := l\<rparr>\<rparr>)
            (c\<lparr>chStats := st\<rparr>) of (err, s', c') \<Rightarrow> (set_session r (seRemoteAddr m) s', c'))"
    using out_station.read_apdu [OF master_frames_carry assms(3,2) w(2,1) assms(5)] by blast
  let ?s = "s\<lparr>ouSession := (ouSession s)\<lparr>seTransport := l\<rparr>\<rparr>" and ?c = "c\<lparr>chStats := st\<rparr>"
  have "channel_up ?c" using assms(1) by simp
  from outstation_answers_apdu [OF this assms(4), of fo iin ?s] obtain s' c' where
    r: "outstation_onReceiveAPDU fo iin w ?s ?c = (None, s', c')" "channel_up c'"
    "chSent c' = chSent c @ map frame_bytes (apdu_frames outstation_frame (ouSession s)
        (response_bytes_of (answer fo iin (ouDatabase s) a)))"
    and s': "s' = ?s\<lparr>ouSession := ouSession s', ouUnsolicitedMask := ouUnsolicitedMask s'\<rparr>"
    using apdu_frames_cong [OF l(1)] by auto
  from s' have "ouDatabase s' = ouDatabase s" by (metis outstation.select_convs(2) outstation.surjective outstation.update_convs(3,6))
  with l(2) r show ?thesis by (auto simp: apdu_frames_def comp_def)
qed

section \<open>Properties\<close>


definition sample_outstation :: outstation where
  "sample_outstation = new_outstation
     \<lparr>ocID = '''', ocLocalAddress = 10, ocRemoteAddress = 1, ocDatabase =
        \<lparr>dcBinary = [], dcDoubleBit = [], dcAnalog = [],
         dcCounter = [\<lparr>ccStaticVariation = 1, ccEventVariation = 1, ccClass = 2, ccDeadband = 5\<rparr>],
         dcFrozenCounter = [], dcBinaryOutput = [], dcAnalogOutput = []\<rparr>,
      ocMaxBinaryEvents = 10, ocMaxAnalogEvents = 10, ocMaxCounterEvents = 10, ocMaxDoubleBitEvents = 10,
      ocAllowUnsolicited = False, ocUnsolConfirmTimeout = 0, ocSelectTimeout = 0, ocMaxControlsPerRequest = 0,
      ocLocalControl = False, ocDeviceTrouble = False, ocMaxRxFragSize = 2048, ocMaxTxFragSize = 2048\<rparr>"


text \<open>
  Outstation and master disagree on class requests. The outstation takes every header of
  group 60 for class 0. So an event poll for the classes 1 to 3 is answered with the static
  data of the whole database, three times over, and no request to disable unsolicited
  responses, for any classes, changes the classes 1 to 3 of the mask.
\<close>

theorem class_requests_misread:
  "buildReadResponse fo db BuildEventPoll = concat (replicate 3 (buildStaticData fo db))
    \<and> (\<exists>s' err c'. handleDisableUnsolicited iin (BuildDisableUnsolicitedRequest seq cs) s c = (err, s', c')
        \<and> ouUnsolicitedMask s' AND ClassAll = ouUnsolicitedMask s AND ClassAll)"
proof
  have "class_headers [Class1, Class2, Class3] = [class_header 2, class_header 3, class_header 4]"
    by (simp add: class_headers_def class_variation_def map_filter_def)
  then show "buildReadResponse fo db BuildEventPoll = concat (replicate 3 (buildStaticData fo db))"
    using buildReadResponse_stream [OF class_headers_fit, of fo db "[Class1, Class2, Class3]"]
    by (simp add: BuildEventPoll_def BuildClassRead_headers read_group_def class_header_def numeral_3_eq_3)
next
  let ?m = "parseClassMask (BuildDisableUnsolicited cs)"
  have "?m \<in> {0, Class0}"
    using parseClassMask_class_headers [of "filter (\<lambda>c. c \<noteq> Class0) cs"]
    by (simp add: BuildDisableUnsolicited_def BuildEnableUnsolicited_headers)
  then have "(m AND NOT ?m) AND ClassAll = m AND ClassAll" for m
    by (auto simp: byte_eq_iff bit_simps)
  then show "\<exists>s' err c'. handleDisableUnsolicited iin (BuildDisableUnsolicitedRequest seq cs) s c = (err, s', c')
        \<and> ouUnsolicitedMask s' AND ClassAll = ouUnsolicitedMask s AND ClassAll"
    by (auto simp: handleDisableUnsolicited_def respond_def BuildDisableUnsolicitedRequest_def NewRequestAPDU_def
        split: prod.split)
qed

end
