(* ===== verification/Master_Commands.thy ===== *)
theory Master_Commands
  imports App_Controls
begin

text \<open>
  The commands of the master (\<open>pkg/types/commands.go\<close> and the command part of
  \<open>pkg/master/operations.go\<close>): building the control relay output blocks of a list of commands
  and reading the status codes out of the outstation's answer.
\<close>

section \<open>Commands\<close>

type_synonym CommandStatus = byte

definition CommandStatusSuccess :: CommandStatus where [simp]: "CommandStatusSuccess = 0"
definition CommandStatusTimeout :: CommandStatus where [simp]: "CommandStatusTimeout = 1"
definition CommandStatusNoSelect :: CommandStatus where [simp]: "CommandStatusNoSelect = 2"
definition CommandStatusFormatError :: CommandStatus where [simp]: "CommandStatusFormatError = 3"
definition CommandStatusNotSupported :: CommandStatus where [simp]: "CommandStatusNotSupported = 4"
definition CommandStatusAlreadyActive :: CommandStatus where [simp]: "CommandStatusAlreadyActive = 5"
definition CommandStatusHardwareError :: CommandStatus where [simp]: "CommandStatusHardwareError = 6"
definition CommandStatusLocal :: CommandStatus where [simp]: "CommandStatusLocal = 7"
definition CommandStatusTooManyOps :: CommandStatus where [simp]: "CommandStatusTooManyOps = 8"
definition CommandStatusNotAuthorized :: CommandStatus where [simp]: "CommandStatusNotAuthorized = 9"
definition CommandStatusAutomationInhibit :: CommandStatus where [simp]: "CommandStatusAutomationInhibit = 10"
definition CommandStatusProcessingLimited :: CommandStatus where [simp]: "CommandStatusProcessingLimited = 11"
definition CommandStatusOutOfRange :: CommandStatus where [simp]: "CommandStatusOutOfRange = 12"
definition CommandStatusDownstreamLocal :: CommandStatus where [simp]: "CommandStatusDownstreamLocal = 13"
definition CommandStatusAlreadyComplete :: CommandStatus where [simp]: "CommandStatusAlreadyComplete = 14"
definition CommandStatusBlocked :: CommandStatus where [simp]: "CommandStatusBlocked = 15"
definition CommandStatusCancelled :: CommandStatus where [simp]: "CommandStatusCancelled = 16"
definition CommandStatusBlockedOther :: CommandStatus where [simp]: "CommandStatusBlockedOther = 17"
definition CommandStatusDownstreamFail :: CommandStatus where [simp]: "CommandStatusDownstreamFail = 18"
definition CommandStatusNonParticipating :: CommandStatus where [simp]: "CommandStatusNonParticipating = 126"
definition CommandStatusUndefined :: CommandStatus where [simp]: "CommandStatusUndefined = 127"

definition IsSuccess :: "CommandStatus \<Rightarrow> bool" where
  "IsSuccess s \<longleftrightarrow> s = CommandStatusSuccess"

record CommandCROB =
  tcOpType :: byte
  tcCount :: byte
  tcOnTimeMs :: u32
  tcOffTimeMs :: u32
  tcStatus :: CommandStatus

text \<open>The data of a command is an \<open>interface{}\<close> that holds one of the command types.\<close>

datatype command_data =
    CROBData CommandCROB
  | AnalogOutputInt32 u32 CommandStatus
  | AnalogOutputInt16 u16 CommandStatus
  | AnalogOutputFloat32 u32 CommandStatus
  | AnalogOutputDouble64 u64 CommandStatus

record Command =
  cmIndex :: u16
  cmType :: byte
  cmData :: command_data

section \<open>Requests\<close>

definition to_app_crob :: "CommandCROB \<Rightarrow> CROB" where
  "to_app_crob c =
     (if tcOpType c = ControlCodeLatchOn then NewLatchOn
      else if tcOpType c = ControlCodeLatchOff then NewLatchOff
      else if tcOpType c = ControlCodePulseOn then NewPulseOn (tcOnTimeMs c)
      else if tcOpType c = ControlCodePulseOff then NewPulseOff (tcOffTimeMs c)
      else NewCROB (tcOpType c) (tcCount c) (tcOnTimeMs c) (tcOffTimeMs c))"

definition add_command :: "ObjectBuilder \<Rightarrow> Command \<Rightarrow> ObjectBuilder" where
  "add_command builder cmd =
     (case cmData cmd of
        CROBData crobData \<Rightarrow>
          AddRawData (AddHeader builder GroupBinaryOutputCommand 1 Qualifier8BitStartStop
            (StartStopRange (ucast (cmIndex cmd)) (ucast (cmIndex cmd))))
            (CROB_Serialize (to_app_crob crobData))
      | _ \<Rightarrow> builder)"

definition buildCROBObjects :: "Command list \<Rightarrow> bytes" where
  "buildCROBObjects commands = foldl add_command NewObjectBuilder commands"

section \<open>Answers\<close>

text \<open>
  The inner loop: \<open>left\<close> more objects of the header, statuses stored from index \<open>cmdIndex\<close> on. A
  failed read leaves the inner loop only.
\<close>

fun read_statuses ::
  "nat \<Rightarrow> nat \<Rightarrow> Parser \<Rightarrow> nat \<Rightarrow> CommandStatus list \<Rightarrow> Parser \<times> nat \<times> CommandStatus list" where
  "read_statuses numCommands 0 parser cmdIndex statuses = (parser, cmdIndex, statuses)"
| "read_statuses numCommands (Suc left) parser cmdIndex statuses =
     (if numCommands \<le> cmdIndex then (parser, cmdIndex, statuses)
      else (case ReadBytes parser 11 of
              (Inl _, parser1) \<Rightarrow> (parser1, cmdIndex, statuses)
            | (Inr data, parser1) \<Rightarrow>
                read_statuses numCommands left parser1 (Suc cmdIndex)
                  (statuses[cmdIndex := (case ParseCROB data of
                     Inl _ \<Rightarrow> CommandStatusFormatError | Inr crob \<Rightarrow> crStatus crob)])))"

lemma read_statuses_advances:
  "read_statuses n left p ci sts = (p', ci', sts') \<Longrightarrow>
    psData p' = psData p \<and> psOffset p \<le> psOffset p' \<and> length sts' = length sts"
proof (induction n left p ci sts arbitrary: p' ci' sts' rule: read_statuses.induct)
  case (1 n p ci sts)
  then show ?case by simp
next
  case (2 n left p ci sts)
  obtain r p1 where r: "ReadBytes p 11 = (r, p1)" by fastforce
  note adv = ReadBytes_advances [OF r]
  show ?case
  proof (cases "n \<le> ci \<or> (\<exists>e. r = Inl e)")
    case True
    then show ?thesis using "2.prems" r adv by (auto split: if_splits)
  next
    case False
    then obtain d where d: "r = Inr d" "\<not> n \<le> ci" by (cases r) auto
    let ?sts = "sts[ci := (case ParseCROB d of Inl _ \<Rightarrow> CommandStatusFormatError | Inr crob \<Rightarrow> crStatus crob)]"
    have "read_statuses n left p1 (Suc ci) ?sts = (p', ci', sts')" using "2.prems" r d by simp
    from "2.IH" [OF d(2) r [symmetric] d(1) this] adv show ?thesis by simp
  qed
qed

function read_answers ::
  "nat \<Rightarrow> Parser \<Rightarrow> nat \<Rightarrow> CommandStatus list \<Rightarrow> nat \<times> CommandStatus list" where
  "read_answers numCommands parser cmdIndex statuses =
     (if \<not> (HasMore parser \<and> cmdIndex < numCommands) then (cmdIndex, statuses)
      else (case ReadObjectHeader parser of
              (Inl _, _) \<Rightarrow> (cmdIndex, statuses)
            | (Inr header, parser1) \<Rightarrow>
                (case read_statuses numCommands (unat (GetCount (ohRange header))) parser1 cmdIndex statuses of
                   (parser2, cmdIndex', statuses') \<Rightarrow>
                     read_answers numCommands parser2 cmdIndex' statuses')))"
  by pat_completeness auto
termination read_answers
proof (relation "measure (\<lambda>(n, p, ci, sts). length (psData p) - psOffset p)", goal_cases)
  case 1
  then show ?case by simp
next
  case (2 n p ci sts r p1 h p2 cs ci' sts')
  have "psData p1 = psData p \<and> psOffset p + 3 \<le> psOffset p1"
    using 2(2,3) ReadObjectHeader_advances [of p h p1] by simp
  moreover have rs: "read_statuses n (unat (GetCount (ohRange h))) p1 ci sts = (p2, ci', sts')"
    using 2(4,5) by simp
  moreover note read_statuses_advances [OF rs]
  ultimately show ?case using 2(1) by (auto simp: HasMore_def)
qed

declare read_answers.simps [simp del]

text \<open>\<open>apdu\<close> may be a nil pointer.\<close>

definition parseCommandResponse :: "APDU option \<Rightarrow> nat \<Rightarrow> CommandStatus list" where
  "parseCommandResponse apdu numCommands =
     (let statuses = replicate numCommands 0 in
      case apdu of
        None \<Rightarrow> replicate numCommands CommandStatusSuccess
      | Some a \<Rightarrow>
          (if length (apObjects a) = 0 then replicate numCommands CommandStatusSuccess
           else (case read_answers numCommands (NewParser (apObjects a)) 0 statuses of
                   (cmdIndex, statuses') \<Rightarrow>
                     take cmdIndex statuses' @ replicate (numCommands - cmdIndex) CommandStatusSuccess)))"

definition allSuccess :: "CommandStatus list \<Rightarrow> bool" where
  "allSuccess statuses = list_all (\<lambda>s. s = CommandStatusSuccess) statuses"

section \<open>Reading an echo\<close>

text \<open>The block an outstation answers a control with: the request's, with a status.\<close>

definition control_block :: "u16 \<times> CROB \<Rightarrow> bytes" where
  "control_block c = header_bytes (point_header GroupBinaryOutputCommand (fst c)) @ CROB_Serialize (snd c)"

lemma ParseCROB_Serialize [simp]: "ParseCROB (CROB_Serialize c) = Inr c"
  by (simp add: ParseCROB_iff)

lemma control_block_length: "11 \<le> length (control_block c)"
  by (simp add: control_block_def)

lemma read_answers_end: "read_answers n \<lparr>psData = d, psOffset = length d\<rparr> ci sts = (ci, sts)"
  by (subst read_answers.simps) (simp add: HasMore_def)

lemma read_answers_block:
  assumes "ci < n" and "length sts = n"
  shows "read_answers n \<lparr>psData = pre @ control_block c @ rest, psOffset = length pre\<rparr> ci sts
    = read_answers n \<lparr>psData = (pre @ control_block c) @ rest, psOffset = length (pre @ control_block c)\<rparr>
        (Suc ci) (sts[ci := crStatus (snd c)])"
proof -
  let ?h = "point_header GroupBinaryOutputCommand (fst c)"
  let ?d = "pre @ control_block c @ rest"
  have d: "?d = pre @ header_bytes ?h @ CROB_Serialize (snd c) @ rest"
    "?d = (pre @ header_bytes ?h) @ CROB_Serialize (snd c) @ rest"
    by (simp_all add: control_block_def)
  have more: "HasMore \<lparr>psData = ?d, psOffset = length pre\<rparr>"
    using control_block_length [of c] by (cases "control_block c") (simp_all add: HasMore_def)
  have head: "ReadObjectHeader \<lparr>psData = ?d, psOffset = length pre\<rparr>
    = (Inr ?h, \<lparr>psData = ?d, psOffset = length (pre @ header_bytes ?h)\<rparr>)"
    unfolding d(1) using ReadObjectHeader_at [of ?h pre] by simp
  have body: "ReadBytes \<lparr>psData = ?d, psOffset = length (pre @ header_bytes ?h)\<rparr> 11
    = (Inr (CROB_Serialize (snd c)), \<lparr>psData = ?d, psOffset = length (pre @ control_block c)\<rparr>)"
    unfolding d(2) using ReadBytes_at [of 11 "CROB_Serialize (snd c)" "pre @ header_bytes ?h" rest]
    by (simp add: control_block_def)
  have "read_answers n \<lparr>psData = ?d, psOffset = length pre\<rparr> ci sts
    = read_answers n \<lparr>psData = ?d, psOffset = length (pre @ control_block c)\<rparr>
        (Suc ci) (sts[ci := crStatus (snd c)])"
    using more head body assms
    by (subst read_answers.simps) (simp del: append_assoc length_append)
  then show ?thesis by simp
qed

lemma read_answers_blocks:
  assumes "length pres + length cs = n" and "length sts = n" and "take (length pres) sts = pres"
  shows "read_answers n \<lparr>psData = pre @ concat (map control_block cs), psOffset = length pre\<rparr> (length pres) sts
    = (n, pres @ map (crStatus \<circ> snd) cs)"
  using assms
proof (induction cs arbitrary: pre pres sts)
  case Nil
  then show ?case using read_answers_end [of n pre] by simp
next
  case (Cons c cs)
  let ?s = "crStatus (snd c)"
  have "take (length (pres @ [?s])) (sts[length pres := ?s]) = pres @ [?s]"
    using Cons.prems by (simp add: take_Suc_conv_app_nth)
  then have "read_answers n \<lparr>psData = (pre @ control_block c) @ concat (map control_block cs),
      psOffset = length (pre @ control_block c)\<rparr> (length (pres @ [?s])) (sts[length pres := ?s])
    = (n, (pres @ [?s]) @ map (crStatus \<circ> snd) cs)"
    using Cons.prems by (intro Cons.IH) simp_all
  then show ?case
    using read_answers_block [of "length pres" n sts pre c "concat (map control_block cs)"] Cons.prems by simp
qed

text \<open>The request is the blocks of the commands that hold a control relay output block.\<close>

definition crob_of :: "Command \<Rightarrow> (u16 \<times> CROB) option" where
  "crob_of cmd = (case cmData cmd of CROBData c \<Rightarrow> Some (cmIndex cmd, to_app_crob c) | _ \<Rightarrow> None)"

lemma buildCROBObjects_blocks:
  "buildCROBObjects cmds = concat (map control_block (List.map_filter crob_of cmds))"
proof -
  have "foldl add_command b cmds = b @ concat (map control_block (List.map_filter crob_of cmds))" for b
  proof (induction cmds arbitrary: b)
    case Nil
    then show ?case by simp
  next
    case (Cons cmd cmds)
    then show ?case
      by (simp add: add_command_def crob_of_def AddRawData_def point_header_bytes control_block_def
          map_filter_def split: command_data.split)
  qed
  then show ?thesis by (simp add: buildCROBObjects_def NewObjectBuilder_def)
qed

section \<open>Properties\<close>

text \<open>
  The status codes an outstation answers with reach the caller. If the answer holds, for
  each command in order, its block with a status, then the statuses returned are exactly those,
  one per command, whatever the other fields of the blocks are.
\<close>

theorem command_statuses_returned:
  assumes "apObjects apdu = concat (map control_block answers)"
  shows "parseCommandResponse (Some apdu) (length answers) = map (crStatus \<circ> snd) answers"
proof (cases answers)
  case Nil
  then show ?thesis using assms by (simp add: parseCommandResponse_def)
next
  case (Cons c cs)
  then have "apObjects apdu \<noteq> []" using assms control_block_length [of c] by auto
  then show ?thesis
    using read_answers_blocks [of "[]" answers "length answers" "replicate (length answers) 0" "[]"] assms
    by (auto simp: parseCommandResponse_def NewParser_def)
qed

theorem command_statuses_returned_witness:
  "parseCommandResponse (Some (NewResponseAPDU 3 \<lparr>iin1 = 0, iin2 = 0\<rparr>
      (control_block (7, NewLatchOn\<lparr>crStatus := 4\<rparr>) @ control_block (300, NewPulseOn 100)))) 2 = [4, 0]"
proof -
  let ?l = "[(7 :: u16, NewLatchOn\<lparr>crStatus := 4\<rparr>), (300, NewPulseOn 100)]"
  have "parseCommandResponse (Some (NewResponseAPDU 3 \<lparr>iin1 = 0, iin2 = 0\<rparr>
      (control_block (7, NewLatchOn\<lparr>crStatus := 4\<rparr>) @ control_block (300, NewPulseOn 100)))) (length ?l)
    = map (crStatus \<circ> snd) ?l"
    by (rule command_statuses_returned) (simp add: NewResponseAPDU_def)
  then show ?thesis by (simp add: NewPulseOn_def NewCROB_def numeral_2_eq_2)
qed

end
