(* ===== verification/Master_Measurements.thy ===== *)
theory Master_Measurements
  imports Outstation_Events App_Validation App_Parsing
begin

text \<open>
  How the master takes measurements out of a response (\<open>pkg/master/measurements.go\<close> and the
  callback types of \<open>config.go\<close>): a loop over the object headers that validates each, reads
  its objects by group and hands them to the application. The calls of the application are the
  result; Go's float conversions are an argument.
\<close>

section \<open>Callbacks\<close>

record ResponseInfo =
  riUnsolicited :: bool
  riFIR :: bool
  riFIN :: bool

record HeaderInfo =
  hiGroup :: byte
  hiVariation :: byte
  hiQualifier :: byte
  hiIsEvent :: bool

datatype soe_call =
    OnBeginFragment ResponseInfo
  | OnEndFragment ResponseInfo
  | ProcessBinary HeaderInfo "(u16 \<times> Binary) list"
  | ProcessAnalog HeaderInfo "(u16 \<times> Analog) list"
  | ProcessCounter HeaderInfo "(u16 \<times> Counter) list"
  | ProcessBinaryOutputStatus HeaderInfo "(u16 \<times> BinaryOutputStatus) list"
  | ProcessAnalogOutputStatus HeaderInfo "(u16 \<times> AnalogOutputStatus) list"

section \<open>Groups and variations\<close>

definition isEventGroup :: "byte \<Rightarrow> bool" where
  "isEventGroup grp \<longleftrightarrow> grp \<in> {2, 4, 22, 23, 32, 33, 11, 42}"

section \<open>Reading objects\<close>

text \<open>
  The loop every group runs: \<open>left\<close> more objects of \<open>width\<close> bytes, the next at index \<open>idx\<close>. It
  ends early when the data does.
\<close>

fun read_objects ::
  "(bytes \<Rightarrow> 'v) \<Rightarrow> nat \<Rightarrow> nat \<Rightarrow> u32 \<Rightarrow> Parser \<Rightarrow> (u16 \<times> 'v) list \<Rightarrow> (u16 \<times> 'v) list \<times> Parser" where
  "read_objects conv width 0 idx parser values = (values, parser)"
| "read_objects conv width (Suc left) idx parser values =
     (case ReadBytes parser width of
        (Inl err, parser1) \<Rightarrow> (values, parser1)
      | (Inr data, parser1) \<Rightarrow>
          read_objects conv width left (idx + 1) parser1 (values @ [(ucast idx, conv data)]))"

definition start_index :: "Range \<Rightarrow> u32" where
  "start_index r = (case r of StartStopRange start stop \<Rightarrow> start | _ \<Rightarrow> 0)"

definition header_objects :: "(bytes \<Rightarrow> 'v) \<Rightarrow> nat \<Rightarrow> ObjectHeader \<Rightarrow> Parser \<Rightarrow> (u16 \<times> 'v) list \<times> Parser" where
  "header_objects conv width header parser =
     read_objects conv width (unat (GetCount (ohRange header))) (start_index (ohRange header)) parser []"

definition binary_of :: "bytes \<Rightarrow> Binary" where
  "binary_of data =
     (let bi = ParseBinaryInput data in \<lparr>biValue = inValue bi, biFlags = inFlags bi, biTime = 0\<rparr>)"

text \<open>The number in a parsed analog input, as a double; 0 when it has none.\<close>

definition analog_number :: "float_ops \<Rightarrow> AnalogInput \<Rightarrow> float64" where
  "analog_number fo ai =
     (case aiValue ai of
        Some (Int32 v) \<Rightarrow> foIntToF64 fo (sint v)
      | Some (Int16 v) \<Rightarrow> foIntToF64 fo (sint v)
      | Some (Float32 v) \<Rightarrow> foF32ToF64 fo v
      | Some (Float64 v) \<Rightarrow> v
      | None \<Rightarrow> 0)"

definition analog_of :: "float_ops \<Rightarrow> byte \<Rightarrow> bytes \<Rightarrow> Analog" where
  "analog_of fo variation data =
     (let ai = (if variation = 1 then ParseAnalogInput32Bit data
                else if variation = 2 then ParseAnalogInput16Bit data
                else if variation = 5 then ParseAnalogInputFloat data
                else if variation = 6 then ParseAnalogInputDouble data
                else ParseAnalogInput32Bit data)
      in \<lparr>anValue = analog_number fo ai, anFlags = aiFlags ai, anTime = 0\<rparr>)"

definition counter_of :: "byte \<Rightarrow> bytes \<Rightarrow> Counter" where
  "counter_of variation data =
     (let counter = (if variation = 1 \<or> variation = 5 then ParseCounter32Bit data
                     else if variation = 2 \<or> variation = 6 then ParseCounter16Bit data
                     else ParseCounter32Bit data)
      in \<lparr>cnValue = acValue counter, cnFlags = acFlags counter, cnTime = 0\<rparr>)"

definition binary_output_of :: "bytes \<Rightarrow> BinaryOutputStatus" where
  "binary_output_of data =
     (let bo = ParseBinaryOutput data in \<lparr>boValue = ouValue bo, boFlags = ouFlags bo, boTime = 0\<rparr>)"

definition analog_output_of :: "float_ops \<Rightarrow> byte \<Rightarrow> bytes \<Rightarrow> AnalogOutputStatus" where
  "analog_output_of fo variation data =
     (let ai = (if variation = 1 then ParseAnalogInput32Bit data
                else if variation = 2 then ParseAnalogInput16Bit data
                else if variation = 3 then ParseAnalogInputFloat data
                else if variation = 4 then ParseAnalogInputDouble data
                else no_analog)
      in \<lparr>asValue = analog_number fo ai, asFlags = aiFlags ai, asTime = 0\<rparr>)"

section \<open>Groups\<close>

text \<open>Each reads the objects of one header; without a known width it returns and reads nothing.\<close>

definition processBinaryObjects :: "ObjectHeader \<Rightarrow> HeaderInfo \<Rightarrow> Parser \<Rightarrow> soe_call list \<times> Parser" where
  "processBinaryObjects header info parser =
     (let objectSize = GetObjectSize (ohGroup header) (ohVariation header) in
      if objectSize = 0 then ([], parser)
      else (case header_objects binary_of objectSize header parser of
              (values, parser1) \<Rightarrow> ([ProcessBinary info values], parser1)))"

definition processAnalogObjects ::
  "float_ops \<Rightarrow> ObjectHeader \<Rightarrow> HeaderInfo \<Rightarrow> Parser \<Rightarrow> soe_call list \<times> Parser" where
  "processAnalogObjects fo header info parser =
     (let objectSize = GetObjectSize (ohGroup header) (ohVariation header) in
      if objectSize = 0 then ([], parser)
      else (case header_objects (analog_of fo (ohVariation header)) objectSize header parser of
              (values, parser1) \<Rightarrow> ([ProcessAnalog info values], parser1)))"

definition processCounterObjects :: "ObjectHeader \<Rightarrow> HeaderInfo \<Rightarrow> Parser \<Rightarrow> soe_call list \<times> Parser" where
  "processCounterObjects header info parser =
     (let objectSize = GetObjectSize (ohGroup header) (ohVariation header) in
      if objectSize = 0 then ([], parser)
      else (case header_objects (counter_of (ohVariation header)) objectSize header parser of
              (values, parser1) \<Rightarrow> ([ProcessCounter info values], parser1)))"

definition processBinaryOutputStatus ::
  "ObjectHeader \<Rightarrow> HeaderInfo \<Rightarrow> Parser \<Rightarrow> soe_call list \<times> Parser" where
  "processBinaryOutputStatus header info parser =
     (let size0 = GetObjectSize (ohGroup header) (ohVariation header);
          objectSize = (if size0 = 0 then 1 else size0)
      in case header_objects binary_output_of objectSize header parser of
           (values, parser1) \<Rightarrow> ([ProcessBinaryOutputStatus info values], parser1))"

definition processAnalogOutputStatus ::
  "float_ops \<Rightarrow> ObjectHeader \<Rightarrow> HeaderInfo \<Rightarrow> Parser \<Rightarrow> soe_call list \<times> Parser" where
  "processAnalogOutputStatus fo header info parser =
     (let objectSize = GetObjectSize (ohGroup header) (ohVariation header) in
      if objectSize = 0 then ([], parser)
      else (case header_objects (analog_output_of fo (ohVariation header)) objectSize header parser of
              (values, parser1) \<Rightarrow> ([ProcessAnalogOutputStatus info values], parser1)))"

definition header_info :: "ObjectHeader \<Rightarrow> HeaderInfo" where
  "header_info header =
     \<lparr>hiGroup = ohGroup header, hiVariation = ohVariation header, hiQualifier = ohQualifier header,
      hiIsEvent = isEventGroup (ohGroup header)\<rparr>"

definition process_group :: "float_ops \<Rightarrow> ObjectHeader \<Rightarrow> Parser \<Rightarrow> soe_call list \<times> Parser" where
  "process_group fo header parser =
     (let info = header_info header; grp = ohGroup header in
      if grp = 1 \<or> grp = 2 then processBinaryObjects header info parser
      else if grp = 30 \<or> grp = 32 then processAnalogObjects fo header info parser
      else if grp = 20 \<or> grp = 22 then processCounterObjects header info parser
      else if grp = 10 \<or> grp = 11 then processBinaryOutputStatus header info parser
      else if grp = 40 \<or> grp = 42 then processAnalogOutputStatus fo header info parser
      else let objectSize = GetObjectSize (ohGroup header) (ohVariation header)
           in ([], if objectSize > 0
                   then snd (Skip parser (unat (GetCount (ohRange header)) * objectSize)) else parser))"

section \<open>The loop over headers\<close>

lemma read_objects_forward:
  "read_objects conv width left idx p vs = (vs', p') \<Longrightarrow> psData p' = psData p \<and> psOffset p \<le> psOffset p'"
proof (induction left arbitrary: idx p vs)
  case 0
  then show ?case by simp
next
  case (Suc left)
  obtain r p1 where r: "ReadBytes p width = (r, p1)" by fastforce
  show ?case using Suc.prems Suc.IH r ReadBytes_advances [OF r] by (cases r) fastforce+
qed

lemma process_group_forward:
  assumes "process_group fo h p = (cs, p')"
  shows "psData p' = psData p \<and> psOffset p \<le> psOffset p'"
proof -
  have skip: "psData (snd (Skip p n)) = psData p \<and> psOffset p \<le> psOffset (snd (Skip p n))" for n
    by (rule Skip_advances)
  show ?thesis
    using assms skip
    by (auto simp: process_group_def processBinaryObjects_def processAnalogObjects_def
        processCounterObjects_def processBinaryOutputStatus_def processAnalogOutputStatus_def
        header_objects_def Let_def split: if_splits prod.splits dest: read_objects_forward)
qed

function measure_headers :: "float_ops \<Rightarrow> Parser \<Rightarrow> soe_call list \<Rightarrow> soe_call list" where
  "measure_headers fo parser calls =
     (if \<not> HasMore parser then calls
      else (case ReadObjectHeader parser of
              (Inl err, _) \<Rightarrow> calls
            | (Inr header, parser1) \<Rightarrow>
                if ValidateObjectHeader header \<noteq> None then measure_headers fo parser1 calls
                else (case process_group fo header parser1 of
                        (new, parser2) \<Rightarrow> measure_headers fo parser2 (calls @ new))))"
  by pat_completeness auto
termination measure_headers
proof (relation "measure (\<lambda>(fo, p, calls). length (psData p) - psOffset p)", goal_cases)
  case 1
  then show ?case by simp
next
  case (2 fo p calls r p1 h)
  then show ?case using header_read_shrinks [of p h p1] by simp
next
  case (3 fo p calls r p1 h new p2)
  then have "length (psData p1) - psOffset p1 < length (psData p) - psOffset p"
    using header_read_shrinks [of p h p1] by simp
  moreover have "psData p2 = psData p1 \<and> psOffset p1 \<le> psOffset p2"
    using process_group_forward [of fo h p1 new p2] 3 by simp
  ultimately show ?case by auto
qed

declare measure_headers.simps [simp del]

definition processMeasurements :: "float_ops \<Rightarrow> APDU \<Rightarrow> soe_call list" where
  "processMeasurements fo apdu =
     (let info = \<lparr>riUnsolicited = (apFunctionCode apdu = FuncUnsolicitedResponse),
                  riFIR = apFIR apdu, riFIN = apFIN apdu\<rparr>
      in OnBeginFragment info # measure_headers fo (NewParser (apObjects apdu)) [] @ [OnEndFragment info])"

section \<open>Objects that are all there\<close>

lemma read_objects_at:
  assumes "\<forall>d\<in>set ds. length d = width"
  shows "read_objects conv width (length ds) idx \<lparr>psData = pre @ concat ds @ rest, psOffset = length pre\<rparr> vs
    = (vs @ map (\<lambda>i. (ucast (idx + of_nat i), conv (ds ! i))) [0..<length ds],
       \<lparr>psData = (pre @ concat ds) @ rest, psOffset = length (pre @ concat ds)\<rparr>)"
  using assms
proof (induction ds arbitrary: idx pre vs)
  case Nil
  then show ?case by simp
next
  case (Cons d ds)
  have "ReadBytes \<lparr>psData = pre @ d @ concat ds @ rest, psOffset = length pre\<rparr> width
    = (Inr d, \<lparr>psData = pre @ d @ concat ds @ rest, psOffset = length pre + width\<rparr>)"
    using Cons.prems ReadBytes_at [of width d pre "concat ds @ rest"] by simp
  then have "read_objects conv width (length (d # ds)) idx
        \<lparr>psData = pre @ concat (d # ds) @ rest, psOffset = length pre\<rparr> vs
    = read_objects conv width (length ds) (idx + 1)
        \<lparr>psData = (pre @ d) @ concat ds @ rest, psOffset = length (pre @ d)\<rparr> (vs @ [(ucast idx, conv d)])"
    using Cons.prems by simp
  then show ?case
    using Cons.IH [of "idx + 1" "pre @ d" "vs @ [(ucast idx, conv d)]"] Cons.prems
    by (simp add: map_upt_Suc add.assoc add.commute [of 1] del: upt_Suc)
qed

end
