(* ===== verification/Task_Queue.thy ===== *)
theory Task_Queue
  imports Dnp_Base "HOL-Library.Multiset" "HOL-Library.Product_Lexorder"
begin

text \<open>
  The master's task queue (\<open>pkg/internal/queue/priority_queue.go\<close>): a binary heap in a slice,
  kept by the sift operations of Go's \<open>container/heap\<close>, ordered by the time a task is due and
  then by priority. Times are instants on a line, so \<open>Before\<close> is \<open><\<close> on integers. The theory
  proves the heap against the contract of a priority queue over multisets.
\<close>

section \<open>The heap\<close>

record 'v Item =
  itValue :: 'v
  itPriority :: int
  itNextRun :: int
  itIndex :: int

type_synonym 'v itemHeap = "'v Item list"

definition Less :: "'v itemHeap \<Rightarrow> nat \<Rightarrow> nat \<Rightarrow> bool" where
  "Less h i j =
     (if itNextRun (h ! i) < itNextRun (h ! j) then True
      else if itNextRun (h ! j) < itNextRun (h ! i) then False
      else itPriority (h ! i) > itPriority (h ! j))"

definition Swap :: "'v itemHeap \<Rightarrow> nat \<Rightarrow> nat \<Rightarrow> 'v itemHeap" where
  "Swap h i j = h[i := (h ! j)\<lparr>itIndex := int i\<rparr>, j := (h ! i)\<lparr>itIndex := int j\<rparr>]"

definition itemHeap_Push :: "'v itemHeap \<Rightarrow> 'v Item \<Rightarrow> 'v itemHeap" where
  "itemHeap_Push h item = h @ [item\<lparr>itIndex := int (length h)\<rparr>]"

definition itemHeap_Pop :: "'v itemHeap \<Rightarrow> 'v Item \<times> 'v itemHeap" where
  "itemHeap_Pop h = ((last h)\<lparr>itIndex := -1\<rparr>, butlast h)"

text \<open>The sift operations of \<open>container/heap\<close>; \<open>(j - 1) div 2\<close> is 0 for 0, as in Go.\<close>

function heap_up :: "'v itemHeap \<Rightarrow> nat \<Rightarrow> 'v itemHeap" where
  "heap_up h j = (let i = (j - 1) div 2 in
     if i = j \<or> \<not> Less h j i then h else heap_up (Swap h i j) i)"
  by pat_completeness auto
termination heap_up by (relation "measure snd") auto

function heap_down :: "'v itemHeap \<Rightarrow> nat \<Rightarrow> nat \<Rightarrow> 'v itemHeap" where
  "heap_down h i n = (let j1 = 2 * i + 1 in
     if n \<le> j1 then h
     else let j2 = j1 + 1; j = (if j2 < n \<and> Less h j2 j1 then j2 else j1) in
       if \<not> Less h j i then h else heap_down (Swap h i j) j n)"
  by pat_completeness auto
termination heap_down by (relation "measure (\<lambda>(h, i, n). n - i)") (auto simp: Let_def)

declare heap_up.simps [simp del] heap_down.simps [simp del]

definition heap_Push :: "'v itemHeap \<Rightarrow> 'v Item \<Rightarrow> 'v itemHeap" where
  "heap_Push h item = (let h1 = itemHeap_Push h item in heap_up h1 (length h1 - 1))"

definition heap_Pop :: "'v itemHeap \<Rightarrow> 'v Item \<times> 'v itemHeap" where
  "heap_Pop h = (let n = length h - 1 in itemHeap_Pop (heap_down (Swap h 0 n) 0 n))"

section \<open>The queue\<close>

record 'v PriorityQueue =
  pqItems :: "'v itemHeap"

definition NewPriorityQueue :: "'v PriorityQueue" where
  "NewPriorityQueue = \<lparr>pqItems = []\<rparr>"

definition PQ_Push :: "'v PriorityQueue \<Rightarrow> 'v \<Rightarrow> int \<Rightarrow> int \<Rightarrow> 'v PriorityQueue" where
  "PQ_Push pq value priority nextRun =
     pq\<lparr>pqItems := heap_Push (pqItems pq)
       \<lparr>itValue = value, itPriority = priority, itNextRun = nextRun, itIndex = 0\<rparr>\<rparr>"

definition PQ_Pop :: "'v PriorityQueue \<Rightarrow> 'v option \<times> 'v PriorityQueue" where
  "PQ_Pop pq =
     (if length (pqItems pq) = 0 then (None, pq)
      else (case heap_Pop (pqItems pq) of (item, h) \<Rightarrow> (Some (itValue item), pq\<lparr>pqItems := h\<rparr>)))"

definition Peek :: "'v PriorityQueue \<Rightarrow> 'v Item option" where
  "Peek pq = (if length (pqItems pq) = 0 then None else Some (pqItems pq ! 0))"

definition NextReady :: "'v PriorityQueue \<Rightarrow> int \<Rightarrow> 'v option \<times> 'v PriorityQueue" where
  "NextReady pq now =
     (if length (pqItems pq) = 0 then (None, pq)
      else if now < itNextRun (pqItems pq ! 0) then (None, pq)
      else (case heap_Pop (pqItems pq) of (item, h) \<Rightarrow> (Some (itValue item), pq\<lparr>pqItems := h\<rparr>)))"

definition Reschedule :: "'v PriorityQueue \<Rightarrow> 'v \<Rightarrow> int \<Rightarrow> int \<Rightarrow> 'v PriorityQueue" where
  "Reschedule pq value priority nextRun = PQ_Push pq value priority nextRun"

definition PQ_Len :: "'v PriorityQueue \<Rightarrow> nat" where
  "PQ_Len pq = length (pqItems pq)"

definition PQ_Clear :: "'v PriorityQueue \<Rightarrow> 'v PriorityQueue" where
  "PQ_Clear pq = pq\<lparr>pqItems := []\<rparr>"

section \<open>Keys and contents\<close>

text \<open>Smaller keys run first: earlier times, then higher priorities.\<close>

type_synonym 'v entry = "'v \<times> int \<times> int"

definition entry :: "'v Item \<Rightarrow> 'v entry" where
  "entry it = (itValue it, itPriority it, itNextRun it)"

definition entry_key :: "'v entry \<Rightarrow> int \<times> int" where
  "entry_key e = (case e of (v, p, t) \<Rightarrow> (t, - p))"

definition key :: "'v Item \<Rightarrow> int \<times> int" where
  "key it = entry_key (entry it)"

definition contents :: "'v itemHeap \<Rightarrow> 'v entry multiset" where
  "contents h = mset (map entry h)"

lemma key_eq: "key it = (itNextRun it, - itPriority it)"
  by (simp add: key_def entry_def entry_key_def)

lemma key_index [simp]: "key (it\<lparr>itIndex := i\<rparr>) = key it" "entry (it\<lparr>itIndex := i\<rparr>) = entry it"
  by (simp_all add: key_def entry_def)

lemma Less_key: "Less h i j \<longleftrightarrow> key (h ! i) < key (h ! j)"
  by (auto simp: Less_def key_eq)

lemma Swap_length [simp]: "length (Swap h i j) = length h"
  by (simp add: Swap_def)

lemma Swap_key:
  "i < length h \<Longrightarrow> j < length h \<Longrightarrow> k < length h \<Longrightarrow>
    key (Swap h i j ! k) = (if k = i then key (h ! j) else if k = j then key (h ! i) else key (h ! k))"
  by (auto simp: Swap_def nth_list_update)

lemma Swap_contents: "i < length h \<Longrightarrow> j < length h \<Longrightarrow> contents (Swap h i j) = contents h"
proof -
  assume "i < length h" "j < length h"
  then have "map entry (Swap h i j) = (map entry h)[i := map entry h ! j, j := map entry h ! i]"
    by (simp add: Swap_def map_update)
  then show ?thesis
    using \<open>i < length h\<close> \<open>j < length h\<close> unfolding contents_def by (metis length_map mset_swap)
qed

text \<open>The indices the items carry, and the order of the first \<open>n\<close> items.\<close>

definition indexed :: "'v itemHeap \<Rightarrow> bool" where
  "indexed h \<longleftrightarrow> (\<forall>i<length h. itIndex (h ! i) = int i)"

definition parent :: "nat \<Rightarrow> nat" where
  "parent i = (i - 1) div 2"

definition above :: "'v itemHeap \<Rightarrow> nat \<Rightarrow> nat \<Rightarrow> bool" where
  "above h i j \<longleftrightarrow> key (h ! i) \<le> key (h ! j)"

definition ordered_upto :: "'v itemHeap \<Rightarrow> nat \<Rightarrow> bool" where
  "ordered_upto h n \<longleftrightarrow> (\<forall>i. 0 < i \<and> i < n \<longrightarrow> above h (parent i) i)"

lemma Swap_indexed: "i < length h \<Longrightarrow> j < length h \<Longrightarrow> indexed h \<Longrightarrow> indexed (Swap h i j)"
  by (auto simp: indexed_def Swap_def nth_list_update)

lemma parent_less: "0 < i \<Longrightarrow> parent i < i"
  by (simp add: parent_def)

lemma root_least:
  assumes "ordered_upto h n" and "i < n"
  shows "above h 0 i"
  using assms(2)
proof (induction i rule: less_induct)
  case (less i)
  show ?case
  proof (cases "i = 0")
    case True
    then show ?thesis by (simp add: above_def)
  next
    case False
    then have "above h 0 (parent i)" "above h (parent i) i"
      using less parent_less [of i] assms(1) by (auto simp: ordered_upto_def)
    then show ?thesis by (auto simp: above_def)
  qed
qed

section \<open>The sift operations\<close>

definition up_ok :: "'v itemHeap \<Rightarrow> nat \<Rightarrow> bool" where
  "up_ok h j \<longleftrightarrow> (\<forall>i. 0 < i \<and> i < length h \<and> i \<noteq> j \<longrightarrow> above h (parent i) i)
     \<and> (\<forall>i. 0 < j \<and> i < length h \<and> parent i = j \<longrightarrow> above h (parent j) i)"

lemma heap_up_step:
  assumes "up_ok h j" and "j < length h" and "0 < j" and "Less h j (parent j)"
  shows "up_ok (Swap h (parent j) j) (parent j)"
proof -
  let ?i = "parent j"
  have ij: "?i < j" using assms(3) by (rule parent_less)
  have len: "?i < length h" using ij assms(2) by simp
  note key = Swap_key [OF len assms(2)]
  have lt: "key (h ! j) < key (h ! ?i)" using assms(4) by (simp add: Less_key)
  have 1: "above (Swap h ?i j) (parent k) k" if "0 < k" "k < length h" "k \<noteq> ?i" for k
  proof -
    have old: "k \<noteq> j \<Longrightarrow> key (h ! parent k) \<le> key (h ! k)"
      "parent k = j \<Longrightarrow> key (h ! ?i) \<le> key (h ! k)"
      using assms(1,3) that by (auto simp: up_ok_def above_def)
    have "parent k < k" using that(1) by (rule parent_less)
    then show ?thesis using key [of "parent k"] key [of k] old lt ij that assms(2)
      by (cases "k = j"; cases "parent k = j"; cases "parent k = ?i") (auto simp: above_def)
  qed
  have 2: "above (Swap h ?i j) (parent ?i) k" if "0 < ?i" "k < length h" "parent k = ?i" for k
  proof -
    have "parent ?i < ?i" using that(1) by (rule parent_less)
    moreover have "key (h ! parent ?i) \<le> key (h ! ?i)"
      using assms(1,2) that(1) ij by (auto simp: up_ok_def above_def)
    moreover have "0 < k" using that by (cases k) (auto simp: parent_def)
    moreover have "k \<noteq> j \<Longrightarrow> key (h ! ?i) \<le> key (h ! k)"
      using assms(1) that \<open>0 < k\<close> by (auto simp: up_ok_def above_def)
    ultimately show ?thesis using key [of "parent ?i"] key [of k] ij that assms(2) parent_less [of k]
      by (cases "k = j") (auto simp: above_def)
  qed
  show ?thesis using 1 2 by (simp add: up_ok_def)
qed

lemma heap_up_ok:
  assumes "up_ok h j" and "j < length h" and "indexed h"
  shows "ordered_upto (heap_up h j) (length h) \<and> length (heap_up h j) = length h
    \<and> contents (heap_up h j) = contents h \<and> indexed (heap_up h j)"
  using assms
proof (induction h j rule: heap_up.induct)
  case (1 h j)
  let ?i = "parent j"
  show ?case
  proof (cases "?i = j \<or> \<not> Less h j ?i")
    case True
    then have "heap_up h j = h" by (subst heap_up.simps) (simp add: parent_def Let_def)
    moreover have "ordered_upto h (length h)"
      using True "1.prems"(1) parent_less
      by (fastforce simp: ordered_upto_def up_ok_def above_def Less_key not_less)
    ultimately show ?thesis using "1.prems" by simp
  next
    case False
    then have j: "0 < j" by (cases j) (auto simp: parent_def)
    then have i: "?i < length h" using parent_less [of j] "1.prems"(2) by simp
    have "heap_up h j = heap_up (Swap h ?i j) ?i"
      using False by (subst heap_up.simps) (simp add: parent_def Let_def)
    moreover have "up_ok (Swap h ?i j) ?i" using heap_up_step "1.prems" False j by blast
    ultimately show ?thesis
      using "1.IH" [of ?i] False i "1.prems"
      by (simp add: parent_def Swap_contents Swap_indexed)
  qed
qed

definition down_ok :: "'v itemHeap \<Rightarrow> nat \<Rightarrow> nat \<Rightarrow> bool" where
  "down_ok h i n \<longleftrightarrow> (\<forall>k. 0 < k \<and> k < n \<and> parent k \<noteq> i \<longrightarrow> above h (parent k) k)
     \<and> (\<forall>k. 0 < i \<and> 0 < k \<and> k < n \<and> parent k = i \<longrightarrow> above h (parent i) k)"

lemma parent_iff: "0 < k \<Longrightarrow> parent k = i \<longleftrightarrow> k = 2 * i + 1 \<or> k = 2 * i + 2"
  by (auto simp: parent_def)

text \<open>The child the code compares with: the smaller one.\<close>

definition least_child :: "'v itemHeap \<Rightarrow> nat \<Rightarrow> nat \<Rightarrow> nat" where
  "least_child h i n =
     (if 2 * i + 2 < n \<and> Less h (2 * i + 2) (2 * i + 1) then 2 * i + 2 else 2 * i + 1)"

lemma least_child:
  assumes "2 * i + 1 < n"
  shows "i < least_child h i n" "least_child h i n < n" "parent (least_child h i n) = i"
    "0 < k \<Longrightarrow> k < n \<Longrightarrow> parent k = i \<Longrightarrow> key (h ! least_child h i n) \<le> key (h ! k)"
  using assms by (auto simp: least_child_def parent_iff Less_key)

lemma heap_down_eq:
  "heap_down h i n = (if n \<le> 2 * i + 1 \<or> \<not> Less h (least_child h i n) i then h
     else heap_down (Swap h i (least_child h i n)) (least_child h i n) n)"
  by (subst heap_down.simps) (simp add: least_child_def Let_def)

lemma heap_down_step:
  assumes "down_ok h i n" and "n \<le> length h" and "2 * i + 1 < n" and "Less h (least_child h i n) i"
  shows "down_ok (Swap h i (least_child h i n)) (least_child h i n) n"
proof -
  define j where "j = least_child h i n"
  note j = least_child [OF assms(3), where h = h, folded j_def]
  have len: "j < length h" "i < length h" using j assms(2) by simp_all
  note key = Swap_key [OF len(2,1)]
  have lt: "key (h ! j) < key (h ! i)" using assms(4) by (simp add: Less_key j_def)
  have 1: "above (Swap h i j) (parent k) k" if "0 < k" "k < n" "parent k \<noteq> j" for k
  proof -
    have old: "parent k \<noteq> i \<Longrightarrow> key (h ! parent k) \<le> key (h ! k)"
      using assms(1) that by (auto simp: down_ok_def above_def)
    have up: "k = i \<Longrightarrow> key (h ! parent i) \<le> key (h ! j)"
      using assms(1) that j by (auto simp: down_ok_def above_def)
    have "parent k < k" using that(1) by (rule parent_less)
    then show ?thesis using key [of "parent k"] key [of k] old up lt j(1,3) j(4) [of k] that assms(2)
      by (cases "k = j"; cases "parent k = i"; cases "k = i") (auto simp: above_def)
  qed
  have 2: "above (Swap h i j) (parent j) k" if "0 < k" "k < n" "parent k = j" for k
  proof -
    have "key (h ! j) \<le> key (h ! k)" using assms(1) that j(1) by (auto simp: down_ok_def above_def)
    then show ?thesis using key [of i] key [of k] j that assms(2) parent_less [of k] by (auto simp: above_def)
  qed
  show ?thesis using 1 2 by (simp add: down_ok_def j_def)
qed

lemma heap_down_ok:
  assumes "down_ok h i n" and "n \<le> length h" and "indexed h"
  shows "ordered_upto (heap_down h i n) n \<and> length (heap_down h i n) = length h
    \<and> contents (heap_down h i n) = contents h \<and> indexed (heap_down h i n)
    \<and> (\<forall>k. n \<le> k \<longrightarrow> heap_down h i n ! k = h ! k)"
  using assms
proof (induction "n - i" arbitrary: h i rule: less_induct)
  case less
  show ?case
  proof (cases "n \<le> 2 * i + 1 \<or> \<not> Less h (least_child h i n) i")
    case True
    then have "heap_down h i n = h" by (simp add: heap_down_eq)
    moreover have "above h (parent k) k" if "0 < k" "k < n" for k
      using True less.prems(1) that least_child(4) [of i n k, where h = h]
      by (cases "parent k = i") (auto simp: down_ok_def above_def Less_key not_less parent_iff)
    ultimately show ?thesis using less.prems by (simp add: ordered_upto_def)
  next
    case False
    then have c: "2 * i + 1 < n" by simp
    note j = least_child [OF c, where h = h]
    have len: "least_child h i n < length h" "i < length h" using j less.prems(2) by simp_all
    have "n - least_child h i n < n - i" using j by simp
    moreover have "down_ok (Swap h i (least_child h i n)) (least_child h i n) n"
      using heap_down_step less.prems c False by blast
    ultimately show ?thesis
      using less.hyps [of "least_child h i n" "Swap h i (least_child h i n)"] less.prems len False j
      by (subst (1 2 3 4 5) heap_down_eq) (simp add: Swap_contents Swap_indexed, simp add: Swap_def)
  qed
qed

section \<open>Push and Pop\<close>

definition heap_ok :: "'v itemHeap \<Rightarrow> bool" where
  "heap_ok h \<longleftrightarrow> ordered_upto h (length h) \<and> indexed h"

lemma heap_ok_Nil [simp]: "heap_ok []"
  by (simp add: heap_ok_def ordered_upto_def indexed_def)

lemma contents_simps [simp]:
  "contents [] = {#}" "contents (h @ [it]) = add_mset (entry it) (contents h)"
  "contents (it # h) = add_mset (entry it) (contents h)"
  by (simp_all add: contents_def)

lemma size_contents [simp]: "size (contents h) = length h"
  by (simp add: contents_def)

lemma heap_Push_ok:
  assumes "heap_ok h"
  shows "heap_ok (heap_Push h item)" and "contents (heap_Push h item) = add_mset (entry item) (contents h)"
proof -
  let ?h1 = "itemHeap_Push h item"
  have nth: "k < length h \<Longrightarrow> ?h1 ! k = h ! k" for k by (simp add: itemHeap_Push_def nth_append)
  have "above ?h1 (parent k) k" if "0 < k" "k < length h" for k
    using that assms parent_less [of k] nth [of k] nth [of "parent k"]
    by (simp add: heap_ok_def ordered_upto_def above_def)
  moreover have "parent k \<noteq> length h" if "0 < length h" "k < Suc (length h)" for k
    using that parent_less [of k] by (cases "k = 0") (auto simp: parent_def)
  ultimately have "up_ok ?h1 (length h)"
    unfolding up_ok_def by (auto simp: itemHeap_Push_def less_Suc_eq)
  moreover have "indexed ?h1"
    using assms by (auto simp: heap_ok_def indexed_def itemHeap_Push_def nth_append less_Suc_eq)
  moreover have "contents ?h1 = add_mset (entry item) (contents h)" by (simp add: itemHeap_Push_def)
  ultimately have "heap_ok (heap_up ?h1 (length h)) \<and> contents (heap_up ?h1 (length h)) = add_mset (entry item) (contents h)"
    using heap_up_ok [of ?h1 "length h"] by (simp add: itemHeap_Push_def heap_ok_def)
  moreover have "heap_Push h item = heap_up ?h1 (length h)"
    by (simp add: heap_Push_def itemHeap_Push_def Let_def)
  ultimately show "heap_ok (heap_Push h item)"
    "contents (heap_Push h item) = add_mset (entry item) (contents h)" by simp_all
qed

lemma heap_Pop_ok:
  assumes "heap_ok h" and "h \<noteq> []" and "heap_Pop h = (item, h')"
  shows "heap_ok h'" and "entry item = entry (h ! 0)" and "contents h = add_mset (entry (h ! 0)) (contents h')"
proof -
  define n where "n = length h - 1"
  have n: "length h = Suc n" using assms(2) by (simp add: n_def)
  let ?h1 = "Swap h 0 n" and ?h2 = "heap_down (Swap h 0 n) 0 n"
  have "above ?h1 (parent k) k" if "0 < k" "k < n" "parent k \<noteq> 0" for k
    using that assms(1) n parent_less [of k] Swap_key [of 0 h n k] Swap_key [of 0 h n "parent k"]
    by (auto simp: heap_ok_def ordered_upto_def above_def)
  then have "down_ok ?h1 0 n" by (simp add: down_ok_def)
  then have h2: "ordered_upto ?h2 n" "length ?h2 = Suc n" "contents ?h2 = contents h" "indexed ?h2"
    "?h2 ! n = ?h1 ! n"
    using heap_down_ok [of ?h1 0 n] n assms(1) by (simp_all add: heap_ok_def Swap_contents Swap_indexed)
  have "last ?h2 = ?h1 ! n" using h2(2,5) by (metis diff_Suc_1 last_conv_nth length_0_conv nat.distinct(1))
  then have e: "entry (last ?h2) = entry (h ! 0)" using n by (simp add: Swap_def nth_list_update)
  have pop: "item = (last ?h2)\<lparr>itIndex := -1\<rparr>" "h' = butlast ?h2"
    using assms(3) by (simp_all add: heap_Pop_def itemHeap_Pop_def n_def Let_def)
  have nth: "k < n \<Longrightarrow> h' ! k = ?h2 ! k" for k using pop(2) h2(2) by (simp add: nth_butlast)
  have len: "length h' = n" using pop(2) h2(2) by simp
  have "above h' (parent k) k" if "0 < k" "k < n" for k
    using h2(1) that parent_less [of k] nth [of k] nth [of "parent k"] by (simp add: ordered_upto_def above_def)
  moreover have "indexed h'" using h2(2,4) nth len by (simp add: indexed_def)
  ultimately show "heap_ok h'" using len by (simp add: heap_ok_def ordered_upto_def)
  show "entry item = entry (h ! 0)" using pop(1) e by simp
  have "?h2 = h' @ [last ?h2]" using pop(2) h2(2) by (metis append_butlast_last_id length_0_conv nat.distinct(1))
  then show "contents h = add_mset (entry (h ! 0)) (contents h')" using h2(3) e contents_simps(2) by metis
qed

lemma root_entry_least:
  assumes "heap_ok h" and "e \<in># contents h"
  shows "entry_key (entry (h ! 0)) \<le> entry_key e"
proof -
  obtain i where "i < length h" "e = entry (h ! i)"
    using assms(2) by (auto simp: contents_def in_set_conv_nth)
  then show ?thesis
    using root_least [of h "length h" i] assms(1) by (simp add: heap_ok_def above_def key_def)
qed

section \<open>The contract of a priority queue\<close>

text \<open>Taking out up to \<open>n\<close> elements.\<close>

fun take_out :: "('q \<Rightarrow> ('e \<times> 'q) option) \<Rightarrow> nat \<Rightarrow> 'q \<Rightarrow> 'e list \<times> 'q" where
  "take_out remove 0 q = ([], q)"
| "take_out remove (Suc n) q =
     (case remove q of
        None \<Rightarrow> ([], q)
      | Some (e, q') \<Rightarrow> (case take_out remove n q' of (es, q'') \<Rightarrow> (e # es, q'')))"

locale priority_queue =
  fixes ok :: "'q \<Rightarrow> bool" and elems :: "'q \<Rightarrow> 'e multiset" and rank :: "'e \<Rightarrow> 'k::linorder"
    and empty :: 'q and insert :: "'e \<Rightarrow> 'q \<Rightarrow> 'q" and remove :: "'q \<Rightarrow> ('e \<times> 'q) option"
  assumes ok_empty: "ok empty"
    and elems_empty: "elems empty = {#}"
    and ok_insert: "ok q \<Longrightarrow> ok (insert e q)"
    and elems_insert: "ok q \<Longrightarrow> elems (insert e q) = add_mset e (elems q)"
    and remove_None: "ok q \<Longrightarrow> remove q = None \<longleftrightarrow> elems q = {#}"
    and remove_Some: "ok q \<Longrightarrow> remove q = Some (e, q') \<Longrightarrow> ok q' \<and> elems q = add_mset e (elems q')"
    and remove_least: "ok q \<Longrightarrow> remove q = Some (e, q') \<Longrightarrow> x \<in># elems q \<Longrightarrow> rank e \<le> rank x"
begin

lemma take_out_contents:
  "ok q \<Longrightarrow> take_out remove n q = (es, q') \<Longrightarrow>
    ok q' \<and> elems q = mset es + elems q' \<and> length es = min n (size (elems q))"
proof (induction n arbitrary: q es)
  case 0
  then show ?case by simp
next
  case (Suc n)
  show ?case
  proof (cases "remove q")
    case None
    with remove_None [OF Suc.prems(1)] have "elems q = {#}" by simp
    with None Suc.prems show ?thesis by simp
  next
    case (Some r)
    obtain e q1 where r: "r = (e, q1)" by fastforce
    define es1 where "es1 = fst (take_out remove n q1)"
    have es1: "take_out remove n q1 = (es1, q')" "es = e # es1"
      using Suc.prems(2) Some r by (simp_all add: split_beta prod_eq_iff es1_def)
    have q1: "ok q1" "elems q = add_mset e (elems q1)"
      using remove_Some [OF Suc.prems(1), of e q1] Some r by simp_all
    from Suc.IH [OF q1(1) es1(1)]
    have IH: "ok q'" "elems q1 = mset es1 + elems q'" "length es1 = min n (size (elems q1))" by blast+
    have "length es = min (Suc n) (size (elems q))" unfolding es1(2) q1(2) list.size IH(3) by simp
    moreover have "elems q = mset es + elems q'" unfolding es1(2) q1(2) IH(2) by simp
    ultimately show ?thesis using IH(1) by blast
  qed
qed

lemma take_out_sorted:
  "ok q \<Longrightarrow> take_out remove n q = (es, q') \<Longrightarrow>
    sorted (map rank es) \<and> (\<forall>e\<in>set es. \<forall>x\<in>#elems q'. rank e \<le> rank x)"
proof (induction n arbitrary: q es)
  case 0
  then show ?case by simp
next
  case (Suc n)
  show ?case
  proof (cases "remove q")
    case None
    then show ?thesis using Suc.prems by simp
  next
    case (Some r)
    obtain e q1 where r: "r = (e, q1)" by fastforce
    define es1 where "es1 = fst (take_out remove n q1)"
    have es1: "take_out remove n q1 = (es1, q')" "es = e # es1"
      using Suc.prems(2) Some r by (simp_all add: split_beta prod_eq_iff es1_def)
    have q1: "ok q1" "elems q = add_mset e (elems q1)"
      using remove_Some [OF Suc.prems(1), of e q1] Some r by simp_all
    have "\<forall>x\<in>set es1 \<union> set_mset (elems q'). rank e \<le> rank x"
      using take_out_contents [OF q1(1) es1(1)] remove_least [of q e q1] Suc.prems(1) Some r q1(2) by auto
    then show ?thesis using Suc.IH [OF q1(1) es1(1)] es1(2) by simp
  qed
qed

lemma insert_take_out:
  assumes "take_out remove (length es) (fold insert es empty) = (es', q')"
  shows "mset es' = mset es \<and> sorted (map rank es')"
proof -
  have fold: "ok q \<Longrightarrow> ok (fold insert es q) \<and> elems (fold insert es q) = mset es + elems q" for q
    by (induction es arbitrary: q) (auto simp: ok_insert elems_insert)
  from fold [OF ok_empty] have q: "ok (fold insert es empty)" "elems (fold insert es empty) = mset es"
    by (simp_all add: elems_empty)
  from take_out_contents [OF q(1) assms] q(2) have "size (elems q') = 0" "mset es = mset es' + elems q'"
    by (auto dest: arg_cong [where f = size])
  with take_out_sorted [OF q(1) assms] show ?thesis by simp
qed

end

text \<open>The code's queue: what \<open>Peek\<close> shows is what \<open>Pop\<close> takes out.\<close>

definition push_entry :: "'v entry \<Rightarrow> 'v PriorityQueue \<Rightarrow> 'v PriorityQueue" where
  "push_entry e pq = (case e of (v, p, t) \<Rightarrow> PQ_Push pq v p t)"

definition pop_entry :: "'v PriorityQueue \<Rightarrow> ('v entry \<times> 'v PriorityQueue) option" where
  "pop_entry pq = (case Peek pq of None \<Rightarrow> None | Some item \<Rightarrow> Some (entry item, snd (PQ_Pop pq)))"

lemma entry_simps [simp]:
  "entry \<lparr>itValue = v, itPriority = p, itNextRun = t, itIndex = i\<rparr> = (v, p, t)"
  by (simp add: entry_def)

lemma entry_collapse: "(itValue it, itPriority it, itNextRun it) = entry it"
  by (simp add: entry_def)

definition pq_ok :: "'v PriorityQueue \<Rightarrow> bool" where
  "pq_ok pq \<longleftrightarrow> heap_ok (pqItems pq)"

definition pq_contents :: "'v PriorityQueue \<Rightarrow> 'v entry multiset" where
  "pq_contents pq = contents (pqItems pq)"

lemma pop_entry_Some:
  assumes "pq_ok pq" and "pqItems pq \<noteq> []"
  shows "\<exists>pq'. PQ_Pop pq = (Some (itValue (pqItems pq ! 0)), pq') \<and> pq_ok pq'
    \<and> pq_contents pq = add_mset (entry (pqItems pq ! 0)) (pq_contents pq')"
proof -
  obtain item h where pop: "heap_Pop (pqItems pq) = (item, h)" by fastforce
  note ok = heap_Pop_ok [OF assms(1) [unfolded pq_ok_def] assms(2) pop]
  have "itValue item = itValue (pqItems pq ! 0)" using ok(2) by (simp add: entry_def)
  with ok pop assms(2) show ?thesis by (simp add: PQ_Pop_def pq_ok_def pq_contents_def)
qed

interpretation task_queue: priority_queue pq_ok pq_contents entry_key NewPriorityQueue push_entry pop_entry
proof unfold_locales
  fix pq pq' :: "'v PriorityQueue" and e x
  show "pq_ok (NewPriorityQueue :: 'v PriorityQueue)" by (simp add: pq_ok_def NewPriorityQueue_def)
  show "pq_contents (NewPriorityQueue :: 'v PriorityQueue) = {#}"
    by (simp add: pq_contents_def NewPriorityQueue_def)
  show "pq_ok pq \<Longrightarrow> pq_ok (push_entry e pq)" "pq_ok pq \<Longrightarrow> pq_contents (push_entry e pq) = add_mset e (pq_contents pq)"
    by (cases e; simp add: push_entry_def PQ_Push_def pq_ok_def pq_contents_def heap_Push_ok)+
  show "pq_ok pq \<Longrightarrow> pop_entry pq = None \<longleftrightarrow> pq_contents pq = {#}"
    by (simp add: pop_entry_def Peek_def pq_contents_def contents_def)
  show "pq_ok pq' \<and> pq_contents pq = add_mset e (pq_contents pq')" if "pq_ok pq" "pop_entry pq = Some (e, pq')"
    using that pop_entry_Some [of pq] by (auto simp: pop_entry_def Peek_def split: if_splits)
  show "entry_key e \<le> entry_key x" if "pq_ok pq" "pop_entry pq = Some (e, pq')" "x \<in># pq_contents pq"
    using that root_entry_least [of "pqItems pq" x]
    by (auto simp: pop_entry_def Peek_def pq_ok_def pq_contents_def split: if_splits)
qed

section \<open>The queue as a multiset\<close>

datatype 'v queue_op = QPush 'v int int | QPop | QNextReady int | QLen | QClear

text \<open>What an operation returns: a value, nothing, or a length.\<close>

datatype 'v queue_out = Done | Got "'v option" | Count nat

definition queue_op :: "'v PriorityQueue \<Rightarrow> 'v queue_op \<Rightarrow> 'v queue_out \<times> 'v PriorityQueue" where
  "queue_op pq op =
     (case op of
        QPush v p t \<Rightarrow> (Done, PQ_Push pq v p t)
      | QPop \<Rightarrow> (case PQ_Pop pq of (r, pq') \<Rightarrow> (Got r, pq'))
      | QNextReady now \<Rightarrow> (case NextReady pq now of (r, pq') \<Rightarrow> (Got r, pq'))
      | QLen \<Rightarrow> (Count (PQ_Len pq), pq)
      | QClear \<Rightarrow> (Done, PQ_Clear pq))"

fun queue_run :: "'v PriorityQueue \<Rightarrow> 'v queue_op list \<Rightarrow> 'v queue_out list \<times> 'v PriorityQueue" where
  "queue_run pq [] = ([], pq)"
| "queue_run pq (op # ops) =
     (case queue_op pq op of (r, pq1) \<Rightarrow> (case queue_run pq1 ops of (rs, pq2) \<Rightarrow> (r # rs, pq2)))"

text \<open>
  The specification: a multiset of values with a priority and a time. The entry taken out is
  one with the least time and, among those, the greatest priority.
\<close>

definition due :: "int \<Rightarrow> 'v entry \<Rightarrow> bool" where
  "due now e \<longleftrightarrow> snd (snd e) \<le> now"

definition runs_first :: "'v entry multiset \<Rightarrow> 'v entry \<Rightarrow> bool" where
  "runs_first M e \<longleftrightarrow> (\<forall>x\<in>#M. snd (snd e) < snd (snd x)
     \<or> snd (snd e) = snd (snd x) \<and> fst (snd x) \<le> fst (snd e))"

definition takes :: "'v entry multiset \<Rightarrow> 'v \<Rightarrow> 'v entry multiset \<Rightarrow> bool" where
  "takes M v M' \<longleftrightarrow> (\<exists>p t. M = add_mset (v, p, t) M' \<and> runs_first M (v, p, t))"

definition spec_op :: "'v entry multiset \<Rightarrow> 'v queue_op \<Rightarrow> 'v queue_out \<Rightarrow> 'v entry multiset \<Rightarrow> bool" where
  "spec_op M op r M' =
     (case op of
        QPush v p t \<Rightarrow> r = Done \<and> M' = add_mset (v, p, t) M
      | QPop \<Rightarrow> if M = {#} then r = Got None \<and> M' = {#} else \<exists>v. r = Got (Some v) \<and> takes M v M'
      | QNextReady now \<Rightarrow>
          if \<exists>e\<in>#M. due now e then \<exists>v. r = Got (Some v) \<and> takes M v M' else r = Got None \<and> M' = M
      | QLen \<Rightarrow> r = Count (size M) \<and> M' = M
      | QClear \<Rightarrow> r = Done \<and> M' = {#})"

fun spec_run :: "'v entry multiset \<Rightarrow> 'v queue_op list \<Rightarrow> 'v queue_out list \<Rightarrow> 'v entry multiset \<Rightarrow> bool" where
  "spec_run M [] rs M' \<longleftrightarrow> rs = [] \<and> M' = M"
| "spec_run M (op # ops) rs M' \<longleftrightarrow> (\<exists>r rs' M1. rs = r # rs' \<and> spec_op M op r M1 \<and> spec_run M1 ops rs' M')"

lemma runs_first_root:
  assumes "heap_ok h" and "h \<noteq> []"
  shows "runs_first (contents h) (entry (h ! 0))"
  using root_entry_least [OF assms(1)] by (fastforce simp: runs_first_def entry_key_def entry_def)

lemma takes_root:
  assumes "pq_ok pq" and "pqItems pq \<noteq> []" and "PQ_Pop pq = (r, pq')"
  shows "\<exists>v. r = Some v \<and> takes (pq_contents pq) v (pq_contents pq') \<and> pq_ok pq'"
proof -
  from pop_entry_Some [OF assms(1,2)] assms(3)
  have "r = Some (itValue (pqItems pq ! 0))" "pq_ok pq'"
    "pq_contents pq = add_mset (entry (pqItems pq ! 0)) (pq_contents pq')" by auto
  moreover have "runs_first (pq_contents pq) (entry (pqItems pq ! 0))"
    using runs_first_root [of "pqItems pq"] assms(1,2) by (simp add: pq_ok_def pq_contents_def)
  ultimately show ?thesis by (auto simp: takes_def entry_def)
qed

lemma NextReady_pop:
  "pqItems pq \<noteq> [] \<Longrightarrow> itNextRun (pqItems pq ! 0) \<le> now \<Longrightarrow> NextReady pq now = PQ_Pop pq"
  by (simp add: NextReady_def PQ_Pop_def)

lemma root_due:
  assumes "pq_ok pq" and "e \<in># pq_contents pq" and "due now e"
  shows "itNextRun (pqItems pq ! 0) \<le> now"
  using root_entry_least [of "pqItems pq" e] assms
  by (cases e) (auto simp: pq_ok_def pq_contents_def due_def entry_key_def entry_def)

lemma queue_op_spec:
  assumes "pq_ok pq" and "queue_op pq op = (r, pq')"
  shows "pq_ok pq' \<and> spec_op (pq_contents pq) op r (pq_contents pq')"
proof -
  have empty: "pq_contents pq = {#} \<longleftrightarrow> pqItems pq = []" by (simp add: pq_contents_def contents_def)
  show ?thesis
  proof (cases op)
    case (QPush v p t)
    then show ?thesis using assms task_queue.ok_insert [OF assms(1), of "(v, p, t)"]
        task_queue.elems_insert [OF assms(1), of "(v, p, t)"]
      by (auto simp: queue_op_def spec_op_def push_entry_def)
  next
    case QPop
    then show ?thesis
      using assms takes_root [OF assms(1), of "fst (PQ_Pop pq)" "snd (PQ_Pop pq)"] empty
      by (cases "pqItems pq = []") (auto simp: queue_op_def spec_op_def PQ_Pop_def split: prod.splits)
  next
    case (QNextReady now)
    show ?thesis
    proof (cases "\<exists>e\<in>#pq_contents pq. due now e")
      case True
      then have "pqItems pq \<noteq> []" "NextReady pq now = PQ_Pop pq"
        using root_due [OF assms(1)] NextReady_pop [of pq now] empty by auto
      with True assms QNextReady takes_root [OF assms(1), of "fst (PQ_Pop pq)" "snd (PQ_Pop pq)"]
      show ?thesis by (auto simp: queue_op_def spec_op_def split: prod.splits)
    next
      case False
      have "now < itNextRun (pqItems pq ! 0)" if "pqItems pq \<noteq> []"
      proof -
        have "entry (pqItems pq ! 0) \<in># pq_contents pq"
          using that by (simp add: pq_contents_def contents_def)
        with False show ?thesis by (auto simp: due_def entry_def)
      qed
      then have "NextReady pq now = (None, pq)" by (simp add: NextReady_def)
      with False assms QNextReady show ?thesis by (auto simp: queue_op_def spec_op_def)
    qed
  next
    case QLen
    then show ?thesis using assms by (auto simp: queue_op_def spec_op_def PQ_Len_def pq_contents_def)
  next
    case QClear
    then show ?thesis using assms by (auto simp: queue_op_def spec_op_def PQ_Clear_def pq_contents_def pq_ok_def)
  qed
qed

lemma queue_run_spec:
  "pq_ok pq \<Longrightarrow> queue_run pq ops = (rs, pq') \<Longrightarrow>
    pq_ok pq' \<and> spec_run (pq_contents pq) ops rs (pq_contents pq')"
proof (induction ops arbitrary: pq rs)
  case Nil
  then show ?case by simp
next
  case (Cons op ops)
  obtain r pq1 where o: "queue_op pq op = (r, pq1)" by fastforce
  obtain rs1 where rs: "queue_run pq1 ops = (rs1, pq')" "rs = r # rs1"
    using Cons.prems(2) o by (auto split: prod.splits)
  from queue_op_spec [OF Cons.prems(1) o] Cons.IH [OF _ rs(1)] rs(2) show ?case by auto
qed

section \<open>Properties\<close>

text \<open>
  C30: the heap implements a queue ordered by time. From a new queue, any sequence of pushes,
  pops, polls for a ready task, length queries and clears returns what the multiset
  specification allows: a pop takes out an entry with the earliest time and the greatest
  priority among those, a poll does so exactly when some entry is due and otherwise leaves the
  queue alone, and nothing is ever lost, duplicated or invented.
\<close>

theorem task_queue_refines:
  "case queue_run NewPriorityQueue ops of
     (rs, pq) \<Rightarrow> spec_run {#} ops rs (pq_contents pq)"
  using queue_run_spec [OF task_queue.ok_empty] by (auto simp: task_queue.elems_empty split: prod.split)

text \<open>
  The queue sorts. Whatever entries are pushed into a new queue in whatever order, popping
  as many of them returns exactly those entries, ordered by time, later entries of equal time
  having no greater priority.
\<close>

theorem task_queue_sorts:
  "case take_out pop_entry (length es) (fold push_entry es NewPriorityQueue) of
     (es', pq) \<Rightarrow> mset es' = mset es \<and> sorted (map entry_key es')"
  using task_queue.insert_take_out [of es] by (auto split: prod.split)

end
