(* ===== verification/Master_Station.thy ===== *)
theory Master_Station
  imports Station_Session Master_Commands Master_Measurements Task_Queue
begin

text \<open>
  The master (\<open>pkg/master/master.go\<close>, \<open>tasks.go\<close> and \<open>operations.go\<close>): its task queue and
  periodic scans, the execution of tasks, and the one-place channel through which responses
  reach the task that waits. Times are integers; \<open>time.Now()\<close> is an argument of each operation
  that reads it. While a task waits, the read loop goes on: what happens during the wait is a
  list of events.
\<close>

unbundle bit_operations_syntax

section \<open>Tasks and scans\<close>

datatype TaskType = TaskTypeIntegrityScan | TaskTypeClassScan | TaskTypeRangeScan | TaskTypeCommand

datatype TaskResult = TaskResultSuccess | TaskResultFailure | TaskResultTimeout

definition PriorityHigh :: int where [simp]: "PriorityHigh = 100"
definition PriorityNormal :: int where [simp]: "PriorityNormal = 50"
definition PriorityLow :: int where [simp]: "PriorityLow = 10"

text \<open>The last field of a command task names its result channel.\<close>

datatype Task =
    IntegrityScanTask int int
  | ClassScanTask int ClassField int
  | RangeScanTask int byte byte u16 u16 int
  | CommandTask "Command list" bool int nat

definition Task_Priority :: "Task \<Rightarrow> int" where
  "Task_Priority t =
     (case t of
        IntegrityScanTask _ priority \<Rightarrow> priority
      | ClassScanTask _ _ priority \<Rightarrow> priority
      | RangeScanTask _ _ _ _ _ priority \<Rightarrow> priority
      | CommandTask _ _ priority _ \<Rightarrow> priority)"

definition Task_Type :: "Task \<Rightarrow> TaskType" where
  "Task_Type t =
     (case t of
        IntegrityScanTask _ _ \<Rightarrow> TaskTypeIntegrityScan
      | ClassScanTask _ _ _ \<Rightarrow> TaskTypeClassScan
      | RangeScanTask _ _ _ _ _ _ \<Rightarrow> TaskTypeRangeScan
      | CommandTask _ _ _ _ \<Rightarrow> TaskTypeCommand)"

record PeriodicScan =
  scId :: int
  scTask :: Task
  scPeriod :: int
  scNextRun :: int
  scEnabled :: bool
  scDemanded :: bool

section \<open>State\<close>

record MasterConfig =
  mcID :: string
  mcLocalAddress :: u16
  mcRemoteAddress :: u16
  mcResponseTimeout :: int
  mcTaskRetryPeriod :: int
  mcTaskStartTimeout :: int
  mcDisableUnsolOnStartup :: bool
  mcIgnoreRestartIIN :: bool
  mcUnsolClassMask :: ClassField
  mcStartupIntegrityScan :: bool
  mcIntegrityPeriod :: int
  mcMaxRxFragSize :: u16
  mcMaxTxFragSize :: u16

text \<open>A configuration with the given addresses and nothing switched on, for examples.\<close>

definition plain_master_config :: "u16 \<Rightarrow> u16 \<Rightarrow> MasterConfig" where
  "plain_master_config local remote =
     \<lparr>mcID = [], mcLocalAddress = local, mcRemoteAddress = remote, mcResponseTimeout = 0,
      mcTaskRetryPeriod = 0, mcTaskStartTimeout = 0, mcDisableUnsolOnStartup = False,
      mcIgnoreRestartIIN = False, mcUnsolClassMask = 0, mcStartupIntegrityScan = False,
      mcIntegrityPeriod = 0, mcMaxRxFragSize = 0, mcMaxTxFragSize = 0\<rparr>"

datatype task_err = SendFailed station_err | ErrTimeout | MasterCancelled | ScanNotFound

type_synonym command_result = "task_err + CommandStatus list"

datatype callback =
    SOE soe_call
  | OnReceiveIIN IIN
  | OnTaskStart TaskType
  | OnTaskComplete TaskType TaskResult

text \<open>
  \<open>maScans\<close> is the map of the scans by their number, in the order its iteration gives.
  \<open>maResults\<close> holds the results in the channels of command tasks, \<open>maCalls\<close> what the
  application was told. \<open>maProcessors\<close> and \<open>maStartups\<close> count the goroutines started by
  \<open>Enable\<close>: task processors, and startup scans still to come.
\<close>

record master =
  maConfig :: MasterConfig
  maSession :: session
  maTaskQueue :: "Task PriorityQueue"
  maScans :: "(int \<times> PeriodicScan) list"
  maNextScanID :: int
  maEnabled :: bool
  maSeqCounter :: SequenceCounter
  maLastIIN :: IIN
  maPendingResp :: "APDU option"
  maResults :: "(nat \<times> command_result) list"
  maCalls :: "callback list"
  maProcessors :: nat
  maStartups :: nat

definition new_master :: "MasterConfig \<Rightarrow> master" where
  "new_master config =
     \<lparr>maConfig = config, maSession = newSession (mcLocalAddress config) (mcRemoteAddress config),
      maTaskQueue = NewPriorityQueue, maScans = [], maNextScanID = 1, maEnabled = False,
      maSeqCounter = NewSequenceCounter, maLastIIN = \<lparr>iin1 = 0, iin2 = 0\<rparr>, maPendingResp = None,
      maResults = [], maCalls = [], maProcessors = 0, maStartups = 0\<rparr>"

definition New_Master ::
  "('s, 'e) session_ops \<Rightarrow> (master \<Rightarrow> 's) \<Rightarrow> MasterConfig \<Rightarrow> 's Router \<Rightarrow> Channel
    \<Rightarrow> ('e route_err + master) \<times> 's Router \<times> Channel" where
  "New_Master ops wrap config r c =
     (let m = new_master config in
      case Channel_AddSession ops r c (wrap m) of
        (Some err, r1, c1) \<Rightarrow> (Inl err, r1, c1)
      | (None, r1, c1) \<Rightarrow> (Inr m, r1, c1))"

definition call_app :: "callback list \<Rightarrow> master \<Rightarrow> master" where
  "call_app cs m = m\<lparr>maCalls := maCalls m @ cs\<rparr>"

definition push_task :: "Task \<Rightarrow> int \<Rightarrow> master \<Rightarrow> master" where
  "push_task task time m = m\<lparr>maTaskQueue := PQ_Push (maTaskQueue m) task (Task_Priority task) time\<rparr>"

section \<open>Scans\<close>

definition add_scan :: "Task \<Rightarrow> int \<Rightarrow> int \<Rightarrow> master \<Rightarrow> int \<times> master" where
  "add_scan task period now m =
     (let scan = \<lparr>scId = maNextScanID m, scTask = task, scPeriod = period, scNextRun = now,
                  scEnabled = True, scDemanded = False\<rparr>
      in (scId scan,
          push_task task now
            (m\<lparr>maScans := maScans m @ [(maNextScanID m, scan)], maNextScanID := maNextScanID m + 1\<rparr>)))"

definition AddIntegrityScan :: "int \<Rightarrow> int \<Rightarrow> master \<Rightarrow> int \<times> master" where
  "AddIntegrityScan period now m = add_scan (IntegrityScanTask (maNextScanID m) PriorityNormal) period now m"

definition AddClassScan :: "ClassField \<Rightarrow> int \<Rightarrow> int \<Rightarrow> master \<Rightarrow> int \<times> master" where
  "AddClassScan classes period now m =
     add_scan (ClassScanTask (maNextScanID m) classes PriorityNormal) period now m"

definition AddRangeScan :: "byte \<Rightarrow> byte \<Rightarrow> u16 \<Rightarrow> u16 \<Rightarrow> int \<Rightarrow> int \<Rightarrow> master \<Rightarrow> int \<times> master" where
  "AddRangeScan objGroup variation start stop period now m =
     add_scan (RangeScanTask (maNextScanID m) objGroup variation start stop PriorityNormal) period now m"

definition ScanIntegrity :: "int \<Rightarrow> master \<Rightarrow> master" where
  "ScanIntegrity now m = push_task (IntegrityScanTask 0 PriorityHigh) now m"

definition ScanClasses :: "ClassField \<Rightarrow> int \<Rightarrow> master \<Rightarrow> master" where
  "ScanClasses classes now m = push_task (ClassScanTask 0 classes PriorityHigh) now m"

definition ScanRange :: "byte \<Rightarrow> byte \<Rightarrow> u16 \<Rightarrow> u16 \<Rightarrow> int \<Rightarrow> master \<Rightarrow> master" where
  "ScanRange objGroup variation start stop now m =
     push_task (RangeScanTask 0 objGroup variation start stop PriorityHigh) now m"

definition demandScan :: "int \<Rightarrow> master \<Rightarrow> task_err option \<times> master" where
  "demandScan i m =
     (case map_of (maScans m) i of
        None \<Rightarrow> (Some ScanNotFound, m)
      | Some scan \<Rightarrow>
          (None, m\<lparr>maScans := map (\<lambda>(j, sc). (j, if j = i then sc\<lparr>scDemanded := True\<rparr> else sc)) (maScans m)\<rparr>))"

definition removeScan :: "int \<Rightarrow> master \<Rightarrow> master" where
  "removeScan i m = m\<lparr>maScans := filter (\<lambda>e. fst e \<noteq> i) (maScans m)\<rparr>"

section \<open>Enabling\<close>

definition Master_Enable :: "int \<Rightarrow> master \<Rightarrow> master" where
  "Master_Enable now m =
     (if maEnabled m then m
      else let m1 = m\<lparr>maEnabled := True, maProcessors := maProcessors m + 1\<rparr>;
               m2 = (if mcStartupIntegrityScan (maConfig m1)
                     then m1\<lparr>maStartups := maStartups m1 + 1\<rparr> else m1)
           in if mcIntegrityPeriod (maConfig m2) > 0
              then snd (AddIntegrityScan (mcIntegrityPeriod (maConfig m2)) now m2) else m2)"

text \<open>A startup scan, a tenth of a second after \<open>Enable\<close>.\<close>

definition startup_scan :: "int \<Rightarrow> master \<Rightarrow> master" where
  "startup_scan now m =
     (if maStartups m = 0 then m else ScanIntegrity now (m\<lparr>maStartups := maStartups m - 1\<rparr>))"

definition Master_Disable :: "master \<Rightarrow> master" where
  "Master_Disable m = m\<lparr>maEnabled := False\<rparr>"

definition Master_Shutdown :: "master \<Rightarrow> master" where
  "Master_Shutdown m = (Master_Disable m)\<lparr>maProcessors := 0\<rparr>"

definition Master_getNextSequence :: "master \<Rightarrow> byte \<times> master" where
  "Master_getNextSequence m =
     (case SequenceCounter_Next (maSeqCounter m) of (q, sc) \<Rightarrow> (q, m\<lparr>maSeqCounter := sc\<rparr>))"

section \<open>Responses\<close>

definition is_response :: "APDU \<Rightarrow> bool" where
  "is_response a = IsResponse (apFunctionCode a)"

definition master_onReceiveAPDU :: "float_ops \<Rightarrow> bytes \<Rightarrow> master \<Rightarrow> station_err option \<times> master" where
  "master_onReceiveAPDU fo data m =
     (case APDU_Parse data of
        Inl err \<Rightarrow> (Some (APDUFailed err), m)
      | Inr apdu \<Rightarrow>
          (let m1 = (if is_response apdu
                     then call_app [OnReceiveIIN (apIIN apdu)] (m\<lparr>maLastIIN := apIIN apdu\<rparr>) else m);
               m2 = (case maPendingResp m1 of
                       None \<Rightarrow> m1\<lparr>maPendingResp := Some apdu\<rparr>
                     | Some _ \<Rightarrow> m1)
           in (None, if is_response apdu \<and> length (apObjects apdu) > 0
                     then call_app (map SOE (processMeasurements fo apdu)) m2 else m2)))"

definition Master_OnReceive :: "float_ops \<Rightarrow> master \<Rightarrow> Frame \<Rightarrow> station_err option \<times> master" where
  "Master_OnReceive fo m frame =
     (case master_OnReceive (maSession m) frame of
        (None, s) \<Rightarrow> (None, m\<lparr>maSession := s\<rparr>)
      | (Some apdu, s) \<Rightarrow> master_onReceiveAPDU fo apdu (m\<lparr>maSession := s\<rparr>))"

text \<open>
  What a waiting task sees: frames routed to the session, the timeout, the end of the context.
  The task takes a response as soon as there is one; a wait without further events times out.
\<close>

datatype response_event = Arrives Frame | TimesOut | Cancelled

fun await_response ::
  "float_ops \<Rightarrow> response_event list \<Rightarrow> master \<Rightarrow> (task_err + APDU) \<times> master \<times> response_event list" where
  "await_response fo [] m =
     (case maPendingResp m of
        Some resp \<Rightarrow> (Inr resp, m\<lparr>maPendingResp := None\<rparr>, [])
      | None \<Rightarrow> (Inl ErrTimeout, m, []))"
| "await_response fo (event # events) m =
     (case maPendingResp m of
        Some resp \<Rightarrow> (Inr resp, m\<lparr>maPendingResp := None\<rparr>, event # events)
      | None \<Rightarrow>
          (case event of
             Arrives frame \<Rightarrow> await_response fo events (snd (Master_OnReceive fo m frame))
           | TimesOut \<Rightarrow> (Inl ErrTimeout, m, events)
           | Cancelled \<Rightarrow> (Inl MasterCancelled, m, events)))"

definition sendAndWait ::
  "float_ops \<Rightarrow> APDU \<Rightarrow> response_event list \<Rightarrow> master \<Rightarrow> Channel
    \<Rightarrow> (task_err + APDU) \<times> master \<times> response_event list \<times> Channel" where
  "sendAndWait fo apdu events m c =
     (case master_sendAPDU (maSession m) (fst (APDU_Serialize apdu)) c of
        (Some err, s, c1) \<Rightarrow> (Inl (SendFailed err), m\<lparr>maSession := s\<rparr>, events, c1)
      | (None, s, c1) \<Rightarrow>
          (case await_response fo events (m\<lparr>maSession := s\<rparr>) of (r, m1, events1) \<Rightarrow> (r, m1, events1, c1)))"

section \<open>Executing tasks\<close>

text \<open>Operations that take the events of their waits and return those left over.\<close>

type_synonym 'a waiting = "response_event list \<Rightarrow> master \<Rightarrow> Channel
  \<Rightarrow> (task_err + 'a) \<times> master \<times> response_event list \<times> Channel"

definition request_response :: "float_ops \<Rightarrow> (byte \<Rightarrow> APDU) \<Rightarrow> APDU waiting" where
  "request_response fo build events m c =
     (case Master_getNextSequence m of (seq, m1) \<Rightarrow> sendAndWait fo (build seq) events m1 c)"

definition performIntegrityScan :: "float_ops \<Rightarrow> APDU waiting" where
  "performIntegrityScan fo = request_response fo BuildIntegrityPollRequest"

definition performClassScan :: "float_ops \<Rightarrow> ClassField \<Rightarrow> APDU waiting" where
  "performClassScan fo classes = request_response fo (\<lambda>seq. BuildReadRequest seq (BuildClassRead [classes]))"

definition performRangeScan :: "float_ops \<Rightarrow> byte \<Rightarrow> byte \<Rightarrow> u16 \<Rightarrow> u16 \<Rightarrow> APDU waiting" where
  "performRangeScan fo grp variation start stop =
     request_response fo (\<lambda>seq. BuildReadRequest seq (BuildRangeRead grp variation (ucast start) (ucast stop)))"

definition performEnableUnsolicited :: "float_ops \<Rightarrow> ClassField \<Rightarrow> APDU waiting" where
  "performEnableUnsolicited fo classes = request_response fo (\<lambda>seq. BuildEnableUnsolicitedRequest seq [classes])"

definition performDisableUnsolicited :: "float_ops \<Rightarrow> ClassField \<Rightarrow> APDU waiting" where
  "performDisableUnsolicited fo classes = request_response fo (\<lambda>seq. BuildDisableUnsolicitedRequest seq [classes])"

definition performTimeSync :: "float_ops \<Rightarrow> int \<Rightarrow> APDU waiting" where
  "performTimeSync fo now = request_response fo (\<lambda>seq. BuildTimeSyncNowRequest seq now)"

definition performColdRestart :: "float_ops \<Rightarrow> APDU waiting" where
  "performColdRestart fo = request_response fo BuildColdRestartRequest"

definition performWarmRestart :: "float_ops \<Rightarrow> APDU waiting" where
  "performWarmRestart fo = request_response fo BuildWarmRestartRequest"

definition performSelectAndOperate :: "float_ops \<Rightarrow> Command list \<Rightarrow> CommandStatus list waiting" where
  "performSelectAndOperate fo commands events m c =
     (let objects = buildCROBObjects commands in
      case request_response fo (\<lambda>seq. BuildSelectRequest seq objects) events m c of
        (Inl err, m1, events1, c1) \<Rightarrow> (Inl err, m1, events1, c1)
      | (Inr selectResp, m1, events1, c1) \<Rightarrow>
          (let statuses = parseCommandResponse (Some selectResp) (length commands) in
           if \<not> allSuccess statuses then (Inr statuses, m1, events1, c1)
           else (case request_response fo (\<lambda>seq. BuildOperateRequest seq objects) events1 m1 c1 of
                   (Inl err, m2, events2, c2) \<Rightarrow> (Inl err, m2, events2, c2)
                 | (Inr operateResp, m2, events2, c2) \<Rightarrow>
                     (Inr (parseCommandResponse (Some operateResp) (length commands)), m2, events2, c2))))"

definition performDirectOperate :: "float_ops \<Rightarrow> Command list \<Rightarrow> CommandStatus list waiting" where
  "performDirectOperate fo commands events m c =
     (let objects = buildCROBObjects commands in
      case request_response fo (\<lambda>seq. BuildDirectOperateRequest seq objects) events m c of
        (Inl err, m1, events1, c1) \<Rightarrow> (Inl err, m1, events1, c1)
      | (Inr resp, m1, events1, c1) \<Rightarrow>
          (Inr (parseCommandResponse (Some resp) (length commands)), m1, events1, c1))"

text \<open>The error of a task, if any; a command task puts its result into its channel, if that is empty.\<close>

definition put_result :: "nat \<Rightarrow> command_result \<Rightarrow> master \<Rightarrow> master" where
  "put_result ticket result m =
     (if map_of (maResults m) ticket = None then m\<lparr>maResults := maResults m @ [(ticket, result)]\<rparr> else m)"

definition task_error :: "'e + 'a \<Rightarrow> 'e option" where
  "task_error r = (case r of Inl e \<Rightarrow> Some e | Inr _ \<Rightarrow> None)"

definition Execute ::
  "float_ops \<Rightarrow> Task \<Rightarrow> response_event list \<Rightarrow> master \<Rightarrow> Channel
    \<Rightarrow> task_err option \<times> master \<times> response_event list \<times> Channel" where
  "Execute fo t events m c =
     (case t of
        IntegrityScanTask _ _ \<Rightarrow>
          (case performIntegrityScan fo events m c of (r, m1, evs, c1) \<Rightarrow> (task_error r, m1, evs, c1))
      | ClassScanTask _ classes _ \<Rightarrow>
          (case performClassScan fo classes events m c of (r, m1, evs, c1) \<Rightarrow> (task_error r, m1, evs, c1))
      | RangeScanTask _ grp variation start stop _ \<Rightarrow>
          (case performRangeScan fo grp variation start stop events m c of
             (r, m1, evs, c1) \<Rightarrow> (task_error r, m1, evs, c1))
      | CommandTask commands selectBefore _ ticket \<Rightarrow>
          (case (if selectBefore then performSelectAndOperate fo commands events m c
                 else performDirectOperate fo commands events m c) of
             (r, m1, evs, c1) \<Rightarrow> (task_error r, put_result ticket r m1, evs, c1)))"

definition reschedule :: "int \<Rightarrow> int \<times> PeriodicScan \<Rightarrow> master \<Rightarrow> master" where
  "reschedule now e m =
     (case e of (i, scan) \<Rightarrow>
        if scEnabled scan
        then (if scDemanded scan
              then push_task (scTask scan) now
                     (m\<lparr>maScans := map (\<lambda>(j, sc). (j, if j = i then sc\<lparr>scDemanded := False\<rparr> else sc)) (maScans m)\<rparr>)
              else push_task (scTask scan) (now + scPeriod scan) m)
        else m)"

definition reschedulePeriodicScans :: "int \<Rightarrow> master \<Rightarrow> master" where
  "reschedulePeriodicScans now m = fold (reschedule now) (maScans m) m"

text \<open>One pass at time \<open>now\<close>; the task is done and the scans are pushed at time \<open>later\<close>.\<close>

definition processTasks ::
  "float_ops \<Rightarrow> int \<Rightarrow> int \<Rightarrow> response_event list \<Rightarrow> master \<Rightarrow> Channel \<Rightarrow> master \<times> response_event list \<times> Channel" where
  "processTasks fo now later events m c =
     (if \<not> maEnabled m then (m, events, c)
      else (case NextReady (maTaskQueue m) now of
              (None, q) \<Rightarrow> (m\<lparr>maTaskQueue := q\<rparr>, events, c)
            | (Some t, q) \<Rightarrow>
                (case Execute fo t events (call_app [OnTaskStart (Task_Type t)] (m\<lparr>maTaskQueue := q\<rparr>)) c of
                   (err, m1, events1, c1) \<Rightarrow>
                     (let result = (if err \<noteq> None then TaskResultFailure else TaskResultSuccess);
                          m2 = call_app [OnTaskComplete (Task_Type t) result] m1
                      in (reschedulePeriodicScans later m2, events1, c1)))))"

section \<open>Commands from the application\<close>

text \<open>A call pushes its task and then waits for the result, which it takes, or gives up.\<close>

definition push_command :: "Command list \<Rightarrow> bool \<Rightarrow> nat \<Rightarrow> int \<Rightarrow> master \<Rightarrow> master" where
  "push_command commands selectBefore ticket now m =
     push_task (CommandTask commands selectBefore PriorityHigh ticket) now m"

definition SelectAndOperate :: "Command list \<Rightarrow> nat \<Rightarrow> int \<Rightarrow> master \<Rightarrow> master" where
  "SelectAndOperate commands ticket now m = push_command commands True ticket now m"

definition DirectOperate :: "Command list \<Rightarrow> nat \<Rightarrow> int \<Rightarrow> master \<Rightarrow> master" where
  "DirectOperate commands ticket now m = push_command commands False ticket now m"

datatype command_wait = ResultReady | CommandTimeout | CommandCancelled

definition command_outcome :: "nat \<Rightarrow> command_wait \<Rightarrow> master \<Rightarrow> command_result \<times> master" where
  "command_outcome ticket event m =
     (case (event, map_of (maResults m) ticket) of
        (ResultReady, Some result) \<Rightarrow>
          (result, m\<lparr>maResults := filter (\<lambda>e. fst e \<noteq> ticket) (maResults m)\<rparr>)
      | (CommandCancelled, _) \<Rightarrow> (Inl MasterCancelled, m)
      | _ \<Rightarrow> (Inl ErrTimeout, m))"

section \<open>The master as a session of a channel\<close>

definition master_ops :: "float_ops \<Rightarrow> (master, station_err) session_ops" where
  "master_ops fo =
     \<lparr>soLinkAddress = (\<lambda>m. seLinkAddress (maSession m)), soType = (\<lambda>m. SessionTypeMaster),
      soOnReceive = (\<lambda>m frame c. case Master_OnReceive fo m frame of (err, m') \<Rightarrow> (err, m', c)),
      soConnection = (\<lambda>m. Some (\<lambda>m. m\<lparr>maSession := OnConnectionEstablished (maSession m)\<rparr>,
                                \<lambda>m. m\<lparr>maSession := OnConnectionLost (maSession m)\<rparr>))\<rparr>"

interpretation master_station: station "master_ops fo" maSession "\<lambda>se m. m\<lparr>maSession := se\<rparr>" "\<lambda>f. True"
    "\<lambda>apdu m c. case master_onReceiveAPDU fo apdu m of (err, m') \<Rightarrow> (err, m', c)"
  for fo
  by unfold_locales
    (auto simp: master_ops_def Master_OnReceive_def master_OnReceive_def split: prod.split option.split)

section \<open>What a task leaves alone\<close>

definition same_schedule :: "master \<Rightarrow> master \<Rightarrow> bool" where
  "same_schedule m m' \<longleftrightarrow> maTaskQueue m' = maTaskQueue m \<and> maScans m' = maScans m \<and> maEnabled m' = maEnabled m"

lemma same_schedule_refl [simp]: "same_schedule m m"
  by (simp add: same_schedule_def)

lemma same_schedule_trans: "same_schedule m m1 \<Longrightarrow> same_schedule m1 m2 \<Longrightarrow> same_schedule m m2"
  by (simp add: same_schedule_def)

lemma same_schedule_upd [simp]:
  "same_schedule m (m1\<lparr>maSession := s\<rparr>) = same_schedule m m1"
  "same_schedule m (m1\<lparr>maPendingResp := p\<rparr>) = same_schedule m m1"
  "same_schedule m (m1\<lparr>maSeqCounter := q\<rparr>) = same_schedule m m1"
  "same_schedule m (m1\<lparr>maLastIIN := i\<rparr>) = same_schedule m m1"
  "same_schedule m (m1\<lparr>maResults := rs\<rparr>) = same_schedule m m1"
  "same_schedule m (call_app cs m1) = same_schedule m m1"
  by (simp_all add: same_schedule_def call_app_def)

lemma onReceiveAPDU_schedule: "same_schedule m (snd (master_onReceiveAPDU fo d m))"
  by (simp add: master_onReceiveAPDU_def Let_def split: sum.split option.split)

lemma OnReceive_schedule: "same_schedule m (snd (Master_OnReceive fo m f))"
  using onReceiveAPDU_schedule [of "m\<lparr>maSession := s\<rparr>" fo d for s d]
  by (auto simp: Master_OnReceive_def same_schedule_def split: prod.split option.split)

lemma await_schedule: "await_response fo events m = (r, m', events') \<Longrightarrow> same_schedule m m'"
proof (induction fo events m arbitrary: m' rule: await_response.induct)
  case (1 fo m)
  then show ?case by (auto split: option.splits)
next
  case (2 fo event events m)
  show ?case
  proof (cases "maPendingResp m")
    case (Some resp)
    then show ?thesis using "2.prems" by auto
  next
    case None
    show ?thesis
    proof (cases event)
      case (Arrives frame)
      then have "same_schedule (snd (Master_OnReceive fo m frame)) m'"
        using "2.IH" [OF None Arrives] "2.prems" None by simp
      then show ?thesis using OnReceive_schedule by (rule same_schedule_trans [rotated])
    qed (use None "2.prems" in auto)
  qed
qed

lemma request_schedule: "request_response fo build events m c = (r, m', events', c') \<Longrightarrow> same_schedule m m'"
  by (auto simp: request_response_def sendAndWait_def Master_getNextSequence_def same_schedule_def
      split: prod.splits option.splits dest!: await_schedule)

lemma Execute_schedule:
  assumes "Execute fo t events m c = (err, m', events', c')"
  shows "same_schedule m m'"
proof -
  have 1: "same_schedule m m1" if "performSelectAndOperate fo cmds events m c = (r, m1, e, c1)" for cmds m1 r e c1
    using that by (auto simp: performSelectAndOperate_def Let_def split: prod.splits sum.splits if_splits
        dest!: request_schedule intro: same_schedule_trans)
  have 2: "same_schedule m m1" if "performDirectOperate fo cmds events m c = (r, m1, e, c1)" for cmds m1 r e c1
    using that by (auto simp: performDirectOperate_def Let_def split: prod.splits sum.splits
        dest!: request_schedule)
  show ?thesis
    using assms 1 2
    by (cases t) (auto simp: Execute_def performIntegrityScan_def performClassScan_def performRangeScan_def
        put_result_def split: prod.splits if_splits dest!: request_schedule)
qed

section \<open>The length of the queue\<close>

lemma heap_up_length [simp]: "length (heap_up h j) = length h"
  by (induction h j rule: heap_up.induct) (subst heap_up.simps, simp add: Let_def)

lemma heap_down_length [simp]: "length (heap_down h i n) = length h"
  by (induction h i n rule: heap_down.induct) (subst heap_down.simps, simp add: Let_def)

lemma PQ_Push_length: "PQ_Len (PQ_Push q v p t) = PQ_Len q + 1"
  by (simp add: PQ_Len_def PQ_Push_def heap_Push_def itemHeap_Push_def Let_def)

lemma NextReady_length:
  "NextReady q now = (r, q') \<Longrightarrow> PQ_Len q = PQ_Len q' + (if r = None then 0 else 1)"
  by (auto simp: NextReady_def PQ_Len_def heap_Pop_def itemHeap_Pop_def Let_def split: if_splits)

lemma push_task_sel [simp]:
  "PQ_Len (maTaskQueue (push_task t n m)) = PQ_Len (maTaskQueue m) + 1"
  "maScans (push_task t n m) = maScans m" "maEnabled (push_task t n m) = maEnabled m"
  by (simp_all add: push_task_def PQ_Push_length)

definition active_scans :: "master \<Rightarrow> nat" where
  "active_scans m = length (filter (scEnabled \<circ> snd) (maScans m))"

lemma reschedule_sel:
  "PQ_Len (maTaskQueue (reschedule now e m)) = PQ_Len (maTaskQueue m) + (if scEnabled (snd e) then 1 else 0)"
  "map (\<lambda>e. scEnabled (snd e)) (maScans (reschedule now e m)) = map (\<lambda>e. scEnabled (snd e)) (maScans m)"
  "maEnabled (reschedule now e m) = maEnabled m"
  by (auto simp: reschedule_def split: prod.splits)

lemma active_scans_eq: "active_scans m = length (filter id (map (\<lambda>e. scEnabled (snd e)) (maScans m)))"
  by (simp add: active_scans_def filter_map comp_def)

lemma reschedulePeriodicScans_sel:
  "PQ_Len (maTaskQueue (reschedulePeriodicScans now m)) = PQ_Len (maTaskQueue m) + active_scans m"
  "active_scans (reschedulePeriodicScans now m) = active_scans m"
proof -
  have "PQ_Len (maTaskQueue (fold (reschedule now) es m))
      = PQ_Len (maTaskQueue m) + length (filter (scEnabled \<circ> snd) es)
    \<and> map (\<lambda>e. scEnabled (snd e)) (maScans (fold (reschedule now) es m)) = map (\<lambda>e. scEnabled (snd e)) (maScans m)"
    for es
    by (induction es arbitrary: m) (simp_all add: reschedule_sel)
  then show "PQ_Len (maTaskQueue (reschedulePeriodicScans now m)) = PQ_Len (maTaskQueue m) + active_scans m"
    "active_scans (reschedulePeriodicScans now m) = active_scans m"
    by (simp_all add: reschedulePeriodicScans_def active_scans_eq [symmetric] active_scans_def [of m, symmetric])
      (simp add: active_scans_eq)
qed

text \<open>
  What happens to the queue of a master whose scans stay what they are: passes of the task processor,
  and calls that push a task, which are \<open>ScanIntegrity\<close>, \<open>ScanClasses\<close>, \<open>ScanRange\<close>, \<open>SelectAndOperate\<close>
  and \<open>DirectOperate\<close>. A run tells how many tasks were executed and how many were pushed by calls.
\<close>

datatype schedule_step = Pass int int "response_event list" | Call Task int

definition pass_runs :: "int \<Rightarrow> master \<Rightarrow> bool" where
  "pass_runs now m \<longleftrightarrow> maEnabled m \<and> fst (NextReady (maTaskQueue m) now) \<noteq> None"

fun run_schedule ::
  "float_ops \<Rightarrow> schedule_step list \<Rightarrow> master \<Rightarrow> Channel \<Rightarrow> master \<times> Channel \<times> nat \<times> nat" where
  "run_schedule fo [] m c = (m, c, 0, 0)"
| "run_schedule fo (Pass now later events # steps) m c =
     (case processTasks fo now later events m c of
        (m1, _, c1) \<Rightarrow> (case run_schedule fo steps m1 c1 of
           (m2, c2, executed, called) \<Rightarrow> (m2, c2, (if pass_runs now m then 1 else 0) + executed, called)))"
| "run_schedule fo (Call task time # steps) m c =
     (case run_schedule fo steps (push_task task time m) c of
        (m2, c2, executed, called) \<Rightarrow> (m2, c2, executed, called + 1))"

lemma calls_push:
  "ScanIntegrity now m = push_task (IntegrityScanTask 0 PriorityHigh) now m"
  "ScanClasses classes now m = push_task (ClassScanTask 0 classes PriorityHigh) now m"
  "ScanRange grp var start stop now m = push_task (RangeScanTask 0 grp var start stop PriorityHigh) now m"
  "SelectAndOperate cmds ticket now m = push_task (CommandTask cmds True PriorityHigh ticket) now m"
  "DirectOperate cmds ticket now m = push_task (CommandTask cmds False PriorityHigh ticket) now m"
  by (simp_all add: ScanIntegrity_def ScanClasses_def ScanRange_def SelectAndOperate_def DirectOperate_def
      push_command_def)

lemma processTasks_length:
  assumes "processTasks fo now later events m c = (m', events', c')"
  shows "active_scans m' = active_scans m"
    and "PQ_Len (maTaskQueue m') + (if maEnabled m \<and> fst (NextReady (maTaskQueue m) now) \<noteq> None then 1 else 0)
      = PQ_Len (maTaskQueue m)
        + (if maEnabled m \<and> fst (NextReady (maTaskQueue m) now) \<noteq> None then active_scans m else 0)"
proof -
  obtain r q where q: "NextReady (maTaskQueue m) now = (r, q)" by fastforce
  have "active_scans m' = active_scans m \<and> PQ_Len (maTaskQueue m') + (if maEnabled m \<and> r \<noteq> None then 1 else 0)
      = PQ_Len (maTaskQueue m) + (if maEnabled m \<and> r \<noteq> None then active_scans m else 0)"
  proof (cases "maEnabled m \<and> r \<noteq> None")
    case False
    then show ?thesis using assms q NextReady_length [OF q]
      by (auto simp: processTasks_def active_scans_def split: if_splits)
  next
    case True
    then obtain t where t: "r = Some t" by auto
    obtain err m1 e1 c1 where x: "Execute fo t events
        (call_app [OnTaskStart (Task_Type t)] (m\<lparr>maTaskQueue := q\<rparr>)) c = (err, m1, e1, c1)"
      by (metis prod_cases4)
    from Execute_schedule [OF x] have s: "maTaskQueue m1 = q" "maScans m1 = maScans m"
      by (simp_all add: same_schedule_def call_app_def)
    have "active_scans (call_app cs m1) = active_scans m" for cs
      by (simp add: active_scans_def call_app_def s(2))
    then show ?thesis
      using assms True q t x NextReady_length [OF q] s(1)
      by (auto simp: processTasks_def Let_def reschedulePeriodicScans_sel call_app_def)
  qed
  then show "active_scans m' = active_scans m"
    and "PQ_Len (maTaskQueue m') + (if maEnabled m \<and> fst (NextReady (maTaskQueue m) now) \<noteq> None then 1 else 0)
      = PQ_Len (maTaskQueue m)
        + (if maEnabled m \<and> fst (NextReady (maTaskQueue m) now) \<noteq> None then active_scans m else 0)"
    using q by simp_all
qed

section \<open>Requests over an open channel\<close>

lemma request_up:
  assumes "channel_up c"
  shows "\<exists>c'. request_response fo build events m c =
      (case await_response fo events
          (m\<lparr>maSeqCounter := snd (SequenceCounter_Next (maSeqCounter m)),
             maSession := (maSession m)\<lparr>seTransport := snd (Layer_Send (seTransport (maSession m))
               (fst (APDU_Serialize (build (sqCurrent (maSeqCounter m))))))\<rparr>\<rparr>) of
         (r, m', events') \<Rightarrow> (r, m', events', c'))
    \<and> channel_up c' \<and> chSent c' = chSent c @ map frame_bytes (apdu_frames master_frame (maSession m)
        (fst (APDU_Serialize (build (sqCurrent (maSeqCounter m))))))"
  using sendAPDU_up(1) [OF assms, of "maSession m" "fst (APDU_Serialize (build (sqCurrent (maSeqCounter m))))"]
  by (auto simp: request_response_def Master_getNextSequence_def SequenceCounter_Next_def sendAndWait_def)

lemma await_pending:
  "maPendingResp m = Some resp \<Longrightarrow>
    await_response fo events m = (Inr resp, m\<lparr>maPendingResp := None\<rparr>, events)"
  by (cases events) simp_all

section \<open>Properties\<close>

text \<open>
  C25: the task queue grows with every executed task. Let the task processor make any number of
  passes, whatever arrives or times out in them, with any number of calls that push a task in between,
  and let no scan be added or removed. Then the length of the queue has grown by the number of calls,
  and by the number of executed tasks times the number of enabled scans less one, since the pass that
  executes a task takes its entry out and puts in one for every enabled scan, due or not. With two
  enabled scans or more, the queue therefore holds at least one entry more for every task executed.
\<close>

theorem scan_queue_grows:
  assumes "run_schedule fo steps m c = (m', c', executed, called)"
  shows "PQ_Len (maTaskQueue m') + executed = PQ_Len (maTaskQueue m) + called + executed * active_scans m
    \<and> (2 \<le> active_scans m \<longrightarrow> PQ_Len (maTaskQueue m) + executed \<le> PQ_Len (maTaskQueue m'))"
proof -
  have eq: "PQ_Len (maTaskQueue m') + executed = PQ_Len (maTaskQueue m) + called + executed * active_scans m"
    using assms
  proof (induction steps arbitrary: m c executed called)
    case Nil
    then show ?case by simp
  next
    case (Cons step steps)
    show ?case
    proof (cases step)
      case (Pass now later events)
      obtain m1 e1 c1 where 1: "processTasks fo now later events m c = (m1, e1, c1)" by (metis prod_cases3)
      obtain x where x: "run_schedule fo steps m1 c1 = (m', c', x, called)"
        "executed = (if pass_runs now m then 1 else 0) + x"
        using Cons.prems by (auto simp: Pass 1 split: prod.splits)
      show ?thesis
        using Cons.IH [OF x(1)] processTasks_length [OF 1] x(2) by (auto simp: pass_runs_def)
    next
      case (Call task time)
      obtain y where y: "run_schedule fo steps (push_task task time m) c = (m', c', executed, y)" "called = y + 1"
        using Cons.prems by (auto simp: Call split: prod.splits)
      have "active_scans (push_task task time m) = active_scans m" by (simp add: active_scans_def)
      then show ?thesis using Cons.IH [OF y(1)] y(2) by simp
    qed
  qed
  have "2 * executed \<le> executed * active_scans m" if "2 \<le> active_scans m"
    using mult_le_mono2 [OF that, of executed] by (simp only: mult.commute)
  then show ?thesis using eq by linarith
qed

text \<open>Two integrity scans, one executed task and one call: two entries have become four.\<close>

definition two_scans :: master where
  "two_scans = Master_Enable 0 (snd (AddIntegrityScan 10 0 (snd (AddIntegrityScan 10 0
     (new_master (plain_master_config 1 10))))))"

theorem scan_queue_grows_witness:
  "PQ_Len (maTaskQueue two_scans) = 2 \<and> (\<exists>m' c'. run_schedule sample_floats
      [Pass 0 1 [], Call (IntegrityScanTask 0 PriorityHigh) 2] two_scans (NewChannel []) = (m', c', 1, 1)
    \<and> PQ_Len (maTaskQueue m') = 4)"
proof -
  have runs: "pass_runs 0 two_scans" and len: "PQ_Len (maTaskQueue two_scans) = 2" "active_scans two_scans = 2"
    by code_simp+
  obtain m1 e1 c1 where "processTasks sample_floats 0 1 [] two_scans (NewChannel []) = (m1, e1, c1)"
    by (metis prod_cases3)
  then have "run_schedule sample_floats [Pass 0 1 [], Call (IntegrityScanTask 0 PriorityHigh) 2] two_scans
      (NewChannel []) = (push_task (IntegrityScanTask 0 PriorityHigh) 2 m1, c1, 1, 1)"
    using runs by simp
  from this scan_queue_grows [OF this] show ?thesis unfolding len by simp
qed

text \<open>
  C40: a late response is taken for the answer to the next request. When a request of the master, of
  whatever kind, has timed out, any application message that arrives afterwards and parses, be it the
  response to that request or something else, is kept, and the next request, of whatever kind, returns
  at once with that message as its response; its own response is not waited for. So a direct operate
  returns at once with the statuses read from that message for its own commands, whatever points they
  are for. No sequence number is compared. The master's channel is open, and no response is pending at
  the start.
\<close>

theorem stale_response_taken:
  assumes "channel_up c" and "maPendingResp m = None" and "APDU_Parse w = Inr late"
  shows "\<exists>m1 c1 m2 m3 c3 m4 c4. request_response fo build [TimesOut] m c = (Inl ErrTimeout, m1, [], c1)
    \<and> master_onReceiveAPDU fo w m1 = (None, m2)
    \<and> request_response fo build' events m2 c1 = (Inr late, m3, events, c3)
    \<and> performDirectOperate fo cmds events m2 c1
      = (Inr (parseCommandResponse (Some late) (length cmds)), m4, events, c4)"
proof -
  obtain m1 c1 where 1: "request_response fo build [TimesOut] m c = (Inl ErrTimeout, m1, [], c1)"
    "channel_up c1" "maPendingResp m1 = None"
    using request_up [OF assms(1), of fo build "[TimesOut]" m] assms(2) by auto
  obtain m2 where 2: "master_onReceiveAPDU fo w m1 = (None, m2)" "maPendingResp m2 = Some late"
    using assms(3) 1(3) by (simp add: master_onReceiveAPDU_def call_app_def Let_def)
  have taken: "\<exists>m3 c3. request_response fo build' events m2 c1 = (Inr late, m3, events, c3)" for build'
    using request_up [OF 1(2), of fo build' events m2] 2(2) by (auto simp: await_pending)
  then have "\<exists>m4 c4. performDirectOperate fo cmds events m2 c1
      = (Inr (parseCommandResponse (Some late) (length cmds)), m4, events, c4)"
    by (simp add: performDirectOperate_def Let_def) (metis (no_types, lifting) case_prod_conv sum.case(2))
  with 1 2 taken show ?thesis by blast
qed

theorem stale_response_taken_witness:
  "\<exists>late m1 c1 m2 m3 c3 m4 c4. request_response sample_floats BuildIntegrityPollRequest [TimesOut]
        (new_master (plain_master_config 1 10)) ((NewChannel [])\<lparr>chState := ChannelStateOpen\<rparr>)
      = (Inl ErrTimeout, m1, [], c1)
    \<and> master_onReceiveAPDU sample_floats [0xC0, 0x81, 0, 0] m1 = (None, m2)
    \<and> request_response sample_floats BuildColdRestartRequest [] m2 c1
      = (Inr late, m3, [], c3)
    \<and> performDirectOperate sample_floats [\<lparr>cmIndex = 7, cmType = 0, cmData = AnalogOutputInt32 5 0\<rparr>] [] m2 c1
      = (Inr [CommandStatusSuccess], m4, [], c4)"
proof -
  obtain late where late: "APDU_Parse [0xC0, 0x81, 0, 0] = Inr late" "apObjects late = []"
    by (simp add: APDU_Parse_def IsResponse_def APDU_parseControl_def Let_def)
  have up: "channel_up ((NewChannel [])\<lparr>chState := ChannelStateOpen\<rparr>)"
    by (simp add: channel_up_def NewChannel_def)
  let ?cmds = "[\<lparr>cmIndex = 7, cmType = 0, cmData = AnalogOutputInt32 5 0\<rparr>]"
  have s: "parseCommandResponse (Some late) (length ?cmds) = [CommandStatusSuccess]"
    using late(2) by (simp add: parseCommandResponse_def)
  have "maPendingResp (new_master (plain_master_config 1 10)) = None" by (simp add: new_master_def)
  from stale_response_taken [OF up this late(1), of sample_floats BuildIntegrityPollRequest BuildColdRestartRequest "[]" ?cmds]
  show ?thesis unfolding s by blast
qed

end
