(* ===== verification/Station_System.thy ===== *)
theory Station_System
  imports Outstation_Station Master_Station
begin

text \<open>
  A master and an outstation on open channels: what the frames of one make the other do. A
  request of the master reaches the outstation, whose response reaches the waiting task; a poll
  hands the outstation's static data to the master's application, and a command is reported as
  successful.
\<close>

unbundle bit_operations_syntax

section \<open>A response reaches the waiting task\<close>

lemma await_segments:
  assumes "\<forall>t\<in>set us. fUserData (mk t) = t"
    and "receive_tpdus (seTransport (maSession m)) us = ([], l)" and "maPendingResp m = None"
  shows "await_response fo (map (\<lambda>t. Arrives (mk t)) us @ events) m
    = await_response fo events (m\<lparr>maSession := (maSession m)\<lparr>seTransport := l\<rparr>\<rparr>)"
  using assms
proof (induction us arbitrary: m)
  case Nil
  then have "m\<lparr>maSession := (maSession m)\<lparr>seTransport := l\<rparr>\<rparr> = m"
    by (cases m; cases "maSession m") auto
  then show ?case by simp
next
  case (Cons t us)
  obtain res l1 where t: "Layer_Receive (seTransport (maSession m)) t = (res, l1)" by fastforce
  then have quiet: "handed_up res = None" "receive_tpdus l1 us = ([], l)"
    using Cons.prems(2) by (auto split: prod.splits option.splits)
  let ?m = "m\<lparr>maSession := (maSession m)\<lparr>seTransport := l1\<rparr>\<rparr>"
  have "Master_OnReceive fo m (mk t) = (None, ?m)"
    using Cons.prems(1) t quiet(1)
    by (simp add: Master_OnReceive_def master_OnReceive_def transport_input_tpdu)
  then have "await_response fo (map (\<lambda>t. Arrives (mk t)) (t # us) @ events) m
    = await_response fo (map (\<lambda>t. Arrives (mk t)) us @ events) ?m"
    using Cons.prems(3) by simp
  also have "\<dots> = await_response fo events (?m\<lparr>maSession := (maSession ?m)\<lparr>seTransport := l\<rparr>\<rparr>)"
    by (rule Cons.IH) (use Cons.prems quiet(2) in simp_all)
  finally show ?case by simp
qed

lemma await_apdu:
  assumes "\<forall>t. fUserData (mk t) = t" and "maPendingResp m = None" and "APDU_Parse d = Inr a"
    and "length d \<le> MaxReassemblySize"
  shows "\<exists>m'. (\<forall>events. await_response fo (map (\<lambda>t. Arrives (mk t)) (fst (Layer_Send tx d)) @ events) m
        = (Inr a, m', events))
    \<and> maPendingResp m' = None
    \<and> maCalls m' = maCalls m @ (if is_response a then [OnReceiveIIN (apIIN a)] else [])
        @ (if is_response a \<and> apObjects a \<noteq> [] then map SOE (processMeasurements fo a) else [])
    \<and> seRemoteAddr (maSession m') = seRemoteAddr (maSession m)"
proof -
  have "d \<noteq> []" using assms(3) by (auto simp: APDU_Parse_def)
  then obtain us u l l' where u: "fst (Layer_Send tx d) = us @ [u]"
    "receive_tpdus (seTransport (maSession m)) us = ([], l)" "Layer_Receive l u = (Inr (Some d), l')"
    using Send_received_last [of d tx "seTransport (maSession m)"] assms(4) by blast
  let ?m = "m\<lparr>maSession := (maSession m)\<lparr>seTransport := l\<rparr>\<rparr>"
  obtain e m1 where m1: "master_onReceiveAPDU fo d (m\<lparr>maSession := (maSession m)\<lparr>seTransport := l'\<rparr>\<rparr>) = (e, m1)"
    by fastforce
  then have m1': "maPendingResp m1 = Some a"
    "maCalls m1 = maCalls m @ (if is_response a then [OnReceiveIIN (apIIN a)] else [])
        @ (if is_response a \<and> apObjects a \<noteq> [] then map SOE (processMeasurements fo a) else [])"
    "seRemoteAddr (maSession m1) = seRemoteAddr (maSession m)"
    using assms(2,3) by (auto simp: master_onReceiveAPDU_def call_app_def Let_def)
  have "await_response fo (map (\<lambda>t. Arrives (mk t)) (fst (Layer_Send tx d)) @ events) m
      = (Inr a, m1\<lparr>maPendingResp := None\<rparr>, events)" for events
  proof -
    have "await_response fo (map (\<lambda>t. Arrives (mk t)) (fst (Layer_Send tx d)) @ events) m
      = await_response fo (Arrives (mk u) # events) ?m"
      using await_segments [of us mk m l fo "Arrives (mk u) # events"] u(1,2) assms(1,2) by simp
    moreover have "Master_OnReceive fo ?m (mk u) = (e, m1)"
      using u(3) assms(1) m1
      by (simp add: Master_OnReceive_def master_OnReceive_def transport_input_tpdu handed_up_def)
    ultimately show ?thesis using assms(2) m1'(1) by (simp add: await_pending)
  qed
  with m1' show ?thesis by (intro exI [of _ "m1\<lparr>maPendingResp := None\<rparr>"]) simp
qed

section \<open>A request and its response\<close>

lemma answer_is_response:
  "IsResponse (apFunctionCode (answer fo iin db a))" "apSequence (answer fo iin db a) AND 0x0F = apSequence (answer fo iin db a)"
  by (auto simp: answer_def NewResponseAPDU_def IsResponse_def byte_eq_iff bit_simps)

lemma buildControl_sel [simp]:
  "apFunctionCode (APDU_buildControl a) = apFunctionCode a" "apObjects (APDU_buildControl a) = apObjects a"
  "apSequence (APDU_buildControl a) = apSequence a" "apIIN (APDU_buildControl a) = apIIN a"
  "processMeasurements fo (APDU_buildControl a) = processMeasurements fo a"
  by (simp_all add: APDU_buildControl_byte processMeasurements_def)

lemma response_parses: "APDU_Parse (response_bytes_of (answer fo iin db a)) = Inr (APDU_buildControl (answer fo iin db a))"
  unfolding response_bytes_of_def using answer_is_response [of fo iin db a] by (intro APDU_Parse_built) simp_all

text \<open>
  The frames \<open>reqs\<close> of a request of the master make the outstation write the frames \<open>resps\<close> of
  its answer, and these end the master's wait.
\<close>

lemma request_answered:
  assumes "channel_up cm" and "channel_up co" and "distinct (map fst r)"
    and "map_of r (seRemoteAddr (maSession m)) = Some s" and "maPendingResp m = None"
    and w: "w = fst (APDU_Serialize (build (sqCurrent (maSeqCounter m))))" and "APDU_Parse w = Inr a"
    and "length w \<le> MaxReassemblySize" and resp: "resp = answer fo iin (ouDatabase s) a"
    and "length (response_bytes_of resp) \<le> MaxReassemblySize"
    and reqs: "reqs = apdu_frames master_frame (maSession m) w"
    and resps: "resps = apdu_frames outstation_frame (ouSession s) (response_bytes_of resp)"
  shows "\<exists>s' co' m' cm'.
      readLoop (outstation_ops fo iin) (map (\<lambda>f. Some (frame_bytes f)) reqs) r co
        = (set_session r (seRemoteAddr (maSession m)) s', co')
    \<and> ouDatabase s' = ouDatabase s \<and> channel_up co'
    \<and> chSent co' = chSent co @ map frame_bytes resps
    \<and> (\<forall>events. request_response fo build (map Arrives resps @ events) m cm
        = (Inr (APDU_buildControl resp), m', events, cm'))
    \<and> channel_up cm' \<and> chSent cm' = chSent cm @ map frame_bytes reqs
    \<and> maPendingResp m' = None \<and> seRemoteAddr (maSession m') = seRemoteAddr (maSession m)
    \<and> maCalls m' = maCalls m @ OnReceiveIIN (apIIN resp)
        # (if apObjects resp \<noteq> [] then map SOE (processMeasurements fo resp) else [])"
proof -
  obtain s' co' where 1: "readLoop (outstation_ops fo iin) (map (\<lambda>f. Some (frame_bytes f)) reqs) r co
        = (set_session r (seRemoteAddr (maSession m)) s', co')" "ouDatabase s' = ouDatabase s"
    "channel_up co'" "chSent co' = chSent co @ map frame_bytes resps"
    using outstation_reads_request [OF assms(2,3,4,7,8), of fo iin] unfolding reqs resps resp by blast
  let ?m = "m\<lparr>maSeqCounter := snd (SequenceCounter_Next (maSeqCounter m)),
      maSession := (maSession m)\<lparr>seTransport := snd (Layer_Send (seTransport (maSession m)) w)\<rparr>\<rparr>"
  have "\<forall>t. fUserData (outstation_frame (ouSession s) t) = t"
    by (simp add: outstation_frame_def NewFrame_def buildControl_def Let_def)
  from await_apdu [OF this, of ?m "response_bytes_of resp" "APDU_buildControl resp" fo
      "seTransport (ouSession s)"] response_parses [of fo iin "ouDatabase s" a] assms(5,10)
  obtain m' where 2: "\<forall>events. await_response fo (map Arrives resps @ events) ?m
      = (Inr (APDU_buildControl resp), m', events)"
    "maPendingResp m' = None" "seRemoteAddr (maSession m') = seRemoteAddr (maSession m)"
    "maCalls m' = maCalls m @ OnReceiveIIN (apIIN resp)
        # (if apObjects resp \<noteq> [] then map SOE (processMeasurements fo resp) else [])"
    using answer_is_response(1) [of fo iin "ouDatabase s" a]
    by (auto simp: resp resps apdu_frames_def comp_def is_response_def)
  from sendAPDU_up(1) [OF assms(1), of "maSession m" w] obtain cm' where
    3: "master_sendAPDU (maSession m) w cm
      = (None, (maSession m)\<lparr>seTransport := snd (Layer_Send (seTransport (maSession m)) w)\<rparr>, cm')"
    "channel_up cm'" "chSent cm' = chSent cm @ map frame_bytes reqs" unfolding reqs by blast
  have "request_response fo build (map Arrives resps @ events) m cm
      = (Inr (APDU_buildControl resp), m', events, cm')" for events
    using 2(1) 3(1)
    by (simp add: request_response_def Master_getNextSequence_def SequenceCounter_Next_def sendAndWait_def
        w [symmetric])
  with 1 2 3 show ?thesis by blast
qed

section \<open>Commands\<close>

lemma empty_response_success:
  "apObjects resp = [] \<Longrightarrow> parseCommandResponse (Some resp) n = replicate n CommandStatusSuccess"
  by (simp add: parseCommandResponse_def)

lemma request_parses:
  assumes "\<not> IsResponse fc"
  shows "APDU_Parse (fst (APDU_Serialize (NewRequestAPDU fc q d))) = Inr (APDU_buildControl (NewRequestAPDU fc q d))"
  using assms by (intro APDU_Parse_built) (simp_all add: NewRequestAPDU_def byte_eq_iff bit_simps)

lemma request_length: "length (fst (APDU_Serialize (NewRequestAPDU fc q d))) \<le> length d + 4"
  by (simp add: APDU_Serialize_def NewRequestAPDU_def APDU_buildControl_byte Let_def)

lemma control_blocks_length: "length (concat (map control_block cs)) = 16 * length cs"
  by (induction cs) (simp_all add: control_block_def header_bytes_def AddHeader_def range_bytes_def point_header_def)

lemma buildCROBObjects_length: "length (buildCROBObjects cmds) \<le> 16 * length cmds"
proof -
  have "length (List.map_filter crob_of cmds) \<le> length cmds" by (simp add: map_filter_def)
  then show ?thesis by (simp add: buildCROBObjects_blocks control_blocks_length)
qed

text \<open>The frames of a command request, and of the empty response to it.\<close>

definition command_request :: "AppFunction \<Rightarrow> byte \<Rightarrow> Command list \<Rightarrow> bytes" where
  "command_request fc seq cmds =
     fst (APDU_Serialize (NewRequestAPDU fc seq (concat (map control_block (List.map_filter crob_of cmds)))))"

definition empty_response :: "byte \<Rightarrow> IIN \<Rightarrow> bytes" where
  "empty_response seq iin = fst (APDU_Serialize (NewResponseAPDU seq iin []))"

text \<open>A request changes nothing in the session of the master but its transport layer.\<close>

lemma master_receive_session:
  "maSeqCounter (snd (master_onReceiveAPDU fo d m)) = maSeqCounter m"
  "maSession (snd (master_onReceiveAPDU fo d m)) = maSession m"
  by (simp_all add: master_onReceiveAPDU_def call_app_def Let_def split: sum.split option.split)

lemma master_frame_session:
  "maSeqCounter (snd (Master_OnReceive fo m f)) = maSeqCounter m
    \<and> (\<exists>t. maSession (snd (Master_OnReceive fo m f)) = (maSession m)\<lparr>seTransport := t\<rparr>)"
proof -
  obtain r se where r: "master_OnReceive (maSession m) f = (r, se)" by fastforce
  have "\<exists>t. se = (maSession m)\<lparr>seTransport := t\<rparr>"
    using r by (auto simp: master_OnReceive_def transport_input_def split: prod.splits sum.splits option.splits)
  then show ?thesis
    using r by (cases r) (auto simp: Master_OnReceive_def master_receive_session)
qed

lemma await_session:
  "await_response fo events m = (r, m', events') \<Longrightarrow> maSeqCounter m' = maSeqCounter m
    \<and> (\<exists>t. maSession m' = (maSession m)\<lparr>seTransport := t\<rparr>)"
proof (induction fo events m arbitrary: m' rule: await_response.induct)
  case (1 fo m)
  then show ?case by (auto split: option.splits intro: exI [of _ "seTransport (maSession m)"])
next
  case (2 fo event events m)
  show ?case
  proof (cases "maPendingResp m = None \<and> (\<exists>frame. event = Arrives frame)")
    case True
    then obtain frame where f: "maPendingResp m = None" "event = Arrives frame" by blast
    then have "await_response fo events (snd (Master_OnReceive fo m frame)) = (r, m', events')"
      using "2.prems" by simp
    from "2.IH" [OF f this] master_frame_session [of fo m frame] show ?thesis by auto
  next
    case False
    then show ?thesis using "2.prems"
      by (auto split: option.splits response_event.splits intro: exI [of _ "seTransport (maSession m)"])
  qed
qed

lemma request_session:
  assumes "channel_up c" and "request_response fo build events m c = (r, m', events', c')"
  shows "maSeqCounter m' = snd (SequenceCounter_Next (maSeqCounter m))"
    and "\<exists>t. maSession m' = (maSession m)\<lparr>seTransport := t\<rparr>"
proof -
  let ?m = "m\<lparr>maSeqCounter := snd (SequenceCounter_Next (maSeqCounter m)),
     maSession := (maSession m)\<lparr>seTransport := snd (Layer_Send (seTransport (maSession m))
       (fst (APDU_Serialize (build (sqCurrent (maSeqCounter m))))))\<rparr>\<rparr>"
  obtain x where "await_response fo events ?m = (r, m', x)"
    using request_up [OF assms(1), of fo build events m] assms(2) by (auto simp: split_beta prod_eq_iff)
  from await_session [OF this]
  show "maSeqCounter m' = snd (SequenceCounter_Next (maSeqCounter m))"
    and "\<exists>t. maSession m' = (maSession m)\<lparr>seTransport := t\<rparr>" by auto
qed

lemma command_request_answered:
  assumes "channel_up cm" and "channel_up co" and "distinct (map fst r)"
    and "map_of r (seRemoteAddr (maSession m)) = Some s" and "maPendingResp m = None"
    and "length cmds \<le> 127" and "fc = FuncSelect \<or> fc = FuncOperate"
    and reqs: "reqs = apdu_frames master_frame (maSession m) (command_request fc (sqCurrent (maSeqCounter m)) cmds)"
    and resps: "resps = apdu_frames outstation_frame (ouSession s) (empty_response (sqCurrent (maSeqCounter m)) iin)"
  shows "\<exists>s' co' m' cm' resp.
      readLoop (outstation_ops fo iin) (map (\<lambda>f. Some (frame_bytes f)) reqs) r co
        = (set_session r (seRemoteAddr (maSession m)) s', co')
    \<and> ouDatabase s' = ouDatabase s \<and> channel_up co'
    \<and> chSent co' = chSent co @ map frame_bytes resps
    \<and> (\<forall>events. request_response fo (\<lambda>seq. NewRequestAPDU fc seq (buildCROBObjects cmds)) (map Arrives resps @ events) m cm
        = (Inr resp, m', events, cm')) \<and> apObjects resp = []
    \<and> channel_up cm' \<and> chSent cm' = chSent cm @ map frame_bytes reqs
    \<and> maPendingResp m' = None \<and> seRemoteAddr (maSession m') = seRemoteAddr (maSession m)"
proof -
  let ?q = "sqCurrent (maSeqCounter m)" and ?d = "buildCROBObjects cmds"
  let ?w = "fst (APDU_Serialize (NewRequestAPDU fc ?q ?d))" and ?a = "APDU_buildControl (NewRequestAPDU fc ?q ?d)"
  let ?resp = "answer fo iin (ouDatabase s) ?a"
  have fc: "\<not> IsResponse fc" using assms(7) by (auto simp: IsResponse_def)
  have "length ?w \<le> MaxReassemblySize"
    using request_length [of fc ?q ?d] buildCROBObjects_length [of cmds] assms(6) by simp
  moreover have obj: "apObjects ?resp = []" and "length (response_bytes_of ?resp) \<le> MaxReassemblySize"
    using assms(7) by (auto simp: answer_def NewRequestAPDU_def NewResponseAPDU_def response_bytes_of_def
        APDU_Serialize_def APDU_buildControl_byte Let_def)
  moreover have "response_bytes_of ?resp = empty_response ?q iin"
    using assms(7) by (auto simp: answer_def NewRequestAPDU_def NewResponseAPDU_def response_bytes_of_def
        empty_response_def and.assoc)
  moreover have "?w = command_request fc ?q cmds" by (simp add: command_request_def buildCROBObjects_blocks)
  ultimately show ?thesis
    using request_answered [where build = "\<lambda>seq. NewRequestAPDU fc seq ?d" and fo = fo and iin = iin,
        OF assms(1-5) refl request_parses [OF fc] _ refl _ refl refl] unfolding reqs resps
    by (metis buildControl_sel(2))
qed

section \<open>Polls\<close>

definition with_index :: "'a list \<Rightarrow> (u16 \<times> 'a) list" where
  "with_index xs = map (\<lambda>i. (of_nat i, xs ! i)) [0..<length xs]"

definition static_header :: "byte \<Rightarrow> byte \<Rightarrow> nat \<Rightarrow> ObjectHeader" where
  "static_header grp variation n =
     \<lparr>ohGroup = grp, ohVariation = variation, ohQualifier = Qualifier8BitStartStop,
      ohRange = StartStopRange 0 (of_nat (n - 1))\<rparr>"

lemma small_index: "n \<le> 255 \<Longrightarrow> (of_nat n :: u32) \<le> 255 \<and> unat (of_nat n :: u32) = n"
  by (simp add: word_le_nat_alt unat_of_nat take_bit_eq_mod)

lemma static_header_props:
  assumes "0 < n" and "n \<le> 256"
  shows "header_fits (static_header grp v n)" and "unat (GetCount (ohRange (static_header grp v n))) = n"
    and "response_header grp v n = header_bytes (static_header grp v n)"
proof -
  have s: "(of_nat (n - 1) :: u32) \<le> 255" "unat (of_nat (n - 1) :: u32) = n - 1"
    using small_index [of "n - 1"] assms(2) by simp_all
  then show "header_fits (static_header grp v n)"
    by (simp add: header_fits_def range_fits_def static_header_def)
  show "unat (GetCount (ohRange (static_header grp v n))) = n"
    using assms by (cases n) (simp_all add: GetCount_def static_header_def unat_of_nat take_bit_eq_mod
        add.commute [of _ 1] flip: of_nat_Suc)
  show "response_header grp v n = header_bytes (static_header grp v n)"
    by (simp add: response_header_def header_bytes_def static_header_def NewObjectBuilder_def)
qed

lemma add_objects: "foldl (\<lambda>b p. AddRawData b (obj p)) b ps = b @ concat (map obj ps)"
  by (induction ps arbitrary: b) (simp_all add: AddRawData_def)

lemma measure_block:
  assumes "header_fits h" and "ValidateObjectHeader h = None" and "\<forall>d\<in>set ds. length d = w"
    and "unat (GetCount (ohRange h)) = length ds" and "start_index (ohRange h) = 0"
    and "\<And>p. process_group fo h p = (case header_objects conv w h p of (vs, p') \<Rightarrow> ([K vs], p'))"
  shows "measure_headers fo \<lparr>psData = pre @ header_bytes h @ concat ds @ rest, psOffset = length pre\<rparr> calls
    = measure_headers fo \<lparr>psData = (pre @ header_bytes h @ concat ds) @ rest,
        psOffset = length (pre @ header_bytes h @ concat ds)\<rparr> (calls @ [K (with_index (map conv ds))])"
proof -
  let ?p = "\<lparr>psData = (pre @ header_bytes h) @ concat ds @ rest, psOffset = length (pre @ header_bytes h)\<rparr>"
  let ?p' = "\<lparr>psData = (pre @ header_bytes h @ concat ds) @ rest, psOffset = length (pre @ header_bytes h @ concat ds)\<rparr>"
  have idx: "(ucast (of_nat i :: u32) :: u16) = of_nat i" for i
    by (rule word_unat_eq_iff [THEN iffD2]) (simp add: unat_of_nat unsigned_ucast_eq take_bit_eq_mod mod_mod_cancel)
  have objs: "header_objects conv w h ?p = (with_index (map conv ds), ?p')"
    using read_objects_at [OF assms(3), of conv 0 "pre @ header_bytes h" rest "[]"] assms(4,5)
    by (simp add: header_objects_def with_index_def idx)
  note h = header_at [OF assms(1), of pre "concat ds @ rest"]
  have "process_group fo h ?p = ([K (with_index (map conv ds))], ?p')"
    by (simp only: assms(6) objs prod.case)
  then show ?thesis
    using h assms(2) by (subst measure_headers.simps) (simp del: append_assoc length_append)
qed

text \<open>What the master's application sees of a point.\<close>

definition binary_seen :: "BinaryPoint \<Rightarrow> Binary" where
  "binary_seen p = (let f = biFlags (bpValue p) in \<lparr>biValue = (f AND 0x80 \<noteq> 0), biFlags = f, biTime = 0\<rparr>)"

definition analog_seen :: "float_ops \<Rightarrow> byte \<Rightarrow> AnalogPoint \<Rightarrow> Analog" where
  "analog_seen fo v p =
     (let x = anValue (apValue p) in
      \<lparr>anValue = (if v = 1 then foIntToF64 fo (sint (foF64ToInt32 fo x))
                  else if v = 2 then foIntToF64 fo (sint (foF64ToInt16 fo x))
                  else if v = 5 then foF32ToF64 fo (foF64ToF32 fo x)
                  else x),
       anFlags = anFlags (apValue p), anTime = 0\<rparr>)"

definition counter_seen :: "byte \<Rightarrow> CounterPoint \<Rightarrow> Counter" where
  "counter_seen v p =
     \<lparr>cnValue = (if v = 1 \<or> v = 5 then cnValue (cpValue p) else take_bit 16 (cnValue (cpValue p))),
      cnFlags = cnFlags (cpValue p), cnTime = 0\<rparr>"

lemma objects_seen:
  "binary_of (binary_object b) = binary_seen b"
  "v \<in> {1, 2, 5, 6} \<Longrightarrow> analog_of fo v (analog_object fo v a) = analog_seen fo v a"
  "v \<in> {1, 2, 5, 6} \<Longrightarrow> counter_of v (counter_object v c) = counter_seen v c"
proof -
  have low: "ucast (ucast y :: u16) = take_bit 16 y" for y :: u32
    by (rule bit_word_eqI) (auto simp: bit_simps)
  show "binary_of (binary_object b) = binary_seen b"
    by (simp add: binary_of_def binary_object_def binary_seen_def BinaryInput_Serialize_def
        ParseBinaryInput_def Let_def)
  show "v \<in> {1, 2, 5, 6} \<Longrightarrow> analog_of fo v (analog_object fo v a) = analog_seen fo v a"
    by (auto simp: analog_of_def analog_object_def analog_seen_def analog_number_def le_roundtrip
        AnalogInput_Serialize32Bit_def AnalogInput_Serialize16Bit_def AnalogInput_SerializeFloat_def
        AnalogInput_SerializeDouble_def ParseAnalogInput32Bit_def ParseAnalogInput16Bit_def
        ParseAnalogInputFloat_def ParseAnalogInputDouble_def)
  show "v \<in> {1, 2, 5, 6} \<Longrightarrow> counter_of v (counter_object v c) = counter_seen v c"
    by (auto simp: counter_of_def counter_object_def counter_seen_def le_roundtrip low Counter_Serialize32Bit_def
        Counter_Serialize16Bit_def ParseCounter32Bit_def ParseCounter16Bit_def)
qed

lemma object_sizes:
  "length (binary_object b) = GetObjectSize 1 2"
  "v \<in> {1, 2, 5, 6} \<Longrightarrow> length (analog_object fo v a) = GetObjectSize 30 v"
  "v \<in> {1, 2, 5, 6} \<Longrightarrow> length (counter_object v c) = GetObjectSize 20 v"
  by (auto simp: binary_object_def BinaryInput_Serialize_def GetObjectSize_def analog_object_def counter_object_def
      AnalogInput_Serialize32Bit_def AnalogInput_Serialize16Bit_def AnalogInput_SerializeFloat_def
      AnalogInput_SerializeDouble_def Counter_Serialize32Bit_def Counter_Serialize16Bit_def)

text \<open>Databases whose static data a one-byte range and the parser of the master can carry.\<close>

definition pollable :: "Database \<Rightarrow> bool" where
  "pollable db \<longleftrightarrow> length (dbBinary db) \<le> 256 \<and> length (dbAnalog db) \<le> 256 \<and> length (dbCounter db) \<le> 256
    \<and> (dbBinary db = [] \<or> bpStaticVariation (dbBinary db ! 0) = 2)
    \<and> (dbAnalog db = [] \<or> apStaticVariation (dbAnalog db ! 0) \<in> {1, 2, 5, 6})
    \<and> (dbCounter db = [] \<or> cpStaticVariation (dbCounter db ! 0) \<in> {1, 2, 5, 6})"

definition static_calls :: "float_ops \<Rightarrow> Database \<Rightarrow> soe_call list" where
  "static_calls fo db =
     (let info = (\<lambda>grp v n. header_info (static_header grp v n));
          av = apStaticVariation (dbAnalog db ! 0); cv = cpStaticVariation (dbCounter db ! 0)
      in (if dbBinary db = [] then []
          else [ProcessBinary (info 1 2 (length (dbBinary db))) (with_index (map binary_seen (dbBinary db)))])
         @ (if dbAnalog db = [] then []
            else [ProcessAnalog (info 30 av (length (dbAnalog db))) (with_index (map (analog_seen fo av) (dbAnalog db)))])
         @ (if dbCounter db = [] then []
            else [ProcessCounter (info 20 cv (length (dbCounter db))) (with_index (map (counter_seen cv) (dbCounter db)))]))"

lemma static_block:
  assumes "0 < n" and "n \<le> 256" and "length ds = n" and "\<forall>d\<in>set ds. length d = w"
    and "ValidateObjectHeader (static_header g v n) = None"
    and "\<And>p. process_group fo (static_header g v n) p
      = (case header_objects conv w (static_header g v n) p of (vs, p') \<Rightarrow> ([K vs], p'))"
    and "b = response_header g v n @ concat ds"
  shows "measure_headers fo \<lparr>psData = pre @ b @ rest, psOffset = length pre\<rparr> calls
    = measure_headers fo \<lparr>psData = (pre @ b) @ rest, psOffset = length (pre @ b)\<rparr>
        (calls @ [K (with_index (map conv ds))])"
proof -
  note props = static_header_props [OF assms(1,2), of g v]
  have "start_index (ohRange (static_header g v n)) = 0" by (simp add: start_index_def static_header_def)
  from measure_block [OF props(1) assms(5,4) _ this assms(6), of pre rest calls] props(2,3) assms(3,7)
  show ?thesis by (simp del: append_assoc length_append) (simp add: append_assoc)
qed

lemma static_header_sel:
  "ohGroup (static_header g v n) = g" "ohVariation (static_header g v n) = v"
  by (simp_all add: static_header_def)

lemma static_header_valid:
  "0 < n \<Longrightarrow> n \<le> 256 \<Longrightarrow> (g, v) \<in> {(1, 2), (20, 1), (20, 2), (20, 5), (20, 6), (30, 1), (30, 2), (30, 5), (30, 6)} \<Longrightarrow>
    ValidateObjectHeader (static_header g v n) = None"
  by (auto simp: ValidateObjectHeader_def static_header_def IsValidGroup_def IsValidVariation_def
      IsValidQualifier_def ValidateRange_def)

lemma binary_block:
  assumes "pollable db" and "dbBinary db \<noteq> []"
  shows "measure_headers fo \<lparr>psData = pre @ buildBinaryInputResponse db None @ rest, psOffset = length pre\<rparr> calls
    = measure_headers fo \<lparr>psData = (pre @ buildBinaryInputResponse db None) @ rest,
        psOffset = length (pre @ buildBinaryInputResponse db None)\<rparr>
        (calls @ [ProcessBinary (header_info (static_header 1 2 (length (dbBinary db))))
                   (with_index (map binary_seen (dbBinary db)))])"
proof -
  let ?n = "length (dbBinary db)"
  have n: "0 < ?n" "?n \<le> 256" "bpStaticVariation (dbBinary db ! 0) = 2"
    using assms by (auto simp: pollable_def)
  have "map binary_seen (dbBinary db) = map binary_of (map binary_object (dbBinary db))"
    by (simp add: objects_seen)
  then show ?thesis
    by (simp only:) (rule static_block [OF n(1,2), where w = "GetObjectSize 1 2"],
      use n in \<open>auto simp: object_sizes static_header_valid static_header_sel process_group_def Let_def
        processBinaryObjects_def GetObjectSize_def buildBinaryInputResponse_def pick_variation_def add_objects
        split: prod.split\<close>)
qed

lemma analog_block:
  assumes "pollable db" and "dbAnalog db \<noteq> []" and "v = apStaticVariation (dbAnalog db ! 0)"
  shows "measure_headers fo \<lparr>psData = pre @ buildAnalogInputResponse fo db None @ rest, psOffset = length pre\<rparr> calls
    = measure_headers fo \<lparr>psData = (pre @ buildAnalogInputResponse fo db None) @ rest,
        psOffset = length (pre @ buildAnalogInputResponse fo db None)\<rparr>
        (calls @ [ProcessAnalog (header_info (static_header 30 v (length (dbAnalog db))))
                   (with_index (map (analog_seen fo v) (dbAnalog db)))])"
proof -
  let ?n = "length (dbAnalog db)"
  have n: "0 < ?n" "?n \<le> 256" and v: "v \<in> {1, 2, 5, 6}"
    using assms by (auto simp: pollable_def)
  have "map (analog_seen fo v) (dbAnalog db) = map (analog_of fo v) (map (analog_object fo v) (dbAnalog db))"
    using v by (simp add: objects_seen)
  then show ?thesis
    by (simp only:) (rule static_block [OF n, where w = "GetObjectSize 30 v"],
      use n v assms(3) in \<open>auto simp: object_sizes static_header_valid static_header_sel process_group_def Let_def
        processAnalogObjects_def GetObjectSize_def buildAnalogInputResponse_def pick_variation_def add_objects
        split: prod.split\<close>)
qed

lemma counter_block:
  assumes "pollable db" and "dbCounter db \<noteq> []" and "v = cpStaticVariation (dbCounter db ! 0)"
  shows "measure_headers fo \<lparr>psData = pre @ buildCounterResponse db None @ rest, psOffset = length pre\<rparr> calls
    = measure_headers fo \<lparr>psData = (pre @ buildCounterResponse db None) @ rest,
        psOffset = length (pre @ buildCounterResponse db None)\<rparr>
        (calls @ [ProcessCounter (header_info (static_header 20 v (length (dbCounter db))))
                   (with_index (map (counter_seen v) (dbCounter db)))])"
proof -
  let ?n = "length (dbCounter db)"
  have n: "0 < ?n" "?n \<le> 256" and v: "v \<in> {1, 2, 5, 6}"
    using assms by (auto simp: pollable_def)
  have "map (counter_seen v) (dbCounter db) = map (counter_of v) (map (counter_object v) (dbCounter db))"
    using v by (simp add: objects_seen)
  then show ?thesis
    by (simp only:) (rule static_block [OF n, where w = "GetObjectSize 20 v"],
      use n v assms(3) in \<open>auto simp: object_sizes static_header_valid static_header_sel process_group_def Let_def
        processCounterObjects_def GetObjectSize_def buildCounterResponse_def pick_variation_def add_objects
        split: prod.split\<close>)
qed

lemma static_measured:
  assumes "pollable db"
  shows "measure_headers fo (NewParser (buildStaticData fo db)) [] = static_calls fo db"
proof -
  let ?b = "if length (dbBinary db) > 0 then buildBinaryInputResponse db None else []"
  let ?a = "if length (dbAnalog db) > 0 then buildAnalogInputResponse fo db None else []"
  let ?c = "if length (dbCounter db) > 0 then buildCounterResponse db None else []"
  let ?m = "\<lambda>pre rest calls. measure_headers fo \<lparr>psData = pre @ rest, psOffset = length pre\<rparr> calls"
  have b: "?m pre (?b @ rest) calls = ?m (pre @ ?b) rest (calls @ (if dbBinary db = [] then []
      else [ProcessBinary (header_info (static_header 1 2 (length (dbBinary db))))
             (with_index (map binary_seen (dbBinary db)))]))" for pre rest calls
    using binary_block [OF assms] by auto
  have a: "?m pre (?a @ rest) calls = ?m (pre @ ?a) rest (calls @ (if dbAnalog db = [] then []
      else [ProcessAnalog (header_info (static_header 30 (apStaticVariation (dbAnalog db ! 0)) (length (dbAnalog db))))
             (with_index (map (analog_seen fo (apStaticVariation (dbAnalog db ! 0))) (dbAnalog db)))]))"
    for pre rest calls
    using analog_block [OF assms _ refl] by auto
  have c: "?m pre (?c @ rest) calls = ?m (pre @ ?c) rest (calls @ (if dbCounter db = [] then []
      else [ProcessCounter (header_info (static_header 20 (cpStaticVariation (dbCounter db ! 0)) (length (dbCounter db))))
             (with_index (map (counter_seen (cpStaticVariation (dbCounter db ! 0))) (dbCounter db)))]))"
    for pre rest calls
    using counter_block [OF assms _ refl] by auto
  have e: "?m pre [] calls = calls" for pre calls
    by (subst measure_headers.simps) (simp add: HasMore_def)
  have "measure_headers fo (NewParser (buildStaticData fo db)) [] = ?m [] (?b @ ?a @ ?c @ []) []"
    by (simp add: NewParser_def buildStaticData_def)
  also have "\<dots> = static_calls fo db"
    by (simp only: b a c e) (simp add: static_calls_def Let_def)
  finally show ?thesis .
qed

lemma integrity_static: "buildReadResponse fo db BuildIntegrityPoll = buildStaticData fo db"
proof -
  have "BuildIntegrityPoll = concat (map header_bytes (class_headers [Class0]))"
    by (simp add: BuildIntegrityPoll_def BuildClassRead_headers)
  then have "buildReadResponse fo db BuildIntegrityPoll = concat (map (read_group fo db) (class_headers [Class0]))"
    using buildReadResponse_stream [OF class_headers_fit] by metis
  then show ?thesis
    by (simp add: class_headers_def class_variation_def map_filter_def read_group_def class_header_def)
qed

lemma apdu_frames_valid:
  "list_all frame_valid (apdu_frames master_frame se d)" "list_all frame_valid (apdu_frames outstation_frame se d)"
proof -
  have "frame_valid (mk t)" if "t \<in> set (fst (Layer_Send tx d))" and "\<And>t. length t \<le> 250 \<Longrightarrow> frame_valid (mk t)"
    for t tx and mk :: "bytes \<Rightarrow> Frame"
    using Send_sizes [OF that(1)] that(2) [of t] by simp
  then show "list_all frame_valid (apdu_frames master_frame se d)" "list_all frame_valid (apdu_frames outstation_frame se d)"
    using station_frames_valid by (auto simp: list_all_iff apdu_frames_def)
qed

section \<open>Properties\<close>

text \<open>The channel and the master of the witnesses: an open channel, address 1 talking to address 10.\<close>

definition sample_channel :: Channel where
  "sample_channel = (NewChannel [])\<lparr>chState := ChannelStateOpen\<rparr>"

definition sample_master :: master where
  "sample_master = new_master (plain_master_config 1 10)"

lemma integrity_poll_exchange:
  assumes "channel_up cm" and "channel_up co" and "distinct (map fst r)"
    and "map_of r (seRemoteAddr (maSession m)) = Some s" and "maPendingResp m = None"
    and "pollable (ouDatabase s)" and "buildStaticData fo (ouDatabase s) \<noteq> []"
    and "length (buildStaticData fo (ouDatabase s)) \<le> 2044"
  shows "\<exists>reqs resps s' co' m' cm' resp.
      readLoop (outstation_ops fo iin) (map (\<lambda>f. Some (frame_bytes f)) reqs) r co
        = (set_session r (seRemoteAddr (maSession m)) s', co')
    \<and> chSent co' = chSent co @ map frame_bytes resps
    \<and> performIntegrityScan fo (map Arrives resps) m cm = (Inr resp, m', [], cm')
    \<and> chSent cm' = chSent cm @ map frame_bytes reqs
    \<and> maCalls m' = maCalls m @ [OnReceiveIIN iin] @ map SOE
        (let info = \<lparr>riUnsolicited = False, riFIR = True, riFIN = True\<rparr>
         in OnBeginFragment info # static_calls fo (ouDatabase s) @ [OnEndFragment info])
    \<and> list_all frame_valid reqs \<and> list_all frame_valid resps"
proof -
  let ?q = "sqCurrent (maSeqCounter m)" and ?db = "ouDatabase s"
  let ?w = "fst (APDU_Serialize (BuildIntegrityPollRequest ?q))"
  let ?a = "APDU_buildControl (BuildIntegrityPollRequest ?q)"
  let ?resp = "answer fo iin ?db ?a"
  have req: "BuildIntegrityPollRequest q = NewRequestAPDU FuncRead q BuildIntegrityPoll" for q
    by (simp add: BuildIntegrityPollRequest_def BuildReadRequest_def)
  have p: "APDU_Parse ?w = Inr ?a" unfolding req by (rule request_parses) (simp add: IsResponse_def)
  have "length BuildIntegrityPoll = 3" by code_simp
  then have w: "length ?w \<le> MaxReassemblySize"
    using request_length [of FuncRead ?q BuildIntegrityPoll] unfolding req by simp
  have resp: "?resp = NewResponseAPDU (?q AND 0x0F) iin (buildStaticData fo ?db)"
    by (simp add: answer_def req) (simp add: NewRequestAPDU_def integrity_static)
  have len: "length (response_bytes_of ?resp) \<le> MaxReassemblySize"
    using assms(8) unfolding resp
    by (simp add: response_bytes_of_def APDU_Serialize_def APDU_buildControl_byte NewResponseAPDU_def Let_def)
  have calls: "apIIN ?resp = iin" "apObjects ?resp \<noteq> []"
    "processMeasurements fo ?resp = (let info = \<lparr>riUnsolicited = False, riFIR = True, riFIN = True\<rparr>
         in OnBeginFragment info # static_calls fo ?db @ [OnEndFragment info])"
    using assms(7) static_measured [OF assms(6)]
    unfolding resp by (simp_all add: processMeasurements_def NewResponseAPDU_def Let_def)
  let ?reqs = "apdu_frames master_frame (maSession m) ?w"
    and ?resps = "apdu_frames outstation_frame (ouSession s) (response_bytes_of ?resp)"
  obtain s' co' m' cm' where
    1: "readLoop (outstation_ops fo iin) (map (\<lambda>f. Some (frame_bytes f)) ?reqs) r co
        = (set_session r (seRemoteAddr (maSession m)) s', co')"
    "chSent co' = chSent co @ map frame_bytes ?resps"
    "\<And>events. request_response fo BuildIntegrityPollRequest (map Arrives ?resps @ events) m cm
        = (Inr (APDU_buildControl ?resp), m', events, cm')"
    "chSent cm' = chSent cm @ map frame_bytes ?reqs"
    "maCalls m' = maCalls m @ OnReceiveIIN (apIIN ?resp)
        # (if apObjects ?resp \<noteq> [] then map SOE (processMeasurements fo ?resp) else [])"
    using request_answered [where build = BuildIntegrityPollRequest and fo = fo and iin = iin,
      OF assms(1-5) refl p w refl len refl refl] by blast
  have "performIntegrityScan fo (map Arrives ?resps) m cm = (Inr (APDU_buildControl ?resp), m', [], cm')"
    using 1(3) [of "[]"] by (simp add: performIntegrityScan_def del: MaxReassemblySize_def)
  with 1(1,2,4,5) calls apdu_frames_valid show ?thesis
    by (intro exI [of _ ?reqs] exI [of _ ?resps]) (simp del: MaxReassemblySize_def, blast)
qed

text \<open>
  C4: an integrity poll brings the static data of the outstation to the master's application. Take a
  master with no response pending and an outstation at its remote address, both on open channels (the
  outstation beside any other stations, each address once); let the outstation's binary inputs, analog
  inputs and counters be at most 256 per kind, not all without points, the static variation of the
  first point of each kind (which the code uses for all of them) one the master can size, and the
  static data at most 2044 bytes. The frames of the poll make the outstation write the frames of one
  response, and when these arrive the poll succeeds and the application is handed, between the begin
  and the end of one fragment, every binary input, analog input and counter point of the database
  once, in order, with its index and flags, and nothing else: the points of the other kinds
  (double-bit inputs, frozen counters and the statuses of binary and analog outputs) are not in the
  response. Counters arrive exactly (modulo 65536 in the 16-bit variations) and analog values through
  the conversions of the variation; but the value of a binary point is not sent: the application gets
  bit 7 of its flags instead.
\<close>

theorem integrity_poll_delivers:
  assumes "channel_up cm" and "channel_up co" and "distinct (map fst r)"
    and "map_of r (seRemoteAddr (maSession m)) = Some s" and "maPendingResp m = None"
    and "pollable (ouDatabase s)" and "buildStaticData fo (ouDatabase s) \<noteq> []"
    and "length (buildStaticData fo (ouDatabase s)) \<le> 2044"
  shows "\<exists>reqs resps s' co' m' cm' resp.
      readLoop (outstation_ops fo iin) (map (\<lambda>f. Some (frame_bytes f)) reqs) r co
        = (set_session r (seRemoteAddr (maSession m)) s', co')
    \<and> chSent co' = chSent co @ map frame_bytes resps
    \<and> performIntegrityScan fo (map Arrives resps) m cm = (Inr resp, m', [], cm')
    \<and> chSent cm' = chSent cm @ map frame_bytes reqs
    \<and> maCalls m' = maCalls m @ [OnReceiveIIN iin] @ map SOE
        (let info = \<lparr>riUnsolicited = False, riFIR = True, riFIN = True\<rparr>
         in OnBeginFragment info # static_calls fo (ouDatabase s) @ [OnEndFragment info])"
  using integrity_poll_exchange [OF assms, of iin] by blast

theorem integrity_poll_delivers_witness:
  "\<exists>reqs resps s' co' m' cm' resp.
      readLoop (outstation_ops sample_floats \<lparr>iin1 = 0x80, iin2 = 0\<rparr>)
          (map (\<lambda>f. Some (frame_bytes f)) reqs) [(10, sample_outstation)] sample_channel
        = (set_session [(10, sample_outstation)] 10 s', co')
    \<and> chSent co' = map frame_bytes resps
    \<and> performIntegrityScan sample_floats (map Arrives resps) sample_master sample_channel
        = (Inr resp, m', [], cm')
    \<and> chSent cm' = map frame_bytes reqs
    \<and> maCalls m' = OnReceiveIIN \<lparr>iin1 = 0x80, iin2 = 0\<rparr> # map SOE
        [OnBeginFragment \<lparr>riUnsolicited = False, riFIR = True, riFIN = True\<rparr>,
         ProcessCounter (header_info (static_header 20 1 1)) [(0, \<lparr>cnValue = 0, cnFlags = 0, cnTime = 0\<rparr>)],
         OnEndFragment \<lparr>riUnsolicited = False, riFIR = True, riFIN = True\<rparr>]"
proof -
  let ?db = "ouDatabase sample_outstation"
  note db = sample_outstation_def new_outstation_def NewDatabase_def
  have calls: "static_calls sample_floats ?db
      = [ProcessCounter (header_info (static_header 20 1 1)) [(0, \<lparr>cnValue = 0, cnFlags = 0, cnTime = 0\<rparr>)]]"
    by (simp add: db static_calls_def with_index_def counter_seen_def)
  have "pollable ?db" by (simp add: db pollable_def)
  moreover have static: "buildStaticData sample_floats ?db = [20, 1, 0, 0, 0, 0, 0, 0, 0, 0]" by code_simp
  moreover have "map_of [(10, sample_outstation)] (seRemoteAddr (maSession sample_master)) = Some sample_outstation"
    and "maPendingResp sample_master = None" and "channel_up sample_channel"
    and "chSent sample_channel = []" and "maCalls sample_master = []"
    and "seRemoteAddr (maSession sample_master) = 10"
    by (simp_all add: sample_channel_def sample_master_def plain_master_config_def new_master_def newSession_def channel_up_def NewChannel_def)
  ultimately show ?thesis
    using integrity_poll_delivers [of sample_channel sample_channel "[(10, sample_outstation)]" sample_master
        sample_outstation sample_floats "\<lparr>iin1 = 0x80, iin2 = 0\<rparr>"] calls by (simp add: Let_def)
qed

text \<open>
  C26: a select-and-operate reports success for every command, sent or not, from two empty responses.
  Take a master with no response pending and an outstation at its remote address, both on open
  channels (the outstation beside any other stations, each address once), and a select-and-operate of
  at most 127 commands of any kind for any points. The master writes a SELECT and an OPERATE request
  that carry a control block for each command that is a relay control, and nothing for the others; the
  outstation writes an empty response to each, whatever the points and the blocks, and its database
  stays as it was; and with these two responses the master returns success for every command, also for
  those that were not sent.
\<close>

theorem commands_reported_successful:
  assumes "channel_up cm" and "channel_up co" and "distinct (map fst r)"
    and "map_of r (seRemoteAddr (maSession m)) = Some s" and "maPendingResp m = None"
    and "length cmds \<le> 127"
    and q: "q = sqCurrent (maSeqCounter m)" and q': "q' = sqCurrent (snd (SequenceCounter_Next (maSeqCounter m)))"
    and reqs1: "reqs1 = apdu_frames master_frame (maSession m) (command_request FuncSelect q cmds)"
    and resps1: "resps1 = apdu_frames outstation_frame (ouSession s) (empty_response q iin)"
  shows "\<exists>t reqs2 resps2 s1 co1 s2 co2 m' cm'.
      readLoop (outstation_ops fo iin) (map (\<lambda>f. Some (frame_bytes f)) reqs1) r co
        = (set_session r (seRemoteAddr (maSession m)) s1, co1)
    \<and> chSent co1 = chSent co @ map frame_bytes resps1
    \<and> reqs2 = apdu_frames master_frame ((maSession m)\<lparr>seTransport := t\<rparr>) (command_request FuncOperate q' cmds)
    \<and> resps2 = apdu_frames outstation_frame (ouSession s1) (empty_response q' iin)
    \<and> readLoop (outstation_ops fo iin) (map (\<lambda>f. Some (frame_bytes f)) reqs2)
          (set_session r (seRemoteAddr (maSession m)) s1) co1
        = (set_session r (seRemoteAddr (maSession m)) s2, co2)
    \<and> chSent co2 = chSent co1 @ map frame_bytes resps2
    \<and> performSelectAndOperate fo cmds (map Arrives (resps1 @ resps2)) m cm
        = (Inr (replicate (length cmds) CommandStatusSuccess), m', [], cm')
    \<and> chSent cm' = chSent cm @ map frame_bytes (reqs1 @ reqs2)
    \<and> ouDatabase s1 = ouDatabase s \<and> ouDatabase s2 = ouDatabase s"
proof -
  let ?d = "buildCROBObjects cmds" and ?a = "seRemoteAddr (maSession m)"
  have build: "(\<lambda>seq. BuildSelectRequest seq ?d) = (\<lambda>seq. NewRequestAPDU FuncSelect seq ?d)"
    "(\<lambda>seq. BuildOperateRequest seq ?d) = (\<lambda>seq. NewRequestAPDU FuncOperate seq ?d)"
    by (simp_all add: BuildSelectRequest_def BuildOperateRequest_def)
  obtain s1 co1 m1 cm1 resp1 where
    1: "readLoop (outstation_ops fo iin) (map (\<lambda>f. Some (frame_bytes f)) reqs1) r co = (set_session r ?a s1, co1)"
    "ouDatabase s1 = ouDatabase s" "channel_up co1" "chSent co1 = chSent co @ map frame_bytes resps1"
    "\<And>events. request_response fo (\<lambda>seq. NewRequestAPDU FuncSelect seq ?d) (map Arrives resps1 @ events) m cm
        = (Inr resp1, m1, events, cm1)" "apObjects resp1 = []"
    "channel_up cm1" "chSent cm1 = chSent cm @ map frame_bytes reqs1"
    "maPendingResp m1 = None" "seRemoteAddr (maSession m1) = ?a"
    using command_request_answered [OF assms(1-6), of FuncSelect reqs1 resps1 iin fo] reqs1 resps1 q by blast
  obtain t where m1: "maSeqCounter m1 = snd (SequenceCounter_Next (maSeqCounter m))"
    "maSession m1 = (maSession m)\<lparr>seTransport := t\<rparr>"
    using request_session [OF assms(1) 1(5) [of "[]"]] by blast
  let ?r = "set_session r ?a s1"
  have r: "distinct (map fst ?r)" "map_of ?r (seRemoteAddr (maSession m1)) = Some s1"
    using assms(3,4) 1(10) by (simp_all add: map_of_set_session)
  let ?reqs2 = "apdu_frames master_frame ((maSession m)\<lparr>seTransport := t\<rparr>) (command_request FuncOperate q' cmds)"
  let ?resps2 = "apdu_frames outstation_frame (ouSession s1) (empty_response q' iin)"
  obtain s2 co2 m2 cm2 resp2 where
    2: "readLoop (outstation_ops fo iin) (map (\<lambda>f. Some (frame_bytes f)) ?reqs2) ?r co1 = (set_session ?r ?a s2, co2)"
    "ouDatabase s2 = ouDatabase s1" "chSent co2 = chSent co1 @ map frame_bytes ?resps2"
    "\<And>events. request_response fo (\<lambda>seq. NewRequestAPDU FuncOperate seq ?d) (map Arrives ?resps2 @ events) m1 cm1
        = (Inr resp2, m2, events, cm2)" "apObjects resp2 = []"
    "chSent cm2 = chSent cm1 @ map frame_bytes ?reqs2"
    using command_request_answered [OF 1(7,3) r 1(9) assms(6), of FuncOperate ?reqs2 ?resps2 iin fo] 1(10) m1 q' by auto
  have "allSuccess (replicate (length cmds) CommandStatusSuccess)" by (simp add: allSuccess_def list_all_iff)
  then have "performSelectAndOperate fo cmds (map Arrives (resps1 @ ?resps2)) m cm
        = (Inr (replicate (length cmds) CommandStatusSuccess), m2, [], cm2)"
    using 1(5) [of "map Arrives ?resps2"] 2(4) [of "[]"] empty_response_success [OF 1(6)]
      empty_response_success [OF 2(5)]
    by (simp add: performSelectAndOperate_def build del: CommandStatusSuccess_def)
  moreover have "chSent cm2 = chSent cm @ map frame_bytes (reqs1 @ ?reqs2)" using 1(8) 2(6) by simp
  moreover have "ouDatabase s2 = ouDatabase s" using 1(2) 2(2) by simp
  ultimately show ?thesis using 1(1,2,4) 2(1,3) unfolding set_session_twice by blast
qed

text \<open>A latch-on for point 7 and an analog output, of which only the first is sent.\<close>

abbreviation two_commands :: "Command list" where
  "two_commands \<equiv> [\<lparr>cmIndex = 7, cmType = 0, cmData = CROBData
       \<lparr>tcOpType = 3, tcCount = 1, tcOnTimeMs = 0, tcOffTimeMs = 0, tcStatus = 0\<rparr>\<rparr>,
     \<lparr>cmIndex = 9, cmType = 0, cmData = AnalogOutputInt32 5 0\<rparr>]"

lemma two_commands_requests:
  "command_request 3 0 two_commands = [0xC0, 3, 12, 1, 0, 7, 7, 3, 1, 0, 0, 0, 0, 0, 0, 0, 0, 0]"
  "command_request 4 1 two_commands = [0xC1, 4, 12, 1, 0, 7, 7, 3, 1, 0, 0, 0, 0, 0, 0, 0, 0, 0]"
  "empty_response 0 \<lparr>iin1 = 0x80, iin2 = 0\<rparr> = [0xC0, 0x81, 0x80, 0]"
  "empty_response 1 \<lparr>iin1 = 0x80, iin2 = 0\<rparr> = [0xC1, 0x81, 0x80, 0]"
  by code_simp+

theorem commands_reported_successful_witness:
  "let reqs1 = apdu_frames master_frame (newSession 1 10) [0xC0, 3, 12, 1, 0, 7, 7, 3, 1, 0, 0, 0, 0, 0, 0, 0, 0, 0];
       resps1 = apdu_frames outstation_frame (ouSession sample_outstation) [0xC0, 0x81, 0x80, 0]
   in \<exists>t reqs2 resps2 s1 co1 s2 co2 m' cm'.
      readLoop (outstation_ops sample_floats \<lparr>iin1 = 0x80, iin2 = 0\<rparr>)
          (map (\<lambda>f. Some (frame_bytes f)) reqs1) [(10, sample_outstation)] sample_channel
        = ([(10, s1)], co1)
    \<and> chSent co1 = map frame_bytes resps1
    \<and> reqs2 = apdu_frames master_frame ((newSession 1 10)\<lparr>seTransport := t\<rparr>)
        [0xC1, 4, 12, 1, 0, 7, 7, 3, 1, 0, 0, 0, 0, 0, 0, 0, 0, 0]
    \<and> resps2 = apdu_frames outstation_frame (ouSession s1) [0xC1, 0x81, 0x80, 0]
    \<and> readLoop (outstation_ops sample_floats \<lparr>iin1 = 0x80, iin2 = 0\<rparr>)
          (map (\<lambda>f. Some (frame_bytes f)) reqs2) [(10, s1)] co1 = ([(10, s2)], co2)
    \<and> chSent co2 = chSent co1 @ map frame_bytes resps2
    \<and> performSelectAndOperate sample_floats two_commands (map Arrives (resps1 @ resps2))
          sample_master sample_channel = (Inr [CommandStatusSuccess, CommandStatusSuccess], m', [], cm')
    \<and> chSent cm' = map frame_bytes (reqs1 @ reqs2)
    \<and> ouDatabase s2 = ouDatabase sample_outstation"
proof -
  have sess: "maSession sample_master = newSession 1 10"
    and q: "sqCurrent (maSeqCounter sample_master) = 0"
      "sqCurrent (snd (SequenceCounter_Next (maSeqCounter sample_master))) = 1"
    by (simp_all add: sample_master_def plain_master_config_def new_master_def NewSequenceCounter_def
        SequenceCounter_Next_def)
  have addr: "seRemoteAddr (newSession 1 10) = 10" by (simp add: newSession_def)
  have up: "channel_up sample_channel" and sent: "chSent sample_channel = []"
    and idle: "maPendingResp sample_master = None"
    by (simp_all add: sample_channel_def sample_master_def new_master_def channel_up_def NewChannel_def)
  have "map_of [(10, sample_outstation)] (seRemoteAddr (maSession sample_master)) = Some sample_outstation"
    by (simp add: sess addr)
  from commands_reported_successful [where cmds = two_commands and iin = "\<lparr>iin1 = 0x80, iin2 = 0\<rparr>"
      and fo = sample_floats, OF up up _ this idle _ refl refl refl refl]
  show ?thesis
    by (simp add: sess addr q sent two_commands_requests set_session_def Let_def numeral_2_eq_2 del: CommandStatusSuccess_def) blast
qed

end
