(* ===== verification/Executions.thy ===== *)
theory Executions
  imports Main
begin

text \<open>
  Executions of programs whose goroutines interleave: a step function takes the label of an atomic
  action and a state, and is \<open>None\<close> where the action cannot happen. A finite interleaving is a list of
  labels, an execution an infinite sequence of states in which every moment is an action or a pause.
  The locale \<open>progress\<close> is the liveness argument the components share.
\<close>

fun run :: "('l \<Rightarrow> 's \<Rightarrow> 's option) \<Rightarrow> 'l list \<Rightarrow> 's \<Rightarrow> 's option" where
  "run step [] q = Some q"
| "run step (l # ls) q = (case step l q of None \<Rightarrow> None | Some q' \<Rightarrow> run step ls q')"

lemma run_append: "run step (ls @ ms) q = Option.bind (run step ls q) (run step ms)"
  by (induction ls arbitrary: q) (auto split: option.split)

lemma run_invariant:
  assumes "run step ls q = Some q'" and "I q"
    and "\<And>l q q'. step l q = Some q' \<Longrightarrow> l \<in> set ls \<Longrightarrow> I q \<Longrightarrow> I q'"
  shows "I q'"
  using assms by (induction ls arbitrary: q) (auto split: option.splits)

text \<open>The goroutines of one kind are a list; what a step changes is the entry of one of them.\<close>

lemma sum_list_replace:
  fixes f :: "'a \<Rightarrow> 'b :: comm_monoid_add"
  shows "i < length xs \<Longrightarrow> sum_list (map f (xs[i := y])) + f (xs ! i) = sum_list (map f xs) + f y"
proof (induction xs arbitrary: i)
  case (Cons x xs)
  show ?case
  proof (cases i)
    case 0
    then show ?thesis by (simp add: ac_simps)
  next
    case (Suc j)
    then have "sum_list (map f (xs[j := y])) + f (xs ! j) = sum_list (map f xs) + f y" using Cons by simp
    then show ?thesis using Suc by (simp add: ac_simps)
  qed
qed simp

definition execution ::
  "('l \<Rightarrow> 's \<Rightarrow> 's option) \<Rightarrow> 's \<Rightarrow> (nat \<Rightarrow> 's) \<Rightarrow> (nat \<Rightarrow> 'l option) \<Rightarrow> bool" where
  "execution step q0 s lab \<longleftrightarrow> s 0 = q0
     \<and> (\<forall>n. case lab n of None \<Rightarrow> s (Suc n) = s n | Some l \<Rightarrow> step l (s n) = Some (s (Suc n)))"

text \<open>The actions \<open>A\<close> are not possible from some point on forever without one of them happening.\<close>

definition weakly_fair ::
  "('l \<Rightarrow> 's \<Rightarrow> 's option) \<Rightarrow> ('l \<Rightarrow> bool) \<Rightarrow> (nat \<Rightarrow> 's) \<Rightarrow> (nat \<Rightarrow> 'l option) \<Rightarrow> bool" where
  "weakly_fair step A s lab \<longleftrightarrow>
     (\<forall>n. \<exists>m\<ge>n. (\<forall>l. A l \<longrightarrow> step l (s m) = None) \<or> (\<exists>l. lab m = Some l \<and> A l))"

lemma execution_invariant:
  assumes "execution step q0 s lab" and "I q0"
    and "\<And>l q q'. step l q = Some q' \<Longrightarrow> I q \<Longrightarrow> I q'"
  shows "I (s n)"
proof (induction n)
  case 0
  then show ?case using assms(1,2) by (simp add: execution_def)
next
  case (Suc n)
  have "case lab n of None \<Rightarrow> s (Suc n) = s n | Some l \<Rightarrow> step l (s n) = Some (s (Suc n))"
    using assms(1) by (simp add: execution_def)
  then show ?case using Suc assms(3) by (cases "lab n") simp_all
qed

text \<open>A finite interleaving after which nothing happens.\<close>

definition listed_states :: "('l \<Rightarrow> 's \<Rightarrow> 's option) \<Rightarrow> 's \<Rightarrow> 'l list \<Rightarrow> nat \<Rightarrow> 's" where
  "listed_states step q0 ls n = the (run step (take n ls) q0)"

definition listed_labels :: "'l list \<Rightarrow> nat \<Rightarrow> 'l option" where
  "listed_labels ls n = (if n < length ls then Some (ls ! n) else None)"

lemma listed_execution:
  assumes "run step ls q0 \<noteq> None"
  shows "execution step q0 (listed_states step q0 ls) (listed_labels ls)"
proof -
  have "step (ls ! n) (the (run step (take n ls) q0)) = Some (the (run step (take (Suc n) ls) q0))"
    if n: "n < length ls" for n
  proof -
    have "run step (take (Suc n) ls @ drop (Suc n) ls) q0 \<noteq> None" using assms by simp
    then have "run step (take (Suc n) ls) q0 \<noteq> None" unfolding run_append by (auto simp: bind_eq_None_conv)
    then show ?thesis using n
      by (cases "run step (take n ls) q0") (auto simp: take_Suc_conv_app_nth run_append split: option.splits)
  qed
  then show ?thesis by (auto simp: execution_def listed_states_def listed_labels_def)
qed

lemma listed_fair:
  assumes "\<And>l. A l \<Longrightarrow> step l (the (run step ls q0)) = None"
  shows "weakly_fair step A (listed_states step q0 ls) (listed_labels ls)"
  unfolding weakly_fair_def
proof
  fix n
  show "\<exists>m\<ge>n. (\<forall>l. A l \<longrightarrow> step l (listed_states step q0 ls m) = None)
      \<or> (\<exists>l. listed_labels ls m = Some l \<and> A l)"
    using assms by (intro exI [of _ "max n (length ls)"]) (simp add: listed_states_def)
qed

text \<open>
  While \<open>P\<close> holds one of the actions \<open>A\<close> is possible; every action keeps \<open>P\<close> and does not increase
  the measure or establishes \<open>Q\<close>, and those of \<open>A\<close> decrease it.
\<close>

locale progress =
  fixes step :: "'l \<Rightarrow> 's \<Rightarrow> 's option" and A :: "'l \<Rightarrow> bool"
    and P :: "'s \<Rightarrow> bool" and Q :: "'s \<Rightarrow> bool" and measure_of :: "'s \<Rightarrow> nat"
  assumes onward: "P q \<Longrightarrow> step l q = Some q' \<Longrightarrow> Q q' \<or> (P q' \<and> measure_of q' \<le> measure_of q)"
    and helpful: "P q \<Longrightarrow> step l q = Some q' \<Longrightarrow> A l \<Longrightarrow> Q q' \<or> measure_of q' < measure_of q"
    and possible: "P q \<Longrightarrow> \<exists>l. A l \<and> step l q \<noteq> None"
begin

lemma onward_execution:
  assumes "execution step q0 s lab" and "P (s n)" and "\<And>m. n \<le> m \<Longrightarrow> \<not> Q (s m)"
  shows "P (s (n + k)) \<and> measure_of (s (n + k)) \<le> measure_of (s n)"
proof (induction k)
  case 0
  then show ?case using assms(2) by simp
next
  case (Suc k)
  have step: "case lab (n + k) of None \<Rightarrow> s (Suc (n + k)) = s (n + k)
      | Some l \<Rightarrow> step l (s (n + k)) = Some (s (Suc (n + k)))"
    using assms(1) by (simp add: execution_def)
  show ?case
  proof (cases "lab (n + k)")
    case None
    then show ?thesis using Suc step by simp
  next
    case (Some l)
    then have "step l (s (n + k)) = Some (s (Suc (n + k)))" using step by simp
    from onward [OF conjunct1 [OF Suc] this] assms(3) [of "Suc (n + k)"] show ?thesis using Suc by auto
  qed
qed

lemma leads_to:
  assumes "execution step q0 s lab" and "weakly_fair step A s lab" and "P (s n)"
  shows "\<exists>m\<ge>n. Q (s m)"
  using assms(3)
proof (induction "measure_of (s n)" arbitrary: n rule: less_induct)
  case less
  show ?case
  proof (rule ccontr)
    assume "\<not> ?case"
    then have no: "\<And>m. n \<le> m \<Longrightarrow> \<not> Q (s m)" by blast
    note stays = onward_execution [OF assms(1) less.prems no]
    obtain m where m: "n \<le> m" "(\<forall>l. A l \<longrightarrow> step l (s m) = None) \<or> (\<exists>l. lab m = Some l \<and> A l)"
      using assms(2) unfolding weakly_fair_def by blast
    have P: "P (s m)" "measure_of (s m) \<le> measure_of (s n)" using stays [of "m - n"] m(1) by simp_all
    obtain l where l: "lab m = Some l" "A l" using m(2) possible [OF P(1)] by metis
    have "case lab m of None \<Rightarrow> s (Suc m) = s m | Some l \<Rightarrow> step l (s m) = Some (s (Suc m))"
      using assms(1) by (simp add: execution_def)
    then have "step l (s m) = Some (s (Suc m))" using l(1) by simp
    from helpful [OF P(1) this l(2)] onward [OF P(1) this] no [of "Suc m"] m(1)
    have "measure_of (s (Suc m)) < measure_of (s m)" "P (s (Suc m))" by auto
    then have "\<exists>k\<ge>Suc m. Q (s k)" using less.hyps [of "Suc m"] P(2) by simp
    then show False using no m(1) by (meson Suc_leD le_trans)
  qed
qed

end

end
