(* ===== verification/Requests.thy ===== *)
theory Requests
  imports Executions
begin

text \<open>
  Requests that callers put into a bounded queue and wait for, and that workers take out and answer: the
  pattern of the write queue of a channel and of the update queue of an outstation. A request is the
  number of its caller. The locale states what a step of such a system may do to the queue, to the
  requests in the hands of the workers and to the waiting callers; in it the requests are accounted
  for and every request is answered while a worker goes on.
\<close>

section \<open>What a step may do\<close>

datatype request_move = Keep | Join nat | Start nat nat | Answer nat nat | Refuse nat nat

fun move_allowed ::
  "nat \<Rightarrow> request_move \<Rightarrow> nat list \<times> (nat \<Rightarrow> nat option) \<times> (nat \<Rightarrow> bool)
    \<Rightarrow> nat list \<times> (nat \<Rightarrow> nat option) \<times> (nat \<Rightarrow> bool) \<Rightarrow> bool" where
  "move_allowed cap Keep v v' \<longleftrightarrow> v' = v"
| "move_allowed cap (Join i) (q, s, w) v' \<longleftrightarrow> \<not> w i \<and> length q < cap \<and> v' = (q @ [i], s, w(i := True))"
| "move_allowed cap (Start l i) (q, s, w) v' \<longleftrightarrow> s l = None \<and> q \<noteq> [] \<and> hd q = i \<and> v' = (tl q, s(l := Some i), w)"
| "move_allowed cap (Answer l i) (q, s, w) v' \<longleftrightarrow> s l = Some i \<and> v' = (q, s(l := None), w(i := False))"
| "move_allowed cap (Refuse l i) (q, s, w) v' \<longleftrightarrow> q \<noteq> [] \<and> hd q = i \<and> v' = (tl q, s, w(i := False))"

text \<open>
  A caller waits just when its request is in the queue or in the hands of a worker, once and in one
  place only.
\<close>

definition accounted :: "nat \<Rightarrow> nat list \<times> (nat \<Rightarrow> nat option) \<times> (nat \<Rightarrow> bool) \<Rightarrow> bool" where
  "accounted cap v = (case v of (q, s, w) \<Rightarrow> distinct q \<and> length q \<le> cap
     \<and> (\<forall>l i. s l = Some i \<longrightarrow> i \<notin> set q) \<and> (\<forall>l m i. s l = Some i \<longrightarrow> s m = Some i \<longrightarrow> l = m)
     \<and> (\<forall>i. w i \<longleftrightarrow> i \<in> set q \<or> (\<exists>l. s l = Some i)))"

lemma accountedD:
  assumes "accounted cap (q, s, w)"
  shows "distinct q" and "length q \<le> cap" and "\<And>l i. s l = Some i \<Longrightarrow> i \<notin> set q"
    and "\<And>l m i. s l = Some i \<Longrightarrow> s m = Some i \<Longrightarrow> l = m" and "\<And>i. w i \<longleftrightarrow> i \<in> set q \<or> (\<exists>l. s l = Some i)"
  using assms by (auto simp: accounted_def)

lemma accountedI:
  assumes "distinct q" and "length q \<le> cap" and "\<And>l i. s l = Some i \<Longrightarrow> i \<notin> set q"
    and "\<And>l m i. s l = Some i \<Longrightarrow> s m = Some i \<Longrightarrow> l = m" and "\<And>i. w i \<longleftrightarrow> i \<in> set q \<or> (\<exists>l. s l = Some i)"
  shows "accounted cap (q, s, w)"
  using assms by (auto simp: accounted_def)

lemma accounted_move:
  assumes "move_allowed cap m v v'" and "accounted cap v"
  shows "accounted cap v'"
proof -
  obtain q s w where v: "v = (q, s, w)" by (cases v)
  note a = accountedD [OF assms(2) [unfolded v]]
  show ?thesis
  proof (cases m)
    case Keep
    then show ?thesis using assms by simp
  next
    case (Join i)
    then have new: "\<not> w i" "length q < cap" "v' = (q @ [i], s, w(i := True))" using assms(1) v by auto
    then show ?thesis using a by (auto intro!: accountedI split: if_splits)
  next
    case (Start l i)
    then obtain r where new: "q = i # r" "s l = None" "v' = (r, s(l := Some i), w)"
      using assms(1) v by (cases q) auto
    have at: "(s(l := Some i)) m = Some j \<longleftrightarrow> m = l \<and> j = i \<or> s m = Some j" for m j using new(2) by auto
    have ex: "(\<exists>m. (s(l := Some i)) m = Some j) \<longleftrightarrow> j = i \<or> (\<exists>m. s m = Some j)" for j
      unfolding at by blast
    show ?thesis unfolding new(3)
    proof (rule accountedI)
      show "w j \<longleftrightarrow> j \<in> set r \<or> (\<exists>m. (s(l := Some i)) m = Some j)" for j unfolding ex using a(5) [of j] new(1) by auto
      show "m = m'" if "(s(l := Some i)) m = Some j" "(s(l := Some i)) m' = Some j" for m m' j
        using that a(3,4) new(1) by (auto split: if_splits)
      show "j \<notin> set r" if "(s(l := Some i)) m = Some j" for m j
        using that a(1,3) new(1) by (auto split: if_splits)
    qed (use a(1,2) new(1) in auto)
  next
    case (Answer l i)
    then have new: "s l = Some i" "v' = (q, s(l := None), w(i := False))" using assms(1) v by auto
    have at: "(s(l := None)) m = Some j \<longleftrightarrow> s m = Some j \<and> j \<noteq> i" for m j using a(4) new(1) by auto
    show ?thesis unfolding new(2)
    proof (rule accountedI)
      show "(w(i := False)) j \<longleftrightarrow> j \<in> set q \<or> (\<exists>m. (s(l := None)) m = Some j)" for j
        unfolding at using a(5) [of j] a(3) [OF new(1)] by auto
      show "m = m'" if "(s(l := None)) m = Some j" "(s(l := None)) m' = Some j" for m m' j
        using that a(4) unfolding at by blast
    qed (use a(1,2,3) at in auto)
  next
    case (Refuse l i)
    then obtain r where new: "q = i # r" "v' = (r, s, w(i := False))" using assms(1) v by (cases q) auto
    have "s m \<noteq> Some i" for m using a(3) [of m i] new(1) by auto
    then show ?thesis unfolding new(2) using a new(1) by (auto intro!: accountedI split: if_splits)
  qed
qed

definition position :: "nat list \<Rightarrow> nat \<Rightarrow> nat" where
  "position q i = length (takeWhile (\<lambda>j. j \<noteq> i) q)"

lemma position_simps [simp]:
  "position (j # q) i = (if j = i then 0 else Suc (position q i))"
  "i \<in> set q \<Longrightarrow> position (q @ r) i = position q i"
  by (simp_all add: position_def takeWhile_append1)

text \<open>What becomes of a request in the queue: it moves towards the front, is taken or is answered.\<close>

lemma queue_moves:
  assumes "move_allowed cap m (q, s, w) (q', s', w')" and "accounted cap (q, s, w)" and "i \<in> set q"
  shows "(i \<in> set q' \<and> position q' i \<le> position q i
      \<and> ((\<exists>l j. m = Start l j \<or> m = Refuse l j) \<longrightarrow> position q' i < position q i))
    \<or> (\<exists>l. m = Start l i \<and> s' l = Some i) \<or> \<not> w' i"
  using assms(1) assms(3) accountedD(3) [OF assms(2)]
  by (cases m; cases q) auto

section \<open>The contract of a request queue\<close>

text \<open>
  \<open>rank\<close> bounds the steps a worker takes before it touches the queue again. A worker that is \<open>alive\<close>
  stays so while there are requests, unless the system is \<open>halted\<close>. \<open>regular\<close> is whatever else the
  system keeps of its state.
\<close>

locale request_queue =
  fixes step :: "'l \<Rightarrow> 's \<Rightarrow> 's option" and cap :: nat
    and queue_of :: "'s \<Rightarrow> nat list" and serving :: "'s \<Rightarrow> nat \<Rightarrow> nat option" and waiting :: "'s \<Rightarrow> nat \<Rightarrow> bool"
    and move_of :: "'l \<Rightarrow> 's \<Rightarrow> request_move" and worker_of :: "'l \<Rightarrow> nat option"
    and regular :: "'s \<Rightarrow> bool"
    and alive :: "'s \<Rightarrow> nat \<Rightarrow> bool" and halted :: "'s \<Rightarrow> bool" and rank :: "'s \<Rightarrow> nat \<Rightarrow> nat"
  assumes moved: "step l q = Some q' \<Longrightarrow>
      move_allowed cap (move_of l q) (queue_of q, serving q, waiting q) (queue_of q', serving q', waiting q')"
    and regular: "step l q = Some q' \<Longrightarrow> regular q \<Longrightarrow> regular q'"
    and mover: "step l q = Some q' \<Longrightarrow> move_of l q = Start k i \<or> move_of l q = Answer k i \<or> move_of l q = Refuse k i
      \<Longrightarrow> worker_of l = Some k"
    and others: "step l q = Some q' \<Longrightarrow> worker_of l \<noteq> Some k \<Longrightarrow> alive q k \<Longrightarrow> \<not> halted q'
      \<Longrightarrow> alive q' k \<and> rank q' k \<le> rank q k"
    and own: "step l q = Some q' \<Longrightarrow> worker_of l = Some k \<Longrightarrow> alive q k \<Longrightarrow> queue_of q \<noteq> [] \<Longrightarrow> \<not> halted q'
      \<Longrightarrow> alive q' k \<and> ((\<exists>i. move_of l q = Start k i \<or> move_of l q = Refuse k i) \<or> rank q' k < rank q k)"
    and rank_bound: "rank q k \<le> 2"
    and goes_on: "regular q \<Longrightarrow> alive q k \<Longrightarrow> queue_of q \<noteq> [] \<Longrightarrow> \<not> halted q \<Longrightarrow> \<exists>l. worker_of l = Some k \<and> step l q \<noteq> None"
    and answers: "step l q = Some q' \<Longrightarrow> serving q k = Some i \<Longrightarrow> worker_of l = Some k \<Longrightarrow> move_of l q = Answer k i"
    and can_answer: "regular q \<Longrightarrow> serving q k = Some i \<Longrightarrow> \<exists>l. worker_of l = Some k \<and> step l q \<noteq> None"
begin

definition requests_ok :: "'s \<Rightarrow> bool" where
  "requests_ok q \<longleftrightarrow> regular q \<and> accounted cap (queue_of q, serving q, waiting q)"

lemma requests_ok_step: "step l q = Some q' \<Longrightarrow> requests_ok q \<Longrightarrow> requests_ok q'"
  unfolding requests_ok_def using accounted_move [OF moved] regular by blast

lemma requests_ok_run: "run step ls q = Some q' \<Longrightarrow> requests_ok q \<Longrightarrow> requests_ok q'"
  by (erule run_invariant) (auto dest: requests_ok_step)

lemma serving_kept:
  assumes "step l q = Some q'" and "serving q k = Some i" and "worker_of l \<noteq> Some k"
  shows "serving q' k = Some i"
  using moved [OF assms(1)] mover [OF assms(1)] assms(2,3) by (cases "move_of l q") auto

lemma taken:
  "progress step (\<lambda>l. worker_of l = Some k)
     (\<lambda>q. requests_ok q \<and> i \<in> set (queue_of q) \<and> alive q k \<and> \<not> halted q)
     (\<lambda>q. halted q \<or> (\<exists>m. serving q m = Some i) \<or> \<not> waiting q i) (\<lambda>q. 3 * position (queue_of q) i + rank q k)"
proof
  fix q l q'
  assume P: "requests_ok q \<and> i \<in> set (queue_of q) \<and> alive q k \<and> \<not> halted q" and step: "step l q = Some q'"
  let ?Q = "halted q' \<or> (\<exists>m. serving q' m = Some i) \<or> \<not> waiting q' i"
  have ok: "requests_ok q'" using requests_ok_step [OF step] P by blast
  have nonempty: "queue_of q \<noteq> []" using P by auto
  have stays: "i \<in> set (queue_of q') \<and> position (queue_of q') i \<le> position (queue_of q) i
      \<and> ((\<exists>l' j. move_of l q = Start l' j \<or> move_of l q = Refuse l' j)
          \<longrightarrow> position (queue_of q') i < position (queue_of q) i)" if "\<not> ?Q"
    using queue_moves [OF moved [OF step], of i] P that unfolding requests_ok_def by blast
  have mine: "alive q' k \<and> 3 * position (queue_of q') i + rank q' k < 3 * position (queue_of q) i + rank q k"
    if "worker_of l = Some k" "\<not> ?Q"
  proof -
    note o = own [OF step that(1) conjunct1 [OF conjunct2 [OF conjunct2 [OF P]]] nonempty]
    show ?thesis using o stays [OF that(2)] that(2) rank_bound [of q' k] by fastforce
  qed
  have other: "alive q' k \<and> 3 * position (queue_of q') i + rank q' k \<le> 3 * position (queue_of q) i + rank q k"
    if "worker_of l \<noteq> Some k" "\<not> ?Q"
    using others [OF step that(1)] P stays [OF that(2)] that(2) by fastforce
  show "?Q \<or> (requests_ok q' \<and> i \<in> set (queue_of q') \<and> alive q' k \<and> \<not> halted q')
      \<and> 3 * position (queue_of q') i + rank q' k \<le> 3 * position (queue_of q) i + rank q k"
    using mine other stays ok by (meson less_imp_le)
  show "?Q \<or> 3 * position (queue_of q') i + rank q' k < 3 * position (queue_of q) i + rank q k"
    if "worker_of l = Some k"
    using mine [OF that] by blast
next
  fix q assume P: "requests_ok q \<and> i \<in> set (queue_of q) \<and> alive q k \<and> \<not> halted q"
  then have "queue_of q \<noteq> []" by auto
  then show "\<exists>l. worker_of l = Some k \<and> step l q \<noteq> None"
    using goes_on P unfolding requests_ok_def by blast
qed

lemma served: "progress step (\<lambda>l. worker_of l = Some k) (\<lambda>q. requests_ok q \<and> serving q k = Some i)
    (\<lambda>q. \<not> waiting q i) (\<lambda>q. 0)"
proof
  fix q l q'
  assume P: "requests_ok q \<and> serving q k = Some i" and step: "step l q = Some q'"
  have mine: "\<not> waiting q' i" if "worker_of l = Some k"
    using moved [OF step] answers [OF step conjunct2 [OF P] that] by auto
  show "\<not> waiting q' i \<or> (requests_ok q' \<and> serving q' k = Some i) \<and> (0 :: nat) \<le> 0"
    using mine serving_kept [OF step conjunct2 [OF P]] requests_ok_step [OF step conjunct1 [OF P]] by blast
  show "\<not> waiting q' i \<or> (0 :: nat) < 0" if "worker_of l = Some k" using mine [OF that] by blast
next
  fix q assume "requests_ok q \<and> serving q k = Some i"
  then show "\<exists>l. worker_of l = Some k \<and> step l q \<noteq> None" using can_answer unfolding requests_ok_def by blast
qed

text \<open>A caller that waits while some worker is alive is answered, unless the system is halted.\<close>

lemma waiting_ends:
  assumes "execution step q0 s lab" and "\<And>k. weakly_fair step (\<lambda>l. worker_of l = Some k) s lab"
    and "requests_ok q0" and "waiting (s n) i" and "alive (s n) k"
  shows "\<exists>m\<ge>n. halted (s m) \<or> \<not> waiting (s m) i"
proof -
  have ok: "requests_ok (s m)" for m
    using execution_invariant [OF assms(1), of requests_ok] assms(3) requests_ok_step by blast
  have ends: "\<exists>m\<ge>j. halted (s m) \<or> \<not> waiting (s m) i" if "serving (s j) k' = Some i" for j k'
    using progress.leads_to [OF served assms(1,2) conjI [OF ok that]] by blast
  consider "i \<in> set (queue_of (s n))" | k' where "serving (s n) k' = Some i"
    using assms(4) accountedD(5) [OF conjunct2 [OF ok [unfolded requests_ok_def]]] by blast
  then show ?thesis
  proof cases
    case 1
    show ?thesis
    proof (cases "halted (s n)")
      case False
      then obtain m where m: "n \<le> m" "halted (s m) \<or> (\<exists>k. serving (s m) k = Some i) \<or> \<not> waiting (s m) i"
        using progress.leads_to [OF taken assms(1,2) conjI [OF ok conjI [OF 1 conjI [OF assms(5)]]]] by blast
      then show ?thesis using ends [of m] by (meson le_trans)
    qed blast
  qed (rule ends)
qed

end

text \<open>From the first moment at which a state is left, what the step that leaves it establishes.\<close>

lemma leaves_into:
  assumes "execution step q0 s lab" and "P (s n)" and "n \<le> m" and "\<not> P (s m)"
    and "\<And>l q q'. step l q = Some q' \<Longrightarrow> P q \<Longrightarrow> \<not> P q' \<Longrightarrow> R q'"
  shows "\<exists>k\<ge>n. R (s k)"
  using assms(3,4)
proof (induction m rule: dec_induct)
  case base
  then show ?case using assms(2) by simp
next
  case (step m)
  show ?case
  proof (cases "P (s m)")
    case True
    have "case lab m of None \<Rightarrow> s (Suc m) = s m | Some l \<Rightarrow> step l (s m) = Some (s (Suc m))"
      using assms(1) by (simp add: execution_def)
    then have "R (s (Suc m))" using True step.prems assms(5) by (cases "lab m") auto
    then show ?thesis using step.hyps(1) by (intro exI [of _ "Suc m"]) simp
  qed (rule step.IH)
qed

end
