(* ===== verification/Channel_Queue.thy ===== *)
theory Channel_Queue
  imports Channel_Core Requests
begin

text \<open>
  The write queue of a channel at the level of its goroutines (\<open>Write\<close>, \<open>writeLoop\<close>, \<open>Open\<close> and
  \<open>Close\<close> of \<open>pkg/channel/channel.go\<close>): any number of callers put requests into a bounded queue, a
  write loop takes them out and answers each on its own channel, and closing turns the loop to
  draining. Every atomic action of a goroutine is a step; a list of steps is an interleaving. The
  theory proves where a waiting caller's request is, that a write loop that keeps running answers
  every request, and that a request queued behind the last write loop is never answered.
\<close>

section \<open>State and steps\<close>

text \<open>
  A caller of \<open>Write\<close> is between its test of the state and its select, waits for the answer, or has
  returned. A write loop is at its select, in the physical write, in the inner loop, or has ended.
\<close>

datatype caller = Checked bytes | Waiting | Returned "channel_err option"

datatype loop = AtSelect | Serving nat bytes | Draining | Ended

text \<open>
  \<open>wqQueue\<close> is the buffered channel; a request is the number of its caller, which stands for the
  answer channel, with the data. \<open>wqClosing\<close> counts the calls of \<open>Close\<close> that have set the state
  and not yet cancelled the context.
\<close>

record write_queue =
  wqState :: ChannelState
  wqCancelled :: bool
  wqClosing :: nat
  wqQueue :: "(nat \<times> bytes) list"
  wqLoops :: "loop list"
  wqCallers :: "caller list"
  wqSent :: "bytes list"

definition queue_cap :: nat where "queue_cap = 100"

definition new_queue :: write_queue where
  "new_queue =
     \<lparr>wqState = ChannelStateClosed, wqCancelled = False, wqClosing = 0, wqQueue = [], wqLoops = [],
      wqCallers = [], wqSent = []\<rparr>"

datatype queue_step =
    CallWrite bytes
  | Enqueue nat
  | Abandon nat
  | Take nat
  | Finish nat bool
  | StartDrain nat
  | DrainOne nat
  | DrainEnd nat
  | OpenChannel
  | CloseChannel
  | Cancel

definition wq_caller :: "write_queue \<Rightarrow> nat \<Rightarrow> caller option" where
  "wq_caller q i = (if i < length (wqCallers q) then Some (wqCallers q ! i) else None)"

definition wq_loop :: "write_queue \<Rightarrow> nat \<Rightarrow> loop option" where
  "wq_loop q l = (if l < length (wqLoops q) then Some (wqLoops q ! l) else None)"

definition set_caller :: "nat \<Rightarrow> caller \<Rightarrow> write_queue \<Rightarrow> write_queue" where
  "set_caller i c q = q\<lparr>wqCallers := (wqCallers q)[i := c]\<rparr>"

definition set_loop :: "nat \<Rightarrow> loop \<Rightarrow> write_queue \<Rightarrow> write_queue" where
  "set_loop l c q = q\<lparr>wqLoops := (wqLoops q)[l := c]\<rparr>"

text \<open>\<open>Write\<close> up to its select, and the two cases of the select.\<close>

definition call_write :: "bytes \<Rightarrow> write_queue \<Rightarrow> write_queue" where
  "call_write data q =
     q\<lparr>wqCallers := wqCallers q @ [if wqState q \<noteq> ChannelStateOpen then Returned (Some ErrChannelClosed)
                                 else Checked data]\<rparr>"

definition enqueue_write :: "nat \<Rightarrow> write_queue \<Rightarrow> write_queue option" where
  "enqueue_write i q =
     (case wq_caller q i of
        Some (Checked data) \<Rightarrow>
          if length (wqQueue q) < queue_cap
          then Some (set_caller i Waiting (q\<lparr>wqQueue := wqQueue q @ [(i, data)]\<rparr>))
          else None
      | _ \<Rightarrow> None)"

definition abandon_write :: "nat \<Rightarrow> write_queue \<Rightarrow> write_queue option" where
  "abandon_write i q =
     (case wq_caller q i of
        Some (Checked data) \<Rightarrow>
          if wqCancelled q then Some (set_caller i (Returned (Some ErrChannelClosed)) q) else None
      | _ \<Rightarrow> None)"

text \<open>
  The write loop: take a request, write it and answer, and when the context is cancelled answer
  what is in the queue with an error until a look at it finds it empty. The answer channel has room
  for the one answer.
\<close>

definition take_request :: "nat \<Rightarrow> write_queue \<Rightarrow> write_queue option" where
  "take_request l q =
     (case (wq_loop q l, wqQueue q) of
        (Some AtSelect, (i, data) # rest) \<Rightarrow> Some (set_loop l (Serving i data) (q\<lparr>wqQueue := rest\<rparr>))
      | _ \<Rightarrow> None)"

definition finish_request :: "nat \<Rightarrow> bool \<Rightarrow> write_queue \<Rightarrow> write_queue option" where
  "finish_request l ok q =
     (case wq_loop q l of
        Some (Serving i data) \<Rightarrow>
          Some (set_loop l AtSelect
            (set_caller i (Returned (if ok then None else Some PhysicalWriteFailed))
              (if ok then q\<lparr>wqSent := wqSent q @ [data]\<rparr> else q)))
      | _ \<Rightarrow> None)"

definition start_drain :: "nat \<Rightarrow> write_queue \<Rightarrow> write_queue option" where
  "start_drain l q =
     (if wq_loop q l = Some AtSelect \<and> wqCancelled q then Some (set_loop l Draining q) else None)"

definition drain_one :: "nat \<Rightarrow> write_queue \<Rightarrow> write_queue option" where
  "drain_one l q =
     (case (wq_loop q l, wqQueue q) of
        (Some Draining, (i, data) # rest) \<Rightarrow>
          Some (set_caller i (Returned (Some ErrChannelClosed)) (q\<lparr>wqQueue := rest\<rparr>))
      | _ \<Rightarrow> None)"

definition drain_end :: "nat \<Rightarrow> write_queue \<Rightarrow> write_queue option" where
  "drain_end l q =
     (if wq_loop q l = Some Draining \<and> wqQueue q = [] then Some (set_loop l Ended q) else None)"

text \<open>Opening starts a write loop; closing sets the state under the lock and cancels outside it.\<close>

definition open_queue :: "write_queue \<Rightarrow> write_queue" where
  "open_queue q =
     (if wqState q = ChannelStateOpen then q
      else q\<lparr>wqState := ChannelStateOpen, wqLoops := wqLoops q @ [AtSelect]\<rparr>)"

definition close_queue :: "write_queue \<Rightarrow> write_queue" where
  "close_queue q =
     (if wqState q = ChannelStateClosed then q
      else q\<lparr>wqState := ChannelStateClosed, wqClosing := wqClosing q + 1\<rparr>)"

definition cancel_queue :: "write_queue \<Rightarrow> write_queue option" where
  "cancel_queue q =
     (if wqClosing q = 0 then None
      else Some (q\<lparr>wqCancelled := True, wqClosing := wqClosing q - 1\<rparr>))"

definition wq_step :: "queue_step \<Rightarrow> write_queue \<Rightarrow> write_queue option" where
  "wq_step step q =
     (case step of
        CallWrite data \<Rightarrow> Some (call_write data q)
      | Enqueue i \<Rightarrow> enqueue_write i q
      | Abandon i \<Rightarrow> abandon_write i q
      | Take l \<Rightarrow> take_request l q
      | Finish l ok \<Rightarrow> finish_request l ok q
      | StartDrain l \<Rightarrow> start_drain l q
      | DrainOne l \<Rightarrow> drain_one l q
      | DrainEnd l \<Rightarrow> drain_end l q
      | OpenChannel \<Rightarrow> Some (open_queue q)
      | CloseChannel \<Rightarrow> Some (close_queue q)
      | Cancel \<Rightarrow> cancel_queue q)"

section \<open>Where a waiting caller's request is\<close>

definition served_by :: "write_queue \<Rightarrow> nat \<Rightarrow> nat option" where
  "served_by q l = (case wq_loop q l of Some (Serving i _) \<Rightarrow> Some i | _ \<Rightarrow> None)"

text \<open>
  A caller waits just when its request is in the queue or in the hands of a write loop, once and in
  one place only. So each request is answered at most once, and no answer blocks its write loop.
\<close>

definition queue_ok :: "write_queue \<Rightarrow> bool" where
  "queue_ok q \<longleftrightarrow> accounted queue_cap (map fst (wqQueue q), served_by q, \<lambda>i. wq_caller q i = Some Waiting)"

lemma wq_caller_set [simp]:
  "wq_caller (set_caller i c q) j = (if j = i \<and> wq_caller q i \<noteq> None then Some c else wq_caller q j)"
  "wq_caller (set_loop l e q) j = wq_caller q j"
  by (auto simp: wq_caller_def set_caller_def set_loop_def nth_list_update)

lemma wq_loop_set [simp]:
  "wq_loop (set_loop l e q) m = (if m = l \<and> wq_loop q l \<noteq> None then Some e else wq_loop q m)"
  "wq_loop (set_caller i c q) m = wq_loop q m"
  by (auto simp: wq_loop_def set_caller_def set_loop_def nth_list_update)

lemma wq_fields [simp]:
  "wqQueue (set_caller i c q) = wqQueue q" "wqQueue (set_loop l e q) = wqQueue q"
  "wqSent (set_caller i c q) = wqSent q" "wqSent (set_loop l e q) = wqSent q"
  "wqCancelled (set_caller i c q) = wqCancelled q" "wqCancelled (set_loop l e q) = wqCancelled q"
  "wqState (set_caller i c q) = wqState q" "wqState (set_loop l e q) = wqState q"
  by (simp_all add: set_caller_def set_loop_def)

lemma wq_caller_update [simp]:
  "wq_caller (q\<lparr>wqQueue := a\<rparr>) i = wq_caller q i" "wq_caller (q\<lparr>wqSent := b\<rparr>) i = wq_caller q i"
  "wq_caller (q\<lparr>wqState := s\<rparr>) i = wq_caller q i" "wq_caller (q\<lparr>wqClosing := n\<rparr>) i = wq_caller q i"
  "wq_caller (q\<lparr>wqCancelled := c\<rparr>) i = wq_caller q i" "wq_caller (q\<lparr>wqLoops := l\<rparr>) i = wq_caller q i"
  by (simp_all add: wq_caller_def)

lemma wq_loop_update [simp]:
  "wq_loop (q\<lparr>wqQueue := a\<rparr>) i = wq_loop q i" "wq_loop (q\<lparr>wqSent := b\<rparr>) i = wq_loop q i"
  "wq_loop (q\<lparr>wqState := s\<rparr>) i = wq_loop q i" "wq_loop (q\<lparr>wqClosing := n\<rparr>) i = wq_loop q i"
  "wq_loop (q\<lparr>wqCancelled := c\<rparr>) i = wq_loop q i" "wq_loop (q\<lparr>wqCallers := l\<rparr>) i = wq_loop q i"
  by (simp_all add: wq_loop_def)

lemma served_by_same: "(\<And>m. wq_loop q' m = wq_loop q m) \<Longrightarrow> served_by q' = served_by q"
  by (simp add: served_by_def fun_eq_iff)

lemma served_by_set:
  "wq_loop q l \<noteq> None \<Longrightarrow> served_by (set_loop l e q) m
    = (if m = l then (case e of Serving i _ \<Rightarrow> Some i | _ \<Rightarrow> None) else served_by q m)"
  by (auto simp: served_by_def)

lemma served_by_simps [simp]:
  "served_by (set_caller i c q) = served_by q" "served_by (q\<lparr>wqQueue := a\<rparr>) = served_by q"
  "served_by (q\<lparr>wqSent := b\<rparr>) = served_by q" "served_by (q\<lparr>wqState := s\<rparr>) = served_by q"
  "served_by (q\<lparr>wqClosing := n\<rparr>) = served_by q" "served_by (q\<lparr>wqCancelled := d\<rparr>) = served_by q"
  by (rule served_by_same, simp)+

lemma wq_caller_call:
  "wq_caller (call_write data q) i = (if i = length (wqCallers q)
     then Some (if wqState q \<noteq> ChannelStateOpen then Returned (Some ErrChannelClosed) else Checked data)
     else wq_caller q i)"
  by (auto simp: wq_caller_def call_write_def nth_append)

lemma wq_loop_open:
  "wq_loop (open_queue q) l = (if l = length (wqLoops q) \<and> wqState q \<noteq> ChannelStateOpen then Some AtSelect
     else wq_loop q l)"
  by (auto simp: wq_loop_def open_queue_def nth_append)

lemma wq_caller_Waiting_new: "wq_caller q (length (wqCallers q)) = None"
  by (simp add: wq_caller_def)

lemma wq_loop_new: "wq_loop q (length (wqLoops q)) = None"
  by (simp add: wq_loop_def)

section \<open>Every request is answered\<close>

text \<open>The write loop that takes a step, and whether it has not ended yet.\<close>

definition step_of_loop :: "queue_step \<Rightarrow> nat option" where
  "step_of_loop step =
     (case step of
        Take l \<Rightarrow> Some l
      | Finish l _ \<Rightarrow> Some l
      | StartDrain l \<Rightarrow> Some l
      | DrainOne l \<Rightarrow> Some l
      | DrainEnd l \<Rightarrow> Some l
      | _ \<Rightarrow> None)"

abbreviation loop_steps :: "nat \<Rightarrow> queue_step \<Rightarrow> bool" where
  "loop_steps l step \<equiv> step_of_loop step = Some l"

definition loop_alive :: "write_queue \<Rightarrow> nat \<Rightarrow> bool" where
  "loop_alive q l \<longleftrightarrow> wq_loop q l \<noteq> None \<and> wq_loop q l \<noteq> Some Ended"

definition loop_rank :: "write_queue \<Rightarrow> nat \<Rightarrow> nat" where
  "loop_rank q l = (case wq_loop q l of Some (Serving _ _) \<Rightarrow> 2 | Some AtSelect \<Rightarrow> 1 | _ \<Rightarrow> 0)"

lemma other_loop:
  assumes "wq_step step q = Some q'" and "\<not> loop_steps l step" and "wq_loop q l \<noteq> None"
  shows "wq_loop q' l = wq_loop q l"
  using assms
  by (cases step)
    (auto simp: wq_step_def step_of_loop_def call_write_def enqueue_write_def abandon_write_def
      take_request_def finish_request_def start_drain_def drain_one_def drain_end_def wq_loop_open wq_loop_new
      close_queue_def cancel_queue_def wq_loop_def [of "q\<lparr>wqCallers := _\<rparr>"]
      split: option.splits caller.splits loop.splits list.splits if_splits)

lemma loop_ranks:
  assumes "wq_step step q = Some q'" and "loop_steps l step" and "loop_alive q l"
  shows "(case step of Take _ \<Rightarrow> loop_rank q l = 1 \<and> loop_rank q' l = 2 \<and> loop_alive q' l
    | Finish _ _ \<Rightarrow> loop_rank q l = 2 \<and> loop_rank q' l = 1 \<and> loop_alive q' l
    | StartDrain _ \<Rightarrow> loop_rank q l = 1 \<and> loop_rank q' l = 0 \<and> loop_alive q' l
    | DrainOne _ \<Rightarrow> loop_rank q l = 0 \<and> loop_rank q' l = 0 \<and> loop_alive q' l
    | DrainEnd _ \<Rightarrow> wqQueue q = [] \<and> wq_loop q' l = Some Ended
    | _ \<Rightarrow> False)"
  using assms
  by (cases step)
    (auto simp: wq_step_def step_of_loop_def take_request_def finish_request_def start_drain_def drain_one_def
      drain_end_def loop_rank_def loop_alive_def split: option.splits loop.splits list.splits if_splits)

lemma loop_possible:
  assumes "loop_alive q l" and "wqQueue q \<noteq> [] \<or> wqCancelled q"
  shows "\<exists>step. loop_steps l step \<and> wq_step step q \<noteq> None"
proof -
  obtain c where c: "wq_loop q l = Some c" "c \<noteq> Ended" using assms(1) by (auto simp: loop_alive_def)
  show ?thesis
  proof (cases c)
    case AtSelect
    show ?thesis
    proof (cases "wqQueue q")
      case Nil
      then show ?thesis using AtSelect c assms(2)
        by (intro exI [of _ "StartDrain l"]) (simp add: step_of_loop_def wq_step_def start_drain_def)
    next
      case (Cons r rest)
      then show ?thesis using AtSelect c
        by (intro exI [of _ "Take l"]) (simp add: step_of_loop_def wq_step_def take_request_def split: prod.split)
    qed
  next
    case (Serving i d)
    then show ?thesis using c
      by (intro exI [of _ "Finish l True"]) (simp add: step_of_loop_def wq_step_def finish_request_def)
  next
    case Draining
    show ?thesis
    proof (cases "wqQueue q")
      case Nil
      then show ?thesis using Draining c
        by (intro exI [of _ "DrainEnd l"]) (simp add: step_of_loop_def wq_step_def drain_end_def)
    next
      case (Cons r rest)
      then show ?thesis using Draining c
        by (intro exI [of _ "DrainOne l"]) (simp add: step_of_loop_def wq_step_def drain_one_def split: prod.split)
    qed
  qed (use c in simp)
qed

definition write_move :: "queue_step \<Rightarrow> write_queue \<Rightarrow> request_move" where
  "write_move step q =
     (case step of
        Enqueue i \<Rightarrow> Join i
      | Take l \<Rightarrow> Start l (fst (hd (wqQueue q)))
      | Finish l ok \<Rightarrow> Answer l (the (served_by q l))
      | DrainOne l \<Rightarrow> Refuse l (fst (hd (wqQueue q)))
      | _ \<Rightarrow> Keep)"

lemma write_moved:
  assumes "wq_step step q = Some q'"
  shows "move_allowed queue_cap (write_move step q)
      (map fst (wqQueue q), served_by q, \<lambda>i. wq_caller q i = Some Waiting)
      (map fst (wqQueue q'), served_by q', \<lambda>i. wq_caller q' i = Some Waiting)"
proof (cases step)
  case (CallWrite data)
  then have q': "q' = call_write data q" using assms by (simp add: wq_step_def)
  have "served_by q' = served_by q" unfolding q' by (rule served_by_same) (simp add: call_write_def)
  then show ?thesis using CallWrite
    by (simp add: q' write_move_def wq_caller_call wq_caller_Waiting_new fun_eq_iff) (simp add: call_write_def)
next
  case (Enqueue i)
  then show ?thesis using assms
    by (auto simp: wq_step_def enqueue_write_def write_move_def fun_eq_iff
        split: option.splits caller.splits if_splits)
next
  case (Abandon i)
  then show ?thesis using assms
    by (auto simp: wq_step_def abandon_write_def write_move_def fun_eq_iff
        split: option.splits caller.splits if_splits)
next
  case (Take l)
  then obtain i data rest where c: "wq_loop q l = Some AtSelect" "wqQueue q = (i, data) # rest"
    and q': "q' = set_loop l (Serving i data) (q\<lparr>wqQueue := rest\<rparr>)"
    using assms by (auto simp: wq_step_def take_request_def split: option.splits loop.splits list.splits)
  then have "served_by q' = (served_by q)(l := Some i)" "served_by q l = None"
    by (auto simp: served_by_set fun_eq_iff) (simp add: served_by_def)
  then show ?thesis using Take c q' by (simp add: write_move_def)
next
  case (Finish l ok)
  then obtain i data where c: "wq_loop q l = Some (Serving i data)"
    and q': "q' = set_loop l AtSelect
          (set_caller i (Returned (if ok then None else Some PhysicalWriteFailed))
            (if ok then q\<lparr>wqSent := wqSent q @ [data]\<rparr> else q))"
    using assms by (auto simp: wq_step_def finish_request_def split: option.splits loop.splits)
  have "served_by q' = (served_by q)(l := None)" "served_by q l = Some i"
    using c by (auto simp: q' served_by_set fun_eq_iff served_by_def)
  moreover have "(wq_caller q' j = Some Waiting) = ((\<lambda>j. wq_caller q j = Some Waiting)(i := False)) j" for j
    by (auto simp: q')
  ultimately show ?thesis using Finish q' by (simp add: write_move_def fun_eq_iff)
next
  case (StartDrain l)
  then have c: "wq_loop q l = Some AtSelect" and q': "q' = set_loop l Draining q"
    using assms by (auto simp: wq_step_def start_drain_def split: if_splits)
  have "served_by q' = served_by q" using c by (auto simp: q' served_by_set fun_eq_iff) (simp add: served_by_def)
  then show ?thesis using StartDrain q' by (simp add: write_move_def)
next
  case (DrainOne l)
  then show ?thesis using assms
    by (auto simp: wq_step_def drain_one_def write_move_def fun_eq_iff
        split: option.splits loop.splits list.splits if_splits)
next
  case (DrainEnd l)
  then have c: "wq_loop q l = Some Draining" and q': "q' = set_loop l Ended q"
    using assms by (auto simp: wq_step_def drain_end_def split: if_splits)
  have "served_by q' = served_by q" using c by (auto simp: q' served_by_set fun_eq_iff) (simp add: served_by_def)
  then show ?thesis using DrainEnd q' by (simp add: write_move_def)
next
  case OpenChannel
  then have q': "q' = open_queue q" using assms by (simp add: wq_step_def)
  have "served_by q' = served_by q"
    using wq_loop_new [of q] by (auto simp: fun_eq_iff served_by_def q' wq_loop_open)
  then show ?thesis using OpenChannel by (simp add: q' write_move_def) (auto simp: open_queue_def)
next
  case CloseChannel
  then show ?thesis using assms by (auto simp: wq_step_def close_queue_def write_move_def)
next
  case Cancel
  then show ?thesis using assms by (auto simp: wq_step_def cancel_queue_def write_move_def split: if_splits)
qed

interpretation writes: request_queue wq_step queue_cap "\<lambda>q. map fst (wqQueue q)" served_by
    "\<lambda>q i. wq_caller q i = Some Waiting" write_move step_of_loop "\<lambda>q. True" loop_alive "\<lambda>q. False" loop_rank
proof unfold_locales
  fix step q q' l i
  assume step: "wq_step step q = Some q'"
  show "move_allowed queue_cap (write_move step q)
      (map fst (wqQueue q), served_by q, \<lambda>i. wq_caller q i = Some Waiting)
      (map fst (wqQueue q'), served_by q', \<lambda>i. wq_caller q' i = Some Waiting)" by (rule write_moved [OF step])
  show "step_of_loop step = Some l" if "write_move step q = Start l i \<or> write_move step q = Answer l i
      \<or> write_move step q = Refuse l i"
    using that by (cases step) (auto simp: write_move_def step_of_loop_def)
  show "loop_alive q' l \<and> loop_rank q' l \<le> loop_rank q l" if "step_of_loop step \<noteq> Some l" "loop_alive q l"
    using other_loop [OF step that(1)] that(2) by (auto simp: loop_alive_def loop_rank_def)
  show "loop_alive q' l \<and> ((\<exists>i. write_move step q = Start l i \<or> write_move step q = Refuse l i)
      \<or> loop_rank q' l < loop_rank q l)"
    if "step_of_loop step = Some l" "loop_alive q l" "map fst (wqQueue q) \<noteq> []"
    using loop_ranks [OF step that(1,2)] that(1,3) by (cases step) (auto simp: write_move_def step_of_loop_def)
  show "write_move step q = Answer l i" if "served_by q l = Some i" "step_of_loop step = Some l"
    using step that
    by (cases step)
      (auto simp: wq_step_def step_of_loop_def write_move_def served_by_def take_request_def finish_request_def
        start_drain_def drain_one_def drain_end_def split: option.splits loop.splits list.splits if_splits)
next
  fix q l i
  show "loop_rank q l \<le> 2" by (auto simp: loop_rank_def split: option.split loop.split)
  show "\<exists>step. step_of_loop step = Some l \<and> wq_step step q \<noteq> None"
    if "loop_alive q l" "map fst (wqQueue q) \<noteq> []"
    using loop_possible [of q l] that by auto
  show "\<exists>step. step_of_loop step = Some l \<and> wq_step step q \<noteq> None" if "served_by q l = Some i"
  proof -
    from that obtain d where "wq_loop q l = Some (Serving i d)"
      by (auto simp: served_by_def split: option.splits loop.splits)
    then show ?thesis
      by (intro exI [of _ "Finish l True"]) (simp add: step_of_loop_def wq_step_def finish_request_def)
  qed
qed

lemma queue_ok_iff: "queue_ok q = writes.requests_ok q"
  by (simp add: queue_ok_def writes.requests_ok_def)

lemma queue_ok_new: "queue_ok new_queue"
  by (auto simp: queue_ok_def accounted_def new_queue_def served_by_def wq_loop_def wq_caller_def)

lemma queue_ok_run: "run wq_step steps q = Some q' \<Longrightarrow> queue_ok q \<Longrightarrow> queue_ok q'"
  unfolding queue_ok_iff by (rule writes.requests_ok_run)

lemma waiting_left:
  assumes "wq_step step q = Some q'" and "wq_caller q i = Some Waiting" and "wq_caller q' i \<noteq> Some Waiting"
  shows "\<exists>r. wq_caller q' i = Some (Returned r)"
  using assms wq_caller_Waiting_new [of q]
  by (cases step)
    (auto simp: wq_step_def wq_caller_call enqueue_write_def abandon_write_def take_request_def finish_request_def
      start_drain_def drain_one_def drain_end_def open_queue_def close_queue_def cancel_queue_def
      split: option.splits caller.splits loop.splits list.splits if_splits)

section \<open>Closing ends the write loops\<close>

definition is_checked :: "caller \<Rightarrow> bool" where
  "is_checked c = (case c of Checked _ \<Rightarrow> True | _ \<Rightarrow> False)"

text \<open>Callers that passed the test of the state may still queue their requests.\<close>

definition checked_callers :: "write_queue \<Rightarrow> nat" where
  "checked_callers q = length (filter is_checked (wqCallers q))"

lemma length_filter_update:
  "i < length xs \<Longrightarrow> length (filter P (xs[i := y])) + (if P (xs ! i) then 1 else 0)
    = length (filter P xs) + (if P y then 1 else 0)"
proof (induction xs arbitrary: i)
  case (Cons x xs)
  then show ?case by (cases i) (auto simp del: One_nat_def)
qed simp

lemma checked_callers_set:
  "wq_caller q i = Some c \<Longrightarrow> checked_callers (set_caller i d q) + (if is_checked c then 1 else 0)
    = checked_callers q + (if is_checked d then 1 else 0)"
  using length_filter_update [of i "wqCallers q" is_checked d]
  by (auto simp: checked_callers_def set_caller_def wq_caller_def split: if_split_asm)

lemma checked_callers_returned: "checked_callers (set_caller i (Returned r) q) \<le> checked_callers q"
proof (cases "wq_caller q i")
  case None
  then show ?thesis by (simp add: checked_callers_def set_caller_def wq_caller_def list_update_beyond split: if_splits)
next
  case (Some c)
  from checked_callers_set [OF this, of "Returned r"] show ?thesis
    by (simp add: is_checked_def split: if_splits)
qed

lemma checked_callers_simps [simp]:
  "checked_callers (set_loop l e q) = checked_callers q" "checked_callers (q\<lparr>wqQueue := a\<rparr>) = checked_callers q"
  "checked_callers (q\<lparr>wqSent := b\<rparr>) = checked_callers q" "checked_callers (q\<lparr>wqState := s\<rparr>) = checked_callers q"
  "checked_callers (q\<lparr>wqClosing := n\<rparr>) = checked_callers q"
  "checked_callers (q\<lparr>wqCancelled := d\<rparr>) = checked_callers q"
  by (simp_all add: checked_callers_def set_loop_def)

definition queue_load :: "write_queue \<Rightarrow> nat" where
  "queue_load q = checked_callers q + length (wqQueue q)"

definition closing_measure :: "nat \<Rightarrow> write_queue \<Rightarrow> nat" where
  "closing_measure l q = 3 * queue_load q + loop_rank q l"

lemma closed_step:
  assumes "wq_step step q = Some q'" and "wqState q = ChannelStateClosed" and "wqCancelled q"
  shows "wqState q' = ChannelStateOpen \<or> (wqState q' = ChannelStateClosed \<and> wqCancelled q'
    \<and> (case step of Take _ \<Rightarrow> queue_load q' < queue_load q | DrainOne _ \<Rightarrow> queue_load q' < queue_load q
       | _ \<Rightarrow> queue_load q' \<le> queue_load q))"
proof (cases step)
  case (CallWrite d)
  then show ?thesis using assms
    by (auto simp: wq_step_def call_write_def checked_callers_def is_checked_def queue_load_def)
next
  case (Enqueue i)
  then obtain d where c: "wq_caller q i = Some (Checked d)"
    and q': "q' = set_caller i Waiting (q\<lparr>wqQueue := wqQueue q @ [(i, d)]\<rparr>)"
    using assms(1) by (auto simp: wq_step_def enqueue_write_def split: option.splits caller.splits if_splits)
  then have "checked_callers q' + 1 = checked_callers q"
    using checked_callers_set [of "q\<lparr>wqQueue := wqQueue q @ [(i, d)]\<rparr>" i "Checked d" Waiting]
    by (simp add: is_checked_def)
  then show ?thesis using assms(2,3) Enqueue q' by (simp add: queue_load_def)
next
  case (Abandon i)
  then show ?thesis using assms checked_callers_returned
    by (auto simp: wq_step_def abandon_write_def queue_load_def split: option.splits caller.splits if_splits)
next
  case (Take l)
  then show ?thesis using assms
    by (auto simp: wq_step_def take_request_def queue_load_def split: option.splits loop.splits list.splits)
next
  case (Finish l ok)
  then show ?thesis using assms checked_callers_returned [of _ _ q] checked_callers_returned [of _ _ "q\<lparr>wqSent := _\<rparr>"]
    by (auto simp: wq_step_def finish_request_def queue_load_def split: option.splits loop.splits)
next
  case (DrainOne l)
  then obtain i d rest where "wqQueue q = (i, d) # rest"
    and "q' = set_caller i (Returned (Some ErrChannelClosed)) (q\<lparr>wqQueue := rest\<rparr>)"
    using assms(1) by (auto simp: wq_step_def drain_one_def split: option.splits loop.splits list.splits)
  then show ?thesis using assms(2,3) DrainOne
      checked_callers_returned [of i "Some ErrChannelClosed" "q\<lparr>wqQueue := rest\<rparr>"]
    by (simp add: queue_load_def)
qed (use assms in \<open>auto simp: wq_step_def start_drain_def drain_end_def open_queue_def close_queue_def
      cancel_queue_def queue_load_def split: if_splits\<close>)

interpretation closing: progress wq_step "loop_steps l"
    "\<lambda>q. wqState q = ChannelStateClosed \<and> wqCancelled q \<and> loop_alive q l"
    "\<lambda>q. wqState q = ChannelStateOpen \<or> wq_loop q l = Some Ended" "closing_measure l" for l
proof unfold_locales
  fix q q' step
  assume P: "wqState q = ChannelStateClosed \<and> wqCancelled q \<and> loop_alive q l" and step: "wq_step step q = Some q'"
  note c = closed_step [OF step conjunct1 [OF P] conjunct1 [OF conjunct2 [OF P]]]
  have mine: "wqState q' = ChannelStateOpen \<or> wq_loop q' l = Some Ended
      \<or> (loop_alive q' l \<and> closing_measure l q' < closing_measure l q)" if "loop_steps l step"
    using loop_ranks [OF step that] P c by (cases step) (auto simp: closing_measure_def neq_Nil_conv)
  have other: "wqState q' = ChannelStateOpen \<or> (loop_alive q' l \<and> closing_measure l q' \<le> closing_measure l q)"
    if "\<not> loop_steps l step"
    using other_loop [OF step that] P c
    by (cases step) (auto simp: closing_measure_def loop_alive_def loop_rank_def)
  show "(wqState q' = ChannelStateOpen \<or> wq_loop q' l = Some Ended)
      \<or> (wqState q' = ChannelStateClosed \<and> wqCancelled q' \<and> loop_alive q' l)
        \<and> closing_measure l q' \<le> closing_measure l q"
    using mine other c by (meson less_imp_le)
  show "(wqState q' = ChannelStateOpen \<or> wq_loop q' l = Some Ended) \<or> closing_measure l q' < closing_measure l q"
    if "loop_steps l step" using mine [OF that] by blast
next
  fix q assume "wqState q = ChannelStateClosed \<and> wqCancelled q \<and> loop_alive q l"
  then show "\<exists>step. loop_steps l step \<and> wq_step step q \<noteq> None" using loop_possible [of q l] by blast
qed


text \<open>Without a write loop and without another opening, nobody answers.\<close>

lemma orphan_stays:
  assumes "wq_step step q = Some q'" and "step \<noteq> OpenChannel" and "\<forall>l. \<not> loop_alive q l"
    and "wq_caller q i = Some Waiting"
  shows "(\<forall>l. \<not> loop_alive q' l) \<and> wq_caller q' i = Some Waiting"
proof -
  have ended: "wq_loop q l = None \<or> wq_loop q l = Some Ended" for l using assms(3) by (auto simp: loop_alive_def)
  have dead: "wq_loop q l \<noteq> Some AtSelect" "wq_loop q l \<noteq> Some (Serving j d)" "wq_loop q l \<noteq> Some Draining"
    for l j d using ended [of l] by auto
  have alive: "loop_alive q' l = loop_alive q l" if "wq_loop q' l = wq_loop q l" for l
    using that by (simp add: loop_alive_def)
  show ?thesis
  proof (cases step)
    case (CallWrite d)
    then show ?thesis using assms
      by (auto simp: wq_step_def wq_caller_call wq_caller_Waiting_new loop_alive_def)
        (auto simp: call_write_def)
  next
    case (Enqueue j)
    then show ?thesis using assms
      by (auto simp: wq_step_def enqueue_write_def loop_alive_def split: option.splits caller.splits if_splits)
  next
    case (Abandon j)
    then show ?thesis using assms
      by (auto simp: wq_step_def abandon_write_def loop_alive_def split: option.splits caller.splits if_splits)
  next
    case (Take l)
    then show ?thesis using assms dead
      by (auto simp: wq_step_def take_request_def split: option.splits loop.splits list.splits)
  next
    case (Finish l ok)
    then show ?thesis using assms dead
      by (auto simp: wq_step_def finish_request_def split: option.splits loop.splits)
  next
    case (DrainOne l)
    then show ?thesis using assms dead
      by (auto simp: wq_step_def drain_one_def split: option.splits loop.splits list.splits)
  qed (use assms dead in \<open>auto simp: wq_step_def start_drain_def drain_end_def close_queue_def cancel_queue_def
        loop_alive_def split: if_splits\<close>)
qed

section \<open>One writer\<close>

text \<open>
  Alone on an open channel, a write through the queue does what \<open>Channel_Write\<close> says in one step:
  the same answer, the same data on the physical channel.
\<close>

lemma queue_implements_write:
  assumes "wqState q = ChannelStateOpen" and "wqQueue q = []" and "wq_loop q l = Some AtSelect"
    and "chState c = ChannelStateOpen" and "\<not> chCancelled c" and "chSent c = wqSent q"
    and "Channel_Write data c = (err, c')"
  shows "\<exists>q'. run wq_step [CallWrite data, Enqueue (length (wqCallers q)), Take l, Finish l (err = None)] q = Some q'
    \<and> wqSent q' = chSent c' \<and> wq_caller q' (length (wqCallers q)) = Some (Returned err)
    \<and> wqQueue q' = [] \<and> wq_loop q' l = Some AtSelect"
proof -
  let ?i = "length (wqCallers q)"
  let ?q1 = "set_caller ?i Waiting ((call_write data q)\<lparr>wqQueue := [(?i, data)]\<rparr>)"
  let ?q2 = "set_loop l (Serving ?i data) (?q1\<lparr>wqQueue := []\<rparr>)"
  have "wq_caller (call_write data q) ?i = Some (Checked data)" and "wqQueue (call_write data q) = []"
    and "wq_loop (call_write data q) l = Some AtSelect" and "wqSent (call_write data q) = wqSent q"
    using assms(1-3) by (simp_all add: wq_caller_call) (simp_all add: call_write_def)
  then have "run wq_step [CallWrite data, Enqueue ?i, Take l, Finish l (err = None)] q
    = Some (set_loop l AtSelect (set_caller ?i (Returned (if err = None then None else Some PhysicalWriteFailed))
        (if err = None then ?q2\<lparr>wqSent := wqSent q @ [data]\<rparr> else ?q2)))"
    by (simp add: wq_step_def enqueue_write_def take_request_def finish_request_def queue_cap_def)
  moreover have "err = None \<and> chSent c' = chSent c @ [data] \<or> err = Some PhysicalWriteFailed \<and> chSent c' = chSent c"
    using assms(4,5,7) by (auto simp: Channel_Write_def split: list.splits bool.splits)
  ultimately show ?thesis
    using assms(3,6) \<open>wq_caller (call_write data q) ?i = Some (Checked data)\<close>
      \<open>wq_loop (call_write data q) l = Some AtSelect\<close> \<open>wqSent (call_write data q) = wqSent q\<close> by auto
qed

section \<open>Properties\<close>

text \<open>
  C33: in every interleaving of writers, write loops, openings and closings the requests are accounted
  for: the callers that wait for an answer are those whose request is in the queue or in the hands of a
  write loop, each once and in one place only, and the queue never holds more than its capacity. So a
  request is answered at most once and no write loop blocks on an answer.
\<close>

theorem waiting_requests_accounted:
  "case run wq_step steps new_queue of None \<Rightarrow> True | Some q \<Rightarrow> queue_ok q"
  by (auto split: option.split intro: queue_ok_run [OF _ queue_ok_new])

text \<open>
  C14: every queued write is answered. In every infinite interleaving in which no write loop that can go
  on stands still for ever (a physical write returns, the scheduler is fair), a caller that waits while
  some write loop has not ended gets its answer, however many other callers write and however often
  the channel is closed and opened meanwhile.
\<close>

theorem write_answered:
  assumes "execution wq_step new_queue s lab" and "\<And>l. weakly_fair wq_step (loop_steps l) s lab"
    and "wq_caller (s n) i = Some Waiting" and "loop_alive (s n) l"
  shows "\<exists>m\<ge>n. \<exists>r. wq_caller (s m) i = Some (Returned r)"
proof -
  obtain m where "n \<le> m" "wq_caller (s m) i \<noteq> Some Waiting"
    using writes.waiting_ends [OF assms(1,2) queue_ok_new [unfolded queue_ok_iff] assms(3,4)] by blast
  then show ?thesis
    using leaves_into [OF assms(1), of "\<lambda>q. wq_caller q i = Some Waiting" n m
        "\<lambda>q. \<exists>r. wq_caller q i = Some (Returned r)"] assms(3) waiting_left by blast
qed

definition answered_demo :: "queue_step list" where
  "answered_demo = [OpenChannel, CallWrite [5], Enqueue 0, Take 0, Finish 0 True]"

lemma no_steps_at_rest:
  assumes "wqQueue q = []" and "\<not> wqCancelled q" and "\<And>l. wq_loop q l \<in> {None, Some AtSelect, Some Ended}"
    and "loop_steps l step"
  shows "wq_step step q = None"
  using assms(1,2,4) assms(3) [of l]
  by (cases step) (auto simp: wq_step_def step_of_loop_def take_request_def finish_request_def start_drain_def
      drain_one_def drain_end_def)

theorem write_answered_witness:
  "\<exists>m\<ge>3. \<exists>r. wq_caller (listed_states wq_step new_queue answered_demo m) 0 = Some (Returned r)"
proof (rule write_answered [of _ "listed_labels answered_demo" 3 0 0])
  have final: "run wq_step answered_demo new_queue = Some \<lparr>wqState = ChannelStateOpen, wqCancelled = False,
      wqClosing = 0, wqQueue = [], wqLoops = [AtSelect], wqCallers = [Returned None], wqSent = [[5]]\<rparr>"
    by code_simp
  then show "execution wq_step new_queue (listed_states wq_step new_queue answered_demo) (listed_labels answered_demo)"
    by (intro listed_execution) simp
  show "weakly_fair wq_step (loop_steps l) (listed_states wq_step new_queue answered_demo)
      (listed_labels answered_demo)" for l
    by (rule listed_fair, rule no_steps_at_rest) (auto simp: final wq_loop_def)
  have third: "listed_states wq_step new_queue answered_demo 3 = \<lparr>wqState = ChannelStateOpen, wqCancelled = False,
      wqClosing = 0, wqQueue = [(0, [5])], wqLoops = [AtSelect], wqCallers = [Waiting], wqSent = []\<rparr>"
    by code_simp
  show "wq_caller (listed_states wq_step new_queue answered_demo 3) 0 = Some Waiting"
    and "loop_alive (listed_states wq_step new_queue answered_demo 3) 0"
    unfolding third by (simp_all add: wq_caller_def loop_alive_def wq_loop_def)
qed

text \<open>
  C18: closing ends every write loop. In every infinite interleaving that is fair to it, a write loop of
  a closed channel whose context is cancelled ends, however many callers that had passed the test of
  the state still queue their requests, unless the channel is opened again meanwhile. So \<open>Close\<close>, which
  waits for the loops, does not wait for the write loop for ever.
\<close>

theorem close_ends_write_loop:
  assumes "execution wq_step new_queue s lab" and "weakly_fair wq_step (loop_steps l) s lab"
    and "wqState (s n) = ChannelStateClosed" and "wqCancelled (s n)" and "l < length (wqLoops (s n))"
  shows "\<exists>m\<ge>n. wqState (s m) = ChannelStateOpen \<or> wq_loop (s m) l = Some Ended"
proof (cases "wq_loop (s n) l = Some Ended")
  case True
  then show ?thesis by blast
next
  case False
  then have "loop_alive (s n) l" using assms(5) by (simp add: loop_alive_def wq_loop_def)
  then show ?thesis using closing.leads_to [OF assms(1,2)] assms(3,4) by blast
qed

definition closing_demo :: "queue_step list" where
  "closing_demo = [OpenChannel, CallWrite [5], CloseChannel, Cancel, Enqueue 0, Take 0, Finish 0 True,
     StartDrain 0, DrainEnd 0]"

theorem close_ends_write_loop_witness:
  "\<exists>m\<ge>4. wqState (listed_states wq_step new_queue closing_demo m) = ChannelStateOpen
    \<or> wq_loop (listed_states wq_step new_queue closing_demo m) 0 = Some Ended"
proof (rule close_ends_write_loop [of _ "listed_labels closing_demo"])
  have final: "run wq_step closing_demo new_queue = Some \<lparr>wqState = ChannelStateClosed, wqCancelled = True,
      wqClosing = 0, wqQueue = [], wqLoops = [Ended], wqCallers = [Returned None], wqSent = [[5]]\<rparr>"
    by code_simp
  then show "execution wq_step new_queue (listed_states wq_step new_queue closing_demo) (listed_labels closing_demo)"
    by (intro listed_execution) simp
  show "weakly_fair wq_step (loop_steps 0) (listed_states wq_step new_queue closing_demo)
      (listed_labels closing_demo)"
  proof (rule listed_fair)
    show "wq_step step (the (run wq_step closing_demo new_queue)) = None" if "loop_steps 0 step" for step
      using that unfolding final
      by (cases step) (auto simp: wq_step_def step_of_loop_def take_request_def finish_request_def
          start_drain_def drain_one_def drain_end_def wq_loop_def)
  qed
  have fourth: "listed_states wq_step new_queue closing_demo 4 = \<lparr>wqState = ChannelStateClosed,
      wqCancelled = True, wqClosing = 0, wqQueue = [], wqLoops = [AtSelect], wqCallers = [Checked [5]], wqSent = []\<rparr>"
    by code_simp
  show "wqState (listed_states wq_step new_queue closing_demo 4) = ChannelStateClosed"
    and "wqCancelled (listed_states wq_step new_queue closing_demo 4)"
    and "0 < length (wqLoops (listed_states wq_step new_queue closing_demo 4))"
    unfolding fourth by simp_all
qed

definition orphan_steps :: "bytes \<Rightarrow> queue_step list" where
  "orphan_steps data = [OpenChannel, CallWrite data, CloseChannel, Cancel, StartDrain 0, DrainEnd 0, Enqueue 0]"

text \<open>
  C38: a write that runs while the channel is closed may never return. The caller tests the state while
  the channel is open; the channel is closed and its write loop drains the queue, finds it empty and
  ends; then the select of the caller, both of whose cases are ready, puts the request into the queue.
  Whatever happens from then on, short of another opening, the caller waits: its select does not look
  at the context any more.
\<close>

theorem queued_write_orphaned:
  "\<exists>q. run wq_step (orphan_steps data) new_queue = Some q \<and> wq_caller q 0 = Some Waiting
    \<and> (\<forall>steps. case run wq_step (filter (\<lambda>s. s \<noteq> OpenChannel) steps) q of
         None \<Rightarrow> True
       | Some q' \<Rightarrow> wq_caller q' 0 = Some Waiting)"
proof -
  let ?q = "\<lparr>wqState = ChannelStateClosed, wqCancelled = True, wqClosing = 0, wqQueue = [(0, data)],
    wqLoops = [Ended], wqCallers = [Waiting], wqSent = []\<rparr>"
  have q: "run wq_step (orphan_steps data) new_queue = Some ?q"
    by (simp add: orphan_steps_def wq_step_def new_queue_def open_queue_def call_write_def close_queue_def
        cancel_queue_def start_drain_def drain_end_def enqueue_write_def wq_loop_def wq_caller_def
        set_loop_def set_caller_def queue_cap_def)
  have "wq_caller q' 0 = Some Waiting"
    if "run wq_step (filter (\<lambda>s. s \<noteq> OpenChannel) steps) ?q = Some q'" for steps q'
  proof -
    let ?I = "\<lambda>q. (\<forall>l. \<not> loop_alive q l) \<and> wq_caller q 0 = Some Waiting"
    have "?I q'"
    proof (rule run_invariant [OF that])
      show "?I ?q" by (auto simp: loop_alive_def wq_loop_def wq_caller_def)
      show "?I q2" if "wq_step step q1 = Some q2" "step \<in> set (filter (\<lambda>s. s \<noteq> OpenChannel) steps)" "?I q1"
        for step q1 q2
        using that orphan_stays [of step q1 q2 0] by auto
    qed
    then show ?thesis by blast
  qed
  then show ?thesis using q by (auto simp: wq_caller_def split: option.split)
qed

end
