(* ===== verification/Channel_Physical.thy ===== *)
theory Channel_Physical
  imports Link_Frame Executions
begin

text \<open>
  What the physical channels of \<open>pkg/channel\<close> share: the statistics and the notifications of
  \<open>interface.go\<close>, the contract of the interface \<open>PhysicalChannel\<close> as a locale, and the division of a byte
  stream into link frames, which the TCP and the QUIC channel do alike. Connections of the operating
  system are numbers; what its calls return is part of the steps.
\<close>

section \<open>Statistics and notifications\<close>

record TransportStats =
  tsBytesSent :: u64
  tsBytesReceived :: u64
  tsWriteErrors :: u64
  tsReadErrors :: u64
  tsConnects :: u64
  tsDisconnects :: u64

definition zero_stats :: TransportStats where
  "zero_stats =
     \<lparr>tsBytesSent = 0, tsBytesReceived = 0, tsWriteErrors = 0, tsReadErrors = 0, tsConnects = 0,
      tsDisconnects = 0\<rparr>"

definition stats_sent :: "bytes \<Rightarrow> TransportStats \<Rightarrow> TransportStats" where
  "stats_sent data s = s\<lparr>tsBytesSent := tsBytesSent s + of_nat (length data)\<rparr>"

definition stats_received :: "bytes \<Rightarrow> TransportStats \<Rightarrow> TransportStats" where
  "stats_received data s = s\<lparr>tsBytesReceived := tsBytesReceived s + of_nat (length data)\<rparr>"

definition stats_write_error :: "TransportStats \<Rightarrow> TransportStats" where
  "stats_write_error s = s\<lparr>tsWriteErrors := tsWriteErrors s + 1\<rparr>"

definition stats_read_error :: "TransportStats \<Rightarrow> TransportStats" where
  "stats_read_error s = s\<lparr>tsReadErrors := tsReadErrors s + 1\<rparr>"

definition stats_connect :: "TransportStats \<Rightarrow> TransportStats" where
  "stats_connect s = s\<lparr>tsConnects := tsConnects s + 1\<rparr>"

definition stats_disconnect :: "TransportStats \<Rightarrow> TransportStats" where
  "stats_disconnect s = s\<lparr>tsDisconnects := tsDisconnects s + 1\<rparr>"

lemmas stats_defs = stats_sent_def stats_received_def stats_write_error_def stats_read_error_def
  stats_connect_def stats_disconnect_def

datatype notification = ConnectionEstablished | ConnectionLost

section \<open>The contract of the interface\<close>

text \<open>
  \<open>handed\<close> is what the reads have returned. Every read hands up nothing or one block of bytes that
  satisfies \<open>accepts\<close>, and adds its length to the statistics. The channels of the package accept what
  begins with a link header.
\<close>

definition link_start :: "bytes \<Rightarrow> bool" where
  "link_start data \<longleftrightarrow> 10 \<le> length data \<and> data ! 0 = StartByte1 \<and> data ! 1 = StartByte2"

locale reading_channel =
  fixes step :: "'l \<Rightarrow> 's \<Rightarrow> 's option" and inv :: "'s \<Rightarrow> bool" and handed :: "'s \<Rightarrow> bytes list"
    and stats :: "'s \<Rightarrow> TransportStats" and accepts :: "bytes \<Rightarrow> bool"
  assumes keeps: "inv q \<Longrightarrow> step l q = Some q' \<Longrightarrow> inv q'"
    and hands_up: "inv q \<Longrightarrow> step l q = Some q' \<Longrightarrow>
      handed q' = handed q \<and> tsBytesReceived (stats q') = tsBytesReceived (stats q)
      \<or> (\<exists>d. handed q' = handed q @ [d] \<and> accepts d
          \<and> tsBytesReceived (stats q') = tsBytesReceived (stats q) + of_nat (length d))"
begin

definition received_ok :: "'s \<Rightarrow> bool" where
  "received_ok q \<longleftrightarrow> inv q \<and> list_all accepts (handed q)
     \<and> tsBytesReceived (stats q) = of_nat (sum_list (map length (handed q)))"

lemma received_step: "step l q = Some q' \<Longrightarrow> received_ok q \<Longrightarrow> received_ok q'"
  using hands_up [of q l q'] keeps [of q l q'] by (auto simp: received_ok_def)

lemma received_run: "run step ls q = Some q' \<Longrightarrow> received_ok q \<Longrightarrow> received_ok q'"
  by (erule run_invariant) (auto dest: received_step)

end

locale physical_channel = reading_channel step inv handed stats link_start
  for step :: "'l \<Rightarrow> 's \<Rightarrow> 's option" and inv handed stats

section \<open>Frames in a byte stream\<close>

text \<open>What the first ten bytes say: refused, a whole frame, or how many bytes are to follow.\<close>

datatype header_verdict = BadHeader | WholeFrame | MoreBytes nat

definition judge_header :: "bytes \<Rightarrow> header_verdict" where
  "judge_header header =
     (if header ! 0 \<noteq> 0x05 \<or> header ! 1 \<noteq> 0x64 then BadHeader
      else
        (let frameLength = unat (header ! 2) in
         if frameLength < 5 then BadHeader
         else
           (let dataLen = frameLength - 5;
                additionalBytes = (if dataLen > 0 then dataLen + (dataLen + 15) div 16 * 2 else 0)
            in if additionalBytes > 0 then MoreBytes additionalBytes else WholeFrame)))"

lemma judged_start: "length h = 10 \<Longrightarrow> judge_header h \<noteq> BadHeader \<Longrightarrow> link_start (h @ rest)"
  by (auto simp: judge_header_def link_start_def nth_append split: if_splits)

text \<open>The frames the reader takes out of a stream; what follows the last complete one is pending.\<close>

function stream_frames :: "bytes \<Rightarrow> bytes list" where
  "stream_frames s =
     (if length s < 10 then []
      else (case judge_header (take 10 s) of
              BadHeader \<Rightarrow> stream_frames (drop 10 s)
            | WholeFrame \<Rightarrow> take 10 s # stream_frames (drop 10 s)
            | MoreBytes k \<Rightarrow>
                if length s < 10 + k then []
                else take (10 + k) s # stream_frames (drop (10 + k) s)))"
  by pat_completeness auto
termination stream_frames
  by (relation "measure length") auto

declare stream_frames.simps [simp del]

lemma judge_frame:
  assumes "frame_valid f"
  shows "10 \<le> length (frame_bytes f)"
    and "judge_header (take 10 (frame_bytes f @ s))
      = (if length (frame_bytes f) = 10 then WholeFrame else MoreBytes (length (frame_bytes f) - 10))"
proof -
  let ?d = "fUserData f"
  have d: "length ?d \<le> 250" and w: "frame_bytes f = AppendCRC (frame_header f) @ AddCRCs ?d"
    using Serialize_valid [OF assms] by (simp_all add: Serialize_Ok_iff)
  have head: "take 10 (frame_bytes f @ s) = AppendCRC (frame_header f)" by (simp add: w)
  have at: "AppendCRC (frame_header f) ! i = frame_header f ! i" if "i < 8" for i
    using that by (simp add: AppendCRC_def Let_def nth_append)
  have two: "AppendCRC (frame_header f) ! 2 = of_nat (length ?d + 5)"
    using at [of 2] by (simp add: frame_header_def)
  have n: "unat (AppendCRC (frame_header f) ! 2) = length ?d + 5"
    unfolding two using d by (simp add: unat_of_nat del: of_nat_add)
  have size: "length (frame_bytes f) = 10 + (length ?d + (length ?d + 15) div 16 * 2)"
    by (simp add: w length_AddCRCs)
  show "10 \<le> length (frame_bytes f)" by (simp add: size)
  have start: "AppendCRC (frame_header f) ! 0 = 0x05" "AppendCRC (frame_header f) ! Suc 0 = 0x64"
    using at [of 0] at [of 1] by (simp_all add: frame_header_def)
  show "judge_header (take 10 (frame_bytes f @ s))
    = (if length (frame_bytes f) = 10 then WholeFrame else MoreBytes (length (frame_bytes f) - 10))"
    unfolding head judge_header_def size by (simp add: n start Let_def)
qed

lemma stream_frames_frame:
  assumes "frame_valid f"
  shows "stream_frames (frame_bytes f @ s) = frame_bytes f # stream_frames s"
  using judge_frame [OF assms] by (subst stream_frames.simps) simp

lemma stream_frames_all:
  "list_all frame_valid fs \<Longrightarrow> stream_frames (concat (map frame_bytes fs)) = map frame_bytes fs"
  by (induction fs) (simp_all add: stream_frames_frame stream_frames.simps [of "[]"])

text \<open>
  The reader looks for the sync bytes at multiples of ten bytes only: behind one stray byte it
  takes none of any number of frames without data.
\<close>

lemma bad_header: "s ! 1 = 0x05 \<Longrightarrow> judge_header s = BadHeader"
  by (simp add: judge_header_def)

lemma stream_shifted:
  assumes "list_all (\<lambda>f. frame_valid f \<and> fUserData f = []) fs"
  shows "stream_frames (b # concat (map frame_bytes fs)) = []"
  using assms
proof (induction fs arbitrary: b)
  case Nil
  then show ?case by (subst stream_frames.simps) simp
next
  case (Cons f fs)
  then have "frame_bytes f = AppendCRC (frame_header f)"
    using Serialize_valid [of f] by (simp add: Serialize_Ok_iff)
  then obtain x where f: "frame_bytes f = frame_header f @ [x, ucast (drop_bit 8 (CalculateCRC (frame_header f)))]"
    by (auto simp: AppendCRC_def Let_def)
  let ?c = "ucast (drop_bit 8 (CalculateCRC (frame_header f))) :: byte"
  let ?s = "b # concat (map frame_bytes (f # fs))"
  have one: "take 10 ?s ! 1 = 0x05" and drop: "drop 10 ?s = ?c # concat (map frame_bytes fs)" and len: "10 \<le> length ?s"
    by (simp_all add: f frame_header_def)
  have "judge_header (take 10 ?s) = BadHeader" by (rule bad_header [OF one])
  then have "stream_frames ?s = stream_frames (drop 10 ?s)" using len by (subst stream_frames.simps) simp
  then show ?case unfolding drop using Cons by simp
qed

end
