(* ===== verification/Channel_Udp.thy ===== *)
theory Channel_Udp
  imports Channel_Physical
begin

text \<open>
  The UDP channel (\<open>pkg/channel/udp_channel.go\<close>): one socket, the address of the remote station or, for a
  server, of the peer the last datagram came from. The steps are those of one reader, one writer and
  \<open>Close\<close>; what the socket returns is part of the label.
\<close>

section \<open>Configuration and state\<close>

text \<open>An address of the operating system is a number; durations are numbers of nanoseconds.\<close>

type_synonym udp_addr = nat

record UDPChannelConfig =
  ucfAddress :: string
  ucfIsServer :: bool
  ucfReadTimeout :: int
  ucfWriteTimeout :: int

definition udp_defaults :: "UDPChannelConfig \<Rightarrow> UDPChannelConfig" where
  "udp_defaults config =
     config\<lparr>ucfReadTimeout := (if ucfReadTimeout config = 0 then 30000000000 else ucfReadTimeout config),
            ucfWriteTimeout := (if ucfWriteTimeout config = 0 then 10000000000 else ucfWriteTimeout config)\<rparr>"

datatype udp_reader = UdpTop | UdpReceiving

datatype udp_writer = UdpIdle | UdpWriting udp_addr bytes

datatype udp_result =
    UdpWritten | UdpWriteFailed | UdpNoConnection | UdpNoPeer | UdpClosed | UdpReadFailed

record UDPChannel =
  ucConfig :: UDPChannelConfig
  ucConn :: bool
  ucRemoteAddr :: "udp_addr option"
  ucLastPeerAddr :: "udp_addr option"
  ucReader :: udp_reader
  ucWriter :: udp_writer
  ucStats :: TransportStats
  ucClosed :: bool
  ucClosing :: bool
  ucHanded :: "bytes list"
  ucSent :: "(udp_addr \<times> bytes) list"
  ucResults :: "udp_result list"

datatype udp_err = UdpAddressRequired | UdpResolveFailed | UdpListenFailed

definition udp_count :: "(TransportStats \<Rightarrow> TransportStats) \<Rightarrow> UDPChannel \<Rightarrow> UDPChannel" where
  "udp_count f q = q\<lparr>ucStats := f (ucStats q)\<rparr>"

text \<open>\<open>resolve\<close> is the resolution of addresses, \<open>available\<close> says that the socket can be bound.\<close>

definition udp_initialize ::
  "(string \<Rightarrow> udp_addr option) \<Rightarrow> bool \<Rightarrow> UDPChannel \<Rightarrow> udp_err + UDPChannel" where
  "udp_initialize resolve available q =
     (case resolve (ucfAddress (ucConfig q)) of
        None \<Rightarrow> Inl UdpResolveFailed
      | Some addr \<Rightarrow>
          if ucfIsServer (ucConfig q)
          then (if available then Inr (udp_count stats_connect (q\<lparr>ucConn := True\<rparr>)) else Inl UdpListenFailed)
          else (case resolve '':0'' of
                  None \<Rightarrow> Inl UdpResolveFailed
                | Some _ \<Rightarrow>
                    if available
                    then Inr (udp_count stats_connect (q\<lparr>ucRemoteAddr := Some addr, ucConn := True\<rparr>))
                    else Inl UdpListenFailed))"

definition NewUDPChannel ::
  "UDPChannelConfig \<Rightarrow> (string \<Rightarrow> udp_addr option) \<Rightarrow> bool \<Rightarrow> udp_err + UDPChannel" where
  "NewUDPChannel config resolve available =
     (if ucfAddress config = '''' then Inl UdpAddressRequired
      else udp_initialize resolve available
             \<lparr>ucConfig = udp_defaults config, ucConn = False, ucRemoteAddr = None, ucLastPeerAddr = None,
              ucReader = UdpTop, ucWriter = UdpIdle, ucStats = zero_stats, ucClosed = False, ucClosing = False,
              ucHanded = [], ucSent = [], ucResults = []\<rparr>)"

section \<open>Operations\<close>

definition udp_read_begin :: "bool \<Rightarrow> UDPChannel \<Rightarrow> UDPChannel option" where
  "udp_read_begin cancelled q =
     (if ucReader q \<noteq> UdpTop then None
      else if cancelled \<or> ucClosed q then Some (q\<lparr>ucResults := ucResults q @ [UdpClosed]\<rparr>)
      else if \<not> ucConn q then Some (q\<lparr>ucResults := ucResults q @ [UdpNoConnection]\<rparr>)
      else Some (q\<lparr>ucReader := UdpReceiving\<rparr>))"

text \<open>A datagram longer than the buffer is cut. The peer is remembered before anything is checked.\<close>

datatype udp_receipt = UdpTimeout | UdpError | Datagram bytes udp_addr

definition udp_receive :: "udp_receipt \<Rightarrow> UDPChannel \<Rightarrow> UDPChannel option" where
  "udp_receive r q =
     (if ucReader q \<noteq> UdpReceiving then None
      else
        (let q1 = q\<lparr>ucReader := UdpTop\<rparr>
         in case r of
              UdpTimeout \<Rightarrow> Some q1
            | UdpError \<Rightarrow>
                if ucClosed q then Some (q1\<lparr>ucResults := ucResults q @ [UdpClosed]\<rparr>)
                else Some (udp_count stats_read_error (q1\<lparr>ucResults := ucResults q @ [UdpReadFailed]\<rparr>))
            | Datagram data from \<Rightarrow>
                if \<not> ucConn q then None
                else
                  (let frame = take 2048 data;
                       q2 = (if ucfIsServer (ucConfig q) then q1\<lparr>ucLastPeerAddr := Some from\<rparr> else q1)
                   in if length frame < 10 then Some (udp_count stats_read_error q2)
                      else if frame ! 0 \<noteq> 0x05 \<or> frame ! 1 \<noteq> 0x64 then Some (udp_count stats_read_error q2)
                      else Some (udp_count (stats_received frame) (q2\<lparr>ucHanded := ucHanded q @ [frame]\<rparr>)))))"

definition udp_write_begin :: "bool \<Rightarrow> bytes \<Rightarrow> UDPChannel \<Rightarrow> UDPChannel option" where
  "udp_write_begin cancelled data q =
     (if ucWriter q \<noteq> UdpIdle then None
      else if cancelled \<or> ucClosed q then Some (q\<lparr>ucResults := ucResults q @ [UdpClosed]\<rparr>)
      else if \<not> ucConn q
      then Some (udp_count stats_write_error (q\<lparr>ucResults := ucResults q @ [UdpNoConnection]\<rparr>))
      else
        (case (if ucfIsServer (ucConfig q) then ucLastPeerAddr q else ucRemoteAddr q) of
           None \<Rightarrow> Some (udp_count stats_write_error (q\<lparr>ucResults := ucResults q @ [UdpNoPeer]\<rparr>))
         | Some dest \<Rightarrow> Some (q\<lparr>ucWriter := UdpWriting dest data\<rparr>)))"

definition udp_write_end :: "bool \<Rightarrow> UDPChannel \<Rightarrow> UDPChannel option" where
  "udp_write_end ok q =
     (case ucWriter q of
        UdpIdle \<Rightarrow> None
      | UdpWriting dest data \<Rightarrow>
          (let q1 = q\<lparr>ucWriter := UdpIdle\<rparr>
           in if \<not> ok then Some (udp_count stats_write_error (q1\<lparr>ucResults := ucResults q @ [UdpWriteFailed]\<rparr>))
              else if \<not> ucConn q then None
              else Some (udp_count (stats_sent data)
                     (q1\<lparr>ucSent := ucSent q @ [(dest, data)], ucResults := ucResults q @ [UdpWritten]\<rparr>))))"

definition udp_close_begin :: "UDPChannel \<Rightarrow> UDPChannel" where
  "udp_close_begin q = (if ucClosed q then q else q\<lparr>ucClosed := True, ucClosing := True\<rparr>)"

definition udp_close_conn :: "UDPChannel \<Rightarrow> UDPChannel option" where
  "udp_close_conn q =
     (if \<not> ucClosing q then None
      else if ucConn q then Some (udp_count stats_disconnect (q\<lparr>ucClosing := False, ucConn := False\<rparr>))
      else Some (q\<lparr>ucClosing := False\<rparr>))"

definition UDPChannel_Statistics :: "UDPChannel \<Rightarrow> TransportStats" where
  "UDPChannel_Statistics q = ucStats q"

definition udp_RemoteAddr :: "UDPChannel \<Rightarrow> udp_addr option" where
  "udp_RemoteAddr q = (if ucfIsServer (ucConfig q) then ucLastPeerAddr q else ucRemoteAddr q)"

datatype udp_step =
    UdpReadBegin bool | UdpReceive udp_receipt | UdpWriteBegin bool bytes | UdpWriteEnd bool
  | UdpCloseBegin | UdpCloseConn

definition udp_step :: "udp_step \<Rightarrow> UDPChannel \<Rightarrow> UDPChannel option" where
  "udp_step step q =
     (case step of
        UdpReadBegin cancelled \<Rightarrow> udp_read_begin cancelled q
      | UdpReceive r \<Rightarrow> udp_receive r q
      | UdpWriteBegin cancelled data \<Rightarrow> udp_write_begin cancelled data q
      | UdpWriteEnd ok \<Rightarrow> udp_write_end ok q
      | UdpCloseBegin \<Rightarrow> Some (udp_close_begin q)
      | UdpCloseConn \<Rightarrow> udp_close_conn q)"

lemmas udp_ops = udp_read_begin_def udp_receive_def udp_write_begin_def udp_write_end_def udp_close_begin_def
  udp_close_conn_def udp_count_def

interpretation udp: physical_channel udp_step "\<lambda>q. True" ucHanded ucStats
proof unfold_locales
  show "ucHanded q' = ucHanded q \<and> tsBytesReceived (ucStats q') = tsBytesReceived (ucStats q)
    \<or> (\<exists>d. ucHanded q' = ucHanded q @ [d] \<and> link_start d
        \<and> tsBytesReceived (ucStats q') = tsBytesReceived (ucStats q) + of_nat (length d))"
    if "udp_step step q = Some q'" for step q q'
    using that
    by (cases step)
      (auto simp: udp_step_def udp_ops Let_def stats_defs link_start_def
        split: if_splits udp_receipt.splits option.splits udp_writer.splits)
qed simp

section \<open>Where a server sends\<close>

text \<open>Without further datagrams and without an end the channel goes on sending to the same address.\<close>

definition no_datagram :: "udp_step \<Rightarrow> bool" where
  "no_datagram step = (case step of UdpReceive (Datagram _ _) \<Rightarrow> False | _ \<Rightarrow> True)"

definition writes_to :: "udp_addr \<Rightarrow> UDPChannel \<Rightarrow> bool" where
  "writes_to a q \<longleftrightarrow> ucfIsServer (ucConfig q) \<and> ucLastPeerAddr q = Some a
     \<and> (case ucWriter q of UdpIdle \<Rightarrow> True | UdpWriting dest _ \<Rightarrow> dest = a)"

lemma writes_to_step:
  assumes "udp_step step q = Some q'" and "no_datagram step" and "writes_to a q"
  shows "writes_to a q' \<and> (\<exists>xs. ucSent q' = ucSent q @ xs \<and> list_all (\<lambda>(dest, d). dest = a) xs)"
  using assms
  by (cases step)
    (auto simp: udp_step_def udp_ops Let_def writes_to_def no_datagram_def
      split: if_splits udp_receipt.splits option.splits udp_writer.splits)

lemma writes_to_run:
  assumes "run udp_step steps q = Some q'" and "list_all no_datagram steps" and "writes_to a q"
  shows "\<exists>xs. ucSent q' = ucSent q @ xs \<and> list_all (\<lambda>(dest, d). dest = a) xs"
  using assms
proof (induction steps arbitrary: q)
  case (Cons step steps)
  then obtain q1 where q1: "udp_step step q = Some q1" "run udp_step steps q1 = Some q'"
    by (auto split: option.splits)
  with Cons.prems writes_to_step [OF q1(1), of a] Cons.IH [OF q1(2)] show ?case by fastforce
qed simp

section \<open>Properties\<close>

text \<open>
  Any datagram redirects what a UDP server sends. A datagram from another address, even an empty one
  that is refused as no frame, makes that address the peer: every frame written from then on, until
  the next datagram arrives, goes there.
\<close>

theorem udp_replies_redirected:
  assumes "ucfIsServer (ucConfig q)" and "ucConn q" and "ucReader q = UdpReceiving" and "ucWriter q = UdpIdle"
    and "list_all no_datagram steps" and "run udp_step (UdpReceive (Datagram data stranger) # steps) q = Some q'"
  shows "\<exists>xs. ucSent q' = ucSent q @ xs \<and> list_all (\<lambda>(dest, d). dest = stranger) xs"
proof -
  obtain q1 where q1: "udp_step (UdpReceive (Datagram data stranger)) q = Some q1" "run udp_step steps q1 = Some q'"
    using assms(6) by (auto split: option.splits)
  have "writes_to stranger q1 \<and> ucSent q1 = ucSent q"
    using q1(1) assms(1-4) by (auto simp: udp_step_def udp_ops Let_def writes_to_def split: if_splits)
  then show ?thesis using writes_to_run [OF q1(2) assms(5)] by auto
qed

definition sample_udp :: UDPChannel where
  "sample_udp =
     \<lparr>ucConfig = \<lparr>ucfAddress = ''a'', ucfIsServer = True, ucfReadTimeout = 30000000000, ucfWriteTimeout = 10000000000\<rparr>,
      ucConn = True, ucRemoteAddr = None, ucLastPeerAddr = Some 1, ucReader = UdpReceiving, ucWriter = UdpIdle,
      ucStats = zero_stats, ucClosed = False, ucClosing = False, ucHanded = [], ucSent = [], ucResults = []\<rparr>"

theorem udp_replies_redirected_witness:
  "\<exists>q'. run udp_step [UdpReceive (Datagram [] 2), UdpWriteBegin False [7], UdpWriteEnd True] sample_udp = Some q'
    \<and> ucSent q' = [(2, [7])] \<and> list_all (\<lambda>(dest, d). dest = 2) (ucSent q')"
proof -
  obtain q' where run: "run udp_step [UdpReceive (Datagram [] 2), UdpWriteBegin False [7], UdpWriteEnd True] sample_udp = Some q'"
    and sent: "ucSent q' = [(2, [7])]"
    by (simp add: udp_step_def udp_ops sample_udp_def Let_def)
  have "\<exists>xs. ucSent q' = ucSent sample_udp @ xs \<and> list_all (\<lambda>(dest, d). dest = 2) xs"
    by (rule udp_replies_redirected [OF _ _ _ _ _ run]) (simp_all add: sample_udp_def no_datagram_def)
  then show ?thesis using run sent by (auto simp: sample_udp_def)
qed

text \<open>
  What a UDP channel hands up are datagrams that begin with a link header, cut to the size of its
  buffer, and their lengths add up to the bytes received.
\<close>

theorem udp_hands_up_frames:
  "case NewUDPChannel config resolve available of
     Inl _ \<Rightarrow> True
   | Inr q0 \<Rightarrow>
       (case run udp_step steps q0 of
          None \<Rightarrow> True
        | Some q \<Rightarrow> list_all link_start (ucHanded q)
            \<and> tsBytesReceived (ucStats q) = of_nat (sum_list (map length (ucHanded q))))"
proof -
  have "udp.received_ok q0" if "NewUDPChannel config resolve available = Inr q0" for q0
    using that
    by (auto simp: NewUDPChannel_def udp_initialize_def udp.received_ok_def udp_count_def stats_defs zero_stats_def
        split: if_splits option.splits)
  then show ?thesis using udp.received_run by (auto simp: udp.received_ok_def split: sum.split option.split)
qed

end
