(* ===== verification/Channel_Quic.thy ===== *)
theory Channel_Quic
  imports Channel_Physical
begin

text \<open>
  The QUIC channel (\<open>pkg/channel/quic_channel.go\<close>): a connection and a stream on it, each under a lock of
  its own, so that replacing or dropping both takes two steps. The connections, streams and dials of
  the QUIC library are numbers and results in the labels of the steps; a stream has the number of its
  connection. \<open>qcSockets\<close> are the sockets the channel made for dialling and has not closed.
\<close>

section \<open>Configuration and state\<close>

record QUICChannelConfig =
  qcfAddress :: string
  qcfIsServer :: bool
  qcfReconnectDelay :: int
  qcfReadTimeout :: int
  qcfWriteTimeout :: int

definition quic_defaults :: "QUICChannelConfig \<Rightarrow> QUICChannelConfig" where
  "quic_defaults config =
     config\<lparr>qcfReconnectDelay := (if qcfReconnectDelay config = 0 then 5000000000 else qcfReconnectDelay config),
            qcfReadTimeout := (if qcfReadTimeout config = 0 then 30000000000 else qcfReadTimeout config),
            qcfWriteTimeout := (if qcfWriteTimeout config = 0 then 10000000000 else qcfWriteTimeout config)\<rparr>"

text \<open>
  The goroutines: the accept loop; for each accepted connection one that waits for its stream, with
  the flag that a connection was replaced and whether it has the stream; the reconnect loop; the
  reader and the writer, which drop the stream and the connection one after the other.
\<close>

datatype quic_accept = QAcceptOff | QAcceptTop | QAcceptHolds nat | QAcceptEnded

datatype quic_reconnect = QRedialOff | QRedialTop | QRedialDelay | QRedialConn nat | QRedialStream nat | QRedialEnded

datatype quic_reader = QReaderTop | QReadingHeader nat | QReadingBody nat bytes nat | QReaderDropping

datatype quic_writer = QWriterIdle | QWriting nat bytes | QWriterDropping

datatype quic_result = QWritten | QWriteFailed | QNoStream | QClosed

record QUICChannel =
  qcConfig :: QUICChannelConfig
  qcConn :: "nat option"
  qcStream :: "nat option"
  qcNext :: nat
  qcDead :: "nat list"
  qcShut :: "nat list"
  qcSockets :: "nat list"
  qcAccept :: quic_accept
  qcStreamers :: "(nat \<times> bool \<times> bool) list"
  qcReconnect :: quic_reconnect
  qcReader :: quic_reader
  qcWriter :: quic_writer
  qcHasListener :: bool
  qcNotes :: "notification list"
  qcStats :: TransportStats
  qcClosed :: bool
  qcClosingStream :: bool
  qcClosingConn :: bool
  qcHanded :: "bytes list"
  qcWritten :: "(nat \<times> bytes) list"
  qcResults :: "quic_result list"

datatype quic_err =
    QuicAddressRequired | QuicTLSFailed | QuicResolveFailed | QuicSocketFailed | QuicListenFailed
  | QuicDialFailed | QuicStreamFailed

definition quic_notify :: "notification list \<Rightarrow> QUICChannel \<Rightarrow> QUICChannel" where
  "quic_notify ns q = (if qcHasListener q then q\<lparr>qcNotes := qcNotes q @ ns\<rparr> else q)"

definition quic_count :: "(TransportStats \<Rightarrow> TransportStats) \<Rightarrow> QUICChannel \<Rightarrow> QUICChannel" where
  "quic_count f q = q\<lparr>qcStats := f (qcStats q)\<rparr>"

text \<open>
  A connection that is closed, by either side, is dead: its context has an error, and reads and writes
  on its stream fail.
\<close>

definition close_connection :: "nat \<Rightarrow> QUICChannel \<Rightarrow> QUICChannel" where
  "close_connection c q = q\<lparr>qcDead := c # qcDead q\<rparr>"

text \<open>Closing a stream ends its sending side.\<close>

definition close_stream :: "QUICChannel \<Rightarrow> QUICChannel" where
  "close_stream q = (case qcStream q of None \<Rightarrow> q | Some c \<Rightarrow> q\<lparr>qcShut := c # qcShut q\<rparr>)"

definition quic_SetConnectionStateListener :: "QUICChannel \<Rightarrow> QUICChannel" where
  "quic_SetConnectionStateListener q = q\<lparr>qcHasListener := True\<rparr>"

text \<open>
  What the calls of a dial return, in their order: the local and the remote address are resolved, the
  socket is bound, the library dials, the stream opens.
\<close>

datatype dial_result =
    LocalUnresolved | SocketFailed | RemoteUnresolved | DialFailed | StreamFailed | DialOk

text \<open>The first connection of a client.\<close>

definition quic_connect :: "dial_result \<Rightarrow> QUICChannel \<Rightarrow> quic_err + QUICChannel" where
  "quic_connect r q =
     (case r of
        LocalUnresolved \<Rightarrow> Inl QuicResolveFailed
      | SocketFailed \<Rightarrow> Inl QuicSocketFailed
      | RemoteUnresolved \<Rightarrow> Inl QuicResolveFailed
      | DialFailed \<Rightarrow> Inl QuicDialFailed
      | StreamFailed \<Rightarrow> Inl QuicStreamFailed
      | DialOk \<Rightarrow>
          (let c = qcNext q
           in Inr (quic_notify [ConnectionEstablished] (quic_count stats_connect
                (q\<lparr>qcConn := Some c, qcStream := Some c, qcNext := c + 1, qcSockets := [c],
                   qcReconnect := QRedialTop\<rparr>)))))"

datatype listen_result = ListenUnresolved | ListenSocketFailed | ListenerFailed | ListenOk

definition quic_startServer :: "listen_result \<Rightarrow> QUICChannel \<Rightarrow> quic_err + QUICChannel" where
  "quic_startServer r q =
     (case r of
        ListenUnresolved \<Rightarrow> Inl QuicResolveFailed
      | ListenSocketFailed \<Rightarrow> Inl QuicSocketFailed
      | ListenerFailed \<Rightarrow> Inl QuicListenFailed
      | ListenOk \<Rightarrow> Inr (q\<lparr>qcAccept := QAcceptTop\<rparr>))"

text \<open>\<open>tls\<close>: a TLS configuration is given, or one can be generated.\<close>

definition NewQUICChannel ::
  "QUICChannelConfig \<Rightarrow> bool \<Rightarrow> listen_result \<Rightarrow> dial_result \<Rightarrow> quic_err + QUICChannel" where
  "NewQUICChannel config tls listen dial =
     (if qcfAddress config = '''' then Inl QuicAddressRequired
      else if \<not> tls then Inl QuicTLSFailed
      else
        (let qc = \<lparr>qcConfig = quic_defaults config, qcConn = None, qcStream = None, qcNext = 0, qcDead = [], qcShut = [],
                   qcSockets = [], qcAccept = QAcceptOff, qcStreamers = [], qcReconnect = QRedialOff,
                   qcReader = QReaderTop, qcWriter = QWriterIdle, qcHasListener = False, qcNotes = [],
                   qcStats = zero_stats, qcClosed = False, qcClosingStream = False, qcClosingConn = False,
                   qcHanded = [], qcWritten = [], qcResults = []\<rparr>
         in if qcfIsServer config then quic_startServer listen qc else quic_connect dial qc))"

section \<open>Accepting\<close>

definition quic_accept_conn :: "QUICChannel \<Rightarrow> QUICChannel option" where
  "quic_accept_conn q =
     (if qcAccept q = QAcceptTop \<and> \<not> qcClosed q
      then Some (q\<lparr>qcAccept := QAcceptHolds (qcNext q), qcNext := qcNext q + 1\<rparr>)
      else None)"

definition quic_accept_install :: "QUICChannel \<Rightarrow> QUICChannel option" where
  "quic_accept_install q =
     (case qcAccept q of
        QAcceptHolds conn \<Rightarrow>
          (let hadConnection = (qcConn q \<noteq> None);
               q1 = (case qcConn q of
                       None \<Rightarrow> q
                     | Some old \<Rightarrow> quic_count stats_disconnect (close_connection old q))
           in Some (quic_count stats_connect
                (q1\<lparr>qcConn := Some conn, qcAccept := QAcceptTop,
                    qcStreamers := qcStreamers q @ [(conn, hadConnection, False)]\<rparr>)))
      | _ \<Rightarrow> None)"

definition quic_accept_end :: "QUICChannel \<Rightarrow> QUICChannel option" where
  "quic_accept_end q =
     (if qcAccept q = QAcceptTop \<and> qcClosed q then Some (q\<lparr>qcAccept := QAcceptEnded\<rparr>) else None)"

text \<open>\<open>acceptStream\<close>: the peer's stream arrives, or the wait fails and the goroutine ends; then it is installed.\<close>

definition quic_stream_accepted :: "nat \<Rightarrow> bool \<Rightarrow> QUICChannel \<Rightarrow> QUICChannel option" where
  "quic_stream_accepted conn ok q =
     (case find (\<lambda>(c, had, got). c = conn \<and> \<not> got) (qcStreamers q) of
        None \<Rightarrow> None
      | Some (c, had, got) \<Rightarrow>
          if \<not> ok then Some (q\<lparr>qcStreamers := remove1 (c, had, got) (qcStreamers q)\<rparr>)
          else if qcClosed q \<or> c \<in> set (qcDead q) then None
          else Some (q\<lparr>qcStreamers := map (\<lambda>e. if e = (c, had, got) then (c, had, True) else e) (qcStreamers q)\<rparr>))"

definition quic_stream_install :: "nat \<Rightarrow> QUICChannel \<Rightarrow> QUICChannel option" where
  "quic_stream_install conn q =
     (case find (\<lambda>(c, had, got). c = conn \<and> got) (qcStreamers q) of
        None \<Rightarrow> None
      | Some (c, had, got) \<Rightarrow>
          Some (quic_notify ((if had then [ConnectionLost] else []) @ [ConnectionEstablished])
            ((close_stream q)\<lparr>qcStream := Some c, qcStreamers := remove1 (c, had, got) (qcStreamers q)\<rparr>)))"

section \<open>Reconnecting\<close>

text \<open>The connection ends by itself: the peer closes it or it times out.\<close>

definition connection_dies :: "nat \<Rightarrow> QUICChannel \<Rightarrow> QUICChannel option" where
  "connection_dies c q = (if c < qcNext q then Some (close_connection c q) else None)"

definition quic_redial_begin :: "QUICChannel \<Rightarrow> QUICChannel option" where
  "quic_redial_begin q =
     (if qcReconnect q = QRedialTop
         \<and> (case qcConn q of None \<Rightarrow> True | Some c \<Rightarrow> c \<in> set (qcDead q))
      then Some (q\<lparr>qcReconnect := QRedialDelay\<rparr>) else None)"

text \<open>
  One attempt after the delay. Unlike the first connection, a dial that fails does not close its
  socket, and neither does a stream that does not open.
\<close>

definition quic_redial :: "dial_result \<Rightarrow> QUICChannel \<Rightarrow> QUICChannel option" where
  "quic_redial r q =
     (if qcReconnect q \<noteq> QRedialDelay then None
      else
        (let c = qcNext q; top = q\<lparr>qcReconnect := QRedialTop\<rparr>
         in Some (case r of
                    LocalUnresolved \<Rightarrow> top
                  | SocketFailed \<Rightarrow> top
                  | RemoteUnresolved \<Rightarrow> top
                  | DialFailed \<Rightarrow> top\<lparr>qcNext := c + 1, qcSockets := c # qcSockets q\<rparr>
                  | StreamFailed \<Rightarrow> close_connection c (top\<lparr>qcNext := c + 1, qcSockets := c # qcSockets q\<rparr>)
                  | DialOk \<Rightarrow> q\<lparr>qcReconnect := QRedialConn c, qcNext := c + 1, qcSockets := c # qcSockets q\<rparr>)))"

definition quic_redial_conn :: "QUICChannel \<Rightarrow> QUICChannel option" where
  "quic_redial_conn q =
     (case qcReconnect q of
        QRedialConn c \<Rightarrow>
          (let q1 = (case qcConn q of None \<Rightarrow> q | Some old \<Rightarrow> close_connection old q)
           in Some (quic_count stats_connect (q1\<lparr>qcConn := Some c, qcReconnect := QRedialStream c\<rparr>)))
      | _ \<Rightarrow> None)"

definition quic_redial_stream :: "QUICChannel \<Rightarrow> QUICChannel option" where
  "quic_redial_stream q =
     (case qcReconnect q of
        QRedialStream c \<Rightarrow>
          Some (quic_notify [ConnectionEstablished] ((close_stream q)\<lparr>qcStream := Some c, qcReconnect := QRedialTop\<rparr>))
      | _ \<Rightarrow> None)"

definition quic_reconnect_end :: "QUICChannel \<Rightarrow> QUICChannel option" where
  "quic_reconnect_end q =
     (if (qcReconnect q = QRedialTop \<or> qcReconnect q = QRedialDelay) \<and> qcClosed q
      then Some (q\<lparr>qcReconnect := QRedialEnded\<rparr>) else None)"

section \<open>Reading and writing\<close>

text \<open>What the first ten bytes of a frame say; the code is that of the TCP channel.\<close>

definition quic_judge_header :: "bytes \<Rightarrow> header_verdict" where
  "quic_judge_header header =
     (if header ! 0 \<noteq> 0x05 \<or> header ! 1 \<noteq> 0x64 then BadHeader
      else
        (let frameLength = unat (header ! 2) in
         if frameLength < 5 then BadHeader
         else
           (let dataLen = frameLength - 5;
                additionalBytes = (if dataLen > 0 then dataLen + (dataLen + 15) div 16 * 2 else 0)
            in if additionalBytes > 0 then MoreBytes additionalBytes else WholeFrame)))"

definition quic_read_begin :: "bool \<Rightarrow> QUICChannel \<Rightarrow> QUICChannel option" where
  "quic_read_begin cancelled q =
     (if qcReader q \<noteq> QReaderTop then None
      else if cancelled \<or> qcClosed q then Some (q\<lparr>qcResults := qcResults q @ [QClosed]\<rparr>)
      else (case qcStream q of None \<Rightarrow> None | Some c \<Rightarrow> Some (q\<lparr>qcReader := QReadingHeader c\<rparr>)))"

definition quic_hand_up :: "bytes \<Rightarrow> QUICChannel \<Rightarrow> QUICChannel" where
  "quic_hand_up frame q =
     quic_count (stats_received frame) (q\<lparr>qcReader := QReaderTop, qcHanded := qcHanded q @ [frame]\<rparr>)"

text \<open>The first half of the error handlers drops the stream, the second the connection.\<close>

definition quic_read_error :: "QUICChannel \<Rightarrow> QUICChannel" where
  "quic_read_error q = quic_count stats_read_error ((close_stream q)\<lparr>qcStream := None, qcReader := QReaderDropping\<rparr>)"

definition quic_write_error :: "QUICChannel \<Rightarrow> QUICChannel" where
  "quic_write_error q = quic_count stats_write_error ((close_stream q)\<lparr>qcStream := None, qcWriter := QWriterDropping\<rparr>)"

definition quic_drop_conn :: "QUICChannel \<Rightarrow> QUICChannel" where
  "quic_drop_conn q =
     (case qcConn q of
        None \<Rightarrow> q
      | Some c \<Rightarrow>
          quic_notify [ConnectionLost]
            (quic_count stats_disconnect (close_connection c (q\<lparr>qcConn := None\<rparr>))))"

definition quic_read_drop :: "QUICChannel \<Rightarrow> QUICChannel option" where
  "quic_read_drop q =
     (if qcReader q = QReaderDropping then Some (quic_drop_conn (q\<lparr>qcReader := QReaderTop\<rparr>)) else None)"

definition quic_write_drop :: "QUICChannel \<Rightarrow> QUICChannel option" where
  "quic_write_drop q =
     (if qcWriter q = QWriterDropping
      then Some (quic_drop_conn (q\<lparr>qcWriter := QWriterIdle, qcResults := qcResults q @ [QWriteFailed]\<rparr>)) else None)"

definition quic_read_header :: "bytes option \<Rightarrow> QUICChannel \<Rightarrow> QUICChannel option" where
  "quic_read_header r q =
     (case qcReader q of
        QReadingHeader c \<Rightarrow>
          (case r of
             None \<Rightarrow> Some (quic_read_error q)
           | Some header \<Rightarrow>
               if length header \<noteq> 10 \<or> c \<in> set (qcDead q) then None
               else (case quic_judge_header header of
                       BadHeader \<Rightarrow> Some (quic_count stats_read_error (q\<lparr>qcReader := QReaderTop\<rparr>))
                     | WholeFrame \<Rightarrow> Some (quic_hand_up header q)
                     | MoreBytes k \<Rightarrow> Some (q\<lparr>qcReader := QReadingBody c header k\<rparr>)))
      | _ \<Rightarrow> None)"

definition quic_read_body :: "bytes option \<Rightarrow> QUICChannel \<Rightarrow> QUICChannel option" where
  "quic_read_body r q =
     (case qcReader q of
        QReadingBody c header k \<Rightarrow>
          (case r of
             None \<Rightarrow> Some (quic_read_error q)
           | Some rest \<Rightarrow>
               if length rest \<noteq> k \<or> c \<in> set (qcDead q) then None
               else Some (quic_hand_up (header @ rest) q))
      | _ \<Rightarrow> None)"

definition quic_write_begin :: "bool \<Rightarrow> bytes \<Rightarrow> QUICChannel \<Rightarrow> QUICChannel option" where
  "quic_write_begin cancelled data q =
     (if qcWriter q \<noteq> QWriterIdle then None
      else if cancelled \<or> qcClosed q then Some (q\<lparr>qcResults := qcResults q @ [QClosed]\<rparr>)
      else (case qcStream q of
              None \<Rightarrow> Some (quic_count stats_write_error (q\<lparr>qcResults := qcResults q @ [QNoStream]\<rparr>))
            | Some c \<Rightarrow> Some (q\<lparr>qcWriter := QWriting c data\<rparr>)))"

definition quic_write_end :: "bool \<Rightarrow> QUICChannel \<Rightarrow> QUICChannel option" where
  "quic_write_end ok q =
     (case qcWriter q of
        QWriting c data \<Rightarrow>
          if \<not> ok then Some (quic_write_error q)
          else if c \<in> set (qcDead q) \<or> c \<in> set (qcShut q) then None
          else Some (quic_count (stats_sent data)
                 (q\<lparr>qcWriter := QWriterIdle, qcWritten := qcWritten q @ [(c, data)],
                    qcResults := qcResults q @ [QWritten]\<rparr>))
      | _ \<Rightarrow> None)"

section \<open>Closing\<close>

definition quic_close_begin :: "QUICChannel \<Rightarrow> QUICChannel" where
  "quic_close_begin q = (if qcClosed q then q else q\<lparr>qcClosed := True, qcClosingStream := True\<rparr>)"

definition quic_close_stream :: "QUICChannel \<Rightarrow> QUICChannel option" where
  "quic_close_stream q =
     (if qcClosingStream q
      then Some ((close_stream q)\<lparr>qcStream := None, qcClosingStream := False, qcClosingConn := True\<rparr>) else None)"

definition quic_close_conn :: "QUICChannel \<Rightarrow> QUICChannel option" where
  "quic_close_conn q =
     (if \<not> qcClosingConn q then None
      else
        (let q1 = q\<lparr>qcClosingConn := False\<rparr>
         in Some (case qcConn q of
                    None \<Rightarrow> q1
                  | Some c \<Rightarrow> quic_count stats_disconnect (close_connection c (q1\<lparr>qcConn := None\<rparr>)))))"

definition quic_close_returns :: "QUICChannel \<Rightarrow> bool" where
  "quic_close_returns q \<longleftrightarrow> qcClosed q \<and> \<not> qcClosingStream q \<and> \<not> qcClosingConn q
     \<and> (qcAccept q = QAcceptOff \<or> qcAccept q = QAcceptEnded)
     \<and> (qcReconnect q = QRedialOff \<or> qcReconnect q = QRedialEnded) \<and> qcStreamers q = []"

definition QUICChannel_Statistics :: "QUICChannel \<Rightarrow> TransportStats" where
  "QUICChannel_Statistics q = qcStats q"

definition quic_IsConnected :: "QUICChannel \<Rightarrow> bool" where
  "quic_IsConnected q = (case qcConn q of None \<Rightarrow> False | Some c \<Rightarrow> c \<notin> set (qcDead q))"

section \<open>Steps\<close>

datatype quic_step =
    QAcceptConn | QAcceptInstall | QAcceptEnd | QStreamAccepted nat bool | QStreamInstall nat
  | QConnectionDies nat | QRedialBegin | QRedial dial_result | QRedialInstall | QRedialInstallStream | QReconnectEnd
  | QReadBegin bool | QReadHeader "bytes option" | QReadBody "bytes option" | QReadDrop
  | QWriteBegin bool bytes | QWriteEnd bool | QWriteDrop
  | QCloseBegin | QCloseStream | QCloseConn

definition quic_step :: "quic_step \<Rightarrow> QUICChannel \<Rightarrow> QUICChannel option" where
  "quic_step step q =
     (case step of
        QAcceptConn \<Rightarrow> quic_accept_conn q
      | QAcceptInstall \<Rightarrow> quic_accept_install q
      | QAcceptEnd \<Rightarrow> quic_accept_end q
      | QStreamAccepted c ok \<Rightarrow> quic_stream_accepted c ok q
      | QStreamInstall c \<Rightarrow> quic_stream_install c q
      | QConnectionDies c \<Rightarrow> connection_dies c q
      | QRedialBegin \<Rightarrow> quic_redial_begin q
      | QRedial r \<Rightarrow> quic_redial r q
      | QRedialInstall \<Rightarrow> quic_redial_conn q
      | QRedialInstallStream \<Rightarrow> quic_redial_stream q
      | QReconnectEnd \<Rightarrow> quic_reconnect_end q
      | QReadBegin cancelled \<Rightarrow> quic_read_begin cancelled q
      | QReadHeader r \<Rightarrow> quic_read_header r q
      | QReadBody r \<Rightarrow> quic_read_body r q
      | QReadDrop \<Rightarrow> quic_read_drop q
      | QWriteBegin cancelled data \<Rightarrow> quic_write_begin cancelled data q
      | QWriteEnd ok \<Rightarrow> quic_write_end ok q
      | QWriteDrop \<Rightarrow> quic_write_drop q
      | QCloseBegin \<Rightarrow> Some (quic_close_begin q)
      | QCloseStream \<Rightarrow> quic_close_stream q
      | QCloseConn \<Rightarrow> quic_close_conn q)"


lemmas quic_ops = quic_accept_conn_def quic_accept_install_def quic_accept_end_def quic_stream_accepted_def
  quic_stream_install_def connection_dies_def quic_redial_begin_def quic_redial_def quic_redial_conn_def
  quic_redial_stream_def quic_reconnect_end_def quic_read_begin_def quic_read_header_def quic_read_body_def
  quic_read_drop_def quic_write_begin_def quic_write_end_def quic_write_drop_def quic_close_begin_def
  quic_close_stream_def quic_close_conn_def

lemmas quic_parts = quic_drop_conn_def quic_read_error_def quic_write_error_def close_stream_def close_connection_def
  quic_hand_up_def quic_count_def quic_notify_def

section \<open>What is handed up\<close>

lemma quic_judge_header: "quic_judge_header = judge_header"
  by (simp add: quic_judge_header_def judge_header_def fun_eq_iff)

lemma quic_notify_simps [simp]:
  "qcSockets (quic_notify ns q) = qcSockets q" "qcHanded (quic_notify ns q) = qcHanded q"
  "qcReader (quic_notify ns q) = qcReader q" "qcStats (quic_notify ns q) = qcStats q"
  by (simp_all add: quic_notify_def)

lemma quic_count_simps [simp]:
  "qcSockets (quic_count f q) = qcSockets q" "qcHanded (quic_count f q) = qcHanded q"
  "qcReader (quic_count f q) = qcReader q" "qcStats (quic_count f q) = f (qcStats q)"
  by (simp_all add: quic_count_def)

lemma close_simps [simp]:
  "qcSockets (close_stream q) = qcSockets q" "qcHanded (close_stream q) = qcHanded q"
  "qcReader (close_stream q) = qcReader q" "qcStats (close_stream q) = qcStats q"
  "qcSockets (close_connection c q) = qcSockets q" "qcHanded (close_connection c q) = qcHanded q"
  "qcReader (close_connection c q) = qcReader q" "qcStats (close_connection c q) = qcStats q"
  by (auto simp: close_stream_def close_connection_def split: option.split)

lemma quic_drop_simps [simp]:
  "qcSockets (quic_drop_conn q) = qcSockets q" "qcHanded (quic_drop_conn q) = qcHanded q"
  "qcReader (quic_drop_conn q) = qcReader q"
  "tsBytesReceived (qcStats (quic_drop_conn q)) = tsBytesReceived (qcStats q)"
  by (auto simp: quic_drop_conn_def stats_defs split: option.split)

definition quic_body_judged :: "QUICChannel \<Rightarrow> bool" where
  "quic_body_judged q \<longleftrightarrow>
     (case qcReader q of
        QReadingBody c header k \<Rightarrow> length header = 10 \<and> judge_header header = MoreBytes k
      | _ \<Rightarrow> True)"

interpretation quic: physical_channel quic_step quic_body_judged qcHanded qcStats
proof unfold_locales
  fix q q' step
  assume inv: "quic_body_judged q" and step: "quic_step step q = Some q'"
  note simps = quic_step_def quic_ops Let_def quic_body_judged_def quic_hand_up_def quic_read_error_def
    quic_write_error_def stats_defs quic_judge_header
  show "quic_body_judged q'"
    using inv step
    by (cases step)
      (auto simp: simps split: if_splits option.splits quic_accept.splits quic_reconnect.splits quic_reader.splits
        quic_writer.splits header_verdict.splits dial_result.splits)
  show "qcHanded q' = qcHanded q \<and> tsBytesReceived (qcStats q') = tsBytesReceived (qcStats q)
    \<or> (\<exists>d. qcHanded q' = qcHanded q @ [d] \<and> link_start d
        \<and> tsBytesReceived (qcStats q') = tsBytesReceived (qcStats q) + of_nat (length d))"
    using inv step judged_start [of _ "[]"] judged_start
    by (cases step)
      (auto simp: simps split: if_splits option.splits quic_accept.splits quic_reconnect.splits quic_reader.splits
        quic_writer.splits header_verdict.splits dial_result.splits)
qed

section \<open>Sockets\<close>

lemma sockets_step:
  assumes "quic_step step q = Some q'"
  shows "length (qcSockets q) \<le> length (qcSockets q')"
  using assms
  by (cases step)
    (auto simp: quic_step_def quic_ops Let_def quic_hand_up_def quic_read_error_def quic_write_error_def
      split: if_splits option.splits quic_accept.splits quic_reconnect.splits quic_reader.splits
        quic_writer.splits header_verdict.splits dial_result.splits)

lemma sockets_run: "run quic_step steps q = Some q' \<Longrightarrow> length (qcSockets q) \<le> length (qcSockets q')"
proof (induction steps arbitrary: q)
  case (Cons step steps)
  then obtain q1 where "quic_step step q = Some q1" "run quic_step steps q1 = Some q'" by (auto split: option.splits)
  then show ?case using sockets_step Cons.IH by (meson le_trans)
qed simp

text \<open>A client whose connection is lost tries again once a second for as long as it fails.\<close>

definition failed_attempt :: "quic_step list" where
  "failed_attempt = [QRedialBegin, QRedial DialFailed]"

definition disconnected :: "QUICChannel \<Rightarrow> bool" where
  "disconnected q \<longleftrightarrow> qcReconnect q = QRedialTop
     \<and> (case qcConn q of None \<Rightarrow> True | Some c \<Rightarrow> c \<in> set (qcDead q))"

lemma failed_attempt:
  assumes "disconnected q"
  shows "\<exists>q'. run quic_step failed_attempt q = Some q' \<and> disconnected q' \<and> length (qcSockets q') = length (qcSockets q) + 1"
  using assms
  by (cases "qcConn q")
    (simp_all add: failed_attempt_def quic_step_def quic_redial_begin_def quic_redial_def disconnected_def Let_def)

lemma failed_attempts:
  assumes "disconnected q"
  shows "\<exists>q'. run quic_step (concat (replicate n failed_attempt)) q = Some q' \<and> length (qcSockets q') = length (qcSockets q) + n"
  using assms
proof (induction n arbitrary: q)
  case (Suc n)
  obtain q1 where q1: "run quic_step failed_attempt q = Some q1" "disconnected q1"
    "length (qcSockets q1) = length (qcSockets q) + 1" using failed_attempt [OF Suc.prems] by blast
  from Suc.IH [OF q1(2)] show ?case using q1 by (auto simp: run_append)
qed simp

section \<open>A client that reconnects\<close>

definition sample_quic_config :: "bool \<Rightarrow> QUICChannelConfig" where
  "sample_quic_config server =
     \<lparr>qcfAddress = ''a'', qcfIsServer = server, qcfReconnectDelay = 0, qcfReadTimeout = 0, qcfWriteTimeout = 0\<rparr>"

definition sample_quic :: "bool \<Rightarrow> QUICChannel" where
  "sample_quic server =
     (case NewQUICChannel (sample_quic_config server) True ListenOk DialOk of
        Inr q \<Rightarrow> quic_SetConnectionStateListener q
      | Inl _ \<Rightarrow> undefined)"

lemmas sample_quic = sample_quic_def NewQUICChannel_def sample_quic_config_def quic_connect_def quic_startServer_def
  quic_SetConnectionStateListener_def stats_defs zero_stats_def

text \<open>The lost connection is neither counted nor reported when the reconnect loop replaces it.\<close>

lemma quic_reconnect_uncounted:
  "\<exists>q. run quic_step [QConnectionDies 0, QRedialBegin, QRedial DialOk, QRedialInstall, QRedialInstallStream]
      (sample_quic False) = Some q
    \<and> qcConn q = Some 1 \<and> tsConnects (qcStats q) = 2 \<and> tsDisconnects (qcStats q) = 0
    \<and> qcNotes q = [ConnectionEstablished]"
  by (simp add: sample_quic quic_step_def quic_ops quic_parts Let_def)

section \<open>Properties\<close>

text \<open>
  A QUIC client that cannot reach its server leaks a socket with every attempt: after \<open>n\<close> failed
  attempts it holds \<open>n\<close> sockets more, and nothing the channel does afterwards, closing it included, gives
  one back. (The first connection closes its socket when the dial fails.)
\<close>

theorem quic_sockets_leak:
  assumes "disconnected q"
  shows "\<exists>q1. run quic_step (concat (replicate n failed_attempt)) q = Some q1
    \<and> length (qcSockets q1) = length (qcSockets q) + n
    \<and> (\<forall>steps. case run quic_step steps q1 of
         None \<Rightarrow> True
       | Some q2 \<Rightarrow> length (qcSockets q) + n \<le> length (qcSockets q2))"
proof -
  obtain q1 where q1: "run quic_step (concat (replicate n failed_attempt)) q = Some q1"
    "length (qcSockets q1) = length (qcSockets q) + n" using failed_attempts [OF assms] by blast
  have "length (qcSockets q) + n \<le> length (qcSockets q2)" if "run quic_step steps q1 = Some q2" for steps q2
    using sockets_run [OF that] q1(2) by simp
  with q1 show ?thesis by (intro exI [of _ q1]) (auto split: option.split)
qed

theorem quic_sockets_leak_witness:
  "\<exists>q1. run quic_step (concat (replicate 3 failed_attempt)) (close_connection 0 (sample_quic False)) = Some q1
    \<and> length (qcSockets q1) = length (qcSockets (close_connection 0 (sample_quic False))) + 3
    \<and> (\<forall>steps. case run quic_step steps q1 of
         None \<Rightarrow> True
       | Some q2 \<Rightarrow> length (qcSockets (close_connection 0 (sample_quic False))) + 3 \<le> length (qcSockets q2))"
  by (rule quic_sockets_leak) (simp add: disconnected_def sample_quic Let_def quic_parts)

text \<open>
  A QUIC server can end up with the stream of a connection it has closed. Two clients connect; the
  stream of each arrives, and the goroutine of the second installs its stream before that of the
  first does. Then the second connection is current and the stream is that of the first, which is
  closed: a write cannot succeed, and its error handler closes the second connection as well.
\<close>

theorem quic_stale_stream_installed:
  "\<exists>q1 q2. run quic_step [QAcceptConn, QAcceptInstall, QStreamAccepted 0 True, QAcceptConn, QAcceptInstall,
        QStreamAccepted 1 True, QStreamInstall 1, QStreamInstall 0, QWriteBegin False data] (sample_quic True) = Some q1
    \<and> qcConn q1 = Some 1 \<and> 1 \<notin> set (qcDead q1) \<and> qcStream q1 = Some 0 \<and> 0 \<in> set (qcDead q1)
    \<and> quic_step (QWriteEnd True) q1 = None
    \<and> run quic_step [QWriteEnd False, QWriteDrop] q1 = Some q2
    \<and> qcConn q2 = None \<and> qcStream q2 = None \<and> 1 \<in> set (qcDead q2)"
  by (simp add: sample_quic quic_step_def quic_ops quic_parts Let_def)

text \<open>
  What a QUIC channel hands up begins with a link header, and its length adds up to the bytes
  received, in every interleaving of its goroutines.
\<close>

theorem quic_hands_up_frames:
  "case NewQUICChannel config tls listen dial of
     Inl _ \<Rightarrow> True
   | Inr q0 \<Rightarrow>
       (case run quic_step steps q0 of
          None \<Rightarrow> True
        | Some q \<Rightarrow> list_all link_start (qcHanded q)
            \<and> tsBytesReceived (qcStats q) = of_nat (sum_list (map length (qcHanded q))))"
proof -
  have "quic.received_ok q0" if "NewQUICChannel config tls listen dial = Inr q0" for q0
    using that
    by (auto simp: NewQUICChannel_def quic_connect_def quic_startServer_def quic.received_ok_def quic_body_judged_def
        stats_defs zero_stats_def Let_def split: if_splits listen_result.splits dial_result.splits)
  then show ?thesis using quic.received_run by (auto simp: quic.received_ok_def split: sum.split option.split)
qed

end
