(* ===== verification/Mock_Channel.thy ===== *)
theory Mock_Channel
  imports Channel_Physical "HOL-Library.Multiset"
begin

text \<open>
  The physical channel of \<open>examples/custom_channel/mock_channel.go\<close>: two bounded queues in memory, one
  that reads take from and one that writes put into, with the test functions at the other ends. Reads
  and writes are goroutines that stand at a select until one of its cases happens; every atomic action is
  a step. The second half of the file, a TCP channel, is a comment.
\<close>

section \<open>State and steps\<close>

datatype mock_err = MockClosed | MockContextDone

text \<open>
  A read or write is at its select, has received or sent its bytes and has still to count them, or has
  returned. \<open>mkHanded\<close> is what the reads have returned and \<open>mkGot\<close> what \<open>GetWritten\<close> has.
\<close>

datatype mock_reader = ReadWaits | ReadHolds bytes | ReadReturned "mock_err + bytes"

datatype mock_writer = WriteWaits bytes | WriteHolds bytes | WriteReturned "mock_err option"

record MockChannel =
  mkReadChan :: "bytes list"
  mkWriteChan :: "bytes list"
  mkClosed :: bool
  mkStats :: TransportStats
  mkReaders :: "mock_reader list"
  mkWriters :: "mock_writer list"
  mkHanded :: "bytes list"
  mkGot :: "bytes list"

definition mock_cap :: nat where "mock_cap = 10"

definition NewMockChannel :: MockChannel where
  "NewMockChannel =
     \<lparr>mkReadChan = [], mkWriteChan = [], mkClosed = False, mkStats = zero_stats, mkReaders = [], mkWriters = [],
      mkHanded = [], mkGot = []\<rparr>"

datatype mock_step =
    MockRead
  | MockReadDone nat
  | MockReadClosed nat
  | MockTake nat
  | MockReadReturn nat
  | MockWrite bytes
  | MockWriteDone nat
  | MockSend nat
  | MockWriteReturn nat
  | MockClose
  | MockInject bytes
  | MockGetWritten

definition mock_reader :: "MockChannel \<Rightarrow> nat \<Rightarrow> mock_reader option" where
  "mock_reader m r = (if r < length (mkReaders m) then Some (mkReaders m ! r) else None)"

definition mock_writer :: "MockChannel \<Rightarrow> nat \<Rightarrow> mock_writer option" where
  "mock_writer m w = (if w < length (mkWriters m) then Some (mkWriters m ! w) else None)"

definition set_mock_reader :: "nat \<Rightarrow> mock_reader \<Rightarrow> MockChannel \<Rightarrow> MockChannel" where
  "set_mock_reader r c m = m\<lparr>mkReaders := (mkReaders m)[r := c]\<rparr>"

definition set_mock_writer :: "nat \<Rightarrow> mock_writer \<Rightarrow> MockChannel \<Rightarrow> MockChannel" where
  "set_mock_writer w c m = m\<lparr>mkWriters := (mkWriters m)[w := c]\<rparr>"

text \<open>\<open>Read\<close>: its select with the context, the close signal and the queue, and the counting after it.\<close>

definition mock_read :: "MockChannel \<Rightarrow> MockChannel" where
  "mock_read m = m\<lparr>mkReaders := mkReaders m @ [ReadWaits]\<rparr>"

definition mock_read_done :: "nat \<Rightarrow> MockChannel \<Rightarrow> MockChannel option" where
  "mock_read_done r m =
     (if mock_reader m r = Some ReadWaits then Some (set_mock_reader r (ReadReturned (Inl MockContextDone)) m) else None)"

definition mock_read_closed :: "nat \<Rightarrow> MockChannel \<Rightarrow> MockChannel option" where
  "mock_read_closed r m =
     (if mock_reader m r = Some ReadWaits \<and> mkClosed m
      then Some (set_mock_reader r (ReadReturned (Inl MockClosed)) m) else None)"

definition mock_take :: "nat \<Rightarrow> MockChannel \<Rightarrow> MockChannel option" where
  "mock_take r m =
     (case (mock_reader m r, mkReadChan m) of
        (Some ReadWaits, data # rest) \<Rightarrow> Some (set_mock_reader r (ReadHolds data) (m\<lparr>mkReadChan := rest\<rparr>))
      | _ \<Rightarrow> None)"

definition mock_read_return :: "nat \<Rightarrow> MockChannel \<Rightarrow> MockChannel option" where
  "mock_read_return r m =
     (case mock_reader m r of
        Some (ReadHolds data) \<Rightarrow>
          Some (set_mock_reader r (ReadReturned (Inr data))
            (m\<lparr>mkStats := stats_received data (mkStats m), mkHanded := mkHanded m @ [data]\<rparr>))
      | _ \<Rightarrow> None)"

text \<open>\<open>Write\<close>: the test under the lock, its select, and the counting after it.\<close>

definition mock_write :: "bytes \<Rightarrow> MockChannel \<Rightarrow> MockChannel" where
  "mock_write data m =
     m\<lparr>mkWriters := mkWriters m @ [if mkClosed m then WriteReturned (Some MockClosed) else WriteWaits data]\<rparr>"

definition mock_write_done :: "nat \<Rightarrow> MockChannel \<Rightarrow> MockChannel option" where
  "mock_write_done w m =
     (case mock_writer m w of
        Some (WriteWaits data) \<Rightarrow> Some (set_mock_writer w (WriteReturned (Some MockContextDone)) m)
      | _ \<Rightarrow> None)"

definition mock_send :: "nat \<Rightarrow> MockChannel \<Rightarrow> MockChannel option" where
  "mock_send w m =
     (case mock_writer m w of
        Some (WriteWaits data) \<Rightarrow>
          if length (mkWriteChan m) < mock_cap
          then Some (set_mock_writer w (WriteHolds data) (m\<lparr>mkWriteChan := mkWriteChan m @ [data]\<rparr>))
          else None
      | _ \<Rightarrow> None)"

definition mock_write_return :: "nat \<Rightarrow> MockChannel \<Rightarrow> MockChannel option" where
  "mock_write_return w m =
     (case mock_writer m w of
        Some (WriteHolds data) \<Rightarrow>
          Some (set_mock_writer w (WriteReturned None) (m\<lparr>mkStats := stats_sent data (mkStats m)\<rparr>))
      | _ \<Rightarrow> None)"

definition mock_close :: "MockChannel \<Rightarrow> MockChannel" where
  "mock_close m = (if mkClosed m then m else m\<lparr>mkClosed := True\<rparr>)"

definition mock_Statistics :: "MockChannel \<Rightarrow> TransportStats" where
  "mock_Statistics m = mkStats m"

text \<open>\<open>InjectRead\<close> blocks while its queue is full; \<open>GetWritten\<close> returns \<open>nil\<close> when there is nothing.\<close>

definition InjectRead :: "bytes \<Rightarrow> MockChannel \<Rightarrow> MockChannel option" where
  "InjectRead data m =
     (if length (mkReadChan m) < mock_cap then Some (m\<lparr>mkReadChan := mkReadChan m @ [data]\<rparr>) else None)"

definition GetWritten :: "MockChannel \<Rightarrow> bytes option \<times> MockChannel" where
  "GetWritten m =
     (case mkWriteChan m of
        data # rest \<Rightarrow> (Some data, m\<lparr>mkWriteChan := rest, mkGot := mkGot m @ [data]\<rparr>)
      | [] \<Rightarrow> (None, m))"

definition mock_step :: "mock_step \<Rightarrow> MockChannel \<Rightarrow> MockChannel option" where
  "mock_step step m =
     (case step of
        MockRead \<Rightarrow> Some (mock_read m)
      | MockReadDone r \<Rightarrow> mock_read_done r m
      | MockReadClosed r \<Rightarrow> mock_read_closed r m
      | MockTake r \<Rightarrow> mock_take r m
      | MockReadReturn r \<Rightarrow> mock_read_return r m
      | MockWrite data \<Rightarrow> Some (mock_write data m)
      | MockWriteDone w \<Rightarrow> mock_write_done w m
      | MockSend w \<Rightarrow> mock_send w m
      | MockWriteReturn w \<Rightarrow> mock_write_return w m
      | MockClose \<Rightarrow> Some (mock_close m)
      | MockInject data \<Rightarrow> InjectRead data m
      | MockGetWritten \<Rightarrow> Some (snd (GetWritten m)))"

lemmas mock_ops = mock_step_def mock_read_def mock_read_done_def mock_read_closed_def mock_take_def
  mock_read_return_def mock_write_def mock_write_done_def mock_send_def mock_write_return_def mock_close_def
  InjectRead_def GetWritten_def

lemma mock_fields [simp]:
  "mkReadChan (set_mock_reader r c m) = mkReadChan m" "mkReadChan (set_mock_writer w d m) = mkReadChan m"
  "mkWriteChan (set_mock_reader r c m) = mkWriteChan m" "mkWriteChan (set_mock_writer w d m) = mkWriteChan m"
  "mkStats (set_mock_reader r c m) = mkStats m" "mkStats (set_mock_writer w d m) = mkStats m"
  "mkHanded (set_mock_reader r c m) = mkHanded m" "mkHanded (set_mock_writer w d m) = mkHanded m"
  "mkGot (set_mock_reader r c m) = mkGot m" "mkGot (set_mock_writer w d m) = mkGot m"
  "mkClosed (set_mock_reader r c m) = mkClosed m" "mkClosed (set_mock_writer w d m) = mkClosed m"
  "mkReaders (set_mock_reader r c m) = (mkReaders m)[r := c]" "mkReaders (set_mock_writer w d m) = mkReaders m"
  "mkWriters (set_mock_reader r c m) = mkWriters m" "mkWriters (set_mock_writer w d m) = (mkWriters m)[w := d]"
  by (simp_all add: set_mock_reader_def set_mock_writer_def)

interpretation mock: reading_channel mock_step "\<lambda>m. True" mkHanded mkStats "\<lambda>data. True"
proof unfold_locales
  show "mkHanded m' = mkHanded m \<and> tsBytesReceived (mkStats m') = tsBytesReceived (mkStats m)
    \<or> (\<exists>d. mkHanded m' = mkHanded m @ [d] \<and> True
        \<and> tsBytesReceived (mkStats m') = tsBytesReceived (mkStats m) + of_nat (length d))"
    if "mock_step step m = Some m'" for step m m'
    using that
    by (cases step)
      (auto simp: mock_ops stats_defs split: if_splits option.splits mock_reader.splits mock_writer.splits list.splits)
qed simp

section \<open>Nothing is lost\<close>

definition held_read :: "mock_reader \<Rightarrow> bytes multiset" where
  "held_read c = (case c of ReadHolds data \<Rightarrow> {#data#} | _ \<Rightarrow> {#})"

definition held_write :: "mock_writer \<Rightarrow> nat" where
  "held_write c = (case c of WriteHolds data \<Rightarrow> length data | _ \<Rightarrow> 0)"

text \<open>What tests have injected, and where it is: returned, held by a read, or in the queue.\<close>

definition injected :: "mock_step list \<Rightarrow> bytes multiset" where
  "injected steps = sum_list (map (\<lambda>step. case step of MockInject data \<Rightarrow> {#data#} | _ \<Rightarrow> {#}) steps)"

definition mock_inside :: "MockChannel \<Rightarrow> bytes multiset" where
  "mock_inside m = mset (mkHanded m) + sum_list (map held_read (mkReaders m)) + mset (mkReadChan m)"

definition mock_ok :: "MockChannel \<Rightarrow> bool" where
  "mock_ok m \<longleftrightarrow> length (mkReadChan m) \<le> mock_cap \<and> length (mkWriteChan m) \<le> mock_cap
     \<and> tsBytesSent (mkStats m) + of_nat (sum_list (map held_write (mkWriters m)))
       = of_nat (sum_list (map length (mkGot m @ mkWriteChan m)))"

lemma replace_reader:
  "mock_reader m r = Some c \<Longrightarrow> sum_list (map held_read ((mkReaders m)[r := d])) + held_read c
    = sum_list (map held_read (mkReaders m)) + held_read d"
  using sum_list_replace [of r "mkReaders m" held_read d] by (auto simp: mock_reader_def split: if_splits)

lemma replace_writer:
  "mock_writer m w = Some c \<Longrightarrow> sum_list (map held_write ((mkWriters m)[w := d])) + held_write c
    = sum_list (map held_write (mkWriters m)) + held_write d"
  using sum_list_replace [of w "mkWriters m" held_write d] by (auto simp: mock_writer_def split: if_splits)

lemma mock_inside_step:
  assumes "mock_step step m = Some m'"
  shows "mock_inside m' = mock_inside m + (case step of MockInject data \<Rightarrow> {#data#} | _ \<Rightarrow> {#})"
proof (cases step)
  case (MockReadDone r)
  then show ?thesis using assms replace_reader [of m r ReadWaits "ReadReturned (Inl MockContextDone)"]
    by (auto simp: mock_ops mock_inside_def held_read_def split: if_splits)
next
  case (MockReadClosed r)
  then show ?thesis using assms replace_reader [of m r ReadWaits "ReadReturned (Inl MockClosed)"]
    by (auto simp: mock_ops mock_inside_def held_read_def split: if_splits)
next
  case (MockTake r)
  then obtain data rest where c: "mock_reader m r = Some ReadWaits" "mkReadChan m = data # rest"
    and m': "m' = set_mock_reader r (ReadHolds data) (m\<lparr>mkReadChan := rest\<rparr>)"
    using assms by (auto simp: mock_ops split: option.splits mock_reader.splits list.splits)
  then show ?thesis using MockTake replace_reader [OF c(1), of "ReadHolds data"]
    by (simp add: mock_inside_def held_read_def)
next
  case (MockReadReturn r)
  then obtain data where c: "mock_reader m r = Some (ReadHolds data)"
    and m': "m' = set_mock_reader r (ReadReturned (Inr data))
            (m\<lparr>mkStats := stats_received data (mkStats m), mkHanded := mkHanded m @ [data]\<rparr>)"
    using assms by (auto simp: mock_ops split: option.splits mock_reader.splits)
  have "sum_list (map held_read ((mkReaders m)[r := ReadReturned (Inr data)])) + {#data#}
      = sum_list (map held_read (mkReaders m))"
    using replace_reader [OF c, of "ReadReturned (Inr data)"] by (simp add: held_read_def)
  then show ?thesis using MockReadReturn m' by (auto simp: mock_inside_def ac_simps)
qed (use assms in \<open>auto simp: mock_ops mock_inside_def held_read_def split: option.splits mock_writer.splits
      list.splits if_splits\<close>)

lemma mock_ok_step:
  assumes "mock_step step m = Some m'" and "mock_ok m"
  shows "mock_ok m'"
proof (cases step)
  case (MockWriteDone w)
  then obtain data where c: "mock_writer m w = Some (WriteWaits data)"
    and "m' = set_mock_writer w (WriteReturned (Some MockContextDone)) m"
    using assms(1) by (auto simp: mock_ops split: option.splits mock_writer.splits)
  then show ?thesis using assms(2) replace_writer [OF c, of "WriteReturned (Some MockContextDone)"]
    by (simp add: mock_ok_def held_write_def)
next
  case (MockSend w)
  then obtain data where c: "mock_writer m w = Some (WriteWaits data)" "length (mkWriteChan m) < mock_cap"
    and "m' = set_mock_writer w (WriteHolds data) (m\<lparr>mkWriteChan := mkWriteChan m @ [data]\<rparr>)"
    using assms(1) by (auto simp: mock_ops split: option.splits mock_writer.splits if_splits)
  then show ?thesis using assms(2) replace_writer [OF c(1), of "WriteHolds data"]
    by (simp add: mock_ok_def held_write_def add.assoc [symmetric])
next
  case (MockWriteReturn w)
  then obtain data where c: "mock_writer m w = Some (WriteHolds data)"
    and m': "m' = set_mock_writer w (WriteReturned None) (m\<lparr>mkStats := stats_sent data (mkStats m)\<rparr>)"
    using assms(1) by (auto simp: mock_ops split: option.splits mock_writer.splits)
  have "sum_list (map held_write (mkWriters m))
      = length data + sum_list (map held_write ((mkWriters m)[w := WriteReturned None]))"
    using replace_writer [OF c, of "WriteReturned None"] by (simp add: held_write_def)
  then show ?thesis using assms(2) m' by (simp add: mock_ok_def stats_sent_def add.assoc)
qed (use assms in \<open>auto simp: mock_ops mock_ok_def held_write_def stats_received_def
      split: option.splits mock_reader.splits list.splits if_splits\<close>)

text \<open>
  The mock channel loses nothing and makes nothing up: in every interleaving of reads, writes, \<open>Close\<close> and
  the test functions, what has been injected is, each block once, what reads have returned, what a read holds
  and what waits in the queue; neither queue exceeds its capacity; and the counted bytes are those
  of the written blocks, up to the writes that have still to count theirs.
\<close>

theorem mock_conserves:
  "case run mock_step steps NewMockChannel of
     None \<Rightarrow> True
   | Some m \<Rightarrow> mock_inside m = injected steps \<and> mock_ok m"
proof -
  have "mock_inside m = mock_inside m0 + injected steps \<and> mock_ok m"
    if "run mock_step steps m0 = Some m" "mock_ok m0" for m0 m
    using that
  proof (induction steps arbitrary: m0)
    case (Cons step steps)
    then obtain m1 where m1: "mock_step step m0 = Some m1" "run mock_step steps m1 = Some m"
      by (auto split: option.splits)
    show ?case using Cons.IH [OF m1(2) mock_ok_step [OF m1(1) Cons.prems(2)]] mock_inside_step [OF m1(1)]
      by (simp add: injected_def ac_simps)
  qed (simp add: injected_def)
  moreover have "mock_ok NewMockChannel" "mock_inside NewMockChannel = {#}"
    by (simp_all add: mock_ok_def mock_inside_def NewMockChannel_def zero_stats_def)
  ultimately show ?thesis by (auto split: option.split)
qed

text \<open>A write that has passed its test when the channel is closed still sends, and reports success.\<close>

lemma mock_sends_after_close:
  "\<exists>m. run mock_step [MockWrite data, MockClose, MockSend 0, MockWriteReturn 0] NewMockChannel = Some m
    \<and> mkClosed m \<and> mock_writer m 0 = Some (WriteReturned None) \<and> mkWriteChan m = [data]"
  by (simp add: mock_ops NewMockChannel_def mock_writer_def mock_cap_def set_mock_writer_def)

end
