(* ===== verification/Channel_Tcp.thy ===== *)
theory Channel_Tcp
  imports Channel_Physical "HOL-Library.Multiset"
begin

text \<open>
  The TCP channel (\<open>pkg/channel/tcp_channel.go\<close>) at the level of its goroutines: the accept loop of a
  server or the reconnect loop of a client, one reader, one writer and \<open>Close\<close> share the current
  connection under a lock. A step is what a goroutine does between two blocking calls or locks; what a
  call of the operating system returns is part of the label. A notification is made in the step that
  changes the connection.
\<close>

section \<open>Configuration\<close>

text \<open>Durations are numbers of nanoseconds.\<close>

record TCPChannelConfig =
  tcfAddress :: string
  tcfIsServer :: bool
  tcfReconnectDelay :: int
  tcfReadTimeout :: int
  tcfWriteTimeout :: int

definition tcp_defaults :: "TCPChannelConfig \<Rightarrow> TCPChannelConfig" where
  "tcp_defaults config =
     config\<lparr>tcfReconnectDelay := (if tcfReconnectDelay config = 0 then 5000000000 else tcfReconnectDelay config),
            tcfReadTimeout := (if tcfReadTimeout config = 0 then 30000000000 else tcfReadTimeout config),
            tcfWriteTimeout := (if tcfWriteTimeout config = 0 then 10000000000 else tcfWriteTimeout config)\<rparr>"

section \<open>State\<close>

text \<open>
  A loop that produces connections is at its top, holds a connection it has not installed yet, or has
  ended. The reader is at the top of its loop, reads the header or the rest of a frame from the
  connection it picked; the writer writes to the one it picked.
\<close>

datatype conn_loop = NotStarted | AtTop | Holding nat | LoopEnded

datatype reader = ReaderTop | ReadingHeader nat | ReadingBody nat bytes nat

datatype writer = WriterIdle | Writing nat bytes

datatype tcp_result = WriteDone | WriteFailed | WriteNoConnection | WriteClosed | ReadClosed

text \<open>
  \<open>tcpOpen\<close> are the connections the operating system holds open for the channel. \<open>tcpClosed\<close> says
  that \<open>Close\<close> has run up to the closing of the connection: the flag is set, the context cancelled and
  the listener closed.
\<close>

record TCPChannel =
  tcpConfig :: TCPChannelConfig
  tcpConn :: "nat option"
  tcpOpen :: "nat list"
  tcpNext :: nat
  tcpAccept :: conn_loop
  tcpReconnect :: conn_loop
  tcpReader :: reader
  tcpWriter :: writer
  tcpHasListener :: bool
  tcpNotes :: "notification list"
  tcpStats :: TransportStats
  tcpClosed :: bool
  tcpClosing :: bool
  tcpHanded :: "bytes list"
  tcpWritten :: "(nat \<times> bytes) list"
  tcpResults :: "tcp_result list"

datatype tcp_err = AddressRequired | ListenFailed | ConnectFailed

definition tcp_notify :: "notification list \<Rightarrow> TCPChannel \<Rightarrow> TCPChannel" where
  "tcp_notify ns q = (if tcpHasListener q then q\<lparr>tcpNotes := tcpNotes q @ ns\<rparr> else q)"

definition tcp_count :: "(TransportStats \<Rightarrow> TransportStats) \<Rightarrow> TCPChannel \<Rightarrow> TCPChannel" where
  "tcp_count f q = q\<lparr>tcpStats := f (tcpStats q)\<rparr>"

definition SetConnectionStateListener :: "TCPChannel \<Rightarrow> TCPChannel" where
  "SetConnectionStateListener q = q\<lparr>tcpHasListener := True\<rparr>"

text \<open>\<open>available\<close>: listening, or dialling the first time, succeeds.\<close>

definition tcp_startServer :: "bool \<Rightarrow> TCPChannel \<Rightarrow> tcp_err + TCPChannel" where
  "tcp_startServer available q = (if available then Inr (q\<lparr>tcpAccept := AtTop\<rparr>) else Inl ListenFailed)"

definition tcp_connect :: "bool \<Rightarrow> TCPChannel \<Rightarrow> tcp_err + TCPChannel" where
  "tcp_connect available q =
     (if available
      then Inr (tcp_notify [ConnectionEstablished] (tcp_count stats_connect
             (q\<lparr>tcpConn := Some (tcpNext q), tcpOpen := [tcpNext q], tcpNext := tcpNext q + 1,
                tcpReconnect := AtTop\<rparr>)))
      else Inl ConnectFailed)"

definition NewTCPChannel :: "TCPChannelConfig \<Rightarrow> bool \<Rightarrow> tcp_err + TCPChannel" where
  "NewTCPChannel config available =
     (if tcfAddress config = '''' then Inl AddressRequired
      else
        (let tc = \<lparr>tcpConfig = tcp_defaults config, tcpConn = None, tcpOpen = [], tcpNext = 0,
                   tcpAccept = NotStarted, tcpReconnect = NotStarted, tcpReader = ReaderTop,
                   tcpWriter = WriterIdle, tcpHasListener = False, tcpNotes = [], tcpStats = zero_stats,
                   tcpClosed = False, tcpClosing = False, tcpHanded = [], tcpWritten = [], tcpResults = []\<rparr>
         in if tcfIsServer config then tcp_startServer available tc else tcp_connect available tc))"

section \<open>Connections\<close>

definition accept_conn :: "TCPChannel \<Rightarrow> TCPChannel option" where
  "accept_conn q =
     (if tcpAccept q = AtTop \<and> \<not> tcpClosed q
      then Some (q\<lparr>tcpAccept := Holding (tcpNext q), tcpOpen := tcpNext q # tcpOpen q,
                  tcpNext := tcpNext q + 1\<rparr>)
      else None)"

definition accept_install :: "TCPChannel \<Rightarrow> TCPChannel option" where
  "accept_install q =
     (case tcpAccept q of
        Holding conn \<Rightarrow>
          (let q1 = (case tcpConn q of
                       None \<Rightarrow> q
                     | Some old \<Rightarrow> tcp_count stats_disconnect (q\<lparr>tcpOpen := remove1 old (tcpOpen q)\<rparr>));
               q2 = tcp_count stats_connect (q1\<lparr>tcpConn := Some conn, tcpAccept := AtTop\<rparr>)
           in Some (tcp_notify ((if tcpConn q \<noteq> None then [ConnectionLost] else []) @ [ConnectionEstablished]) q2))
      | _ \<Rightarrow> None)"

definition accept_end :: "TCPChannel \<Rightarrow> TCPChannel option" where
  "accept_end q = (if tcpAccept q = AtTop \<and> tcpClosed q then Some (q\<lparr>tcpAccept := LoopEnded\<rparr>) else None)"

text \<open>
  The reconnect loop looks at the connection every second. When the timer and the end of the context
  are both ready its select may still take the timer.
\<close>

definition redial_conn :: "TCPChannel \<Rightarrow> TCPChannel option" where
  "redial_conn q =
     (if tcpReconnect q = AtTop \<and> tcpConn q = None
      then Some (q\<lparr>tcpReconnect := Holding (tcpNext q), tcpOpen := tcpNext q # tcpOpen q,
                  tcpNext := tcpNext q + 1\<rparr>)
      else None)"

definition redial_install :: "TCPChannel \<Rightarrow> TCPChannel option" where
  "redial_install q =
     (case tcpReconnect q of
        Holding conn \<Rightarrow>
          Some (tcp_notify [ConnectionEstablished]
            (tcp_count stats_connect (q\<lparr>tcpConn := Some conn, tcpReconnect := AtTop\<rparr>)))
      | _ \<Rightarrow> None)"

definition reconnect_end :: "TCPChannel \<Rightarrow> TCPChannel option" where
  "reconnect_end q =
     (if tcpReconnect q = AtTop \<and> tcpClosed q then Some (q\<lparr>tcpReconnect := LoopEnded\<rparr>) else None)"

text \<open>Both error handlers drop the current connection, whichever it is by now.\<close>

definition drop_connection :: "TCPChannel \<Rightarrow> TCPChannel" where
  "drop_connection q =
     (case tcpConn q of
        None \<Rightarrow> q
      | Some conn \<Rightarrow>
          tcp_notify [ConnectionLost]
            (tcp_count stats_disconnect (q\<lparr>tcpOpen := remove1 conn (tcpOpen q), tcpConn := None\<rparr>)))"

definition handleReadError :: "TCPChannel \<Rightarrow> TCPChannel" where
  "handleReadError q = drop_connection (tcp_count stats_read_error q)"

definition handleWriteError :: "TCPChannel \<Rightarrow> TCPChannel" where
  "handleWriteError q = drop_connection (tcp_count stats_write_error q)"

section \<open>Reading and writing\<close>

text \<open>
  The top of the reader's loop; \<open>cancelled\<close> is the state of the caller's context. Without a connection
  the reader waits, which is no step.
\<close>

definition read_begin :: "bool \<Rightarrow> TCPChannel \<Rightarrow> TCPChannel option" where
  "read_begin cancelled q =
     (if tcpReader q \<noteq> ReaderTop then None
      else if cancelled \<or> tcpClosed q then Some (q\<lparr>tcpResults := tcpResults q @ [ReadClosed]\<rparr>)
      else (case tcpConn q of None \<Rightarrow> None | Some conn \<Rightarrow> Some (q\<lparr>tcpReader := ReadingHeader conn\<rparr>)))"

text \<open>
  What \<open>io.ReadFull\<close> returns: all the bytes asked for, from a connection that is open, or an error
  (\<open>None\<close>: a timeout, a closed connection, the end of the stream). Whole frames are handed up.
\<close>

definition hand_up :: "bytes \<Rightarrow> TCPChannel \<Rightarrow> TCPChannel" where
  "hand_up frame q =
     tcp_count (stats_received frame) (q\<lparr>tcpReader := ReaderTop, tcpHanded := tcpHanded q @ [frame]\<rparr>)"

definition read_header :: "bytes option \<Rightarrow> TCPChannel \<Rightarrow> TCPChannel option" where
  "read_header r q =
     (case tcpReader q of
        ReadingHeader conn \<Rightarrow>
          (case r of
             None \<Rightarrow> Some (handleReadError (q\<lparr>tcpReader := ReaderTop\<rparr>))
           | Some header \<Rightarrow>
               if length header \<noteq> 10 \<or> conn \<notin> set (tcpOpen q) then None
               else (case judge_header header of
                       BadHeader \<Rightarrow> Some (tcp_count stats_read_error (q\<lparr>tcpReader := ReaderTop\<rparr>))
                     | WholeFrame \<Rightarrow> Some (hand_up header q)
                     | MoreBytes k \<Rightarrow> Some (q\<lparr>tcpReader := ReadingBody conn header k\<rparr>)))
      | _ \<Rightarrow> None)"

definition read_body :: "bytes option \<Rightarrow> TCPChannel \<Rightarrow> TCPChannel option" where
  "read_body r q =
     (case tcpReader q of
        ReadingBody conn header k \<Rightarrow>
          (case r of
             None \<Rightarrow> Some (handleReadError (q\<lparr>tcpReader := ReaderTop\<rparr>))
           | Some rest \<Rightarrow>
               if length rest \<noteq> k \<or> conn \<notin> set (tcpOpen q) then None
               else Some (hand_up (header @ rest) q))
      | _ \<Rightarrow> None)"

definition write_begin :: "bool \<Rightarrow> bytes \<Rightarrow> TCPChannel \<Rightarrow> TCPChannel option" where
  "write_begin cancelled data q =
     (if tcpWriter q \<noteq> WriterIdle then None
      else if cancelled \<or> tcpClosed q then Some (q\<lparr>tcpResults := tcpResults q @ [WriteClosed]\<rparr>)
      else (case tcpConn q of
              None \<Rightarrow> Some (tcp_count stats_write_error (q\<lparr>tcpResults := tcpResults q @ [WriteNoConnection]\<rparr>))
            | Some conn \<Rightarrow> Some (q\<lparr>tcpWriter := Writing conn data\<rparr>)))"

definition write_end :: "bool \<Rightarrow> TCPChannel \<Rightarrow> TCPChannel option" where
  "write_end ok q =
     (case tcpWriter q of
        Writing conn data \<Rightarrow>
          (let q1 = q\<lparr>tcpWriter := WriterIdle\<rparr>
           in if \<not> ok then Some (handleWriteError (q1\<lparr>tcpResults := tcpResults q @ [WriteFailed]\<rparr>))
              else if conn \<notin> set (tcpOpen q) then None
              else Some (tcp_count (stats_sent data)
                     (q1\<lparr>tcpWritten := tcpWritten q @ [(conn, data)], tcpResults := tcpResults q @ [WriteDone]\<rparr>)))
      | _ \<Rightarrow> None)"

section \<open>Closing\<close>

definition close_begin :: "TCPChannel \<Rightarrow> TCPChannel" where
  "close_begin q = (if tcpClosed q then q else q\<lparr>tcpClosed := True, tcpClosing := True\<rparr>)"

definition close_conn :: "TCPChannel \<Rightarrow> TCPChannel option" where
  "close_conn q =
     (if \<not> tcpClosing q then None
      else
        (let q1 = q\<lparr>tcpClosing := False\<rparr>
         in Some (case tcpConn q of
                    None \<Rightarrow> q1
                  | Some conn \<Rightarrow>
                      tcp_count stats_disconnect (q1\<lparr>tcpOpen := remove1 conn (tcpOpen q), tcpConn := None\<rparr>))))"

text \<open>\<open>Close\<close> returns once the goroutines it waits for have ended.\<close>

definition close_returns :: "TCPChannel \<Rightarrow> bool" where
  "close_returns q \<longleftrightarrow> tcpClosed q \<and> \<not> tcpClosing q
     \<and> tcpAccept q \<in> {NotStarted, LoopEnded} \<and> tcpReconnect q \<in> {NotStarted, LoopEnded}"

definition TCPChannel_Statistics :: "TCPChannel \<Rightarrow> TransportStats" where
  "TCPChannel_Statistics q = tcpStats q"

definition IsConnected :: "TCPChannel \<Rightarrow> bool" where
  "IsConnected q \<longleftrightarrow> tcpConn q \<noteq> None"

section \<open>Steps\<close>

datatype tcp_step =
    AcceptConn | AcceptInstall | AcceptEnd
  | RedialConn | RedialInstall | ReconnectEnd
  | ReadBegin bool | ReadHeader "bytes option" | ReadBody "bytes option"
  | WriteBegin bool bytes | WriteEnd bool
  | CloseBegin | CloseConn

definition tcp_step :: "tcp_step \<Rightarrow> TCPChannel \<Rightarrow> TCPChannel option" where
  "tcp_step step q =
     (case step of
        AcceptConn \<Rightarrow> accept_conn q
      | AcceptInstall \<Rightarrow> accept_install q
      | AcceptEnd \<Rightarrow> accept_end q
      | RedialConn \<Rightarrow> redial_conn q
      | RedialInstall \<Rightarrow> redial_install q
      | ReconnectEnd \<Rightarrow> reconnect_end q
      | ReadBegin cancelled \<Rightarrow> read_begin cancelled q
      | ReadHeader r \<Rightarrow> read_header r q
      | ReadBody r \<Rightarrow> read_body r q
      | WriteBegin cancelled data \<Rightarrow> write_begin cancelled data q
      | WriteEnd ok \<Rightarrow> write_end ok q
      | CloseBegin \<Rightarrow> Some (close_begin q)
      | CloseConn \<Rightarrow> close_conn q)"

lemmas tcp_ops = accept_conn_def accept_install_def accept_end_def redial_conn_def redial_install_def
  reconnect_end_def read_begin_def read_header_def read_body_def write_begin_def write_end_def
  close_begin_def close_conn_def


section \<open>Connections are counted and closed\<close>

definition held :: "conn_loop \<Rightarrow> nat list" where
  "held l = (case l of Holding c \<Rightarrow> [c] | _ \<Rightarrow> [])"

definition current :: "TCPChannel \<Rightarrow> nat list" where
  "current q = (case tcpConn q of None \<Rightarrow> [] | Some c \<Rightarrow> [c])"

text \<open>
  The connections that are open are the current one and those a loop has just obtained; the
  statistics count the current one as connected.
\<close>

definition connections_ok :: "TCPChannel \<Rightarrow> bool" where
  "connections_ok q \<longleftrightarrow>
     tsConnects (tcpStats q) = tsDisconnects (tcpStats q) + of_nat (length (current q))
     \<and> distinct (tcpOpen q) \<and> (\<forall>c\<in>set (tcpOpen q). c < tcpNext q)
     \<and> mset (tcpOpen q) = mset (current q @ held (tcpAccept q) @ held (tcpReconnect q))
     \<and> (tcpAccept q = NotStarted \<or> tcpReconnect q = NotStarted)
     \<and> (held (tcpReconnect q) = [] \<or> tcpConn q = None)"

lemma tcp_notify_simps [simp]:
  "tcpConn (tcp_notify ns q) = tcpConn q" "tcpOpen (tcp_notify ns q) = tcpOpen q"
  "tcpNext (tcp_notify ns q) = tcpNext q" "tcpAccept (tcp_notify ns q) = tcpAccept q"
  "tcpReconnect (tcp_notify ns q) = tcpReconnect q" "tcpReader (tcp_notify ns q) = tcpReader q"
  "tcpStats (tcp_notify ns q) = tcpStats q" "tcpHanded (tcp_notify ns q) = tcpHanded q"
  "tcpClosed (tcp_notify ns q) = tcpClosed q" "tcpHasListener (tcp_notify ns q) = tcpHasListener q"
  by (simp_all add: tcp_notify_def)

lemma tcp_count_simps [simp]:
  "tcpConn (tcp_count f q) = tcpConn q" "tcpOpen (tcp_count f q) = tcpOpen q"
  "tcpNext (tcp_count f q) = tcpNext q" "tcpAccept (tcp_count f q) = tcpAccept q"
  "tcpReconnect (tcp_count f q) = tcpReconnect q" "tcpReader (tcp_count f q) = tcpReader q"
  "tcpStats (tcp_count f q) = f (tcpStats q)" "tcpHanded (tcp_count f q) = tcpHanded q"
  "tcpClosed (tcp_count f q) = tcpClosed q" "tcpHasListener (tcp_count f q) = tcpHasListener q"
  by (simp_all add: tcp_count_def)

lemma connections_ok_same:
  assumes "connections_ok q" and "tcpConn q' = tcpConn q" and "tcpOpen q' = tcpOpen q" and "tcpNext q' = tcpNext q"
    and "tcpAccept q' = tcpAccept q" and "tcpReconnect q' = tcpReconnect q"
    and "tsConnects (tcpStats q') = tsConnects (tcpStats q)" and "tsDisconnects (tcpStats q') = tsDisconnects (tcpStats q)"
  shows "connections_ok q'"
  using assms by (simp add: connections_ok_def current_def)

lemma current_open: "connections_ok q \<Longrightarrow> tcpConn q = Some c \<Longrightarrow> c \<in> set (tcpOpen q)"
  unfolding connections_ok_def current_def
  by (metis append_Cons list.set_intros(1) option.simps(5) set_mset_mset)

lemma connections_ok_drop:
  assumes "connections_ok q"
  shows "connections_ok (drop_connection q)"
  using assms by (auto simp: drop_connection_def connections_ok_def current_def stats_defs split: option.split dest: set_remove1_subset [THEN subsetD])

lemma remove1_two:
  assumes "mset xs = {#a, b#}"
  shows "remove1 b xs = [a]" and "a \<in> set xs"
proof -
  have "mset (remove1 b xs) = {#a#}" by (simp only: mset_remove1 assms) simp
  then show "remove1 b xs = [a]" by (simp only: mset_single_iff)
  have "a \<in># mset xs" unfolding assms by simp
  then show "a \<in> set xs" by simp
qed

lemma connections_ok_step:
  assumes "tcp_step step q = Some q'" and "connections_ok q"
  shows "connections_ok q'"
proof (cases step)
  case AcceptConn
  then show ?thesis using assms
    by (auto simp: tcp_step_def accept_conn_def connections_ok_def current_def held_def less_Suc_eq split: if_splits)
next
  case AcceptInstall
  then show ?thesis using assms
    by (auto simp: tcp_step_def accept_install_def connections_ok_def current_def held_def stats_defs Let_def
        remove1_two(1) split: conn_loop.splits option.splits dest: remove1_two(2) set_remove1_subset [THEN subsetD])
next
  case AcceptEnd
  then show ?thesis using assms
    by (auto simp: tcp_step_def accept_end_def connections_ok_def current_def held_def split: if_splits)
next
  case RedialConn
  then show ?thesis using assms
    by (auto simp: tcp_step_def redial_conn_def connections_ok_def current_def held_def less_Suc_eq split: if_splits)
next
  case RedialInstall
  then show ?thesis using assms
    by (auto simp: tcp_step_def redial_install_def connections_ok_def current_def held_def stats_defs
        split: conn_loop.splits)
next
  case ReconnectEnd
  then show ?thesis using assms
    by (auto simp: tcp_step_def reconnect_end_def connections_ok_def current_def held_def split: if_splits)
next
  case (ReadBegin c)
  then show ?thesis using assms(1)
    by (intro connections_ok_same [OF assms(2)]) (auto simp: tcp_step_def read_begin_def split: if_splits option.splits)
next
  case (ReadHeader r)
  have same: "connections_ok (tcp_count stats_read_error (q\<lparr>tcpReader := ReaderTop\<rparr>))"
    "connections_ok (hand_up d q)" "connections_ok (q\<lparr>tcpReader := x\<rparr>)" for d x
    by (rule connections_ok_same [OF assms(2)]; simp add: stats_defs hand_up_def)+
  then show ?thesis using ReadHeader assms(1) connections_ok_drop [OF same(1)]
    by (auto simp: tcp_step_def read_header_def handleReadError_def split: reader.splits option.splits if_splits header_verdict.splits)
next
  case (ReadBody r)
  have same: "connections_ok (tcp_count stats_read_error (q\<lparr>tcpReader := ReaderTop\<rparr>))" "connections_ok (hand_up d q)" for d
    by (rule connections_ok_same [OF assms(2)]; simp add: stats_defs hand_up_def)+
  then show ?thesis using ReadBody assms(1) connections_ok_drop [OF same(1)]
    by (auto simp: tcp_step_def read_body_def handleReadError_def split: reader.splits option.splits if_splits)
next
  case (WriteBegin c d)
  then show ?thesis using assms(1)
    by (intro connections_ok_same [OF assms(2)])
      (auto simp: tcp_step_def write_begin_def stats_defs split: if_splits option.splits)
next
  case (WriteEnd ok)
  have same: "connections_ok (tcp_count stats_write_error (q\<lparr>tcpWriter := WriterIdle, tcpResults := r\<rparr>))"
    "connections_ok (tcp_count (stats_sent d) (q\<lparr>tcpWriter := WriterIdle, tcpWritten := x, tcpResults := r\<rparr>))" for d x r
    by (rule connections_ok_same [OF assms(2)]; simp add: stats_defs)+
  then show ?thesis using WriteEnd assms(1) connections_ok_drop [OF same(1)]
    by (auto simp: tcp_step_def write_end_def handleWriteError_def Let_def split: writer.splits if_splits)
next
  case CloseBegin
  then show ?thesis using assms(1)
    by (intro connections_ok_same [OF assms(2)]) (auto simp: tcp_step_def close_begin_def)
next
  case CloseConn
  then show ?thesis using assms
    by (auto simp: tcp_step_def close_conn_def connections_ok_def current_def stats_defs Let_def
        split: if_splits option.splits dest: set_remove1_subset [THEN subsetD])
qed


lemma NewTCPChannel_ok:
  assumes "NewTCPChannel config available = Inr q"
  shows "connections_ok q \<and> tcpReader q = ReaderTop \<and> tcpHanded q = [] \<and> \<not> tcpClosed q"
  using assms
  by (auto simp: NewTCPChannel_def tcp_startServer_def tcp_connect_def Let_def connections_ok_def current_def held_def stats_defs zero_stats_def
      split: if_splits)

lemma connections_ok_run:
  "run tcp_step steps q = Some q' \<Longrightarrow> connections_ok q \<Longrightarrow> connections_ok q'"
  by (erule run_invariant) (auto dest: connections_ok_step)

section \<open>What is handed up\<close>

text \<open>While the rest of a frame is read its header has been judged.\<close>

lemma drop_connection_handed [simp]:
  "tcpHanded (drop_connection q) = tcpHanded q" "tcpReader (drop_connection q) = tcpReader q"
  "tsBytesReceived (tcpStats (drop_connection q)) = tsBytesReceived (tcpStats q)"
  by (auto simp: drop_connection_def stats_defs split: option.split)

lemma handled_error [simp]:
  "tcpHanded (handleReadError q) = tcpHanded q" "tcpHanded (handleWriteError q) = tcpHanded q"
  "tcpReader (handleReadError q) = tcpReader q" "tcpReader (handleWriteError q) = tcpReader q"
  "tsBytesReceived (tcpStats (handleReadError q)) = tsBytesReceived (tcpStats q)"
  "tsBytesReceived (tcpStats (handleWriteError q)) = tsBytesReceived (tcpStats q)"
  by (simp_all add: handleReadError_def handleWriteError_def stats_defs)

definition body_judged :: "TCPChannel \<Rightarrow> bool" where
  "body_judged q \<longleftrightarrow>
     (case tcpReader q of
        ReadingBody conn header k \<Rightarrow> length header = 10 \<and> judge_header header = MoreBytes k
      | _ \<Rightarrow> True)"


interpretation tcp: physical_channel tcp_step body_judged tcpHanded tcpStats
proof unfold_locales
  fix q q' step
  assume inv: "body_judged q" and step: "tcp_step step q = Some q'"
  note simps = tcp_step_def tcp_ops Let_def body_judged_def hand_up_def stats_defs
  show "body_judged q'"
    using inv step
    by (cases step)
      (auto simp: simps split: if_splits conn_loop.splits option.splits reader.splits writer.splits
        header_verdict.splits)
  show "tcpHanded q' = tcpHanded q \<and> tsBytesReceived (tcpStats q') = tsBytesReceived (tcpStats q)
    \<or> (\<exists>d. tcpHanded q' = tcpHanded q @ [d] \<and> link_start d
        \<and> tsBytesReceived (tcpStats q') = tsBytesReceived (tcpStats q) + of_nat (length d))"
    using inv step judged_start [of _ "[]"] judged_start
    by (cases step)
      (auto simp: simps split: if_splits conn_loop.splits option.splits reader.splits writer.splits
        header_verdict.splits)
qed

section \<open>The reader follows the stream\<close>

text \<open>The steps in which the reader takes a stream from a connection.\<close>

function stream_steps :: "bytes \<Rightarrow> tcp_step list" where
  "stream_steps s =
     (if length s < 10 then []
      else ReadBegin False # ReadHeader (Some (take 10 s)) #
        (case judge_header (take 10 s) of
           BadHeader \<Rightarrow> stream_steps (drop 10 s)
         | WholeFrame \<Rightarrow> stream_steps (drop 10 s)
         | MoreBytes k \<Rightarrow>
             if length s < 10 + k then []
             else ReadBody (Some (take k (drop 10 s))) # stream_steps (drop (10 + k) s)))"
  by pat_completeness auto
termination stream_steps
  by (relation "measure length") auto

declare stream_steps.simps [simp del]

definition reading_from :: "nat \<Rightarrow> TCPChannel \<Rightarrow> bool" where
  "reading_from c q \<longleftrightarrow> tcpReader q = ReaderTop \<and> tcpConn q = Some c \<and> c \<in> set (tcpOpen q) \<and> \<not> tcpClosed q"

lemma reader_follows_stream:
  assumes "reading_from c q"
  shows "\<exists>q'. run tcp_step (stream_steps s) q = Some q' \<and> tcpHanded q' = tcpHanded q @ stream_frames s
    \<and> tcpConn q' = Some c"
  using assms
proof (induction s arbitrary: q rule: stream_steps.induct)
  case (1 s)
  show ?case
  proof (cases "length s < 10")
    case True
    then show ?thesis using "1.prems" by (simp add: stream_steps.simps [of s] stream_frames.simps [of s] reading_from_def)
  next
    case False
    let ?h = "take 10 s"
    let ?q1 = "q\<lparr>tcpReader := ReadingHeader c\<rparr>"
    have start: "tcp_step (ReadBegin False) q = Some ?q1"
      using "1.prems" by (simp add: tcp_step_def read_begin_def reading_from_def)
    have q1: "tcpReader ?q1 = ReadingHeader c" "c \<in> set (tcpOpen ?q1)" "length ?h = 10"
      using "1.prems" False by (simp_all add: reading_from_def)
    show ?thesis
    proof (cases "judge_header ?h")
      case BadHeader
      let ?q2 = "tcp_count stats_read_error (?q1\<lparr>tcpReader := ReaderTop\<rparr>)"
      have "reading_from c ?q2" using "1.prems" by (simp add: reading_from_def)
      from "1.IH"(1) [OF False BadHeader this] show ?thesis
        using BadHeader False start q1
        by (simp add: stream_steps.simps [of s] stream_frames.simps [of s] tcp_step_def read_header_def)
    next
      case WholeFrame
      have "reading_from c (hand_up ?h ?q1)" using "1.prems" by (simp add: reading_from_def hand_up_def)
      from "1.IH"(2) [OF False WholeFrame this] show ?thesis
        using WholeFrame False start q1
        by (simp add: stream_steps.simps [of s] stream_frames.simps [of s] tcp_step_def read_header_def)
          (simp add: hand_up_def)
    next
      case (MoreBytes k)
      let ?q2 = "?q1\<lparr>tcpReader := ReadingBody c ?h k\<rparr>"
      have header: "tcp_step (ReadHeader (Some ?h)) ?q1 = Some ?q2"
        using MoreBytes q1 by (simp add: tcp_step_def read_header_def)
      show ?thesis
      proof (cases "length s < 10 + k")
        case True
        then show ?thesis using MoreBytes False start header "1.prems"
          by (simp add: stream_steps.simps [of s] stream_frames.simps [of s] reading_from_def)
      next
        case longer: False
        let ?b = "take k (drop 10 s)"
        have joined: "?h @ ?b = take (10 + k) s" by (rule take_add [symmetric])
        have body: "tcp_step (ReadBody (Some ?b)) ?q2 = Some (hand_up (take (10 + k) s) ?q2)"
          using longer q1(2) joined by (simp add: tcp_step_def read_body_def)
        have "reading_from c (hand_up (take (10 + k) s) ?q2)"
          using "1.prems" by (simp add: reading_from_def hand_up_def)
        from "1.IH"(3) [OF False MoreBytes longer this] show ?thesis
          using MoreBytes False longer start header body
          by (simp add: stream_steps.simps [of s] stream_frames.simps [of s]) (simp add: hand_up_def)
      qed
    qed
  qed
qed


text \<open>Frames written back to back arrive.\<close>

lemma frames_over_tcp:
  assumes "reading_from c q" and "list_all frame_valid fs"
  shows "\<exists>q'. run tcp_step (stream_steps (concat (map frame_bytes fs))) q = Some q'
    \<and> tcpHanded q' = tcpHanded q @ map frame_bytes fs
    \<and> map (\<lambda>d. map_sum id fst (Parse d)) (map frame_bytes fs) = map Inr fs"
proof -
  have "map_sum id fst (Parse (frame_bytes f)) = Inr f" if "f \<in> set fs" for f
    using Parse_Serialize [OF Serialize_valid, of f "[]"] that assms(2) by (auto simp: list_all_iff frame_valid_def)
  then show ?thesis
    using reader_follows_stream [OF assms(1), of "concat (map frame_bytes fs)"] stream_frames_all [OF assms(2)] by auto
qed

section \<open>Properties\<close>

text \<open>
  C12: in every interleaving of its goroutines the connections of a TCP channel are accounted for: the
  open ones are the current one and those just accepted or dialled, each once; the statistics say one
  more connect than disconnect while there is a current connection and equally many otherwise; and
  what the reads have handed up begins with a link header and adds up to the bytes received.
\<close>

theorem tcp_connections_counted:
  "case NewTCPChannel config available of
     Inl _ \<Rightarrow> True
   | Inr q0 \<Rightarrow>
       (case run tcp_step steps (SetConnectionStateListener q0) of
          None \<Rightarrow> True
        | Some q \<Rightarrow> connections_ok q \<and> list_all link_start (tcpHanded q)
            \<and> tsBytesReceived (tcpStats q) = of_nat (sum_list (map length (tcpHanded q))))"
proof -
  have "connections_ok q \<and> tcp.received_ok q"
    if new: "NewTCPChannel config available = Inr q0"
      and run: "run tcp_step steps (SetConnectionStateListener q0) = Some q" for q0 q
  proof
    let ?q = "SetConnectionStateListener q0"
    have "connections_ok ?q"
      by (rule connections_ok_same [of q0]) (use NewTCPChannel_ok [OF new] in \<open>simp_all add: SetConnectionStateListener_def\<close>)
    then show "connections_ok q" by (rule connections_ok_run [OF run])
    have "tsBytesReceived (tcpStats q0) = 0"
      using new by (auto simp: NewTCPChannel_def tcp_startServer_def tcp_connect_def Let_def stats_defs zero_stats_def split: if_splits)
    then have "tcp.received_ok ?q"
      using NewTCPChannel_ok [OF new] by (simp add: tcp.received_ok_def body_judged_def SetConnectionStateListener_def)
    then show "tcp.received_ok q" by (rule tcp.received_run [OF run])
  qed
  then show ?thesis by (auto simp: tcp.received_ok_def split: sum.split option.split)
qed

text \<open>
  C23: frames written back to back to a connection are the frames the reader hands up, in order, each
  complete and alone, and the link parser reads each back. \<open>stream_steps\<close> are the reader's steps on
  these bytes; how the stream is cut into segments does not matter, since every read waits for all of
  its bytes.
\<close>

theorem tcp_frames_arrive:
  assumes "reading_from c q" and "list_all frame_valid fs"
  shows "\<exists>q'. run tcp_step (stream_steps (concat (map frame_bytes fs))) q = Some q'
    \<and> tcpHanded q' = tcpHanded q @ map frame_bytes fs
    \<and> map (\<lambda>d. map_sum id fst (Parse d)) (map frame_bytes fs) = map Inr fs"
  using frames_over_tcp [OF assms] by blast

definition sample_config :: "bool \<Rightarrow> TCPChannelConfig" where
  "sample_config server =
     \<lparr>tcfAddress = ''a'', tcfIsServer = server, tcfReconnectDelay = 0, tcfReadTimeout = 0, tcfWriteTimeout = 0\<rparr>"

definition sample_tcp :: "bool \<Rightarrow> TCPChannel" where
  "sample_tcp server =
     (case NewTCPChannel (sample_config server) True of
        Inr q \<Rightarrow> SetConnectionStateListener q
      | Inl _ \<Rightarrow> undefined)"

lemma sample_tcp_client: "reading_from 0 (sample_tcp False)"
  by (simp add: reading_from_def sample_tcp_def NewTCPChannel_def tcp_startServer_def tcp_connect_def sample_config_def Let_def
      SetConnectionStateListener_def)

theorem tcp_frames_arrive_witness:
  "\<exists>q'. run tcp_step (stream_steps (concat (map frame_bytes [NewConfirmedUserDataFrame 10 1 [1, 2, 3] True])))
        (sample_tcp False) = Some q'
    \<and> tcpHanded q' = tcpHanded (sample_tcp False) @ map frame_bytes [NewConfirmedUserDataFrame 10 1 [1, 2, 3] True]
    \<and> map (\<lambda>d. map_sum id fst (Parse d)) (map frame_bytes [NewConfirmedUserDataFrame 10 1 [1, 2, 3] True])
      = map Inr [NewConfirmedUserDataFrame 10 1 [1, 2, 3] True]"
  by (rule tcp_frames_arrive [OF sample_tcp_client])
    (simp add: frame_valid_def NewConfirmedUserDataFrame_def NewFrame_def SetFCB_def buildControl_def
      wf_frame_def parseControl_def Let_def)

text \<open>
  A client that reconnects to a server loses its new connection as well. While the server's reader
  waits on the old connection, a second connection is accepted: the old one is closed and the new one
  is current. From then on the reader's call can only fail, and its error handler closes the
  connection that is current by then, the new one, and reports a connection as lost.
\<close>

theorem tcp_replacement_closed:
  assumes "connections_ok q" and "tcpConn q = Some old" and "tcpReader q = ReadingHeader old"
    and "tcpAccept q = AtTop" and "\<not> tcpClosed q" and "tcpHasListener q"
  shows "\<exists>q1 q2. run tcp_step [AcceptConn, AcceptInstall] q = Some q1
    \<and> tcpConn q1 = Some (tcpNext q) \<and> set (tcpOpen q1) = {tcpNext q}
    \<and> (\<forall>header. tcp_step (ReadHeader (Some header)) q1 = None)
    \<and> tcp_step (ReadHeader None) q1 = Some q2 \<and> tcpConn q2 = None \<and> tcpOpen q2 = []
    \<and> tcpNotes q2 = tcpNotes q @ [ConnectionLost, ConnectionEstablished, ConnectionLost]"
proof -
  have "tcpReconnect q = NotStarted" using assms(1,4) by (auto simp: connections_ok_def)
  then have "mset (tcpOpen q) = {#old#}" using assms(1,2,4) by (simp add: connections_ok_def current_def held_def)
  then have open': "tcpOpen q = [old]" by simp
  have "old < tcpNext q" using assms(1) open' by (simp add: connections_ok_def)
  let ?q1 = "tcp_notify [ConnectionLost, ConnectionEstablished] (tcp_count stats_connect
      (tcp_count stats_disconnect (q\<lparr>tcpAccept := Holding (tcpNext q), tcpNext := tcpNext q + 1,
         tcpOpen := [tcpNext q]\<rparr>)\<lparr>tcpConn := Some (tcpNext q), tcpAccept := AtTop\<rparr>))"
  have run: "run tcp_step [AcceptConn, AcceptInstall] q = Some ?q1"
    using assms(2,4,5) open' \<open>old < tcpNext q\<close>
    by (simp add: tcp_step_def accept_conn_def accept_install_def Let_def)
  have reader: "tcpReader ?q1 = ReadingHeader old" "tcpConn ?q1 = Some (tcpNext q)" "tcpOpen ?q1 = [tcpNext q]"
    using assms(3) by simp_all
  let ?q2 = "handleReadError (?q1\<lparr>tcpReader := ReaderTop\<rparr>)"
  have fails: "tcp_step (ReadHeader (Some header)) ?q1 = None" for header
    using reader \<open>old < tcpNext q\<close> by (auto simp: tcp_step_def read_header_def)
  have error: "tcp_step (ReadHeader None) ?q1 = Some ?q2" using reader(1) by (simp add: tcp_step_def read_header_def)
  have "tcpConn ?q2 = None" "tcpOpen ?q2 = []"
    "tcpNotes ?q2 = tcpNotes q @ [ConnectionLost, ConnectionEstablished, ConnectionLost]"
    using assms(6) by (simp_all add: handleReadError_def drop_connection_def tcp_notify_def tcp_count_def)
  with run reader(2,3) fails error show ?thesis by (intro exI [of _ ?q1] exI [of _ ?q2]) simp
qed

definition replaced_tcp :: TCPChannel where
  "replaced_tcp = the (run tcp_step [AcceptConn, AcceptInstall, ReadBegin False] (sample_tcp True))"

lemma sample_tcp_run:
  "run tcp_step [AcceptConn, AcceptInstall, ReadBegin False] (sample_tcp True) = Some replaced_tcp"
  "connections_ok (sample_tcp server)"
proof -
  show "run tcp_step [AcceptConn, AcceptInstall, ReadBegin False] (sample_tcp True) = Some replaced_tcp"
    by (simp add: replaced_tcp_def sample_tcp_def NewTCPChannel_def tcp_startServer_def tcp_connect_def sample_config_def Let_def tcp_step_def
        SetConnectionStateListener_def accept_conn_def accept_install_def read_begin_def)
  show "connections_ok (sample_tcp server)"
    by (simp add: sample_tcp_def NewTCPChannel_def tcp_startServer_def tcp_connect_def sample_config_def Let_def connections_ok_def current_def held_def
        SetConnectionStateListener_def stats_defs zero_stats_def)
qed

theorem tcp_replacement_closed_witness:
  "\<exists>q1 q2. run tcp_step [AcceptConn, AcceptInstall] replaced_tcp = Some q1
    \<and> tcpConn q1 = Some (tcpNext replaced_tcp) \<and> set (tcpOpen q1) = {tcpNext replaced_tcp}
    \<and> (\<forall>header. tcp_step (ReadHeader (Some header)) q1 = None)
    \<and> tcp_step (ReadHeader None) q1 = Some q2 \<and> tcpConn q2 = None \<and> tcpOpen q2 = []
    \<and> tcpNotes q2 = tcpNotes replaced_tcp @ [ConnectionLost, ConnectionEstablished, ConnectionLost]"
proof (rule tcp_replacement_closed)
  show "connections_ok replaced_tcp" by (rule connections_ok_run [OF sample_tcp_run])
  show "tcpConn replaced_tcp = Some 0" and "tcpReader replaced_tcp = ReadingHeader 0"
    and "tcpAccept replaced_tcp = AtTop" and "\<not> tcpClosed replaced_tcp" and "tcpHasListener replaced_tcp"
    by (simp_all add: replaced_tcp_def sample_tcp_def NewTCPChannel_def tcp_startServer_def tcp_connect_def sample_config_def Let_def tcp_step_def
        SetConnectionStateListener_def accept_conn_def accept_install_def read_begin_def)
qed

text \<open>
  A connection that arrives while the channel is being closed is never closed. The accept loop holds
  it when \<open>Close\<close> closes the connections; the loop then installs it, finds the context cancelled and
  ends, and \<open>Close\<close> returns. The connection stays open and current, and a second \<open>Close\<close> does
  nothing.
\<close>

theorem tcp_close_leaks:
  "\<exists>q. run tcp_step [AcceptConn, CloseBegin, CloseConn, AcceptInstall, AcceptEnd] (sample_tcp True) = Some q
    \<and> close_returns q \<and> tcpConn q = Some 0 \<and> tcpOpen q = [0] \<and> IsConnected q
    \<and> tcp_step CloseBegin q = Some q \<and> tcp_step CloseConn q = None"
  by (simp add: sample_tcp_def NewTCPChannel_def tcp_startServer_def tcp_connect_def sample_config_def Let_def tcp_step_def
      SetConnectionStateListener_def accept_conn_def accept_install_def accept_end_def close_begin_def close_conn_def
      close_returns_def IsConnected_def tcp_count_def tcp_notify_def)

end
