(* ===== verification/Station_Wire.thy ===== *)
theory Station_Wire
  imports Channel_Tcp Station_System
begin

text \<open>
  Stations over TCP: a master and an outstation, each on a channel over a TCP channel. What a channel
  writes are the bytes on the connection; the reader of the other side cuts them into frames, which
  are the physical reads of that side's channel.
\<close>

text \<open>The frame that the read loop of a channel parses out of what a read returned.\<close>

definition read_frame :: "bytes \<Rightarrow> Frame option" where
  "read_frame d = (case Parse d of Inl _ \<Rightarrow> None | Inr (f, _) \<Rightarrow> Some f)"

lemma frames_read:
  "map (\<lambda>d. map_sum id fst (Parse d)) ds = map Inr fs \<Longrightarrow> map read_frame ds = map Some fs"
  by (auto simp: read_frame_def map_eq_conv list_eq_iff_nth_eq split: sum.split)

text \<open>
  C6: an integrity poll over TCP. Take a master with no response pending and an outstation at its
  remote address, on open channels over TCP channels whose readers are connected and between two
  frames. Let the outstation's binary inputs, analog inputs and counters be at most 256 per kind, not
  all without points, the static variation of the first point of each kind one the master can size,
  and the static data at most 2044 bytes. The bytes the master's channel writes for the poll make the
  reader of the outstation hand up frames; its channel reads these and writes a response; the bytes of
  this make the reader of the master hand up frames, and with these the poll succeeds and the
  application of the master is handed every binary input, analog input and counter point of the
  database once, in order, and nothing else, as in the poll without a wire. Points of the other kinds
  are not in the response.
\<close>

theorem integrity_poll_over_tcp:
  assumes "reading_from km qm" and "reading_from ko qo"
    and "channel_up cm" and "channel_up co" and "distinct (map fst r)"
    and "map_of r (seRemoteAddr (maSession m)) = Some s" and "maPendingResp m = None"
    and "pollable (ouDatabase s)" and "buildStaticData fo (ouDatabase s) \<noteq> []"
    and "length (buildStaticData fo (ouDatabase s)) \<le> 2044"
  shows "\<exists>request response requested responded frames qo' qm' s' co' m' cm' resp.
      chSent cm' = chSent cm @ request
    \<and> run tcp_step (stream_steps (concat request)) qo = Some qo' \<and> tcpHanded qo' = tcpHanded qo @ requested
    \<and> readLoop (outstation_ops fo iin) (map Some requested) r co
        = (set_session r (seRemoteAddr (maSession m)) s', co')
    \<and> chSent co' = chSent co @ response
    \<and> run tcp_step (stream_steps (concat response)) qm = Some qm' \<and> tcpHanded qm' = tcpHanded qm @ responded
    \<and> map read_frame responded = map Some frames
    \<and> performIntegrityScan fo (map Arrives frames) m cm = (Inr resp, m', [], cm')
    \<and> maCalls m' = maCalls m @ [OnReceiveIIN iin] @ map SOE
        (let info = \<lparr>riUnsolicited = False, riFIR = True, riFIN = True\<rparr>
         in OnBeginFragment info # static_calls fo (ouDatabase s) @ [OnEndFragment info])"
proof -
  obtain reqs resps s' co' m' cm' resp where
    poll: "readLoop (outstation_ops fo iin) (map (\<lambda>f. Some (frame_bytes f)) reqs) r co
        = (set_session r (seRemoteAddr (maSession m)) s', co')"
    "chSent co' = chSent co @ map frame_bytes resps"
    "performIntegrityScan fo (map Arrives resps) m cm = (Inr resp, m', [], cm')"
    "chSent cm' = chSent cm @ map frame_bytes reqs"
    "maCalls m' = maCalls m @ [OnReceiveIIN iin] @ map SOE
        (let info = \<lparr>riUnsolicited = False, riFIR = True, riFIN = True\<rparr>
         in OnBeginFragment info # static_calls fo (ouDatabase s) @ [OnEndFragment info])"
    and valid: "list_all frame_valid reqs" "list_all frame_valid resps"
    using integrity_poll_exchange [OF assms(3-10), of iin] by blast
  obtain qo' where out: "run tcp_step (stream_steps (concat (map frame_bytes reqs))) qo = Some qo'"
    "tcpHanded qo' = tcpHanded qo @ map frame_bytes reqs"
    using frames_over_tcp [OF assms(2) valid(1)] by blast
  obtain qm' where answered: "run tcp_step (stream_steps (concat (map frame_bytes resps))) qm = Some qm'"
    "tcpHanded qm' = tcpHanded qm @ map frame_bytes resps"
    "map read_frame (map frame_bytes resps) = map Some resps"
    using frames_over_tcp [OF assms(1) valid(2)] frames_read by blast
  have "readLoop (outstation_ops fo iin) (map Some (map frame_bytes reqs)) r co
      = (set_session r (seRemoteAddr (maSession m)) s', co')"
    using poll(1) by (simp add: comp_def)
  then show ?thesis using poll(2-5) out answered by blast
qed

text \<open>The poll of the sample stations, each on a connected client.\<close>

theorem integrity_poll_over_tcp_witness:
  "\<exists>request response requested responded frames qo' qm' s' co' m' cm' resp.
      chSent cm' = request
    \<and> run tcp_step (stream_steps (concat request)) (sample_tcp False) = Some qo'
    \<and> tcpHanded qo' = tcpHanded (sample_tcp False) @ requested
    \<and> readLoop (outstation_ops sample_floats \<lparr>iin1 = 0x80, iin2 = 0\<rparr>) (map Some requested)
          [(10, sample_outstation)] sample_channel = (set_session [(10, sample_outstation)] 10 s', co')
    \<and> chSent co' = response
    \<and> run tcp_step (stream_steps (concat response)) (sample_tcp False) = Some qm'
    \<and> tcpHanded qm' = tcpHanded (sample_tcp False) @ responded \<and> map read_frame responded = map Some frames
    \<and> performIntegrityScan sample_floats (map Arrives frames) sample_master sample_channel = (Inr resp, m', [], cm')
    \<and> maCalls m' = OnReceiveIIN \<lparr>iin1 = 0x80, iin2 = 0\<rparr> # map SOE
        (OnBeginFragment \<lparr>riUnsolicited = False, riFIR = True, riFIN = True\<rparr>
         # static_calls sample_floats (ouDatabase sample_outstation)
         @ [OnEndFragment \<lparr>riUnsolicited = False, riFIR = True, riFIN = True\<rparr>])"
proof -
  let ?db = "ouDatabase sample_outstation"
  have "pollable ?db"
    by (simp add: sample_outstation_def new_outstation_def NewDatabase_def pollable_def)
  moreover have static: "buildStaticData sample_floats ?db = [20, 1, 0, 0, 0, 0, 0, 0, 0, 0]" by code_simp
  moreover have "map_of [(10, sample_outstation)] (seRemoteAddr (maSession sample_master)) = Some sample_outstation"
    and "maPendingResp sample_master = None" and "channel_up sample_channel"
    and "chSent sample_channel = []" and "maCalls sample_master = []"
    and "seRemoteAddr (maSession sample_master) = 10"
    by (simp_all add: sample_channel_def sample_master_def plain_master_config_def new_master_def newSession_def
        channel_up_def NewChannel_def)
  ultimately show ?thesis
    using integrity_poll_over_tcp [OF sample_tcp_client sample_tcp_client, of sample_channel sample_channel
        "[(10, sample_outstation)]" sample_master sample_outstation sample_floats "\<lparr>iin1 = 0x80, iin2 = 0\<rparr>"]
    by (simp add: Let_def)
qed

end
