(* ===== verification/Late_Commands.thy ===== *)
theory Late_Commands
  imports Master_Station
begin

text \<open>
  Commands of the application that come too late (\<open>pkg/master/operations.go\<close>): a call of
  \<open>DirectOperate\<close> puts a task into the queue and waits for its result for the response timeout.
  When it gives up, the task stays in the queue.
\<close>

section \<open>The task that runs next\<close>

lemma PQ_Push_contents:
  assumes "pq_ok q"
  shows "pq_ok (PQ_Push q v p t)" "pq_contents (PQ_Push q v p t) = add_mset (v, p, t) (pq_contents q)"
  using task_queue.ok_insert [OF assms, of "(v, p, t)"] task_queue.elems_insert [OF assms, of "(v, p, t)"]
  by (simp_all add: push_entry_def)

text \<open>An entry that is due and before every other one is the one taken out.\<close>

lemma NextReady_first:
  assumes "pq_ok q" and "(v, p, t) \<in># pq_contents q" and "t \<le> now"
    and "\<And>x. x \<in># pq_contents q \<Longrightarrow> x = (v, p, t) \<or> t < snd (snd x) \<or> t = snd (snd x) \<and> fst (snd x) < p"
  shows "\<exists>q'. NextReady q now = (Some v, q') \<and> pq_ok q'"
proof -
  obtain r q' where q': "NextReady q now = (r, q')" by fastforce
  then have "pq_ok q' \<and> spec_op (pq_contents q) (QNextReady now) (Got r) (pq_contents q')"
    using queue_op_spec [OF assms(1), of "QNextReady now" "Got r" q'] by (simp add: queue_op_def)
  moreover have "\<exists>e\<in>#pq_contents q. due now e" using assms(2,3) by (intro bexI) (auto simp: due_def)
  ultimately obtain v' p' t' where ok: "pq_ok q'" and r: "r = Some v'"
    and e: "(v', p', t') \<in># pq_contents q" "runs_first (pq_contents q) (v', p', t')"
    by (simp add: spec_op_def takes_def) (metis union_single_eq_member)
  have "(v', p', t') = (v, p, t)"
    using assms(4) [OF e(1)] e(2) assms(2) by (fastforce simp: runs_first_def)
  then show ?thesis using q' r ok by simp
qed

section \<open>Properties\<close>

lemma Enable_sel:
  "maEnabled (Master_Enable now m)" "maSession (Master_Enable now m) = maSession m"
  "maSeqCounter (Master_Enable now m) = maSeqCounter m"
  "maTaskQueue (Master_Enable now m) = maTaskQueue m
    \<or> (\<exists>i. maTaskQueue (Master_Enable now m)
        = PQ_Push (maTaskQueue m) (IntegrityScanTask i PriorityNormal) PriorityNormal now)"
  by (auto simp: Master_Enable_def AddIntegrityScan_def add_scan_def push_task_def Task_Priority_def Let_def)

lemma DirectOperate_sel [simp]:
  "maTaskQueue (DirectOperate cmds ticket t m)
    = PQ_Push (maTaskQueue m) (CommandTask cmds False PriorityHigh ticket) PriorityHigh t"
  "maSession (DirectOperate cmds ticket t m) = maSession m"
  "maSeqCounter (DirectOperate cmds ticket t m) = maSeqCounter m"
  "maEnabled (DirectOperate cmds ticket t m) = maEnabled m"
  "maResults (DirectOperate cmds ticket t m) = maResults m"
  by (simp_all add: DirectOperate_def push_command_def push_task_def Task_Priority_def)

lemma processTasks_command:
  assumes "channel_up c" and "maEnabled m"
    and "NextReady (maTaskQueue m) now = (Some (CommandTask cmds False p ticket), q)"
  shows "\<exists>m' events' c'. processTasks fo now later events m c = (m', events', c')
    \<and> chSent c' = chSent c @ map frame_bytes (apdu_frames master_frame (maSession m)
        (fst (APDU_Serialize (BuildDirectOperateRequest (sqCurrent (maSeqCounter m)) (buildCROBObjects cmds)))))"
proof -
  let ?m = "call_app [OnTaskStart TaskTypeCommand] (m\<lparr>maTaskQueue := q\<rparr>)"
  obtain r m1 events1 c1 where
    req: "request_response fo (\<lambda>seq. BuildDirectOperateRequest seq (buildCROBObjects cmds)) events ?m c
      = (r, m1, events1, c1)" by (metis prod_cases4)
  then have "chSent c1 = chSent c @ map frame_bytes (apdu_frames master_frame (maSession m)
      (fst (APDU_Serialize (BuildDirectOperateRequest (sqCurrent (maSeqCounter m)) (buildCROBObjects cmds)))))"
    using request_up [OF assms(1), of fo "\<lambda>seq. BuildDirectOperateRequest seq (buildCROBObjects cmds)" events ?m]
    by (auto simp: call_app_def split_beta)
  moreover have "Task_Type (CommandTask cmds False p ticket) = TaskTypeCommand" by (simp add: Task_Type_def)
  ultimately show ?thesis
    using req assms(2,3)
    by (cases r) (auto simp: processTasks_def Execute_def performDirectOperate_def Let_def)
qed

text \<open>
  C27: a command that failed is carried out all the same. Let \<open>DirectOperate\<close> be called
  at a time at which no other task is due, on a master with an open channel that is disabled or whose
  task processor is busy, and let its wait time out. The caller is told of the timeout, and the state
  is as before: the task is still in the queue, which a disabled master does not look at. The first
  pass of the task processor after that, however much later, executes it: it writes the frames of the
  direct operate request with these commands, although the caller has been told that they failed.
\<close>

theorem timed_out_command_sent:
  assumes "channel_up c" and "pq_ok (maTaskQueue m)"
    and "\<forall>e\<in>#pq_contents (maTaskQueue m). t < snd (snd e)" and "t \<le> now"
  shows "\<exists>m' events' c'.
      command_outcome ticket CommandTimeout (DirectOperate cmds ticket t m)
        = (Inl ErrTimeout, DirectOperate cmds ticket t m)
    \<and> (\<not> maEnabled m \<longrightarrow> processTasks fo now0 later0 events0 (DirectOperate cmds ticket t m) c
        = (DirectOperate cmds ticket t m, events0, c))
    \<and> processTasks fo now later events (Master_Enable now (DirectOperate cmds ticket t m)) c = (m', events', c')
    \<and> chSent c' = chSent c @ map frame_bytes (apdu_frames master_frame (maSession m)
        (fst (APDU_Serialize (BuildDirectOperateRequest (sqCurrent (maSeqCounter m)) (buildCROBObjects cmds)))))"
proof -
  let ?m = "DirectOperate cmds ticket t m" and ?t = "CommandTask cmds False PriorityHigh ticket"
  let ?q = "maTaskQueue (Master_Enable now ?m)"
  note pushed = PQ_Push_contents [OF assms(2), of ?t PriorityHigh t]
  have "pq_ok ?q \<and> (?t, PriorityHigh, t) \<in># pq_contents ?q
    \<and> (\<forall>x\<in>#pq_contents ?q. x = (?t, PriorityHigh, t) \<or> t < snd (snd x)
        \<or> t = snd (snd x) \<and> fst (snd x) < PriorityHigh)"
    using Enable_sel(4) [of now ?m] assms(3,4) pushed
      PQ_Push_contents [OF pushed(1), of "IntegrityScanTask i PriorityNormal" PriorityNormal now for i]
    by (auto simp: PriorityHigh_def PriorityNormal_def)
  then obtain q' where "NextReady ?q now = (Some ?t, q')"
    using NextReady_first [of ?q ?t PriorityHigh t now] assms(4) by blast
  from processTasks_command [OF assms(1) Enable_sel(1) this, of fo later events]
  show ?thesis by (simp add: Enable_sel command_outcome_def processTasks_def split: option.split)
qed

text \<open>A latch-on of point 7, on a master that is disabled and enabled a minute later.\<close>

theorem timed_out_command_sent_witness:
  "let m = new_master (plain_master_config 1 10);
       c = (NewChannel [])\<lparr>chState := ChannelStateOpen\<rparr>;
       cmds = [\<lparr>cmIndex = 7, cmType = 0, cmData = CROBData
         \<lparr>tcOpType = 3, tcCount = 1, tcOnTimeMs = 0, tcOffTimeMs = 0, tcStatus = 0\<rparr>\<rparr>];
       m1 = DirectOperate cmds 1 0 m
   in \<exists>m' events' c'. command_outcome 1 CommandTimeout m1 = (Inl ErrTimeout, m1)
     \<and> processTasks sample_floats 30 30 [] m1 c = (m1, [], c)
     \<and> processTasks sample_floats 60 60 [] (Master_Enable 60 m1) c = (m', events', c')
     \<and> chSent c' = map frame_bytes (apdu_frames master_frame (maSession m)
         [0xC0, 5, 12, 1, 0, 7, 7, 3, 1, 0, 0, 0, 0, 0, 0, 0, 0, 0])"
proof -
  let ?m = "new_master (plain_master_config 1 10)" and ?c = "(NewChannel [])\<lparr>chState := ChannelStateOpen\<rparr>"
  let ?cmds = "[\<lparr>cmIndex = 7, cmType = 0, cmData = CROBData
    \<lparr>tcOpType = 3, tcCount = 1, tcOnTimeMs = 0, tcOffTimeMs = 0, tcStatus = 0\<rparr>\<rparr>]"
  have "channel_up ?c" "chSent ?c = []" by (simp_all add: channel_up_def NewChannel_def)
  moreover have "pq_ok (maTaskQueue ?m)" "pq_contents (maTaskQueue ?m) = {#}" "\<not> maEnabled ?m"
    using task_queue.ok_empty task_queue.elems_empty by (simp_all add: new_master_def)
  moreover have "fst (APDU_Serialize (BuildDirectOperateRequest (sqCurrent (maSeqCounter ?m)) (buildCROBObjects ?cmds)))
      = [0xC0, 5, 12, 1, 0, 7, 7, 3, 1, 0, 0, 0, 0, 0, 0, 0, 0, 0]"
    by code_simp
  ultimately show ?thesis
    using timed_out_command_sent [of ?c ?m 0 60 1 ?cmds sample_floats 30 30 "[]" 60 "[]"]
    unfolding Let_def by (simp del: DirectOperate_sel)
qed

end
