(* ===== verification/Outstation_Updates.thy ===== *)
theory Outstation_Updates
  imports Outstation_Station Requests
begin

text \<open>
  Updates of an outstation at the level of its goroutines (\<open>Apply\<close>, \<open>updateProcessor\<close>, \<open>Enable\<close>,
  \<open>Disable\<close>, \<open>Shutdown\<close> and \<open>unsolicitedProcessor\<close> of \<open>pkg/outstation/outstation.go\<close>): callers of
  \<open>Apply\<close> put requests into a bounded queue, the processors started by \<open>Enable\<close> take them out and
  answer them, and \<open>Shutdown\<close> cancels the context and waits for the processors. Every atomic action of
  a goroutine is a step.
\<close>

section \<open>State and steps\<close>

type_synonym updates = "(updateKey \<times> updateValue) list"

text \<open>
  A caller of \<open>Apply\<close> is at its select, waits for the answer, or has returned. An update processor is
  at its select, holds a request, or has ended. A call of \<open>Enable\<close> that has set the flag has its
  goroutines still to start; a call of \<open>Shutdown\<close> has disabled the outstation, waits, or has returned.
\<close>

datatype applier = Offering updates | Awaiting | Applied "apply_err option"

datatype processor = AtRest | Applying nat updates | Over

datatype enabler = UpdatesToStart | UnsolicitedToStart | Started

datatype closer = ToCancel | AwaitsGroup | ShutDown

text \<open>
  The station counts the running goroutines, the counter of \<open>wg\<close>, in \<open>ouProcessors\<close> and
  \<open>ouUnsolicited\<close>. A request is the number of its caller with the contents of its builder.
\<close>

record updating =
  upStation :: outstation
  upQueue :: "(nat \<times> updates) list"
  upAppliers :: "applier list"
  upProcessors :: "processor list"
  upEnablers :: "enabler list"
  upClosers :: "closer list"

definition updateChan_cap :: nat where "updateChan_cap = 100"

definition new_updating :: "outstation \<Rightarrow> updating" where
  "new_updating st = \<lparr>upStation = st, upQueue = [], upAppliers = [], upProcessors = [], upEnablers = [], upClosers = []\<rparr>"

datatype update_step =
    ApplyCall updates
  | ApplyQueue nat
  | ApplyTimeout nat
  | ApplyDone nat
  | TakeUpdate nat
  | FinishUpdate nat
  | StopUpdates nat
  | EnableCall
  | StartUpdates nat
  | StartUnsolicited nat
  | UnsolicitedTick
  | UnsolicitedStop
  | DisableCall
  | ShutdownCall
  | ShutdownCancel nat
  | ShutdownWait nat

definition at :: "'a list \<Rightarrow> nat \<Rightarrow> 'a option" where
  "at xs i = (if i < length xs then Some (xs ! i) else None)"

definition on_station :: "(outstation \<Rightarrow> outstation) \<Rightarrow> updating \<Rightarrow> updating" where
  "on_station f q = q\<lparr>upStation := f (upStation q)\<rparr>"

definition set_applier :: "nat \<Rightarrow> applier \<Rightarrow> updating \<Rightarrow> updating" where
  "set_applier i a q = q\<lparr>upAppliers := (upAppliers q)[i := a]\<rparr>"

definition set_processor :: "nat \<Rightarrow> processor \<Rightarrow> updating \<Rightarrow> updating" where
  "set_processor p a q = q\<lparr>upProcessors := (upProcessors q)[p := a]\<rparr>"

text \<open>
  \<open>Apply\<close> up to its select, and the three cases of the select. What is queued is a new builder and
  not the updates of the caller.
\<close>

definition apply_call :: "updates \<Rightarrow> updating \<Rightarrow> updating" where
  "apply_call updates q =
     q\<lparr>upAppliers := upAppliers q @ [if \<not> ouEnabled (upStation q) then Applied (Some ErrOutstationDisabled)
                                     else Offering updates]\<rparr>"

definition apply_queue :: "nat \<Rightarrow> updating \<Rightarrow> updating option" where
  "apply_queue i q =
     (case at (upAppliers q) i of
        Some (Offering updates) \<Rightarrow>
          if length (upQueue q) < updateChan_cap
          then let builder = [] in Some (set_applier i Awaiting (q\<lparr>upQueue := upQueue q @ [(i, builder)]\<rparr>))
          else None
      | _ \<Rightarrow> None)"

definition apply_timeout :: "nat \<Rightarrow> updating \<Rightarrow> updating option" where
  "apply_timeout i q =
     (case at (upAppliers q) i of
        Some (Offering updates) \<Rightarrow> Some (set_applier i (Applied (Some UpdateQueueFull)) q)
      | _ \<Rightarrow> None)"

definition apply_done :: "nat \<Rightarrow> updating \<Rightarrow> updating option" where
  "apply_done i q =
     (case at (upAppliers q) i of
        Some (Offering updates) \<Rightarrow>
          if ouCancelled (upStation q) then Some (set_applier i (Applied (Some OutstationCancelled)) q) else None
      | _ \<Rightarrow> None)"

text \<open>
  The update processor. When the context is cancelled and requests are queued both cases of its select
  are ready. The answer channel has room for the one answer. The step is not possible when an event
  buffer panics, which ends the program.
\<close>

definition take_update :: "nat \<Rightarrow> updating \<Rightarrow> updating option" where
  "take_update p q =
     (case (at (upProcessors q) p, upQueue q) of
        (Some AtRest, (i, us) # rest) \<Rightarrow> Some (set_processor p (Applying i us) (q\<lparr>upQueue := rest\<rparr>))
      | _ \<Rightarrow> None)"

definition finish_update ::
  "(float64 \<Rightarrow> float64 \<Rightarrow> float64 \<Rightarrow> bool) \<Rightarrow> nat \<Rightarrow> updating \<Rightarrow> updating option" where
  "finish_update apart p q =
     (case at (upProcessors q) p of
        Some (Applying i us) \<Rightarrow>
          (case applyUpdates apart us (ouDatabase (upStation q)) of
             None \<Rightarrow> None
           | Some db \<Rightarrow> Some (set_processor p AtRest (set_applier i (Applied None)
               (on_station (\<lambda>s. s\<lparr>ouDatabase := db\<rparr>) q))))
      | _ \<Rightarrow> None)"

definition stop_updates :: "nat \<Rightarrow> updating \<Rightarrow> updating option" where
  "stop_updates p q =
     (if at (upProcessors q) p = Some AtRest \<and> ouCancelled (upStation q)
      then Some (set_processor p Over (on_station (\<lambda>s. s\<lparr>ouProcessors := ouProcessors s - 1\<rparr>) q))
      else None)"

text \<open>\<open>Enable\<close> sets the flag under the lock and starts its goroutines after it.\<close>

definition enable_call :: "updating \<Rightarrow> updating" where
  "enable_call q =
     (if ouEnabled (upStation q) then q
      else (on_station (\<lambda>s. s\<lparr>ouEnabled := True\<rparr>) q)\<lparr>upEnablers := upEnablers q @ [UpdatesToStart]\<rparr>)"

definition start_updates :: "nat \<Rightarrow> updating \<Rightarrow> updating option" where
  "start_updates k q =
     (if at (upEnablers q) k = Some UpdatesToStart
      then Some ((on_station (\<lambda>s. s\<lparr>ouProcessors := ouProcessors s + 1\<rparr>) q)
             \<lparr>upProcessors := upProcessors q @ [AtRest], upEnablers := (upEnablers q)[k := UnsolicitedToStart]\<rparr>)
      else None)"

definition start_unsolicited :: "nat \<Rightarrow> updating \<Rightarrow> updating option" where
  "start_unsolicited k q =
     (if at (upEnablers q) k = Some UnsolicitedToStart
      then Some ((on_station (\<lambda>s. if ocAllowUnsolicited (ouConfig s)
                                   then s\<lparr>ouUnsolicited := ouUnsolicited s + 1\<rparr> else s) q)
             \<lparr>upEnablers := (upEnablers q)[k := Started]\<rparr>)
      else None)"

text \<open>On a tick \<open>sendUnsolicitedResponse\<close> logs that it would send.\<close>

definition sendUnsolicitedResponse :: "outstation \<Rightarrow> outstation" where
  "sendUnsolicitedResponse s = s"

definition unsolicited_tick :: "updating \<Rightarrow> updating option" where
  "unsolicited_tick q =
     (if ouUnsolicited (upStation q) = 0 then None
      else if HasEvents (dbEventBuffer (ouDatabase (upStation q)))
      then Some (on_station sendUnsolicitedResponse q) else Some q)"

definition unsolicited_stop :: "updating \<Rightarrow> updating option" where
  "unsolicited_stop q =
     (if ouUnsolicited (upStation q) = 0 \<or> \<not> ouCancelled (upStation q) then None
      else Some (on_station (\<lambda>s. s\<lparr>ouUnsolicited := ouUnsolicited s - 1\<rparr>) q))"

definition shutdown_call :: "updating \<Rightarrow> updating" where
  "shutdown_call q = (on_station Outstation_Disable q)\<lparr>upClosers := upClosers q @ [ToCancel]\<rparr>"

definition shutdown_cancel :: "nat \<Rightarrow> updating \<Rightarrow> updating option" where
  "shutdown_cancel j q =
     (if at (upClosers q) j = Some ToCancel
      then Some ((on_station (\<lambda>s. s\<lparr>ouCancelled := True\<rparr>) q)\<lparr>upClosers := (upClosers q)[j := AwaitsGroup]\<rparr>)
      else None)"

definition shutdown_wait :: "nat \<Rightarrow> updating \<Rightarrow> updating option" where
  "shutdown_wait j q =
     (if at (upClosers q) j = Some AwaitsGroup \<and> ouProcessors (upStation q) = 0 \<and> ouUnsolicited (upStation q) = 0
      then Some (q\<lparr>upClosers := (upClosers q)[j := ShutDown]\<rparr>)
      else None)"

definition up_step ::
  "(float64 \<Rightarrow> float64 \<Rightarrow> float64 \<Rightarrow> bool) \<Rightarrow> update_step \<Rightarrow> updating \<Rightarrow> updating option" where
  "up_step apart step q =
     (case step of
        ApplyCall updates \<Rightarrow> Some (apply_call updates q)
      | ApplyQueue i \<Rightarrow> apply_queue i q
      | ApplyTimeout i \<Rightarrow> apply_timeout i q
      | ApplyDone i \<Rightarrow> apply_done i q
      | TakeUpdate p \<Rightarrow> take_update p q
      | FinishUpdate p \<Rightarrow> finish_update apart p q
      | StopUpdates p \<Rightarrow> stop_updates p q
      | EnableCall \<Rightarrow> Some (enable_call q)
      | StartUpdates k \<Rightarrow> start_updates k q
      | StartUnsolicited k \<Rightarrow> start_unsolicited k q
      | UnsolicitedTick \<Rightarrow> unsolicited_tick q
      | UnsolicitedStop \<Rightarrow> unsolicited_stop q
      | DisableCall \<Rightarrow> Some (on_station Outstation_Disable q)
      | ShutdownCall \<Rightarrow> Some (shutdown_call q)
      | ShutdownCancel j \<Rightarrow> shutdown_cancel j q
      | ShutdownWait j \<Rightarrow> shutdown_wait j q)"

section \<open>The requests are accounted for\<close>

lemma at_update [simp]: "at (xs[i := x]) j = (if j = i \<and> i < length xs then Some x else at xs j)"
  by (auto simp: at_def)

lemma at_append [simp]: "at (xs @ [x]) j = (if j = length xs then Some x else at xs j)"
  by (auto simp: at_def nth_append)

lemma at_length: "at xs i = Some x \<Longrightarrow> i < length xs"
  by (simp add: at_def split: if_splits)

lemma at_set: "x \<in> set xs \<Longrightarrow> \<exists>i. at xs i = Some x"
  unfolding in_set_conv_nth at_def by auto

lemma at_new [simp]: "at xs (length xs) = None" "at [] i = None"
  by (simp_all add: at_def)

definition queued :: "updating \<Rightarrow> nat list" where
  "queued q = map fst (upQueue q)"

definition applied_by :: "updating \<Rightarrow> nat \<Rightarrow> nat option" where
  "applied_by q p = (case at (upProcessors q) p of Some (Applying i _) \<Rightarrow> Some i | _ \<Rightarrow> None)"

definition awaiting :: "updating \<Rightarrow> nat \<Rightarrow> bool" where
  "awaiting q i \<longleftrightarrow> at (upAppliers q) i = Some Awaiting"

definition processor_of :: "update_step \<Rightarrow> nat option" where
  "processor_of step =
     (case step of TakeUpdate p \<Rightarrow> Some p | FinishUpdate p \<Rightarrow> Some p | StopUpdates p \<Rightarrow> Some p | _ \<Rightarrow> None)"

definition update_move :: "update_step \<Rightarrow> updating \<Rightarrow> request_move" where
  "update_move step q =
     (case step of
        ApplyQueue i \<Rightarrow> Join i
      | TakeUpdate p \<Rightarrow> Start p (hd (queued q))
      | FinishUpdate p \<Rightarrow> Answer p (the (applied_by q p))
      | _ \<Rightarrow> Keep)"

text \<open>No builder that is queued or applied has an entry.\<close>

definition builders_empty :: "updating \<Rightarrow> bool" where
  "builders_empty q \<longleftrightarrow> (\<forall>r\<in>set (upQueue q). snd r = [])
     \<and> (\<forall>p i us. at (upProcessors q) p = Some (Applying i us) \<longrightarrow> us = [])"

definition processor_lives :: "updating \<Rightarrow> nat \<Rightarrow> bool" where
  "processor_lives q p \<longleftrightarrow> (\<exists>c. at (upProcessors q) p = Some c \<and> c \<noteq> Over)"

definition processor_rank :: "updating \<Rightarrow> nat \<Rightarrow> nat" where
  "processor_rank q p = (case at (upProcessors q) p of Some (Applying _ _) \<Rightarrow> 1 | _ \<Rightarrow> 0)"

lemma up_fields [simp]:
  "upStation (set_applier i a q) = upStation q" "upQueue (set_applier i a q) = upQueue q"
  "upProcessors (set_applier i a q) = upProcessors q" "upEnablers (set_applier i a q) = upEnablers q"
  "upClosers (set_applier i a q) = upClosers q" "upAppliers (set_applier i a q) = (upAppliers q)[i := a]"
  "upStation (set_processor i c q) = upStation q" "upQueue (set_processor i c q) = upQueue q"
  "upAppliers (set_processor i c q) = upAppliers q" "upEnablers (set_processor i c q) = upEnablers q"
  "upClosers (set_processor i c q) = upClosers q" "upProcessors (set_processor i c q) = (upProcessors q)[i := c]"
  "upStation (on_station f q) = f (upStation q)" "upQueue (on_station f q) = upQueue q"
  "upAppliers (on_station f q) = upAppliers q" "upEnablers (on_station f q) = upEnablers q"
  "upClosers (on_station f q) = upClosers q" "upProcessors (on_station f q) = upProcessors q"
  by (simp_all add: set_applier_def set_processor_def on_station_def)

lemmas up_step_defs = up_step_def apply_call_def apply_queue_def apply_timeout_def apply_done_def take_update_def
  finish_update_def stop_updates_def enable_call_def start_updates_def start_unsolicited_def unsolicited_tick_def
  unsolicited_stop_def shutdown_call_def shutdown_cancel_def shutdown_wait_def

lemma update_view:
  "queued q = map fst (upQueue q)"
  "applied_by q = (\<lambda>p. case at (upProcessors q) p of Some (Applying i _) \<Rightarrow> Some i | _ \<Rightarrow> None)"
  "awaiting q = (\<lambda>i. at (upAppliers q) i = Some Awaiting)"
  by (simp_all add: queued_def applied_by_def awaiting_def fun_eq_iff)

text \<open>What a step of a kind has found and made of the state.\<close>

lemma up_stepE:
  assumes "up_step apart step q = Some q'"
  obtains
    (call) us where "step = ApplyCall us" "q' = apply_call us q"
  | (queue) i us where "step = ApplyQueue i" "at (upAppliers q) i = Some (Offering us)" "length (upQueue q) < updateChan_cap"
      "q' = set_applier i Awaiting (q\<lparr>upQueue := upQueue q @ [(i, [])]\<rparr>)"
  | (gives_up) i us e where "step = ApplyTimeout i \<or> step = ApplyDone i" "at (upAppliers q) i = Some (Offering us)"
      "q' = set_applier i (Applied (Some e)) q"
  | (takes) p i us rest where "step = TakeUpdate p" "at (upProcessors q) p = Some AtRest"
      "upQueue q = (i, us) # rest" "q' = set_processor p (Applying i us) (q\<lparr>upQueue := rest\<rparr>)"
  | (finishes) p i us db where "step = FinishUpdate p" "at (upProcessors q) p = Some (Applying i us)"
      "applyUpdates apart us (ouDatabase (upStation q)) = Some db"
      "q' = set_processor p AtRest (set_applier i (Applied None) (on_station (\<lambda>s. s\<lparr>ouDatabase := db\<rparr>) q))"
  | (stops) p where "step = StopUpdates p" "at (upProcessors q) p = Some AtRest" "ouCancelled (upStation q)"
      "q' = set_processor p Over (on_station (\<lambda>s. s\<lparr>ouProcessors := ouProcessors s - 1\<rparr>) q)"
  | (starts) k where "step = StartUpdates k" "at (upEnablers q) k = Some UpdatesToStart"
      "q' = (on_station (\<lambda>s. s\<lparr>ouProcessors := ouProcessors s + 1\<rparr>) q)
             \<lparr>upProcessors := upProcessors q @ [AtRest], upEnablers := (upEnablers q)[k := UnsolicitedToStart]\<rparr>"
  | (quiet) f es cs where "processor_of step = None" "update_move step q = Keep"
      "q' = (on_station f q)\<lparr>upEnablers := es, upClosers := cs\<rparr>" "\<And>s. ouDatabase (f s) = ouDatabase s"
proof (cases step)
  case (ApplyCall us)
  then show ?thesis using assms call by (simp add: up_step_def)
next
  case (ApplyQueue i)
  then show ?thesis using assms queue by (auto simp: up_step_def apply_queue_def split: option.splits applier.splits if_splits)
next
  case (ApplyTimeout i)
  then show ?thesis using assms gives_up by (auto simp: up_step_def apply_timeout_def split: option.splits applier.splits if_splits)
next
  case (ApplyDone i)
  then show ?thesis using assms gives_up by (auto simp: up_step_def apply_done_def split: option.splits applier.splits if_splits)
next
  case (TakeUpdate p)
  then show ?thesis using assms takes
    by (auto simp: up_step_def take_update_def split: option.splits processor.splits list.splits)
next
  case (FinishUpdate p)
  then show ?thesis using assms finishes
    by (auto simp: up_step_def finish_update_def split: option.splits processor.splits)
next
  case (StopUpdates p)
  then show ?thesis using assms stops by (auto simp: up_step_def stop_updates_def split: if_splits)
next
  case (StartUpdates k)
  then show ?thesis using assms starts by (auto simp: up_step_def start_updates_def split: if_splits)
next
  case EnableCall
  then show ?thesis using assms
    by (intro quiet [where f = "\<lambda>s. if ouEnabled s then s else s\<lparr>ouEnabled := True\<rparr>" and es = "if ouEnabled (upStation q) then upEnablers q else upEnablers q @ [UpdatesToStart]" and cs = "upClosers q"])
      (auto simp: up_step_def enable_call_def on_station_def processor_of_def update_move_def)
next
  case (StartUnsolicited k)
  then show ?thesis using assms
    by (intro quiet [where f = "\<lambda>s. if ocAllowUnsolicited (ouConfig s) then s\<lparr>ouUnsolicited := ouUnsolicited s + 1\<rparr> else s" and es = "(upEnablers q)[k := Started]" and cs = "upClosers q"])
      (auto simp: up_step_def start_unsolicited_def on_station_def processor_of_def update_move_def split: if_splits)
next
  case UnsolicitedTick
  then show ?thesis using assms
    by (intro quiet [where f = "\<lambda>s. s" and es = "upEnablers q" and cs = "upClosers q"])
      (auto simp: up_step_def unsolicited_tick_def sendUnsolicitedResponse_def on_station_def processor_of_def
        update_move_def split: if_splits)
next
  case UnsolicitedStop
  then show ?thesis using assms
    by (intro quiet [where f = "\<lambda>s. s\<lparr>ouUnsolicited := ouUnsolicited s - 1\<rparr>" and es = "upEnablers q" and cs = "upClosers q"])
      (auto simp: up_step_def unsolicited_stop_def on_station_def processor_of_def update_move_def split: if_splits)
next
  case DisableCall
  then show ?thesis using assms
    by (intro quiet [where f = Outstation_Disable and es = "upEnablers q" and cs = "upClosers q"])
      (auto simp: up_step_def on_station_def processor_of_def update_move_def Outstation_Disable_def)
next
  case ShutdownCall
  then show ?thesis using assms
    by (intro quiet [where f = Outstation_Disable and es = "upEnablers q" and cs = "upClosers q @ [ToCancel]"])
      (auto simp: up_step_def shutdown_call_def on_station_def processor_of_def update_move_def Outstation_Disable_def)
next
  case (ShutdownCancel j)
  then show ?thesis using assms
    by (intro quiet [where f = "\<lambda>s. s\<lparr>ouCancelled := True\<rparr>" and es = "upEnablers q" and cs = "(upClosers q)[j := AwaitsGroup]"])
      (auto simp: up_step_def shutdown_cancel_def on_station_def processor_of_def update_move_def split: if_splits)
next
  case (ShutdownWait j)
  then show ?thesis using assms
    by (intro quiet [where f = "\<lambda>s. s" and es = "upEnablers q" and cs = "(upClosers q)[j := ShutDown]"])
      (auto simp: up_step_def shutdown_wait_def on_station_def processor_of_def update_move_def split: if_splits)
qed

lemma update_moved:
  assumes "up_step apart step q = Some q'"
  shows "move_allowed updateChan_cap (update_move step q) (queued q, applied_by q, awaiting q)
    (queued q', applied_by q', awaiting q')"
  using assms
proof (cases rule: up_stepE)
  case (call us)
  then show ?thesis by (auto simp: update_move_def update_view apply_call_def fun_eq_iff)
next
  case (queue i us)
  then show ?thesis by (auto simp: update_move_def update_view fun_eq_iff dest: at_length)
next
  case (gives_up i us e)
  then show ?thesis by (auto simp: update_move_def update_view fun_eq_iff)
next
  case (takes p i us rest)
  then show ?thesis by (auto simp: update_move_def update_view fun_eq_iff dest: at_length)
next
  case (finishes p i us db)
  then show ?thesis by (auto simp: update_move_def update_view fun_eq_iff at_def dest: at_length)
next
  case (stops p)
  then show ?thesis by (auto simp: update_move_def update_view fun_eq_iff dest: at_length)
next
  case (starts k)
  then show ?thesis by (auto simp: update_move_def update_view fun_eq_iff)
next
  case (quiet f es cs)
  then show ?thesis by (auto simp: update_view fun_eq_iff)
qed

lemma builders_empty_step:
  assumes "up_step apart step q = Some q'" and "builders_empty q"
  shows "builders_empty q'"
  using assms(1)
  by (cases rule: up_stepE) (use assms(2) in \<open>auto simp: builders_empty_def apply_call_def split: if_splits\<close>)

lemma applying_empty: "builders_empty q \<Longrightarrow> at (upProcessors q) p = Some (Applying i us) \<Longrightarrow> us = []"
  by (auto simp: builders_empty_def)

lemma other_processor:
  assumes "up_step apart step q = Some q'" and "processor_of step \<noteq> Some p" and "at (upProcessors q) p = Some c"
  shows "at (upProcessors q') p = Some c"
  using assms(1)
proof (cases rule: up_stepE)
  case (starts k)
  then show ?thesis using at_length [OF assms(3)] assms(3) by simp
qed (use assms(2,3) in \<open>auto simp: apply_call_def processor_of_def\<close>)

interpretation updates: request_queue "up_step apart" updateChan_cap queued applied_by awaiting update_move processor_of
    builders_empty processor_lives "\<lambda>q. ouCancelled (upStation q)" processor_rank for apart
proof unfold_locales
  fix step q q' p i
  assume step: "up_step apart step q = Some q'"
  show "move_allowed updateChan_cap (update_move step q) (queued q, applied_by q, awaiting q)
      (queued q', applied_by q', awaiting q')" by (rule update_moved [OF step])
  show "builders_empty q \<Longrightarrow> builders_empty q'" by (rule builders_empty_step [OF step])
  show "processor_of step = Some p" if "update_move step q = Start p i \<or> update_move step q = Answer p i
      \<or> update_move step q = Refuse p i"
    using that by (cases step) (auto simp: update_move_def processor_of_def)
  show "processor_lives q' p \<and> processor_rank q' p \<le> processor_rank q p"
    if "processor_of step \<noteq> Some p" "processor_lives q p"
    using other_processor [OF step that(1)] that(2) by (auto simp: processor_lives_def processor_rank_def)
  show "processor_lives q' p \<and> ((\<exists>i. update_move step q = Start p i \<or> update_move step q = Refuse p i)
      \<or> processor_rank q' p < processor_rank q p)"
    if "processor_of step = Some p" "\<not> ouCancelled (upStation q')"
    using step
  proof (cases rule: up_stepE)
    case (takes p' i us rest)
    then show ?thesis using that at_length [OF takes(2)]
      by (auto simp: processor_of_def update_move_def processor_lives_def)
  next
    case (finishes p' i us db)
    then show ?thesis using that at_length [OF finishes(2)]
      by (auto simp: processor_of_def processor_lives_def processor_rank_def)
  qed (use that in \<open>auto simp: processor_of_def\<close>)
  show "update_move step q = Answer p i" if "applied_by q p = Some i" "processor_of step = Some p"
    using step
  proof (cases rule: up_stepE)
    case (finishes p' j us db)
    then show ?thesis using that by (auto simp: processor_of_def update_move_def applied_by_def)
  qed (use that in \<open>auto simp: processor_of_def applied_by_def\<close>)
next
  fix q p
  show "processor_rank q p \<le> 2" by (auto simp: processor_rank_def split: option.split processor.split)
next
  fix q p i
  assume ok: "builders_empty q" and "applied_by q p = Some i"
  then obtain us where c: "at (upProcessors q) p = Some (Applying i us)"
    by (auto simp: applied_by_def split: option.splits processor.splits)
  then show "\<exists>step. processor_of step = Some p \<and> up_step apart step q \<noteq> None"
    using applying_empty [OF ok c]
    by (intro exI [of _ "FinishUpdate p"]) (simp add: processor_of_def up_step_def finish_update_def)
next
  fix q p
  assume ok: "builders_empty q" and alive: "processor_lives q p" and queue: "queued q \<noteq> []"
  then obtain c where c: "at (upProcessors q) p = Some c" "c \<noteq> Over" by (auto simp: processor_lives_def)
  show "\<exists>step. processor_of step = Some p \<and> up_step apart step q \<noteq> None"
  proof (cases c)
    case AtRest
    then show ?thesis using c queue
      by (intro exI [of _ "TakeUpdate p"])
        (auto simp: processor_of_def up_step_def take_update_def queued_def split: list.split)
  next
    case (Applying i us)
    then show ?thesis using c applying_empty [OF ok, of p i us]
      by (intro exI [of _ "FinishUpdate p"]) (simp add: processor_of_def up_step_def finish_update_def)
  qed (use c in simp)
qed

section \<open>Updates are lost\<close>

lemma database_kept:
  assumes "up_step apart step q = Some q'" and "builders_empty q"
  shows "ouDatabase (upStation q') = ouDatabase (upStation q)"
  using assms(1)
proof (cases rule: up_stepE)
  case (finishes p i us db)
  have "us = []" by (rule applying_empty [OF assms(2) finishes(2)])
  then show ?thesis using finishes by simp
qed (simp_all add: apply_call_def)

lemma awaiting_left:
  assumes "up_step apart step q = Some q'" and "at (upAppliers q) i = Some Awaiting"
  shows "at (upAppliers q') i = Some Awaiting \<or> at (upAppliers q') i = Some (Applied None)"
  using assms(1) by (cases rule: up_stepE) (use assms(2) at_length [OF assms(2)] in \<open>auto simp: apply_call_def\<close>)

lemma applied_kept:
  assumes "up_step apart step q = Some q'" and "at (upAppliers q) i = Some (Applied None)"
  shows "at (upAppliers q') i = Some (Applied None)"
  using assms(1) by (cases rule: up_stepE) (use assms(2) at_length [OF assms(2)] in \<open>auto simp: apply_call_def\<close>)

section \<open>Shutting down\<close>

fun applier_load :: "applier \<Rightarrow> nat" where
  "applier_load (Offering us) = 4"
| "applier_load Awaiting = 0"
| "applier_load (Applied r) = 0"

fun processor_load :: "processor \<Rightarrow> nat" where
  "processor_load AtRest = 1"
| "processor_load (Applying i us) = 2"
| "processor_load Over = 0"

fun enabler_load :: "enabler \<Rightarrow> nat" where
  "enabler_load UpdatesToStart = 4"
| "enabler_load UnsolicitedToStart = 2"
| "enabler_load Started = 0"

text \<open>What the goroutines of a cancelled outstation have still to do.\<close>

definition closing_load :: "updating \<Rightarrow> nat" where
  "closing_load q = sum_list (map applier_load (upAppliers q)) + 3 * length (upQueue q)
     + sum_list (map processor_load (upProcessors q)) + sum_list (map enabler_load (upEnablers q))
     + ouUnsolicited (upStation q)"

lemma sum_list_at:
  fixes f :: "'a \<Rightarrow> nat"
  assumes "at xs i = Some x"
  shows "sum_list (map f (xs[i := y])) + f x = sum_list (map f xs) + f y"
  using sum_list_replace [of i xs f y] assms by (auto simp: at_def split: if_splits)

definition live :: "processor \<Rightarrow> nat" where
  "live c = (if c = Over then 0 else 1)"

definition processors_counted :: "updating \<Rightarrow> bool" where
  "processors_counted q \<longleftrightarrow> ouProcessors (upStation q) = sum_list (map live (upProcessors q))"

lemma live_simps [simp]: "live AtRest = 1" "live (Applying i us) = 1" "live Over = 0"
  by (simp_all add: live_def)

lemma processors_counted_step:
  assumes "up_step apart step q = Some q'" and "processors_counted q"
  shows "processors_counted q'"
proof (cases "processor_of step = None")
  case True
  then show ?thesis using assms
    by (cases step) (auto simp: up_step_defs processors_counted_def processor_of_def sendUnsolicitedResponse_def
        Outstation_Disable_def split: option.splits applier.splits if_splits)
next
  case False
  show ?thesis
    using assms(1)
  proof (cases rule: up_stepE)
    case (takes p i us rest)
    then show ?thesis using assms(2) sum_list_at [OF takes(2), of live "Applying i us"]
      by (simp add: processors_counted_def)
  next
    case (finishes p i us db)
    then show ?thesis using assms(2) sum_list_at [OF finishes(2), of live AtRest]
      by (simp add: processors_counted_def)
  next
    case (stops p)
    then show ?thesis using assms(2) sum_list_at [OF stops(2), of live Over]
      by (simp add: processors_counted_def)
  qed (use False in \<open>auto simp: processor_of_def\<close>)
qed

text \<open>The steps that \<open>Shutdown\<close> waits for, and its own last one.\<close>

definition shutdown_works :: "nat \<Rightarrow> update_step \<Rightarrow> bool" where
  "shutdown_works j step \<longleftrightarrow> processor_of step \<noteq> None \<or> step = UnsolicitedStop \<or> step = ShutdownWait j"

lemma closing_step:
  assumes "up_step apart step q = Some q'" and "ouCancelled (upStation q)" and "\<not> ouEnabled (upStation q)"
  shows "ouCancelled (upStation q') \<and> (ouEnabled (upStation q') \<or> (closing_load q' \<le> closing_load q
    \<and> (shutdown_works j step \<longrightarrow> closing_load q' < closing_load q \<or> at (upClosers q') j = Some ShutDown)))"
proof (cases "processor_of step = None")
  case False
  show ?thesis
    using assms(1)
  proof (cases rule: up_stepE)
    case (takes p i us rest)
    then show ?thesis using assms(2) sum_list_at [OF takes(2), of processor_load "Applying i us"]
      by (simp add: closing_load_def)
  next
    case (finishes p i us db)
    have "sum_list (map applier_load ((upAppliers q)[i := Applied None])) \<le> sum_list (map applier_load (upAppliers q))"
      using sum_list_at [of "upAppliers q" i _ applier_load "Applied None"]
      by (cases "at (upAppliers q) i") (auto simp: at_def list_update_beyond split: if_splits)
    then show ?thesis using finishes assms(2) sum_list_at [OF finishes(2), of processor_load AtRest]
      by (simp add: closing_load_def)
  next
    case (stops p)
    then show ?thesis using assms(2) sum_list_at [OF stops(2), of processor_load Over]
      by (simp add: closing_load_def)
  qed (use False in \<open>auto simp: processor_of_def\<close>)
next
  case True
  show ?thesis
  proof (cases step)
    case (ApplyQueue i)
    then obtain us where c: "at (upAppliers q) i = Some (Offering us)"
      and q': "q' = set_applier i Awaiting (q\<lparr>upQueue := upQueue q @ [(i, [])]\<rparr>)"
      using assms(1) by (auto simp: up_step_def apply_queue_def split: option.splits applier.splits if_splits)
    then show ?thesis using sum_list_at [OF c, of applier_load Awaiting] assms(2) ApplyQueue
      by (simp add: closing_load_def shutdown_works_def processor_of_def)
  next
    case (ApplyTimeout i)
    then obtain us where c: "at (upAppliers q) i = Some (Offering us)"
      and q': "q' = set_applier i (Applied (Some UpdateQueueFull)) q"
      using assms(1) by (auto simp: up_step_def apply_timeout_def split: option.splits applier.splits if_splits)
    then show ?thesis using sum_list_at [OF c, of applier_load "Applied (Some UpdateQueueFull)"] assms(2) ApplyTimeout
      by (simp add: closing_load_def shutdown_works_def processor_of_def)
  next
    case (ApplyDone i)
    then obtain us where c: "at (upAppliers q) i = Some (Offering us)"
      and q': "q' = set_applier i (Applied (Some OutstationCancelled)) q"
      using assms(1) by (auto simp: up_step_def apply_done_def split: option.splits applier.splits if_splits)
    then show ?thesis using sum_list_at [OF c, of applier_load "Applied (Some OutstationCancelled)"] assms(2) ApplyDone
      by (simp add: closing_load_def shutdown_works_def processor_of_def)
  next
    case (StartUpdates k)
    then have c: "at (upEnablers q) k = Some UpdatesToStart"
      using assms(1) by (auto simp: up_step_def start_updates_def split: if_splits)
    then show ?thesis using sum_list_at [OF c, of enabler_load UnsolicitedToStart] assms StartUpdates
      by (auto simp: up_step_def start_updates_def closing_load_def shutdown_works_def processor_of_def)
  next
    case (StartUnsolicited k)
    then have c: "at (upEnablers q) k = Some UnsolicitedToStart"
      using assms(1) by (auto simp: up_step_def start_unsolicited_def split: if_splits)
    then show ?thesis using sum_list_at [OF c, of enabler_load Started] assms StartUnsolicited
      by (auto simp: up_step_def start_unsolicited_def closing_load_def shutdown_works_def processor_of_def
          split: if_splits)
  next
    case (ShutdownWait k)
    then have c: "at (upClosers q) k = Some AwaitsGroup" "q' = q\<lparr>upClosers := (upClosers q)[k := ShutDown]\<rparr>"
      using assms(1) by (auto simp: up_step_def shutdown_wait_def split: if_splits)
    then show ?thesis using at_length [OF c(1)] assms ShutdownWait
      by (auto simp: closing_load_def shutdown_works_def processor_of_def)
  qed (use True assms in \<open>auto simp: up_step_defs closing_load_def processor_of_def shutdown_works_def
      sendUnsolicitedResponse_def Outstation_Disable_def split: if_splits\<close>)
qed

lemma closer_kept:
  assumes "up_step apart step q = Some q'" and "at (upClosers q) j = Some AwaitsGroup" and "step \<noteq> ShutdownWait j"
  shows "at (upClosers q') j = Some AwaitsGroup"
  using assms at_length [OF assms(2)]
  by (cases step)
    (auto simp: up_step_defs split: option.splits applier.splits processor.splits list.splits if_splits)

lemma shutdown_possible:
  assumes "builders_empty q" and "processors_counted q" and "ouCancelled (upStation q)"
    and "at (upClosers q) j = Some AwaitsGroup"
  shows "\<exists>step. shutdown_works j step \<and> up_step apart step q \<noteq> None"
proof (cases "ouProcessors (upStation q) = 0")
  case True
  show ?thesis
  proof (cases "ouUnsolicited (upStation q) = 0")
    case True
    then show ?thesis using \<open>ouProcessors (upStation q) = 0\<close> assms(4)
      by (intro exI [of _ "ShutdownWait j"]) (simp add: shutdown_works_def up_step_def shutdown_wait_def)
  next
    case False
    then show ?thesis using assms(3)
      by (intro exI [of _ UnsolicitedStop]) (simp add: shutdown_works_def up_step_def unsolicited_stop_def)
  qed
next
  case False
  then have "sum_list (map live (upProcessors q)) \<noteq> 0" using assms(2) unfolding processors_counted_def by argo
  then have "\<not> (\<forall>n\<in>set (map live (upProcessors q)). n = 0)" by (metis sum_list_eq_0_iff)
  then obtain c where in_set: "c \<in> set (upProcessors q)" and over: "c \<noteq> Over"
    by (auto simp: live_def split: if_splits)
  then obtain p where c: "at (upProcessors q) p = Some c" using at_set [OF in_set] by blast
  show ?thesis
  proof (cases c)
    case AtRest
    then show ?thesis using c assms(3)
      by (intro exI [of _ "StopUpdates p"]) (simp add: shutdown_works_def processor_of_def up_step_def stop_updates_def)
  next
    case (Applying i us)
    then show ?thesis using c applying_empty [OF assms(1), of p i us]
      by (intro exI [of _ "FinishUpdate p"]) (simp add: shutdown_works_def processor_of_def up_step_def finish_update_def)
  qed (use over in simp)
qed

interpretation shutting: progress "up_step apart" "shutdown_works j"
    "\<lambda>q. builders_empty q \<and> processors_counted q \<and> ouCancelled (upStation q) \<and> \<not> ouEnabled (upStation q)
       \<and> at (upClosers q) j = Some AwaitsGroup"
    "\<lambda>q. ouEnabled (upStation q) \<or> at (upClosers q) j = Some ShutDown" closing_load for apart j
proof unfold_locales
  fix q step q'
  assume P: "builders_empty q \<and> processors_counted q \<and> ouCancelled (upStation q) \<and> \<not> ouEnabled (upStation q)
       \<and> at (upClosers q) j = Some AwaitsGroup" and step: "up_step apart step q = Some q'"
  have c: "ouCancelled (upStation q') \<and> (ouEnabled (upStation q') \<or> (closing_load q' \<le> closing_load q
    \<and> (shutdown_works j step \<longrightarrow> closing_load q' < closing_load q \<or> at (upClosers q') j = Some ShutDown)))"
    using closing_step [OF step] P by blast
  have last: "at (upClosers q') j = Some ShutDown" if "step = ShutdownWait j"
    using step that at_length [of "upClosers q" j] by (auto simp: up_step_def shutdown_wait_def split: if_splits)
  show "(ouEnabled (upStation q') \<or> at (upClosers q') j = Some ShutDown)
      \<or> (builders_empty q' \<and> processors_counted q' \<and> ouCancelled (upStation q') \<and> \<not> ouEnabled (upStation q')
         \<and> at (upClosers q') j = Some AwaitsGroup) \<and> closing_load q' \<le> closing_load q"
    using c P builders_empty_step [OF step] processors_counted_step [OF step] closer_kept [OF step] last by blast
  show "(ouEnabled (upStation q') \<or> at (upClosers q') j = Some ShutDown) \<or> closing_load q' < closing_load q"
    if "shutdown_works j step" using c that by blast
next
  fix q
  assume "builders_empty q \<and> processors_counted q \<and> ouCancelled (upStation q) \<and> \<not> ouEnabled (upStation q)
       \<and> at (upClosers q) j = Some AwaitsGroup"
  then show "\<exists>step. shutdown_works j step \<and> up_step apart step q \<noteq> None" using shutdown_possible by blast
qed

text \<open>Without a processor, and without another call of \<open>Enable\<close>, nobody answers.\<close>

definition abandoned :: "updating \<Rightarrow> bool" where
  "abandoned q \<longleftrightarrow> (\<forall>p. \<not> processor_lives q p) \<and> (\<forall>k. at (upEnablers q) k \<noteq> Some UpdatesToStart)"

lemma abandoned_step:
  assumes "up_step apart step q = Some q'" and "step \<noteq> EnableCall" and "abandoned q"
    and "at (upAppliers q) i = Some Awaiting"
  shows "abandoned q' \<and> at (upAppliers q') i = Some Awaiting"
proof -
  have none: "at (upProcessors q) p \<noteq> Some AtRest" "at (upProcessors q) p \<noteq> Some (Applying j us)" for p j us
    using assms(3) by (auto simp: abandoned_def processor_lives_def)
  show ?thesis
    using assms none at_length [OF assms(4)]
    by (cases step)
      (auto simp: up_step_defs abandoned_def processor_lives_def
        split: option.splits applier.splits processor.splits list.splits if_splits)
qed

section \<open>One at a time\<close>

text \<open>Without others in between, the steps of a call do what the operations of the outstation say.\<close>

lemma updates_implement_apply:
  assumes "ouEnabled (upStation q)" and "upQueue q = []" and "at (upProcessors q) p = Some AtRest"
    and "Outstation_Apply apart Queued updates (upStation q) = Some (err, s')"
  shows "\<exists>q'. run (up_step apart) [ApplyCall us, ApplyQueue (length (upAppliers q)), TakeUpdate p, FinishUpdate p] q = Some q'
    \<and> upStation q' = s' \<and> at (upAppliers q') (length (upAppliers q)) = Some (Applied err)
    \<and> upQueue q' = [] \<and> at (upProcessors q') p = Some AtRest"
  using assms at_length [OF assms(3)]
  by (auto simp: up_step_defs Outstation_Apply_def updateChan_cap_def on_station_def set_applier_def set_processor_def)

lemma updates_implement_enable:
  assumes "\<not> ouEnabled (upStation q)"
  shows "\<exists>q'. run (up_step apart) [EnableCall, StartUpdates (length (upEnablers q)), StartUnsolicited (length (upEnablers q))] q
      = Some q' \<and> upStation q' = Outstation_Enable (upStation q) \<and> upProcessors q' = upProcessors q @ [AtRest]"
  using assms by (auto simp: up_step_defs Outstation_Enable_def on_station_def)

lemma updates_implement_shutdown:
  assumes "upProcessors q = [AtRest]" and "ouProcessors (upStation q) = 1" and "ouUnsolicited (upStation q) = 0"
  shows "\<exists>q'. run (up_step apart) [ShutdownCall, ShutdownCancel (length (upClosers q)), StopUpdates 0,
      ShutdownWait (length (upClosers q))] q = Some q' \<and> upStation q' = Outstation_Shutdown (upStation q)
    \<and> at (upClosers q') (length (upClosers q)) = Some ShutDown"
  using assms
  by (auto simp: up_step_defs Outstation_Shutdown_def Outstation_Disable_def on_station_def set_processor_def at_def)

section \<open>Properties\<close>

definition fresh :: "outstation \<Rightarrow> outstation" where
  "fresh st = st\<lparr>ouProcessors := 0, ouUnsolicited := 0\<rparr>"

lemma new_updating_ok:
  "updates.requests_ok (new_updating st)" "processors_counted (new_updating (fresh st))"
  by (auto simp: updates.requests_ok_def accounted_def new_updating_def builders_empty_def queued_def applied_by_def
      awaiting_def processors_counted_def fresh_def)

lemma builders_empty_run: "run (up_step apart) steps (new_updating st) = Some q \<Longrightarrow> builders_empty q"
  using new_updating_ok(1) [of st] updates.requests_ok_run [of apart steps "new_updating st" q]
  by (auto simp: updates.requests_ok_def)

lemma database_run:
  assumes "run (up_step apart) steps q = Some q'" and "builders_empty q"
  shows "ouDatabase (upStation q') = ouDatabase (upStation q)"
proof -
  have "builders_empty q' \<and> ouDatabase (upStation q') = ouDatabase (upStation q)"
    by (rule run_invariant [OF assms(1)]) (use assms(2) builders_empty_step database_kept in \<open>auto\<close>)
  then show ?thesis by simp
qed

text \<open>
  C7: measurements handed to \<open>Apply\<close> never reach the database, and a caller whose request
  was queued is told of no error. Whatever callers, processors, \<open>Enable\<close>,
  \<open>Disable\<close> and \<open>Shutdown\<close> do, in every interleaving the database stays what
  it was, because what \<open>Apply\<close> queues is an empty builder. And a call of
  \<open>Apply\<close> that has queued its request, whatever its updates, later either still waits or
  has returned without an error; the step of a processor that answers it makes it return without an
  error.
\<close>

theorem applied_updates_lost:
  assumes "run (up_step apart) steps (new_updating st) = Some q" and "run (up_step apart) later q = Some q'"
  shows "ouDatabase (upStation q') = ouDatabase st
    \<and> (at (upAppliers q) i = Some Awaiting
        \<longrightarrow> at (upAppliers q') i = Some Awaiting \<or> at (upAppliers q') i = Some (Applied None))
    \<and> (at (upAppliers q) i = Some Awaiting \<and> applied_by q p = Some i
        \<longrightarrow> (\<exists>q1. up_step apart (FinishUpdate p) q = Some q1 \<and> at (upAppliers q1) i = Some (Applied None)))"
proof -
  have start: "builders_empty (new_updating st)" "ouDatabase (upStation (new_updating st)) = ouDatabase st"
    using new_updating_ok(1) [of st] by (auto simp: updates.requests_ok_def) (simp add: new_updating_def)
  have q: "builders_empty q \<and> ouDatabase (upStation q) = ouDatabase st"
    by (rule run_invariant [OF assms(1)]) (use start builders_empty_step database_kept in auto)
  have "ouDatabase (upStation q') = ouDatabase st"
    using database_run [OF assms(2)] q by simp
  moreover have "at (upAppliers q') i = Some Awaiting \<or> at (upAppliers q') i = Some (Applied None)"
    if "at (upAppliers q) i = Some Awaiting"
    by (rule run_invariant [OF assms(2)]) (use that awaiting_left applied_kept in blast)+
  moreover have "\<exists>q1. up_step apart (FinishUpdate p) q = Some q1 \<and> at (upAppliers q1) i = Some (Applied None)"
    if waits: "at (upAppliers q) i = Some Awaiting" and held: "applied_by q p = Some i"
  proof -
    obtain us where c: "at (upProcessors q) p = Some (Applying i us)"
      using held by (auto simp: applied_by_def split: option.splits processor.splits)
    then have "us = []" using applying_empty q by blast
    with c show ?thesis using at_length [OF waits] by (simp add: up_step_def finish_update_def)
  qed
  ultimately show ?thesis by blast
qed

text \<open>
  In every interleaving the callers of \<open>Apply\<close> that wait for an answer are those whose request is
  in the queue or held by a processor, each once and in one place, and at most 100 are queued.
\<close>

theorem updates_accounted:
  "case run (up_step apart) steps (new_updating st) of
     None \<Rightarrow> True
   | Some q \<Rightarrow> accounted updateChan_cap (queued q, applied_by q, awaiting q)"
  using updates.requests_ok_run [of apart steps "new_updating st"] new_updating_ok(1) [of st]
  by (auto simp: updates.requests_ok_def split: option.split)

text \<open>
  C15: every accepted update is answered. In every infinite interleaving in which no update processor that
  can go on stands still for ever, a caller of \<open>Apply\<close> whose request was queued while some processor runs
  returns without an error, however many others apply updates and however often the outstation is disabled
  and enabled meanwhile, unless it is shut down.
\<close>

theorem accepted_update_answered:
  assumes "execution (up_step apart) (new_updating st) s lab"
    and "\<And>p. weakly_fair (up_step apart) (\<lambda>step. processor_of step = Some p) s lab"
    and "at (upAppliers (s n)) i = Some Awaiting" and "processor_lives (s n) p"
  shows "\<exists>m\<ge>n. ouCancelled (upStation (s m)) \<or> at (upAppliers (s m)) i = Some (Applied None)"
proof -
  obtain m where m: "n \<le> m" "ouCancelled (upStation (s m)) \<or> \<not> awaiting (s m) i"
    using updates.waiting_ends [OF assms(1,2) new_updating_ok(1)] assms(3,4) unfolding awaiting_def by blast
  show ?thesis
  proof (cases "ouCancelled (upStation (s m))")
    case False
    then show ?thesis
      using leaves_into [OF assms(1), of "\<lambda>q. at (upAppliers q) i = Some Awaiting" n m
          "\<lambda>q. at (upAppliers q) i = Some (Applied None)"] assms(3) m awaiting_left
      unfolding awaiting_def by blast
  qed (use m in blast)
qed

definition updates_demo :: "update_step list" where
  "updates_demo = [EnableCall, StartUpdates 0, StartUnsolicited 0, ApplyCall [], ApplyQueue 0, TakeUpdate 0, FinishUpdate 0]"

abbreviation never_apart :: "float64 \<Rightarrow> float64 \<Rightarrow> float64 \<Rightarrow> bool" where
  "never_apart \<equiv> \<lambda>a b d. False"

abbreviation demo_states :: "update_step list \<Rightarrow> nat \<Rightarrow> updating" where
  "demo_states \<equiv> listed_states (up_step never_apart) (new_updating (fresh sample_outstation))"

theorem accepted_update_answered_witness:
  "\<exists>m\<ge>5. ouCancelled (upStation (demo_states updates_demo m))
    \<or> at (upAppliers (demo_states updates_demo m)) 0 = Some (Applied None)"
proof (rule accepted_update_answered [of never_apart "fresh sample_outstation" _ "listed_labels updates_demo" 5 0 0])
  note evaluate = updates_demo_def new_updating_def up_step_defs on_station_def set_applier_def set_processor_def
    fresh_def sample_outstation_def new_outstation_def updateChan_cap_def at_def
  obtain q where run: "run (up_step never_apart) updates_demo (new_updating (fresh sample_outstation)) = Some q"
    and q: "upProcessors q = [AtRest]" "upQueue q = []" "\<not> ouCancelled (upStation q)"
    by (simp add: evaluate)
  show "execution (up_step never_apart) (new_updating (fresh sample_outstation)) (demo_states updates_demo)
      (listed_labels updates_demo)"
    by (rule listed_execution) (simp add: run)
  have "up_step never_apart step q = None" if "processor_of step = Some p" for step p
    using that q by (cases step)
      (auto simp: processor_of_def up_step_def take_update_def finish_update_def stop_updates_def at_def
        split: option.split processor.split)
  then show "weakly_fair (up_step never_apart) (\<lambda>step. processor_of step = Some p) (demo_states updates_demo)
      (listed_labels updates_demo)" for p
    by (intro listed_fair) (simp add: run)
  show "at (upAppliers (demo_states updates_demo 5)) 0 = Some Awaiting"
    and "processor_lives (demo_states updates_demo 5) 0"
    by (simp_all add: listed_states_def processor_lives_def evaluate)
qed

text \<open>An update of a counter that would change the database, while the processor holds its request.\<close>

abbreviation counter_update :: updates where
  "counter_update \<equiv> [((MeasurementTypeCounter, 0), MCounter \<lparr>cnValue = 5, cnFlags = 1, cnTime = 0\<rparr>, EventModeSuppress)]"

theorem applied_updates_lost_witness:
  "\<exists>q q' db. applyUpdates never_apart counter_update (ouDatabase (fresh sample_outstation)) = Some db
    \<and> db \<noteq> ouDatabase (fresh sample_outstation)
    \<and> run (up_step never_apart) [EnableCall, StartUpdates 0, ApplyCall counter_update, ApplyQueue 0, TakeUpdate 0]
        (new_updating (fresh sample_outstation)) = Some q
    \<and> up_step never_apart (FinishUpdate 0) q = Some q' \<and> at (upAppliers q') 0 = Some (Applied None)
    \<and> ouDatabase (upStation q') = ouDatabase (fresh sample_outstation)"
proof -
  note evaluate = new_updating_def up_step_defs on_station_def set_applier_def set_processor_def
    fresh_def sample_outstation_def new_outstation_def updateChan_cap_def at_def
  let ?st = "fresh sample_outstation"
  let ?steps = "[EnableCall, StartUpdates 0, ApplyCall counter_update, ApplyQueue 0, TakeUpdate 0]"
  obtain q where q: "run (up_step never_apart) ?steps (new_updating ?st) = Some q"
    "at (upAppliers q) 0 = Some Awaiting" "applied_by q 0 = Some 0"
    by (simp add: evaluate applied_by_def)
  from applied_updates_lost [OF q(1), of "[]" q 0 0] q obtain q' where
    q': "up_step never_apart (FinishUpdate 0) q = Some q'" "at (upAppliers q') 0 = Some (Applied None)"
    by auto
  have "run (up_step never_apart) [FinishUpdate 0] q = Some q'" using q'(1) by simp
  from applied_updates_lost [OF q(1) this] have "ouDatabase (upStation q') = ouDatabase ?st" by blast
  moreover have "\<exists>db. applyUpdates never_apart counter_update (ouDatabase ?st) = Some db \<and> db \<noteq> ouDatabase ?st"
    by (simp add: evaluate apply_update_def UpdateCounter_def NewDatabase_def Let_def)
  ultimately show ?thesis using q(1) q' by blast
qed

text \<open>
  C16: \<open>Shutdown\<close> returns. In every infinite interleaving in which the goroutines it waits for do not
  all stand still for ever, a call of \<open>Shutdown\<close> that has cancelled the context and waits returns, however
  many callers still queue updates and however many processors earlier calls of \<open>Enable\<close> have left
  running or have still to start, unless the outstation is enabled again.
\<close>

theorem shutdown_returns:
  assumes "execution (up_step apart) (new_updating (fresh st)) s lab"
    and "weakly_fair (up_step apart) (shutdown_works j) s lab"
    and "at (upClosers (s n)) j = Some AwaitsGroup" and "ouCancelled (upStation (s n))"
  shows "\<exists>m\<ge>n. ouEnabled (upStation (s m)) \<or> at (upClosers (s m)) j = Some ShutDown"
proof -
  have ok: "builders_empty (s m) \<and> processors_counted (s m)" for m
    by (rule execution_invariant [OF assms(1)])
      (use new_updating_ok builders_empty_step processors_counted_step in \<open>auto simp: updates.requests_ok_def\<close>)
  show ?thesis
  proof (cases "ouEnabled (upStation (s n))")
    case False
    then show ?thesis using shutting.leads_to [OF assms(1,2)] ok assms(3,4) by blast
  qed blast
qed

definition shutdown_demo :: "update_step list" where
  "shutdown_demo = [EnableCall, StartUpdates 0, StartUnsolicited 0, ShutdownCall, ShutdownCancel 0, StopUpdates 0,
     ShutdownWait 0]"

theorem shutdown_returns_witness:
  "\<exists>m\<ge>5. ouEnabled (upStation (demo_states shutdown_demo m))
    \<or> at (upClosers (demo_states shutdown_demo m)) 0 = Some ShutDown"
proof (rule shutdown_returns [of never_apart sample_outstation _ "listed_labels shutdown_demo" 0 5])
  note evaluate = shutdown_demo_def new_updating_def up_step_defs on_station_def set_applier_def set_processor_def
    fresh_def sample_outstation_def new_outstation_def Outstation_Disable_def at_def
  obtain q where run: "run (up_step never_apart) shutdown_demo (new_updating (fresh sample_outstation)) = Some q"
    and q: "upProcessors q = [Over]" "ouUnsolicited (upStation q) = 0" "upClosers q = [ShutDown]"
    by (simp add: evaluate)
  show "execution (up_step never_apart) (new_updating (fresh sample_outstation)) (demo_states shutdown_demo)
      (listed_labels shutdown_demo)"
    by (rule listed_execution) (simp add: run)
  have "up_step never_apart step q = None" if "shutdown_works 0 step" for step
    using that q by (cases step)
      (auto simp: shutdown_works_def processor_of_def up_step_def take_update_def finish_update_def stop_updates_def
        unsolicited_stop_def shutdown_wait_def at_def split: option.split processor.split)
  then show "weakly_fair (up_step never_apart) (shutdown_works 0) (demo_states shutdown_demo)
      (listed_labels shutdown_demo)"
    by (intro listed_fair) (simp add: run)
  show "at (upClosers (demo_states shutdown_demo 5)) 0 = Some AwaitsGroup"
    and "ouCancelled (upStation (demo_states shutdown_demo 5))"
    by (simp_all add: listed_states_def evaluate)
qed

definition left_behind :: "updates \<Rightarrow> update_step list" where
  "left_behind us = [EnableCall, StartUpdates 0, StartUnsolicited 0, ApplyCall us, ShutdownCall, ShutdownCancel 0,
     StopUpdates 0, ShutdownWait 0, ApplyQueue 0]"

text \<open>
  An \<open>Apply\<close> that runs while the outstation is shut down may never return. The caller finds the
  outstation enabled; \<open>Shutdown\<close> disables it, cancels the context, waits for the processor and returns;
  then the select of the caller, several of whose cases are ready, puts the request into the queue.
  Whatever happens from then on, short of another \<open>Enable\<close>, the caller waits: once its request is queued
  it looks at neither the clock nor the context.
\<close>

theorem shut_down_update_waits:
  "\<exists>q. run (up_step apart) (left_behind us) (new_updating (new_outstation (config\<lparr>ocAllowUnsolicited := False\<rparr>))) = Some q
    \<and> at (upClosers q) 0 = Some ShutDown \<and> at (upAppliers q) 0 = Some Awaiting
    \<and> (\<forall>steps. case run (up_step apart) (filter (\<lambda>s. s \<noteq> EnableCall) steps) q of
         None \<Rightarrow> True
       | Some q' \<Rightarrow> at (upAppliers q') 0 = Some Awaiting)"
proof -
  let ?st = "new_outstation (config\<lparr>ocAllowUnsolicited := False\<rparr>)"
  have st: "\<not> ouEnabled ?st" "ouProcessors ?st = 0" "ouUnsolicited ?st = 0" "\<not> ocAllowUnsolicited (ouConfig ?st)"
    by (simp_all add: new_outstation_def Let_def)
  obtain q where q: "run (up_step apart) (left_behind us) (new_updating ?st) = Some q"
    and final: "upProcessors q = [Over]" "upEnablers q = [Started]" "upClosers q = [ShutDown]" "upAppliers q = [Awaiting]"
    using st by (auto simp: left_behind_def new_updating_def up_step_defs on_station_def set_applier_def
        set_processor_def Outstation_Disable_def at_def updateChan_cap_def)
  have "at (upAppliers q') 0 = Some Awaiting"
    if "run (up_step apart) (filter (\<lambda>s. s \<noteq> EnableCall) steps) q = Some q'" for steps q'
  proof -
    have "abandoned q' \<and> at (upAppliers q') 0 = Some Awaiting"
    proof (rule run_invariant [OF that])
      show "abandoned q \<and> at (upAppliers q) 0 = Some Awaiting"
        using final by (auto simp: abandoned_def processor_lives_def at_def split: if_splits)
    qed (use abandoned_step in auto)
    then show ?thesis by simp
  qed
  then show ?thesis using q final by (auto simp: at_def split: option.split)
qed

end
