(* ===== verification/Facade_Manager.thy ===== *)
theory Facade_Manager
  imports Channel_Core Channel_Physical
begin

text \<open>
  The manager of channels (\<open>pkg/dnp3/manager.go\<close>, \<open>channel.go\<close>), the root object of the API. Channels
  are shared by reference between the manager's map and the handles it gives out, so they live in a
  store, and a reference is an index into it. A handle keeps its reference when the manager has
  forgotten the channel. Every operation holds the manager's lock and is one step.
\<close>

section \<open>State\<close>

text \<open>A channel of the store: its identifier, its router and the channel itself.\<close>

record 's managed =
  mdID :: string
  mdRouter :: "'s Router"
  mdChannel :: Channel

text \<open>\<open>mgStore\<close> holds every channel made so far, \<open>mgChannels\<close> is the manager's map.\<close>

record 's Manager =
  mgStore :: "'s managed list"
  mgChannels :: "(string \<times> nat) list"

datatype manager_err = ChannelExists string | OpenFailed channel_err | ChannelNotFound string

definition NewManager :: "'s Manager" where
  "NewManager = \<lparr>mgStore = [], mgChannels = []\<rparr>"

section \<open>Operations\<close>

text \<open>\<open>writes\<close> stands for the physical channel: the results of its coming writes.\<close>

definition AddChannel :: "string \<Rightarrow> bool list \<Rightarrow> 's Manager \<Rightarrow> (manager_err + nat) \<times> 's Manager" where
  "AddChannel ident writes m =
     (if map_of (mgChannels m) ident \<noteq> None then (Inl (ChannelExists ident), m)
      else (case Channel_Open (NewChannel writes) of
              (Some err, _) \<Rightarrow> (Inl (OpenFailed err), m)
            | (None, ch) \<Rightarrow>
                (let p = length (mgStore m) in
                 (Inr p, m\<lparr>mgStore := mgStore m @ [\<lparr>mdID = ident, mdRouter = NewRouter, mdChannel = ch\<rparr>],
                           mgChannels := mgChannels m @ [(ident, p)]\<rparr>))))"

definition close_at :: "nat \<Rightarrow> 's Manager \<Rightarrow> 's Manager" where
  "close_at p m =
     m\<lparr>mgStore := (mgStore m)[p := (mgStore m ! p)\<lparr>mdChannel := Channel_Close (mdChannel (mgStore m ! p))\<rparr>]\<rparr>"

definition RemoveChannel :: "string \<Rightarrow> 's Manager \<Rightarrow> manager_err option \<times> 's Manager" where
  "RemoveChannel ident m =
     (case map_of (mgChannels m) ident of
        None \<Rightarrow> (Some (ChannelNotFound ident), m)
      | Some p \<Rightarrow>
          (None, (close_at p m)\<lparr>mgChannels := filter (\<lambda>e. fst e \<noteq> ident) (mgChannels m)\<rparr>))"

definition GetChannel :: "string \<Rightarrow> 's Manager \<Rightarrow> nat option" where
  "GetChannel ident m = map_of (mgChannels m) ident"

definition Manager_Shutdown :: "'s Manager \<Rightarrow> 's Manager" where
  "Manager_Shutdown m = (foldl (\<lambda>m e. close_at (snd e) m) m (mgChannels m))\<lparr>mgChannels := []\<rparr>"

definition ChannelCount :: "'s Manager \<Rightarrow> nat" where
  "ChannelCount m = length (mgChannels m)"

text \<open>A handle shuts its channel down by the identifier of the channel, not by its reference.\<close>

definition channelImpl_Shutdown :: "nat \<Rightarrow> 's Manager \<Rightarrow> manager_err option \<times> 's Manager" where
  "channelImpl_Shutdown h m = RemoveChannel (mdID (mgStore m ! h)) m"

record ChannelStatistics =
  csLinkFramesTx :: u64
  csLinkFramesRx :: u64
  csBadLinkFrames :: u64
  csCRCErrors :: u64
  csTransportTx :: u64
  csTransportRx :: u64
  csTransportErrors :: u64
  csActiveSessions :: u64
  csPhysicalBytesTx :: u64
  csPhysicalBytesRx :: u64

text \<open>\<open>physStats\<close> is what the statistics of the physical channel are.\<close>

definition channelImpl_Statistics :: "TransportStats \<Rightarrow> nat \<Rightarrow> 's Manager \<Rightarrow> ChannelStatistics" where
  "channelImpl_Statistics physStats h m =
     (let stats = chStats (mdChannel (mgStore m ! h)) in
      \<lparr>csLinkFramesTx = stLinkFramesTx stats, csLinkFramesRx = stLinkFramesRx stats,
       csBadLinkFrames = stBadLinkFrames stats, csCRCErrors = stCRCErrors stats,
       csTransportTx = stTransportTx stats, csTransportRx = stTransportRx stats,
       csTransportErrors = stTransportErrors stats, csActiveSessions = stActiveSessions stats,
       csPhysicalBytesTx = tsBytesSent physStats, csPhysicalBytesRx = tsBytesReceived physStats\<rparr>)"

text \<open>What sessions and traffic do to a channel and its router.\<close>

definition at_channel ::
  "nat \<Rightarrow> ('s Router \<Rightarrow> Channel \<Rightarrow> 'a \<times> 's Router \<times> Channel) \<Rightarrow> 's Manager \<Rightarrow> 'a \<times> 's Manager" where
  "at_channel h f m =
     (case f (mdRouter (mgStore m ! h)) (mdChannel (mgStore m ! h)) of
        (x, r, c) \<Rightarrow>
          (x, m\<lparr>mgStore := (mgStore m)[h := (mgStore m ! h)\<lparr>mdRouter := r, mdChannel := c\<rparr>]\<rparr>))"

section \<open>Interleavings\<close>

text \<open>
  The operations in any order. \<open>Traffic\<close> is anything that leaves it as it is whether the channel is open:
  reads, writes, new sessions and the operations of stations.
\<close>

datatype 's manager_op =
    AddNew string "bool list"
  | Remove string
  | ShutAll
  | ShutHandle nat
  | Traffic nat "'s Router" Channel

definition manager_step :: "'s manager_op \<Rightarrow> 's Manager \<Rightarrow> 's Manager option" where
  "manager_step op m =
     (case op of
        AddNew ident writes \<Rightarrow> Some (snd (AddChannel ident writes m))
      | Remove ident \<Rightarrow> Some (snd (RemoveChannel ident m))
      | ShutAll \<Rightarrow> Some (Manager_Shutdown m)
      | ShutHandle h \<Rightarrow> if h < length (mgStore m) then Some (snd (channelImpl_Shutdown h m)) else None
      | Traffic h r c \<Rightarrow>
          if h < length (mgStore m) \<and> chState c = chState (mdChannel (mgStore m ! h))
            \<and> chCancelled c = chCancelled (mdChannel (mgStore m ! h))
          then Some (snd (at_channel h (\<lambda>_ _. ((), r, c)) m)) else None)"

section \<open>The registered channels are the open ones\<close>

definition is_open :: "'s managed \<Rightarrow> bool" where
  "is_open ch \<longleftrightarrow> chState (mdChannel ch) = ChannelStateOpen \<and> \<not> chCancelled (mdChannel ch)"

definition is_closed :: "'s managed \<Rightarrow> bool" where
  "is_closed ch \<longleftrightarrow> chState (mdChannel ch) = ChannelStateClosed \<and> chCancelled (mdChannel ch)"

definition registry_ok :: "'s Manager \<Rightarrow> bool" where
  "registry_ok m \<longleftrightarrow> distinct (map fst (mgChannels m))
     \<and> (\<forall>(ident, p)\<in>set (mgChannels m). p < length (mgStore m) \<and> mdID (mgStore m ! p) = ident)
     \<and> (\<forall>p<length (mgStore m).
          if (mdID (mgStore m ! p), p) \<in> set (mgChannels m) then is_open (mgStore m ! p)
          else is_closed (mgStore m ! p))"

lemma close_at_sel [simp]:
  "mgChannels (close_at p m) = mgChannels m" "length (mgStore (close_at p m)) = length (mgStore m)"
  by (simp_all add: close_at_def)

lemma close_at_nth:
  assumes "q < length (mgStore m)"
  shows "mgStore (close_at p m) ! q =
    (if q = p then (mgStore m ! p)\<lparr>mdChannel := Channel_Close (mdChannel (mgStore m ! p))\<rparr> else mgStore m ! q)"
  using assms by (simp add: close_at_def)

lemma closed_channel: "is_open ch \<Longrightarrow> is_closed (ch\<lparr>mdChannel := Channel_Close (mdChannel ch)\<rparr>)"
  by (simp add: is_open_def is_closed_def Channel_Close_def)

lemma registry_ok_entry:
  assumes "registry_ok m" and "(ident, p) \<in> set (mgChannels m)"
  shows "p < length (mgStore m)" "mdID (mgStore m ! p) = ident" "is_open (mgStore m ! p)"
  using assms by (auto simp: registry_ok_def split: if_splits)

lemma registry_ok_AddChannel:
  assumes "registry_ok m"
  shows "registry_ok (snd (AddChannel ident writes m))"
proof (cases "map_of (mgChannels m) ident")
  case None
  let ?ch = "\<lparr>mdID = ident, mdRouter = NewRouter, mdChannel = (NewChannel writes)\<lparr>chState := ChannelStateOpen\<rparr>\<rparr>"
  have m: "snd (AddChannel ident writes m)
    = m\<lparr>mgStore := mgStore m @ [?ch], mgChannels := mgChannels m @ [(ident, length (mgStore m))]\<rparr>"
    using None by (simp add: AddChannel_def Channel_Open_def NewChannel_def Let_def)
  have fresh: "ident \<notin> fst ` set (mgChannels m)" using None by (simp add: map_of_eq_None_iff)
  have bound: "p < length (mgStore m) \<and> mdID (mgStore m ! p) = i" if "(i, p) \<in> set (mgChannels m)" for i p
    using assms that by (auto simp: registry_ok_def)
  show ?thesis
    unfolding m registry_ok_def
  proof (intro conjI allI impI, goal_cases)
    case 1
    then show ?case using assms fresh by (simp add: registry_ok_def)
  next
    case 2
    then show ?case using bound by (auto simp: nth_append less_Suc_eq)
  next
    case (3 p)
    show ?case
    proof (cases "p = length (mgStore m)")
      case True
      then show ?thesis by (simp add: is_open_def NewChannel_def)
    next
      case False
      then have "p < length (mgStore m)" using 3 by simp
      then show ?thesis using assms False by (simp add: registry_ok_def nth_append)
    qed
  qed
next
  case (Some p)
  then show ?thesis using assms by (simp add: AddChannel_def)
qed

lemma registry_ok_RemoveChannel:
  assumes "registry_ok m"
  shows "registry_ok (snd (RemoveChannel ident m))"
proof (cases "map_of (mgChannels m) ident")
  case None
  then show ?thesis using assms by (simp add: RemoveChannel_def)
next
  case (Some p)
  then have p: "(ident, p) \<in> set (mgChannels m)" by (rule map_of_SomeD)
  have m: "snd (RemoveChannel ident m) = (close_at p m)\<lparr>mgChannels := filter (\<lambda>e. fst e \<noteq> ident) (mgChannels m)\<rparr>"
    using Some by (simp add: RemoveChannel_def)
  have only: "q = p" if "(ident, q) \<in> set (mgChannels m)" for q
    using p that assms by (metis registry_ok_def eq_key_imp_eq_value)
  have ident: "mdID (mgStore (close_at p m) ! q) = mdID (mgStore m ! q)" if "q < length (mgStore m)" for q
    using that by (simp add: close_at_nth)
  show ?thesis
    unfolding m registry_ok_def
  proof (intro conjI allI impI)
    show "distinct (map fst (mgChannels ((close_at p m)\<lparr>mgChannels := filter (\<lambda>e. fst e \<noteq> ident) (mgChannels m)\<rparr>)))"
      using assms by (simp add: registry_ok_def distinct_map_filter)
  next
    show "\<forall>(i, q)\<in>set (mgChannels ((close_at p m)\<lparr>mgChannels := filter (\<lambda>e. fst e \<noteq> ident) (mgChannels m)\<rparr>)).
      q < length (mgStore ((close_at p m)\<lparr>mgChannels := filter (\<lambda>e. fst e \<noteq> ident) (mgChannels m)\<rparr>))
      \<and> mdID (mgStore ((close_at p m)\<lparr>mgChannels := filter (\<lambda>e. fst e \<noteq> ident) (mgChannels m)\<rparr>) ! q) = i"
      using registry_ok_entry(1,2) [OF assms] by (auto simp: ident)
  next
    fix q
    assume q: "q < length (mgStore ((close_at p m)\<lparr>mgChannels := filter (\<lambda>e. fst e \<noteq> ident) (mgChannels m)\<rparr>))"
    then have q': "q < length (mgStore m)" by simp
    then have old: "if (mdID (mgStore m ! q), q) \<in> set (mgChannels m) then is_open (mgStore m ! q)
        else is_closed (mgStore m ! q)"
      using assms by (simp add: registry_ok_def)
    show "if (mdID (mgStore ((close_at p m)\<lparr>mgChannels := filter (\<lambda>e. fst e \<noteq> ident) (mgChannels m)\<rparr>) ! q), q)
        \<in> set (mgChannels ((close_at p m)\<lparr>mgChannels := filter (\<lambda>e. fst e \<noteq> ident) (mgChannels m)\<rparr>))
      then is_open (mgStore ((close_at p m)\<lparr>mgChannels := filter (\<lambda>e. fst e \<noteq> ident) (mgChannels m)\<rparr>) ! q)
      else is_closed (mgStore ((close_at p m)\<lparr>mgChannels := filter (\<lambda>e. fst e \<noteq> ident) (mgChannels m)\<rparr>) ! q)"
    proof (cases "q = p")
      case True
      then show ?thesis
        using registry_ok_entry(2,3) [OF assms p] q' by (simp add: ident close_at_nth closed_channel)
    next
      case False
      then have "(mdID (mgStore m ! q), q) \<notin> set (mgChannels m) \<or> mdID (mgStore m ! q) \<noteq> ident"
        using only by metis
      then show ?thesis using old q' False by (auto simp: ident close_at_nth)
    qed
  qed
qed

lemma foldl_close:
  "mgChannels (foldl (\<lambda>m e. close_at (snd e) m) m es) = mgChannels m
   \<and> length (mgStore (foldl (\<lambda>m e. close_at (snd e) m) m es)) = length (mgStore m)
   \<and> (\<forall>q<length (mgStore m). mgStore (foldl (\<lambda>m e. close_at (snd e) m) m es) ! q =
        (if q \<in> snd ` set es then (mgStore m ! q)\<lparr>mdChannel := Channel_Close (mdChannel (mgStore m ! q))\<rparr>
         else mgStore m ! q))"
proof (induction es arbitrary: m)
  case Nil
  then show ?case by simp
next
  case (Cons e es)
  have "Channel_Close (Channel_Close c) = Channel_Close c" for c by (simp add: Channel_Close_def)
  then show ?case using Cons [of "close_at (snd e) m"] by (auto simp: close_at_nth)
qed

lemma Manager_Shutdown_sel:
  assumes "registry_ok m"
  shows "mgChannels (Manager_Shutdown m) = []" "length (mgStore (Manager_Shutdown m)) = length (mgStore m)"
    and "q < length (mgStore m) \<Longrightarrow> is_closed (mgStore (Manager_Shutdown m) ! q)
      \<and> mdID (mgStore (Manager_Shutdown m) ! q) = mdID (mgStore m ! q)"
proof -
  show "mgChannels (Manager_Shutdown m) = []" "length (mgStore (Manager_Shutdown m)) = length (mgStore m)"
    by (simp_all add: Manager_Shutdown_def foldl_close)
  assume q: "q < length (mgStore m)"
  then have state: "if (mdID (mgStore m ! q), q) \<in> set (mgChannels m) then is_open (mgStore m ! q)
      else is_closed (mgStore m ! q)"
    using assms by (simp add: registry_ok_def)
  then have "q \<notin> snd ` set (mgChannels m) \<Longrightarrow> is_closed (mgStore m ! q)"
    by (metis imageI snd_conv)
  moreover have "q \<in> snd ` set (mgChannels m) \<Longrightarrow> is_open (mgStore m ! q)"
    using registry_ok_entry(3) [OF assms] by auto
  moreover have "mgStore (Manager_Shutdown m) ! q =
      (if q \<in> snd ` set (mgChannels m)
       then (mgStore m ! q)\<lparr>mdChannel := Channel_Close (mdChannel (mgStore m ! q))\<rparr> else mgStore m ! q)"
    using foldl_close [of m "mgChannels m"] q by (simp add: Manager_Shutdown_def)
  ultimately show "is_closed (mgStore (Manager_Shutdown m) ! q)
      \<and> mdID (mgStore (Manager_Shutdown m) ! q) = mdID (mgStore m ! q)"
    using closed_channel [of "mgStore m ! q"] by (cases "q \<in> snd ` set (mgChannels m)") simp_all
qed

lemma registry_ok_Shutdown: "registry_ok m \<Longrightarrow> registry_ok (Manager_Shutdown m)"
  using Manager_Shutdown_sel [of m] by (simp add: registry_ok_def)

lemma registry_ok_traffic:
  assumes "registry_ok m" and "h < length (mgStore m)" and "f (mdRouter (mgStore m ! h)) (mdChannel (mgStore m ! h)) = (x, r, c)"
    and "chState c = chState (mdChannel (mgStore m ! h))" and "chCancelled c = chCancelled (mdChannel (mgStore m ! h))"
  shows "registry_ok (snd (at_channel h f m))"
proof -
  let ?m = "snd (at_channel h f m)"
  have m: "?m = m\<lparr>mgStore := (mgStore m)[h := (mgStore m ! h)\<lparr>mdRouter := r, mdChannel := c\<rparr>]\<rparr>"
    using assms(3) by (simp add: at_channel_def)
  have same: "mdID (mgStore ?m ! q) = mdID (mgStore m ! q) \<and> is_open (mgStore ?m ! q) = is_open (mgStore m ! q)
      \<and> is_closed (mgStore ?m ! q) = is_closed (mgStore m ! q)" if "q < length (mgStore m)" for q
    using that assms(2,4,5) unfolding m by (simp add: nth_list_update is_open_def is_closed_def)
  have eq: "mgChannels ?m = mgChannels m" "length (mgStore ?m) = length (mgStore m)" by (simp_all add: m)
  show ?thesis
    unfolding registry_ok_def eq
  proof (intro conjI allI impI, goal_cases)
    case 1
    then show ?case using assms(1) by (simp add: registry_ok_def)
  next
    case 2
    then show ?case using registry_ok_entry(1,2) [OF assms(1)] same by fastforce
  next
    case (3 q)
    then have "if (mdID (mgStore m ! q), q) \<in> set (mgChannels m) then is_open (mgStore m ! q)
        else is_closed (mgStore m ! q)"
      using assms(1) unfolding registry_ok_def by blast
    then show ?case by (simp only: same [OF 3])
  qed
qed

lemma registry_ok_step:
  assumes "manager_step op m = Some m'" and "registry_ok m"
  shows "registry_ok m'"
proof (cases op)
  case (Traffic h r c)
  then have h: "h < length (mgStore m)" "chState c = chState (mdChannel (mgStore m ! h))"
    "chCancelled c = chCancelled (mdChannel (mgStore m ! h))"
    and m': "m' = snd (at_channel h (\<lambda>_ _. ((), r, c)) m)"
    using assms(1) by (simp_all add: manager_step_def split: if_splits)
  show ?thesis unfolding m' by (rule registry_ok_traffic [OF assms(2) h(1) refl h(2,3)])
qed (use assms in \<open>auto simp: manager_step_def channelImpl_Shutdown_def registry_ok_AddChannel
    registry_ok_RemoveChannel registry_ok_Shutdown split: if_splits\<close>)

section \<open>Properties\<close>

text \<open>
  C13: whatever is done with a manager and its handles, the registered channels are exactly the open
  ones. Starting from a new manager, after any sequence of operations the identifiers of the map are
  distinct, every entry names a channel with its identifier, a registered channel is open and its
  context not cancelled, and every other channel ever made is closed for good. So no open channel is
  lost to the manager, and \<open>Shutdown\<close> closes all of them.
\<close>

theorem registered_channels_open:
  "case run manager_step steps NewManager of None \<Rightarrow> True | Some m \<Rightarrow> registry_ok m"
proof (cases "run manager_step steps NewManager")
  case (Some m)
  have "registry_ok NewManager" by (simp add: registry_ok_def NewManager_def)
  with Some have "registry_ok m" by (rule run_invariant) (rule registry_ok_step)
  then show ?thesis using Some by simp
qed simp

text \<open>
  C39: shutting down a channel a second time closes its successor. After a channel is shut down and
  another one is added under the same identifier, the old handle still has this identifier, and its
  \<open>Shutdown\<close> closes the new channel, takes it out of the manager's map and reports success.
\<close>

theorem stale_handle_closes_successor:
  assumes "map_of (mgChannels m) ident = None"
  shows "\<exists>h m1 m2 h' m3 m4. AddChannel ident writes m = (Inr h, m1) \<and> channelImpl_Shutdown h m1 = (None, m2)
    \<and> AddChannel ident writes' m2 = (Inr h', m3) \<and> h' \<noteq> h \<and> is_open (mgStore m3 ! h')
    \<and> channelImpl_Shutdown h m3 = (None, m4) \<and> is_closed (mgStore m4 ! h') \<and> GetChannel ident m4 = None"
proof -
  let ?n = "length (mgStore m)"
  let ?ch = "\<lambda>ws s b. \<lparr>mdID = ident, mdRouter = NewRouter :: 'a Router,
    mdChannel = (NewChannel ws)\<lparr>chState := s, chCancelled := b\<rparr>\<rparr>"
  have open1: "Channel_Open (NewChannel ws) = (None, (NewChannel ws)\<lparr>chState := ChannelStateOpen, chCancelled := False\<rparr>)" for ws
    by (simp add: Channel_Open_def NewChannel_def)
  have close1: "Channel_Close ((NewChannel ws)\<lparr>chState := ChannelStateOpen, chCancelled := b\<rparr>)
    = (NewChannel ws)\<lparr>chState := ChannelStateClosed, chCancelled := True\<rparr>" for ws b
    by (simp add: Channel_Close_def)
  have keep: "filter (\<lambda>e. fst e \<noteq> ident) (mgChannels m) = mgChannels m"
    using assms by (auto simp: filter_id_conv map_of_eq_None_iff)
  let ?m1 = "m\<lparr>mgStore := mgStore m @ [?ch writes ChannelStateOpen False], mgChannels := mgChannels m @ [(ident, ?n)]\<rparr>"
  let ?m2 = "m\<lparr>mgStore := mgStore m @ [?ch writes ChannelStateClosed True]\<rparr>"
  let ?m3 = "?m2\<lparr>mgStore := mgStore ?m2 @ [?ch writes' ChannelStateOpen False], mgChannels := mgChannels m @ [(ident, Suc ?n)]\<rparr>"
  let ?m4 = "?m2\<lparr>mgStore := mgStore ?m2 @ [?ch writes' ChannelStateClosed True]\<rparr>"
  have "AddChannel ident writes m = (Inr ?n, ?m1)"
    using assms by (simp add: AddChannel_def open1 Let_def)
  moreover have "channelImpl_Shutdown ?n ?m1 = (None, ?m2)"
    using assms by (simp add: channelImpl_Shutdown_def RemoveChannel_def close_at_def close1 keep map_add_def)
  moreover have "AddChannel ident writes' ?m2 = (Inr (Suc ?n), ?m3)"
    using assms by (simp add: AddChannel_def open1 Let_def)
  moreover have "channelImpl_Shutdown ?n ?m3 = (None, ?m4)"
    using assms by (simp add: channelImpl_Shutdown_def RemoveChannel_def close_at_def close1 keep map_add_def
        nth_append list_update_append)
  moreover have "is_open (mgStore ?m3 ! Suc ?n)" "is_closed (mgStore ?m4 ! Suc ?n)" "GetChannel ident ?m4 = None"
    using assms by (simp_all add: is_open_def is_closed_def nth_append GetChannel_def)
  ultimately show ?thesis by (intro exI conjI) (assumption | simp)+
qed

theorem stale_handle_closes_successor_witness:
  "\<exists>h m1 m2 h' m3 m4. AddChannel ''tcp'' [] (NewManager :: unit Manager) = (Inr h, m1)
    \<and> channelImpl_Shutdown h m1 = (None, m2) \<and> AddChannel ''tcp'' [] m2 = (Inr h', m3) \<and> h' \<noteq> h
    \<and> is_open (mgStore m3 ! h') \<and> channelImpl_Shutdown h m3 = (None, m4) \<and> is_closed (mgStore m4 ! h')
    \<and> GetChannel ''tcp'' m4 = None"
  by (rule stale_handle_closes_successor) (simp add: NewManager_def)

end
