(* ===== verification/Facade_Stations.thy ===== *)
theory Facade_Stations
  imports Facade_Manager Master_Station Outstation_Station
begin

text \<open>
  The stations of the API (\<open>pkg/dnp3/master.go\<close>, \<open>master_factory.go\<close>, \<open>outstation.go\<close>,
  \<open>outstation_factory.go\<close>, \<open>helpers.go\<close>): the configurations and their conversion to those of the
  stations, the creation of masters and outstations on a channel of the manager, the wrappers of
  their operations, the update builder and the constructors of commands. Durations are nanoseconds.
  The wrappers of the callbacks, which copy their arguments field by field, are the identity here.
\<close>

section \<open>Configurations of masters\<close>

record FacadeMasterConfig =
  fmID :: string
  fmLocalAddress :: u16
  fmRemoteAddress :: u16
  fmResponseTimeout :: int
  fmTaskRetryPeriod :: int
  fmTaskStartTimeout :: int
  fmDisableUnsolOnStartup :: bool
  fmIgnoreRestartIIN :: bool
  fmUnsolClassMask :: ClassField
  fmStartupIntegrityScan :: bool
  fmIntegrityPeriod :: int
  fmMaxRxFragSize :: u16
  fmMaxTxFragSize :: u16

definition time_Second :: int where [simp]: "time_Second = 1000000000"

definition DefaultMasterConfig :: FacadeMasterConfig where
  "DefaultMasterConfig =
     \<lparr>fmID = [], fmLocalAddress = 0, fmRemoteAddress = 0, fmResponseTimeout = 5 * time_Second,
      fmTaskRetryPeriod = 5 * time_Second, fmTaskStartTimeout = 10 * time_Second,
      fmDisableUnsolOnStartup = True, fmIgnoreRestartIIN = False, fmUnsolClassMask = ClassAll,
      fmStartupIntegrityScan = True, fmIntegrityPeriod = 0, fmMaxRxFragSize = 2048, fmMaxTxFragSize = 2048\<rparr>"

definition masterConfig :: "FacadeMasterConfig \<Rightarrow> MasterConfig" where
  "masterConfig config =
     \<lparr>mcID = fmID config, mcLocalAddress = fmLocalAddress config, mcRemoteAddress = fmRemoteAddress config,
      mcResponseTimeout = fmResponseTimeout config, mcTaskRetryPeriod = fmTaskRetryPeriod config,
      mcTaskStartTimeout = fmTaskStartTimeout config,
      mcDisableUnsolOnStartup = fmDisableUnsolOnStartup config,
      mcIgnoreRestartIIN = fmIgnoreRestartIIN config, mcUnsolClassMask = fmUnsolClassMask config,
      mcStartupIntegrityScan = fmStartupIntegrityScan config, mcIntegrityPeriod = fmIntegrityPeriod config,
      mcMaxRxFragSize = fmMaxRxFragSize config, mcMaxTxFragSize = fmMaxTxFragSize config\<rparr>"

section \<open>Configurations of outstations\<close>

text \<open>
  The configurations of binary, double-bit, frozen counter and binary output points are four types
  with the same fields, one record here; so are those of analog and analog output points.
\<close>

record FacadePointConfig =
  fpcStaticVariation :: byte
  fpcEventVariation :: byte
  fpcClass :: byte

record FacadeAnalogPointConfig = FacadePointConfig +
  fpcDeadband :: float64

record FacadeCounterPointConfig = FacadePointConfig +
  fpcCounterDeadband :: u32

record FacadeDatabaseConfig =
  fdBinary :: "FacadePointConfig list"
  fdDoubleBit :: "FacadePointConfig list"
  fdAnalog :: "FacadeAnalogPointConfig list"
  fdCounter :: "FacadeCounterPointConfig list"
  fdFrozenCounter :: "FacadePointConfig list"
  fdBinaryOutput :: "FacadePointConfig list"
  fdAnalogOutput :: "FacadeAnalogPointConfig list"

record FacadeOutstationConfig =
  foID :: string
  foLocalAddress :: u16
  foRemoteAddress :: u16
  foDatabase :: FacadeDatabaseConfig
  foMaxBinaryEvents :: nat
  foMaxAnalogEvents :: nat
  foMaxCounterEvents :: nat
  foMaxDoubleBitEvents :: nat
  foAllowUnsolicited :: bool
  foUnsolConfirmTimeout :: int
  foSelectTimeout :: int
  foMaxControlsPerRequest :: nat
  foLocalControl :: bool
  foDeviceTrouble :: bool
  foMaxRxFragSize :: u16
  foMaxTxFragSize :: u16

definition DefaultOutstationConfig :: FacadeOutstationConfig where
  "DefaultOutstationConfig =
     \<lparr>foID = [], foLocalAddress = 0, foRemoteAddress = 0,
      foDatabase = \<lparr>fdBinary = [], fdDoubleBit = [], fdAnalog = [], fdCounter = [], fdFrozenCounter = [],
                    fdBinaryOutput = [], fdAnalogOutput = []\<rparr>,
      foMaxBinaryEvents = 100, foMaxAnalogEvents = 100, foMaxCounterEvents = 100, foMaxDoubleBitEvents = 100,
      foAllowUnsolicited = True, foUnsolConfirmTimeout = 5 * time_Second, foSelectTimeout = 10 * time_Second,
      foMaxControlsPerRequest = 16, foLocalControl = False, foDeviceTrouble = False,
      foMaxRxFragSize = 2048, foMaxTxFragSize = 2048\<rparr>"

definition convertBinaryConfigs :: "FacadePointConfig list \<Rightarrow> BinaryPointConfig list" where
  "convertBinaryConfigs configs =
     map (\<lambda>c. \<lparr>bcStaticVariation = fpcStaticVariation c, bcEventVariation = fpcEventVariation c,
               bcClass = fpcClass c\<rparr>) configs"

definition convertDoubleBitConfigs :: "FacadePointConfig list \<Rightarrow> DoubleBitBinaryPointConfig list" where
  "convertDoubleBitConfigs configs =
     map (\<lambda>c. \<lparr>dbcStaticVariation = fpcStaticVariation c, dbcEventVariation = fpcEventVariation c,
               dbcClass = fpcClass c\<rparr>) configs"

definition convertAnalogConfigs :: "FacadeAnalogPointConfig list \<Rightarrow> AnalogPointConfig list" where
  "convertAnalogConfigs configs =
     map (\<lambda>c. \<lparr>acStaticVariation = fpcStaticVariation c, acEventVariation = fpcEventVariation c,
               acClass = fpcClass c, acDeadband = fpcDeadband c\<rparr>) configs"

definition convertCounterConfigs :: "FacadeCounterPointConfig list \<Rightarrow> CounterPointConfig list" where
  "convertCounterConfigs configs =
     map (\<lambda>c. \<lparr>ccStaticVariation = fpcStaticVariation c, ccEventVariation = fpcEventVariation c,
               ccClass = fpcClass c, ccDeadband = fpcCounterDeadband c\<rparr>) configs"

definition convertFrozenCounterConfigs :: "FacadePointConfig list \<Rightarrow> FrozenCounterPointConfig list" where
  "convertFrozenCounterConfigs configs =
     map (\<lambda>c. \<lparr>fzcStaticVariation = fpcStaticVariation c, fzcEventVariation = fpcEventVariation c,
               fzcClass = fpcClass c\<rparr>) configs"

definition convertBinaryOutputConfigs :: "FacadePointConfig list \<Rightarrow> BinaryOutputStatusPointConfig list" where
  "convertBinaryOutputConfigs configs =
     map (\<lambda>c. \<lparr>boscStaticVariation = fpcStaticVariation c, boscEventVariation = fpcEventVariation c,
               boscClass = fpcClass c\<rparr>) configs"

definition convertAnalogOutputConfigs :: "FacadeAnalogPointConfig list \<Rightarrow> AnalogOutputStatusPointConfig list" where
  "convertAnalogOutputConfigs configs =
     map (\<lambda>c. \<lparr>aoscStaticVariation = fpcStaticVariation c, aoscEventVariation = fpcEventVariation c,
               aoscClass = fpcClass c, aoscDeadband = fpcDeadband c\<rparr>) configs"

definition convertDatabaseConfig :: "FacadeDatabaseConfig \<Rightarrow> DatabaseConfig" where
  "convertDatabaseConfig config =
     \<lparr>dcBinary = convertBinaryConfigs (fdBinary config), dcDoubleBit = convertDoubleBitConfigs (fdDoubleBit config),
      dcAnalog = convertAnalogConfigs (fdAnalog config), dcCounter = convertCounterConfigs (fdCounter config),
      dcFrozenCounter = convertFrozenCounterConfigs (fdFrozenCounter config),
      dcBinaryOutput = convertBinaryOutputConfigs (fdBinaryOutput config),
      dcAnalogOutput = convertAnalogOutputConfigs (fdAnalogOutput config)\<rparr>"

definition outstationConfig :: "FacadeOutstationConfig \<Rightarrow> OutstationConfig" where
  "outstationConfig config =
     \<lparr>ocID = foID config, ocLocalAddress = foLocalAddress config, ocRemoteAddress = foRemoteAddress config,
      ocDatabase = convertDatabaseConfig (foDatabase config), ocMaxBinaryEvents = foMaxBinaryEvents config,
      ocMaxAnalogEvents = foMaxAnalogEvents config, ocMaxCounterEvents = foMaxCounterEvents config,
      ocMaxDoubleBitEvents = foMaxDoubleBitEvents config, ocAllowUnsolicited = foAllowUnsolicited config,
      ocUnsolConfirmTimeout = foUnsolConfirmTimeout config, ocSelectTimeout = foSelectTimeout config,
      ocMaxControlsPerRequest = foMaxControlsPerRequest config, ocLocalControl = foLocalControl config,
      ocDeviceTrouble = foDeviceTrouble config, ocMaxRxFragSize = foMaxRxFragSize config,
      ocMaxTxFragSize = foMaxTxFragSize config\<rparr>"

section \<open>Masters and outstations on one channel\<close>

datatype facade_session = MasterSession master | OutstationSession outstation

text \<open>
  \<open>iin\<close> is what the application of the outstation with a given address returns from
  \<open>GetApplicationIIN\<close>.
\<close>

definition facade_ops :: "float_ops \<Rightarrow> (u16 \<Rightarrow> IIN) \<Rightarrow> (facade_session, station_err) session_ops" where
  "facade_ops fo iin =
     \<lparr>soLinkAddress = (\<lambda>s. case s of
          MasterSession m \<Rightarrow> soLinkAddress (master_ops fo) m
        | OutstationSession o1 \<Rightarrow> soLinkAddress (outstation_ops fo (iin (seLinkAddress (ouSession o1)))) o1),
      soType = (\<lambda>s. case s of MasterSession _ \<Rightarrow> SessionTypeMaster | OutstationSession _ \<Rightarrow> SessionTypeOutstation),
      soOnReceive = (\<lambda>s frame c. case s of
          MasterSession m \<Rightarrow>
            (case soOnReceive (master_ops fo) m frame c of (err, m', c') \<Rightarrow> (err, MasterSession m', c'))
        | OutstationSession o1 \<Rightarrow>
            (case soOnReceive (outstation_ops fo (iin (seLinkAddress (ouSession o1)))) o1 frame c of
               (err, o', c') \<Rightarrow> (err, OutstationSession o', c'))),
      soConnection = (\<lambda>s. Some
         (\<lambda>s. case s of
             MasterSession m \<Rightarrow> MasterSession (m\<lparr>maSession := OnConnectionEstablished (maSession m)\<rparr>)
           | OutstationSession o1 \<Rightarrow> OutstationSession (o1\<lparr>ouSession := OnConnectionEstablished (ouSession o1)\<rparr>),
          \<lambda>s. case s of
             MasterSession m \<Rightarrow> MasterSession (m\<lparr>maSession := OnConnectionLost (maSession m)\<rparr>)
           | OutstationSession o1 \<Rightarrow> OutstationSession (o1\<lparr>ouSession := OnConnectionLost (ouSession o1)\<rparr>)))\<rparr>"

type_synonym facade = "facade_session Manager"

text \<open>A station is known by the reference of its channel and its link address.\<close>

type_synonym station_ref = "nat \<times> u16"

definition newMaster ::
  "float_ops \<Rightarrow> (u16 \<Rightarrow> IIN) \<Rightarrow> FacadeMasterConfig \<Rightarrow> nat \<Rightarrow> facade
    \<Rightarrow> (station_err route_err + station_ref) \<times> facade" where
  "newMaster fo iin config h m =
     at_channel h (\<lambda>r c. case New_Master (facade_ops fo iin) MasterSession (masterConfig config) r c of
        (Inl err, r1, c1) \<Rightarrow> (Inl err, r1, c1)
      | (Inr _, r1, c1) \<Rightarrow> (Inr (h, fmLocalAddress config), r1, c1)) m"

definition newOutstation ::
  "float_ops \<Rightarrow> (u16 \<Rightarrow> IIN) \<Rightarrow> FacadeOutstationConfig \<Rightarrow> nat \<Rightarrow> facade
    \<Rightarrow> (station_err route_err + station_ref) \<times> facade" where
  "newOutstation fo iin config h m =
     at_channel h (\<lambda>r c. case New_Outstation (facade_ops fo iin) OutstationSession (outstationConfig config) r c of
        (Inl err, r1, c1) \<Rightarrow> (Inl err, r1, c1)
      | (Inr _, r1, c1) \<Rightarrow> (Inr (h, foLocalAddress config), r1, c1)) m"

definition channelImpl_AddMaster ::
  "float_ops \<Rightarrow> (u16 \<Rightarrow> IIN) \<Rightarrow> FacadeMasterConfig \<Rightarrow> nat \<Rightarrow> facade
    \<Rightarrow> (station_err route_err + station_ref) \<times> facade" where
  "channelImpl_AddMaster fo iin config h m = newMaster fo iin config h m"

definition channelImpl_AddOutstation ::
  "float_ops \<Rightarrow> (u16 \<Rightarrow> IIN) \<Rightarrow> FacadeOutstationConfig \<Rightarrow> nat \<Rightarrow> facade
    \<Rightarrow> (station_err route_err + station_ref) \<times> facade" where
  "channelImpl_AddOutstation fo iin config h m = newOutstation fo iin config h m"

text \<open>
  An operation of a station, which the session at its address is part of. A reference given out by
  \<open>AddMaster\<close> or \<open>AddOutstation\<close> always finds its session, as sessions are never removed; the result
  of any other reference is \<open>None\<close>.
\<close>

definition on_master :: "station_ref \<Rightarrow> (master \<Rightarrow> 'a \<times> master) \<Rightarrow> facade \<Rightarrow> 'a option \<times> facade" where
  "on_master ref f m =
     at_channel (fst ref) (\<lambda>r c. case map_of r (snd ref) of
        Some (MasterSession ma) \<Rightarrow>
          (case f ma of (x, ma') \<Rightarrow> (Some x, set_session r (snd ref) (MasterSession ma'), c))
      | _ \<Rightarrow> (None, r, c)) m"

definition on_outstation ::
  "station_ref \<Rightarrow> (outstation \<Rightarrow> 'a \<times> outstation) \<Rightarrow> facade \<Rightarrow> 'a option \<times> facade" where
  "on_outstation ref f m =
     at_channel (fst ref) (\<lambda>r c. case map_of r (snd ref) of
        Some (OutstationSession ou) \<Rightarrow>
          (case f ou of (x, ou') \<Rightarrow> (Some x, set_session r (snd ref) (OutstationSession ou'), c))
      | _ \<Rightarrow> (None, r, c)) m"

section \<open>The operations of stations\<close>

text \<open>
  What the wrappers return besides an error, a unit if nothing. \<open>SelectAndOperate\<close> and
  \<open>DirectOperate\<close> are the calls up to their wait, which \<open>command_outcome\<close> of the master models.
\<close>

definition masterWrapper_Enable :: "int \<Rightarrow> station_ref \<Rightarrow> facade \<Rightarrow> unit option \<times> facade" where
  "masterWrapper_Enable now ref m = on_master ref (\<lambda>ma. ((), Master_Enable now ma)) m"

definition masterWrapper_Disable :: "station_ref \<Rightarrow> facade \<Rightarrow> unit option \<times> facade" where
  "masterWrapper_Disable ref m = on_master ref (\<lambda>ma. ((), Master_Disable ma)) m"

definition masterWrapper_Shutdown :: "station_ref \<Rightarrow> facade \<Rightarrow> unit option \<times> facade" where
  "masterWrapper_Shutdown ref m = on_master ref (\<lambda>ma. ((), Master_Shutdown ma)) m"

definition masterWrapper_AddIntegrityScan :: "int \<Rightarrow> int \<Rightarrow> station_ref \<Rightarrow> facade \<Rightarrow> int option \<times> facade" where
  "masterWrapper_AddIntegrityScan period now ref m = on_master ref (AddIntegrityScan period now) m"

definition masterWrapper_AddClassScan ::
  "ClassField \<Rightarrow> int \<Rightarrow> int \<Rightarrow> station_ref \<Rightarrow> facade \<Rightarrow> int option \<times> facade" where
  "masterWrapper_AddClassScan classes period now ref m = on_master ref (AddClassScan classes period now) m"

definition masterWrapper_AddRangeScan ::
  "byte \<Rightarrow> byte \<Rightarrow> u16 \<Rightarrow> u16 \<Rightarrow> int \<Rightarrow> int \<Rightarrow> station_ref \<Rightarrow> facade \<Rightarrow> int option \<times> facade" where
  "masterWrapper_AddRangeScan objGroup variation start stop period now ref m =
     on_master ref (AddRangeScan objGroup variation start stop period now) m"

definition masterWrapper_ScanIntegrity :: "int \<Rightarrow> station_ref \<Rightarrow> facade \<Rightarrow> unit option \<times> facade" where
  "masterWrapper_ScanIntegrity now ref m = on_master ref (\<lambda>ma. ((), ScanIntegrity now ma)) m"

definition masterWrapper_ScanClasses :: "ClassField \<Rightarrow> int \<Rightarrow> station_ref \<Rightarrow> facade \<Rightarrow> unit option \<times> facade" where
  "masterWrapper_ScanClasses classes now ref m = on_master ref (\<lambda>ma. ((), ScanClasses classes now ma)) m"

definition masterWrapper_ScanRange ::
  "byte \<Rightarrow> byte \<Rightarrow> u16 \<Rightarrow> u16 \<Rightarrow> int \<Rightarrow> station_ref \<Rightarrow> facade \<Rightarrow> unit option \<times> facade" where
  "masterWrapper_ScanRange objGroup variation start stop now ref m =
     on_master ref (\<lambda>ma. ((), ScanRange objGroup variation start stop now ma)) m"

definition masterWrapper_SelectAndOperate ::
  "Command list \<Rightarrow> nat \<Rightarrow> int \<Rightarrow> station_ref \<Rightarrow> facade \<Rightarrow> unit option \<times> facade" where
  "masterWrapper_SelectAndOperate commands ticket now ref m =
     on_master ref (\<lambda>ma. ((), SelectAndOperate commands ticket now ma)) m"

definition masterWrapper_DirectOperate ::
  "Command list \<Rightarrow> nat \<Rightarrow> int \<Rightarrow> station_ref \<Rightarrow> facade \<Rightarrow> unit option \<times> facade" where
  "masterWrapper_DirectOperate commands ticket now ref m =
     on_master ref (\<lambda>ma. ((), DirectOperate commands ticket now ma)) m"

definition outstationWrapper_Enable :: "station_ref \<Rightarrow> facade \<Rightarrow> unit option \<times> facade" where
  "outstationWrapper_Enable ref m = on_outstation ref (\<lambda>ou. ((), Outstation_Enable ou)) m"

definition outstationWrapper_Disable :: "station_ref \<Rightarrow> facade \<Rightarrow> unit option \<times> facade" where
  "outstationWrapper_Disable ref m = on_outstation ref (\<lambda>ou. ((), Outstation_Disable ou)) m"

definition outstationWrapper_Shutdown :: "station_ref \<Rightarrow> facade \<Rightarrow> unit option \<times> facade" where
  "outstationWrapper_Shutdown ref m = on_outstation ref (\<lambda>ou. ((), Outstation_Shutdown ou)) m"

definition outstationWrapper_SetConfig ::
  "FacadeOutstationConfig \<Rightarrow> station_ref \<Rightarrow> facade \<Rightarrow> unit option \<times> facade" where
  "outstationWrapper_SetConfig config ref m =
     on_outstation ref (\<lambda>ou. ((), SetConfig (outstationConfig config) ou)) m"

section \<open>Updates\<close>

text \<open>
  The wrapped builder is the builder. \<open>Data\<close> of the public \<open>Updates\<close> is an \<open>interface{}\<close>; \<open>Build\<close> puts
  the internal updates there. The event modes of the two packages are converted by their number.
\<close>

datatype FacadeEventMode = FacadeEventModeDetect | FacadeEventModeForce | FacadeEventModeSuppress

definition to_EventMode :: "FacadeEventMode \<Rightarrow> EventMode" where
  "to_EventMode mode =
     (case mode of FacadeEventModeDetect \<Rightarrow> EventModeDetect | FacadeEventModeForce \<Rightarrow> EventModeForce
      | FacadeEventModeSuppress \<Rightarrow> EventModeSuppress)"

datatype updates_data = InternalUpdates UpdateBuilder | OtherData

definition Facade_NewUpdateBuilder :: UpdateBuilder where
  "Facade_NewUpdateBuilder = NewUpdateBuilder"

definition Facade_UpdateBinary :: "UpdateBuilder \<Rightarrow> Binary \<Rightarrow> u16 \<Rightarrow> FacadeEventMode \<Rightarrow> UpdateBuilder" where
  "Facade_UpdateBinary b value index mode = Builder_UpdateBinary b value index (to_EventMode mode)"

definition Facade_UpdateAnalog :: "UpdateBuilder \<Rightarrow> Analog \<Rightarrow> u16 \<Rightarrow> FacadeEventMode \<Rightarrow> UpdateBuilder" where
  "Facade_UpdateAnalog b value index mode = Builder_UpdateAnalog b value index (to_EventMode mode)"

definition Facade_UpdateCounter :: "UpdateBuilder \<Rightarrow> Counter \<Rightarrow> u16 \<Rightarrow> FacadeEventMode \<Rightarrow> UpdateBuilder" where
  "Facade_UpdateCounter b value index mode = Builder_UpdateCounter b value index (to_EventMode mode)"

definition Facade_UpdateDoubleBitBinary ::
  "UpdateBuilder \<Rightarrow> DoubleBitBinary \<Rightarrow> u16 \<Rightarrow> FacadeEventMode \<Rightarrow> UpdateBuilder" where
  "Facade_UpdateDoubleBitBinary b value index mode = Builder_UpdateDoubleBitBinary b value index (to_EventMode mode)"

definition Facade_UpdateFrozenCounter ::
  "UpdateBuilder \<Rightarrow> FrozenCounter \<Rightarrow> u16 \<Rightarrow> FacadeEventMode \<Rightarrow> UpdateBuilder" where
  "Facade_UpdateFrozenCounter b value index mode = Builder_UpdateFrozenCounter b value index (to_EventMode mode)"

definition Facade_UpdateBinaryOutputStatus ::
  "UpdateBuilder \<Rightarrow> BinaryOutputStatus \<Rightarrow> u16 \<Rightarrow> FacadeEventMode \<Rightarrow> UpdateBuilder" where
  "Facade_UpdateBinaryOutputStatus b value index mode =
     Builder_UpdateBinaryOutputStatus b value index (to_EventMode mode)"

definition Facade_UpdateAnalogOutputStatus ::
  "UpdateBuilder \<Rightarrow> AnalogOutputStatus \<Rightarrow> u16 \<Rightarrow> FacadeEventMode \<Rightarrow> UpdateBuilder" where
  "Facade_UpdateAnalogOutputStatus b value index mode =
     Builder_UpdateAnalogOutputStatus b value index (to_EventMode mode)"

definition Facade_Build :: "UpdateBuilder \<Rightarrow> updates_data" where
  "Facade_Build b = InternalUpdates b"

datatype facade_apply_err = InvalidUpdatesType | ApplyFailed apply_err | ApplyPanics

definition outstationWrapper_Apply ::
  "(float64 \<Rightarrow> float64 \<Rightarrow> float64 \<Rightarrow> bool) \<Rightarrow> apply_event \<Rightarrow> updates_data \<Rightarrow> station_ref \<Rightarrow> facade
    \<Rightarrow> facade_apply_err option option \<times> facade" where
  "outstationWrapper_Apply apart event updates ref m =
     (case updates of
        OtherData \<Rightarrow> (Some (Some InvalidUpdatesType), m)
      | InternalUpdates internalUpdates \<Rightarrow>
          on_outstation ref (\<lambda>ou. case Outstation_Apply apart event internalUpdates ou of
             None \<Rightarrow> (Some ApplyPanics, ou)
           | Some (err, ou') \<Rightarrow> (map_option ApplyFailed err, ou')) m)"

section \<open>Commands\<close>

text \<open>The constructors leave the type of the command at its zero value, whatever its data.\<close>

definition NewCROBCommand :: "u16 \<Rightarrow> CommandCROB \<Rightarrow> Command" where
  "NewCROBCommand index crob = \<lparr>cmIndex = index, cmType = 0, cmData = CROBData crob\<rparr>"

definition NewLatchOnCommand :: "u16 \<Rightarrow> Command" where
  "NewLatchOnCommand index = \<lparr>cmIndex = index, cmType = 0, cmData = CROBData
     \<lparr>tcOpType = ControlCodeLatchOn, tcCount = 1, tcOnTimeMs = 0, tcOffTimeMs = 0, tcStatus = 0\<rparr>\<rparr>"

definition NewLatchOffCommand :: "u16 \<Rightarrow> Command" where
  "NewLatchOffCommand index = \<lparr>cmIndex = index, cmType = 0, cmData = CROBData
     \<lparr>tcOpType = ControlCodeLatchOff, tcCount = 1, tcOnTimeMs = 0, tcOffTimeMs = 0, tcStatus = 0\<rparr>\<rparr>"

definition NewPulseOnCommand :: "u16 \<Rightarrow> u32 \<Rightarrow> Command" where
  "NewPulseOnCommand index onTimeMs = \<lparr>cmIndex = index, cmType = 0, cmData = CROBData
     \<lparr>tcOpType = ControlCodePulseOn, tcCount = 1, tcOnTimeMs = onTimeMs, tcOffTimeMs = 0, tcStatus = 0\<rparr>\<rparr>"

definition NewPulseOffCommand :: "u16 \<Rightarrow> u32 \<Rightarrow> Command" where
  "NewPulseOffCommand index offTimeMs = \<lparr>cmIndex = index, cmType = 0, cmData = CROBData
     \<lparr>tcOpType = ControlCodePulseOff, tcCount = 1, tcOnTimeMs = 0, tcOffTimeMs = offTimeMs, tcStatus = 0\<rparr>\<rparr>"

definition NewAnalogOutputInt32Command :: "u16 \<Rightarrow> u32 \<Rightarrow> Command" where
  "NewAnalogOutputInt32Command index value = \<lparr>cmIndex = index, cmType = 0, cmData = AnalogOutputInt32 value 0\<rparr>"

definition NewAnalogOutputInt16Command :: "u16 \<Rightarrow> u16 \<Rightarrow> Command" where
  "NewAnalogOutputInt16Command index value = \<lparr>cmIndex = index, cmType = 0, cmData = AnalogOutputInt16 value 0\<rparr>"

definition NewAnalogOutputFloat32Command :: "u16 \<Rightarrow> u32 \<Rightarrow> Command" where
  "NewAnalogOutputFloat32Command index bits = \<lparr>cmIndex = index, cmType = 0, cmData = AnalogOutputFloat32 bits 0\<rparr>"

definition NewAnalogOutputDouble64Command :: "u16 \<Rightarrow> u64 \<Rightarrow> Command" where
  "NewAnalogOutputDouble64Command index bits = \<lparr>cmIndex = index, cmType = 0, cmData = AnalogOutputDouble64 bits 0\<rparr>"

lemmas command_constructors = NewLatchOnCommand_def NewLatchOffCommand_def NewPulseOnCommand_def
  NewPulseOffCommand_def NewAnalogOutputInt32Command_def NewAnalogOutputInt16Command_def
  NewAnalogOutputFloat32Command_def NewAnalogOutputDouble64Command_def

text \<open>The commands of control relay outputs are sent as the requests of \<open>app.BuildCROBRequest\<close>.\<close>

lemma command_requests:
  "buildCROBObjects [NewLatchOnCommand i] = BuildCROBRequest i NewLatchOn"
  "buildCROBObjects [NewLatchOffCommand i] = BuildCROBRequest i NewLatchOff"
  "buildCROBObjects [NewPulseOnCommand i t] = BuildCROBRequest i (NewPulseOn t)"
  "buildCROBObjects [NewPulseOffCommand i t] = BuildCROBRequest i (NewPulseOff t)"
  by (simp_all add: buildCROBObjects_def add_command_def to_app_crob_def BuildCROBRequest_def command_constructors)

text \<open>The commands of analog outputs are left out of every request.\<close>

lemma analog_commands_unsent:
  "add_command b (NewAnalogOutputInt32Command i v) = b" "add_command b (NewAnalogOutputInt16Command i w) = b"
  "add_command b (NewAnalogOutputFloat32Command i v) = b" "add_command b (NewAnalogOutputDouble64Command i x) = b"
  by (simp_all add: add_command_def command_constructors)

text \<open>Of a control block with one of the usual codes, the count and the other time are left out.\<close>

lemma control_count_dropped:
  "tcOpType c = ControlCodeLatchOn \<Longrightarrow> to_app_crob c = NewLatchOn"
  "tcOpType c = ControlCodePulseOn \<Longrightarrow> to_app_crob c = NewPulseOn (tcOnTimeMs c)"
  by (simp_all add: to_app_crob_def)

section \<open>Reading on a channel with both kinds of stations\<close>

definition channel_reads ::
  "float_ops \<Rightarrow> (u16 \<Rightarrow> IIN) \<Rightarrow> nat \<Rightarrow> bytes option list \<Rightarrow> facade \<Rightarrow> facade" where
  "channel_reads fo iin h events m =
     snd (at_channel h (\<lambda>r c. ((), readLoop (facade_ops fo iin) events r c)) m)"

definition get_session :: "facade_session \<Rightarrow> session" where
  "get_session s = (case s of MasterSession m \<Rightarrow> maSession m | OutstationSession o1 \<Rightarrow> ouSession o1)"

definition put_session :: "session \<Rightarrow> facade_session \<Rightarrow> facade_session" where
  "put_session se s =
     (case s of MasterSession m \<Rightarrow> MasterSession (m\<lparr>maSession := se\<rparr>)
      | OutstationSession o1 \<Rightarrow> OutstationSession (o1\<lparr>ouSession := se\<rparr>))"

definition facade_deliver ::
  "float_ops \<Rightarrow> (u16 \<Rightarrow> IIN) \<Rightarrow> bytes \<Rightarrow> facade_session \<Rightarrow> Channel
    \<Rightarrow> station_err option \<times> facade_session \<times> Channel" where
  "facade_deliver fo iin apdu s c =
     (case s of
        MasterSession m \<Rightarrow> (case master_onReceiveAPDU fo apdu m of (err, m') \<Rightarrow> (err, MasterSession m', c))
      | OutstationSession o1 \<Rightarrow>
          (case outstation_onReceiveAPDU fo (iin (seLinkAddress (ouSession o1))) apdu o1 c of (err, o', c') \<Rightarrow> (err, OutstationSession o', c')))"

interpretation facade_station: station "facade_ops fo iin" get_session put_session
    "\<lambda>f. fIsPrimary f = PrimaryFrame \<and> fFunctionCode f = FuncUserDataUnconfirmed" "facade_deliver fo iin"
  for fo iin
proof unfold_locales
  fix f :: Frame and s :: facade_session and c :: Channel
  assume f: "fIsPrimary f = PrimaryFrame \<and> fFunctionCode f = FuncUserDataUnconfirmed" "fUserData f \<noteq> []"
  show "soOnReceive (facade_ops fo iin) s f c =
      (case transport_input (get_session s) (fUserData f) of
         (None, se) \<Rightarrow> (None, put_session se s, c)
       | (Some apdu, se) \<Rightarrow> facade_deliver fo iin apdu (put_session se s) c)"
  proof (cases s)
    case (MasterSession m)
    show ?thesis
      using f(2)
      by (auto simp: MasterSession facade_ops_def facade_deliver_def get_session_def put_session_def
          master_station.receives split: prod.split option.split)
  next
    case (OutstationSession o1)
    show ?thesis
      using f
      by (auto simp: OutstationSession facade_ops_def facade_deliver_def get_session_def put_session_def
          out_station.receives transport_input_tpdu split: prod.split option.split)
  qed
qed (simp_all add: get_session_def put_session_def split: facade_session.split)

text \<open>An outstation answers on a channel that it shares with any other stations.\<close>

lemma facade_reads_request:
  assumes "channel_up c" and "distinct (map fst r)" and "map_of r (seRemoteAddr ms) = Some (OutstationSession ou)"
    and "APDU_Parse w = Inr a" and "length w \<le> MaxReassemblySize"
  shows "\<exists>ou' c'. readLoop (facade_ops fo iin)
        (map (\<lambda>f. Some (frame_bytes f)) (apdu_frames master_frame ms w)) r c
      = (set_session r (seRemoteAddr ms) (OutstationSession ou'), c')
    \<and> ouDatabase ou' = ouDatabase ou \<and> (\<exists>t. ouSession ou' = (ouSession ou)\<lparr>seTransport := t\<rparr>)
    \<and> channel_up c'
    \<and> chSent c' = chSent c @ map frame_bytes (apdu_frames outstation_frame (ouSession ou)
        (response_bytes_of (answer fo (iin (seLinkAddress (ouSession ou))) (ouDatabase ou) a)))"
proof -
  let ?iin = "iin (seLinkAddress (ouSession ou))"
  have w: "w \<noteq> []" "\<not> chCancelled c" using assms(1,4) by (auto simp: APDU_Parse_def channel_up_def)
  obtain l st where l: "lyTxSequence l = lyTxSequence (seTransport (ouSession ou))"
    "readLoop (facade_ops fo iin)
        (map (\<lambda>t. Some (frame_bytes (master_frame ms t))) (fst (Layer_Send (seTransport ms) w))) r c
      = (case facade_deliver fo iin w (OutstationSession (ou\<lparr>ouSession := (ouSession ou)\<lparr>seTransport := l\<rparr>\<rparr>))
            (c\<lparr>chStats := st\<rparr>) of (err, s', c') \<Rightarrow> (set_session r (seRemoteAddr ms) s', c'))"
    using facade_station.read_apdu [OF master_frames_carry assms(3,2) w(2,1) assms(5)]
    by (force simp: get_session_def put_session_def)
  let ?ou = "ou\<lparr>ouSession := (ouSession ou)\<lparr>seTransport := l\<rparr>\<rparr>" and ?c = "c\<lparr>chStats := st\<rparr>"
  have "channel_up ?c" using assms(1) by simp
  from outstation_answers_apdu [OF this assms(4), of fo ?iin ?ou] obtain ou' c' where
    r: "outstation_onReceiveAPDU fo ?iin w ?ou ?c = (None, ou', c')" "channel_up c'"
    "chSent c' = chSent c @ map frame_bytes (apdu_frames outstation_frame (ouSession ou)
        (response_bytes_of (answer fo ?iin (ouDatabase ou) a)))"
    and ou': "ou' = ?ou\<lparr>ouSession := ouSession ou', ouUnsolicitedMask := ouUnsolicitedMask ou'\<rparr>"
      "\<exists>t. ouSession ou' = (ouSession ou)\<lparr>seTransport := t\<rparr>"
    using apdu_frames_cong [OF l(1)] by auto
  from ou'(1) have "ouDatabase ou' = ouDatabase ou"
    by (metis outstation.select_convs(2) outstation.surjective outstation.update_convs(3,6))
  with l(2) r ou'(2) show ?thesis by (auto simp: apdu_frames_def comp_def facade_deliver_def)
qed

lemma at_channel_nth:
  assumes "h < length (mgStore m)" and "f (mdRouter (mgStore m ! h)) (mdChannel (mgStore m ! h)) = (x, r, c)"
  shows "fst (at_channel h f m) = x" "length (mgStore (snd (at_channel h f m))) = length (mgStore m)"
    "mdRouter (mgStore (snd (at_channel h f m)) ! h) = r" "mdChannel (mgStore (snd (at_channel h f m)) ! h) = c"
  using assms by (simp_all add: at_channel_def)

section \<open>Disabling and enabling a master\<close>

text \<open>
  \<open>Disable\<close> leaves the task processor running, and \<open>Enable\<close> starts another one and adds another
  integrity scan: each time a master is disabled and enabled again it has one processor more, and with
  an integrity period one scan more.
\<close>

definition reenable :: "int \<Rightarrow> master \<Rightarrow> master" where
  "reenable now ma = Master_Enable now (Master_Disable ma)"

lemma reenable_sel:
  "maConfig (reenable now ma) = maConfig ma" "maProcessors (reenable now ma) = maProcessors ma + 1"
  "length (maScans (reenable now ma))
    = length (maScans ma) + (if mcIntegrityPeriod (maConfig ma) > 0 then 1 else 0)"
  by (simp_all add: reenable_def Master_Enable_def Master_Disable_def AddIntegrityScan_def add_scan_def
      push_task_def Let_def)

lemma reenabling_piles_up:
  "maProcessors (foldl (\<lambda>ma now. reenable now ma) ma nows) = maProcessors ma + length nows"
  "length (maScans (foldl (\<lambda>ma now. reenable now ma) ma nows))
    = length (maScans ma) + (if mcIntegrityPeriod (maConfig ma) > 0 then length nows else 0)"
  by (induction nows arbitrary: ma) (auto simp: reenable_sel)

section \<open>Requests after a shutdown\<close>

text \<open>The frames of a message of a master session, as a channel reads them.\<close>

definition reads_message :: "float_ops \<Rightarrow> (u16 \<Rightarrow> IIN) \<Rightarrow> nat \<Rightarrow> session \<times> bytes \<Rightarrow> facade \<Rightarrow> facade" where
  "reads_message fo iin h message =
     (case message of (ms, w) \<Rightarrow>
        channel_reads fo iin h (map (\<lambda>f. Some (frame_bytes f)) (apdu_frames master_frame ms w)))"

text \<open>A message for the station at an address, of a size the station can reassemble.\<close>

definition message_for :: "u16 \<Rightarrow> session \<times> bytes \<Rightarrow> bool" where
  "message_for addr message \<longleftrightarrow>
     (case message of (ms, w) \<Rightarrow>
        seRemoteAddr ms = addr \<and> length w \<le> MaxReassemblySize \<and> is_ok (APDU_Parse w))"

text \<open>On the open channel \<open>h\<close> the outstation \<open>ou\<close> is at its address, its transport layer in any state.\<close>

definition stands_by :: "nat \<Rightarrow> u16 \<Rightarrow> outstation \<Rightarrow> facade \<Rightarrow> bool" where
  "stands_by h addr ou m \<longleftrightarrow> h < length (mgStore m) \<and> channel_up (mdChannel (mgStore m ! h))
     \<and> distinct (map fst (mdRouter (mgStore m ! h)))
     \<and> (\<exists>ou' t. map_of (mdRouter (mgStore m ! h)) addr = Some (OutstationSession ou')
          \<and> ouDatabase ou' = ouDatabase ou \<and> ouSession ou' = (ouSession ou)\<lparr>seTransport := t\<rparr>)"

lemma stands_by_shutdown:
  assumes "stands_by h addr ou m"
  shows "stands_by h addr ou (snd (outstationWrapper_Shutdown (h, addr) m))"
    and "mdChannel (mgStore (snd (outstationWrapper_Shutdown (h, addr) m)) ! h) = mdChannel (mgStore m ! h)"
  using assms
  by (auto simp: stands_by_def outstationWrapper_Shutdown_def on_outstation_def at_channel_nth
      Outstation_Shutdown_def Outstation_Disable_def map_of_set_session)

lemma stands_by_reads:
  assumes "stands_by h addr ou m" and "message_for addr (ms, w)" and "APDU_Parse w = Inr a"
  shows "stands_by h addr ou (reads_message fo iin h (ms, w) m)"
    and "\<exists>t. chSent (mdChannel (mgStore (reads_message fo iin h (ms, w) m) ! h)) = chSent (mdChannel (mgStore m ! h))
      @ map frame_bytes (apdu_frames outstation_frame ((ouSession ou)\<lparr>seTransport := t\<rparr>)
          (response_bytes_of (answer fo (iin (seLinkAddress (ouSession ou))) (ouDatabase ou) a)))"
proof -
  let ?r = "mdRouter (mgStore m ! h)" and ?c = "mdChannel (mgStore m ! h)"
  let ?frames = "map (\<lambda>f. Some (frame_bytes f)) (apdu_frames master_frame ms w)"
  obtain ou1 t1 where ou1: "map_of ?r addr = Some (OutstationSession ou1)" "ouDatabase ou1 = ouDatabase ou"
    "ouSession ou1 = (ouSession ou)\<lparr>seTransport := t1\<rparr>"
    using assms(1) by (auto simp: stands_by_def)
  have m: "h < length (mgStore m)" "channel_up ?c" "distinct (map fst ?r)" "seRemoteAddr ms = addr"
    "length w \<le> MaxReassemblySize"
    using assms(1,2) by (simp_all add: stands_by_def message_for_def)
  obtain ou' c' t' where read: "readLoop (facade_ops fo iin) ?frames ?r ?c = (set_session ?r addr (OutstationSession ou'), c')"
    and ou': "ouDatabase ou' = ouDatabase ou1" "ouSession ou' = (ouSession ou1)\<lparr>seTransport := t'\<rparr>" "channel_up c'"
    and sent: "chSent c' = chSent ?c @ map frame_bytes (apdu_frames outstation_frame (ouSession ou1)
        (response_bytes_of (answer fo (iin (seLinkAddress (ouSession ou1))) (ouDatabase ou1) a)))"
    using facade_reads_request [of ?c ?r ms ou1 w a fo iin] m ou1(1) assms(3) by auto
  have m': "length (mgStore (reads_message fo iin h (ms, w) m)) = length (mgStore m)"
    "mdRouter (mgStore (reads_message fo iin h (ms, w) m) ! h) = set_session ?r addr (OutstationSession ou')"
    "mdChannel (mgStore (reads_message fo iin h (ms, w) m) ! h) = c'"
    using m(1) read by (simp_all add: reads_message_def channel_reads_def at_channel_nth)
  show "stands_by h addr ou (reads_message fo iin h (ms, w) m)"
    using m m' ou' ou1 by (auto simp: stands_by_def map_of_set_session)
  show "\<exists>t. chSent (mdChannel (mgStore (reads_message fo iin h (ms, w) m) ! h)) = chSent ?c
      @ map frame_bytes (apdu_frames outstation_frame ((ouSession ou)\<lparr>seTransport := t\<rparr>)
          (response_bytes_of (answer fo (iin (seLinkAddress (ouSession ou))) (ouDatabase ou) a)))"
    using sent ou1 m'(3) by auto
qed

lemma stands_by_reads_all:
  assumes "stands_by h addr ou m" and "list_all (message_for addr) messages"
  shows "stands_by h addr ou (fold (reads_message fo iin h) messages m)"
  using assms
proof (induction messages arbitrary: m)
  case (Cons message messages)
  obtain ms w where message: "message = (ms, w)" by fastforce
  obtain a where "APDU_Parse w = Inr a"
    using Cons.prems(2) by (auto simp: message message_for_def split: sum.splits)
  with stands_by_reads(1) [OF Cons.prems(1)] Cons show ?case by (simp add: message)
qed simp

lemma address_taken:
  assumes "h < length (mgStore m)" and "map_of (mdRouter (mgStore m ! h)) addr \<noteq> None"
  shows "foLocalAddress oc = addr \<Longrightarrow> fst (channelImpl_AddOutstation fo iin oc h m) = Inl (SessionExists addr)"
    and "fmLocalAddress mc = addr \<Longrightarrow> fst (channelImpl_AddMaster fo iin mc h m) = Inl (SessionExists addr)"
proof -
  let ?r = "mdRouter (mgStore m ! h)" and ?c = "mdChannel (mgStore m ! h)"
  show "fst (channelImpl_AddOutstation fo iin oc h m) = Inl (SessionExists addr)" if "foLocalAddress oc = addr"
  proof -
    have "New_Outstation (facade_ops fo iin) OutstationSession (outstationConfig oc) ?r ?c
      = (Inl (SessionExists addr), ?r, ?c)"
      using that assms(2)
      by (simp add: New_Outstation_def Channel_AddSession_def Router_AddSession_def facade_ops_def outstation_ops_def
          new_outstation_def newSession_def outstationConfig_def Let_def)
    then show ?thesis
      using assms(1) by (simp add: channelImpl_AddOutstation_def newOutstation_def at_channel_nth)
  qed
  show "fst (channelImpl_AddMaster fo iin mc h m) = Inl (SessionExists addr)" if "fmLocalAddress mc = addr"
  proof -
    have "New_Master (facade_ops fo iin) MasterSession (masterConfig mc) ?r ?c = (Inl (SessionExists addr), ?r, ?c)"
      using that assms(2)
      by (simp add: New_Master_def Channel_AddSession_def Router_AddSession_def facade_ops_def master_ops_def
          new_master_def newSession_def masterConfig_def Let_def)
    then show ?thesis using assms(1) by (simp add: channelImpl_AddMaster_def newMaster_def at_channel_nth)
  qed
qed

section \<open>Properties\<close>

text \<open>
  C28: an outstation that was shut down goes on answering and keeps its address. Take an outstation on
  an open channel of the manager, whose writes succeed, with any other stations beside it, and call
  its \<open>Shutdown\<close>. Let any number of messages for the outstation arrive one after the
  other, from any masters, each of at most 2048 bytes and an APDU that parses. The outstation answers
  the last of them, and so each of them: it writes the frames of one response to it, with the data of
  its database as it was at the shutdown. And neither an outstation nor a master can be added to the
  channel at its address afterwards: \<open>AddOutstation\<close> and \<open>AddMaster\<close> fail
  with the error that the session exists.
\<close>

theorem shut_down_outstation_answers:
  assumes "h < length (mgStore m)" and "channel_up (mdChannel (mgStore m ! h))"
    and "distinct (map fst (mdRouter (mgStore m ! h)))"
    and "map_of (mdRouter (mgStore m ! h)) addr = Some (OutstationSession ou)"
    and "list_all (message_for addr) earlier" and "message_for addr (ms, w)" and "APDU_Parse w = Inr a"
    and "m1 = snd (outstationWrapper_Shutdown (h, addr) m)"
    and "m2 = fold (reads_message fo iin h) earlier m1" and "m3 = reads_message fo iin h (ms, w) m2"
  shows "(\<exists>t. chSent (mdChannel (mgStore m3 ! h)) = chSent (mdChannel (mgStore m2 ! h))
        @ map frame_bytes (apdu_frames outstation_frame ((ouSession ou)\<lparr>seTransport := t\<rparr>)
            (response_bytes_of (answer fo (iin (seLinkAddress (ouSession ou))) (ouDatabase ou) a))))
    \<and> (foLocalAddress oc = addr \<longrightarrow> fst (channelImpl_AddOutstation fo iin oc h m3) = Inl (SessionExists addr))
    \<and> (fmLocalAddress mc = addr \<longrightarrow> fst (channelImpl_AddMaster fo iin mc h m3) = Inl (SessionExists addr))"
proof -
  have "stands_by h addr ou m"
    using assms(1-4) by (auto simp: stands_by_def intro: exI [of _ "seTransport (ouSession ou)"])
  then have m2: "stands_by h addr ou m2"
    unfolding assms(9,8) by (intro stands_by_reads_all stands_by_shutdown(1) assms(5))
  note m3 = stands_by_reads [OF this assms(6,7), of fo iin, folded assms(10)]
  then have "h < length (mgStore m3)" "map_of (mdRouter (mgStore m3 ! h)) addr \<noteq> None"
    by (auto simp: stands_by_def)
  then show ?thesis using address_taken [of h m3 addr] m3(2) by blast
qed

text \<open>A manager with one channel and, at address 10, an outstation for a master at address 1.\<close>

definition sample_facade_config :: FacadeOutstationConfig where
  "sample_facade_config = DefaultOutstationConfig\<lparr>foLocalAddress := 10, foRemoteAddress := 1\<rparr>"

definition sample_facade :: facade where
  "sample_facade = snd (channelImpl_AddOutstation sample_floats (\<lambda>_. \<lparr>iin1 = 0, iin2 = 0\<rparr>) sample_facade_config 0
     (snd (AddChannel ''tcp'' [] NewManager)))"

lemma sample_facade:
  "mgStore sample_facade = [\<lparr>mdID = ''tcp'',
     mdRouter = [(10, OutstationSession (new_outstation (outstationConfig sample_facade_config)))],
     mdChannel = (NewChannel [])\<lparr>chState := ChannelStateOpen, chStats := SetActiveSessions 1 NewStatistics\<rparr>\<rparr>]"
  by (simp add: sample_facade_def sample_facade_config_def DefaultOutstationConfig_def AddChannel_def NewManager_def
      Channel_Open_def NewChannel_def channelImpl_AddOutstation_def newOutstation_def at_channel_def New_Outstation_def
      Channel_AddSession_def Router_AddSession_def NewRouter_def facade_ops_def outstation_ops_def new_outstation_def
      newSession_def outstationConfig_def GetSessionCount_def Let_def)

text \<open>Two messages with a function code that the outstation does not support.\<close>

theorem shut_down_outstation_answers_witness:
  "let iin = (\<lambda>_. \<lparr>iin1 = 0, iin2 = 0\<rparr>);
       m1 = snd (outstationWrapper_Shutdown (0, 10) sample_facade);
       m2 = reads_message sample_floats iin 0 (newSession 1 10, [0xC3, 0x17]) m1;
       m3 = reads_message sample_floats iin 0 (newSession 1 10, [0xC4, 0x17]) m2
   in (\<exists>t. chSent (mdChannel (mgStore m3 ! 0)) = chSent (mdChannel (mgStore m2 ! 0))
        @ map frame_bytes (apdu_frames outstation_frame ((newSession 10 1)\<lparr>seTransport := t\<rparr>) [0xC4, 0x81, 0, 1]))
      \<and> fst (channelImpl_AddOutstation sample_floats iin sample_facade_config 0 m3) = Inl (SessionExists 10)
      \<and> fst (channelImpl_AddMaster sample_floats iin (DefaultMasterConfig\<lparr>fmLocalAddress := 10\<rparr>) 0 m3)
          = Inl (SessionExists 10)"
proof -
  let ?iin = "\<lambda>_. \<lparr>iin1 = 0, iin2 = 0\<rparr> :: IIN" and ?ou = "new_outstation (outstationConfig sample_facade_config)"
  obtain a b where a: "APDU_Parse [0xC4, 0x17] = Inr a" "apFunctionCode a = 0x17" "apSequence a = 4"
    and b: "APDU_Parse [0xC3, 0x17] = Inr b"
    by (simp add: APDU_Parse_def IsResponse_def APDU_parseControl_def Let_def)
  have ou: "ouSession ?ou = newSession 10 1"
    by (simp add: new_outstation_def outstationConfig_def sample_facade_config_def DefaultOutstationConfig_def Let_def)
  have answer: "response_bytes_of (answer sample_floats i db a) = [0xC4, 0x81, 0, 1]" for i db
    by (simp add: answer_def a response_bytes_of_def NewResponseAPDU_def APDU_Serialize_def APDU_buildControl_def
        IsResponse_def IIN2NoFuncCodeSupport_def Let_def)
  have msgs: "list_all (message_for 10) [(newSession 1 10, [0xC3, 0x17])]" "message_for 10 (newSession 1 10, [0xC4, 0x17])"
    by (simp_all add: message_for_def a(1) b newSession_def MaxReassemblySize_def)
  have "0 < length (mgStore sample_facade)" "channel_up (mdChannel (mgStore sample_facade ! 0))"
    "distinct (map fst (mdRouter (mgStore sample_facade ! 0)))"
    "map_of (mdRouter (mgStore sample_facade ! 0)) 10 = Some (OutstationSession ?ou)"
    by (simp_all add: sample_facade channel_up_def NewChannel_def)
  note answers = shut_down_outstation_answers [OF this msgs a(1) refl refl refl, of sample_floats ?iin
      sample_facade_config "DefaultMasterConfig\<lparr>fmLocalAddress := 10\<rparr>"]
  have "foLocalAddress sample_facade_config = 10" by (simp add: sample_facade_config_def)
  then show ?thesis
    using answers unfolding Let_def answer ou by simp
qed

end
