(* ===== verification/Facade_Callbacks.thy ===== *)
theory Facade_Callbacks
  imports Facade_Stations
begin

text \<open>
  The callbacks of the API (\<open>pkg/dnp3/master.go\<close>, \<open>outstation.go\<close>) and the wrappers between them and
  the callbacks of the stations (\<open>masterCallbacksWrapper\<close>, \<open>outstationCallbacksWrapper\<close>,
  \<open>updateHandlerWrapper\<close>): what the application is told is what the station says, in its own types.
\<close>

section \<open>Callbacks of a master\<close>

record FacadeResponseInfo =
  friUnsolicited :: bool
  friFIR :: bool
  friFIN :: bool

record FacadeHeaderInfo =
  fhiGroup :: byte
  fhiVariation :: byte
  fhiQualifier :: byte
  fhiIsEvent :: bool

datatype FacadeTaskType =
    FacadeTaskTypeIntegrityScan | FacadeTaskTypeClassScan | FacadeTaskTypeRangeScan | FacadeTaskTypeCommand

datatype FacadeTaskResult = FacadeTaskResultSuccess | FacadeTaskResultFailure | FacadeTaskResultTimeout

text \<open>
  A call of each method of \<open>MasterCallbacks\<close>, over the types of the station or of the API. The time of
  \<open>GetTime\<close> is an answer and no argument.
\<close>

datatype ('ri, 'hi, 'tt, 'tr) master_call =
    CallBeginFragment 'ri
  | CallEndFragment 'ri
  | CallProcessBinary 'hi "(u16 \<times> Binary) list"
  | CallProcessDoubleBitBinary 'hi "(u16 \<times> DoubleBitBinary) list"
  | CallProcessAnalog 'hi "(u16 \<times> Analog) list"
  | CallProcessCounter 'hi "(u16 \<times> Counter) list"
  | CallProcessFrozenCounter 'hi "(u16 \<times> FrozenCounter) list"
  | CallProcessBinaryOutputStatus 'hi "(u16 \<times> BinaryOutputStatus) list"
  | CallProcessAnalogOutputStatus 'hi "(u16 \<times> AnalogOutputStatus) list"
  | CallReceiveIIN IIN
  | CallTaskStart 'tt int
  | CallTaskComplete 'tt int 'tr
  | CallGetTime

type_synonym station_call = "(ResponseInfo, HeaderInfo, TaskType, TaskResult) master_call"
type_synonym facade_call = "(FacadeResponseInfo, FacadeHeaderInfo, FacadeTaskType, FacadeTaskResult) master_call"

definition to_ResponseInfo :: "ResponseInfo \<Rightarrow> FacadeResponseInfo" where
  "to_ResponseInfo info =
     \<lparr>friUnsolicited = riUnsolicited info, friFIR = riFIR info, friFIN = riFIN info\<rparr>"

definition to_HeaderInfo :: "HeaderInfo \<Rightarrow> FacadeHeaderInfo" where
  "to_HeaderInfo info =
     \<lparr>fhiGroup = hiGroup info, fhiVariation = hiVariation info, fhiQualifier = hiQualifier info,
      fhiIsEvent = hiIsEvent info\<rparr>"

text \<open>The enumerations are converted by their number.\<close>

fun to_TaskType :: "TaskType \<Rightarrow> FacadeTaskType" where
  "to_TaskType TaskTypeIntegrityScan = FacadeTaskTypeIntegrityScan"
| "to_TaskType TaskTypeClassScan = FacadeTaskTypeClassScan"
| "to_TaskType TaskTypeRangeScan = FacadeTaskTypeRangeScan"
| "to_TaskType TaskTypeCommand = FacadeTaskTypeCommand"

fun to_TaskResult :: "TaskResult \<Rightarrow> FacadeTaskResult" where
  "to_TaskResult TaskResultSuccess = FacadeTaskResultSuccess"
| "to_TaskResult TaskResultFailure = FacadeTaskResultFailure"
| "to_TaskResult TaskResultTimeout = FacadeTaskResultTimeout"

fun masterCallbacksWrapper :: "station_call \<Rightarrow> facade_call" where
  "masterCallbacksWrapper (CallBeginFragment info) = CallBeginFragment (to_ResponseInfo info)"
| "masterCallbacksWrapper (CallEndFragment info) = CallEndFragment (to_ResponseInfo info)"
| "masterCallbacksWrapper (CallProcessBinary info values) = CallProcessBinary (to_HeaderInfo info) values"
| "masterCallbacksWrapper (CallProcessDoubleBitBinary info values) = CallProcessDoubleBitBinary (to_HeaderInfo info) values"
| "masterCallbacksWrapper (CallProcessAnalog info values) = CallProcessAnalog (to_HeaderInfo info) values"
| "masterCallbacksWrapper (CallProcessCounter info values) = CallProcessCounter (to_HeaderInfo info) values"
| "masterCallbacksWrapper (CallProcessFrozenCounter info values) = CallProcessFrozenCounter (to_HeaderInfo info) values"
| "masterCallbacksWrapper (CallProcessBinaryOutputStatus info values) =
     CallProcessBinaryOutputStatus (to_HeaderInfo info) values"
| "masterCallbacksWrapper (CallProcessAnalogOutputStatus info values) =
     CallProcessAnalogOutputStatus (to_HeaderInfo info) values"
| "masterCallbacksWrapper (CallReceiveIIN iin) = CallReceiveIIN iin"
| "masterCallbacksWrapper (CallTaskStart taskType i) = CallTaskStart (to_TaskType taskType) i"
| "masterCallbacksWrapper (CallTaskComplete taskType i result) =
     CallTaskComplete (to_TaskType taskType) i (to_TaskResult result)"
| "masterCallbacksWrapper CallGetTime = CallGetTime"

text \<open>The wrapper loses nothing: different calls of the station are different calls for the application.\<close>

lemma to_ResponseInfo_inj: "to_ResponseInfo a = to_ResponseInfo b \<longleftrightarrow> a = b"
  by (cases a, cases b) (simp add: to_ResponseInfo_def)

lemma to_HeaderInfo_inj: "to_HeaderInfo a = to_HeaderInfo b \<longleftrightarrow> a = b"
  by (cases a, cases b) (simp add: to_HeaderInfo_def)

lemma to_TaskType_inj: "to_TaskType a = to_TaskType b \<longleftrightarrow> a = b"
  by (cases a; cases b) simp_all

lemma to_TaskResult_inj: "to_TaskResult a = to_TaskResult b \<longleftrightarrow> a = b"
  by (cases a; cases b) simp_all

lemmas wrapper_inj = to_ResponseInfo_inj to_HeaderInfo_inj to_TaskType_inj to_TaskResult_inj

lemma masterCallbacksWrapper_inj: "inj masterCallbacksWrapper"
proof (rule injI)
  fix a b
  assume "masterCallbacksWrapper a = masterCallbacksWrapper b"
  then show "a = b" by (cases a; cases b) (simp_all add: wrapper_inj)
qed

section \<open>Callbacks of an outstation\<close>

datatype OperateType =
    OperateTypeSelectBeforeOperate | OperateTypeDirectOperate | OperateTypeDirectOperateNoAck

datatype FacadeOperateType =
    FacadeOperateTypeSelectBeforeOperate | FacadeOperateTypeDirectOperate | FacadeOperateTypeDirectOperateNoAck

fun to_OperateType :: "OperateType \<Rightarrow> FacadeOperateType" where
  "to_OperateType OperateTypeSelectBeforeOperate = FacadeOperateTypeSelectBeforeOperate"
| "to_OperateType OperateTypeDirectOperate = FacadeOperateTypeDirectOperate"
| "to_OperateType OperateTypeDirectOperateNoAck = FacadeOperateTypeDirectOperateNoAck"

text \<open>A handler of updates over a state, with event modes of either package.\<close>

type_synonym ('m, 's) update_handler = "measurement \<Rightarrow> u16 \<Rightarrow> 'm \<Rightarrow> 's \<Rightarrow> bool \<times> 's"

definition updateHandlerWrapper :: "(EventMode, 's) update_handler \<Rightarrow> (FacadeEventMode, 's) update_handler" where
  "updateHandlerWrapper handler meas index mode = handler meas index (to_EventMode mode)"

text \<open>
  The callbacks of an outstation over the state of the application and of its updates. The five pairs
  of select and operate, one for each type of command, are one pair over the type of all commands.
\<close>

record ('op, 'm, 's) OutstationCallbacks =
  obBegin :: "'s \<Rightarrow> 's"
  obEnd :: "'s \<Rightarrow> 's"
  obSelect :: "command_data \<Rightarrow> u16 \<Rightarrow> 's \<Rightarrow> CommandStatus \<times> 's"
  obOperate :: "command_data \<Rightarrow> u16 \<Rightarrow> 'op \<Rightarrow> ('m, 's) update_handler \<Rightarrow> 's \<Rightarrow> CommandStatus \<times> 's"
  obOnConfirmReceived :: "bool \<Rightarrow> nat \<Rightarrow> nat \<Rightarrow> nat \<Rightarrow> 's \<Rightarrow> 's"
  obOnUnsolicitedResponse :: "bool \<Rightarrow> byte \<Rightarrow> 's \<Rightarrow> 's"
  obGetApplicationIIN :: "'s \<Rightarrow> IIN"

definition outstationCallbacksWrapper ::
  "(FacadeOperateType, FacadeEventMode, 's) OutstationCallbacks \<Rightarrow> (OperateType, EventMode, 's) OutstationCallbacks" where
  "outstationCallbacksWrapper callbacks =
     \<lparr>obBegin = obBegin callbacks,
      obEnd = obEnd callbacks,
      obSelect = obSelect callbacks,
      obOperate = (\<lambda>command index opType handler.
        let wrappedHandler = updateHandlerWrapper handler
        in obOperate callbacks command index (to_OperateType opType) wrappedHandler),
      obOnConfirmReceived = obOnConfirmReceived callbacks,
      obOnUnsolicitedResponse = obOnUnsolicitedResponse callbacks,
      obGetApplicationIIN = obGetApplicationIIN callbacks\<rparr>"

end
