(* ===== verification/Measurement_Types.thy ===== *)
theory Measurement_Types
  imports Outstation_Database
begin

text \<open>
  The interface \<open>Measurement\<close> of \<open>pkg/types/measurements.go\<close>: the quality flags and the time of each
  type of measurement, and of a measurement whose type is known at run time only.
\<close>

definition Binary_GetFlags :: "Binary \<Rightarrow> Flags" where "Binary_GetFlags b = biFlags b"
definition Binary_GetTime :: "Binary \<Rightarrow> DNP3Time" where "Binary_GetTime b = biTime b"
definition DoubleBitBinary_GetFlags :: "DoubleBitBinary \<Rightarrow> Flags" where "DoubleBitBinary_GetFlags d = dbFlags d"
definition DoubleBitBinary_GetTime :: "DoubleBitBinary \<Rightarrow> DNP3Time" where "DoubleBitBinary_GetTime d = dbTime d"
definition Analog_GetFlags :: "Analog \<Rightarrow> Flags" where "Analog_GetFlags a = anFlags a"
definition Analog_GetTime :: "Analog \<Rightarrow> DNP3Time" where "Analog_GetTime a = anTime a"
definition Counter_GetFlags :: "Counter \<Rightarrow> Flags" where "Counter_GetFlags c = cnFlags c"
definition Counter_GetTime :: "Counter \<Rightarrow> DNP3Time" where "Counter_GetTime c = cnTime c"
definition FrozenCounter_GetFlags :: "FrozenCounter \<Rightarrow> Flags" where "FrozenCounter_GetFlags f = fcFlags f"
definition FrozenCounter_GetTime :: "FrozenCounter \<Rightarrow> DNP3Time" where "FrozenCounter_GetTime f = fcTime f"
definition BinaryOutputStatus_GetFlags :: "BinaryOutputStatus \<Rightarrow> Flags" where "BinaryOutputStatus_GetFlags b = boFlags b"
definition BinaryOutputStatus_GetTime :: "BinaryOutputStatus \<Rightarrow> DNP3Time" where "BinaryOutputStatus_GetTime b = boTime b"
definition AnalogOutputStatus_GetFlags :: "AnalogOutputStatus \<Rightarrow> Flags" where "AnalogOutputStatus_GetFlags a = asFlags a"
definition AnalogOutputStatus_GetTime :: "AnalogOutputStatus \<Rightarrow> DNP3Time" where "AnalogOutputStatus_GetTime a = asTime a"

fun Measurement_GetFlags :: "measurement \<Rightarrow> Flags" where
  "Measurement_GetFlags (MBinary v) = Binary_GetFlags v"
| "Measurement_GetFlags (MDoubleBit v) = DoubleBitBinary_GetFlags v"
| "Measurement_GetFlags (MAnalog v) = Analog_GetFlags v"
| "Measurement_GetFlags (MCounter v) = Counter_GetFlags v"
| "Measurement_GetFlags (MFrozenCounter v) = FrozenCounter_GetFlags v"
| "Measurement_GetFlags (MBinaryOutput v) = BinaryOutputStatus_GetFlags v"
| "Measurement_GetFlags (MAnalogOutput v) = AnalogOutputStatus_GetFlags v"

fun Measurement_GetTime :: "measurement \<Rightarrow> DNP3Time" where
  "Measurement_GetTime (MBinary v) = Binary_GetTime v"
| "Measurement_GetTime (MDoubleBit v) = DoubleBitBinary_GetTime v"
| "Measurement_GetTime (MAnalog v) = Analog_GetTime v"
| "Measurement_GetTime (MCounter v) = Counter_GetTime v"
| "Measurement_GetTime (MFrozenCounter v) = FrozenCounter_GetTime v"
| "Measurement_GetTime (MBinaryOutput v) = BinaryOutputStatus_GetTime v"
| "Measurement_GetTime (MAnalogOutput v) = AnalogOutputStatus_GetTime v"

lemmas measurement_flags = Binary_GetFlags_def DoubleBitBinary_GetFlags_def Analog_GetFlags_def Counter_GetFlags_def
  FrozenCounter_GetFlags_def BinaryOutputStatus_GetFlags_def AnalogOutputStatus_GetFlags_def

lemmas measurement_times = Binary_GetTime_def DoubleBitBinary_GetTime_def Analog_GetTime_def Counter_GetTime_def
  FrozenCounter_GetTime_def BinaryOutputStatus_GetTime_def AnalogOutputStatus_GetTime_def

text \<open>A batch whose updates are all online and make no events; each builder operation keeps it so.\<close>

definition quiet_batch :: "UpdateBuilder \<Rightarrow> bool" where
  "quiet_batch b \<longleftrightarrow> (\<forall>key. case b key of None \<Rightarrow> True
     | Some (v, mode) \<Rightarrow> Measurement_GetFlags v = FlagOnline \<and> mode = EventModeSuppress)"

lemma quiet_new: "quiet_batch NewUpdateBuilder"
  by (simp add: quiet_batch_def NewUpdateBuilder_def)

lemma quiet_update:
  "quiet_batch b \<Longrightarrow> Measurement_GetFlags v = FlagOnline \<Longrightarrow> quiet_batch (b(key \<mapsto> (v, EventModeSuppress)))"
  by (simp add: quiet_batch_def)

lemma quiet_fold:
  "quiet_batch b \<Longrightarrow> (\<And>i b. quiet_batch b \<Longrightarrow> quiet_batch (f i b)) \<Longrightarrow> quiet_batch (fold f is b)"
  by (induction "is" arbitrary: b) simp_all

end
