(* ===== verification/Example_Outstation.thy ===== *)
theory Example_Outstation
  imports Facade_Callbacks Measurement_Types
begin

text \<open>
  The outstations of the examples, on the API: \<open>simple_client.go\<close> (an outstation in spite of its name)
  and \<open>test_outstation.go\<close>. Modelled are their databases and configurations, how a line of the operator
  becomes a batch of updates, the updates that are made in the background, the callbacks of commands,
  and the loops that apply the batches. Clock readings, random readings, the sum of two floats and
  the scanning of a float are arguments. What is printed is left out but for the answer to a line.
\<close>

section \<open>Configurations\<close>

definition float_half :: float64 where "float_half = 0x3FE0000000000000"
definition float_one :: float64 where "float_one = 0x3FF0000000000000"
definition float_20_5 :: float64 where "float_20_5 = 0x4034800000000000"

definition point_config :: "byte \<Rightarrow> byte \<Rightarrow> byte \<Rightarrow> FacadePointConfig" where
  "point_config static event cls =
     \<lparr>fpcStaticVariation = static, fpcEventVariation = event, fpcClass = cls\<rparr>"

definition analog_config :: "byte \<Rightarrow> byte \<Rightarrow> byte \<Rightarrow> float64 \<Rightarrow> FacadeAnalogPointConfig" where
  "analog_config static event cls deadband =
     \<lparr>fpcStaticVariation = static, fpcEventVariation = event, fpcClass = cls, fpcDeadband = deadband\<rparr>"

definition counter_config :: "byte \<Rightarrow> byte \<Rightarrow> byte \<Rightarrow> u32 \<Rightarrow> FacadeCounterPointConfig" where
  "counter_config static event cls deadband =
     \<lparr>fpcStaticVariation = static, fpcEventVariation = event, fpcClass = cls, fpcCounterDeadband = deadband\<rparr>"

definition client_database :: FacadeDatabaseConfig where
  "client_database =
     \<lparr>fdBinary = replicate 1 (point_config 1 2 1), fdDoubleBit = replicate 1 (point_config 1 2 1),
      fdAnalog = replicate 1 (analog_config 1 1 2 float_half), fdCounter = replicate 1 (counter_config 1 1 2 0),
      fdFrozenCounter = replicate 1 (point_config 1 1 2), fdBinaryOutput = replicate 1 (point_config 1 2 1),
      fdAnalogOutput = replicate 1 (analog_config 1 1 2 float_half)\<rparr>"

definition client_config :: FacadeOutstationConfig where
  "client_config = DefaultOutstationConfig
     \<lparr>foID := ''outstation1'', foLocalAddress := 10, foRemoteAddress := 1, foDatabase := client_database\<rparr>"

definition test_database :: FacadeDatabaseConfig where
  "test_database =
     \<lparr>fdBinary = replicate 10 (point_config 2 2 1), fdDoubleBit = replicate 10 (point_config 1 2 1),
      fdAnalog = replicate 10 (analog_config 5 1 2 float_one), fdCounter = replicate 10 (counter_config 5 1 2 5),
      fdFrozenCounter = replicate 10 (point_config 1 1 2), fdBinaryOutput = replicate 10 (point_config 1 2 1),
      fdAnalogOutput = replicate 10 (analog_config 1 1 2 float_one)\<rparr>"

definition test_config :: FacadeOutstationConfig where
  "test_config = DefaultOutstationConfig
     \<lparr>foID := ''test-outstation'', foLocalAddress := 10, foRemoteAddress := 1, foDatabase := test_database,
      foAllowUnsolicited := True, foMaxBinaryEvents := 100, foMaxAnalogEvents := 100\<rparr>"

text \<open>
  The start of both programs: a manager, its channel, the outstation on it, enabled. A panic is \<open>None\<close>;
  \<open>opens\<close> says whether the physical channel can be opened. \<open>simple_client.go\<close> does not look at the
  result of \<open>Enable\<close>, which is never an error.
\<close>

definition start_outstation ::
  "float_ops \<Rightarrow> (u16 \<Rightarrow> IIN) \<Rightarrow> bool list \<Rightarrow> FacadeOutstationConfig \<Rightarrow> (station_ref \<times> facade) option" where
  "start_outstation fo iin opens config =
     (case AddChannel ''channel1'' opens NewManager of
        (Inl _, m) \<Rightarrow> None
      | (Inr h, m) \<Rightarrow>
          (case channelImpl_AddOutstation fo iin config h m of
             (Inl _, m1) \<Rightarrow> None
           | (Inr ref, m1) \<Rightarrow> Some (ref, snd (outstationWrapper_Enable ref m1))))"

section \<open>The lines of \<open>simple_client.go\<close>\<close>

record State =
  st_count :: u32
  st_analogValue :: float64
  st_binaryValue :: bool
  st_doubleBitValue :: DoubleBitValue
  st_octetStringValue :: byte

definition new_state :: State where
  "new_state = \<lparr>st_count = 0, st_analogValue = 0, st_binaryValue = False, st_doubleBitValue = DoubleBitOff,
                st_octetStringValue = 1\<rparr>"

text \<open>One character of a line, with the clock reading of its turn.\<close>

definition add_update ::
  "(float64 \<Rightarrow> float64 \<Rightarrow> float64) \<Rightarrow> char \<times> DNP3Time \<Rightarrow> UpdateBuilder \<times> State \<Rightarrow> UpdateBuilder \<times> State" where
  "add_update fadd ct s =
     (case (ct, s) of ((c, now), (builder, state)) \<Rightarrow>
       if c = CHR ''c''
       then (Facade_UpdateCounter builder \<lparr>cnValue = st_count state, cnFlags = FlagOnline, cnTime = now\<rparr> 0
               FacadeEventModeDetect,
             state\<lparr>st_count := st_count state + 1\<rparr>)
       else if c = CHR ''a''
       then (Facade_UpdateAnalog builder \<lparr>anValue = st_analogValue state, anFlags = FlagOnline, anTime = now\<rparr> 0
               FacadeEventModeDetect,
             state\<lparr>st_analogValue := fadd (st_analogValue state) float_one\<rparr>)
       else if c = CHR ''b''
       then (Facade_UpdateBinary builder \<lparr>biValue = st_binaryValue state, biFlags = FlagOnline, biTime = now\<rparr> 0
               FacadeEventModeDetect,
             state\<lparr>st_binaryValue := \<not> st_binaryValue state\<rparr>)
       else if c = CHR ''d''
       then (Facade_UpdateDoubleBitBinary builder
               \<lparr>dbValue = st_doubleBitValue state, dbFlags = FlagOnline, dbTime = now\<rparr> 0 FacadeEventModeDetect,
             state\<lparr>st_doubleBitValue := (if st_doubleBitValue state = DoubleBitOff then DoubleBitOn else DoubleBitOff)\<rparr>)
       else if c = CHR ''f''
       then (Facade_UpdateFrozenCounter builder \<lparr>fcValue = st_count state, fcFlags = FlagOnline, fcTime = now\<rparr> 0
               FacadeEventModeDetect, state)
       else (builder, state))"

definition AddUpdates ::
  "(float64 \<Rightarrow> float64 \<Rightarrow> float64) \<Rightarrow> UpdateBuilder \<Rightarrow> State \<Rightarrow> (char \<times> DNP3Time) list \<Rightarrow> UpdateBuilder \<times> State" where
  "AddUpdates fadd builder state arguments = fold (add_update fadd) arguments (builder, state)"

text \<open>The space characters of ASCII, which \<open>strings.TrimSpace\<close> and \<open>strings.Fields\<close> look for.\<close>

definition is_space :: "char \<Rightarrow> bool" where
  "is_space c \<longleftrightarrow> of_char c \<in> {9, 10, 11, 12, 13, 32 :: nat}"

definition trim_space :: "(char \<times> 'a) list \<Rightarrow> (char \<times> 'a) list" where
  "trim_space s = rev (dropWhile (is_space \<circ> fst) (rev (dropWhile (is_space \<circ> fst) s)))"

datatype line_result = Leaves | Ignored | Answers "facade_apply_err option option"

text \<open>\<open>apart\<close> and \<open>event\<close> are those of \<open>Apply\<close>: the comparison of floats and the case of its select.\<close>

type_synonym apart = "float64 \<Rightarrow> float64 \<Rightarrow> float64 \<Rightarrow> bool"

definition client_line ::
  "apart \<Rightarrow> (float64 \<Rightarrow> float64 \<Rightarrow> float64) \<Rightarrow> station_ref \<Rightarrow> apply_event \<Rightarrow> (char \<times> DNP3Time) list \<Rightarrow> State \<times> facade
    \<Rightarrow> line_result \<times> State \<times> facade" where
  "client_line apart fadd ref event text sm =
     (case sm of (state, m) \<Rightarrow>
        let input = trim_space text in
        if map fst input = ''quit'' then (Leaves, state, m)
        else if input = [] then (Ignored, state, m)
        else (case AddUpdates fadd Facade_NewUpdateBuilder state input of
                (builder, state') \<Rightarrow>
                  (case outstationWrapper_Apply apart event (Facade_Build builder) ref m of
                     (err, m') \<Rightarrow> (Answers err, state', m'))))"

section \<open>The updates in the background\<close>

text \<open>One turn of the goroutine of \<open>simple_client.go\<close>: nine points of each kind, from index 1.\<close>

definition client_updates ::
  "(nat \<Rightarrow> bool) \<Rightarrow> (nat \<Rightarrow> float64) \<Rightarrow> (nat \<Rightarrow> DNP3Time) \<Rightarrow> u32 \<Rightarrow> UpdateBuilder" where
  "client_updates breakers readings now counter =
     (let b1 = fold (\<lambda>i b. Facade_UpdateBinary b \<lparr>biValue = breakers i, biFlags = FlagOnline, biTime = now i\<rparr>
                 (of_nat i) FacadeEventModeDetect) [1..<10] Facade_NewUpdateBuilder;
          b2 = fold (\<lambda>i b. Facade_UpdateAnalog b \<lparr>anValue = readings i, anFlags = FlagOnline, anTime = now (10 + i)\<rparr>
                 (of_nat i) FacadeEventModeDetect) [1..<10] b1
      in fold (\<lambda>i b. Facade_UpdateCounter b
                 \<lparr>cnValue = counter + of_nat (i * 100), cnFlags = FlagOnline, cnTime = now (20 + i)\<rparr>
                 (of_nat i) FacadeEventModeDetect) [1..<10] b2)"

definition client_background ::
  "apart \<Rightarrow> (nat \<Rightarrow> bool) \<Rightarrow> (nat \<Rightarrow> float64) \<Rightarrow> (nat \<Rightarrow> DNP3Time) \<Rightarrow> station_ref \<Rightarrow> apply_event \<Rightarrow> u32 \<times> facade
    \<Rightarrow> facade_apply_err option option \<times> u32 \<times> facade" where
  "client_background apart breakers readings now ref event cm =
     (case cm of (counter, m) \<Rightarrow>
        (case outstationWrapper_Apply apart event (Facade_Build (client_updates breakers readings now counter)) ref m of
           (err, m') \<Rightarrow> (err, counter + 1, m')))"

section \<open>The commands of \<open>test_outstation.go\<close>\<close>

record OutstationState =
  os_binaryCount :: u32
  os_analogValue :: float64
  os_counterValue :: u32
  os_doubleBitState :: DoubleBitValue
  os_frozenCounterValue :: u32

definition new_outstation_state :: OutstationState where
  "new_outstation_state = \<lparr>os_binaryCount = 0, os_analogValue = float_20_5, os_counterValue = 0,
     os_doubleBitState = DoubleBitOff, os_frozenCounterValue = 0\<rparr>"

text \<open>The values that every point is given at the start, without events.\<close>

definition initial_updates :: "float_ops \<Rightarrow> (nat \<Rightarrow> DNP3Time) \<Rightarrow> UpdateBuilder" where
  "initial_updates fo now =
     (let each = (\<lambda>(f :: UpdateBuilder \<Rightarrow> nat \<Rightarrow> UpdateBuilder) b. fold (\<lambda>i b. f b i) [0..<10] b);
          b1 = each (\<lambda>b i. Facade_UpdateBinary b \<lparr>biValue = False, biFlags = FlagOnline, biTime = now i\<rparr>
                 (of_nat i) FacadeEventModeSuppress) Facade_NewUpdateBuilder;
          b2 = each (\<lambda>b i. Facade_UpdateAnalog b
                 \<lparr>anValue = foIntToF64 fo (int i * 10), anFlags = FlagOnline, anTime = now (10 + i)\<rparr>
                 (of_nat i) FacadeEventModeSuppress) b1;
          b3 = each (\<lambda>b i. Facade_UpdateCounter b
                 \<lparr>cnValue = of_nat (i * 100), cnFlags = FlagOnline, cnTime = now (20 + i)\<rparr>
                 (of_nat i) FacadeEventModeSuppress) b2;
          b4 = each (\<lambda>b i. Facade_UpdateDoubleBitBinary b
                 \<lparr>dbValue = DoubleBitOff, dbFlags = FlagOnline, dbTime = now (30 + i)\<rparr>
                 (of_nat i) FacadeEventModeSuppress) b3;
          b5 = each (\<lambda>b i. Facade_UpdateFrozenCounter b
                 \<lparr>fcValue = 0, fcFlags = FlagOnline, fcTime = now (40 + i)\<rparr>
                 (of_nat i) FacadeEventModeSuppress) b4;
          b6 = each (\<lambda>b i. Facade_UpdateBinaryOutputStatus b
                 \<lparr>boValue = False, boFlags = FlagOnline, boTime = now (50 + i)\<rparr>
                 (of_nat i) FacadeEventModeSuppress) b5
      in each (\<lambda>b i. Facade_UpdateAnalogOutputStatus b
                 \<lparr>asValue = 0, asFlags = FlagOnline, asTime = now (60 + i)\<rparr>
                 (of_nat i) FacadeEventModeSuppress) b6)"

text \<open>
  \<open>fmt.Sscanf\<close> of an index of 16 bits: the leading digits of the word. When there are none, or the
  number does not fit, the index stays 0.
\<close>

definition digit_value :: "char \<Rightarrow> nat option" where
  "digit_value c = (let n = of_char c :: nat in if 48 \<le> n \<and> n \<le> 57 then Some (n - 48) else None)"

definition scan_index :: "string \<Rightarrow> u16" where
  "scan_index word =
     (let ds = takeWhile (\<lambda>c. digit_value c \<noteq> None) word;
          n = fold (\<lambda>c n. 10 * n + the (digit_value c)) ds 0
      in if n < 2 ^ 16 then of_nat n else 0)"

definition words :: "string \<Rightarrow> string list" where
  "words text = filter (\<lambda>w. w \<noteq> [])
     (foldr (\<lambda>c ws. if is_space c then [] # ws else (case ws of [] \<Rightarrow> [[c]] | w # rest \<Rightarrow> (c # w) # rest)) text [[]])"

definition index_of :: "string list \<Rightarrow> u16" where
  "index_of parts = (if length parts > 1 then scan_index (parts ! 1) else 0)"

definition batch :: "(UpdateBuilder \<Rightarrow> UpdateBuilder) \<Rightarrow> updates_data" where
  "batch f = Facade_Build (f Facade_NewUpdateBuilder)"

datatype test_reply = PrintsHelp | Quits | AppliesBatch updates_data | PrintsStatus | UnknownCommand string

text \<open>
  A command, which has a first word. \<open>scan\<close> is the scanning of a float: \<open>None\<close> when the word is none,
  and the value stays what it was.
\<close>

definition test_command ::
  "(string \<Rightarrow> float64 option) \<Rightarrow> (float64 \<Rightarrow> float64 \<Rightarrow> float64) \<Rightarrow> DNP3Time \<Rightarrow> string list \<Rightarrow> OutstationState
    \<Rightarrow> test_reply \<times> OutstationState" where
  "test_command scan fadd now parts state =
     (let cmd = hd parts; index = index_of parts in
      if cmd \<in> {''help'', ''h'', ''?''} then (PrintsHelp, state)
      else if cmd \<in> {''quit'', ''exit'', ''q''} then (Quits, state)
      else if cmd \<in> {''b'', ''binary''}
      then (let state' = state\<lparr>os_binaryCount := os_binaryCount state + 1\<rparr>
            in (AppliesBatch (batch (\<lambda>b. Facade_UpdateBinary b
                  \<lparr>biValue = os_binaryCount state' mod 2 = 1, biFlags = FlagOnline, biTime = now\<rparr> index
                  FacadeEventModeForce)), state'))
      else if cmd \<in> {''a'', ''analog''}
      then (let (value, state') =
                  (if length parts > 2
                   then (case scan (parts ! 2) of None \<Rightarrow> os_analogValue state | Some v \<Rightarrow> v, state)
                   else let v = fadd (os_analogValue state) float_one in (v, state\<lparr>os_analogValue := v\<rparr>))
            in (AppliesBatch (batch (\<lambda>b. Facade_UpdateAnalog b
                  \<lparr>anValue = value, anFlags = FlagOnline, anTime = now\<rparr> index FacadeEventModeForce)), state'))
      else if cmd \<in> {''c'', ''counter''}
      then (let state' = state\<lparr>os_counterValue := os_counterValue state + 1\<rparr>
            in (AppliesBatch (batch (\<lambda>b. Facade_UpdateCounter b
                  \<lparr>cnValue = os_counterValue state', cnFlags = FlagOnline, cnTime = now\<rparr> index
                  FacadeEventModeForce)), state'))
      else if cmd \<in> {''d'', ''doublebit''}
      then (let state' = state\<lparr>os_doubleBitState :=
                  (if os_doubleBitState state = DoubleBitOff then DoubleBitOn else DoubleBitOff)\<rparr>
            in (AppliesBatch (batch (\<lambda>b. Facade_UpdateDoubleBitBinary b
                  \<lparr>dbValue = os_doubleBitState state', dbFlags = FlagOnline, dbTime = now\<rparr> index
                  FacadeEventModeForce)), state'))
      else if cmd \<in> {''f'', ''freeze''}
      then (let state' = state\<lparr>os_frozenCounterValue := os_counterValue state\<rparr>
            in (AppliesBatch (batch (\<lambda>b. Facade_UpdateFrozenCounter b
                  \<lparr>fcValue = os_frozenCounterValue state', fcFlags = FlagOnline, fcTime = now\<rparr> index
                  FacadeEventModeForce)), state'))
      else if cmd = ''status'' then (PrintsStatus, state)
      else (UnknownCommand cmd, state))"

text \<open>A line of the operator: an empty one is skipped, \<open>quit\<close> also shuts the outstation down.\<close>

definition test_line ::
  "apart \<Rightarrow> (string \<Rightarrow> float64 option) \<Rightarrow> (float64 \<Rightarrow> float64 \<Rightarrow> float64) \<Rightarrow> DNP3Time \<Rightarrow> station_ref \<Rightarrow> apply_event
    \<Rightarrow> string \<Rightarrow> OutstationState \<times> facade \<Rightarrow> line_result \<times> OutstationState \<times> facade" where
  "test_line apart scan fadd now ref event text sm =
     (case sm of (state, m) \<Rightarrow>
        if words text = [] then (Ignored, state, m)
        else (case test_command scan fadd now (words text) state of
                (Quits, state') \<Rightarrow> (Leaves, state', snd (outstationWrapper_Shutdown ref m))
              | (AppliesBatch updates, state') \<Rightarrow>
                  (case outstationWrapper_Apply apart event updates ref m of
                     (err, m') \<Rightarrow> (Answers err, state', m'))
              | (_, state') \<Rightarrow> (Ignored, state', m)))"

text \<open>One tick of the goroutine, which shares the state of the operator without a lock.\<close>

definition test_background ::
  "apart \<Rightarrow> (nat \<Rightarrow> bool) \<Rightarrow> (nat \<Rightarrow> float64) \<Rightarrow> (nat \<Rightarrow> DNP3Time) \<Rightarrow> station_ref \<Rightarrow> apply_event
    \<Rightarrow> OutstationState \<times> facade \<Rightarrow> facade_apply_err option option \<times> OutstationState \<times> facade" where
  "test_background apart breakers readings now ref event sm =
     (case sm of (state, m) \<Rightarrow>
        let b1 = fold (\<lambda>i b. Facade_UpdateBinary b \<lparr>biValue = breakers i, biFlags = FlagOnline, biTime = now i\<rparr>
                   (of_nat i) FacadeEventModeDetect) [1..<5] Facade_NewUpdateBuilder;
            b2 = fold (\<lambda>i b. Facade_UpdateAnalog b
                   \<lparr>anValue = readings i, anFlags = FlagOnline, anTime = now (5 + i)\<rparr>
                   (of_nat i) FacadeEventModeDetect) [1..<4] b1;
            state' = state\<lparr>os_counterValue := os_counterValue state + 1\<rparr>;
            b3 = Facade_UpdateCounter b2
                   \<lparr>cnValue = os_counterValue state', cnFlags = FlagOnline, cnTime = now 10\<rparr> 1 FacadeEventModeDetect
        in (case outstationWrapper_Apply apart event (Facade_Build b3) ref m of (err, m') \<Rightarrow> (err, state', m')))"

section \<open>The callbacks of commands\<close>

definition ControlCodeCloseOn :: byte where [simp]: "ControlCodeCloseOn = 0x41"
definition ControlCodeTripOff :: byte where [simp]: "ControlCodeTripOff = 0x81"

text \<open>What a callback does with its handler: the update of an output status, forced.\<close>

type_synonym status_update = "measurement \<times> u16 \<times> FacadeEventMode"

definition client_SelectCROB :: "CommandCROB \<Rightarrow> u16 \<Rightarrow> CommandStatus" where
  "client_SelectCROB crob index = CommandStatusSuccess"

definition client_OperateCROB :: "DNP3Time \<Rightarrow> CommandCROB \<Rightarrow> u16 \<Rightarrow> CommandStatus \<times> status_update list" where
  "client_OperateCROB now crob index =
     (let bos = \<lparr>boValue = tcOpType crob = ControlCodeLatchOn, boFlags = FlagOnline, boTime = now\<rparr>
      in (CommandStatusSuccess, [(MBinaryOutput bos, index, FacadeEventModeForce)]))"

definition test_SelectCROB :: "CommandCROB \<Rightarrow> u16 \<Rightarrow> CommandStatus" where
  "test_SelectCROB crob index = (if index \<ge> 10 then CommandStatusNotSupported else CommandStatusSuccess)"

definition test_OperateCROB :: "DNP3Time \<Rightarrow> CommandCROB \<Rightarrow> u16 \<Rightarrow> CommandStatus \<times> status_update list" where
  "test_OperateCROB now crob index =
     (let opType = tcOpType crob;
          newState = (if opType \<in> {ControlCodeLatchOn, ControlCodePulseOn, ControlCodeCloseOn} then Some True
                      else if opType \<in> {ControlCodeLatchOff, ControlCodePulseOff, ControlCodeTripOff} then Some False
                      else None)
      in case newState of
           None \<Rightarrow> (CommandStatusNotSupported, [])
         | Some value \<Rightarrow>
             (CommandStatusSuccess,
              [(MBinaryOutput \<lparr>boValue = value, boFlags = FlagOnline, boTime = now\<rparr>, index, FacadeEventModeForce)]))"

definition test_SelectAnalogOutputInt32 :: "u32 \<Rightarrow> u16 \<Rightarrow> CommandStatus" where
  "test_SelectAnalogOutputInt32 v index = (if index \<ge> 10 then CommandStatusNotSupported else CommandStatusSuccess)"

definition test_SelectAnalogOutputInt16 :: "u16 \<Rightarrow> u16 \<Rightarrow> CommandStatus" where
  "test_SelectAnalogOutputInt16 v index = CommandStatusSuccess"

definition analog_status :: "DNP3Time \<Rightarrow> float64 \<Rightarrow> u16 \<Rightarrow> CommandStatus \<times> status_update list" where
  "analog_status now v index =
     (CommandStatusSuccess,
      [(MAnalogOutput \<lparr>asValue = v, asFlags = FlagOnline, asTime = now\<rparr>, index, FacadeEventModeForce)])"

definition test_OperateAnalogOutputInt32 ::
  "float_ops \<Rightarrow> DNP3Time \<Rightarrow> u32 \<Rightarrow> u16 \<Rightarrow> CommandStatus \<times> status_update list" where
  "test_OperateAnalogOutputInt32 fo now v index = analog_status now (foIntToF64 fo (sint v)) index"

definition test_OperateAnalogOutputInt16 ::
  "float_ops \<Rightarrow> DNP3Time \<Rightarrow> u16 \<Rightarrow> u16 \<Rightarrow> CommandStatus \<times> status_update list" where
  "test_OperateAnalogOutputInt16 fo now v index = analog_status now (foIntToF64 fo (sint v)) index"

definition test_OperateAnalogOutputFloat32 ::
  "float_ops \<Rightarrow> DNP3Time \<Rightarrow> u32 \<Rightarrow> u16 \<Rightarrow> CommandStatus \<times> status_update list" where
  "test_OperateAnalogOutputFloat32 fo now v index = analog_status now (foF32ToF64 fo v) index"

definition test_OperateAnalogOutputDouble64 ::
  "DNP3Time \<Rightarrow> u64 \<Rightarrow> u16 \<Rightarrow> CommandStatus \<times> status_update list" where
  "test_OperateAnalogOutputDouble64 now v index = analog_status now v index"

definition GetApplicationIIN :: "u16 \<Rightarrow> IIN" where
  "GetApplicationIIN address = \<lparr>iin1 = 0, iin2 = 0\<rparr>"

text \<open>The callbacks of \<open>test_outstation.go\<close>; a clock reading is given for each call.\<close>

definition select_command :: "command_data \<Rightarrow> u16 \<Rightarrow> CommandStatus" where
  "select_command command index =
     (case command of
        CROBData crob \<Rightarrow> test_SelectCROB crob index
      | AnalogOutputInt32 v _ \<Rightarrow> test_SelectAnalogOutputInt32 v index
      | AnalogOutputInt16 v _ \<Rightarrow> test_SelectAnalogOutputInt16 v index
      | _ \<Rightarrow> CommandStatusSuccess)"

definition operate_command :: "float_ops \<Rightarrow> DNP3Time \<Rightarrow> command_data \<Rightarrow> u16 \<Rightarrow> CommandStatus \<times> status_update list" where
  "operate_command fo now command index =
     (case command of
        CROBData crob \<Rightarrow> test_OperateCROB now crob index
      | AnalogOutputInt32 v _ \<Rightarrow> test_OperateAnalogOutputInt32 fo now v index
      | AnalogOutputInt16 v _ \<Rightarrow> test_OperateAnalogOutputInt16 fo now v index
      | AnalogOutputFloat32 v _ \<Rightarrow> test_OperateAnalogOutputFloat32 fo now v index
      | AnalogOutputDouble64 v _ \<Rightarrow> test_OperateAnalogOutputDouble64 now v index)"

definition test_callbacks ::
  "float_ops \<Rightarrow> DNP3Time \<Rightarrow> (FacadeOperateType, FacadeEventMode, 's) OutstationCallbacks" where
  "test_callbacks fo now =
     \<lparr>obBegin = (\<lambda>s. s), obEnd = (\<lambda>s. s),
      obSelect = (\<lambda>command index s. (select_command command index, s)),
      obOperate = (\<lambda>command index opType handler s.
        case operate_command fo now command index of
          (status, updates) \<Rightarrow> (status, fold (\<lambda>(meas, i, mode) s. snd (handler meas i mode s)) updates s)),
      obOnConfirmReceived = (\<lambda>unsolicited n1 n2 n3 s. s), obOnUnsolicitedResponse = (\<lambda>success seq s. s),
      obGetApplicationIIN = (\<lambda>s. GetApplicationIIN 0)\<rparr>"

text \<open>
  A handler that collects updates in a builder: through the wrappers an operated latch-on becomes
  a forced update of the status of its output.
\<close>

definition collect :: "(EventMode, UpdateBuilder) update_handler" where
  "collect meas index mode builder =
     (case meas of
        MBinaryOutput v \<Rightarrow> (True, Builder_UpdateBinaryOutputStatus builder v index mode)
      | MAnalogOutput v \<Rightarrow> (True, Builder_UpdateAnalogOutputStatus builder v index mode)
      | _ \<Rightarrow> (False, builder))"

lemma operate_forces_status:
  "tcOpType crob = ControlCodeLatchOn \<Longrightarrow>
    obOperate (outstationCallbacksWrapper (test_callbacks fo now)) (CROBData crob) index op collect builder
      = (CommandStatusSuccess,
         builder((MeasurementTypeBinaryOutputStatus, index) \<mapsto>
           (MBinaryOutput \<lparr>boValue = True, boFlags = FlagOnline, boTime = now\<rparr>, EventModeForce)))"
  by (simp add: outstationCallbacksWrapper_def test_callbacks_def operate_command_def test_OperateCROB_def
      updateHandlerWrapper_def collect_def Builder_UpdateBinaryOutputStatus_def to_EventMode_def)

section \<open>What a line makes of the state\<close>

definition typed :: "char \<Rightarrow> (char \<times> DNP3Time) list \<Rightarrow> nat" where
  "typed c line = length (filter (\<lambda>ct. fst ct = c) line)"

lemma AddUpdates_snoc: "AddUpdates fadd b s (line @ [ct]) = add_update fadd ct (AddUpdates fadd b s line)"
  by (simp add: AddUpdates_def)

lemma typed_count: "st_count (snd (AddUpdates fadd b s line)) = st_count s + of_nat (typed (CHR ''c'') line)"
  by (induction line rule: rev_induct)
    (auto simp: AddUpdates_snoc typed_def add_update_def AddUpdates_def split: prod.split)

lemma typed_binary: "st_binaryValue (snd (AddUpdates fadd b s line)) = (st_binaryValue s \<noteq> odd (typed (CHR ''b'') line))"
  by (induction line rule: rev_induct)
    (auto simp: AddUpdates_snoc typed_def add_update_def AddUpdates_def split: prod.split)

lemmas facade_builders = Facade_UpdateBinary_def Facade_UpdateAnalog_def Facade_UpdateCounter_def
  Facade_UpdateDoubleBitBinary_def Facade_UpdateFrozenCounter_def Builder_UpdateBinary_def
  Builder_UpdateAnalog_def Builder_UpdateCounter_def Builder_UpdateDoubleBitBinary_def
  Builder_UpdateFrozenCounter_def to_EventMode_def

text \<open>
  A batch has one update for each point: of the increments of a counter that are typed in one line
  only the last is in the batch, so the line makes one event at most.
\<close>

theorem line_keeps_last_count:
  assumes "0 < typed (CHR ''c'') line" and "AddUpdates fadd Facade_NewUpdateBuilder s line = (builder, s')"
  shows "\<exists>now. (CHR ''c'', now) \<in> set line \<and> builder (MeasurementTypeCounter, 0) =
    Some (MCounter \<lparr>cnValue = st_count s + of_nat (typed (CHR ''c'') line) - 1, cnFlags = FlagOnline, cnTime = now\<rparr>,
          EventModeDetect)"
  using assms
proof (induction line arbitrary: builder s' rule: rev_induct)
  case Nil
  then show ?case by (simp add: typed_def)
next
  case (snoc ct line)
  obtain b1 s1 where b1: "AddUpdates fadd Facade_NewUpdateBuilder s line = (b1, s1)" by fastforce
  obtain c now where ct: "ct = (c, now)" by fastforce
  have step: "add_update fadd (c, now) (b1, s1) = (builder, s')"
    using snoc.prems(2) b1 ct by (simp add: AddUpdates_snoc)
  show ?case
  proof (cases "c = CHR ''c''")
    case True
    then show ?thesis
      using step typed_count [of fadd Facade_NewUpdateBuilder s line] b1 ct
      by (auto simp: add_update_def typed_def facade_builders)
  next
    case False
    then have "0 < typed (CHR ''c'') line" "typed (CHR ''c'') (line @ [ct]) = typed (CHR ''c'') line"
      using snoc.prems(1) ct by (auto simp: typed_def)
    moreover have "builder (MeasurementTypeCounter, 0) = b1 (MeasurementTypeCounter, 0)"
      using step False by (auto simp: add_update_def facade_builders split: if_splits)
    ultimately show ?thesis using snoc.IH [OF _ b1] by auto
  qed
qed

text \<open>The initial values of \<open>test_outstation.go\<close> are online and make no events.\<close>

lemma initial_updates_quiet: "quiet_batch (initial_updates fo now)"
  unfolding initial_updates_def Let_def
  by (intro quiet_fold)
    (auto simp: Facade_NewUpdateBuilder_def quiet_new measurement_flags facade_builders
       Facade_UpdateBinaryOutputStatus_def Facade_UpdateAnalogOutputStatus_def
       Builder_UpdateBinaryOutputStatus_def Builder_UpdateAnalogOutputStatus_def intro!: quiet_update)

section \<open>Nothing typed reaches the database\<close>

datatype client_event =
    Line apply_event "(char \<times> DNP3Time) list"
  | Background apply_event "nat \<Rightarrow> bool" "nat \<Rightarrow> float64" "nat \<Rightarrow> DNP3Time"

definition client_step ::
  "apart \<Rightarrow> (float64 \<Rightarrow> float64 \<Rightarrow> float64) \<Rightarrow> station_ref \<Rightarrow> client_event \<Rightarrow> State \<times> u32 \<times> facade
    \<Rightarrow> State \<times> u32 \<times> facade" where
  "client_step apart fadd ref e s =
     (case s of (state, counter, m) \<Rightarrow>
        (case e of
           Line event text \<Rightarrow>
             (case client_line apart fadd ref event text (state, m) of (_, state', m') \<Rightarrow> (state', counter, m'))
         | Background event breakers readings now \<Rightarrow>
             (case client_background apart breakers readings now ref event (counter, m) of
                (_, counter', m') \<Rightarrow> (state, counter', m'))))"

lemma session_put_back: "distinct (map fst r) \<Longrightarrow> map_of r a = Some s \<Longrightarrow> set_session r a s = r"
  by (induction r) (auto simp: set_session_def rev_image_eqI intro!: map_idI dest!: map_of_SomeD split: if_splits)

lemma at_channel_same:
  "f (mdRouter (mgStore m ! h)) (mdChannel (mgStore m ! h)) = (x, mdRouter (mgStore m ! h), mdChannel (mgStore m ! h))
    \<Longrightarrow> at_channel h f m = (x, m)"
  by (simp add: at_channel_def)

lemma on_outstation_same:
  assumes "distinct (map fst (mdRouter (mgStore m ! fst ref)))"
    and "map_of (mdRouter (mgStore m ! fst ref)) (snd ref) = Some (OutstationSession ou)" and "f ou = (x, ou)"
  shows "on_outstation ref f m = (Some x, m)"
  unfolding on_outstation_def
  by (rule at_channel_same) (use assms session_put_back [OF assms(1,2)] in simp)

lemma Apply_same:
  "\<exists>err. Outstation_Apply apart event b ou = Some (err, ou) \<and> (event = Queued \<and> ouEnabled ou \<longrightarrow> err = None)"
  by (cases event) (simp_all add: Outstation_Apply_def)

text \<open>The example is up: its outstation is enabled and the only session of its channel.\<close>

definition example_up :: "station_ref \<Rightarrow> facade \<Rightarrow> bool" where
  "example_up ref m \<longleftrightarrow> (\<exists>ou. mdRouter (mgStore m ! fst ref) = [(snd ref, OutstationSession ou)] \<and> ouEnabled ou)"

lemma up_apply:
  assumes "example_up ref m"
  shows "\<exists>err. outstationWrapper_Apply apart event (Facade_Build b) ref m = (Some err, m) \<and> (event = Queued \<longrightarrow> err = None)"
proof -
  obtain ou where ou: "mdRouter (mgStore m ! fst ref) = [(snd ref, OutstationSession ou)]" "ouEnabled ou"
    using assms by (auto simp: example_up_def)
  obtain err where err: "Outstation_Apply apart event b ou = Some (err, ou)" "event = Queued \<longrightarrow> err = None"
    using Apply_same [of apart event b ou] ou(2) by auto
  have "outstationWrapper_Apply apart event (Facade_Build b) ref m = (Some (map_option ApplyFailed err), m)"
    unfolding outstationWrapper_Apply_def Facade_Build_def updates_data.case
    by (rule on_outstation_same [where ou = ou]) (use ou err(1) in simp_all)
  then show ?thesis using err(2) by simp
qed

lemma line_same:
  assumes "example_up ref m" and "client_line apart fadd ref event line (state, m) = (r, state', m')"
  shows "m' = m \<and> (event = Queued \<longrightarrow> r \<in> {Leaves, Ignored, Answers (Some None)})"
proof -
  obtain b s where b: "AddUpdates fadd Facade_NewUpdateBuilder state (trim_space line) = (b, s)" by fastforce
  obtain err where "outstationWrapper_Apply apart event (Facade_Build b) ref m = (Some err, m)"
    "event = Queued \<longrightarrow> err = None"
    using up_apply [OF assms(1)] by blast
  then show ?thesis
    using assms(2) b by (auto simp: client_line_def Let_def split: if_splits)
qed

lemma client_step_same:
  assumes "example_up ref m"
  shows "snd (snd (client_step apart fadd ref e (state, counter, m))) = m"
proof (cases e)
  case (Line event line)
  then show ?thesis
    using line_same [OF assms] by (cases "client_line apart fadd ref event line (state, m)") (auto simp: client_step_def)
next
  case (Background event breakers readings now)
  then show ?thesis
    using up_apply [OF assms, of apart event "client_updates breakers readings now counter"]
    by (auto simp: client_step_def client_background_def)
qed

lemma start_up: "start_outstation fo iin opens config = Some (ref, m) \<Longrightarrow> example_up ref m"
  by (auto simp: start_outstation_def AddChannel_def NewManager_def Channel_Open_def NewChannel_def
      channelImpl_AddOutstation_def newOutstation_def at_channel_def New_Outstation_def Channel_AddSession_def
      Router_AddSession_def NewRouter_def facade_ops_def outstationWrapper_Enable_def on_outstation_def
      set_session_def example_up_def Outstation_Enable_def outstation_ops_def new_outstation_def newSession_def
      outstationConfig_def Let_def split: prod.splits sum.splits if_splits option.splits list.splits)

text \<open>
  However the lines of the operator and the updates of the background are interleaved, and whatever
  they are, the manager with its channel, its outstation and the database of the outstation is what it
  was at the start; and a line that is queued is answered as applied.
\<close>

theorem client_updates_invisible:
  assumes "start_outstation fo iin opens client_config = Some (ref, m0)"
    and "fold (client_step apart fadd ref) events (new_state, 1000, m0) = (state, counter, m)"
  shows "m = m0 \<and> (let r = fst (client_line apart fadd ref Queued line (state, m))
    in r = Leaves \<or> r = Ignored \<or> r = Answers (Some None))"
proof -
  have up: "example_up ref m0" by (rule start_up [OF assms(1)])
  have "snd (snd (fold (client_step apart fadd ref) events (s, c, m0))) = m0" for s c
  proof (induction events arbitrary: s c)
    case Nil
    then show ?case by simp
  next
    case (Cons e events)
    show ?case
      using Cons.IH client_step_same [OF up] by (cases "client_step apart fadd ref e (s, c, m0)") (simp, metis snd_conv)
  qed
  then have m: "m = m0" using assms(2) by (metis snd_conv)
  obtain r s' m' where r: "client_line apart fadd ref Queued line (state, m0) = (r, s', m')"
    using prod_cases3 by blast
  show ?thesis using m r line_same [OF up r] by auto
qed

text \<open>The same of a line of \<open>test_outstation.go\<close> that does not shut the outstation down.\<close>

lemma test_line_same:
  assumes "example_up ref m" and "test_line apart scan fadd now ref event line (state, m) = (r, state', m')"
    and "r \<noteq> Leaves"
  shows "m' = m \<and> (event = Queued \<longrightarrow> r \<in> {Ignored, Answers (Some None)})"
proof (cases "words line = []")
  case True
  then show ?thesis using assms(2) by (auto simp: test_line_def)
next
  case False
  obtain reply s where reply: "test_command scan fadd now (words line) state = (reply, s)" by fastforce
  show ?thesis
  proof (cases reply)
    case (AppliesBatch updates)
    obtain b where b: "updates = Facade_Build b"
      using reply AppliesBatch by (auto simp: test_command_def batch_def Let_def split: if_splits prod.splits)
    obtain err where "outstationWrapper_Apply apart event (Facade_Build b) ref m = (Some err, m)"
      "event = Queued \<longrightarrow> err = None"
      using up_apply [OF assms(1)] by blast
    then show ?thesis using assms(2) False reply AppliesBatch b by (auto simp: test_line_def)
  qed (use assms(2,3) False reply in \<open>auto simp: test_line_def\<close>)
qed

text \<open>
  \<open>OperateCROB\<close> of \<open>test_outstation.go\<close> does not ask for the index that \<open>SelectCROB\<close> refuses: operated
  directly, a control of a point that does not exist succeeds.
\<close>

lemma operate_unchecked_index:
  "10 \<le> index \<Longrightarrow> tcOpType crob = ControlCodeLatchOn \<Longrightarrow>
    test_SelectCROB crob index = CommandStatusNotSupported
    \<and> fst (test_OperateCROB now crob index) = CommandStatusSuccess"
  by (simp add: test_SelectCROB_def test_OperateCROB_def)

end
