(* ===== verification/Logging.thy ===== *)
theory Logging
  imports Dnp_Base
begin

text \<open>
  The logger (\<open>pkg/internal/logger/logger.go\<close>, \<open>pkg/dnp3/logger.go\<close>): levels, the two loggers of the
  package, the global logger and the dump of frames. What is printed is a list of lines, without the
  time stamp that the \<open>log\<close> package puts in front of each. A logger is shared by pointers, so it
  lives in a store. The theory proves that a dump loses nothing, and shows where the level and the
  formatting of messages go wrong.
\<close>

section \<open>Formats\<close>

text \<open>
  \<open>fmt.Sprintf\<close> for the directives \<open>%s\<close>, \<open>%d\<close>, \<open>%v\<close>, \<open>%X\<close> and \<open>%%\<close> with the flag 0 and a width, and with
  Go's marks for a missing operand or a missing verb. The result is \<open>None\<close> for formats outside of these:
  other flags or verbs with an operand, precisions, explicit indexes, operands left over.
\<close>

datatype arg = ArgS string | ArgI int

fun digit :: "nat \<Rightarrow> char" where
  "digit n = (if n < 10 then char_of (48 + n) else char_of (55 + n))"

function digits :: "nat \<Rightarrow> nat \<Rightarrow> string" where
  "digits b n = (if b < 2 \<or> n < b then [digit n] else digits b (n div b) @ [digit (n mod b)])"
  by pat_completeness auto
termination by (relation "measure snd") auto

declare digits.simps [simp del]

definition pad_left :: "char \<Rightarrow> nat \<Rightarrow> string \<Rightarrow> string" where
  "pad_left c w s = replicate (w - length s) c @ s"

definition number :: "nat \<Rightarrow> int \<Rightarrow> string" where
  "number b i = (if i < 0 then CHR ''-'' # digits b (nat (- i)) else digits b (nat i))"

definition is_digit :: "char \<Rightarrow> bool" where
  "is_digit c \<longleftrightarrow> 48 \<le> (of_char c :: nat) \<and> (of_char c :: nat) \<le> 57"

definition is_flag :: "char \<Rightarrow> bool" where
  "is_flag c \<longleftrightarrow> c \<in> set ''#0+- ''"

text \<open>A number is padded with zeros between its sign and its digits.\<close>

definition format_arg :: "string \<Rightarrow> string \<Rightarrow> char \<Rightarrow> arg \<Rightarrow> string option" where
  "format_arg flags width verb a =
     (let w = foldl (\<lambda>n c. 10 * n + (of_char c - 48)) 0 width in
      if flags \<noteq> [] \<and> flags \<noteq> ''0'' then None
      else (case a of
         ArgS s \<Rightarrow> if verb \<in> {CHR ''s'', CHR ''v''} \<and> flags = [] then Some (pad_left CHR '' '' w s) else None
       | ArgI i \<Rightarrow>
           if verb \<in> {CHR ''d'', CHR ''v'', CHR ''X''}
           then (let b = (if verb = CHR ''X'' then 16 else 10) in
                 Some (if flags = [] then pad_left CHR '' '' w (number b i)
                       else if i < 0 then CHR ''-'' # pad_left CHR ''0'' (w - 1) (digits b (nat (- i)))
                       else pad_left CHR ''0'' w (digits b (nat i))))
           else None))"

text \<open>What follows a percent sign: flags, width and the rest, which starts with the verb.\<close>

definition directive :: "string \<Rightarrow> string \<times> string \<times> string" where
  "directive s =
     (let rest = dropWhile is_flag s in (takeWhile is_flag s, takeWhile is_digit rest, dropWhile is_digit rest))"

lemma directive_split: "directive s = (f, w, r) \<Longrightarrow> s = f @ w @ r \<and> (\<forall>c\<in>set f. is_flag c) \<and> (\<forall>c\<in>set w. is_digit c)"
  by (auto simp: directive_def Let_def dest: set_takeWhileD)

definition missing :: "char \<Rightarrow> string" where
  "missing verb = ''%!'' @ [verb] @ ''(MISSING)''"

function (sequential) sprintf :: "string \<Rightarrow> arg list \<Rightarrow> string option" where
  "sprintf [] args = (if args = [] then Some [] else None)"
| "sprintf (c # s) args =
     (if c \<noteq> CHR ''%'' then map_option ((#) c) (sprintf s args)
      else (case directive s of (flags, width, rest) \<Rightarrow>
        (case rest of
           [] \<Rightarrow> if args = [] then Some ''%!(NOVERB)'' else None
         | verb # rest \<Rightarrow>
             if verb = CHR ''%'' then map_option ((#) CHR ''%'') (sprintf rest args)
             else if verb \<in> set ''.*['' \<or> (128 :: nat) \<le> of_char verb then None
             else (case args of
                     [] \<Rightarrow> map_option ((@) (missing verb)) (sprintf rest [])
                   | a # args \<Rightarrow>
                       (case format_arg flags width verb a of
                          None \<Rightarrow> None
                        | Some t \<Rightarrow> map_option ((@) t) (sprintf rest args))))))"
  by pat_completeness auto
termination
  by (relation "measure (\<lambda>(s, _). length s)") (auto dest!: directive_split [OF sym])

section \<open>Levels and loggers\<close>

definition LevelDebug :: int where [simp]: "LevelDebug = 0"
definition LevelInfo :: int where [simp]: "LevelInfo = 1"
definition LevelWarn :: int where [simp]: "LevelWarn = 2"
definition LevelError :: int where [simp]: "LevelError = 3"

definition Level_String :: "int \<Rightarrow> string" where
  "Level_String l =
     (if l = LevelDebug then ''DEBUG'' else if l = LevelInfo then ''INFO'' else if l = LevelWarn then ''WARN''
      else if l = LevelError then ''ERROR'' else ''UNKNOWN'')"

datatype Logger = DefaultLogger int | NoOpLogger

definition NewDefaultLogger :: "int \<Rightarrow> Logger" where "NewDefaultLogger level = DefaultLogger level"
definition NewNoOpLogger :: Logger where "NewNoOpLogger = NoOpLogger"

text \<open>What a call prints: at most one line.\<close>

type_synonym lines = "string option list"

definition DefaultLogger_Debug :: "int \<Rightarrow> string \<Rightarrow> arg list \<Rightarrow> lines" where
  "DefaultLogger_Debug level format args = (if level \<le> LevelDebug then [sprintf (''[DEBUG] '' @ format) args] else [])"

definition DefaultLogger_Info :: "int \<Rightarrow> string \<Rightarrow> arg list \<Rightarrow> lines" where
  "DefaultLogger_Info level format args = (if level \<le> LevelInfo then [sprintf (''[INFO] '' @ format) args] else [])"

definition DefaultLogger_Warn :: "int \<Rightarrow> string \<Rightarrow> arg list \<Rightarrow> lines" where
  "DefaultLogger_Warn level format args = (if level \<le> LevelWarn then [sprintf (''[WARN] '' @ format) args] else [])"

definition DefaultLogger_Error :: "int \<Rightarrow> string \<Rightarrow> arg list \<Rightarrow> lines" where
  "DefaultLogger_Error level format args = (if level \<le> LevelError then [sprintf (''[ERROR] '' @ format) args] else [])"

text \<open>The methods of the interface, on either logger.\<close>

fun Logger_Debug :: "Logger \<Rightarrow> string \<Rightarrow> arg list \<Rightarrow> lines" where
  "Logger_Debug (DefaultLogger level) format args = DefaultLogger_Debug level format args"
| "Logger_Debug NoOpLogger format args = []"

fun Logger_Info :: "Logger \<Rightarrow> string \<Rightarrow> arg list \<Rightarrow> lines" where
  "Logger_Info (DefaultLogger level) format args = DefaultLogger_Info level format args"
| "Logger_Info NoOpLogger format args = []"

fun Logger_Warn :: "Logger \<Rightarrow> string \<Rightarrow> arg list \<Rightarrow> lines" where
  "Logger_Warn (DefaultLogger level) format args = DefaultLogger_Warn level format args"
| "Logger_Warn NoOpLogger format args = []"

fun Logger_Error :: "Logger \<Rightarrow> string \<Rightarrow> arg list \<Rightarrow> lines" where
  "Logger_Error (DefaultLogger level) format args = DefaultLogger_Error level format args"
| "Logger_Error NoOpLogger format args = []"

fun Logger_SetLevel :: "Logger \<Rightarrow> int \<Rightarrow> Logger" where
  "Logger_SetLevel (DefaultLogger l) level = DefaultLogger level"
| "Logger_SetLevel NoOpLogger level = NoOpLogger"

section \<open>The global logger\<close>

text \<open>\<open>lgStore\<close> holds the loggers; a pointer to a logger is its index.\<close>

record logging =
  lgStore :: "Logger list"
  lgDefault :: nat
  lgFrameDebug :: bool
  lgOutput :: lines

text \<open>\<open>strconv.ParseBool\<close>, and the initialisation of the package from the environment variable.\<close>

definition parse_bool :: "string \<Rightarrow> bool option" where
  "parse_bool s =
     (if s \<in> {''1'', ''t'', ''T'', ''TRUE'', ''true'', ''True''} then Some True
      else if s \<in> {''0'', ''f'', ''F'', ''FALSE'', ''false'', ''False''} then Some False
      else None)"

definition logger_init :: "string \<Rightarrow> logging" where
  "logger_init val =
     \<lparr>lgStore = [NewDefaultLogger LevelInfo], lgDefault = 0,
      lgFrameDebug = (if val \<noteq> [] then (case parse_bool val of Some enabled \<Rightarrow> enabled | None \<Rightarrow> False) else False),
      lgOutput = []\<rparr>"

definition new_logger :: "Logger \<Rightarrow> logging \<Rightarrow> nat \<times> logging" where
  "new_logger l s = (length (lgStore s), s\<lparr>lgStore := lgStore s @ [l]\<rparr>)"

definition SetDefault :: "nat \<Rightarrow> logging \<Rightarrow> logging" where
  "SetDefault p s = s\<lparr>lgDefault := p\<rparr>"

definition GetDefault :: "logging \<Rightarrow> nat" where
  "GetDefault s = lgDefault s"

text \<open>A call of a method on the logger a pointer leads to.\<close>

definition log_with :: "(Logger \<Rightarrow> string \<Rightarrow> arg list \<Rightarrow> lines) \<Rightarrow> nat \<Rightarrow> string \<Rightarrow> arg list \<Rightarrow> logging \<Rightarrow> logging" where
  "log_with m p format args s = s\<lparr>lgOutput := lgOutput s @ m (lgStore s ! p) format args\<rparr>"

definition set_level :: "nat \<Rightarrow> int \<Rightarrow> logging \<Rightarrow> logging" where
  "set_level p level s = s\<lparr>lgStore := (lgStore s)[p := Logger_SetLevel (lgStore s ! p) level]\<rparr>"

definition Log_Debug :: "string \<Rightarrow> arg list \<Rightarrow> logging \<Rightarrow> logging" where
  "Log_Debug format args s = log_with Logger_Debug (lgDefault s) format args s"

definition Log_Info :: "string \<Rightarrow> arg list \<Rightarrow> logging \<Rightarrow> logging" where
  "Log_Info format args s = log_with Logger_Info (lgDefault s) format args s"

definition Log_Warn :: "string \<Rightarrow> arg list \<Rightarrow> logging \<Rightarrow> logging" where
  "Log_Warn format args s = log_with Logger_Warn (lgDefault s) format args s"

definition Log_Error :: "string \<Rightarrow> arg list \<Rightarrow> logging \<Rightarrow> logging" where
  "Log_Error format args s = log_with Logger_Error (lgDefault s) format args s"

text \<open>\<open>Logf\<close> passes the formatted message on as a format; it is \<open>None\<close> where the first formatting is.\<close>

definition Logf :: "int \<Rightarrow> string \<Rightarrow> arg list \<Rightarrow> logging \<Rightarrow> logging option" where
  "Logf level format args s =
     (case sprintf format args of
        None \<Rightarrow> None
      | Some msg \<Rightarrow> Some
          (if level = LevelDebug then log_with Logger_Debug (lgDefault s) msg [] s
           else if level = LevelInfo then log_with Logger_Info (lgDefault s) msg [] s
           else if level = LevelWarn then log_with Logger_Warn (lgDefault s) msg [] s
           else if level = LevelError then log_with Logger_Error (lgDefault s) msg [] s
           else s))"

section \<open>Frames\<close>

definition SetFrameDebug :: "bool \<Rightarrow> logging \<Rightarrow> logging" where
  "SetFrameDebug enable s = s\<lparr>lgFrameDebug := enable\<rparr>"

definition IsFrameDebugEnabled :: "logging \<Rightarrow> bool" where
  "IsFrameDebugEnabled s = lgFrameDebug s"

definition newline :: char where "newline = CHR 0x0A"

definition hex_cell :: "byte \<Rightarrow> string" where
  "hex_cell b = pad_left CHR ''0'' 2 (digits 16 (unat b)) @ '' ''"

definition ascii_cell :: "byte \<Rightarrow> char" where
  "ascii_cell b = (if b \<ge> 32 \<and> b \<le> 126 then char_of (unat b) else CHR ''.'')"

definition dump_row :: "nat \<Rightarrow> bytes \<Rightarrow> string" where
  "dump_row i data =
     (let stop = (if i + 16 > length data then length data else i + 16);
          row = take (stop - i) (drop i data)
      in ''    '' @ pad_left CHR ''0'' 4 (digits 16 i) @ '' | ''
         @ concat (map hex_cell row) @ concat (replicate (i + 16 - stop) ''   '')
         @ ''| '' @ map ascii_cell row)"

function dump_rows :: "nat \<Rightarrow> bytes \<Rightarrow> string" where
  "dump_rows i data =
     (if i < length data
      then dump_row i data @ (if i + 16 < length data then [newline] else []) @ dump_rows (i + 16) data
      else [])"
  by pat_completeness auto
termination by (relation "measure (\<lambda>(i, data). length data - i)") auto

declare dump_rows.simps [simp del]

definition formatFrameHex :: "bytes \<Rightarrow> string" where
  "formatFrameHex data = (if length data = 0 then ''    <empty>'' else dump_rows 0 data)"

definition LogFrameReceived :: "string \<Rightarrow> bytes \<Rightarrow> logging \<Rightarrow> logging" where
  "LogFrameReceived channelID data s =
     (if \<not> lgFrameDebug s then s
      else Log_Info ''%s'' [ArgS (formatFrameHex data)]
             (Log_Info ''<<< FRAME RECEIVED [Channel: %s] (%d bytes)'' [ArgS channelID, ArgI (int (length data))] s))"

definition LogFrameSent :: "string \<Rightarrow> bytes \<Rightarrow> logging \<Rightarrow> logging" where
  "LogFrameSent channelID data s =
     (if \<not> lgFrameDebug s then s
      else Log_Info ''%s'' [ArgS (formatFrameHex data)]
             (Log_Info ''>>> FRAME SENT [Channel: %s] (%d bytes)'' [ArgS channelID, ArgI (int (length data))] s))"

section \<open>The API\<close>

text \<open>The global functions of \<open>pkg/dnp3\<close>; \<open>manager_logger\<close> is the pointer that \<open>NewManager\<close> keeps.\<close>

definition SetLogLevel :: "int \<Rightarrow> logging \<Rightarrow> logging" where
  "SetLogLevel level s = (case new_logger (NewDefaultLogger level) s of (debugLogger, s1) \<Rightarrow> SetDefault debugLogger s1)"

definition EnableFrameDebug :: "bool \<Rightarrow> logging \<Rightarrow> logging" where
  "EnableFrameDebug enable s = SetFrameDebug enable s"

definition manager_logger :: "logging \<Rightarrow> nat" where
  "manager_logger s = GetDefault s"

section \<open>A dump is lossless\<close>

text \<open>Reading a dump back: on each line the cells after the first bar.\<close>

definition hex_value :: "char \<Rightarrow> nat" where
  "hex_value c = (if of_char c < (58 :: nat) then of_char c - 48 else of_char c - 55)"

definition is_hex :: "char \<Rightarrow> bool" where
  "is_hex c \<longleftrightarrow> c \<in> set ''0123456789ABCDEF''"

fun read_cells :: "string \<Rightarrow> bytes" where
  "read_cells (h # l # b # rest) =
     (if is_hex h then of_nat (16 * hex_value h + hex_value l) # read_cells rest else [])"
| "read_cells _ = []"

definition read_row :: "string \<Rightarrow> bytes" where
  "read_row line = read_cells (drop 2 (dropWhile (\<lambda>c. c \<noteq> CHR ''|'') line))"

function read_dump :: "string \<Rightarrow> bytes" where
  "read_dump s =
     (if s = [] then []
      else read_row (takeWhile (\<lambda>c. c \<noteq> newline) s) @ read_dump (drop 1 (dropWhile (\<lambda>c. c \<noteq> newline) s)))"
  by pat_completeness auto
termination
proof (relation "measure length", goal_cases)
  case (2 s)
  then show ?case using length_dropWhile_le [of "\<lambda>c. c \<noteq> newline" s] by (cases s) auto
qed simp

declare read_dump.simps [simp del]

lemma read_dump_Nil [simp]: "read_dump [] = []"
  by (subst read_dump.simps) simp

lemma hex_digits_all:
  "list_all (\<lambda>n. is_hex (digit n) \<and> hex_value (digit n) = n \<and> digit n \<noteq> newline \<and> digit n \<noteq> CHR ''|'') [0..<16]"
  by code_simp

lemma hex_digit:
  assumes "n < 16"
  shows "is_hex (digit n)" and "hex_value (digit n) = n" and "digit n \<noteq> newline" and "digit n \<noteq> CHR ''|''"
  using hex_digits_all assms unfolding list_all_iff by (metis atLeastLessThan_iff set_upt zero_le)+

lemma hex_cell_digits: "hex_cell b = [digit (unat b div 16), digit (unat b mod 16), CHR '' '']"
proof -
  have "unat b < 256" using unsigned_less [of b] by simp
  then have "unat b div 16 < 16" by (simp add: less_mult_imp_div_less)
  moreover have "digit 0 = CHR ''0''" by code_simp
  ultimately show ?thesis
    by (auto simp: hex_cell_def pad_left_def digits.simps [of 16] simp del: digit.simps)
qed

lemma byte_digits: "unat (b :: byte) div 16 < 16" "unat b mod 16 < 16"
  using unsigned_less [of b] by (simp_all add: less_mult_imp_div_less)

lemma read_cells_row:
  assumes "t = [] \<or> \<not> is_hex (hd t)"
  shows "read_cells (concat (map hex_cell bs) @ t) = bs"
proof (induction bs)
  case Nil
  then show ?case using assms by (cases t rule: read_cells.cases) auto
next
  case (Cons b bs)
  then show ?case using hex_digit [OF byte_digits(1) [of b]] hex_digit [OF byte_digits(2) [of b]]
    by (simp add: hex_cell_digits del: digit.simps)
qed

lemma digits_clean: "c \<in> set (digits 16 n) \<Longrightarrow> c \<noteq> newline \<and> c \<noteq> CHR ''|''"
proof (induction n rule: less_induct)
  case (less n)
  show ?case
  proof (cases "n < 16")
    case True
    then show ?thesis using less.prems hex_digit [of n] by (simp add: digits.simps [of 16 n] del: digit.simps)
  next
    case False
    then have "c \<in> set (digits 16 (n div 16)) \<or> c = digit (n mod 16)"
      using less.prems by (auto simp: digits.simps [of 16 n] simp del: digit.simps)
    then show ?thesis using less.IH [of "n div 16"] False hex_digit [of "n mod 16"] by (auto simp del: digit.simps)
  qed
qed

lemma ascii_clean: "ascii_cell b \<noteq> newline"
proof (cases "b \<ge> 32 \<and> b \<le> 126")
  case True
  then have b: "32 \<le> unat b" "unat b < 256" using unsigned_less [of b] by (auto simp: word_le_nat_alt)
  then have "(of_char (ascii_cell b) :: nat) = unat b" using True by (simp add: ascii_cell_def)
  moreover have "(of_char newline :: nat) = 10" by (simp add: newline_def)
  ultimately show ?thesis using b by (metis numeral_le_iff semiring_norm(69,71,72))
qed (auto simp: ascii_cell_def newline_def)

lemma cells_clean: "c \<in> set (concat (map hex_cell bs)) \<Longrightarrow> c \<noteq> newline"
proof (induction bs)
  case (Cons b bs)
  then show ?case using hex_digit(3) [OF byte_digits(1) [of b]] hex_digit(3) [OF byte_digits(2) [of b]]
    by (auto simp: hex_cell_digits newline_def simp del: digit.simps)
qed simp

lemma dump_row_shape:
  "\<exists>t. dump_row i data = (''    '' @ pad_left CHR ''0'' 4 (digits 16 i) @ '' '') @ ''| ''
      @ concat (map hex_cell (take 16 (drop i data))) @ t
    \<and> (t = [] \<or> \<not> is_hex (hd t)) \<and> newline \<notin> set t"
proof -
  let ?stop = "if i + 16 > length data then length data else i + 16"
  let ?row = "take (?stop - i) (drop i data)"
  let ?t = "concat (replicate (i + 16 - ?stop) ''   '') @ ''| '' @ map ascii_cell ?row"
  have "?row = take 16 (drop i data)" by (auto simp: min_def)
  moreover have "\<not> is_hex (hd ?t)" by (cases "i + 16 - ?stop") (simp_all add: is_hex_def)
  moreover have "newline \<notin> set ?t"
    using ascii_clean [THEN not_sym] by (auto simp del: newline_def) (simp_all add: newline_def)
  ultimately show ?thesis unfolding dump_row_def Let_def by (intro exI [of _ ?t]) simp
qed

lemma dump_row_read: "read_row (dump_row i data) = take 16 (drop i data)"
proof -
  obtain t where t: "dump_row i data = (''    '' @ pad_left CHR ''0'' 4 (digits 16 i) @ '' '') @ ''| ''
      @ concat (map hex_cell (take 16 (drop i data))) @ t" "t = [] \<or> \<not> is_hex (hd t)"
    using dump_row_shape by blast
  have "\<forall>c\<in>set (''    '' @ pad_left CHR ''0'' 4 (digits 16 i) @ '' ''). c \<noteq> CHR ''|''"
    using digits_clean by (auto simp: pad_left_def)
  then have "dropWhile (\<lambda>c. c \<noteq> CHR ''|'') (dump_row i data)
      = ''| '' @ concat (map hex_cell (take 16 (drop i data))) @ t"
    unfolding t(1) by (subst dropWhile_append2) auto
  then show ?thesis using read_cells_row [OF t(2)] by (simp add: read_row_def)
qed

lemma dump_row_clean: "\<forall>c\<in>set (dump_row i data). c \<noteq> newline"
proof -
  obtain t where t: "dump_row i data = (''    '' @ pad_left CHR ''0'' 4 (digits 16 i) @ '' '') @ ''| ''
      @ concat (map hex_cell (take 16 (drop i data))) @ t" "newline \<notin> set t"
    using dump_row_shape by blast
  have "\<forall>c\<in>set (''    '' @ pad_left CHR ''0'' 4 (digits 16 i) @ '' ''). c \<noteq> newline"
    using digits_clean by (auto simp: pad_left_def newline_def)
  moreover have "\<forall>c\<in>set ''| ''. c \<noteq> newline" by (simp add: newline_def)
  moreover have "\<forall>c\<in>set (concat (map hex_cell (take 16 (drop i data)))). c \<noteq> newline" using cells_clean by blast
  ultimately show ?thesis using t(2) unfolding t(1) set_append by blast
qed

lemma read_dump_rows: "read_dump (dump_rows i data) = drop i data"
proof (induction i data rule: dump_rows.induct)
  case (1 i data)
  have row: "dump_row i data \<noteq> []" by (simp add: dump_row_def Let_def)
  note take_row = takeWhile_append2 [OF dump_row_clean [rule_format]] dropWhile_append2 [OF dump_row_clean [rule_format]]
  consider "length data \<le> i" | "i < length data" "length data \<le> i + 16" | "i + 16 < length data" by linarith
  then show ?case
  proof cases
    case 1
    then show ?thesis by (simp add: dump_rows.simps [of i])
  next
    case 2
    have "dump_rows (i + 16) data = []" using 2 by (simp add: dump_rows.simps [of "i + 16"])
    then have "dump_rows i data = dump_row i data" using 2 by (simp add: dump_rows.simps [of i])
    moreover have whole: "takeWhile (\<lambda>c. c \<noteq> newline) (dump_row i data) = dump_row i data"
      "dropWhile (\<lambda>c. c \<noteq> newline) (dump_row i data) = []"
      using dump_row_clean by (auto simp: takeWhile_eq_all_conv dropWhile_eq_Nil_conv)
    ultimately show ?thesis using row 2
      by (simp add: read_dump.simps [of "dump_row i data"] dump_row_read whole)
  next
    case 3
    then have "dump_rows i data = dump_row i data @ newline # dump_rows (i + 16) data"
      by (simp add: dump_rows.simps [of i])
    then have "read_dump (dump_rows i data) = take 16 (drop i data) @ drop (i + 16) data"
      using 1 3 row by (simp add: read_dump.simps [of "dump_row i data @ _"] take_row dump_row_read)
    then show ?thesis using append_take_drop_id [of 16 "drop i data"] by (simp add: add.commute)
  qed
qed

text \<open>
  C24: the dump of a frame in the log is lossless: from the text that \<open>formatFrameHex\<close> prints for any
  bytes, rows of sixteen with the last one padded, the bytes can be read back. So no two frames
  have the same dump.
\<close>

theorem hexdump_roundtrip: "read_dump (formatFrameHex data) = data"
proof (cases "data = []")
  case True
  then show ?thesis by (simp add: formatFrameHex_def) code_simp
next
  case False
  then show ?thesis by (simp add: formatFrameHex_def read_dump_rows)
qed

section \<open>Formatting twice\<close>

lemma sprintf_plain: "CHR ''%'' \<notin> set m \<Longrightarrow> sprintf m [] = Some m"
  by (induction m) auto

lemma sprintf_prefix: "CHR ''%'' \<notin> set p \<Longrightarrow> sprintf (p @ m) args = map_option ((@) p) (sprintf m args)"
  by (induction p; cases "sprintf m args") auto

text \<open>What a directive without an operand prints.\<close>

lemma sprintf_directive:
  assumes "sprintf (CHR ''%'' # s) [] = Some t"
  shows "(t = ''%!(NOVERB)'' \<and> (\<forall>c\<in>set s. is_flag c \<or> is_digit c))
    \<or> (\<exists>p r t'. s = p @ CHR ''%'' # r \<and> sprintf r [] = Some t' \<and> t = CHR ''%'' # t')
    \<or> (\<exists>p verb r t'. s = p @ verb # r \<and> (\<forall>c\<in>set p. is_flag c \<or> is_digit c) \<and> verb \<noteq> CHR ''%''
        \<and> sprintf r [] = Some t' \<and> t = missing verb @ t')"
proof -
  obtain f w r where d: "directive s = (f, w, r)" by (cases "directive s")
  have s: "s = f @ w @ r" "\<forall>c\<in>set (f @ w). is_flag c \<or> is_digit c" using directive_split [OF d] by auto
  show ?thesis
  proof (cases r)
    case Nil
    then show ?thesis using assms d s by simp
  next
    case (Cons verb r')
    show ?thesis
    proof (cases "verb = CHR ''%''")
      case True
      then obtain t' where "sprintf r' [] = Some t'" "t = CHR ''%'' # t'" using assms d Cons by auto
      moreover have "s = (f @ w) @ CHR ''%'' # r'" using s(1) Cons True by simp
      ultimately show ?thesis by blast
    next
      case False
      then obtain t' where "sprintf r' [] = Some t'" "t = missing verb @ t'"
        using assms d Cons by (auto split: if_splits)
      moreover have "s = (f @ w) @ verb # r'" using s(1) Cons by simp
      ultimately show ?thesis using s(2) False by blast
    qed
  qed
qed

lemma no_descent: "sprintf (''!(MISSING)'' @ t) [] \<noteq> Some t"
proof (induction "length t" arbitrary: t rule: less_induct)
  case less
  show ?case
  proof
    assume "sprintf (''!(MISSING)'' @ t) [] = Some t"
    then obtain t' where "sprintf t [] = Some t'" "t = ''!(MISSING)'' @ t'"
      by (auto simp: sprintf_prefix [of "''!(MISSING)''"] simp del: append.simps)
    then show False using less [of t'] by auto
  qed
qed

lemma not_flag: "\<not> is_flag CHR ''!''" "\<not> is_digit CHR ''!''"
  by (simp_all add: is_flag_def is_digit_def)

text \<open>No message with a percent sign comes out as it was, not even behind something else.\<close>

lemma sprintf_changes:
  assumes "sprintf s [] = Some (p @ s)"
  shows "p = [] \<and> CHR ''%'' \<notin> set s"
  using assms
proof (induction "length s" arbitrary: s p rule: less_induct)
  case less
  show ?case
  proof (cases s)
    case Nil
    then show ?thesis using less.prems by simp
  next
    case (Cons c s')
    show ?thesis
    proof (cases "c = CHR ''%''")
      case False
      then obtain t where t: "sprintf s' [] = Some t" "p @ c # s' = c # t" using less.prems Cons by auto
      show ?thesis
      proof (cases p)
        case Nil
        then show ?thesis using t less.hyps [of s' "[]"] Cons False by simp
      next
        case (Cons a p')
        then show ?thesis using t less.hyps [of s' "p' @ [c]"] \<open>s = c # s'\<close> by simp
      qed
    next
      case True
      from sprintf_directive [OF less.prems [unfolded Cons True]]
      consider "p @ CHR ''%'' # s' = ''%!(NOVERB)''" "\<forall>c\<in>set s'. is_flag c \<or> is_digit c"
        | q r t where "s' = q @ CHR ''%'' # r" "sprintf r [] = Some t" "p @ CHR ''%'' # s' = CHR ''%'' # t"
        | q verb r t where "s' = q @ verb # r" "\<forall>c\<in>set q. is_flag c \<or> is_digit c" "verb \<noteq> CHR ''%''"
          "sprintf r [] = Some t" "p @ CHR ''%'' # s' = missing verb @ t"
        by auto
      then show ?thesis
      proof cases
        case 1
        then show ?thesis using not_flag by (auto simp: Cons_eq_append_conv append_eq_Cons_conv)
      next
        case (2 q r t)
        then have "t = (if p = [] then q else tl p @ CHR ''%'' # q) @ CHR ''%'' # r"
          by (cases p) auto
        then have "sprintf r [] = Some (((if p = [] then q else tl p @ CHR ''%'' # q) @ ''%'') @ r)" using 2(2) by simp
        then show ?thesis using less.hyps [of r] 2(1) Cons by fastforce
      next
        case (3 q verb r t)
        show ?thesis
        proof (cases "p = []")
          case True
          then have s': "s' = CHR ''!'' # verb # ''(MISSING)'' @ t" using 3(5) by (simp add: missing_def)
          then have "q = []" using 3(1,2) not_flag by (cases q) auto
          then have "sprintf (''!(MISSING)'' @ t) [] = Some t" using 3(1,4) s' by simp
          then show ?thesis using no_descent by blast
        next
          case False
          then obtain p' where "p = missing verb @ p'" "t = p' @ CHR ''%'' # s'"
            using 3(3,5) by (auto simp: missing_def append_eq_Cons_conv Cons_eq_append_conv)
          then have "sprintf r [] = Some ((p' @ CHR ''%'' # q @ [verb]) @ r)" using 3(1,4) by simp
          then show ?thesis using less.hyps [of r] 3(1) Cons by fastforce
        qed
      qed
    qed
  qed
qed

lemma output_inject [simp]: "s\<lparr>lgOutput := a\<rparr> = s\<lparr>lgOutput := b\<rparr> \<longleftrightarrow> a = b"
  by (auto dest: arg_cong [of _ _ lgOutput])

text \<open>
  \<open>Logf\<close> formats its message and hands the result to a method that formats it again. It prints what the
  method prints of the message exactly when the formatted message has no percent sign.
\<close>

theorem Logf_prints_iff:
  assumes "sprintf format args = Some msg" and "lgStore s ! lgDefault s = DefaultLogger level" and "level \<le> LevelInfo"
  shows "Logf LevelInfo format args s = Some (Log_Info ''%s'' [ArgS msg] s) \<longleftrightarrow> CHR ''%'' \<notin> set msg"
proof -
  have plain: "sprintf (''[INFO] '' @ ''%s'') [ArgS msg] = Some (''[INFO] '' @ msg)"
    unfolding sprintf_prefix [of "''[INFO] ''", simplified]
    by (simp add: directive_def format_arg_def pad_left_def is_flag_def is_digit_def Let_def)
  have again: "sprintf (''[INFO] '' @ msg) [] = map_option ((@) ''[INFO] '') (sprintf msg [])"
    by (rule sprintf_prefix) simp
  have "sprintf msg [] = Some msg \<longleftrightarrow> CHR ''%'' \<notin> set msg"
    using sprintf_plain sprintf_changes [of msg "[]"] by auto
  then show ?thesis using assms plain again
    by (cases "sprintf msg []")
      (auto simp: Logf_def Log_Info_def log_with_def DefaultLogger_Info_def simp del: append.simps)
qed

text \<open>
  \<open>SetLogLevel\<close>, which is to set the level of everything, does not reach what exists. A manager keeps
  the logger that was the default when it was made, and hands it to its channels, masters and
  outstations; \<open>SetLogLevel\<close> makes a new logger and leaves the old one alone. So whatever levels are
  set after that, what is logged through the manager is printed, or not, as before the first of them,
  while the global functions follow the last.
\<close>

theorem log_level_misses_managers:
  assumes "lgDefault s < length (lgStore s)"
  shows "log_with m (manager_logger s) format args (SetLogLevel level (fold SetLogLevel levels s))
      = (SetLogLevel level (fold SetLogLevel levels s))
          \<lparr>lgOutput := lgOutput s @ m (lgStore s ! lgDefault s) format args\<rparr>
    \<and> lgStore (SetLogLevel level (fold SetLogLevel levels s)) ! lgDefault (SetLogLevel level (fold SetLogLevel levels s))
      = DefaultLogger level"
proof -
  have one: "lgStore (SetLogLevel l u) = lgStore u @ [DefaultLogger l]" "lgOutput (SetLogLevel l u) = lgOutput u" for l u
    by (simp_all add: SetLogLevel_def new_logger_def SetDefault_def NewDefaultLogger_def)
  define after where "after = fold SetLogLevel levels s"
  have "length (lgStore s) \<le> length (lgStore after) \<and> lgOutput after = lgOutput s
      \<and> (\<forall>p<length (lgStore s). lgStore after ! p = lgStore s ! p)"
    unfolding after_def
  proof (induction levels arbitrary: s)
    case (Cons l levels)
    show ?case using Cons.IH [of "SetLogLevel l s"] by (auto simp: one nth_append)
  qed simp
  then show ?thesis using assms unfolding after_def [symmetric]
    by (simp add: log_with_def SetLogLevel_def new_logger_def SetDefault_def manager_logger_def GetDefault_def
        NewDefaultLogger_def nth_append)
qed

theorem log_level_misses_managers_witness:
  "log_with Logger_Debug (manager_logger (logger_init [])) ''x'' [] (SetLogLevel LevelDebug (fold SetLogLevel [] (logger_init [])))
    = (SetLogLevel LevelDebug (fold SetLogLevel [] (logger_init []))) \<lparr>lgOutput := []\<rparr>"
  using log_level_misses_managers [of "logger_init []" Logger_Debug "''x''" "[]" LevelDebug "[]"]
  by (simp add: logger_init_def NewDefaultLogger_def DefaultLogger_Debug_def)

end
