(* ===== verification/Spec2Isabelle.thy ===== *)
theory Spec2Isabelle
  imports Link_Strict_Pair Link_Strict_Channel Link_Interface Link_Lax_Pair Transport_Strict Transport_Endpoint App_Objects
    App_Strict_Measurement App_Strict_Reassembler Session_Strict Station_System App_Validation Channel_Queue
    Channel_Udp Channel_Quic Mock_Channel Station_Wire Late_Commands Outstation_Updates Example_Outstation Logging
begin

text \<open>
  Verification of dnp3-go, a DNP3 protocol stack in Go.

  \<^bold>\<open>The program.\<close> A master polls and commands outstations over a channel. A message of the
  application layer (an APDU: control byte, function code, objects) is cut by the transport layer
  into segments with a one-byte header, and each segment travels in a link frame whose blocks
  carry CRCs. The repository has two stacks. The \<^emph>\<open>stations\<close> (\<open>pkg/master\<close>, \<open>pkg/outstation\<close> on
  \<open>pkg/channel\<close>, \<open>pkg/transport/layer.go\<close> and the lax link codec \<open>pkg/link/frame.go\<close>) send
  unconfirmed frames through a channel with a router; beside them stand a link layer for each
  station (\<open>master_link.go\<close>, \<open>outstation_link.go\<close>) and transport endpoints. The \<^emph>\<open>strict session\<close>
  (\<open>pkg/session/strict.go\<close>) drives a strict link state machine with a frame-count bit, retries,
  a strict transport and a strict application layer over one byte stream. Under the channel lies a
  physical channel (TCP, UDP or QUIC); above the stations, \<open>pkg/dnp3\<close> is the API: a manager of
  channels to which masters and outstations are added.

  \<^bold>\<open>Theories and sources.\<close>

  \<^item> \<open>Dnp_Base\<close>: the prelude: machine types, the result type of a fallible Go function,
    little-endian codecs, bit lemmas. \<open>Codec\<close>, \<open>Fcb_Receiver\<close> and \<open>Reassembly\<close> hold the locales of
    the three contracts that several components share: self-delimiting codecs, duplicate
    detection by a frame-count bit, and reassembly of segments.
  \<^item> Link: \<open>Link_Constants\<close> and \<open>Link_Crc\<close> (\<open>constants.go\<close>, \<open>crc.go\<close>), \<open>Link_Frame\<close> (\<open>frame.go\<close>),
    \<open>Link_Strict_Codec\<close> (\<open>strict.go\<close>), \<open>Link_Strict_State\<close> (\<open>strict_state.go\<close>), \<open>Link_Strict_Pair\<close> (two
    such states over a connection that loses responses), \<open>Link_Strict_Channel\<close>
    (\<open>strict_channel.go\<close>), \<open>Link_Outstation\<close> and \<open>Link_Master\<close> (\<open>outstation_link.go\<close>,
    \<open>master_link.go\<close>), \<open>Link_Interface\<close> (\<open>interface.go\<close>: the contract of both as a locale) and
    \<open>Link_Lax_Pair\<close> (a master link and an outstation link on a line that loses frames
    and delays answers).
  \<^item> Transport: \<open>Transport_Segment\<close> (\<open>segment.go\<close>, \<open>reassembly.go\<close>, \<open>layer.go\<close>), \<open>Transport_Strict\<close>
    (\<open>strict.go\<close>), \<open>Transport_Endpoint\<close> (the endpoints of master and outstation with statistics
    and timers).
  \<^item> Application: \<open>App_Apdu\<close> (\<open>functions.go\<close>, \<open>apdu.go\<close>, indications), \<open>App_Objects\<close> and \<open>App_Parsing\<close>
    (\<open>objects.go\<close>, \<open>parser.go\<close>, \<open>builder.go\<close>), \<open>App_Controls\<close>, \<open>App_Datapoints\<close>, \<open>App_Validation\<close>
    (\<open>controls.go\<close>, \<open>datapoints.go\<close>, \<open>time.go\<close>, \<open>validation.go\<close>), \<open>App_Strict_Codec\<close>,
    \<open>App_Strict_Measurement\<close> and \<open>App_Strict_Reassembler\<close> (\<open>strict.go\<close>, \<open>strict_object.go\<close>,
    \<open>strict_measurement.go\<close>, \<open>strict_reassembler.go\<close>).
  \<^item> \<open>Session_Strict\<close>: the strict session (\<open>pkg/session/strict.go\<close>), composed of the strict layers.
  \<^item> Channel: \<open>Channel_Core\<close> (\<open>pkg/channel/channel.go\<close>, \<open>router.go\<close>, \<open>statistics.go\<close>) and
    \<open>Channel_Queue\<close>, the goroutines around its write queue. \<open>Executions\<close> holds finite and infinite
    interleavings, fairness and the locale of progress arguments, \<open>Requests\<close> the locale of a bounded
    queue of requests with workers that answer them.
  \<^item> Physical channels: \<open>Channel_Physical\<close> (statistics, the contract of the interface as a locale, the
    division of a stream into frames), \<open>Channel_Tcp\<close>, \<open>Channel_Udp\<close> and \<open>Channel_Quic\<close>
    (\<open>tcp_channel.go\<close>, \<open>udp_channel.go\<close>, \<open>quic_channel.go\<close>), and \<open>Mock_Channel\<close>, the channel of
    \<open>examples/custom_channel\<close>.
  \<^item> Stations: \<open>Outstation_Events\<close>, \<open>Outstation_Database\<close> and \<open>Outstation_Station\<close> (\<open>pkg/outstation\<close>),
    \<open>Outstation_Updates\<close> (the goroutines of \<open>Apply\<close>, \<open>Enable\<close> and \<open>Shutdown\<close>), \<open>Measurement_Types\<close>,
    \<open>Task_Queue\<close> (\<open>pkg/internal/queue\<close>), \<open>Master_Commands\<close>, \<open>Master_Measurements\<close> and
    \<open>Master_Station\<close> (\<open>pkg/master\<close>), \<open>Late_Commands\<close> (commands whose caller gave up),
    \<open>Station_Session\<close> (the sessions of both, with the locale of a
    station on a channel), \<open>Station_System\<close> (a master and an outstation together), \<open>Station_Wire\<close> (both over TCP).
  \<^item> API: \<open>Facade_Manager\<close> (\<open>pkg/dnp3/manager.go\<close>, \<open>channel.go\<close>), \<open>Facade_Stations\<close>
    (the factories, configurations, wrappers and command constructors of \<open>pkg/dnp3\<close>) and
    \<open>Facade_Callbacks\<close> (the wrappers of callbacks). \<open>Logging\<close>: \<open>pkg/internal/logger\<close> and
    \<open>pkg/dnp3/logger.go\<close>. \<open>Example_Outstation\<close>: the outstations of \<open>simple_client.go\<close> and
    \<open>test_outstation.go\<close> on the API.

  \<^bold>\<open>How code becomes definitions.\<close> Definitions carry the names of the Go functions, with the type
  as a prefix where two would clash. A Go struct is a record, a pointer receiver is state passed
  and returned, a pair of value and error is a sum with the error on the left, an unsigned
  integer is a word of its width, \<open>int\<close> and durations are integers. Floats are bit patterns, and
  the conversions between floats and integers are an argument (\<open>float_ops\<close>). Go maps are
  functions to options or lists of pairs. An operation under a mutex is one step. Objects shared by
  several pointers live in a store, and a pointer is an index. Calls of the logger are left out of the
  operations; \<open>Logging\<close> models what they print.

  Where goroutines matter (the write queue, the updates of an outstation, the physical channels, the manager) the model is a step
  function: a label names the goroutine and the atomic action between two locks, channel operations
  or system calls, and the result is \<open>None\<close> where the action cannot happen. Safety is proved for all
  finite interleavings, liveness for all infinite ones that are weakly fair.

  What the environment does is data: the reads, writes, deadlines and polls of a stream
  connection, the frames that arrive while a task waits, the timeouts and the end of a context
  are lists of events that an operation consumes and whose rest it returns. A list that has run
  out means that reads and waits time out, that contexts are not cancelled and that writes
  succeed. The clock, the results of callbacks and the configuration are arguments.

  Loops are structural recursions over the events or the data, or functions with a termination
  proof: the parser moves forward with every header it reads. No definition needs fuel.

  \<^bold>\<open>What the lemmas show.\<close> Codecs: each encoder and decoder are inverse to each other, on exactly
  the inputs both accept, and corrupted frames are refused. Link: confirmed data is delivered
  exactly once and in order, by an invariant over all interleavings, and where it is not (a
  reset, a refused message, an acknowledgement that outlives its call). Transport and application
  reassembly: what is handed up is made of consecutive parts and nothing else, whatever arrives; what is
  sent arrives; the endpoints of master and outstation simulate the transport layer. Strict session: a
  message sent is received as it was, however the stream is cut, and memory stays bounded.
  Measurements: decoding accepts exactly what encoding yields, and what is decoded has the type its
  variation announces. Write queue: requests are accounted for, each is answered while a write loop
  lives, closing ends the loops; a request queued after that is never answered. Physical channels:
  connections and bytes are counted, frames arrive whole and in order; and the ways in which the
  code loses connections. Manager: the registered channels are the open ones. Task
  queue: the heap refines a list sorted by time and priority. Outstation: events are exactly the
  crossings of the deadband, the buffer keeps the newest, updates of one batch commute, every
  message that parses gets the answer of \<open>answer\<close>; what \<open>Apply\<close> is given never reaches the database, an accepted
  \<open>Apply\<close> is answered while a processor lives, \<open>Shutdown\<close> returns. Logger: a hex dump determines its
  bytes, and changing the level leaves the loggers of managers as they are. Master: command
  statuses, scans, late responses, commands sent after their call has failed. System: an integrity poll
  brings every binary input, analog input and counter point of the database to the application of the
  master, also when the bytes of both sides travel over TCP channels; commands are reported successful
  though the outstation does nothing.

  \<^bold>\<open>Not modelled.\<close> The generation of TLS certificates in \<open>quic_channel.go\<close>; of the examples,
  \<open>tcp_example.go\<close>, which uses an API that does not exist and does not compile, and the programs
  \<open>simple_master.go\<close>, \<open>simple_example.go\<close> and \<open>quic_example\<close>, which call modelled operations in a row
  and print; \<open>String\<close> methods, plain getters and constants that no code uses. Real time: a timeout is
  an event that may happen, not a duration.
\<close>

end
